(* ===== verification/Rust_Strings.thy ===== *)
theory Rust_Strings
  imports Rt_Prelude
begin

section \<open>Strings: the \<open>str\<close> operations the code uses\<close>

text \<open>
  A Rust \<open>String\<close> or \<open>&str\<close> is its sequence of UTF-8 bytes, a \<open>char list\<close> whose characters
  are the bytes 0 to 255, so \<open>length\<close> is \<open>str::len\<close> and indices are byte offsets as in Rust.
  The operations are those of \<open>core::str\<close> that the source calls with string or ASCII
  patterns; on UTF-8 text a match of an ASCII or UTF-8 pattern at the byte level is a match at
  the character level. \<open>str_trim\<close> strips the Unicode \<open>White_Space\<close> characters in their UTF-8
  spelling.
\<close>

definition starts_with :: "string \<Rightarrow> string \<Rightarrow> bool" where
  "starts_with s p = (take (length p) s = p)"

definition ends_with :: "string \<Rightarrow> string \<Rightarrow> bool" where
  "ends_with s p = (length p \<le> length s \<and> drop (length s - length p) s = p)"

definition strip_prefix :: "string \<Rightarrow> string \<Rightarrow> string option" where
  "strip_prefix s p = (if starts_with s p then Some (drop (length p) s) else None)"

definition strip_suffix :: "string \<Rightarrow> string \<Rightarrow> string option" where
  "strip_suffix s p = (if ends_with s p then Some (take (length s - length p) s) else None)"

fun str_find :: "string \<Rightarrow> string \<Rightarrow> nat option" where
  "str_find [] p = (if p = [] then Some 0 else None)"
| "str_find (c # cs) p =
     (if starts_with (c # cs) p then Some 0 else map_option Suc (str_find cs p))"

fun str_rfind :: "string \<Rightarrow> string \<Rightarrow> nat option" where
  "str_rfind [] p = (if p = [] then Some 0 else None)"
| "str_rfind (c # cs) p =
     (case str_rfind cs p of
        Some i \<Rightarrow> Some (Suc i)
      | None \<Rightarrow> if starts_with (c # cs) p then Some 0 else None)"

definition str_contains :: "string \<Rightarrow> string \<Rightarrow> bool" where
  "str_contains s p = (str_find s p \<noteq> None)"

definition has_char :: "string \<Rightarrow> char \<Rightarrow> bool" where
  "has_char s c = (c \<in> set s)"

definition split_once :: "string \<Rightarrow> string \<Rightarrow> (string \<times> string) option" where
  "split_once s p = map_option (\<lambda>i. (take i s, drop (i + length p) s)) (str_find s p)"

definition rsplit_once :: "string \<Rightarrow> string \<Rightarrow> (string \<times> string) option" where
  "rsplit_once s p = map_option (\<lambda>i. (take i s, drop (i + length p) s)) (str_rfind s p)"

fun str_split :: "string \<Rightarrow> char \<Rightarrow> string list" where
  "str_split [] c = [[]]"
| "str_split (x # xs) c =
     (if x = c then [] # str_split xs c
      else (case str_split xs c of [] \<Rightarrow> [[x]] | y # ys \<Rightarrow> (x # y) # ys))"

text \<open>\<open>s.splitn(n, c)\<close>: at most \<open>n\<close> pieces, the last one holding the rest.\<close>

fun str_splitn :: "nat \<Rightarrow> string \<Rightarrow> char \<Rightarrow> string list" where
  "str_splitn 0 s c = []"
| "str_splitn (Suc 0) s c = [s]"
| "str_splitn (Suc (Suc n)) s c =
     (case split_once s [c] of
        None \<Rightarrow> [s]
      | Some (a, b) \<Rightarrow> a # str_splitn (Suc n) b c)"

fun str_join :: "string \<Rightarrow> string list \<Rightarrow> string" where
  "str_join sep [] = []"
| "str_join sep [x] = x"
| "str_join sep (x # y # ys) = x @ sep @ str_join sep (y # ys)"

subsection \<open>White space\<close>

definition ws_seqs :: "string list" where
  "ws_seqs =
     [[CHR 0x09], [CHR 0x0A], [CHR 0x0B], [CHR 0x0C], [CHR 0x0D], [CHR 0x20],
      [CHR 0xC2, CHR 0x85], [CHR 0xC2, CHR 0xA0], [CHR 0xE1, CHR 0x9A, CHR 0x80],
      [CHR 0xE2, CHR 0x80, CHR 0x80], [CHR 0xE2, CHR 0x80, CHR 0x81],
      [CHR 0xE2, CHR 0x80, CHR 0x82], [CHR 0xE2, CHR 0x80, CHR 0x83],
      [CHR 0xE2, CHR 0x80, CHR 0x84], [CHR 0xE2, CHR 0x80, CHR 0x85],
      [CHR 0xE2, CHR 0x80, CHR 0x86], [CHR 0xE2, CHR 0x80, CHR 0x87],
      [CHR 0xE2, CHR 0x80, CHR 0x88], [CHR 0xE2, CHR 0x80, CHR 0x89],
      [CHR 0xE2, CHR 0x80, CHR 0x8A], [CHR 0xE2, CHR 0x80, CHR 0xA8],
      [CHR 0xE2, CHR 0x80, CHR 0xA9], [CHR 0xE2, CHR 0x80, CHR 0xAF],
      [CHR 0xE2, CHR 0x81, CHR 0x9F], [CHR 0xE3, CHR 0x80, CHR 0x80]]"

lemma ws_seqs_nonempty: "w \<in> set ws_seqs \<Longrightarrow> w \<noteq> []"
  by (auto simp: ws_seqs_def)

function trim_start :: "string \<Rightarrow> string" where
  "trim_start s =
     (case find_first (starts_with s) ws_seqs of
        None \<Rightarrow> s
      | Some w \<Rightarrow> trim_start (drop (length w) s))"
  by pat_completeness auto
termination
proof (relation "measure length", simp)
  fix s w
  assume "find_first (starts_with s) ws_seqs = Some w"
  then have "w \<in> set ws_seqs" "starts_with s w"
    by (auto dest: find_first_Some)
  then have "w \<noteq> []" "s \<noteq> []"
    by (auto simp: starts_with_def dest: ws_seqs_nonempty)
  then show "(drop (length w) s, s) \<in> measure length"
    by (cases s; cases w) auto
qed

declare trim_start.simps [simp del]

function trim_end :: "string \<Rightarrow> string" where
  "trim_end s =
     (case find_first (ends_with s) ws_seqs of
        None \<Rightarrow> s
      | Some w \<Rightarrow> trim_end (take (length s - length w) s))"
  by pat_completeness auto
termination
proof (relation "measure length", simp)
  fix s w
  assume "find_first (ends_with s) ws_seqs = Some w"
  then have "w \<in> set ws_seqs" "ends_with s w"
    by (auto dest: find_first_Some)
  then have "w \<noteq> []" "length w \<le> length s"
    by (auto simp: ends_with_def dest: ws_seqs_nonempty)
  then show "(take (length s - length w) s, s) \<in> measure length"
    by (cases w) auto
qed

declare trim_end.simps [simp del]

definition str_trim :: "string \<Rightarrow> string" where
  "str_trim s = trim_end (trim_start s)"

subsection \<open>Laws of prefixes, suffixes and searching\<close>

lemma starts_with_iff: "starts_with s p \<longleftrightarrow> (\<exists>t. s = p @ t)"
  by (metis append_eq_conv_conj append_take_drop_id starts_with_def)

lemma ends_with_iff: "ends_with s p \<longleftrightarrow> (\<exists>t. s = t @ p)"
proof
  assume "ends_with s p"
  then show "\<exists>t. s = t @ p"
    by (metis append_take_drop_id ends_with_def)
qed (auto simp: ends_with_def)

lemma starts_with_append [simp]: "starts_with (p @ t) p"
  by (auto simp: starts_with_iff)

lemma ends_with_append [simp]: "ends_with (t @ p) p"
  by (auto simp: ends_with_iff)

lemma starts_with_Nil [simp]: "starts_with s []"
  by (simp add: starts_with_def)

lemma starts_with_Cons [simp]:
  "starts_with (c # s) (d # p) \<longleftrightarrow> c = d \<and> starts_with s p"
  "\<not> starts_with [] (d # p)"
  by (auto simp: starts_with_def)

lemma strip_prefix_Some_iff: "strip_prefix s p = Some t \<longleftrightarrow> s = p @ t"
  by (auto simp: strip_prefix_def starts_with_iff)

lemma strip_prefix_None_iff: "strip_prefix s p = None \<longleftrightarrow> \<not> starts_with s p"
  by (auto simp: strip_prefix_def)

lemma strip_suffix_Some_iff: "strip_suffix s p = Some t \<longleftrightarrow> s = t @ p"
  by (auto simp: strip_suffix_def ends_with_iff)

lemma strip_suffix_None_iff: "strip_suffix s p = None \<longleftrightarrow> \<not> ends_with s p"
  by (auto simp: strip_suffix_def)

text \<open>\<open>str_find\<close> gives the first occurrence, and fails only when there is none.\<close>

lemma str_find_Some:
  "str_find s p = Some i \<Longrightarrow>
     i \<le> length s \<and> starts_with (drop i s) p \<and> (\<forall>j < i. \<not> starts_with (drop j s) p)"
proof (induction s p arbitrary: i rule: str_find.induct)
  case (2 c cs p)
  show ?case
  proof (cases "starts_with (c # cs) p")
    case False
    with "2.prems" obtain k where k: "str_find cs p = Some k" "i = Suc k" by auto
    from "2.IH" [OF False k(1)] have
      ih: "k \<le> length cs" "starts_with (drop k cs) p" "\<forall>j < k. \<not> starts_with (drop j cs) p"
      by auto
    have "\<not> starts_with (drop j (c # cs)) p" if "j < Suc k" for j
      using that False ih(3) by (cases j) auto
    with ih k show ?thesis by simp
  qed (use "2.prems" in auto)
qed (auto split: if_splits)

lemma str_find_None: "str_find s p = None \<Longrightarrow> j \<le> length s \<Longrightarrow> \<not> starts_with (drop j s) p"
proof (induction s p arbitrary: j rule: str_find.induct)
  case (2 c cs p)
  then show ?case by (cases j) (auto split: if_splits)
qed (auto simp: starts_with_def split: if_splits)

lemma str_find_SomeI:
  assumes "starts_with (drop j s) p" and "j \<le> length s"
  shows "\<exists>i \<le> j. str_find s p = Some i"
proof (cases "str_find s p")
  case None
  with assms show ?thesis using str_find_None by blast
next
  case (Some i)
  with str_find_Some [OF Some] assms(1) show ?thesis
    by (metis linorder_not_less)
qed

lemma str_contains_iff: "str_contains s p \<longleftrightarrow> (\<exists>a b. s = a @ p @ b)"
proof
  assume "str_contains s p"
  then obtain i where "str_find s p = Some i"
    by (auto simp: str_contains_def)
  then have "starts_with (drop i s) p" using str_find_Some by blast
  then show "\<exists>a b. s = a @ p @ b"
    by (metis append_take_drop_id starts_with_iff)
next
  assume "\<exists>a b. s = a @ p @ b"
  then obtain a b where "s = a @ p @ b" by blast
  then have "starts_with (drop (length a) s) p" "length a \<le> length s" by auto
  then show "str_contains s p"
    using str_find_SomeI [of "length a" s p] by (auto simp: str_contains_def)
qed

lemma split_once_Some:
  assumes "split_once s p = Some (a, b)"
  shows "s = a @ p @ b \<and> (p \<noteq> [] \<longrightarrow> (\<forall>j < length a. \<not> starts_with (drop j s) p))"
proof -
  from assms obtain i where i: "str_find s p = Some i" "a = take i s" "b = drop (i + length p) s"
    by (auto simp: split_once_def)
  from str_find_Some [OF i(1)] have
    f: "i \<le> length s" "starts_with (drop i s) p" "\<forall>j < i. \<not> starts_with (drop j s) p" by auto
  then obtain t where t: "drop i s = p @ t" by (auto simp: starts_with_iff)
  have "b = drop (length p) (drop i s)" by (simp add: i(3) add.commute)
  with t have "b = t" by simp
  with t i(2) f show ?thesis
    by (metis append_take_drop_id length_take min.absorb2)
qed

lemma str_find_char_None_iff: "str_find s [c] = None \<longleftrightarrow> c \<notin> set s"
  by (induction s) auto

lemma split_once_None_iff: "split_once s [c] = None \<longleftrightarrow> c \<notin> set s"
  by (simp add: split_once_def str_find_char_None_iff)

lemma str_find_char_append: "c \<notin> set a \<Longrightarrow> str_find (a @ c # b) [c] = Some (length a)"
  by (induction a) auto

lemma split_once_char [simp]: "c \<notin> set a \<Longrightarrow> split_once (a @ c # b) [c] = Some (a, b)"
  by (simp add: split_once_def str_find_char_append)

lemma split_once_char_Some_iff:
  "split_once s [c] = Some (a, b) \<longleftrightarrow> s = a @ c # b \<and> c \<notin> set a"
proof
  assume h: "split_once s [c] = Some (a, b)"
  from split_once_Some [OF h] have s: "s = a @ c # b"
    and n: "\<forall>j < length a. \<not> starts_with (drop j s) [c]" by auto
  have "a ! j \<noteq> c" if "j < length a" for j
  proof
    assume "a ! j = c"
    with that s have "drop j s = c # drop (Suc j) s"
      by (metis Cons_nth_drop_Suc length_append nth_append trans_less_add1)
    with n that show False by auto
  qed
  with s show "s = a @ c # b \<and> c \<notin> set a" by (auto simp: in_set_conv_nth)
qed simp

lemma str_rfind_char_None_iff: "str_rfind s [c] = None \<longleftrightarrow> c \<notin> set s"
  by (induction s) (auto split: option.splits)

lemma str_rfind_char_append: "c \<notin> set b \<Longrightarrow> str_rfind (a @ c # b) [c] = Some (length a)"
proof (induction a)
  case Nil
  then show ?case by (simp add: str_rfind_char_None_iff [THEN iffD2])
qed simp

lemma rsplit_once_char [simp]: "c \<notin> set b \<Longrightarrow> rsplit_once (a @ c # b) [c] = Some (a, b)"
  by (simp add: rsplit_once_def str_rfind_char_append)

lemma rsplit_once_None_iff: "rsplit_once s [c] = None \<longleftrightarrow> c \<notin> set s"
  by (simp add: rsplit_once_def str_rfind_char_None_iff)

lemma rsplit_once_char_Some_iff:
  "rsplit_once s [c] = Some (a, b) \<longleftrightarrow> s = a @ c # b \<and> c \<notin> set b"
proof
  assume h: "rsplit_once s [c] = Some (a, b)"
  then have "c \<in> set s" by (metis option.simps(3) rsplit_once_None_iff)
  then obtain a' b' where s: "s = a' @ c # b'" "c \<notin> set b'"
    by (meson split_list_last)
  with h show "s = a @ c # b \<and> c \<notin> set b" by simp
qed simp

subsection \<open>Laws of splitting and joining\<close>

lemma str_split_nonempty [simp]: "str_split s c \<noteq> []"
  by (induction s) (auto split: list.splits)

lemma str_split_join: "str_join [c] (str_split s c) = s"
proof (induction s)
  case (Cons x xs)
  show ?case
  proof (cases "str_split xs c")
    case (Cons y ys)
    with Cons.IH show ?thesis by (cases ys) auto
  qed simp
qed simp

lemma str_split_no_char: "x \<in> set (str_split s c) \<Longrightarrow> c \<notin> set x"
  by (induction s arbitrary: x) (auto split: list.splits if_splits)

lemma str_split_no_occurrence: "c \<notin> set s \<Longrightarrow> str_split s c = [s]"
  by (induction s) auto

lemma str_split_append_char: "c \<notin> set a \<Longrightarrow> str_split (a @ c # b) c = a # str_split b c"
  by (induction a) auto

lemma str_split_of_join:
  "xs \<noteq> [] \<Longrightarrow> (\<forall>x \<in> set xs. c \<notin> set x) \<Longrightarrow> str_split (str_join [c] xs) c = xs"
  by (induction "[c]" xs rule: str_join.induct)
    (auto simp: str_split_no_occurrence str_split_append_char)

subsection \<open>Laws of trimming\<close>

lemma trim_start_suffix: "\<exists>p. s = p @ trim_start s"
proof (induction s rule: trim_start.induct)
  case (1 s)
  show ?case
  proof (cases "find_first (starts_with s) ws_seqs")
    case None
    then show ?thesis by (subst trim_start.simps) simp
  next
    case (Some w)
    with "1.IH" [OF Some] obtain p where "drop (length w) s = p @ trim_start (drop (length w) s)"
      by auto
    then have "s = (take (length w) s @ p) @ trim_start (drop (length w) s)"
      by (metis append.assoc append_take_drop_id)
    moreover have "trim_start s = trim_start (drop (length w) s)"
      using trim_start.simps [of s] Some by simp
    ultimately show ?thesis by metis
  qed
qed

lemma trim_end_prefix: "\<exists>p. s = trim_end s @ p"
proof (induction s rule: trim_end.induct)
  case (1 s)
  show ?case
  proof (cases "find_first (ends_with s) ws_seqs")
    case None
    then show ?thesis by (subst trim_end.simps) simp
  next
    case (Some w)
    let ?t = "take (length s - length w) s"
    from "1.IH" [OF Some] obtain p where "?t = trim_end ?t @ p" by auto
    then have "s = trim_end ?t @ (p @ drop (length s - length w) s)"
      by (metis append.assoc append_take_drop_id)
    moreover have "trim_end s = trim_end ?t"
      using trim_end.simps [of s] Some by simp
    ultimately show ?thesis by metis
  qed
qed

lemma trim_start_id: "find_first (starts_with s) ws_seqs = None \<Longrightarrow> trim_start s = s"
  by (subst trim_start.simps) simp

lemma trim_end_id: "find_first (ends_with s) ws_seqs = None \<Longrightarrow> trim_end s = s"
  by (subst trim_end.simps) simp

lemma str_trim_infix: "\<exists>p q. s = p @ str_trim s @ q"
proof -
  obtain p where "s = p @ trim_start s" using trim_start_suffix by blast
  moreover obtain q where "trim_start s = trim_end (trim_start s) @ q"
    using trim_end_prefix by blast
  ultimately show ?thesis by (metis str_trim_def)
qed

lemma str_trim_length: "length (str_trim s) \<le> length s"
proof -
  obtain p q where "s = p @ str_trim s @ q" using str_trim_infix by blast
  then have "length s = length p + length (str_trim s) + length q"
    by (metis add.assoc length_append)
  then show ?thesis by simp
qed

lemma str_trim_subset: "set (str_trim s) \<subseteq> set s"
proof -
  obtain p q where "s = p @ str_trim s @ q" using str_trim_infix by blast
  then show ?thesis by (metis Un_iff set_append subsetI)
qed

text \<open>A string of the bytes \<open>A-Z a-z 0-9 . : / @ # - _\<close> and the like has nothing to trim.\<close>

definition ws_byte :: "char \<Rightarrow> bool" where
  "ws_byte c = (\<exists>w \<in> set ws_seqs. c \<in> set w)"

lemma str_trim_id:
  assumes "\<And>c. c \<in> set s \<Longrightarrow> \<not> ws_byte c"
  shows "str_trim s = s"
proof -
  have "\<not> starts_with s w \<and> \<not> ends_with s w" if "w \<in> set ws_seqs" for w
  proof -
    from that have "w \<noteq> []" by (rule ws_seqs_nonempty)
    then obtain c where "c \<in> set w" by (cases w) auto
    moreover from this that have "ws_byte c" by (auto simp: ws_byte_def)
    ultimately show ?thesis using assms by (auto simp: starts_with_iff ends_with_iff)
  qed
  then have "find_first (starts_with s) ws_seqs = None" "find_first (ends_with s) ws_seqs = None"
    by (auto simp: find_first_None_iff)
  then show ?thesis by (simp add: str_trim_def trim_start_id trim_end_id)
qed

lemma str_trim_Nil [simp]: "str_trim [] = []"
  by (rule str_trim_id) simp

end
