(* ===== verification/Rust_Maps.thy ===== *)
theory Rust_Maps
  imports Rust_Strings "HOL-Library.AList"
begin

section \<open>Maps: \<open>HashMap\<close>, \<open>BTreeMap\<close> and \<open>HashSet\<close> with string keys\<close>

text \<open>
  A \<open>HashMap<String, V>\<close> is an association list with distinct keys, whose order stands for one
  possible iteration order of the map: an insertion overwrites in place or appends, so every
  theorem that quantifies over the list holds for every iteration order. A \<open>BTreeMap\<close> (the
  \<open>serde_json::Map\<close> of this build, which does not enable \<open>preserve_order\<close>, is one) is an
  association list with strictly ascending keys. The locale \<open>dict\<close> is the interface both
  promise to their clients, and holds the lemmas on bulk insertion that the clients use.
\<close>

type_synonym 'v hmap = "(string \<times> 'v) list"
type_synonym 'v btmap = "(string \<times> 'v) list"

abbreviation hm_get :: "string \<Rightarrow> 'v hmap \<Rightarrow> 'v option" where
  "hm_get k m \<equiv> map_of m k"

definition hm_insert :: "string \<Rightarrow> 'v \<Rightarrow> 'v hmap \<Rightarrow> 'v hmap" where
  "hm_insert k v m = AList.update k v m"

definition hm_remove :: "string \<Rightarrow> 'v hmap \<Rightarrow> 'v hmap" where
  "hm_remove k m = AList.delete k m"

definition hm_has :: "string \<Rightarrow> 'v hmap \<Rightarrow> bool" where
  "hm_has k m = (k \<in> set (map fst m))"

abbreviation hm_keys :: "'v hmap \<Rightarrow> string list" where
  "hm_keys m \<equiv> map fst m"

abbreviation hm_wf :: "'v hmap \<Rightarrow> bool" where
  "hm_wf m \<equiv> distinct (map fst m)"

text \<open>\<open>m.entry(k).or_insert(v)\<close>.\<close>

definition hm_or_insert :: "string \<Rightarrow> 'v \<Rightarrow> 'v hmap \<Rightarrow> 'v hmap" where
  "hm_or_insert k v m = (if hm_has k m then m else hm_insert k v m)"

text \<open>\<open>extend\<close> and \<open>collect\<close>: insertion in order, a later entry wins.\<close>

definition hm_extend :: "'v hmap \<Rightarrow> (string \<times> 'v) list \<Rightarrow> 'v hmap" where
  "hm_extend m kvs = fold (\<lambda>(k, v). hm_insert k v) kvs m"

fun bt_insert :: "string \<Rightarrow> 'v \<Rightarrow> 'v btmap \<Rightarrow> 'v btmap" where
  "bt_insert k v [] = [(k, v)]"
| "bt_insert k v ((k', v') # m) =
     (if k < k' then (k, v) # (k', v') # m
      else if k = k' then (k, v) # m
      else (k', v') # bt_insert k v m)"

definition bt_remove :: "string \<Rightarrow> 'v btmap \<Rightarrow> 'v btmap" where
  "bt_remove k m = AList.delete k m"

abbreviation bt_wf :: "'v btmap \<Rightarrow> bool" where
  "bt_wf m \<equiv> sorted_wrt (<) (map fst m)"

definition bt_extend :: "'v btmap \<Rightarrow> (string \<times> 'v) list \<Rightarrow> 'v btmap" where
  "bt_extend m kvs = fold (\<lambda>(k, v). bt_insert k v) kvs m"

text \<open>A \<open>HashSet<String>\<close> is the list of its elements in one iteration order.\<close>

definition hs_insert :: "'a \<Rightarrow> 'a list \<Rightarrow> 'a list" where
  "hs_insert x s = (if x \<in> set s then s else s @ [x])"

definition hs_from :: "'a list \<Rightarrow> 'a list" where
  "hs_from xs = fold hs_insert xs []"

subsection \<open>The interface of a string-keyed map\<close>

lemma map_of_rev_distinct_keys:
  assumes "distinct (map fst kvs)"
  shows "map_of (rev kvs) = map_of kvs"
proof
  fix k
  have d: "distinct (map fst (rev kvs))" using assms by (simp add: rev_map [symmetric])
  show "map_of (rev kvs) k = map_of kvs k"
  proof (cases "map_of kvs k")
    case None
    then have "k \<notin> fst ` set (rev kvs)" by (simp add: map_of_eq_None_iff)
    with None show ?thesis by (metis map_of_eq_None_iff)
  next
    case (Some v)
    then have "(k, v) \<in> set (rev kvs)" by (auto dest: map_of_SomeD)
    with d Some show ?thesis by (metis map_of_is_SomeI)
  qed
qed

locale dict =
  fixes lookup :: "'m \<Rightarrow> string \<Rightarrow> 'v option"
    and insert :: "string \<Rightarrow> 'v \<Rightarrow> 'm \<Rightarrow> 'm"
    and remove :: "string \<Rightarrow> 'm \<Rightarrow> 'm"
    and entries :: "'m \<Rightarrow> (string \<times> 'v) list"
    and wf :: "'m \<Rightarrow> bool"
  assumes lookup_insert: "lookup (insert k v m) = (lookup m)(k \<mapsto> v)"
    and lookup_remove: "wf m \<Longrightarrow> lookup (remove k m) = (lookup m)(k := None)"
    and wf_insert: "wf m \<Longrightarrow> wf (insert k v m)"
    and wf_remove: "wf m \<Longrightarrow> wf (remove k m)"
    and lookup_entries: "lookup m = map_of (entries m)"
    and distinct_entries: "wf m \<Longrightarrow> distinct (map fst (entries m))"
begin

lemma lookup_fold_insert:
  "lookup (fold (\<lambda>(k, v). insert k v) kvs m) = lookup m ++ map_of (rev kvs)"
  by (induction kvs arbitrary: m) (auto simp: lookup_insert map_add_def split: option.splits)

lemma wf_fold_insert: "wf m \<Longrightarrow> wf (fold (\<lambda>(k, v). insert k v) kvs m)"
  by (induction kvs arbitrary: m) (auto simp: wf_insert)

lemma lookup_fold_insert_distinct:
  "distinct (map fst kvs) \<Longrightarrow>
     lookup (fold (\<lambda>(k, v). insert k v) kvs m) = lookup m ++ map_of kvs"
  by (simp add: lookup_fold_insert map_of_rev_distinct_keys)

lemma entries_unique: "wf m \<Longrightarrow> (k, v) \<in> set (entries m) \<longleftrightarrow> lookup m k = Some v"
  by (simp add: distinct_entries lookup_entries)

end

subsection \<open>\<open>HashMap\<close> and \<open>BTreeMap\<close> implement it\<close>

lemma hm_wf_insert: "hm_wf m \<Longrightarrow> hm_wf (hm_insert k v m)"
  by (simp add: hm_insert_def distinct_update)

lemma bt_lookup_insert: "map_of (bt_insert k v m) = (map_of m)(k \<mapsto> v)"
  by (induction k v m rule: bt_insert.induct) auto

lemma bt_insert_keys: "set (map fst (bt_insert k v m)) = insert k (set (map fst m))"
  by (induction k v m rule: bt_insert.induct) auto

lemma bt_wf_insert: "bt_wf m \<Longrightarrow> bt_wf (bt_insert k v m)"
proof (induction k v m rule: bt_insert.induct)
  case (2 k v k' v' m)
  then show ?case
    using bt_insert_keys [of k v m] by (auto simp: not_less)
qed simp

lemma bt_wf_distinct: "bt_wf m \<Longrightarrow> distinct (map fst m)"
  by (metis strict_sorted_iff)

lemma bt_wf_remove: "bt_wf m \<Longrightarrow> bt_wf (bt_remove k m)"
  by (simp add: bt_remove_def delete_keys removeAll_filter_not_eq sorted_wrt_filter)

lemma map_of_delete: "map_of (AList.delete k m) = (map_of m)(k := None)"
  by (simp add: delete_conv')

interpretation hm: dict map_of hm_insert hm_remove "\<lambda>m. m" "\<lambda>m. distinct (map fst m)"
  by unfold_locales
    (auto simp: hm_insert_def hm_remove_def update_conv' map_of_delete distinct_update
      distinct_delete)

interpretation bt: dict map_of bt_insert bt_remove "\<lambda>m. m" "\<lambda>m. sorted_wrt (<) (map fst m)"
  by unfold_locales
    (auto simp: bt_lookup_insert bt_remove_def map_of_delete bt_wf_insert
      bt_wf_remove [unfolded bt_remove_def] bt_wf_distinct)

subsection \<open>Derived laws\<close>

lemma hm_has_iff: "hm_has k m \<longleftrightarrow> (\<exists>v. map_of m k = Some v)"
  by (metis hm_has_def map_of_eq_None_iff not_None_eq set_map)

lemma hm_get_insert [simp]: "map_of (hm_insert k v m) = (map_of m)(k \<mapsto> v)"
  by (rule hm.lookup_insert)

lemma hm_get_remove [simp]: "map_of (hm_remove k m) = (map_of m)(k := None)"
  by (simp add: hm_remove_def map_of_delete)

lemma bt_get_insert [simp]: "map_of (bt_insert k v m) = (map_of m)(k \<mapsto> v)"
  by (rule bt.lookup_insert)

lemma hm_keys_insert: "set (map fst (hm_insert k v m)) = insert k (set (map fst m))"
proof -
  have "dom (map_of (hm_insert k v m)) = insert k (dom (map_of m))" by simp
  then show ?thesis by (simp only: dom_map_of_conv_image_fst set_map)
qed

lemma hm_insert_new: "\<not> hm_has k m \<Longrightarrow> hm_insert k v m = m @ [(k, v)]"
  unfolding hm_has_def hm_insert_def by (induction m) auto

lemma hm_has_insert [simp]: "hm_has j (hm_insert k v m) \<longleftrightarrow> j = k \<or> hm_has j m"
  by (auto simp: hm_has_iff)

lemma hm_get_or_insert:
  "map_of (hm_or_insert k v m) j =
     (if j = k then Some (case map_of m k of Some w \<Rightarrow> w | None \<Rightarrow> v) else map_of m j)"
  by (auto simp: hm_or_insert_def hm_has_iff split: option.splits)

lemma hm_get_extend: "map_of (hm_extend m kvs) = map_of m ++ map_of (rev kvs)"
  by (simp add: hm_extend_def hm.lookup_fold_insert)

lemma hm_wf_extend: "hm_wf m \<Longrightarrow> hm_wf (hm_extend m kvs)"
  unfolding hm_extend_def by (rule hm.wf_fold_insert)

lemma bt_get_extend: "map_of (bt_extend m kvs) = map_of m ++ map_of (rev kvs)"
  by (simp add: bt_extend_def bt.lookup_fold_insert)

lemma bt_wf_extend: "bt_wf m \<Longrightarrow> bt_wf (bt_extend m kvs)"
  unfolding bt_extend_def by (rule bt.wf_fold_insert)

lemma map_of_filter_key: "map_of (filter (\<lambda>(k, v). P k) m) = (\<lambda>k. if P k then map_of m k else None)"
  by (induction m) auto

lemma set_hs_from [simp]: "set (hs_from xs) = set xs"
proof -
  have "set (fold hs_insert xs s) = set s \<union> set xs" for s
    by (induction xs arbitrary: s) (auto simp: hs_insert_def)
  then show ?thesis by (simp add: hs_from_def)
qed

lemma distinct_hs_from [simp]: "distinct (hs_from xs)"
proof -
  have "distinct s \<Longrightarrow> distinct (fold hs_insert xs s)" for s
    by (induction xs arbitrary: s) (auto simp: hs_insert_def)
  then show ?thesis by (simp add: hs_from_def)
qed

end
