(* ===== verification/Rust_Nums.thy ===== *)
theory Rust_Nums
  imports Rust_Maps "HOL-Library.Word"
begin

section \<open>Integers: decimal text and machine widths\<close>

text \<open>
  \<open>to_string\<close> of an unsigned or signed integer and \<open>str::parse\<close> into one. As in
  \<open>core::num\<close>, \<open>parse\<close> accepts one leading plus sign (and, for signed types, a minus sign),
  wants at least one decimal digit, and fails on overflow of the width.
\<close>

definition digit_val :: "char \<Rightarrow> nat option" where
  "digit_val c = (let n = (of_char c :: nat) in if 48 \<le> n \<and> n \<le> 57 then Some (n - 48) else None)"

definition digit_char :: "nat \<Rightarrow> char" where
  "digit_char n = char_of (48 + n)"

definition is_digit :: "char \<Rightarrow> bool" where
  "is_digit c = (digit_val c \<noteq> None)"

fun digits_value :: "nat \<Rightarrow> string \<Rightarrow> nat option" where
  "digits_value acc [] = Some acc"
| "digits_value acc (c # cs) =
     (case digit_val c of None \<Rightarrow> None | Some d \<Rightarrow> digits_value (acc * 10 + d) cs)"

definition parse_nat :: "string \<Rightarrow> nat option" where
  "parse_nat s =
     (let t = (case s of c # cs \<Rightarrow> if c = CHR ''+'' then cs else s | [] \<Rightarrow> s)
      in if t = [] then None else digits_value 0 t)"

text \<open>\<open>s.parse::<uN>()\<close> with \<open>limit = 2^N\<close>, and \<open>s.parse::<iN>()\<close> with \<open>half = 2^(N-1)\<close>.\<close>

definition parse_unsigned :: "nat \<Rightarrow> string \<Rightarrow> nat option" where
  "parse_unsigned limit s =
     (case parse_nat s of None \<Rightarrow> None | Some n \<Rightarrow> if n < limit then Some n else None)"

definition parse_signed :: "nat \<Rightarrow> string \<Rightarrow> int option" where
  "parse_signed half s =
     (case s of
        [] \<Rightarrow> None
      | c # cs \<Rightarrow>
          (if c = CHR ''-'' then
             (if cs = [] then None
              else case digits_value 0 cs of
                None \<Rightarrow> None
              | Some n \<Rightarrow> if n \<le> half then Some (- int n) else None)
           else
             (case parse_nat s of
                None \<Rightarrow> None
              | Some n \<Rightarrow> if n < half then Some (int n) else None)))"

fun show_nat :: "nat \<Rightarrow> string" where
  "show_nat n = (if n < 10 then [digit_char n] else show_nat (n div 10) @ [digit_char (n mod 10)])"

declare show_nat.simps [simp del]

definition show_int :: "int \<Rightarrow> string" where
  "show_int i = (if i < 0 then CHR ''-'' # show_nat (nat (- i)) else show_nat (nat i))"

lemma digit_val_char [simp]: "d < 10 \<Longrightarrow> digit_val (digit_char d) = Some d"
  by (simp add: digit_val_def digit_char_def Let_def)

lemma digits_value_append:
  "digits_value acc (s @ t) =
     (case digits_value acc s of None \<Rightarrow> None | Some a \<Rightarrow> digits_value a t)"
  by (induction s arbitrary: acc) (auto split: option.splits)

lemma digits_value_show: "digits_value 0 (show_nat n) = Some n"
proof (induction n rule: show_nat.induct)
  case (1 n)
  then show ?case by (subst show_nat.simps) (auto simp: digits_value_append)
qed

lemma show_nat_nonempty [simp]: "show_nat n \<noteq> []"
  by (subst show_nat.simps) simp

lemma digit_val_sign [simp]: "digit_val CHR ''+'' = None" "digit_val CHR ''-'' = None"
  by (simp_all add: digit_val_def Let_def)

lemma digit_char_not_sign:
  "d < 10 \<Longrightarrow> digit_char d \<noteq> CHR ''+'' \<and> digit_char d \<noteq> CHR ''-''"
  by (metis digit_val_char digit_val_sign option.distinct(1))

lemma show_nat_digits: "c \<in> set (show_nat n) \<Longrightarrow> is_digit c"
proof (induction n arbitrary: c rule: show_nat.induct)
  case (1 n)
  then show ?case
    by (subst (asm) (2) show_nat.simps) (auto simp: is_digit_def split: if_splits)
qed

lemma show_nat_hd:
  assumes "show_nat n = c # cs" shows "c \<noteq> CHR ''+''" "c \<noteq> CHR ''-''"
proof -
  have "is_digit c" using show_nat_digits [of c n] assms by simp
  then show "c \<noteq> CHR ''+''" "c \<noteq> CHR ''-''" by (auto simp: is_digit_def)
qed

lemma parse_nat_show [simp]: "parse_nat (show_nat n) = Some n"
proof (cases "show_nat n")
  case (Cons c cs)
  then show ?thesis
    using show_nat_hd [OF Cons] digits_value_show [of n] by (simp add: parse_nat_def)
qed simp

lemma parse_unsigned_show [simp]: "n < limit \<Longrightarrow> parse_unsigned limit (show_nat n) = Some n"
  by (simp add: parse_unsigned_def)

lemma parse_unsigned_bound: "parse_unsigned limit s = Some n \<Longrightarrow> n < limit"
  by (auto simp: parse_unsigned_def split: option.splits if_splits)

lemma parse_signed_bounds:
  "parse_signed half s = Some i \<Longrightarrow> 0 < half \<Longrightarrow> - int half \<le> i \<and> i < int half"
  by (auto simp: parse_signed_def split: list.splits option.splits if_splits)

lemma parse_signed_show:
  assumes "- int half \<le> i" and "i < int half"
  shows "parse_signed half (show_int i) = Some i"
proof (cases "i < 0")
  case True
  then show ?thesis
    using assms digits_value_show [of "nat (- i)"] by (simp add: show_int_def parse_signed_def)
next
  case False
  then obtain c cs where c: "show_nat (nat i) = c # cs" by (cases "show_nat (nat i)") auto
  with show_nat_hd(2) [OF c] False assms parse_nat_show [of "nat i"] show ?thesis
    by (simp add: show_int_def parse_signed_def)
qed

end
