(* ===== verification/Json.thy ===== *)
theory Json
  imports Rust_Nums
begin

section \<open>JSON values (\<open>serde_json::Value\<close>)\<close>

text \<open>
  \<open>json\<close> has the constructors of \<open>serde_json::Value\<close>; a number keeps the three internal
  representations of \<open>serde_json::Number\<close> (a non-negative 64-bit integer, a negative 64-bit
  integer, an IEEE double given by its bits), and an object is the \<open>BTreeMap\<close> of this build.
  The text form of a value (the printer and parser of serde_json) is not in the repository: the
  definitions that need it take it as a parameter. The accessors below are those the code calls.
\<close>

datatype number = PosInt "64 word" | NegInt "64 word" | Float "64 word"

datatype json =
    JNull
  | JBool bool
  | JNumber number
  | JString string
  | JArray "json list"
  | JObject "(string \<times> json) list"

type_synonym property_map = "json hmap"

fun as_bool :: "json \<Rightarrow> bool option" where
  "as_bool (JBool b) = Some b"
| "as_bool _ = None"

fun as_str :: "json \<Rightarrow> string option" where
  "as_str (JString s) = Some s"
| "as_str _ = None"

fun as_array :: "json \<Rightarrow> json list option" where
  "as_array (JArray xs) = Some xs"
| "as_array _ = None"

fun as_object :: "json \<Rightarrow> json btmap option" where
  "as_object (JObject m) = Some m"
| "as_object _ = None"

fun as_u64 :: "json \<Rightarrow> 64 word option" where
  "as_u64 (JNumber (PosInt n)) = Some n"
| "as_u64 _ = None"

text \<open>\<open>as_i64\<close>: the bits of the \<open>i64\<close>; a positive integer above \<open>i64::MAX\<close> has none.\<close>

fun as_i64 :: "json \<Rightarrow> 64 word option" where
  "as_i64 (JNumber (PosInt n)) = (if unat n < 2 ^ 63 then Some n else None)"
| "as_i64 (JNumber (NegInt n)) = Some n"
| "as_i64 _ = None"

fun is_null :: "json \<Rightarrow> bool" where
  "is_null JNull = True"
| "is_null _ = False"

text \<open>\<open>v.get(key)\<close> on a value: a member of an object, nothing on any other value.\<close>

fun json_get :: "string \<Rightarrow> json \<Rightarrow> json option" where
  "json_get k (JObject m) = map_of m k"
| "json_get k _ = None"

text \<open>\<open>Number::from(u64)\<close> and \<open>Number::from(i64)\<close>.\<close>

definition num_of_u64 :: "64 word \<Rightarrow> number" where
  "num_of_u64 n = PosInt n"

definition num_of_i64 :: "64 word \<Rightarrow> number" where
  "num_of_i64 n = (if sint n < 0 then NegInt n else PosInt n)"

text \<open>\<open>Display\<close> of a number; the text of a double is the parameter \<open>show_float\<close>.\<close>

fun show_number :: "(64 word \<Rightarrow> string) \<Rightarrow> number \<Rightarrow> string" where
  "show_number show_float (PosInt n) = show_nat (unat n)"
| "show_number show_float (NegInt n) = show_int (sint n)"
| "show_number show_float (Float f) = show_float f"

text \<open>\<open>json!({...})\<close>: members are inserted in order.\<close>

definition jobj :: "(string \<times> json) list \<Rightarrow> json" where
  "jobj kvs = JObject (bt_extend [] kvs)"

text \<open>A measure for recursions that walk the members of objects.\<close>

fun json_size :: "json \<Rightarrow> nat" where
  "json_size (JArray xs) = Suc (sum_list (map (\<lambda>x. Suc (json_size x)) xs))"
| "json_size (JObject m) = Suc (sum_list (map (\<lambda>kv. Suc (json_size (snd kv))) m))"
| "json_size _ = 1"

abbreviation members_size :: "(string \<times> json) list \<Rightarrow> nat" where
  "members_size m \<equiv> sum_list (map (\<lambda>kv. Suc (json_size (snd kv))) m)"

text \<open>The invariant of values: the members of every object are in ascending key order.\<close>

fun json_wf :: "json \<Rightarrow> bool" where
  "json_wf (JArray xs) = list_all json_wf xs"
| "json_wf (JObject m) = (bt_wf m \<and> list_all (\<lambda>kv. json_wf (snd kv)) m)"
| "json_wf _ = True"

lemma as_i64_num_of_i64: "as_i64 (JNumber (num_of_i64 n)) = Some n"
proof (cases "sint n < 0")
  case False
  have "sint n < 2 ^ 63" using sint_lt [of n] by simp
  with False have "uint n = sint n" by (simp add: uint_sint take_bit_eq_mod)
  with \<open>sint n < 2 ^ 63\<close> have "unat n < 2 ^ 63"
    by (metis of_nat_less_iff of_nat_numeral of_nat_power uint_nat)
  with False show ?thesis by (simp add: num_of_i64_def)
qed (simp add: num_of_i64_def)

lemma as_u64_num_of_u64 [simp]: "as_u64 (JNumber (num_of_u64 n)) = Some n"
  by (simp add: num_of_u64_def)

lemma json_get_jobj: "json_get k (jobj kvs) = map_of (rev kvs) k"
  by (simp add: jobj_def bt_get_extend)

lemma json_wf_member: "json_wf v \<Longrightarrow> json_get k v = Some w \<Longrightarrow> json_wf w"
  by (cases v) (force simp: list_all_iff dest: map_of_SomeD)+

lemma json_wf_bt_insert:
  "json_wf (JObject m) \<Longrightarrow> json_wf v \<Longrightarrow> json_wf (JObject (bt_insert k v m))"
proof -
  assume m: "json_wf (JObject m)" and v: "json_wf v"
  then have "list_all (\<lambda>kv. json_wf (snd kv)) (bt_insert k v m)"
    by (induction k v m rule: bt_insert.induct) auto
  with m show ?thesis by (simp add: bt_wf_insert)
qed

subsection \<open>Sizes of parts\<close>

lemma member_size: "(k, v) \<in> set m \<Longrightarrow> json_size v < members_size m"
  by (induction m) auto

lemma element_size: "x \<in> set xs \<Longrightarrow> json_size x < sum_list (map (\<lambda>x. Suc (json_size x)) xs)"
  by (induction xs) auto

lemma json_get_size: "json_get k v = Some w \<Longrightarrow> json_size w < json_size v"
  by (cases v) (auto dest!: map_of_SomeD member_size)

lemma as_object_size: "as_object v = Some m \<Longrightarrow> map_of m k = Some w \<Longrightarrow> json_size w < json_size v"
  by (cases v) (auto dest!: map_of_SomeD member_size)

lemma as_array_size: "as_array v = Some xs \<Longrightarrow> x \<in> set xs \<Longrightarrow> json_size x < json_size v"
  by (cases v) (auto dest!: element_size)

end
