(* ===== verification/Core_Types.thy ===== *)
theory Core_Types
  imports Json
begin

section \<open>Core types (\<open>src/types.rs\<close>)\<close>

text \<open>
  Definitions of components and capabilities, parsed WIT interface names, function
  specifications, the metadata selectors look at, and the per-store extension map.
\<close>

definition propagated_headers :: "string list" where
  "propagated_headers = [''traceparent'', ''tracestate'', ''baggage'']"

definition default_scope :: string where
  "default_scope = ''any''"

record capability_definition =
  cap_name :: string
  cap_kind :: string
  cap_scope :: string
  cap_properties :: property_map

record component_definition =
  comp_name :: string
  comp_uri :: string
  comp_scope :: string
  comp_imports :: "string list"
  comp_interceptors :: "string list"
  comp_config :: "json hmap"
  comp_labels :: "string hmap"

record http_hooks =
  h2c_for_grpc :: bool

definition http_hooks_from_properties :: "json hmap \<Rightarrow> http_hooks" where
  "http_hooks_from_properties props =
     \<lparr> h2c_for_grpc = unwrap_or (and_then (hm_get ''h2c-for-grpc'' props) as_bool) False \<rparr>"

text \<open>
  The extension map of a store: a value per type. \<open>'t\<close> are the type identifiers, \<open>'x\<close> the boxed
  values; a downcast to the key's own type always succeeds.
\<close>

definition set_extension :: "'t \<Rightarrow> 'x \<Rightarrow> ('t \<times> 'x) list \<Rightarrow> ('t \<times> 'x) list" where
  "set_extension t x exts = AList.update t x exts"

definition get_extension :: "'t \<Rightarrow> ('t \<times> 'x) list \<Rightarrow> 'x option" where
  "get_extension t exts = map_of exts t"

subsection \<open>WIT interface names\<close>

record wit_interface =
  if_namespace :: string
  if_package :: string
  if_interface :: string
  if_version :: "string option"
  if_full_name :: string

datatype interface_error = InvalidInterface string

definition interface_parse :: "string \<Rightarrow> interface_error + wit_interface" where
  "interface_parse s =
     (case split_once s '':'' of
        None \<Rightarrow> Inl (InvalidInterface s)
      | Some (namespace, rest) \<Rightarrow>
          (case split_once rest ''/'' of
             None \<Rightarrow> Inl (InvalidInterface s)
           | Some (package, after_slash) \<Rightarrow>
               (let (interface, version) =
                      (case split_once after_slash ''@'' of
                         Some (i, v) \<Rightarrow> (i, Some v)
                       | None \<Rightarrow> (after_slash, None))
                in Inr \<lparr> if_namespace = namespace, if_package = package,
                         if_interface = interface, if_version = version,
                         if_full_name = s \<rparr>)))"

definition interface_display :: "wit_interface \<Rightarrow> string" where
  "interface_display i = if_full_name i"

text \<open>The name a parsed interface stands for, spelled from its parts.\<close>

definition interface_spell :: "wit_interface \<Rightarrow> string" where
  "interface_spell i =
     if_namespace i @ '':'' @ if_package i @ ''/'' @ if_interface i @
     (case if_version i of None \<Rightarrow> [] | Some v \<Rightarrow> ''@'' @ v)"

definition interface_wf :: "wit_interface \<Rightarrow> bool" where
  "interface_wf i \<longleftrightarrow>
     if_full_name i = interface_spell i \<and>
     CHR '':'' \<notin> set (if_namespace i) \<and> CHR ''/'' \<notin> set (if_package i) \<and>
     CHR ''@'' \<notin> set (if_interface i)"

lemma interface_parse_wf: "interface_parse s = Inr i \<Longrightarrow> interface_wf i \<and> interface_display i = s"
  by (auto simp: interface_parse_def interface_wf_def interface_display_def interface_spell_def
        split_once_char_Some_iff split_once_None_iff Let_def split: option.splits prod.splits)

lemma interface_parse_of_wf:
  assumes "interface_wf i"
  shows "interface_parse (interface_display i) = Inr i"
proof -
  from assms have f: "if_full_name i = interface_spell i" "CHR '':'' \<notin> set (if_namespace i)"
    "CHR ''/'' \<notin> set (if_package i)" "CHR ''@'' \<notin> set (if_interface i)"
    by (auto simp: interface_wf_def)
  then show ?thesis
    by (cases i; cases "if_version i")
      (auto simp: interface_parse_def interface_display_def interface_spell_def
        split_once_None_iff [THEN iffD2])
qed

lemma interface_parse_error_iff:
  "(\<exists>e. interface_parse s = Inl e) \<longleftrightarrow> \<not> (\<exists>a b c. s = a @ '':'' @ b @ ''/'' @ c \<and> CHR '':'' \<notin> set a)"
proof (cases "split_once s '':''")
  case None
  then have "CHR '':'' \<notin> set s" by (simp add: split_once_None_iff)
  with None show ?thesis by (auto simp: interface_parse_def)
next
  case (Some ar)
  obtain a r where ar: "ar = (a, r)" by force
  with Some have s: "split_once s '':'' = Some (a, r)" "s = a @ CHR '':'' # r" "CHR '':'' \<notin> set a"
    by (auto simp: split_once_char_Some_iff)
  have "(\<exists>e. interface_parse s = Inl e) \<longleftrightarrow> CHR ''/'' \<notin> set r"
    using s(1) by (auto simp: interface_parse_def split_once_None_iff [symmetric] Let_def
        split: option.splits prod.splits)
  moreover have "(\<exists>a' b c. s = a' @ '':'' @ b @ ''/'' @ c \<and> CHR '':'' \<notin> set a') \<longleftrightarrow>
      (\<exists>b c. r = b @ CHR ''/'' # c)"
  proof -
    have u: "r = t" if "s = a' @ CHR '':'' # t" "CHR '':'' \<notin> set a'" for a' t
      using that s(1) split_once_char_Some_iff [of s _ a' t] by simp
    show ?thesis
    proof
      assume "\<exists>a' b c. s = a' @ '':'' @ b @ ''/'' @ c \<and> CHR '':'' \<notin> set a'"
      then obtain a' b c where "s = a' @ CHR '':'' # (b @ CHR ''/'' # c)" "CHR '':'' \<notin> set a'"
        by auto
      from u [OF this] show "\<exists>b c. r = b @ CHR ''/'' # c" by blast
    next
      assume "\<exists>b c. r = b @ CHR ''/'' # c"
      with s(2,3) show "\<exists>a' b c. s = a' @ '':'' @ b @ ''/'' @ c \<and> CHR '':'' \<notin> set a'" by auto
    qed
  qed
  moreover have "(\<exists>b c. r = b @ CHR ''/'' # c) \<longleftrightarrow> CHR ''/'' \<in> set r"
    by (auto simp: in_set_conv_decomp)
  ultimately show ?thesis by blast
qed

subsection \<open>Functions\<close>

record function_param =
  fp_name :: string
  fp_is_optional :: bool
  fp_json_schema :: json

record function_spec =
  fn_interface :: "wit_interface option"
  fn_name :: string
  fn_docs :: string
  fn_params :: "function_param list"
  fn_result :: "json option"
  fn_is_invokable :: bool

definition function_new ::
  "wit_interface option \<Rightarrow> string \<Rightarrow> string \<Rightarrow> function_param list \<Rightarrow> json option \<Rightarrow> bool \<Rightarrow>
   function_spec" where
  "function_new i n d ps r invokable =
     \<lparr> fn_interface = i, fn_name = n, fn_docs = d, fn_params = ps, fn_result = r,
       fn_is_invokable = invokable \<rparr>"

definition function_key :: "function_spec \<Rightarrow> string" where
  "function_key f =
     (case fn_interface f of
        Some iface \<Rightarrow> if_interface iface @ ''.'' @ fn_name f
      | None \<Rightarrow> fn_name f)"

definition function_display :: "function_spec \<Rightarrow> string" where
  "function_display f =
     (case fn_interface f of
        Some iface \<Rightarrow> interface_display iface @ ''#'' @ fn_name f
      | None \<Rightarrow> fn_name f)"

subsection \<open>Component metadata\<close>

record component_metadata =
  md_name :: string
  md_namespace :: "string option"
  md_package :: "string option"
  md_labels :: "string hmap"
  md_dependents :: "string list option"
  md_exports :: "string list"

definition selectable_fields :: "component_metadata \<Rightarrow> (string option) hmap" where
  "selectable_fields md =
     (let m = hm_insert ''name'' (Some (md_name md)) [];
          m = (case md_namespace md of
                 Some ns \<Rightarrow> hm_insert ''namespace'' (Some ns) m | None \<Rightarrow> m);
          m = (case md_package md of
                 Some pkg \<Rightarrow> hm_insert ''package'' (Some pkg) m | None \<Rightarrow> m);
          m = (case md_dependents md of
                 Some deps \<Rightarrow>
                   (if deps \<noteq> [] then
                      hm_insert ''dependents'' (Some (''['' @ str_join '','' deps @ '']'')) m
                    else m)
               | None \<Rightarrow> m)
      in (if md_exports md \<noteq> [] then
            hm_insert ''exports'' (Some (''['' @ str_join '','' (md_exports md) @ '']'')) m
          else m))"

definition to_selectable :: "component_metadata \<Rightarrow> (string option) hmap" where
  "to_selectable md =
     fold (\<lambda>(k, v). hm_insert (''labels.'' @ k) (Some v)) (md_labels md) (selectable_fields md)"

record component =
  c_metadata :: component_metadata
  c_functions :: "function_spec hmap"

lemma hm_wf_to_selectable: "hm_wf (to_selectable md)"
proof -
  have "hm_wf m \<Longrightarrow> hm_wf (fold (\<lambda>(k, v). hm_insert (f k) (g v)) kvs m)" for kvs f g m
    by (induction kvs arbitrary: m) (auto simp: hm_wf_insert)
  moreover have "hm_wf (selectable_fields md)"
    unfolding selectable_fields_def Let_def by (auto simp: hm_wf_insert split: option.splits)
  ultimately show ?thesis unfolding to_selectable_def by blast
qed

lemma map_of_map_prefix:
  "map_of (map (\<lambda>(k, v). (p @ k, f v)) kvs) (p @ k) = map_option f (map_of kvs k)"
  by (induction kvs) auto

lemma map_of_map_prefix_other:
  "\<not> starts_with key p \<Longrightarrow> map_of (map (\<lambda>(k, v). (p @ k, f v)) kvs) key = None"
  by (induction kvs) auto

lemma fold_prefix_get:
  assumes "distinct (map fst kvs)"
  shows "map_of (fold (\<lambda>(k, v). hm_insert (p @ k) (f v)) kvs m) =
     map_of m ++ map_of (map (\<lambda>(k, v). (p @ k, f v)) kvs)"
proof -
  let ?kvs = "map (\<lambda>(k, v). (p @ k, f v)) kvs"
  have "fold (\<lambda>(k, v). hm_insert (p @ k) (f v)) kvs m = fold (\<lambda>(k, v). hm_insert k v) ?kvs m"
    by (induction kvs arbitrary: m) auto
  moreover have "distinct (map fst ?kvs)"
    using assms by (induction kvs) (auto simp: case_prod_beta image_iff)
  ultimately show ?thesis by (simp add: hm.lookup_fold_insert_distinct)
qed

lemma fold_prefix_get_prefixed:
  assumes "distinct (map fst kvs)"
  shows "map_of (fold (\<lambda>(k, v). hm_insert (p @ k) (f v)) kvs m) (p @ k) =
     (case map_of kvs k of Some v \<Rightarrow> Some (f v) | None \<Rightarrow> map_of m (p @ k))"
  unfolding fold_prefix_get [OF assms] map_add_def map_of_map_prefix
  by (simp split: option.splits)

lemma fold_prefix_get_other:
  assumes "distinct (map fst kvs)" and "\<not> starts_with key p"
  shows "map_of (fold (\<lambda>(k, v). hm_insert (p @ k) (f v)) kvs m) key = map_of m key"
  unfolding fold_prefix_get [OF assms(1)] map_add_def map_of_map_prefix_other [OF assms(2)]
  by simp

lemma to_selectable_label:
  assumes "hm_wf (md_labels md)"
  shows "map_of (to_selectable md) (''labels.'' @ k) = map_option Some (map_of (md_labels md) k)"
proof -
  have "map_of (selectable_fields md) (''labels.'' @ k) = None"
    unfolding selectable_fields_def Let_def by (simp split: option.splits)
  then show ?thesis
    unfolding to_selectable_def fold_prefix_get_prefixed [OF assms]
    by (simp only:) (simp split: option.splits)
qed

lemma to_selectable_field:
  assumes "hm_wf (md_labels md)"
  shows "map_of (to_selectable md) ''name'' = Some (Some (md_name md))"
    and "map_of (to_selectable md) ''namespace'' = map_option Some (md_namespace md)"
    and "map_of (to_selectable md) ''package'' = map_option Some (md_package md)"
    and "map_of (to_selectable md) ''exports'' =
           (if md_exports md = [] then None
            else Some (Some (''['' @ str_join '','' (md_exports md) @ '']'')))"
    and "map_of (to_selectable md) ''dependents'' =
           (case md_dependents md of
              Some deps \<Rightarrow> if deps = [] then None else Some (Some (''['' @ str_join '','' deps @ '']''))
            | None \<Rightarrow> None)"
proof -
  have other: "map_of (to_selectable md) key = map_of (selectable_fields md) key"
    if "\<not> starts_with key ''labels.''" for key
    unfolding to_selectable_def by (rule fold_prefix_get_other [OF assms that])
  note f = selectable_fields_def Let_def
  show "map_of (to_selectable md) ''name'' = Some (Some (md_name md))"
    by (subst other, simp, simp add: f split: option.splits)
  show "map_of (to_selectable md) ''namespace'' = map_option Some (md_namespace md)"
    by (subst other, simp, simp add: f split: option.splits)
  show "map_of (to_selectable md) ''package'' = map_option Some (md_package md)"
    by (subst other, simp, simp add: f split: option.splits)
  show "map_of (to_selectable md) ''exports'' =
           (if md_exports md = [] then None
            else Some (Some (''['' @ str_join '','' (md_exports md) @ '']'')))"
    by (subst other, simp, simp add: f split: option.splits)
  show "map_of (to_selectable md) ''dependents'' =
           (case md_dependents md of
              Some deps \<Rightarrow> if deps = [] then None else Some (Some (''['' @ str_join '','' deps @ '']''))
            | None \<Rightarrow> None)"
    by (subst other, simp, simp add: f split: option.splits)
qed

end
