(* ===== verification/Selector.thy ===== *)
theory Selector
  imports Core_Types
begin

section \<open>Selectors (\<open>src/config/types.rs\<close>)\<close>

text \<open>
  Generic definitions, the selector language (comma-separated conditions over a flattened map
  of properties) with its parser and its evaluation, and category claims.
\<close>

record generic_definition =
  gd_category :: string
  gd_name :: string
  gd_properties :: property_map

datatype operator =
    Equals string
  | NotEquals string
  | In "string list"
  | NotIn "string list"
  | Contains string
  | NotContains string
  | Exists
  | DoesNotExist

record condition =
  cond_key :: string
  cond_operator :: operator

record selector =
  sel_conditions :: "condition list"

datatype selector_error =
    EmptySelector
  | MissingValue string string
  | ExpectedList string
  | EmptyValueList string

subsection \<open>Parsing\<close>

text \<open>
  \<open>split_conditions\<close>: \<open>cur\<close> is the slice from \<open>start\<close> to the current position, \<open>depth\<close> the
  nesting of parentheses, which may go negative as in the code.
\<close>

fun split_conditions_go :: "int \<Rightarrow> string \<Rightarrow> string \<Rightarrow> string list" where
  "split_conditions_go depth cur [] = [cur]"
| "split_conditions_go depth cur (ch # rest) =
     (if ch = CHR ''('' then split_conditions_go (depth + 1) (cur @ [ch]) rest
      else if ch = CHR '')'' then split_conditions_go (depth - 1) (cur @ [ch]) rest
      else if ch = CHR '','' \<and> depth = 0 then cur # split_conditions_go depth [] rest
      else split_conditions_go depth (cur @ [ch]) rest)"

definition split_conditions :: "string \<Rightarrow> string list" where
  "split_conditions s = split_conditions_go 0 [] s"

definition parse_value_list :: "string \<Rightarrow> selector_error + string list" where
  "parse_value_list s =
     attempt (ok_or (ExpectedList s) (and_then (strip_prefix s ''('') (\<lambda>t. strip_suffix t '')'')))
       (\<lambda>inner.
          if str_trim inner = [] then Inl (EmptyValueList s)
          else Inr (map str_trim (str_split inner CHR '','')))"

definition mk_condition :: "string \<Rightarrow> operator \<Rightarrow> condition" where
  "mk_condition key op' = \<lparr> cond_key = key, cond_operator = op' \<rparr>"

definition existence_condition :: "string \<Rightarrow> condition" where
  "existence_condition s =
     (let trimmed = str_trim s
      in case strip_prefix trimmed ''!'' of
           Some key \<Rightarrow> mk_condition key DoesNotExist
         | None \<Rightarrow> mk_condition trimmed Exists)"

definition parse_keyword_condition :: "string \<Rightarrow> selector_error + condition" where
  "parse_keyword_condition s =
     (let parts = str_splitn 3 s CHR '' '' in
      if 2 \<le> length parts then
        (let key = str_trim (parts ! 0);
             word = str_trim (parts ! 1);
             rest = str_trim (unwrap_or (get_at parts 2) [])
         in if word = ''in'' then
              attempt (parse_value_list rest) (\<lambda>values. Inr (mk_condition key (In values)))
            else if word = ''notin'' then
              attempt (parse_value_list rest) (\<lambda>values. Inr (mk_condition key (NotIn values)))
            else if word = ''contains'' then
              (if rest = [] then Inl (MissingValue ''contains'' s)
               else Inr (mk_condition key (Contains rest)))
            else if word = ''notcontains'' then
              (if rest = [] then Inl (MissingValue ''notcontains'' s)
               else Inr (mk_condition key (NotContains rest)))
            else Inr (existence_condition s))
      else Inr (existence_condition s))"

definition parse_condition :: "string \<Rightarrow> selector_error + condition" where
  "parse_condition s =
     (case split_once s ''!='' of
        Some (key, val) \<Rightarrow> Inr (mk_condition (str_trim key) (NotEquals (str_trim val)))
      | None \<Rightarrow>
          (case split_once s ''='' of
             Some (key, val) \<Rightarrow> Inr (mk_condition (str_trim key) (Equals (str_trim val)))
           | None \<Rightarrow> parse_keyword_condition s))"

definition selector_parse_step ::
  "condition list \<Rightarrow> string \<Rightarrow> selector_error + condition list" where
  "selector_parse_step conditions part =
     (let part = str_trim part
      in if part = [] then Inr conditions
         else attempt (parse_condition part) (\<lambda>c. Inr (conditions @ [c])))"

definition selector_parse :: "string \<Rightarrow> selector_error + selector" where
  "selector_parse s =
     attempt (fold_res selector_parse_step [] (split_conditions s))
       (\<lambda>conditions.
          if conditions = [] then Inl EmptySelector
          else Inr \<lparr> sel_conditions = conditions \<rparr>)"

subsection \<open>Evaluation\<close>

definition contains_match :: "string \<Rightarrow> string \<Rightarrow> bool" where
  "contains_match val needle =
     (case and_then (strip_prefix val ''['') (\<lambda>s. strip_suffix s '']'') of
        Some inner \<Rightarrow> list_ex (\<lambda>elem. elem = needle) (str_split inner CHR '','')
      | None \<Rightarrow> str_contains val needle)"

definition condition_matches :: "condition \<Rightarrow> (string option) hmap \<Rightarrow> bool" where
  "condition_matches c properties =
     (let present = (\<lambda>p. is_some_and (hm_get (cond_key c) properties) (\<lambda>v. is_some_and v p))
      in case cond_operator c of
           Equals expected \<Rightarrow> present (\<lambda>v. v = expected)
         | NotEquals expected \<Rightarrow> present (\<lambda>v. v \<noteq> expected)
         | In values \<Rightarrow> present (\<lambda>v. list_ex (\<lambda>e. v = e) values)
         | NotIn values \<Rightarrow> present (\<lambda>v. list_all (\<lambda>e. v \<noteq> e) values)
         | Contains needle \<Rightarrow> present (\<lambda>v. contains_match v needle)
         | NotContains needle \<Rightarrow> present (\<lambda>v. \<not> contains_match v needle)
         | Exists \<Rightarrow> hm_has (cond_key c) properties
         | DoesNotExist \<Rightarrow> \<not> hm_has (cond_key c) properties)"

definition selector_matches :: "selector \<Rightarrow> (string option) hmap \<Rightarrow> bool" where
  "selector_matches sel properties =
     list_all (\<lambda>c. condition_matches c properties) (sel_conditions sel)"

subsection \<open>Category claims\<close>

record category_claim =
  cc_category :: string
  cc_selector :: "selector option"

definition claim_all :: "string \<Rightarrow> category_claim" where
  "claim_all category = \<lparr> cc_category = category, cc_selector = None \<rparr>"

definition claim_with_selector :: "string \<Rightarrow> selector \<Rightarrow> category_claim" where
  "claim_with_selector category sel = \<lparr> cc_category = category, cc_selector = Some sel \<rparr>"

subsection \<open>Printing, for the round trip\<close>

text \<open>The canonical spelling of a condition, and the tokens it can hold.\<close>

definition plain_char :: "char \<Rightarrow> bool" where
  "plain_char c \<longleftrightarrow> \<not> ws_byte c \<and> c \<notin> set '',()=!''"

definition plain_token :: "string \<Rightarrow> bool" where
  "plain_token t \<longleftrightarrow> t \<noteq> [] \<and> list_all plain_char t"

fun show_operator :: "string \<Rightarrow> operator \<Rightarrow> string" where
  "show_operator key (Equals v) = key @ ''='' @ v"
| "show_operator key (NotEquals v) = key @ ''!='' @ v"
| "show_operator key (In vs) = key @ '' in ('' @ str_join '','' vs @ '')''"
| "show_operator key (NotIn vs) = key @ '' notin ('' @ str_join '','' vs @ '')''"
| "show_operator key (Contains v) = key @ '' contains '' @ v"
| "show_operator key (NotContains v) = key @ '' notcontains '' @ v"
| "show_operator key Exists = key"
| "show_operator key DoesNotExist = ''!'' @ key"

fun plain_operator :: "operator \<Rightarrow> bool" where
  "plain_operator (Equals v) = plain_token v"
| "plain_operator (NotEquals v) = plain_token v"
| "plain_operator (In vs) = (vs \<noteq> [] \<and> list_all plain_token vs)"
| "plain_operator (NotIn vs) = (vs \<noteq> [] \<and> list_all plain_token vs)"
| "plain_operator (Contains v) = plain_token v"
| "plain_operator (NotContains v) = plain_token v"
| "plain_operator _ = True"

definition show_condition :: "condition \<Rightarrow> string" where
  "show_condition c = show_operator (cond_key c) (cond_operator c)"

definition plain_condition :: "condition \<Rightarrow> bool" where
  "plain_condition c \<longleftrightarrow> plain_token (cond_key c) \<and> plain_operator (cond_operator c)"

definition show_selector :: "selector \<Rightarrow> string" where
  "show_selector sel = str_join '','' (map show_condition (sel_conditions sel))"


subsection \<open>Lemmas: splitting at top-level commas\<close>

definition opaque_piece :: "string \<Rightarrow> bool" where
  "opaque_piece t \<longleftrightarrow>
     (\<forall>cur rest. split_conditions_go 0 cur (t @ rest) = split_conditions_go 0 (cur @ t) rest)"

lemma split_go_plain:
  "CHR ''('' \<notin> set t \<Longrightarrow> CHR '')'' \<notin> set t \<Longrightarrow> CHR '','' \<notin> set t \<or> d \<noteq> 0 \<Longrightarrow>
     split_conditions_go d cur (t @ rest) = split_conditions_go d (cur @ t) rest"
  by (induction t arbitrary: cur) auto

lemma opaque_plain:
  "CHR ''('' \<notin> set t \<Longrightarrow> CHR '')'' \<notin> set t \<Longrightarrow> CHR '','' \<notin> set t \<Longrightarrow> opaque_piece t"
  by (simp add: opaque_piece_def split_go_plain)

lemma opaque_append: "opaque_piece t \<Longrightarrow> opaque_piece u \<Longrightarrow> opaque_piece (t @ u)"
  by (simp add: opaque_piece_def)

lemma opaque_parens:
  assumes "CHR ''('' \<notin> set t" and "CHR '')'' \<notin> set t"
  shows "opaque_piece (CHR ''('' # t @ '')'')"
  by (simp add: opaque_piece_def split_go_plain [OF assms, of 1, simplified])

lemma split_conditions_join:
  assumes "ts \<noteq> []" and "\<forall>t \<in> set ts. opaque_piece t"
  shows "split_conditions (str_join '','' ts) = ts"
proof -
  have "split_conditions_go 0 cur (str_join '','' ts) = (cur @ hd ts) # tl ts" for cur
    using assms
  proof (induction ts arbitrary: cur)
    case (Cons t ts)
    then have t: "opaque_piece t" by simp
    show ?case
    proof (cases ts)
      case Nil
      then show ?thesis using t [unfolded opaque_piece_def, rule_format, of cur "[]"] by simp
    next
      case (Cons u us)
      with Cons.prems Cons.IH [of "[]"]
      have ih: "split_conditions_go 0 [] (str_join '','' ts) = u # us" by simp
      have "split_conditions_go 0 cur (t @ ('','' @ str_join '','' ts)) =
          split_conditions_go 0 (cur @ t) ('','' @ str_join '','' ts)"
        using t by (simp only: opaque_piece_def)
      with ih Cons show ?thesis by simp
    qed
  qed simp
  from this [of "[]"] assms(1) show ?thesis by (simp add: split_conditions_def)
qed

subsection \<open>Lemmas: parsing what the printer prints\<close>

lemma str_trim_ends_id:
  assumes "s \<noteq> []" and "\<not> ws_byte (hd s)" and "\<not> ws_byte (last s)"
  shows "str_trim s = s"
proof -
  have "\<not> starts_with s w \<and> \<not> ends_with s w" if w: "w \<in> set ws_seqs" for w
  proof -
    from w have "w \<noteq> []" by (rule ws_seqs_nonempty)
    then have "hd w \<in> set w" "last w \<in> set w" by auto
    with w have "ws_byte (hd w)" "ws_byte (last w)" by (auto simp: ws_byte_def)
    with assms \<open>w \<noteq> []\<close> show ?thesis by (auto simp: starts_with_iff ends_with_iff)
  qed
  then have "find_first (starts_with s) ws_seqs = None" "find_first (ends_with s) ws_seqs = None"
    by (auto simp: find_first_None_iff)
  then show ?thesis by (simp add: str_trim_def trim_start_id trim_end_id)
qed

lemma ws_byte_ascii [simp]:
  "\<not> ws_byte CHR ''(''" "\<not> ws_byte CHR '')''" "\<not> ws_byte CHR '',''" "\<not> ws_byte CHR ''!''"
  "\<not> ws_byte CHR ''=''" "ws_byte CHR '' ''"
  by (simp_all add: ws_byte_def ws_seqs_def)

lemma plain_tokenD:
  assumes "plain_token t"
  shows "t \<noteq> []" "str_trim t = t" "\<And>c. c \<in> set t \<Longrightarrow> \<not> ws_byte c"
    "CHR '' '' \<notin> set t" "CHR '','' \<notin> set t" "CHR ''('' \<notin> set t" "CHR '')'' \<notin> set t"
    "CHR ''='' \<notin> set t" "CHR ''!'' \<notin> set t" "\<not> ws_byte (hd t)" "\<not> ws_byte (last t)"
proof -
  show ne: "t \<noteq> []" using assms by (simp add: plain_token_def)
  show nw: "\<not> ws_byte c" if "c \<in> set t" for c
    using assms that by (auto simp: plain_token_def plain_char_def list_all_iff)
  show "str_trim t = t" by (rule str_trim_id) (use nw in blast)
  show "CHR '' '' \<notin> set t" using nw ws_byte_ascii(6) by blast
  show "CHR '','' \<notin> set t" "CHR ''('' \<notin> set t" "CHR '')'' \<notin> set t"
    "CHR ''='' \<notin> set t" "CHR ''!'' \<notin> set t"
    using assms by (auto simp: plain_token_def plain_char_def list_all_iff)
  show "\<not> ws_byte (hd t)" "\<not> ws_byte (last t)" using ne nw by auto
qed

lemma str_find_set: "str_find s p = Some i \<Longrightarrow> set p \<subseteq> set s"
proof -
  assume "str_find s p = Some i"
  then have "str_contains s p" by (simp add: str_contains_def)
  then show ?thesis by (auto simp: str_contains_iff)
qed

lemma split_once_missing: "c \<in> set p \<Longrightarrow> c \<notin> set s \<Longrightarrow> split_once s p = None"
  using str_find_set by (fastforce simp: split_once_def)

lemma split_once_bang: "CHR ''!'' \<notin> set a \<Longrightarrow> split_once (a @ CHR ''!'' # CHR ''='' # b) ''!='' = Some (a, b)"
proof -
  assume "CHR ''!'' \<notin> set a"
  then have "str_find (a @ CHR ''!'' # CHR ''='' # b) ''!='' = Some (length a)"
    by (induction a) auto
  then show ?thesis by (simp add: split_once_def)
qed

lemma splitn_keyword:
  assumes "CHR '' '' \<notin> set k" and "CHR '' '' \<notin> set w"
  shows "str_splitn 3 (k @ CHR '' '' # w @ CHR '' '' # r) CHR '' '' = [k, w, r]"
  using assms by (simp add: numeral_3_eq_3)

lemma parse_condition_keyword:
  assumes "plain_token k" and "CHR '' '' \<notin> set w" and "CHR ''='' \<notin> set w" and "CHR ''='' \<notin> set r"
  shows "parse_condition (k @ CHR '' '' # w @ CHR '' '' # r) =
           parse_keyword_condition (k @ CHR '' '' # w @ CHR '' '' # r)"
    and "str_splitn 3 (k @ CHR '' '' # w @ CHR '' '' # r) CHR '' '' = [k, w, r]"
proof -
  note k = plain_tokenD [OF assms(1)]
  have "CHR ''='' \<notin> set (k @ CHR '' '' # w @ CHR '' '' # r)" using k assms by auto
  then have "split_once (k @ CHR '' '' # w @ CHR '' '' # r) ''!='' = None"
    "split_once (k @ CHR '' '' # w @ CHR '' '' # r) ''='' = None"
    by (auto intro: split_once_missing)
  then show "parse_condition (k @ CHR '' '' # w @ CHR '' '' # r) =
           parse_keyword_condition (k @ CHR '' '' # w @ CHR '' '' # r)"
    by (simp add: parse_condition_def)
  show "str_splitn 3 (k @ CHR '' '' # w @ CHR '' '' # r) CHR '' '' = [k, w, r]"
    by (rule splitn_keyword) (use k assms in auto)
qed

lemma join_plain:
  assumes "vs \<noteq> []" and "list_all plain_token vs"
  shows "str_join '','' vs \<noteq> []" "CHR ''='' \<notin> set (str_join '','' vs)"
    "CHR ''('' \<notin> set (str_join '','' vs)" "CHR '')'' \<notin> set (str_join '','' vs)"
    "\<And>c. c \<in> set (str_join '','' vs) \<Longrightarrow> \<not> ws_byte c"
    "str_split (str_join '','' vs) CHR '','' = vs"
proof -
  have c: "c \<in> set (str_join '','' vs) \<Longrightarrow> c = CHR '','' \<or> (\<exists>v \<in> set vs. c \<in> set v)" for c
    by (induction "'',''" vs rule: str_join.induct) auto
  have p: "plain_token v" if "v \<in> set vs" for v using assms that by (simp add: list_all_iff)
  show "str_join '','' vs \<noteq> []"
    using assms by (cases "('','', vs)" rule: str_join.cases) (auto simp: plain_token_def)
  show "CHR ''='' \<notin> set (str_join '','' vs)" "CHR ''('' \<notin> set (str_join '','' vs)"
    "CHR '')'' \<notin> set (str_join '','' vs)"
    using c [of "CHR ''=''"] c [of "CHR ''(''"] c [of "CHR '')''"] p plain_tokenD(6,7,8) by auto
  show "\<not> ws_byte ch" if "ch \<in> set (str_join '','' vs)" for ch
    using c [OF that] p plain_tokenD(3) by auto
  show "str_split (str_join '','' vs) CHR '','' = vs"
    by (rule str_split_of_join) (use assms p plain_tokenD(5) in auto)
qed

lemma parse_value_list_join:
  assumes "vs \<noteq> []" and "list_all plain_token vs"
  shows "parse_value_list (''('' @ str_join '','' vs @ '')'') = Inr vs"
proof -
  have "strip_suffix (str_join '','' vs @ '')'') '')'' = Some (str_join '','' vs)"
    by (simp add: strip_suffix_Some_iff)
  moreover have "str_trim (str_join '','' vs) = str_join '','' vs"
    by (rule str_trim_id) (use join_plain(5) [OF assms] in blast)
  moreover have "map str_trim vs = vs"
    using assms(2) by (induction vs) (auto dest: plain_tokenD(2))
  ultimately show ?thesis
    using join_plain(1,6) [OF assms]
    by (simp add: parse_value_list_def strip_prefix_Some_iff [THEN iffD2])
qed


lemma show_operator_trim:
  assumes "plain_token k" and "plain_operator op'"
  shows "str_trim (show_operator k op') = show_operator k op' \<and> show_operator k op' \<noteq> []"
proof -
  note k = plain_tokenD [OF assms(1)]
  have v: "\<not> ws_byte (last v) \<and> v \<noteq> []" if "plain_token v" for v
    using plain_tokenD [OF that] by blast
  have "show_operator k op' \<noteq> []" "\<not> ws_byte (hd (show_operator k op'))"
    using k by (cases op'; simp)+
  moreover have "\<not> ws_byte (last (show_operator k op'))"
    using assms(2) k(1,11) v by (cases op') auto
  ultimately show ?thesis using str_trim_ends_id by blast
qed

lemma show_operator_opaque:
  assumes "plain_token k" and "plain_operator op'"
  shows "opaque_piece (show_operator k op')"
proof -
  note k = plain_tokenD [OF assms(1)]
  have tok: "opaque_piece v" if "plain_token v" for v
    using plain_tokenD [OF that] by (simp add: opaque_plain)
  have words: "opaque_piece '' in ''" "opaque_piece '' notin ''" "opaque_piece '' contains ''"
    "opaque_piece '' notcontains ''" "opaque_piece ''=''" "opaque_piece ''!=''" "opaque_piece ''!''"
    by (simp_all add: opaque_plain)
  have set: "opaque_piece (''('' @ str_join '','' vs @ '')'')"
    if "vs \<noteq> []" "list_all plain_token vs" for vs
    using opaque_parens join_plain(3,4) [OF that] by simp
  show ?thesis
  proof (cases op')
    case (In vs)
    then show ?thesis
      using assms opaque_append [OF tok [OF assms(1)] opaque_append [OF words(1) set]] by simp
  next
    case (NotIn vs)
    then show ?thesis
      using assms opaque_append [OF tok [OF assms(1)] opaque_append [OF words(2) set]] by simp
  next
    case (Contains v)
    then show ?thesis
      using assms opaque_append [OF tok [OF assms(1)] opaque_append [OF words(3) tok]] by simp
  next
    case (NotContains v)
    then show ?thesis
      using assms opaque_append [OF tok [OF assms(1)] opaque_append [OF words(4) tok]] by simp
  next
    case (Equals v)
    then show ?thesis
      using assms opaque_append [OF tok [OF assms(1)] opaque_append [OF words(5) tok]] by simp
  next
    case (NotEquals v)
    then show ?thesis
      using assms opaque_append [OF tok [OF assms(1)] opaque_append [OF words(6) tok]] by simp
  next
    case Exists
    then show ?thesis using tok assms by simp
  next
    case DoesNotExist
    then show ?thesis using opaque_append [OF words(7) tok [OF assms(1)]] by simp
  qed
qed

lemma parse_show_existence:
  assumes "plain_token k"
  shows "parse_condition k = Inr (mk_condition k Exists)"
    and "parse_condition (CHR ''!'' # k) = Inr (mk_condition k DoesNotExist)"
proof -
  note k = plain_tokenD [OF assms]
  have "split_once k ''!='' = None" "split_once k ''='' = None"
    "split_once (CHR ''!'' # k) ''!='' = None" "split_once (CHR ''!'' # k) ''='' = None"
    using k(8) by (auto intro!: split_once_missing [of "CHR ''=''"])
  moreover have "split_once k '' '' = None" "split_once (CHR ''!'' # k) '' '' = None"
    using k(4) by (auto intro!: split_once_missing [of "CHR '' ''"])
  moreover have "str_trim (CHR ''!'' # k) = CHR ''!'' # k"
    by (rule str_trim_ends_id) (use k in auto)
  moreover have "strip_prefix k ''!'' = None"
    using k(9) by (auto simp: strip_prefix_None_iff starts_with_iff)
  ultimately show "parse_condition k = Inr (mk_condition k Exists)"
    "parse_condition (CHR ''!'' # k) = Inr (mk_condition k DoesNotExist)"
    using k(2)
    by (simp_all add: parse_condition_def parse_keyword_condition_def existence_condition_def
        numeral_3_eq_3 strip_prefix_Some_iff [THEN iffD2])
qed

lemma parse_show_operator:
  assumes "plain_token k" and "plain_operator op'"
  shows "parse_condition (show_operator k op') = Inr (mk_condition k op')"
proof -
  note k = plain_tokenD [OF assms(1)]
  note kw = parse_condition_keyword [OF assms(1)]
  have w: "str_trim ''in'' = ''in''" "str_trim ''notin'' = ''notin''"
    "str_trim ''contains'' = ''contains''" "str_trim ''notcontains'' = ''notcontains''"
    by (rule str_trim_id, auto simp: ws_byte_def ws_seqs_def)+
  have paren: "str_trim (''('' @ str_join '','' vs @ '')'') = ''('' @ str_join '','' vs @ '')''" for vs
    by (rule str_trim_ends_id) auto
  have eqfree: "CHR ''='' \<notin> set (''('' @ str_join '','' vs @ '')'')"
    if "vs \<noteq> []" "list_all plain_token vs" for vs
    using join_plain(2) [OF that] by simp
  show ?thesis
  proof (cases op')
    case (Equals v)
    then have v: "plain_token v" using assms by simp
    have "split_once (k @ CHR ''='' # v) ''!='' = None"
      using k(9) plain_tokenD(9) [OF v] by (auto intro!: split_once_missing [of "CHR ''!''"])
    with Equals show ?thesis
      using k(2,8) plain_tokenD(2) [OF v] by (simp add: parse_condition_def)
  next
    case (NotEquals v)
    then have v: "plain_token v" using assms by simp
    with NotEquals show ?thesis
      using k(2,9) plain_tokenD(2) [OF v] by (simp add: parse_condition_def split_once_bang)
  next
    case (In vs)
    with assms have vs: "vs \<noteq> []" "list_all plain_token vs" by auto
    have e: "show_operator k op' = k @ CHR '' '' # ''in'' @ CHR '' '' # (''('' @ str_join '','' vs @ '')'')"
      using In by simp
    show ?thesis
      unfolding e using kw [of "''in''" "''('' @ str_join '','' vs @ '')''"] eqfree [OF vs]
        k(2) w paren [of vs] parse_value_list_join [OF vs]
      by (simp add: parse_keyword_condition_def In get_at_def)
  next
    case (NotIn vs)
    with assms have vs: "vs \<noteq> []" "list_all plain_token vs" by auto
    have e: "show_operator k op' = k @ CHR '' '' # ''notin'' @ CHR '' '' # (''('' @ str_join '','' vs @ '')'')"
      using NotIn by simp
    show ?thesis
      unfolding e using kw [of "''notin''" "''('' @ str_join '','' vs @ '')''"] eqfree [OF vs]
        k(2) w paren [of vs] parse_value_list_join [OF vs]
      by (simp add: parse_keyword_condition_def NotIn get_at_def)
  next
    case (Contains v)
    then have v: "plain_token v" using assms by simp
    have e: "show_operator k op' = k @ CHR '' '' # ''contains'' @ CHR '' '' # v"
      using Contains by simp
    show ?thesis
      unfolding e using kw [of "''contains''" v] k(2) w plain_tokenD(1,2,8) [OF v]
      by (simp add: parse_keyword_condition_def Contains get_at_def)
  next
    case (NotContains v)
    then have v: "plain_token v" using assms by simp
    have e: "show_operator k op' = k @ CHR '' '' # ''notcontains'' @ CHR '' '' # v"
      using NotContains by simp
    show ?thesis
      unfolding e using kw [of "''notcontains''" v] k(2) w plain_tokenD(1,2,8) [OF v]
      by (simp add: parse_keyword_condition_def NotContains get_at_def)
  qed (use parse_show_existence [OF assms(1)] in simp_all)
qed

lemma parse_steps_show:
  "list_all plain_condition cs \<Longrightarrow>
     fold_res selector_parse_step acc (map show_condition cs) = Inr (acc @ cs)"
proof (induction cs arbitrary: acc)
  case (Cons c cs)
  then have p: "plain_token (cond_key c)" "plain_operator (cond_operator c)"
    by (auto simp: plain_condition_def)
  have "selector_parse_step acc (show_condition c) = Inr (acc @ [c])"
    using show_operator_trim [OF p] parse_show_operator [OF p]
    by (simp add: selector_parse_step_def show_condition_def mk_condition_def)
  with Cons show ?case by simp
qed simp

text \<open>
  Parsing undoes printing: a selector whose keys and values are plain tokens is read back
  from its canonical spelling, with every condition, operator and value list intact.
\<close>

theorem selector_parse_show:
  assumes "sel_conditions sel \<noteq> []" and "list_all plain_condition (sel_conditions sel)"
  shows "selector_parse (show_selector sel) = Inr sel"
proof -
  have "\<forall>t \<in> set (map show_condition (sel_conditions sel)). opaque_piece t"
    using assms(2)
    by (auto simp: list_all_iff plain_condition_def show_condition_def
        intro: show_operator_opaque)
  then have "split_conditions (show_selector sel) = map show_condition (sel_conditions sel)"
    using assms(1) by (simp add: show_selector_def split_conditions_join)
  then show ?thesis
    using assms by (simp add: selector_parse_def parse_steps_show)
qed


lemma selector_parse_show_witness:
  "selector_parse (show_selector
     \<lparr> sel_conditions =
         [mk_condition ''name'' (NotEquals ''foo''),
          mk_condition ''labels.env'' (In [''prod'', ''dev'']),
          mk_condition ''dependents'' DoesNotExist] \<rparr>) =
   Inr \<lparr> sel_conditions =
         [mk_condition ''name'' (NotEquals ''foo''),
          mk_condition ''labels.env'' (In [''prod'', ''dev'']),
          mk_condition ''dependents'' DoesNotExist] \<rparr>"
  by (rule selector_parse_show)
    (simp_all add: plain_condition_def mk_condition_def plain_token_def plain_char_def
      ws_byte_def ws_seqs_def)

subsection \<open>Lemmas: what a selector means\<close>

lemma contains_match_list:
  assumes "xs \<noteq> []" and "\<forall>x \<in> set xs. CHR '','' \<notin> set x"
  shows "contains_match (''['' @ str_join '','' xs @ '']'') needle \<longleftrightarrow> needle \<in> set xs"
proof -
  have "strip_suffix (str_join '','' xs @ '']'') '']'' = Some (str_join '','' xs)"
    by (simp add: strip_suffix_Some_iff)
  then show ?thesis
    using str_split_of_join [OF assms]
    by (auto simp: contains_match_def strip_prefix_Some_iff [THEN iffD2] list_ex_iff)
qed

text \<open>
  A condition on a key that the properties do not hold matches only when it is
  \<open>!key\<close>: the negative operators \<open>!=\<close>, \<open>notin\<close> and \<open>notcontains\<close> need the key to be there.
\<close>

theorem absent_key_matches_only_negation:
  assumes "hm_get (cond_key c) properties = None"
  shows "condition_matches c properties \<longleftrightarrow> cond_operator c = DoesNotExist"
  using assms by (cases "cond_operator c") (auto simp: condition_matches_def hm_has_iff)

lemma absent_key_matches_only_negation_witness:
  "\<not> condition_matches (mk_condition ''tier'' (NotEquals ''gold'')) [(''name'', Some ''api'')]"
  by (subst absent_key_matches_only_negation) (simp_all add: mk_condition_def)

text \<open>
  Selecting components by a dependent: over the selectable form of a component's metadata,
  \<open>dependents contains x\<close> holds exactly when \<open>x\<close> is one of the recorded dependents, and never
  because \<open>x\<close> is a substring of one.
\<close>

theorem dependents_contains_iff:
  assumes "hm_wf (md_labels md)"
    and "\<And>deps d. md_dependents md = Some deps \<Longrightarrow> d \<in> set deps \<Longrightarrow> CHR '','' \<notin> set d"
  shows "selector_matches \<lparr> sel_conditions = [mk_condition ''dependents'' (Contains x)] \<rparr>
           (to_selectable md) \<longleftrightarrow>
         (\<exists>deps. md_dependents md = Some deps \<and> x \<in> set deps)"
proof (cases "md_dependents md")
  case None
  then show ?thesis
    using to_selectable_field(5) [OF assms(1)]
    by (simp add: selector_matches_def condition_matches_def mk_condition_def)
next
  case (Some deps)
  then show ?thesis
    using to_selectable_field(5) [OF assms(1)] contains_match_list [of deps x] assms(2) [OF Some]
    by (cases "deps = []") (simp_all add: selector_matches_def condition_matches_def mk_condition_def)
qed

lemma dependents_contains_iff_witness:
  "\<not> selector_matches \<lparr> sel_conditions = [mk_condition ''dependents'' (Contains ''translator'')] \<rparr>
       (to_selectable \<lparr> md_name = ''logger'', md_namespace = None, md_package = None,
          md_labels = [], md_dependents = Some [''logging-translator''], md_exports = [] \<rparr>)"
  by (subst dependents_contains_iff) auto

end
