(* ===== verification/Config_Handlers.thy ===== *)
theory Config_Handlers
  imports Selector
begin

section \<open>Configuration handlers (\<open>src/config/handlers.rs\<close> and the trait of \<open>src/config/types.rs\<close>)\<close>

text \<open>
  The property extractors, the component and capability handlers, the \<open>ConfigHandler\<close> trait as
  a record of operations, and the contract a dispatcher relies on as the locale
  \<open>config_handler\<close>, interpreted for both core handlers. A handler's state is the vector of the
  definitions it has produced and not yet handed out. Printing a floating-point number is the
  parameter \<open>sf\<close>.
\<close>

datatype property_error =
    Missing string
  | TypeMismatch string string json

datatype config_error =
    UnexpectedCategory string string
  | PropertyProblem string string property_error
  | UnknownComponentProperties string "string list"
  | NoLoader string
  | MultipleLoaders string
  | LoadFailed string
  | ExclusiveCategoryConflict string
  | PropertyClaimConflict string string
  | UnknownCategory string "string list"
  | NoHandlerMatched string string
  | MultipleHandlersMatched string string
  | UnknownProperty string string string
  | EnvVarNotSet string string
  | UnknownPlaceholder string
  | CapabilityScopeUnsupported string string
  | InvalidScope string
  | DuplicateName string
  | InvalidName string
  | InvalidImport string config_error
  | UndefinedImport string string
  | HandlerFailed string

subsection \<open>Property extractors\<close>

definition take_required_string ::
  "property_map \<Rightarrow> string \<Rightarrow> property_error + string \<times> property_map" where
  "take_required_string properties key =
     (case hm_get key properties of
        Some (JString s) \<Rightarrow> Inr (s, hm_remove key properties)
      | Some got \<Rightarrow> Inl (TypeMismatch key ''a string'' got)
      | None \<Rightarrow> Inl (Missing key))"

definition take_optional_string ::
  "property_map \<Rightarrow> string \<Rightarrow> property_error + string option \<times> property_map" where
  "take_optional_string properties key =
     (case hm_get key properties of
        Some (JString s) \<Rightarrow> Inr (Some s, hm_remove key properties)
      | Some got \<Rightarrow> Inl (TypeMismatch key ''a string'' got)
      | None \<Rightarrow> Inr (None, hm_remove key properties))"

fun string_items :: "string \<Rightarrow> json list \<Rightarrow> property_error + string list" where
  "string_items key [] = Inr []"
| "string_items key (item # items) =
     (case item of
        JString s \<Rightarrow> attempt (string_items key items) (\<lambda>r. Inr (s # r))
      | got \<Rightarrow> Inl (TypeMismatch key ''an array of strings'' got))"

definition take_string_array ::
  "property_map \<Rightarrow> string \<Rightarrow> property_error + string list \<times> property_map" where
  "take_string_array properties key =
     (case hm_get key properties of
        Some (JArray arr) \<Rightarrow>
          attempt (string_items key arr) (\<lambda>r. Inr (r, hm_remove key properties))
      | Some got \<Rightarrow> Inl (TypeMismatch key ''an array'' got)
      | None \<Rightarrow> Inr ([], hm_remove key properties))"

definition take_object ::
  "property_map \<Rightarrow> string \<Rightarrow> property_error + json hmap \<times> property_map" where
  "take_object properties key =
     (case hm_get key properties of
        Some (JObject m) \<Rightarrow> Inr (hm_extend [] m, hm_remove key properties)
      | Some got \<Rightarrow> Inl (TypeMismatch key ''an object/table'' got)
      | None \<Rightarrow> Inr ([], hm_remove key properties))"

definition bool_string :: "bool \<Rightarrow> string" where
  "bool_string b = (if b then ''true'' else ''false'')"

fun scalar_string :: "(64 word \<Rightarrow> string) \<Rightarrow> json \<Rightarrow> string option" where
  "scalar_string sf (JString s) = Some s"
| "scalar_string sf (JNumber n) = Some (show_number sf n)"
| "scalar_string sf (JBool b) = Some (bool_string b)"
| "scalar_string sf _ = None"

definition take_string_map ::
  "(64 word \<Rightarrow> string) \<Rightarrow> property_map \<Rightarrow> string \<Rightarrow> property_error + string hmap \<times> property_map" where
  "take_string_map sf properties key =
     (case hm_get key properties of
        Some (JObject m) \<Rightarrow>
          attempt
            (fold_res (\<lambda>result (k, v).
               case scalar_string sf v of
                 Some s \<Rightarrow> Inr (hm_insert k s result)
               | None \<Rightarrow> Inl (TypeMismatch (key @ ''.'' @ k) ''a scalar value'' v)) [] m)
            (\<lambda>r. Inr (r, hm_remove key properties))
      | Some got \<Rightarrow> Inl (TypeMismatch key ''an object/table of strings'' got)
      | None \<Rightarrow> Inr ([], hm_remove key properties))"

subsection \<open>The component handler\<close>

record component_handler =
  ch_definitions :: "component_definition list"

definition component_handler_new :: component_handler where
  "component_handler_new = \<lparr> ch_definitions = [] \<rparr>"

definition component_claimed_categories :: "component_handler \<Rightarrow> category_claim list" where
  "component_claimed_categories h = [claim_all ''component'']"

definition component_claimed_properties :: "component_handler \<Rightarrow> (string list) hmap" where
  "component_claimed_properties h =
     [(''component'', [''uri'', ''scope'', ''imports'', ''interceptors'', ''config'', ''labels''])]"

definition parse_component ::
  "(64 word \<Rightarrow> string) \<Rightarrow> string \<Rightarrow> property_map \<Rightarrow> config_error + component_definition" where
  "parse_component sf name properties =
     (let ctx = PropertyProblem ''component'' name in
      attempt (map_err ctx (take_required_string properties ''uri'')) (\<lambda>(uri, properties).
      attempt (map_err ctx (take_optional_string properties ''scope'')) (\<lambda>(scope, properties).
      attempt (map_err ctx (take_string_array properties ''imports'')) (\<lambda>(imports, properties).
      attempt (map_err ctx (take_string_array properties ''interceptors'')) (\<lambda>(interceptors, properties).
      attempt (map_err ctx (take_object properties ''config'')) (\<lambda>(config, properties).
      attempt (map_err ctx (take_string_map sf properties ''labels'')) (\<lambda>(labels, properties).
        if properties \<noteq> [] then Inl (UnknownComponentProperties name (hm_keys properties))
        else Inr \<lparr> comp_name = name, comp_uri = uri,
                   comp_scope = unwrap_or scope default_scope, comp_imports = imports,
                   comp_interceptors = interceptors, comp_config = config,
                   comp_labels = labels \<rparr>)))))))"

definition component_handle_category ::
  "(64 word \<Rightarrow> string) \<Rightarrow> component_handler \<Rightarrow> string \<Rightarrow> string \<Rightarrow> property_map \<Rightarrow>
   config_error + component_handler" where
  "component_handle_category sf h category name properties =
     (if category \<noteq> ''component'' then
        Inl (UnexpectedCategory ''ComponentConfigHandler'' category)
      else attempt (parse_component sf name properties) (\<lambda>d.
        Inr (h \<lparr> ch_definitions := ch_definitions h @ [d] \<rparr>)))"

definition component_generated ::
  "component_handler \<Rightarrow> component_definition list \<times> component_handler" where
  "component_generated h = (ch_definitions h, h \<lparr> ch_definitions := [] \<rparr>)"

subsection \<open>The capability handler\<close>

record capability_handler =
  cah_definitions :: "capability_definition list"

definition capability_handler_new :: capability_handler where
  "capability_handler_new = \<lparr> cah_definitions = [] \<rparr>"

definition capability_claimed_categories :: "capability_handler \<Rightarrow> category_claim list" where
  "capability_claimed_categories h = [claim_all ''capability'']"

definition capability_claimed_properties :: "capability_handler \<Rightarrow> (string list) hmap" where
  "capability_claimed_properties h = [(''capability'', [''type'', ''scope''])]"

definition capability_accepts_unclaimed :: "capability_handler \<Rightarrow> string \<Rightarrow> bool" where
  "capability_accepts_unclaimed h category = (category = ''capability'')"

definition parse_capability ::
  "string \<Rightarrow> property_map \<Rightarrow> config_error + capability_definition" where
  "parse_capability name properties =
     (let ctx = PropertyProblem ''capability'' name in
      attempt (map_err ctx (take_required_string properties ''type'')) (\<lambda>(kind, properties).
      attempt (map_err ctx (take_optional_string properties ''scope'')) (\<lambda>(scope, properties).
        Inr \<lparr> cap_name = name, cap_kind = kind, cap_scope = unwrap_or scope default_scope,
              cap_properties = properties \<rparr>)))"

definition capability_handle_category ::
  "capability_handler \<Rightarrow> string \<Rightarrow> string \<Rightarrow> property_map \<Rightarrow> config_error + capability_handler" where
  "capability_handle_category h category name properties =
     (if category \<noteq> ''capability'' then
        Inl (UnexpectedCategory ''CapabilityConfigHandler'' category)
      else attempt (parse_capability name properties) (\<lambda>d.
        Inr (h \<lparr> cah_definitions := cah_definitions h @ [d] \<rparr>)))"

definition capability_generated ::
  "capability_handler \<Rightarrow> capability_definition list \<times> capability_handler" where
  "capability_generated h = (cah_definitions h, h \<lparr> cah_definitions := [] \<rparr>)"

subsection \<open>The trait as a record of operations\<close>

record 'h handler_ops =
  ho_claimed_categories :: "'h \<Rightarrow> category_claim list"
  ho_claimed_properties :: "'h \<Rightarrow> (string list) hmap"
  ho_accepts_unclaimed :: "'h \<Rightarrow> string \<Rightarrow> bool"
  ho_handle_category :: "'h \<Rightarrow> string \<Rightarrow> string \<Rightarrow> property_map \<Rightarrow> config_error + 'h"
  ho_handle_properties :: "'h \<Rightarrow> string \<Rightarrow> string \<Rightarrow> property_map \<Rightarrow> config_error + 'h"
  ho_generated_components :: "'h \<Rightarrow> component_definition list \<times> 'h"
  ho_generated_capabilities :: "'h \<Rightarrow> capability_definition list \<times> 'h"

text \<open>The trait's default methods.\<close>

definition default_handler_ops :: "'h handler_ops" where
  "default_handler_ops =
     \<lparr> ho_claimed_categories = (\<lambda>h. []), ho_claimed_properties = (\<lambda>h. []),
       ho_accepts_unclaimed = (\<lambda>h c. False),
       ho_handle_category = (\<lambda>h c n p. Inr h), ho_handle_properties = (\<lambda>h c n p. Inr h),
       ho_generated_components = (\<lambda>h. ([], h)), ho_generated_capabilities = (\<lambda>h. ([], h)) \<rparr>"

definition component_ops :: "(64 word \<Rightarrow> string) \<Rightarrow> component_handler handler_ops" where
  "component_ops sf = default_handler_ops
     \<lparr> ho_claimed_categories := component_claimed_categories,
       ho_claimed_properties := component_claimed_properties,
       ho_handle_category := component_handle_category sf,
       ho_generated_components := component_generated \<rparr>"

definition capability_ops :: "capability_handler handler_ops" where
  "capability_ops = default_handler_ops
     \<lparr> ho_claimed_categories := capability_claimed_categories,
       ho_claimed_properties := capability_claimed_properties,
       ho_accepts_unclaimed := capability_accepts_unclaimed,
       ho_handle_category := capability_handle_category,
       ho_generated_capabilities := capability_generated \<rparr>"

text \<open>A boxed handler: one of the two core handlers, or one registered by the embedder.\<close>

datatype 'x handler = CompH component_handler | CapH capability_handler | ExtH 'x

definition boxed_ops :: "(64 word \<Rightarrow> string) \<Rightarrow> 'x handler_ops \<Rightarrow> 'x handler handler_ops" where
  "boxed_ops sf ext =
     \<lparr> ho_claimed_categories = (\<lambda>h. case h of
          CompH c \<Rightarrow> ho_claimed_categories (component_ops sf) c
        | CapH c \<Rightarrow> ho_claimed_categories capability_ops c
        | ExtH x \<Rightarrow> ho_claimed_categories ext x),
       ho_claimed_properties = (\<lambda>h. case h of
          CompH c \<Rightarrow> ho_claimed_properties (component_ops sf) c
        | CapH c \<Rightarrow> ho_claimed_properties capability_ops c
        | ExtH x \<Rightarrow> ho_claimed_properties ext x),
       ho_accepts_unclaimed = (\<lambda>h cat. case h of
          CompH c \<Rightarrow> ho_accepts_unclaimed (component_ops sf) c cat
        | CapH c \<Rightarrow> ho_accepts_unclaimed capability_ops c cat
        | ExtH x \<Rightarrow> ho_accepts_unclaimed ext x cat),
       ho_handle_category = (\<lambda>h cat n p. case h of
          CompH c \<Rightarrow> map_ok CompH (ho_handle_category (component_ops sf) c cat n p)
        | CapH c \<Rightarrow> map_ok CapH (ho_handle_category capability_ops c cat n p)
        | ExtH x \<Rightarrow> map_ok ExtH (ho_handle_category ext x cat n p)),
       ho_handle_properties = (\<lambda>h cat n p. case h of
          CompH c \<Rightarrow> map_ok CompH (ho_handle_properties (component_ops sf) c cat n p)
        | CapH c \<Rightarrow> map_ok CapH (ho_handle_properties capability_ops c cat n p)
        | ExtH x \<Rightarrow> map_ok ExtH (ho_handle_properties ext x cat n p)),
       ho_generated_components = (\<lambda>h. case h of
          CompH c \<Rightarrow> map_prod id CompH (ho_generated_components (component_ops sf) c)
        | CapH c \<Rightarrow> map_prod id CapH (ho_generated_components capability_ops c)
        | ExtH x \<Rightarrow> map_prod id ExtH (ho_generated_components ext x)),
       ho_generated_capabilities = (\<lambda>h. case h of
          CompH c \<Rightarrow> map_prod id CompH (ho_generated_capabilities (component_ops sf) c)
        | CapH c \<Rightarrow> map_prod id CapH (ho_generated_capabilities capability_ops c)
        | ExtH x \<Rightarrow> map_prod id ExtH (ho_generated_capabilities ext x)) \<rparr>"

subsection \<open>Lemmas: the extractors\<close>

lemma hm_extend_Nil_aux: "distinct (map fst (m @ kvs)) \<Longrightarrow> hm_extend m kvs = m @ kvs"
proof (induction kvs arbitrary: m)
  case (Cons kv kvs)
  obtain k v where kv: "kv = (k, v)" by force
  then have "\<not> hm_has k m" using Cons.prems by (auto simp: hm_has_def)
  with Cons kv show ?case by (simp add: hm_extend_def hm_insert_new)
qed (simp add: hm_extend_def)

lemma hm_extend_Nil: "hm_wf kvs \<Longrightarrow> hm_extend [] kvs = kvs"
  by (simp add: hm_extend_Nil_aux)

lemma string_items_Inr_iff: "string_items key items = Inr xs \<longleftrightarrow> items = map JString xs"
proof (induction key items arbitrary: xs rule: string_items.induct)
  case (2 key item items)
  then show ?case by (cases item; cases xs) (auto simp: attempt_Inr_iff)
qed auto

lemma take_required_string_Inr_iff:
  "take_required_string m k = Inr (s, r) \<longleftrightarrow> hm_get k m = Some (JString s) \<and> r = hm_remove k m"
  by (auto simp: take_required_string_def split: option.splits json.splits)

lemma take_optional_string_Inr_iff:
  "take_optional_string m k = Inr (s, r) \<longleftrightarrow> hm_get k m = map_option JString s \<and> r = hm_remove k m"
  by (cases s) (auto simp: take_optional_string_def split: option.splits json.splits)

lemma take_string_array_Inr_iff:
  "take_string_array m k = Inr (xs, r) \<longleftrightarrow>
     (hm_get k m = Some (JArray (map JString xs)) \<or> hm_get k m = None \<and> xs = []) \<and>
     r = hm_remove k m"
  by (auto simp: take_string_array_def attempt_Inr_iff string_items_Inr_iff
      split: option.splits json.splits)

lemma take_object_Inr_iff:
  "take_object m k = Inr (c, r) \<longleftrightarrow>
     ((\<exists>obj. hm_get k m = Some (JObject obj) \<and> c = hm_extend [] obj) \<or>
      hm_get k m = None \<and> c = []) \<and> r = hm_remove k m"
  by (auto simp: take_object_def split: option.splits json.splits)

lemma take_string_map_shape:
  "take_string_map sf m k = Inr (l, r) \<Longrightarrow>
     r = hm_remove k m \<and> (hm_get k m = None \<and> l = [] \<or> (\<exists>obj. hm_get k m = Some (JObject obj)))"
  by (auto simp: take_string_map_def attempt_Inr_iff split: option.splits json.splits)

lemma string_map_fold:
  "fold_res (\<lambda>result (k, v). case scalar_string sf v of
       Some s \<Rightarrow> Inr (hm_insert k s result)
     | None \<Rightarrow> Inl (TypeMismatch (key @ ''.'' @ k) ''a scalar value'' v)) acc
     (map (\<lambda>(k, v). (k, JString v)) m) = Inr (hm_extend acc m)"
  by (induction m arbitrary: acc) (auto simp: hm_extend_def)

lemma hm_remove_keys: "set (hm_keys (hm_remove k m)) = set (hm_keys m) - {k}"
  by (auto simp: hm_remove_def delete_keys)

definition component_keys :: "string list" where
  "component_keys = [''uri'', ''scope'', ''imports'', ''interceptors'', ''config'', ''labels'']"

lemma parse_componentD:
  assumes "parse_component sf name m = Inr d"
  shows "set (hm_keys m) \<subseteq> set component_keys"
    and "comp_name d = name"
    and "hm_get ''uri'' m = Some (JString (comp_uri d))"
    and "hm_get ''scope'' m = None \<and> comp_scope d = ''any'' \<or>
         hm_get ''scope'' m = Some (JString (comp_scope d))"
    and "hm_get ''imports'' m = Some (JArray (map JString (comp_imports d))) \<or>
         hm_get ''imports'' m = None \<and> comp_imports d = []"
    and "hm_get ''interceptors'' m = Some (JArray (map JString (comp_interceptors d))) \<or>
         hm_get ''interceptors'' m = None \<and> comp_interceptors d = []"
proof -
  from assms obtain uri scope imps ints config labels m1 m2 m3 m4 m5 m6 where
    t: "take_required_string m ''uri'' = Inr (uri, m1)"
       "take_optional_string m1 ''scope'' = Inr (scope, m2)"
       "take_string_array m2 ''imports'' = Inr (imps, m3)"
       "take_string_array m3 ''interceptors'' = Inr (ints, m4)"
       "take_object m4 ''config'' = Inr (config, m5)"
       "take_string_map sf m5 ''labels'' = Inr (labels, m6)"
    and e: "m6 = []"
    and d: "d = \<lparr> comp_name = name, comp_uri = uri, comp_scope = unwrap_or scope default_scope,
          comp_imports = imps, comp_interceptors = ints, comp_config = config,
          comp_labels = labels \<rparr>"
    by (auto simp: parse_component_def Let_def attempt_Inr_iff map_err_Inr_iff split: if_splits)
  note iffs = t(1) [unfolded take_required_string_Inr_iff] t(2) [unfolded take_optional_string_Inr_iff]
    t(3,4) [unfolded take_string_array_Inr_iff] t(5) [unfolded take_object_Inr_iff]
    take_string_map_shape [OF t(6)]
  then have m6: "m6 = hm_remove ''labels'' (hm_remove ''config'' (hm_remove ''interceptors''
      (hm_remove ''imports'' (hm_remove ''scope'' (hm_remove ''uri'' m)))))"
    by blast
  have "set (hm_keys m) - set component_keys = set (hm_keys m6)"
    unfolding m6 hm_remove_keys component_keys_def by auto
  with e show "set (hm_keys m) \<subseteq> set component_keys" by auto
  show "comp_name d = name" using d by simp
  show "hm_get ''uri'' m = Some (JString (comp_uri d))" using iffs d by simp
  show "hm_get ''scope'' m = None \<and> comp_scope d = ''any'' \<or>
         hm_get ''scope'' m = Some (JString (comp_scope d))"
    using iffs d by (cases scope) (auto simp: default_scope_def)
  show "hm_get ''imports'' m = Some (JArray (map JString (comp_imports d))) \<or>
         hm_get ''imports'' m = None \<and> comp_imports d = []"
    using iffs d by auto
  show "hm_get ''interceptors'' m = Some (JArray (map JString (comp_interceptors d))) \<or>
         hm_get ''interceptors'' m = None \<and> comp_interceptors d = []"
    using iffs d by auto
qed

subsection \<open>The contract of a handler\<close>

text \<open>
  What \<open>dispatch\<close> and \<open>process\<close> rely on: handling a definition does not change what a handler
  claims, a handler takes only the categories it claims, and generated definitions are handed
  out once.
\<close>

locale config_handler =
  fixes ops :: "'h handler_ops"
  assumes category_keeps_claims:
      "ho_handle_category ops h c n p = Inr h' \<Longrightarrow>
         ho_claimed_categories ops h' = ho_claimed_categories ops h \<and>
         ho_claimed_properties ops h' = ho_claimed_properties ops h"
    and properties_keep_claims:
      "ho_handle_properties ops h c n p = Inr h' \<Longrightarrow>
         ho_claimed_categories ops h' = ho_claimed_categories ops h \<and>
         ho_claimed_properties ops h' = ho_claimed_properties ops h"
    and category_owned:
      "ho_handle_category ops h c n p = Inr h' \<Longrightarrow>
         c \<in> cc_category ` set (ho_claimed_categories ops h)"
    and components_once: "fst (ho_generated_components ops (snd (ho_generated_components ops h))) = []"
    and capabilities_once:
      "fst (ho_generated_capabilities ops (snd (ho_generated_capabilities ops h))) = []"
begin

lemma run_keeps_claims:
  assumes "fold_res (\<lambda>h (c, n, p). ho_handle_category ops h c n p) h events = Inr h'"
  shows "ho_claimed_categories ops h' = ho_claimed_categories ops h \<and>
         ho_claimed_properties ops h' = ho_claimed_properties ops h"
  by (rule fold_res_invariant [OF assms]) (auto dest: category_keeps_claims)

lemma run_owned:
  assumes "fold_res (\<lambda>h (c, n, p). ho_handle_category ops h c n p) h events = Inr h'"
    and "(c, n, p) \<in> set events"
  shows "c \<in> cc_category ` set (ho_claimed_categories ops h)"
  using assms
proof (induction events arbitrary: h)
  case (Cons e es)
  obtain c' n' p' where e: "e = (c', n', p')" by (cases e)
  with Cons.prems obtain h1 where h1: "ho_handle_category ops h c' n' p' = Inr h1"
    "fold_res (\<lambda>h (c, n, p). ho_handle_category ops h c n p) h1 es = Inr h'"
    by (auto simp: attempt_Inr_iff)
  show ?case
  proof (cases "(c, n, p) = e")
    case True
    then show ?thesis using h1(1) e category_owned by auto
  next
    case False
    then have "(c, n, p) \<in> set es" using Cons.prems by auto
    with Cons.IH [OF h1(2)] category_keeps_claims [OF h1(1)] show ?thesis by simp
  qed
qed simp

end

interpretation comp: config_handler "component_ops sf" for sf
  by unfold_locales
    (auto simp: component_ops_def default_handler_ops_def component_handle_category_def
      component_claimed_categories_def component_claimed_properties_def component_generated_def
      claim_all_def attempt_Inr_iff split: if_splits)

interpretation capa: config_handler capability_ops
  by unfold_locales
    (auto simp: capability_ops_def default_handler_ops_def capability_handle_category_def
      capability_claimed_categories_def capability_claimed_properties_def capability_generated_def
      claim_all_def attempt_Inr_iff split: if_splits)

text \<open>A vector of boxed handlers keeps the contract when the registered ones do.\<close>

lemma boxed_config_handler:
  assumes "config_handler ext"
  shows "config_handler (boxed_ops sf ext)"
proof
  note e = config_handler.category_keeps_claims [OF assms]
    config_handler.properties_keep_claims [OF assms] config_handler.category_owned [OF assms]
    config_handler.components_once [OF assms] config_handler.capabilities_once [OF assms]
  fix h c n p h'
  show "ho_handle_category (boxed_ops sf ext) h c n p = Inr h' \<Longrightarrow>
      ho_claimed_categories (boxed_ops sf ext) h' = ho_claimed_categories (boxed_ops sf ext) h \<and>
      ho_claimed_properties (boxed_ops sf ext) h' = ho_claimed_properties (boxed_ops sf ext) h"
    by (cases h)
      (auto simp: boxed_ops_def map_ok_Inr_iff dest: comp.category_keeps_claims
        capa.category_keeps_claims e(1))
  show "ho_handle_properties (boxed_ops sf ext) h c n p = Inr h' \<Longrightarrow>
      ho_claimed_categories (boxed_ops sf ext) h' = ho_claimed_categories (boxed_ops sf ext) h \<and>
      ho_claimed_properties (boxed_ops sf ext) h' = ho_claimed_properties (boxed_ops sf ext) h"
    by (cases h)
      (auto simp: boxed_ops_def map_ok_Inr_iff dest: comp.properties_keep_claims
        capa.properties_keep_claims e(2))
  show "ho_handle_category (boxed_ops sf ext) h c n p = Inr h' \<Longrightarrow>
      c \<in> cc_category ` set (ho_claimed_categories (boxed_ops sf ext) h)"
    by (cases h)
      (auto simp: boxed_ops_def map_ok_Inr_iff dest: comp.category_owned capa.category_owned e(3))
  show "fst (ho_generated_components (boxed_ops sf ext)
      (snd (ho_generated_components (boxed_ops sf ext) h))) = []"
    by (cases h) (simp_all add: boxed_ops_def comp.components_once capa.components_once e(4))
  show "fst (ho_generated_capabilities (boxed_ops sf ext)
      (snd (ho_generated_capabilities (boxed_ops sf ext) h))) = []"
    by (cases h) (simp_all add: boxed_ops_def comp.capabilities_once capa.capabilities_once e(5))
qed

subsection \<open>Definitions as configuration\<close>

text \<open>The properties that spell a component definition out.\<close>

definition component_properties :: "component_definition \<Rightarrow> property_map" where
  "component_properties d =
     [(''uri'', JString (comp_uri d)), (''scope'', JString (comp_scope d)),
      (''imports'', JArray (map JString (comp_imports d))),
      (''interceptors'', JArray (map JString (comp_interceptors d))),
      (''config'', JObject (comp_config d)),
      (''labels'', JObject (map (\<lambda>(k, v). (k, JString v)) (comp_labels d)))]"

lemma string_items_map [simp]: "string_items key (map JString xs) = Inr xs"
  by (simp add: string_items_Inr_iff)

text \<open>
  The component handler reads back every component definition from the properties that
  spell it out: uri, scope, imports, interceptors, configuration and labels all survive.
\<close>

theorem parse_component_roundtrip:
  assumes "hm_wf (comp_config d)" and "hm_wf (comp_labels d)"
  shows "parse_component sf (comp_name d) (component_properties d) = Inr d"
  using assms
  by (simp add: parse_component_def component_properties_def take_required_string_def
      take_optional_string_def take_string_array_def take_object_def take_string_map_def
      hm_remove_def Let_def string_map_fold hm_extend_Nil)

lemma parse_component_roundtrip_witness:
  "let d = \<lparr> comp_name = ''api'', comp_uri = ''./api.wasm'', comp_scope = ''any'',
             comp_imports = [''db''], comp_interceptors = [''auth''],
             comp_config = [(''retries'', JNumber (PosInt 3))],
             comp_labels = [(''tier'', ''gold'')] \<rparr>
   in parse_component (\<lambda>_. []) ''api'' (component_properties d) = Inr d"
  unfolding Let_def
  using parse_component_roundtrip [of "\<lparr> comp_name = ''api'', comp_uri = ''./api.wasm'',
      comp_scope = ''any'', comp_imports = [''db''], comp_interceptors = [''auth''],
      comp_config = [(''retries'', JNumber (PosInt 3))],
      comp_labels = [(''tier'', ''gold'')] \<rparr>" "\<lambda>_. []"]
  by simp

end
