(* ===== verification/Config_Processor.thy ===== *)
theory Config_Processor
  imports Config_Handlers
begin

section \<open>The configuration processor (\<open>src/config/processor.rs\<close>)\<close>

text \<open>
  Routing of paths to loaders, dispatch of generic definitions to the handler that owns them,
  the split of properties between handlers, placeholder resolution against the environment, and
  the cross-definition validation. Loaders and the environment are parameters; an index into
  the handler vector is a \<open>nat\<close>.
\<close>

subsection \<open>Claims\<close>

record registered_claim =
  rc_handler_idx :: nat
  rc_claim :: category_claim

type_synonym prop_claims = "((string \<times> string) \<times> nat) list"

definition register_claim ::
  "nat \<Rightarrow> category_claim \<Rightarrow> (registered_claim list) hmap \<Rightarrow> (registered_claim list) hmap" where
  "register_claim idx claim m =
     (let cat = cc_category claim
      in hm_insert cat (unwrap_or (hm_get cat m) [] @
           [\<lparr> rc_handler_idx = idx, rc_claim = claim \<rparr>]) m)"

definition category_claims :: "'h handler_ops \<Rightarrow> 'h list \<Rightarrow> (registered_claim list) hmap" where
  "category_claims ops hs =
     fold (\<lambda>(idx, claim). register_claim idx claim)
       [(idx, claim). (idx, h) \<leftarrow> List.enumerate 0 hs, claim \<leftarrow> ho_claimed_categories ops h] []"

definition check_exclusive :: "(registered_claim list) hmap \<Rightarrow> config_error + unit" where
  "check_exclusive m =
     fold_res (\<lambda>_ (category, claims).
       if 1 < length claims \<and> list_ex (\<lambda>c. cc_selector (rc_claim c) = None) claims
       then Inl (ExclusiveCategoryConflict category) else Inr ()) () m"

definition claim_property ::
  "prop_claims \<Rightarrow> nat \<times> string \<times> string \<Rightarrow> config_error + prop_claims" where
  "claim_property m c =
     (case c of (idx, category, prop) \<Rightarrow>
        (case map_of m (category, prop) of
           Some existing \<Rightarrow>
             (if existing \<noteq> idx then Inl (PropertyClaimConflict prop category)
              else Inr (AList.update (category, prop) idx m))
         | None \<Rightarrow> Inr (AList.update (category, prop) idx m)))"

definition property_claims :: "'h handler_ops \<Rightarrow> 'h list \<Rightarrow> config_error + prop_claims" where
  "property_claims ops hs =
     fold_res claim_property []
       [(idx, category, prop). (idx, h) \<leftarrow> List.enumerate 0 hs,
          (category, props) \<leftarrow> ho_claimed_properties ops h, prop \<leftarrow> props]"

subsection \<open>Flattening and ownership\<close>

definition full_key :: "string \<Rightarrow> string \<Rightarrow> string" where
  "full_key prefix key = (if prefix = [] then key else prefix @ ''.'' @ key)"

function flatten_recursive ::
  "(64 word \<Rightarrow> string) \<Rightarrow> string \<Rightarrow> (string \<times> json) list \<Rightarrow> (string option) hmap \<Rightarrow>
   (string option) hmap" where
  "flatten_recursive sf prefix [] result = result"
| "flatten_recursive sf prefix ((key, val) # rest) result =
     flatten_recursive sf prefix rest
       (case val of
          JString s \<Rightarrow> hm_insert (full_key prefix key) (Some s) result
        | JBool b \<Rightarrow> hm_insert (full_key prefix key) (Some (bool_string b)) result
        | JNumber n \<Rightarrow> hm_insert (full_key prefix key) (Some (show_number sf n)) result
        | JObject obj \<Rightarrow> flatten_recursive sf (full_key prefix key) obj result
        | JArray _ \<Rightarrow> hm_insert (full_key prefix key) None result
        | JNull \<Rightarrow> hm_insert (full_key prefix key) None result)"
  by pat_completeness auto
termination
  by (relation "measure (\<lambda>(_, _, m, _). members_size m)") auto

definition flatten_for_selector ::
  "(64 word \<Rightarrow> string) \<Rightarrow> property_map \<Rightarrow> (string option) hmap" where
  "flatten_for_selector sf properties = flatten_recursive sf [] properties []"

definition resolve_owner ::
  "(64 word \<Rightarrow> string) \<Rightarrow> registered_claim list \<Rightarrow> generic_definition \<Rightarrow> config_error + nat" where
  "resolve_owner sf claims def =
     (if length claims = 1 \<and> cc_selector (rc_claim (claims ! 0)) = None
      then Inr (rc_handler_idx (claims ! 0))
      else
        (let flat = flatten_for_selector sf (gd_properties def);
             matched = map rc_handler_idx
               (filter (\<lambda>rc. is_none_or (cc_selector (rc_claim rc)) (\<lambda>s. selector_matches s flat))
                  claims)
         in case matched of
              [] \<Rightarrow> Inl (NoHandlerMatched (gd_name def) (gd_category def))
            | [i] \<Rightarrow> Inr i
            | _ \<Rightarrow> Inl (MultipleHandlersMatched (gd_name def) (gd_category def))))"

definition split_step ::
  "string \<Rightarrow> nat \<Rightarrow> prop_claims \<Rightarrow> string \<Rightarrow>
   property_map \<times> (nat \<times> property_map) list \<Rightarrow> property_map \<times> (nat \<times> property_map) list" where
  "split_step category owner pcs key st =
     (case st of (properties, claimed) \<Rightarrow>
        (case map_of pcs (category, key) of
           None \<Rightarrow> st
         | Some handler_idx \<Rightarrow>
             (if handler_idx = owner then st
              else case hm_get key properties of
                None \<Rightarrow> st
              | Some val \<Rightarrow>
                  (hm_remove key properties,
                   AList.update handler_idx
                     (hm_insert key val (unwrap_or (map_of claimed handler_idx) [])) claimed))))"

definition split_properties ::
  "property_map \<Rightarrow> string \<Rightarrow> nat \<Rightarrow> prop_claims \<Rightarrow> property_map \<times> (nat \<times> property_map) list" where
  "split_properties properties category owner pcs =
     fold (split_step category owner pcs) (hm_keys properties) (properties, [])"

subsection \<open>Dispatch\<close>

definition check_unclaimed ::
  "prop_claims \<Rightarrow> generic_definition \<Rightarrow> property_map \<Rightarrow> config_error + unit" where
  "check_unclaimed pcs def core =
     fold_res (\<lambda>_ key. guard_res (map_of pcs (gd_category def, key) = None)
       (UnknownProperty (gd_category def) (gd_name def) key)) () (hm_keys core)"

definition route_properties ::
  "'h handler_ops \<Rightarrow> generic_definition \<Rightarrow> 'h list \<Rightarrow> nat \<times> property_map \<Rightarrow> config_error + 'h list" where
  "route_properties ops def hs ip =
     (case ip of (i, properties) \<Rightarrow>
        attempt (ho_handle_properties ops (hs ! i) (gd_category def) (gd_name def) properties)
          (\<lambda>h'. Inr (hs[i := h'])))"

definition dispatch_definition ::
  "(64 word \<Rightarrow> string) \<Rightarrow> 'h handler_ops \<Rightarrow> (registered_claim list) hmap \<Rightarrow> prop_claims \<Rightarrow>
   'h list \<Rightarrow> generic_definition \<Rightarrow> config_error + 'h list" where
  "dispatch_definition sf ops ccs pcs hs def =
     attempt (ok_or (UnknownCategory (gd_category def) (hm_keys ccs)) (hm_get (gd_category def) ccs))
       (\<lambda>claims.
     attempt (resolve_owner sf claims def) (\<lambda>owner.
       (let (core, claimed) = split_properties (gd_properties def) (gd_category def) owner pcs in
        attempt
          (if ho_accepts_unclaimed ops (hs ! owner) (gd_category def) then Inr ()
           else check_unclaimed pcs def core) (\<lambda>_.
        attempt (ho_handle_category ops (hs ! owner) (gd_category def) (gd_name def) core) (\<lambda>h'.
          fold_res (route_properties ops def) (hs[owner := h']) claimed)))))"

definition dispatch ::
  "(64 word \<Rightarrow> string) \<Rightarrow> 'h handler_ops \<Rightarrow> generic_definition list \<Rightarrow> 'h list \<Rightarrow>
   config_error + 'h list" where
  "dispatch sf ops definitions hs =
     (let ccs = category_claims ops hs in
      attempt (check_exclusive ccs) (\<lambda>_.
      attempt (property_claims ops hs) (\<lambda>pcs.
        fold_res (dispatch_definition sf ops ccs pcs) hs definitions)))"

subsection \<open>Placeholders\<close>

definition resolve_placeholder ::
  "(string \<Rightarrow> string option) \<Rightarrow> string \<Rightarrow> config_error + string option" where
  "resolve_placeholder env s =
     (if \<not> starts_with s ''${'' \<or> \<not> ends_with s ''}'' then Inr None
      else
        (let inner = drop 2 (take (length s - 1) s) in
         case strip_prefix inner ''process:env:'' of
           Some env_expr \<Rightarrow>
             (let (env_key, dflt) =
                    (case split_once env_expr ''|'' of
                       Some (key, d) \<Rightarrow> (key, Some d)
                     | None \<Rightarrow> (env_expr, None))
              in case (env env_key, dflt) of
                   (Some v, _) \<Rightarrow> Inr (Some v)
                 | (None, Some d) \<Rightarrow> Inr (Some d)
                 | (None, None) \<Rightarrow> Inl (EnvVarNotSet env_key s))
         | None \<Rightarrow> Inl (UnknownPlaceholder s)))"

fun resolve_placeholders_in_value ::
  "(string \<Rightarrow> string option) \<Rightarrow> json \<Rightarrow> config_error + json" where
  "resolve_placeholders_in_value env (JString s) =
     attempt (resolve_placeholder env s) (\<lambda>r.
       case r of Some resolved \<Rightarrow> Inr (JString resolved) | None \<Rightarrow> Inr (JString s))"
| "resolve_placeholders_in_value env (JArray arr) =
     attempt (collect_res (map (resolve_placeholders_in_value env) arr)) (\<lambda>xs. Inr (JArray xs))"
| "resolve_placeholders_in_value env (JObject m) =
     attempt (collect_res (map (\<lambda>kv. map_ok (Pair (fst kv))
         (resolve_placeholders_in_value env (snd kv))) m)) (\<lambda>xs. Inr (JObject xs))"
| "resolve_placeholders_in_value env v = Inr v"

definition resolve_placeholders_in_map ::
  "(string \<Rightarrow> string option) \<Rightarrow> json hmap \<Rightarrow> config_error + json hmap" where
  "resolve_placeholders_in_map env m =
     collect_res (map (\<lambda>kv. map_ok (Pair (fst kv)) (resolve_placeholders_in_value env (snd kv))) m)"

definition resolve_placeholders_in_components ::
  "(string \<Rightarrow> string option) \<Rightarrow> component_definition list \<Rightarrow> config_error + component_definition list" where
  "resolve_placeholders_in_components env defs =
     collect_res (map (\<lambda>d. map_ok (\<lambda>m. d \<lparr> comp_config := m \<rparr>)
       (resolve_placeholders_in_map env (comp_config d))) defs)"

definition resolve_placeholders_in_capabilities ::
  "(string \<Rightarrow> string option) \<Rightarrow> capability_definition list \<Rightarrow> config_error + capability_definition list" where
  "resolve_placeholders_in_capabilities env defs =
     collect_res (map (\<lambda>d. map_ok (\<lambda>m. d \<lparr> cap_properties := m \<rparr>)
       (resolve_placeholders_in_map env (cap_properties d))) defs)"

subsection \<open>Validation\<close>

definition validate_capability_scope :: "capability_definition \<Rightarrow> config_error + unit" where
  "validate_capability_scope d =
     (if cap_scope d = ''any'' then Inr ()
      else if cap_scope d = ''package'' \<or> cap_scope d = ''namespace'' then
        Inl (CapabilityScopeUnsupported (cap_name d) (cap_scope d))
      else Inl (InvalidScope (cap_scope d)))"

definition validate_component_scope :: "component_definition \<Rightarrow> config_error + unit" where
  "validate_component_scope d =
     (if comp_scope d \<in> {''any'', ''package'', ''namespace''} then Inr ()
      else Inl (InvalidScope (comp_scope d)))"

definition validate_scopes ::
  "component_definition list \<Rightarrow> capability_definition list \<Rightarrow> config_error + unit" where
  "validate_scopes components capabilities =
     attempt (fold_res (\<lambda>_ d. validate_capability_scope d) () capabilities) (\<lambda>_.
       fold_res (\<lambda>_ d. validate_component_scope d) () components)"

definition validate_name_chars :: "string \<Rightarrow> config_error + unit" where
  "validate_name_chars name =
     guard_res (starts_with name ''_'' \<or> has_char name CHR ''$'') (InvalidName name)"

definition insert_name :: "string list \<Rightarrow> string \<Rightarrow> config_error + string list" where
  "insert_name all_names name =
     attempt (validate_name_chars name) (\<lambda>_.
       if name \<in> set all_names then Inl (DuplicateName name) else Inr (all_names @ [name]))"

definition validate_names ::
  "component_definition list \<Rightarrow> capability_definition list \<Rightarrow> config_error + unit" where
  "validate_names components capabilities =
     attempt (fold_res insert_name [] (map cap_name capabilities)) (\<lambda>names.
       attempt (fold_res insert_name names (map comp_name components)) (\<lambda>_. Inr ()))"

definition validate_import :: "string list \<Rightarrow> string \<times> string \<Rightarrow> config_error + unit" where
  "validate_import all_names di =
     (case di of (def_name, import_name) \<Rightarrow>
        attempt (map_err (InvalidImport def_name) (validate_name_chars import_name)) (\<lambda>_.
          guard_res (import_name \<notin> set all_names) (UndefinedImport def_name import_name)))"

definition validate_imports ::
  "component_definition list \<Rightarrow> capability_definition list \<Rightarrow> config_error + unit" where
  "validate_imports components capabilities =
     (let all_names = map comp_name components @ map cap_name capabilities in
      fold_res (\<lambda>_. validate_import all_names) ()
        [(comp_name d, i). d \<leftarrow> components, i \<leftarrow> comp_imports d])"

subsection \<open>The pipeline\<close>

record 'l loader_ops =
  lo_claim :: "'l \<Rightarrow> string \<Rightarrow> bool \<times> 'l"
  lo_load :: "'l \<Rightarrow> config_error + generic_definition list"

text \<open>Offering one path to every loader: the indices that claimed it, and the loaders after.\<close>

fun offer_path ::
  "'l loader_ops \<Rightarrow> string \<Rightarrow> nat \<Rightarrow> 'l list \<Rightarrow> nat list \<times> 'l list" where
  "offer_path lops path idx [] = ([], [])"
| "offer_path lops path idx (l # ls) =
     (let (claimed, l') = lo_claim lops l path;
          (by', ls') = offer_path lops path (Suc idx) ls
      in (if claimed then idx # by' else by', l' # ls'))"

definition route_path :: "'l loader_ops \<Rightarrow> 'l list \<Rightarrow> string \<Rightarrow> config_error + 'l list" where
  "route_path lops loaders path =
     (let (claimed_by, loaders') = offer_path lops path 0 loaders in
      if length claimed_by = 0 then Inl (NoLoader path)
      else if length claimed_by = 1 then Inr loaders'
      else Inl (MultipleLoaders path))"

definition load_all :: "'l loader_ops \<Rightarrow> 'l list \<Rightarrow> config_error + generic_definition list" where
  "load_all lops loaders = map_ok concat (collect_res (map (lo_load lops) loaders))"

definition collect_generated ::
  "'h handler_ops \<Rightarrow> 'h list \<Rightarrow> component_definition list \<times> capability_definition list" where
  "collect_generated ops hs =
     (let outs = map (\<lambda>h. let (cs, h') = ho_generated_components ops h;
                               (ks, h'') = ho_generated_capabilities ops h'
                           in (cs, ks)) hs
      in (concat (map fst outs), concat (map snd outs)))"

definition finish_definitions ::
  "(string \<Rightarrow> string option) \<Rightarrow> component_definition list \<times> capability_definition list \<Rightarrow>
   config_error + component_definition list \<times> capability_definition list" where
  "finish_definitions env defs =
     (case defs of (cs, ks) \<Rightarrow>
        attempt (resolve_placeholders_in_components env cs) (\<lambda>cs.
        attempt (resolve_placeholders_in_capabilities env ks) (\<lambda>ks.
        attempt (validate_scopes cs ks) (\<lambda>_.
        attempt (validate_names cs ks) (\<lambda>_.
        attempt (validate_imports cs ks) (\<lambda>_. Inr (cs, ks)))))))"

definition process_config ::
  "(64 word \<Rightarrow> string) \<Rightarrow> (string \<Rightarrow> string option) \<Rightarrow> 'l loader_ops \<Rightarrow> 'l list \<Rightarrow> 'x handler_ops \<Rightarrow>
   'x list \<Rightarrow> string list \<Rightarrow> config_error + component_definition list \<times> capability_definition list" where
  "process_config sf env lops loaders ext handlers paths =
     attempt (fold_res (route_path lops) loaders paths) (\<lambda>loaders.
     attempt (load_all lops loaders) (\<lambda>definitions.
     (let all_handlers = CompH component_handler_new # CapH capability_handler_new # map ExtH handlers in
      attempt (dispatch sf (boxed_ops sf ext) definitions all_handlers) (\<lambda>hs.
        finish_definitions env (collect_generated (boxed_ops sf ext) hs)))))"

subsection \<open>Lemmas: the split of properties\<close>

definition routed_to :: "prop_claims \<Rightarrow> string \<Rightarrow> nat \<Rightarrow> string \<Rightarrow> nat option" where
  "routed_to pcs category owner key =
     (case map_of pcs (category, key) of
        None \<Rightarrow> None | Some i \<Rightarrow> if i = owner then None else Some i)"

definition claimed_value :: "(nat \<times> property_map) list \<Rightarrow> nat \<Rightarrow> string \<Rightarrow> json option" where
  "claimed_value claimed i key = and_then (map_of claimed i) (\<lambda>m. map_of m key)"

lemma map_of_unwrap_or: "map_of (unwrap_or x []) k = and_then x (\<lambda>m. map_of m k)"
  by (cases x) auto

lemma split_step_effect:
  assumes "split_step category owner pcs key (properties, claimed) = (properties', claimed')"
  shows "map_of properties' k =
           (if k = key \<and> routed_to pcs category owner key \<noteq> None then None else map_of properties k)"
    and "claimed_value claimed' i k =
           (if k = key \<and> routed_to pcs category owner key = Some i \<and> map_of properties key \<noteq> None
            then map_of properties key else claimed_value claimed i k)"
  using assms
  by (auto simp: split_step_def routed_to_def claimed_value_def update_conv' map_of_unwrap_or
      split: option.splits if_splits)

lemma split_fold_effect:
  assumes "fold (split_step category owner pcs) ks (properties, claimed) = (properties', claimed')"
    and "distinct ks"
  shows "map_of properties' k =
           (if k \<in> set ks \<and> routed_to pcs category owner k \<noteq> None then None else map_of properties k)
         \<and> claimed_value claimed' i k =
           (if k \<in> set ks \<and> routed_to pcs category owner k = Some i \<and> map_of properties k \<noteq> None
            then map_of properties k else claimed_value claimed i k)"
  using assms
proof (induction ks arbitrary: properties claimed)
  case (Cons key ks)
  obtain p1 c1 where s: "split_step category owner pcs key (properties, claimed) = (p1, c1)"
    by force
  with Cons.prems have "fold (split_step category owner pcs) ks (p1, c1) = (properties', claimed')"
    "distinct ks" "key \<notin> set ks" by auto
  from Cons.IH [OF this(1,2)] this(3) split_step_effect [OF s] show ?case by auto
qed auto

lemma split_effect:
  assumes "hm_wf properties"
    and "split_properties properties category owner pcs = (core, claimed)"
  shows "hm_get key core =
           (if routed_to pcs category owner key = None then hm_get key properties else None) \<and>
         claimed_value claimed i key =
           (if routed_to pcs category owner key = Some i then hm_get key properties else None)"
proof -
  have "claimed_value [] i key = None" by (simp add: claimed_value_def)
  moreover have "key \<in> set (map fst properties) \<longleftrightarrow> map_of properties key \<noteq> None"
    by (metis hm_has_def hm_has_iff not_None_eq)
  ultimately show ?thesis
    using split_fold_effect [OF assms(2) [unfolded split_properties_def] assms(1), of key i]
    by auto
qed

lemma split_core_key:
  assumes "hm_wf properties" and "key \<in> set (hm_keys properties)"
    and "split_properties properties category owner pcs = (core, claimed)"
    and "routed_to pcs category owner key = None"
  shows "key \<in> set (hm_keys core)"
proof -
  have "hm_get key core = hm_get key properties"
    using split_effect [OF assms(1,3), of key 0] assms(4) by simp
  moreover have "hm_get key properties \<noteq> None"
    using assms(2) by (metis hm_has_def hm_has_iff not_None_eq)
  ultimately show ?thesis by (metis hm_has_def hm_has_iff not_None_eq)
qed

text \<open>
  Splitting a definition's properties loses and duplicates nothing: a property claimed by
  another handler goes to that handler and to no other with its value, and every remaining
  property stays with the owner.
\<close>

theorem split_properties_partition:
  assumes "hm_wf properties"
    and "split_properties properties category owner pcs = (core, claimed)"
  shows "hm_get key core =
           (if routed_to pcs category owner key = None then hm_get key properties else None) \<and>
         claimed_value claimed i key =
           (if routed_to pcs category owner key = Some i then hm_get key properties else None)"
  by (rule split_effect [OF assms])

lemma split_properties_partition_witness:
  "hm_get ''topic''
     (fst (split_properties [(''uri'', JString ''a''), (''topic'', JString ''t'')] ''component'' 0
        [((''component'', ''uri''), 0), ((''component'', ''topic''), 2)])) = None \<and>
   claimed_value
     (snd (split_properties [(''uri'', JString ''a''), (''topic'', JString ''t'')] ''component'' 0
        [((''component'', ''uri''), 0), ((''component'', ''topic''), 2)])) 2 ''topic'' =
     Some (JString ''t'')"
  using split_properties_partition [of "[(''uri'', JString ''a''), (''topic'', JString ''t'')]"
      "''component''" 0 "[((''component'', ''uri''), 0), ((''component'', ''topic''), 2)]"
      "fst (split_properties [(''uri'', JString ''a''), (''topic'', JString ''t'')] ''component'' 0
        [((''component'', ''uri''), 0), ((''component'', ''topic''), 2)])"
      "snd (split_properties [(''uri'', JString ''a''), (''topic'', JString ''t'')] ''component'' 0
        [((''component'', ''uri''), 0), ((''component'', ''topic''), 2)])" "''topic''" 2]
  by (simp add: routed_to_def)

subsection \<open>Lemmas: ownership and dispatch\<close>

definition claim_owns ::
  "(64 word \<Rightarrow> string) \<Rightarrow> generic_definition \<Rightarrow> registered_claim \<Rightarrow> bool" where
  "claim_owns sf def rc =
     is_none_or (cc_selector (rc_claim rc))
       (\<lambda>s. selector_matches s (flatten_for_selector sf (gd_properties def)))"

lemma filter_singleton_split:
  "filter P xs = [x] \<Longrightarrow>
     \<exists>pre post. xs = pre @ x # post \<and> P x \<and> (\<forall>y \<in> set (pre @ post). \<not> P y)"
proof (induction xs)
  case (Cons y ys)
  show ?case
  proof (cases "P y")
    case True
    with Cons.prems have "y = x" "filter P ys = []" by auto
    with True show ?thesis by (intro exI [of _ "[]"] exI [of _ ys]) (auto simp: filter_empty_conv)
  next
    case False
    with Cons obtain pre post where "ys = pre @ x # post" "P x" "\<forall>y \<in> set (pre @ post). \<not> P y"
      by auto
    with False show ?thesis by (intro exI [of _ "y # pre"] exI [of _ post]) auto
  qed
qed simp

text \<open>
  A definition is handled by a unique owner: when an owner is resolved, exactly one of the
  category's claims accepts the definition and the owner is the handler that made it.
\<close>

theorem resolve_owner_unique:
  assumes "resolve_owner sf claims def = Inr i"
  shows "\<exists>pre c post. claims = pre @ c # post \<and> rc_handler_idx c = i \<and> claim_owns sf def c \<and>
           list_all (\<lambda>c'. \<not> claim_owns sf def c') (pre @ post)"
proof (cases "length claims = 1 \<and> cc_selector (rc_claim (claims ! 0)) = None")
  case True
  then obtain c where "claims = [c]" "cc_selector (rc_claim c) = None"
    by (auto simp: length_Suc_conv)
  with assms show ?thesis
    by (intro exI [of _ "[]"] exI [of _ c]) (auto simp: resolve_owner_def claim_owns_def)
next
  case False
  then have "map rc_handler_idx (filter (claim_owns sf def) claims) = [i]"
    using assms by (auto simp: resolve_owner_def claim_owns_def [abs_def] Let_def split: list.splits)
  then obtain c where "filter (claim_owns sf def) claims = [c]" "rc_handler_idx c = i"
    by (auto simp: map_eq_Cons_conv)
  then show ?thesis
    using filter_singleton_split [of "claim_owns sf def" claims c] by (auto simp: list_all_iff)
qed

lemma resolve_owner_unique_witness:
  "\<exists>pre c post.
     [\<lparr> rc_handler_idx = 3, rc_claim = claim_with_selector ''gateway''
          \<lparr> sel_conditions = [mk_condition ''type'' (Equals ''http'')] \<rparr> \<rparr>] = pre @ c # post \<and>
     rc_handler_idx c = 3 \<and>
     claim_owns (\<lambda>_. []) \<lparr> gd_category = ''gateway'', gd_name = ''g'',
        gd_properties = [(''type'', JString ''http'')] \<rparr> c \<and>
     list_all (\<lambda>c'. \<not> claim_owns (\<lambda>_. []) \<lparr> gd_category = ''gateway'', gd_name = ''g'',
        gd_properties = [(''type'', JString ''http'')] \<rparr> c') (pre @ post)"
  by (rule resolve_owner_unique)
    (simp add: resolve_owner_def claim_with_selector_def flatten_for_selector_def full_key_def
      selector_matches_def condition_matches_def mk_condition_def)

lemma dispatch_definition_steps:
  assumes "dispatch_definition sf ops ccs pcs hs def = Inr hs'"
  shows "\<exists>claims owner core claimed h'.
     hm_get (gd_category def) ccs = Some claims \<and> resolve_owner sf claims def = Inr owner \<and>
     split_properties (gd_properties def) (gd_category def) owner pcs = (core, claimed) \<and>
     (ho_accepts_unclaimed ops (hs ! owner) (gd_category def) \<or>
      check_unclaimed pcs def core = Inr ()) \<and>
     ho_handle_category ops (hs ! owner) (gd_category def) (gd_name def) core = Inr h' \<and>
     fold_res (route_properties ops def) (hs[owner := h']) claimed = Inr hs'"
proof -
  from assms obtain claims owner where
    c: "hm_get (gd_category def) ccs = Some claims" "resolve_owner sf claims def = Inr owner"
    unfolding dispatch_definition_def attempt_Inr_iff ok_or_Inr_iff by blast
  obtain core claimed where
    s: "split_properties (gd_properties def) (gd_category def) owner pcs = (core, claimed)"
    by force
  from assms c s show ?thesis
    by (auto simp: dispatch_definition_def attempt_Inr_iff split: if_splits)
qed

lemma check_unclaimed_ok:
  "check_unclaimed pcs def core = Inr u \<longleftrightarrow>
     (\<forall>key \<in> set (hm_keys core). map_of pcs (gd_category def, key) \<noteq> None)"
  unfolding check_unclaimed_def fold_res_unit_ok by simp

text \<open>
  Unknown properties never go through: when a definition is dispatched and its owner does
  not take arbitrary properties, every one of its properties is claimed by some handler.
\<close>

theorem dispatch_rejects_unknown_properties:
  assumes "hm_wf (gd_properties def)"
    and "dispatch_definition sf ops ccs pcs hs def = Inr hs'"
    and "key \<in> set (hm_keys (gd_properties def))"
  shows "\<exists>claims owner. hm_get (gd_category def) ccs = Some claims \<and>
           resolve_owner sf claims def = Inr owner \<and>
           (ho_accepts_unclaimed ops (hs ! owner) (gd_category def) \<or>
            map_of pcs (gd_category def, key) \<noteq> None)"
proof -
  from dispatch_definition_steps [OF assms(2)] obtain claims owner core claimed where
    c: "hm_get (gd_category def) ccs = Some claims" "resolve_owner sf claims def = Inr owner"
    and s: "split_properties (gd_properties def) (gd_category def) owner pcs = (core, claimed)"
    and u: "ho_accepts_unclaimed ops (hs ! owner) (gd_category def) \<or>
            check_unclaimed pcs def core = Inr ()"
    by blast
  have "map_of pcs (gd_category def, key) \<noteq> None" if "check_unclaimed pcs def core = Inr ()"
  proof (cases "routed_to pcs (gd_category def) owner key")
    case None
    with split_core_key [OF assms(1,3) s] that show ?thesis
      by (auto simp: check_unclaimed_ok)
  next
    case (Some i)
    then show ?thesis by (auto simp: routed_to_def split: option.splits)
  qed
  with c u show ?thesis by blast
qed

lemma dispatch_rejects_unknown_properties_witness:
  "\<exists>claims owner.
     hm_get ''component'' (category_claims (component_ops (\<lambda>_. [])) [component_handler_new]) = Some claims \<and>
     resolve_owner (\<lambda>_. []) claims
       \<lparr> gd_category = ''component'', gd_name = ''a'', gd_properties = [(''uri'', JString ''a.wasm'')] \<rparr> =
       Inr owner \<and>
     (ho_accepts_unclaimed (component_ops (\<lambda>_. [])) ([component_handler_new] ! owner) ''component'' \<or>
      map_of [((''component'', ''uri''), 0)] (''component'', ''uri'') \<noteq> None)"
  using dispatch_rejects_unknown_properties
    [of "\<lparr> gd_category = ''component'', gd_name = ''a'', gd_properties = [(''uri'', JString ''a.wasm'')] \<rparr>"
      "\<lambda>_. []" "component_ops (\<lambda>_. [])"
      "category_claims (component_ops (\<lambda>_. [])) [component_handler_new]"
      "[((''component'', ''uri''), 0)]" "[component_handler_new]"
      "[\<lparr> ch_definitions = [\<lparr> comp_name = ''a'', comp_uri = ''a.wasm'', comp_scope = ''any'',
           comp_imports = [], comp_interceptors = [], comp_config = [], comp_labels = [] \<rparr>] \<rparr>]"
      "''uri''"]
  by (simp add: dispatch_definition_def category_claims_def register_claim_def component_ops_def
      default_handler_ops_def component_claimed_categories_def claim_all_def hm_insert_def
      resolve_owner_def split_properties_def split_step_def check_unclaimed_def
      component_handle_category_def parse_component_def Let_def component_handler_new_def
      take_required_string_def take_optional_string_def take_string_array_def take_object_def
      take_string_map_def hm_remove_def default_scope_def)

subsection \<open>Dispatch and the handler contract\<close>

text \<open>Two handler vectors that claim the same things.\<close>

definition same_claims :: "'h handler_ops \<Rightarrow> 'h list \<Rightarrow> 'h list \<Rightarrow> bool" where
  "same_claims ops hs hs' \<longleftrightarrow>
     map (ho_claimed_categories ops) hs' = map (ho_claimed_categories ops) hs \<and>
     map (ho_claimed_properties ops) hs' = map (ho_claimed_properties ops) hs"

lemma same_claims_trans: "same_claims ops a b \<Longrightarrow> same_claims ops b c \<Longrightarrow> same_claims ops a c"
  by (simp add: same_claims_def)

lemma enumerate_claims:
  "map f hs = map g hs' \<Longrightarrow>
     concat (map (\<lambda>(i, h). map (P i) (f h)) (List.enumerate n hs)) =
     concat (map (\<lambda>(i, h). map (P i) (g h)) (List.enumerate n hs'))"
proof (induction hs arbitrary: n hs')
  case (Cons h hs)
  then show ?case by (cases hs') auto
qed simp

lemma enumerate_prop_claims:
  "map f hs = map g hs' \<Longrightarrow>
     concat (map (\<lambda>(i, h). concat (map (\<lambda>(c, ps). map (\<lambda>p. (i, c, p)) ps) (f h))) (List.enumerate n hs)) =
     concat (map (\<lambda>(i, h). concat (map (\<lambda>(c, ps). map (\<lambda>p. (i, c, p)) ps) (g h))) (List.enumerate n hs'))"
proof (induction hs arbitrary: n hs')
  case (Cons h hs)
  then show ?case by (cases hs') auto
qed simp

lemma same_claims_registered:
  assumes "same_claims ops hs hs'"
  shows "category_claims ops hs' = category_claims ops hs"
    and "property_claims ops hs' = property_claims ops hs"
  using assms enumerate_claims [of "ho_claimed_categories ops" hs' "ho_claimed_categories ops" hs Pair 0]
    enumerate_prop_claims [of "ho_claimed_properties ops" hs' "ho_claimed_properties ops" hs 0]
  by (simp_all add: category_claims_def property_claims_def same_claims_def)

lemma map_list_update_same: "i < length xs \<Longrightarrow> f y = f (xs ! i) \<Longrightarrow> map f (xs[i := y]) = map f xs"
  by (simp add: map_update) (metis length_map list_update_id nth_map)

context config_handler
begin

lemma update_same_claims:
  assumes "ho_claimed_categories ops h' = ho_claimed_categories ops (hs ! i)"
    and "ho_claimed_properties ops h' = ho_claimed_properties ops (hs ! i)"
  shows "same_claims ops hs (hs[i := h'])"
  using assms
  by (cases "i < length hs") (simp_all add: same_claims_def map_list_update_same list_update_beyond)

lemma dispatch_definition_keeps_claims:
  assumes "dispatch_definition sf ops ccs pcs hs def = Inr hs'"
  shows "same_claims ops hs hs'"
proof -
  from dispatch_definition_steps [OF assms] obtain owner core claimed h' where
    h: "ho_handle_category ops (hs ! owner) (gd_category def) (gd_name def) core = Inr h'"
    and r: "fold_res (route_properties ops def) (hs[owner := h']) claimed = Inr hs'"
    by blast
  have "same_claims ops hs (hs[owner := h'])"
    using category_keeps_claims [OF h] by (intro update_same_claims) auto
  then show ?thesis
  proof (rule fold_res_invariant [OF r])
    fix s x s' assume "same_claims ops hs s" "route_properties ops def s x = Inr s'"
    then show "same_claims ops hs s'"
      by (cases x) (auto simp: route_properties_def attempt_Inr_iff
          dest!: properties_keep_claims intro: same_claims_trans update_same_claims)
  qed
qed

lemma dispatch_run_keeps_claims:
  assumes "fold_res (dispatch_definition sf ops ccs pcs) hs definitions = Inr hs'"
  shows "same_claims ops hs hs'"
  by (rule fold_res_invariant [OF assms])
    (auto simp: same_claims_def intro: same_claims_trans dest: dispatch_definition_keeps_claims)

text \<open>Dispatching a batch is dispatching its parts one after the other.\<close>

lemma dispatch_append_contract:
  "dispatch sf ops (xs @ ys) hs = attempt (dispatch sf ops xs hs) (dispatch sf ops ys)"
proof (cases "dispatch sf ops xs hs")
  case (Inl e)
  then show ?thesis
    by (auto simp: dispatch_def Let_def fold_res_append attempt_Inl_iff)
next
  case (Inr hs')
  then obtain pcs where p: "check_exclusive (category_claims ops hs) = Inr ()"
    "property_claims ops hs = Inr pcs"
    "fold_res (dispatch_definition sf ops (category_claims ops hs) pcs) hs xs = Inr hs'"
    by (auto simp: dispatch_def Let_def attempt_Inr_iff)
  with same_claims_registered [OF dispatch_run_keeps_claims [OF p(3)]] Inr show ?thesis
    by (simp add: dispatch_def Let_def fold_res_append)
qed

end

subsection \<open>Lemmas: validation\<close>

lemma insert_names_ok:
  assumes "fold_res insert_name acc names = Inr acc'" and "distinct acc"
  shows "acc' = acc @ names \<and> distinct (acc @ names) \<and>
         (\<forall>n \<in> set names. \<not> starts_with n ''_'' \<and> CHR ''$'' \<notin> set n)"
  using assms
proof (induction names arbitrary: acc)
  case (Cons n ns)
  then obtain a1 where a1: "insert_name acc n = Inr a1" "fold_res insert_name a1 ns = Inr acc'"
    by (auto simp: attempt_Inr_iff)
  then have n: "validate_name_chars n = Inr ()" "n \<notin> set acc" "a1 = acc @ [n]"
    by (auto simp: attempt_Inr_iff insert_name_def split: if_splits)
  with a1 have r: "fold_res insert_name (acc @ [n]) ns = Inr acc'" by simp
  from Cons.IH [OF r] n(2) Cons.prems(2) n(1) show ?case
    by (auto simp: validate_name_chars_def guard_res_Inr_iff has_char_def)
qed simp

lemma validate_names_ok:
  assumes "validate_names cs ks = Inr u"
  shows "distinct (map cap_name ks @ map comp_name cs)"
    and "n \<in> set (map cap_name ks @ map comp_name cs) \<Longrightarrow> \<not> starts_with n ''_'' \<and> CHR ''$'' \<notin> set n"
proof -
  from assms obtain names names' where
    n: "fold_res insert_name [] (map cap_name ks) = Inr names"
       "fold_res insert_name names (map comp_name cs) = Inr names'"
    by (auto simp: validate_names_def attempt_Inr_iff)
  from insert_names_ok [OF n(1)] have
    k: "names = map cap_name ks" "distinct names"
       "\<forall>n \<in> set (map cap_name ks). \<not> starts_with n ''_'' \<and> CHR ''$'' \<notin> set n" by auto
  from insert_names_ok [OF n(2) k(2)] k show
    "distinct (map cap_name ks @ map comp_name cs)"
    "n \<in> set (map cap_name ks @ map comp_name cs) \<Longrightarrow> \<not> starts_with n ''_'' \<and> CHR ''$'' \<notin> set n"
    by auto
qed

lemma validate_imports_ok:
  "validate_imports cs ks = Inr u \<longleftrightarrow>
     (\<forall>d \<in> set cs. \<forall>i \<in> set (comp_imports d).
        \<not> starts_with i ''_'' \<and> CHR ''$'' \<notin> set i \<and> i \<in> comp_name ` set cs \<union> cap_name ` set ks)"
  unfolding validate_imports_def Let_def fold_res_guard_ok
  by (auto simp: validate_import_def attempt_Inr_iff map_err_Inr_iff validate_name_chars_def
      guard_res_Inr_iff has_char_def)

lemma validate_scopes_ok:
  "validate_scopes cs ks = Inr u \<longleftrightarrow>
     (\<forall>d \<in> set ks. cap_scope d = ''any'') \<and>
     (\<forall>d \<in> set cs. comp_scope d \<in> {''any'', ''package'', ''namespace''})"
  unfolding validate_scopes_def attempt_Inr_iff fold_res_guard_ok
  by (auto simp: validate_capability_scope_def validate_component_scope_def split: if_splits)

lemma finish_definitions_valid:
  assumes "finish_definitions env defs = Inr (cs, ks)"
  shows "validate_names cs ks = Inr ()" "validate_imports cs ks = Inr ()" "validate_scopes cs ks = Inr ()"
  using assms by (auto simp: finish_definitions_def attempt_Inr_iff split: prod.splits)

lemma process_config_steps:
  assumes "process_config sf env lops loaders ext handlers paths = Inr (cs, ks)"
  shows "\<exists>defs. finish_definitions env defs = Inr (cs, ks)"
proof -
  obtain defs where "finish_definitions env defs = Inr (cs, ks)"
    using assms unfolding process_config_def Let_def attempt_Inr_iff by blast
  then show ?thesis by blast
qed

text \<open>
  C4. What the processor returns is consistent: all component and capability names are pairwise
  distinct, none starts with an underscore or holds a dollar sign, every import of a component
  names a returned definition, and every scope is one its kind supports.
\<close>

theorem process_config_consistent:
  assumes "process_config sf env lops loaders ext handlers paths = Inr (cs, ks)"
  shows "distinct (map cap_name ks @ map comp_name cs) \<and>
         list_all (\<lambda>n. \<not> starts_with n ''_'' \<and> CHR ''$'' \<notin> set n)
           (map cap_name ks @ map comp_name cs) \<and>
         list_all (\<lambda>d. set (comp_imports d) \<subseteq> comp_name ` set cs \<union> cap_name ` set ks) cs \<and>
         list_all (\<lambda>d. comp_scope d \<in> {''any'', ''package'', ''namespace''}) cs \<and>
         list_all (\<lambda>d. cap_scope d = ''any'') ks"
proof -
  obtain defs where f: "finish_definitions env defs = Inr (cs, ks)"
    using process_config_steps [OF assms] by blast
  note v = finish_definitions_valid [OF f]
  note n = validate_names_ok [OF v(1)]
  show ?thesis
    using n v(2,3) unfolding validate_imports_ok validate_scopes_ok by (simp add: list_all_iff) blast
qed

text \<open>A loader that holds its definitions, for the witness.\<close>

definition fixed_loader :: "generic_definition list loader_ops" where
  "fixed_loader = \<lparr> lo_claim = (\<lambda>l path. (False, l)), lo_load = (\<lambda>l. Inr l) \<rparr>"

lemma core_claims:
  "category_claims (boxed_ops sf ext) [CompH c, CapH k] =
     [(''component'', [\<lparr> rc_handler_idx = 0, rc_claim = claim_all ''component'' \<rparr>]),
      (''capability'', [\<lparr> rc_handler_idx = 1, rc_claim = claim_all ''capability'' \<rparr>])]"
  by (simp add: category_claims_def register_claim_def boxed_ops_def component_ops_def
      capability_ops_def component_claimed_categories_def capability_claimed_categories_def
      claim_all_def hm_insert_def Let_def)

definition core_property_claims :: prop_claims where
  "core_property_claims =
     map (\<lambda>p. ((''component'', p), 0)) component_keys @
     [((''capability'', ''type''), 1), ((''capability'', ''scope''), 1)]"

lemma core_props:
  "property_claims (boxed_ops sf ext) [CompH c, CapH k] = Inr core_property_claims"
  by (simp add: property_claims_def claim_property_def boxed_ops_def component_ops_def
      capability_ops_def component_claimed_properties_def capability_claimed_properties_def
      core_property_claims_def component_keys_def)

lemma core_exclusive: "check_exclusive (category_claims (boxed_ops sf ext) [CompH c, CapH k]) = Inr ()"
  by (simp add: core_claims check_exclusive_def)

lemma core_claims_owner:
  "map_of core_property_claims (''component'', p) = (if p \<in> set component_keys then Some 0 else None)"
  "map_of core_property_claims (''capability'', p) = (if p \<in> {''type'', ''scope''} then Some 1 else None)"
  by (auto simp: core_property_claims_def component_keys_def)

lemma split_none_routed:
  assumes "\<And>key. routed_to pcs category owner key = None"
  shows "split_properties properties category owner pcs = (properties, [])"
proof -
  have "split_step category owner pcs key st = st" for key st
    using assms [of key] by (auto simp: split_step_def routed_to_def split: option.splits if_splits prod.splits)
  then have "fold (split_step category owner pcs) ks st = st" for ks st
    by (induction ks arbitrary: st) auto
  then show ?thesis by (simp add: split_properties_def)
qed

text \<open>
  What the two core handlers make of one definition: a component with only known properties is
  parsed and appended, a capability is parsed and appended, and everything else is an error.
\<close>

definition core_step ::
  "(64 word \<Rightarrow> string) \<Rightarrow> component_definition list \<times> capability_definition list \<Rightarrow> generic_definition \<Rightarrow>
   config_error + component_definition list \<times> capability_definition list" where
  "core_step sf st def =
     (if gd_category def = ''component'' then
        attempt (check_unclaimed core_property_claims def (gd_properties def)) (\<lambda>_.
          map_ok (\<lambda>d. (fst st @ [d], snd st)) (parse_component sf (gd_name def) (gd_properties def)))
      else if gd_category def = ''capability'' then
        map_ok (\<lambda>d. (fst st, snd st @ [d])) (parse_capability (gd_name def) (gd_properties def))
      else Inl (UnknownCategory (gd_category def) [''component'', ''capability'']))"

definition core_handlers ::
  "component_definition list \<times> capability_definition list \<Rightarrow> 'x handler list" where
  "core_handlers st =
     [CompH \<lparr> ch_definitions = fst st \<rparr>, CapH \<lparr> cah_definitions = snd st \<rparr>]"

lemma core_handler_ops:
  "ho_accepts_unclaimed (boxed_ops sf ext) (core_handlers st ! 0) cat = False"
  "ho_accepts_unclaimed (boxed_ops sf ext) (core_handlers st ! Suc 0) ''capability''"
  "ho_handle_category (boxed_ops sf ext) (core_handlers st ! 0) ''component'' n p =
     map_ok (\<lambda>d. CompH \<lparr> ch_definitions = fst st @ [d] \<rparr>) (parse_component sf n p)"
  "ho_handle_category (boxed_ops sf ext) (core_handlers st ! Suc 0) ''capability'' n p =
     map_ok (\<lambda>d. CapH \<lparr> cah_definitions = snd st @ [d] \<rparr>) (parse_capability n p)"
  by (cases "parse_component sf n p"; cases "parse_capability n p";
      simp add: core_handlers_def boxed_ops_def component_ops_def capability_ops_def
        default_handler_ops_def component_handle_category_def capability_handle_category_def
        capability_accepts_unclaimed_def)+

lemma core_lookup:
  "hm_get ''component'' (category_claims (boxed_ops sf ext) (core_handlers st)) =
     Some [\<lparr> rc_handler_idx = 0, rc_claim = claim_all ''component'' \<rparr>]"
  "hm_get ''capability'' (category_claims (boxed_ops sf ext) (core_handlers st)) =
     Some [\<lparr> rc_handler_idx = 1, rc_claim = claim_all ''capability'' \<rparr>]"
  "c \<noteq> ''component'' \<Longrightarrow> c \<noteq> ''capability'' \<Longrightarrow>
     hm_get c (category_claims (boxed_ops sf ext) (core_handlers st)) = None"
  "hm_keys (category_claims (boxed_ops sf ext) (core_handlers st)) = [''component'', ''capability'']"
  by (simp_all add: core_handlers_def core_claims)

lemma core_split:
  "split_properties p ''component'' 0 core_property_claims = (p, [])"
  "split_properties p ''capability'' (Suc 0) core_property_claims = (p, [])"
  by (rule split_none_routed, simp add: routed_to_def core_claims_owner)+

lemma core_update:
  "(core_handlers st)[0 := CompH \<lparr> ch_definitions = cs \<rparr>] = core_handlers (cs, snd st)"
  "(core_handlers st)[Suc 0 := CapH \<lparr> cah_definitions = ks \<rparr>] = core_handlers (fst st, ks)"
  by (simp_all add: core_handlers_def)

lemma dispatch_core_step:
  "dispatch_definition sf (boxed_ops sf ext)
     (category_claims (boxed_ops sf ext) (core_handlers st0)) core_property_claims (core_handlers st) def =
   map_ok core_handlers (core_step sf st def)"
proof -
  consider (comp) "gd_category def = ''component''" | (cap) "gd_category def = ''capability''"
    | (other) "gd_category def \<noteq> ''component''" "gd_category def \<noteq> ''capability''" by blast
  then show ?thesis
  proof cases
    case comp
    then show ?thesis
      by (cases "check_unclaimed core_property_claims def (gd_properties def)";
          cases "parse_component sf (gd_name def) (gd_properties def)")
        (simp_all add: dispatch_definition_def core_lookup resolve_owner_def
          claim_all_def core_step_def core_handler_ops core_split core_update)
  next
    case cap
    then show ?thesis
      by (cases "parse_capability (gd_name def) (gd_properties def)")
        (simp_all add: dispatch_definition_def core_lookup resolve_owner_def
          claim_all_def core_step_def core_handler_ops core_split core_update)
  next
    case other
    then show ?thesis
      by (simp add: dispatch_definition_def core_lookup core_step_def)
  qed
qed

text \<open>
  C5. Dispatch implements its specification: with the two core handlers alone, dispatching the
  loaded definitions is folding \<open>core_step\<close> over them in order, errors included, and the
  handlers end up holding exactly the definitions of that fold.
\<close>

theorem dispatch_core_refines:
  "dispatch sf (boxed_ops sf ext) definitions (core_handlers st) =
     map_ok core_handlers (fold_res (core_step sf) st definitions)"
proof -
  have "fold_res (dispatch_definition sf (boxed_ops sf ext)
          (category_claims (boxed_ops sf ext) (core_handlers st0)) core_property_claims)
          (core_handlers st) definitions =
        map_ok core_handlers (fold_res (core_step sf) st definitions)" for st0
  proof (induction definitions arbitrary: st)
    case (Cons d ds)
    then show ?case
      by (cases "core_step sf st d") (simp_all add: dispatch_core_step)
  qed simp
  moreover have "check_exclusive (category_claims (boxed_ops sf ext) (core_handlers st)) = Inr ()"
    "property_claims (boxed_ops sf ext) (core_handlers st) = Inr core_property_claims"
    by (simp_all add: core_handlers_def core_exclusive core_props)
  ultimately show ?thesis by (simp add: dispatch_def Let_def)
qed

subsection \<open>Lemmas: placeholders\<close>

text \<open>
  An environment placeholder resolves to the variable's value when it is set, and else to
  the default after the bar.
\<close>

theorem resolve_placeholder_env:
  assumes "CHR ''|'' \<notin> set key"
  shows "resolve_placeholder env (''${process:env:'' @ key @ ''|'' @ d @ ''}'') =
           Inr (Some (unwrap_or (env key) d))"
proof -
  let ?s = "''${process:env:'' @ key @ ''|'' @ d @ ''}''"
  have "starts_with ?s ''${''" "ends_with ?s ''}''"
    using ends_with_append [of "''${process:env:'' @ key @ ''|'' @ d" "''}''"] by simp_all
  moreover have "drop 2 (take (length ?s - 1) ?s) = ''process:env:'' @ key @ ''|'' @ d"
    by simp
  moreover have "split_once (key @ ''|'' @ d) ''|'' = Some (key, d)"
    using assms by simp
  moreover have "strip_prefix (''process:env:'' @ t) ''process:env:'' = Some t" for t
    by (simp only: strip_prefix_Some_iff)
  ultimately show ?thesis
    by (cases "env key") (simp_all add: resolve_placeholder_def Let_def del: append_Cons)
qed

text \<open>The strings of a value.\<close>

fun json_strings :: "json \<Rightarrow> string list" where
  "json_strings (JString s) = [s]"
| "json_strings (JArray xs) = concat (map json_strings xs)"
| "json_strings (JObject m) = concat (map (\<lambda>kv. json_strings (snd kv)) m)"
| "json_strings _ = []"

text \<open>
  Resolution changes nothing but placeholders: a value none of whose strings starts with
  the opening of a placeholder is returned as it is, whatever the environment.
\<close>

theorem resolve_placeholders_identity:
  assumes "list_all (\<lambda>s. \<not> starts_with s ''${'') (json_strings v)"
  shows "resolve_placeholders_in_value env v = Inr v"
  using assms
proof (induction env v rule: resolve_placeholders_in_value.induct)
  case (1 env s)
  then show ?case by (simp add: resolve_placeholder_def)
next
  case (2 env arr)
  then have "map (resolve_placeholders_in_value env) arr = map Inr arr"
    by (auto simp: list_all_iff)
  then have "collect_res (map (resolve_placeholders_in_value env) arr) = Inr arr"
    by (simp only: collect_res_Inr_iff)
  then show ?case by simp
next
  case (3 env m)
  then have "map (\<lambda>kv. map_ok (Pair (fst kv)) (resolve_placeholders_in_value env (snd kv))) m = map Inr m"
    by (auto simp: list_all_iff)
  then have "collect_res (map (\<lambda>kv. map_ok (Pair (fst kv))
      (resolve_placeholders_in_value env (snd kv))) m) = Inr m"
    by (simp only: collect_res_Inr_iff)
  then show ?case by simp
qed simp_all

lemma core_handlers_new:
  "[CompH component_handler_new, CapH capability_handler_new] = core_handlers ([], [])"
  by (simp add: core_handlers_def component_handler_new_def capability_handler_new_def)

lemma collect_core: "collect_generated (boxed_ops sf ext) (core_handlers st) = st"
  by (cases st)
    (simp add: collect_generated_def core_handlers_def boxed_ops_def component_ops_def
      capability_ops_def default_handler_ops_def component_generated_def capability_generated_def)

lemma process_core:
  "process_config sf env lops loaders ext [] paths =
     attempt (fold_res (route_path lops) loaders paths) (\<lambda>loaders.
     attempt (load_all lops loaders) (\<lambda>definitions.
     attempt (fold_res (core_step sf) ([], []) definitions) (finish_definitions env)))"
proof -
  have "attempt (map_ok core_handlers r)
      (\<lambda>hs. finish_definitions env (collect_generated (boxed_ops sf ext) hs)) =
      attempt r (finish_definitions env)" for r
    by (cases r) (simp_all add: collect_core)
  then show ?thesis
    by (simp add: process_config_def Let_def core_handlers_new dispatch_core_refines)
qed

lemma process_config_consistent_witness:
  "let cs = [\<lparr> comp_name = ''a'', comp_uri = ''a.wasm'', comp_scope = ''any'',
               comp_imports = [''kv''], comp_interceptors = [], comp_config = [],
               comp_labels = [] \<rparr>];
       ks = [\<lparr> cap_name = ''kv'', cap_kind = ''memory'', cap_scope = ''any'', cap_properties = [] \<rparr>]
   in distinct (map cap_name ks @ map comp_name cs) \<and>
      list_all (\<lambda>n. \<not> starts_with n ''_'' \<and> CHR ''$'' \<notin> set n) (map cap_name ks @ map comp_name cs) \<and>
      list_all (\<lambda>d. set (comp_imports d) \<subseteq> comp_name ` set cs \<union> cap_name ` set ks) cs \<and>
      list_all (\<lambda>d. comp_scope d \<in> {''any'', ''package'', ''namespace''}) cs \<and>
      list_all (\<lambda>d. cap_scope d = ''any'') ks"
  unfolding Let_def
  by (rule process_config_consistent [of "\<lambda>_. []" "\<lambda>_. None" fixed_loader
        "[[\<lparr> gd_category = ''component'', gd_name = ''a'',
             gd_properties = [(''uri'', JString ''a.wasm''), (''imports'', JArray [JString ''kv''])] \<rparr>,
           \<lparr> gd_category = ''capability'', gd_name = ''kv'',
             gd_properties = [(''type'', JString ''memory'')] \<rparr>]]"
        "default_handler_ops :: unit handler_ops" "[]" "[]"])
    (simp add: process_core load_all_def fixed_loader_def core_step_def check_unclaimed_def
      core_claims_owner component_keys_def parse_component_def parse_capability_def
      take_required_string_def take_optional_string_def take_string_array_def take_object_def
      take_string_map_def hm_remove_def default_scope_def Let_def finish_definitions_def
      resolve_placeholders_in_components_def resolve_placeholders_in_capabilities_def
      resolve_placeholders_in_map_def validate_scopes_def validate_capability_scope_def
      validate_component_scope_def validate_names_def insert_name_def validate_name_chars_def
      validate_imports_def validate_import_def starts_with_def has_char_def)

lemma resolve_placeholder_env_witness:
  "resolve_placeholder (\<lambda>_. None) ''${process:env:PORT|8080}'' = Inr (Some ''8080'')"
  using resolve_placeholder_env [of "''PORT''" "\<lambda>_. None" "''8080''"] by simp

lemma resolve_placeholders_identity_witness:
  "resolve_placeholders_in_value (\<lambda>_. None)
     (JObject [(''a'', JArray [JString ''x'', JNull]), (''b'', JString ''$y'')]) =
   Inr (JObject [(''a'', JArray [JString ''x'', JNull]), (''b'', JString ''$y'')])"
  by (rule resolve_placeholders_identity) (simp add: starts_with_def)

end
