(* ===== verification/Loaders.thy ===== *)
theory Loaders
  imports Config_Processor
begin

section \<open>Definition loaders (\<open>src/config/loaders.rs\<close>)\<close>

text \<open>
  The TOML loader and the \<open>.wasm\<close> and OCI loader: which paths they claim and the generic
  definitions they make. Reading and parsing a TOML file is the parameter \<open>read_toml\<close>; paths are
  UTF-8 strings, with the Unix rules of \<open>std::path\<close> for file names.
\<close>

unbundle bit_operations_syntax

subsection \<open>\<open>std::path\<close>\<close>

definition path_file_name :: "string \<Rightarrow> string option" where
  "path_file_name path =
     (let comps = filter (\<lambda>c. c \<noteq> [] \<and> c \<noteq> ''.'') (str_split path CHR ''/'')
      in if comps = [] \<or> last comps = ''..'' then None else Some (last comps))"

definition path_extension :: "string \<Rightarrow> string option" where
  "path_extension path =
     and_then (path_file_name path) (\<lambda>name.
       case rsplit_once name ''.'' of
         None \<Rightarrow> None
       | Some (before, after) \<Rightarrow> if before = [] then None else Some after)"

definition path_file_stem :: "string \<Rightarrow> string option" where
  "path_file_stem path =
     map_option (\<lambda>name.
       case rsplit_once name ''.'' of
         None \<Rightarrow> name
       | Some (before, after) \<Rightarrow> if before = [] then name else before) (path_file_name path)"

subsection \<open>TOML values\<close>

datatype toml =
    TString string
  | TInteger "64 word"
  | TFloat "64 word"
  | TBoolean bool
  | TArray "toml list"
  | TTable "(string \<times> toml) list"
  | TDatetime string

text \<open>\<open>Number::from_f64\<close> fails on an infinity and on a NaN, the doubles of maximal exponent.\<close>

definition f64_finite :: "64 word \<Rightarrow> bool" where
  "f64_finite f = (drop_bit 52 f AND 0x7FF \<noteq> 0x7FF)"

definition num_of_f64 :: "64 word \<Rightarrow> number option" where
  "num_of_f64 f = (if f64_finite f then Some (Float f) else None)"

text \<open>\<open>convert_toml_value_to_json\<close>: a table goes through a hash map into the sorted object.\<close>

fun convert_toml_value_to_json :: "toml \<Rightarrow> json" where
  "convert_toml_value_to_json (TString s) = JString s"
| "convert_toml_value_to_json (TInteger i) = JNumber (num_of_i64 i)"
| "convert_toml_value_to_json (TFloat f) =
     unwrap_or (map_option JNumber (num_of_f64 f)) JNull"
| "convert_toml_value_to_json (TBoolean b) = JBool b"
| "convert_toml_value_to_json (TArray arr) = JArray (map convert_toml_value_to_json arr)"
| "convert_toml_value_to_json (TTable table) =
     JObject (bt_extend [] (hm_extend []
       (map (\<lambda>kv. (fst kv, convert_toml_value_to_json (snd kv))) table)))"
| "convert_toml_value_to_json (TDatetime dt) = JString dt"

definition convert_toml_table_to_property_map :: "(string \<times> toml) list \<Rightarrow> property_map" where
  "convert_toml_table_to_property_map table =
     fold (\<lambda>(key, val) m. hm_insert key (convert_toml_value_to_json val) m) table []"

definition toml_definition ::
  "string \<Rightarrow> string \<times> toml \<Rightarrow> config_error + generic_definition" where
  "toml_definition category nv =
     (case snd nv of
        TTable def_table \<Rightarrow>
          Inr \<lparr> gd_category = category, gd_name = fst nv,
                gd_properties = convert_toml_table_to_property_map def_table \<rparr>
      | _ \<Rightarrow> Inl (LoadFailed (fst nv)))"

definition toml_category :: "string \<times> toml \<Rightarrow> config_error + generic_definition list" where
  "toml_category cv =
     (case snd cv of
        TTable category_table \<Rightarrow> collect_res (map (toml_definition (fst cv)) category_table)
      | _ \<Rightarrow> Inl (LoadFailed (fst cv)))"

definition load_toml_file ::
  "(string \<Rightarrow> config_error + toml) \<Rightarrow> string \<Rightarrow> config_error + generic_definition list" where
  "load_toml_file read_toml path =
     attempt (read_toml path) (\<lambda>doc.
       case doc of
         TTable table \<Rightarrow> map_ok concat (collect_res (map toml_category table))
       | _ \<Rightarrow> Inl (LoadFailed path))"

subsection \<open>The loaders\<close>

record toml_loader =
  tl_paths :: "string list"

record wasm_loader =
  wl_paths :: "string list"

definition toml_claim :: "toml_loader \<Rightarrow> string \<Rightarrow> bool \<times> toml_loader" where
  "toml_claim l path =
     (if path_extension path = Some ''toml'' then (True, l \<lparr> tl_paths := tl_paths l @ [path] \<rparr>)
      else (False, l))"

definition toml_load ::
  "(string \<Rightarrow> config_error + toml) \<Rightarrow> toml_loader \<Rightarrow> config_error + generic_definition list" where
  "toml_load read_toml l = map_ok concat (collect_res (map (load_toml_file read_toml) (tl_paths l)))"

definition wasm_claim :: "wasm_loader \<Rightarrow> string \<Rightarrow> bool \<times> wasm_loader" where
  "wasm_claim l path =
     (if starts_with path ''oci://'' \<or> path_extension path = Some ''wasm''
      then (True, l \<lparr> wl_paths := wl_paths l @ [path] \<rparr>)
      else (False, l))"

definition extract_component_name :: "string \<Rightarrow> config_error + string" where
  "extract_component_name path =
     (case strip_prefix path ''oci://'' of
        Some oci_ref \<Rightarrow>
          (case rsplit_once oci_ref '':'' of
             Some (pkg_part, version) \<Rightarrow>
               (case rsplit_once pkg_part ''/'' of
                  Some (prefix, name) \<Rightarrow> Inr name
                | None \<Rightarrow> Inr pkg_part)
           | None \<Rightarrow> Inl (LoadFailed path))
      | None \<Rightarrow> ok_or (LoadFailed path) (path_file_stem path))"

definition wasm_definition :: "string \<Rightarrow> config_error + generic_definition" where
  "wasm_definition path =
     attempt (extract_component_name path) (\<lambda>name.
       Inr \<lparr> gd_category = ''component'', gd_name = name,
             gd_properties = hm_insert ''uri'' (JString path) [] \<rparr>)"

definition wasm_load :: "wasm_loader \<Rightarrow> config_error + generic_definition list" where
  "wasm_load l = collect_res (map wasm_definition (wl_paths l))"

text \<open>A boxed loader: a default one, or one added by the embedder.\<close>

datatype 'l loader = TomlL toml_loader | WasmL wasm_loader | ExtL 'l

definition boxed_loader_ops ::
  "(string \<Rightarrow> config_error + toml) \<Rightarrow> 'l loader_ops \<Rightarrow> 'l loader loader_ops" where
  "boxed_loader_ops read_toml ext =
     \<lparr> lo_claim = (\<lambda>l path. case l of
          TomlL t \<Rightarrow> map_prod id TomlL (toml_claim t path)
        | WasmL w \<Rightarrow> map_prod id WasmL (wasm_claim w path)
        | ExtL x \<Rightarrow> map_prod id ExtL (lo_claim ext x path)),
       lo_load = (\<lambda>l. case l of
          TomlL t \<Rightarrow> toml_load read_toml t
        | WasmL w \<Rightarrow> wasm_load w
        | ExtL x \<Rightarrow> lo_load ext x) \<rparr>"

definition default_loaders :: "'l loader list" where
  "default_loaders = [TomlL \<lparr> tl_paths = [] \<rparr>, WasmL \<lparr> wl_paths = [] \<rparr>]"

subsection \<open>Lemmas\<close>

lemma load_toml_properties_wf:
  assumes "load_toml_file read_toml path = Inr defs" and "d \<in> set defs"
  shows "hm_wf (gd_properties d)"
proof -
  have wf: "hm_wf (convert_toml_table_to_property_map t)" for t
  proof -
    have "hm_wf m \<Longrightarrow> hm_wf (fold (\<lambda>(key, val) m. hm_insert key (convert_toml_value_to_json val) m) t m)" for m
      by (induction t arbitrary: m) (auto simp: hm_wf_insert)
    then show ?thesis by (simp add: convert_toml_table_to_property_map_def)
  qed
  from assms obtain table dss where
    d: "collect_res (map toml_category table) = Inr dss" "defs = concat dss"
  proof -
    from assms(1) obtain doc where doc: "(case doc of TTable table \<Rightarrow>
        map_ok concat (collect_res (map toml_category table)) | _ \<Rightarrow> Inl (LoadFailed path)) = Inr defs"
      by (auto simp: load_toml_file_def attempt_Inr_iff)
    then show ?thesis by (cases doc) (auto simp: map_ok_Inr_iff intro: that)
  qed
  with assms(2) obtain ds where ds: "ds \<in> set dss" "d \<in> set ds" by auto
  then obtain cv where "toml_category cv = Inr ds"
    using collect_res_mem [OF d(1) ds(1)] by blast
  then obtain ct where ct: "collect_res (map (toml_definition (fst cv)) ct) = Inr ds"
    by (auto simp: toml_category_def split: toml.splits)
  then obtain nv where "toml_definition (fst cv) nv = Inr d"
    using collect_res_mem [OF ct ds(2)] by blast
  then show ?thesis using wf by (auto simp: toml_definition_def split: toml.splits)
qed

text \<open>
  Converting TOML to JSON always yields a well-formed value: every table becomes an object
  whose members are in strictly ascending key order, at every depth.
\<close>

theorem convert_toml_wf: "json_wf (convert_toml_value_to_json t)"
proof (induction t)
  case (TFloat f)
  then show ?case by (simp add: num_of_f64_def)
next
  case (TArray xs)
  then show ?case by (simp add: list_all_iff)
next
  case (TTable table)
  let ?kvs = "hm_extend [] (map (\<lambda>kv. (fst kv, convert_toml_value_to_json (snd kv))) table)"
  have vals: "\<forall>kv \<in> set ?kvs. json_wf (snd kv)"
  proof
    fix kv assume "kv \<in> set ?kvs"
    moreover have "hm_wf ?kvs" by (rule hm_wf_extend) simp
    ultimately have "map_of ?kvs (fst kv) = Some (snd kv)" by simp
    then have "map_of (rev (map (\<lambda>kv. (fst kv, convert_toml_value_to_json (snd kv))) table)) (fst kv)
        = Some (snd kv)"
      by (simp add: hm_get_extend)
    then show "json_wf (snd kv)" using TTable by (auto dest!: map_of_SomeD)
  qed
  have "json_wf (JObject m) \<Longrightarrow> \<forall>kv \<in> set kvs. json_wf (snd kv) \<Longrightarrow> json_wf (JObject (bt_extend m kvs))"
    for m kvs
  proof (induction kvs arbitrary: m)
    case (Cons kv kvs)
    obtain k v where "kv = (k, v)" by force
    with Cons json_wf_bt_insert [of m v k] show ?case by (simp add: bt_extend_def del: json_wf.simps)
  qed (simp add: bt_extend_def)
  from this [of "[]", OF _ vals] show ?case by simp
qed simp_all

text \<open>
  A component loaded from an OCI reference gets the last path segment before the version
  as its name, and the whole reference as its uri; registries with a port are no exception.
\<close>

theorem oci_component_name:
  assumes "CHR ''/'' \<notin> set name" and "CHR '':'' \<notin> set version"
  shows "wasm_definition (''oci://'' @ registry @ ''/'' @ name @ '':'' @ version) =
     Inr \<lparr> gd_category = ''component'', gd_name = name,
           gd_properties = [(''uri'', JString (''oci://'' @ registry @ ''/'' @ name @ '':'' @ version))] \<rparr>"
proof -
  have "strip_prefix (''oci://'' @ t) ''oci://'' = Some t" for t
    by (simp only: strip_prefix_Some_iff)
  moreover have "rsplit_once (registry @ ''/'' @ name @ '':'' @ version) '':'' =
      Some (registry @ ''/'' @ name, version)"
    using rsplit_once_char [OF assms(2), of "registry @ ''/'' @ name"] by simp
  moreover have "rsplit_once (registry @ ''/'' @ name) ''/'' = Some (registry, name)"
    using rsplit_once_char [OF assms(1), of registry] by simp
  ultimately show ?thesis
    by (simp add: wasm_definition_def extract_component_name_def hm_insert_def del: append_Cons)
qed

lemma oci_component_name_witness:
  "wasm_definition ''oci://localhost:5000/acme/logger:1.0'' =
     Inr \<lparr> gd_category = ''component'', gd_name = ''logger'',
           gd_properties = [(''uri'', JString ''oci://localhost:5000/acme/logger:1.0'')] \<rparr>"
  using oci_component_name [of "''logger''" "''1.0''" "''localhost:5000/acme''"] by simp

end
