(* ===== verification/Graph.thy ===== *)
theory Graph
  imports Loaders
begin

section \<open>The component graph (\<open>src/composition/graph.rs\<close>)\<close>

text \<open>
  Component and capability nodes, interceptor chains with name takeover, dependency edges, and
  the cycle check. petgraph's \<open>DiGraph\<close> is the list of its nodes (a \<open>NodeIndex\<close> is a position)
  and the list of its edges, with \<open>update_edge\<close> replacing the weight of an existing edge;
  \<open>toposort\<close> is the parameter \<open>topo\<close>. The \<open>unwrap\<close> of a missing node is an error value.
\<close>

datatype node = NComponent component_definition | NCapability capability_definition

datatype edge = Dependency | Interceptor "32 word"

record component_graph =
  cg_nodes :: "node list"
  cg_edges :: "(nat \<times> nat \<times> edge) list"
  cg_node_map :: "nat hmap"

datatype graph_error =
    UnwrapMissingNode string
  | UndefinedInterceptor string string
  | CircularDependency string
  | ConfigFailed config_error

fun node_name :: "node \<Rightarrow> string" where
  "node_name (NComponent d) = comp_name d"
| "node_name (NCapability d) = cap_name d"

definition empty_graph :: component_graph where
  "empty_graph = \<lparr> cg_nodes = [], cg_edges = [], cg_node_map = [] \<rparr>"

text \<open>\<open>add_node\<close> followed by \<open>node_map.insert\<close>.\<close>

definition add_named_node :: "string \<Rightarrow> node \<Rightarrow> component_graph \<Rightarrow> component_graph" where
  "add_named_node name n g =
     g \<lparr> cg_nodes := cg_nodes g @ [n],
         cg_node_map := hm_insert name (length (cg_nodes g)) (cg_node_map g) \<rparr>"

fun update_edge_list ::
  "nat \<Rightarrow> nat \<Rightarrow> edge \<Rightarrow> (nat \<times> nat \<times> edge) list \<Rightarrow> (nat \<times> nat \<times> edge) list" where
  "update_edge_list a b w [] = [(a, b, w)]"
| "update_edge_list a b w ((a', b', w') # es) =
     (if a' = a \<and> b' = b then (a, b, w) # es else (a', b', w') # update_edge_list a b w es)"

definition update_edge :: "nat \<Rightarrow> nat \<Rightarrow> edge \<Rightarrow> component_graph \<Rightarrow> component_graph" where
  "update_edge a b w g = g \<lparr> cg_edges := update_edge_list a b w (cg_edges g) \<rparr>"

subsection \<open>Building\<close>

definition is_template_only :: "component_definition list \<Rightarrow> component_definition \<Rightarrow> bool" where
  "is_template_only comps d \<longleftrightarrow>
     comp_name d \<in> set (concat (map comp_interceptors comps)) \<and>
     comp_name d \<notin> set (concat (map comp_imports comps))"

definition add_capabilities :: "capability_definition list \<Rightarrow> component_graph \<Rightarrow> component_graph" where
  "add_capabilities caps g = fold (\<lambda>d. add_named_node (cap_name d) (NCapability d)) caps g"

definition add_components ::
  "component_definition list \<Rightarrow> component_definition list \<Rightarrow> component_graph \<Rightarrow> component_graph" where
  "add_components comps ds g =
     fold (\<lambda>d g. if is_template_only comps d then g
                 else add_named_node (comp_name d) (NComponent d) g) ds g"

definition internal_name :: "string \<Rightarrow> nat \<Rightarrow> string" where
  "internal_name name k = ''_'' @ name @ ''$'' @ show_nat k"

definition rename_node :: "string \<Rightarrow> node \<Rightarrow> node" where
  "rename_node name n =
     (case n of NComponent d \<Rightarrow> NComponent (d \<lparr> comp_name := name \<rparr>) | NCapability d \<Rightarrow> n)"

text \<open>One interceptor of a chain: state is the graph, the current index and the clones so far.\<close>

definition chain_step ::
  "component_definition list \<Rightarrow> component_definition \<Rightarrow> component_graph \<times> nat \<times> nat list \<Rightarrow>
   nat \<times> string \<Rightarrow> graph_error + component_graph \<times> nat \<times> nat list" where
  "chain_step comps d st pi =
     (case st of (g, current, clones) \<Rightarrow> case pi of (pos, interceptor_name) \<Rightarrow>
        attempt (ok_or (UndefinedInterceptor (comp_name d) interceptor_name)
                   (find_first (\<lambda>c. comp_name c = interceptor_name) comps)) (\<lambda>interceptor_def.
          let is_outermost = (pos = length (comp_interceptors d) - 1);
              synthetic_name = (if is_outermost then comp_name d
                                else internal_name (comp_name d) (pos + 1));
              cloned_index = length (cg_nodes g);
              g = add_named_node synthetic_name
                    (NComponent (interceptor_def \<lparr> comp_name := synthetic_name \<rparr>)) g;
              g = update_edge current cloned_index (Interceptor (of_nat pos)) g
          in Inr (g, cloned_index, hs_insert cloned_index clones)))"

definition build_chain ::
  "component_definition list \<Rightarrow> component_graph \<times> nat list \<Rightarrow> component_definition \<Rightarrow>
   graph_error + component_graph \<times> nat list" where
  "build_chain comps st d =
     (case st of (g, clones) \<Rightarrow>
        if comp_interceptors d = [] then Inr st
        else
          attempt (ok_or (UnwrapMissingNode (comp_name d)) (hm_get (comp_name d) (cg_node_map g)))
            (\<lambda>component_index.
             let inner = internal_name (comp_name d) 0;
                 g = g \<lparr> cg_nodes := (cg_nodes g)[component_index :=
                           rename_node inner (cg_nodes g ! component_index)],
                         cg_node_map := hm_insert inner component_index
                           (hm_remove (comp_name d) (cg_node_map g)) \<rparr>
             in attempt
                  (fold_res (chain_step comps d) (g, component_index, clones)
                     (List.enumerate 0 (rev (comp_interceptors d))))
                  (\<lambda>(g, current, clones). Inr (g, clones))))"

definition add_import_edges ::
  "nat \<Rightarrow> string list \<Rightarrow> component_graph \<Rightarrow> component_graph" where
  "add_import_edges importer imps g =
     fold (\<lambda>exporter g.
       case hm_get exporter (cg_node_map g) of
         Some exporter_index \<Rightarrow> update_edge exporter_index importer Dependency g
       | None \<Rightarrow> g) imps g"

definition add_dependencies :: "component_definition list \<Rightarrow> component_graph \<Rightarrow> component_graph" where
  "add_dependencies comps g =
     fold (\<lambda>d g.
       let lookup_name = (if comp_interceptors d = [] then comp_name d
                          else internal_name (comp_name d) 0)
       in case hm_get lookup_name (cg_node_map g) of
            None \<Rightarrow> g
          | Some importer_index \<Rightarrow> add_import_edges importer_index (comp_imports d) g) comps g"

definition add_clone_dependencies :: "nat list \<Rightarrow> component_graph \<Rightarrow> component_graph" where
  "add_clone_dependencies clones g =
     fold (\<lambda>clone_index g.
       case cg_nodes g ! clone_index of
         NComponent d \<Rightarrow> add_import_edges clone_index (comp_imports d) g
       | NCapability d \<Rightarrow> g) clones g"

text \<open>The graph before the cycle check.\<close>

definition assemble_graph ::
  "component_definition list \<Rightarrow> capability_definition list \<Rightarrow> graph_error + component_graph" where
  "assemble_graph comps caps =
     attempt (fold_res (build_chain comps)
        (add_components comps comps (add_capabilities caps empty_graph), []) comps)
       (\<lambda>(g, clones). Inr (add_clone_dependencies clones (add_dependencies comps g)))"

definition graph_build ::
  "(node list \<Rightarrow> (nat \<times> nat \<times> edge) list \<Rightarrow> nat + nat list) \<Rightarrow>
   component_definition list \<Rightarrow> capability_definition list \<Rightarrow> graph_error + component_graph" where
  "graph_build topo comps caps =
     attempt (assemble_graph comps caps) (\<lambda>g.
       case topo (cg_nodes g) (cg_edges g) of
         Inl cycle_node \<Rightarrow> Inl (CircularDependency (node_name (cg_nodes g ! cycle_node)))
       | Inr _ \<Rightarrow> Inr g)"

subsection \<open>Reading the graph\<close>

definition get_build_order ::
  "(node list \<Rightarrow> (nat \<times> nat \<times> edge) list \<Rightarrow> nat + nat list) \<Rightarrow> component_graph \<Rightarrow> nat list option" where
  "get_build_order topo g =
     (case topo (cg_nodes g) (cg_edges g) of Inl _ \<Rightarrow> None | Inr order \<Rightarrow> Some order)"

definition get_node_index :: "string \<Rightarrow> component_graph \<Rightarrow> nat option" where
  "get_node_index name g = hm_get name (cg_node_map g)"

definition get_dependencies :: "component_graph \<Rightarrow> nat \<Rightarrow> (nat \<times> edge) list" where
  "get_dependencies g index = [(a, w). (a, b, w) \<leftarrow> rev (cg_edges g), b = index]"

definition dot_node :: "nat \<times> node \<Rightarrow> string" where
  "dot_node x =
     (case x of (i, n) \<Rightarrow>
        ''  '' @ show_nat i @ '' '' @
        (case n of
           NComponent d \<Rightarrow>
             ''[label=\"'' @ comp_name d @ ''\", shape=box, fillcolor='' @
             (if starts_with (comp_name d) ''_'' then ''yellow'' else ''lightblue'') @
             '', style=\"rounded,filled\"]''
         | NCapability d \<Rightarrow>
             ''[label=\"'' @ cap_name d @
             ''\", shape=ellipse, fillcolor=orange, style=\"rounded,filled\"]'') @ '';\<newline>'')"

definition dot_edge :: "nat \<times> nat \<times> edge \<Rightarrow> string" where
  "dot_edge e =
     (case e of (a, b, w) \<Rightarrow>
        ''  '' @ show_nat a @ '' -> '' @ show_nat b @ '' '' @
        (case w of
           Dependency \<Rightarrow> ''[color=blue, style=solid]''
         | Interceptor pos \<Rightarrow>
             ''[color=red, style=dashed, label=\"interceptor: '' @ show_int (sint pos) @ ''\"]'') @
        '';\<newline>'')"

definition graph_dot :: "component_graph \<Rightarrow> string" where
  "graph_dot g =
     ''digraph ComponentGraph {\<newline>'' @ ''  rankdir=BT;\<newline>'' @
     ''  node [fontname=\"Arial\", fontsize=10];\<newline>'' @
     ''  edge [fontname=\"Arial\", fontsize=9];\<newline>'' @
     concat (map dot_node (List.enumerate 0 (cg_nodes g))) @
     concat (map dot_edge (cg_edges g)) @ ''}\<newline>''"

subsection \<open>The builder\<close>

record ('l, 'x) graph_builder =
  gb_paths :: "string list"
  gb_loaders :: "'l list"
  gb_handlers :: "'x list"
  gb_use_default_loaders :: bool

definition graph_builder_new :: "('l, 'x) graph_builder" where
  "graph_builder_new =
     \<lparr> gb_paths = [], gb_loaders = [], gb_handlers = [], gb_use_default_loaders = True \<rparr>"

definition builder_from_path :: "string \<Rightarrow> ('l, 'x) graph_builder \<Rightarrow> ('l, 'x) graph_builder" where
  "builder_from_path path b = b \<lparr> gb_paths := gb_paths b @ [path] \<rparr>"

definition builder_from_paths :: "string list \<Rightarrow> ('l, 'x) graph_builder \<Rightarrow> ('l, 'x) graph_builder" where
  "builder_from_paths paths b = b \<lparr> gb_paths := gb_paths b @ paths \<rparr>"

definition builder_add_loader :: "'l \<Rightarrow> ('l, 'x) graph_builder \<Rightarrow> ('l, 'x) graph_builder" where
  "builder_add_loader l b = b \<lparr> gb_loaders := gb_loaders b @ [l] \<rparr>"

definition builder_add_handler :: "'x \<Rightarrow> ('l, 'x) graph_builder \<Rightarrow> ('l, 'x) graph_builder" where
  "builder_add_handler h b = b \<lparr> gb_handlers := gb_handlers b @ [h] \<rparr>"

definition builder_no_default_loaders :: "('l, 'x) graph_builder \<Rightarrow> ('l, 'x) graph_builder" where
  "builder_no_default_loaders b = b \<lparr> gb_use_default_loaders := False \<rparr>"

definition builder_build ::
  "(64 word \<Rightarrow> string) \<Rightarrow> (string \<Rightarrow> string option) \<Rightarrow> (string \<Rightarrow> config_error + toml) \<Rightarrow>
   (node list \<Rightarrow> (nat \<times> nat \<times> edge) list \<Rightarrow> nat + nat list) \<Rightarrow> 'l loader_ops \<Rightarrow> 'x handler_ops \<Rightarrow>
   ('l, 'x) graph_builder \<Rightarrow> graph_error + component_graph" where
  "builder_build sf env read_toml topo lext hext b =
     (let loaders = (if gb_use_default_loaders b then default_loaders else []) @ map ExtL (gb_loaders b) in
      attempt (map_err ConfigFailed
        (process_config sf env (boxed_loader_ops read_toml lext) loaders hext (gb_handlers b) (gb_paths b)))
        (\<lambda>(comps, caps). graph_build topo comps caps))"

subsection \<open>Lemmas: edges and names\<close>

lemma update_edge_list_mem: "(a, b, w) \<in> set (update_edge_list a b w es)"
  by (induction a b w es rule: update_edge_list.induct) auto

lemma update_edge_list_keeps:
  "(a', b', w') \<in> set es \<Longrightarrow> (a', b') \<noteq> (a, b) \<Longrightarrow> (a', b', w') \<in> set (update_edge_list a b w es)"
  by (induction a b w es rule: update_edge_list.induct) auto

lemma update_edge_list_subset:
  "set (update_edge_list a b w es) \<subseteq> insert (a, b, w) (set es)"
  by (induction a b w es rule: update_edge_list.induct) auto

lemma show_nat_inject: "show_nat m = show_nat n \<longleftrightarrow> m = n"
  by (metis option.inject parse_nat_show)

lemma internal_name_inject:
  assumes "CHR ''$'' \<notin> set m" and "CHR ''$'' \<notin> set n"
  shows "internal_name m j = internal_name n k \<longleftrightarrow> m = n \<and> j = k"
proof -
  have d: "CHR ''$'' \<notin> set (show_nat j)" for j
    using show_nat_digits [of "CHR ''$''" j] by (auto simp: is_digit_def digit_val_def)
  have "rsplit_once (internal_name m j) ''$'' = Some (CHR ''_'' # m, show_nat j)" for m j
    using rsplit_once_char [OF d, of "CHR ''_'' # m" j] by (simp add: internal_name_def)
  then show ?thesis by (metis list.inject option.inject prod.inject show_nat_inject)
qed

lemma internal_name_start: "starts_with (internal_name n k) ''_''"
  by (simp add: internal_name_def)

lemma internal_name_neq: "\<not> starts_with m ''_'' \<Longrightarrow> m \<noteq> internal_name n k"
  using internal_name_start by metis

lemma internal_name_neq_self: "internal_name n k \<noteq> n"
proof
  assume "internal_name n k = n"
  then have "length (internal_name n k) = length n" by simp
  then show False by (simp add: internal_name_def)
qed

text \<open>Every entry of the node map points at the node of that name, capability nodes are those
  given, and edges and clones are in range.\<close>

definition graph_inv :: "capability_definition list \<Rightarrow> component_graph \<Rightarrow> bool" where
  "graph_inv caps g \<longleftrightarrow>
     (\<forall>k i. hm_get k (cg_node_map g) = Some i \<longrightarrow>
        i < length (cg_nodes g) \<and> node_name (cg_nodes g ! i) = k) \<and>
     (\<forall>c. NCapability c \<in> set (cg_nodes g) \<longrightarrow> c \<in> set caps) \<and>
     (\<forall>a b w. (a, b, w) \<in> set (cg_edges g) \<longrightarrow> a < length (cg_nodes g) \<and> b < length (cg_nodes g))"

lemma graph_invD:
  assumes "graph_inv caps g"
  shows "hm_get k (cg_node_map g) = Some i \<Longrightarrow> i < length (cg_nodes g) \<and> node_name (cg_nodes g ! i) = k"
    and "NCapability c \<in> set (cg_nodes g) \<Longrightarrow> c \<in> set caps"
    and "(a, b, w) \<in> set (cg_edges g) \<Longrightarrow> a < length (cg_nodes g) \<and> b < length (cg_nodes g)"
  using assms unfolding graph_inv_def by blast+

lemma graph_inv_add:
  assumes "graph_inv caps g" and "node_name n = name" and "\<And>c. n = NCapability c \<Longrightarrow> c \<in> set caps"
  shows "graph_inv caps (add_named_node name n g)"
  unfolding graph_inv_def
proof (intro conjI allI impI)
  let ?g = "add_named_node name n g"
  fix k i assume "hm_get k (cg_node_map ?g) = Some i"
  then show "i < length (cg_nodes ?g)" "node_name (cg_nodes ?g ! i) = k"
    using graph_invD(1) [OF assms(1), of k i] assms(2)
    by (auto simp: add_named_node_def nth_append split: if_splits)
next
  fix c assume "NCapability c \<in> set (cg_nodes (add_named_node name n g))"
  then show "c \<in> set caps"
    using graph_invD(2) [OF assms(1)] assms(3) by (auto simp: add_named_node_def)
next
  fix a b w assume "(a, b, w) \<in> set (cg_edges (add_named_node name n g))"
  then show "a < length (cg_nodes (add_named_node name n g))"
    "b < length (cg_nodes (add_named_node name n g))"
    using graph_invD(3) [OF assms(1)] by (auto simp: add_named_node_def less_Suc_eq)
qed

lemma graph_inv_edge:
  assumes "graph_inv caps g" and "a < length (cg_nodes g)" and "b < length (cg_nodes g)"
  shows "graph_inv caps (update_edge a b w g)"
  unfolding graph_inv_def
proof (intro conjI allI impI)
  fix k i assume "hm_get k (cg_node_map (update_edge a b w g)) = Some i"
  then show "i < length (cg_nodes (update_edge a b w g))"
    "node_name (cg_nodes (update_edge a b w g) ! i) = k"
    using graph_invD(1) [OF assms(1)] by (auto simp: update_edge_def)
next
  fix c assume "NCapability c \<in> set (cg_nodes (update_edge a b w g))"
  then show "c \<in> set caps" using graph_invD(2) [OF assms(1)] by (auto simp: update_edge_def)
next
  fix a' b' w' assume "(a', b', w') \<in> set (cg_edges (update_edge a b w g))"
  then have "(a', b', w') = (a, b, w) \<or> (a', b', w') \<in> set (cg_edges g)"
    using update_edge_list_subset [of a b w "cg_edges g"] by (auto simp: update_edge_def)
  then show "a' < length (cg_nodes (update_edge a b w g))"
    "b' < length (cg_nodes (update_edge a b w g))"
    using graph_invD(3) [OF assms(1)] assms(2,3) by (auto simp: update_edge_def)
qed

lemma graph_inv_start:
  "graph_inv caps (add_components comps ds (add_capabilities caps empty_graph))"
proof -
  have "graph_inv caps g \<Longrightarrow> set cs \<subseteq> set caps \<Longrightarrow> graph_inv caps (add_capabilities cs g)" for cs g
  proof (induction cs arbitrary: g)
    case (Cons c cs)
    then have "graph_inv caps (add_named_node (cap_name c) (NCapability c) g)"
      by (intro graph_inv_add) auto
    with Cons show ?case by (simp add: add_capabilities_def)
  qed (simp add: add_capabilities_def)
  moreover have "graph_inv caps empty_graph" by (simp add: graph_inv_def empty_graph_def)
  moreover have "graph_inv caps g \<Longrightarrow> graph_inv caps (add_components comps ds g)" for g
  proof (induction ds arbitrary: g)
    case (Cons d ds)
    then have "graph_inv caps (add_named_node (comp_name d) (NComponent d) g)"
      by (intro graph_inv_add) auto
    with Cons show ?case by (simp add: add_components_def)
  qed (simp add: add_components_def)
  ultimately show ?thesis by blast
qed

subsection \<open>Lemmas: one interceptor chain\<close>

definition synthetic_name :: "component_definition \<Rightarrow> nat \<Rightarrow> string" where
  "synthetic_name d k =
     (if k = length (comp_interceptors d) - 1 then comp_name d else internal_name (comp_name d) (k + 1))"

definition clone_node :: "component_definition list \<Rightarrow> component_definition \<Rightarrow> nat \<times> string \<Rightarrow> node" where
  "clone_node comps d kx =
     NComponent ((the (find_first (\<lambda>c. comp_name c = snd kx) comps))
       \<lparr> comp_name := synthetic_name d (fst kx) \<rparr>)"

lemma chain_step_Inr:
  "chain_step comps d (g, cur, cl) (k, x) = Inr (g', cur', cl') \<longleftrightarrow>
     find_first (\<lambda>c. comp_name c = x) comps \<noteq> None \<and>
     g' = update_edge cur (length (cg_nodes g)) (Interceptor (of_nat k))
            (add_named_node (synthetic_name d k) (clone_node comps d (k, x)) g) \<and>
     cur' = length (cg_nodes g) \<and> cl' = hs_insert (length (cg_nodes g)) cl"
  by (auto simp: chain_step_def attempt_Inr_iff ok_or_Inr_iff Let_def synthetic_name_def clone_node_def)

lemma chain_fold:
  assumes "fold_res (chain_step comps d) (g, cur, cl) (List.enumerate m xs) = Inr (g', cur', cl')"
  shows "cg_nodes g' = cg_nodes g @ map (clone_node comps d) (List.enumerate m xs)
    \<and> cg_node_map g' = fold (\<lambda>(k, i). hm_insert k i)
        (zip (map (synthetic_name d) [m..<m + length xs])
             [length (cg_nodes g)..<length (cg_nodes g) + length xs]) (cg_node_map g)
    \<and> cur' = (if xs = [] then cur else length (cg_nodes g) + length xs - 1)
    \<and> (\<forall>a b w. (a, b, w) \<in> set (cg_edges g) \<longrightarrow> b < length (cg_nodes g) \<longrightarrow> (a, b, w) \<in> set (cg_edges g'))
    \<and> (\<forall>j < length xs. ((if j = 0 then cur else length (cg_nodes g) + j - 1),
          length (cg_nodes g) + j, Interceptor (of_nat (m + j))) \<in> set (cg_edges g'))
    \<and> set cl' = set cl \<union> {length (cg_nodes g)..<length (cg_nodes g) + length xs}
    \<and> (\<forall>x \<in> set xs. find_first (\<lambda>c. comp_name c = x) comps \<noteq> None)
    \<and> (\<forall>a b w. (a, b, w) \<in> set (cg_edges g') \<longrightarrow> (a, b, w) \<in> set (cg_edges g) \<or>
          (a = cur \<or> a < length (cg_nodes g) + length xs) \<and> b < length (cg_nodes g) + length xs)"
  using assms
proof (induction xs arbitrary: m g cur cl)
  case (Cons x xs)
  let ?n = "length (cg_nodes g)"
  let ?g1 = "update_edge cur ?n (Interceptor (of_nat m))
     (add_named_node (synthetic_name d m) (clone_node comps d (m, x)) g)"
  from Cons.prems have f: "find_first (\<lambda>c. comp_name c = x) comps \<noteq> None"
    and r: "fold_res (chain_step comps d) (?g1, ?n, hs_insert ?n cl) (List.enumerate (Suc m) xs) =
      Inr (g', cur', cl')"
    by (auto simp: attempt_Inr_iff chain_step_Inr)
  have n1: "cg_nodes ?g1 = cg_nodes g @ [clone_node comps d (m, x)]"
    "cg_node_map ?g1 = hm_insert (synthetic_name d m) ?n (cg_node_map g)"
    "cg_edges ?g1 = update_edge_list cur ?n (Interceptor (of_nat m)) (cg_edges g)"
    by (simp_all add: update_edge_def add_named_node_def)
  note IH = Cons.IH [OF r, unfolded n1]
  have e0: "(cur, ?n, Interceptor (of_nat m)) \<in> set (cg_edges g')"
    using IH update_edge_list_mem by auto
  have ej: "((if j = 0 then cur else ?n + j - 1), ?n + j, Interceptor (of_nat (m + j))) \<in> set (cg_edges g')"
    if "j < length (x # xs)" for j
  proof (cases j)
    case 0
    then show ?thesis using e0 by simp
  next
    case (Suc i)
    with that IH have "((if i = 0 then ?n else Suc ?n + i - 1), Suc ?n + i, Interceptor (of_nat (Suc m + i)))
        \<in> set (cg_edges g')" by auto
    with Suc show ?thesis by (cases i) simp_all
  qed
  have keep: "(a, b, w) \<in> set (cg_edges g')" if "(a, b, w) \<in> set (cg_edges g)" "b < ?n" for a b w
    using IH that update_edge_list_keeps [of a b w "cg_edges g" cur ?n] by fastforce
  have mp: "cg_node_map g' = fold (\<lambda>(k, i). hm_insert k i)
        (zip (map (synthetic_name d) [m..<m + length (x # xs)]) [?n..<?n + length (x # xs)]) (cg_node_map g)"
    using IH by (simp add: upt_conv_Cons del: upt_Suc)
  have cl: "set cl' = set cl \<union> {?n..<?n + length (x # xs)}"
  proof -
    have "{?n..<?n + length (x # xs)} = insert ?n {Suc ?n..<Suc ?n + length xs}" by auto
    moreover have "set (hs_insert ?n cl) = insert ?n (set cl)" by (auto simp: hs_insert_def)
    ultimately show ?thesis using IH by simp
  qed
  have new: "(a, b, w) \<in> set (cg_edges g) \<or> (a = cur \<or> a < ?n + length (x # xs)) \<and> b < ?n + length (x # xs)"
    if e: "(a, b, w) \<in> set (cg_edges g')" for a b w
  proof -
    have "(a, b, w) \<in> set (update_edge_list cur ?n (Interceptor (of_nat m)) (cg_edges g)) \<or>
        (a = ?n \<or> a < Suc ?n + length xs) \<and> b < Suc ?n + length xs"
      using IH e by auto
    then show ?thesis
      using update_edge_list_subset [of cur ?n "Interceptor (of_nat m)" "cg_edges g"] by auto
  qed
  show ?case using IH f ej keep mp cl new by (simp del: upt_Suc)
qed auto

abbreviation chain_length :: "component_definition \<Rightarrow> nat" where
  "chain_length d \<equiv> length (comp_interceptors d)"

abbreviation inner_name :: "component_definition \<Rightarrow> string" where
  "inner_name d \<equiv> internal_name (comp_name d) 0"

definition chain_names :: "component_definition \<Rightarrow> nat \<Rightarrow> nat hmap" where
  "chain_names d base =
     zip (map (synthetic_name d) [0..<chain_length d]) [base..<base + chain_length d]"

lemma internal_name_inj: "internal_name n j = internal_name n k \<longleftrightarrow> j = k"
  by (simp add: internal_name_def show_nat_inject)

lemma synthetic_inj:
  "i < chain_length d \<Longrightarrow> j < chain_length d \<Longrightarrow> synthetic_name d i = synthetic_name d j \<Longrightarrow> i = j"
  by (auto simp: synthetic_name_def internal_name_inj internal_name_neq_self
      internal_name_neq_self [symmetric] split: if_splits)

lemma chain_names_distinct: "distinct (map fst (chain_names d base))"
  by (auto simp: chain_names_def distinct_map inj_on_def dest: synthetic_inj)

lemma chain_names_nth: "j < chain_length d \<Longrightarrow> map_of (chain_names d base) (synthetic_name d j) = Some (base + j)"
  using map_of_zip_nth [of "map (synthetic_name d) [0..<chain_length d]"
      "[base..<base + chain_length d]" j] chain_names_distinct [of d base]
  by (simp add: chain_names_def)

lemma chain_names_Some:
  "map_of (chain_names d base) k = Some x \<Longrightarrow> \<exists>j < chain_length d. k = synthetic_name d j \<and> x = base + j"
  by (auto simp: chain_names_def in_set_zip dest!: map_of_SomeD)

lemma chain_names_None: "(\<And>j. j < chain_length d \<Longrightarrow> k \<noteq> synthetic_name d j) \<Longrightarrow> map_of (chain_names d base) k = None"
  using chain_names_Some [of d base k] by (cases "map_of (chain_names d base) k") auto

lemma build_chain_shape:
  assumes "build_chain comps (g, cl) d = Inr (g', cl')" and "comp_interceptors d \<noteq> []"
  obtains i where "hm_get (comp_name d) (cg_node_map g) = Some i"
    and "cg_nodes g' = (cg_nodes g)[i := rename_node (inner_name d) (cg_nodes g ! i)] @
           map (clone_node comps d) (List.enumerate 0 (rev (comp_interceptors d)))"
    and "map_of (cg_node_map g') = ((map_of (cg_node_map g))(comp_name d := None, inner_name d \<mapsto> i))
           ++ map_of (chain_names d (length (cg_nodes g)))"
    and "\<And>a b w. (a, b, w) \<in> set (cg_edges g) \<Longrightarrow> b < length (cg_nodes g) \<Longrightarrow> (a, b, w) \<in> set (cg_edges g')"
    and "\<And>j. j < chain_length d \<Longrightarrow> ((if j = 0 then i else length (cg_nodes g) + j - 1),
           length (cg_nodes g) + j, Interceptor (of_nat j)) \<in> set (cg_edges g')"
    and "set cl' = set cl \<union> {length (cg_nodes g)..<length (cg_nodes g) + chain_length d}"
    and "\<And>x. x \<in> set (comp_interceptors d) \<Longrightarrow> find_first (\<lambda>c. comp_name c = x) comps \<noteq> None"
    and "\<And>a b w. (a, b, w) \<in> set (cg_edges g') \<Longrightarrow> (a, b, w) \<in> set (cg_edges g) \<or>
           (a = i \<or> a < length (cg_nodes g) + chain_length d) \<and> b < length (cg_nodes g) + chain_length d"
proof -
  from assms obtain i cur where i: "hm_get (comp_name d) (cg_node_map g) = Some i"
    and f: "fold_res (chain_step comps d)
       (g \<lparr> cg_nodes := (cg_nodes g)[i := rename_node (inner_name d) (cg_nodes g ! i)],
            cg_node_map := hm_insert (inner_name d) i (hm_remove (comp_name d) (cg_node_map g)) \<rparr>, i, cl)
       (List.enumerate 0 (rev (comp_interceptors d))) = Inr (g', cur, cl')"
    by (auto simp: build_chain_def attempt_Inr_iff ok_or_Inr_iff Let_def)
  note c = chain_fold [OF f]
  have m: "map_of (cg_node_map g') = ((map_of (cg_node_map g))(comp_name d := None, inner_name d \<mapsto> i))
           ++ map_of (chain_names d (length (cg_nodes g)))"
    using c chain_names_distinct [of d "length (cg_nodes g)"]
    by (simp add: hm.lookup_fold_insert_distinct chain_names_def)
  let ?ints = "rev (comp_interceptors d)" and ?n = "length (cg_nodes g)"
  from c have n': "cg_nodes g' = (cg_nodes g)[i := rename_node (inner_name d) (cg_nodes g ! i)] @
        map (clone_node comps d) (List.enumerate 0 ?ints)" by simp
  from c have keep: "\<forall>a b w. (a, b, w) \<in> set (cg_edges g) \<longrightarrow> b < ?n \<longrightarrow> (a, b, w) \<in> set (cg_edges g')"
    by simp
  let ?g1 = "g \<lparr> cg_nodes := (cg_nodes g)[i := rename_node (inner_name d) (cg_nodes g ! i)],
            cg_node_map := hm_insert (inner_name d) i (hm_remove (comp_name d) (cg_node_map g)) \<rparr>"
  have n1: "length (cg_nodes ?g1) = ?n" "length ?ints = chain_length d" by simp_all
  from c have "\<forall>j < length ?ints. ((if j = 0 then i else length (cg_nodes ?g1) + j - 1),
      length (cg_nodes ?g1) + j, Interceptor (of_nat (0 + j))) \<in> set (cg_edges g')"
    by (elim conjE)
  then have chain: "\<forall>j < chain_length d. ((if j = 0 then i else ?n + j - 1), ?n + j,
      Interceptor (of_nat j)) \<in> set (cg_edges g')" by (simp only: n1 add_0)
  from c have cls: "set cl' = set cl \<union> {?n..<?n + chain_length d}" by simp
  from c have found: "\<forall>x \<in> set (comp_interceptors d). find_first (\<lambda>c. comp_name c = x) comps \<noteq> None"
    by simp
  from c have new: "\<forall>a b w. (a, b, w) \<in> set (cg_edges g') \<longrightarrow> (a, b, w) \<in> set (cg_edges g) \<or>
        (a = i \<or> a < ?n + chain_length d) \<and> b < ?n + chain_length d" by simp
  show ?thesis
    by (rule that [OF i n' m]) (use keep chain cls found new in blast)+
qed

lemma rename_node_name: "\<forall>c. n \<noteq> NCapability c \<Longrightarrow> node_name (rename_node m n) = m"
  by (cases n) (simp_all add: rename_node_def)

lemma clone_node_name: "node_name (clone_node comps d kx) = synthetic_name d (fst kx)"
  by (simp add: clone_node_def)

lemma nth_rev_enumerate: "j < length xs \<Longrightarrow> List.enumerate 0 xs ! j = (j, xs ! j)"
  by (simp add: nth_enumerate_eq)

lemma build_chain_inv:
  assumes b: "build_chain comps (g, cl) d = Inr (g', cl')" and inv: "graph_inv caps g"
    and disj: "comp_name d \<notin> cap_name ` set caps"
  shows "graph_inv caps g'"
    and "\<forall>i \<in> set cl. i < length (cg_nodes g) \<Longrightarrow> \<forall>i \<in> set cl'. i < length (cg_nodes g')"
proof -
  have "graph_inv caps g' \<and>
    ((\<forall>i \<in> set cl. i < length (cg_nodes g)) \<longrightarrow> (\<forall>i \<in> set cl'. i < length (cg_nodes g')))"
proof (cases "comp_interceptors d = []")
  case True
  then show ?thesis using b inv by (simp add: build_chain_def)
next
  case False
  from b False show ?thesis
  proof (rule build_chain_shape)
    fix i
    assume i: "hm_get (comp_name d) (cg_node_map g) = Some i"
      and n: "cg_nodes g' = (cg_nodes g)[i := rename_node (inner_name d) (cg_nodes g ! i)] @
           map (clone_node comps d) (List.enumerate 0 (rev (comp_interceptors d)))"
      and m: "map_of (cg_node_map g') = ((map_of (cg_node_map g))(comp_name d := None, inner_name d \<mapsto> i))
           ++ map_of (chain_names d (length (cg_nodes g)))"
      and c: "set cl' = set cl \<union> {length (cg_nodes g)..<length (cg_nodes g) + chain_length d}"
      and e: "\<And>a b w. (a, b, w) \<in> set (cg_edges g') \<Longrightarrow> (a, b, w) \<in> set (cg_edges g) \<or>
           (a = i \<or> a < length (cg_nodes g) + chain_length d) \<and> b < length (cg_nodes g) + chain_length d"
    let ?n = "length (cg_nodes g)"
    have len: "length (cg_nodes g') = ?n + chain_length d" by (simp add: n)
    from graph_invD(1) [OF inv i] have iname: "i < ?n" "node_name (cg_nodes g ! i) = comp_name d" by auto
    have icomp: "cg_nodes g ! i \<noteq> NCapability k" for k
      using graph_invD(2) [OF inv, of k] iname disj by (metis image_eqI node_name.simps(2) nth_mem)
    have nodei: "node_name (cg_nodes g' ! i) = inner_name d"
      using iname icomp rename_node_name [of "cg_nodes g ! i"] by (simp add: n nth_append)
    have names: "x < length (cg_nodes g') \<and> node_name (cg_nodes g' ! x) = k"
      if k: "hm_get k (cg_node_map g') = Some x" for k x
    proof (cases "map_of (chain_names d ?n) k")
      case (Some y)
      with k m obtain j where j: "j < chain_length d" "k = synthetic_name d j" "x = ?n + j"
        using chain_names_Some [OF Some] by (auto simp: map_add_def)
      then show ?thesis by (simp add: len n nth_append clone_node_name nth_rev_enumerate)
    next
      case None
      with k m have k': "((map_of (cg_node_map g))(comp_name d := None, inner_name d \<mapsto> i)) k = Some x"
        by (simp add: map_add_def)
      show ?thesis
      proof (cases "k = inner_name d")
        case True
        then show ?thesis using k' nodei iname len by simp
      next
        case False
        with k' have "k \<noteq> comp_name d" "hm_get k (cg_node_map g) = Some x" by (auto split: if_splits)
        with graph_invD(1) [OF inv this(2)] iname show ?thesis
          by (auto simp: len n nth_append nth_list_update)
      qed
    qed
    have caps': "c' \<in> set caps" if "NCapability c' \<in> set (cg_nodes g')" for c'
    proof -
      have "rename_node (inner_name d) (cg_nodes g ! i) \<noteq> NCapability c'"
        using icomp by (cases "cg_nodes g ! i") (auto simp: rename_node_def)
      with that have "NCapability c' \<in> set (cg_nodes g)"
        by (auto simp: n clone_node_def dest: set_update_subset_insert [THEN subsetD])
      then show ?thesis by (rule graph_invD(2) [OF inv])
    qed
    have edges': "a < length (cg_nodes g') \<and> b < length (cg_nodes g')"
      if "(a, b, w) \<in> set (cg_edges g')" for a b w
      using e [OF that] graph_invD(3) [OF inv, of a b w] iname(1) by (auto simp: len)
    have "graph_inv caps g'" unfolding graph_inv_def using names caps' edges' by blast
    moreover have "\<forall>i \<in> set cl'. i < length (cg_nodes g')" if "\<forall>i \<in> set cl. i < length (cg_nodes g)"
      using c that len by auto
    ultimately show ?thesis by blast
  qed
qed
  then show "graph_inv caps g'"
    and "\<forall>i \<in> set cl. i < length (cg_nodes g) \<Longrightarrow> \<forall>i \<in> set cl'. i < length (cg_nodes g')"
    by blast+
qed

subsection \<open>Lemmas: what the other chains leave alone\<close>

definition valid_definitions ::
  "component_definition list \<Rightarrow> capability_definition list \<Rightarrow> bool" where
  "valid_definitions comps caps \<longleftrightarrow>
     distinct (map cap_name caps @ map comp_name comps) \<and>
     list_all (\<lambda>n. \<not> starts_with n ''_'' \<and> CHR ''$'' \<notin> set n) (map cap_name caps @ map comp_name comps) \<and>
     list_all (\<lambda>d. list_all (\<lambda>i. \<not> starts_with i ''_'') (comp_imports d)) comps"

lemma valid_definitionsD:
  assumes "valid_definitions comps caps"
  shows "d \<in> set comps \<Longrightarrow> \<not> starts_with (comp_name d) ''_''"
    and "d \<in> set comps \<Longrightarrow> CHR ''$'' \<notin> set (comp_name d)"
    and "d \<in> set comps \<Longrightarrow> comp_name d \<notin> cap_name ` set caps"
    and "distinct (map comp_name comps)"
    and "d \<in> set comps \<Longrightarrow> i \<in> set (comp_imports d) \<Longrightarrow> \<not> starts_with i ''_''"
  using assms by (auto simp: valid_definitions_def list_all_iff)

lemma valid_same_name:
  "valid_definitions comps caps \<Longrightarrow> d \<in> set comps \<Longrightarrow> d' \<in> set comps \<Longrightarrow> comp_name d = comp_name d' \<Longrightarrow> d = d'"
  using valid_definitionsD(4) by (metis distinct_map inj_onD)

lemma synthetic_cases: "synthetic_name d k = comp_name d \<or> synthetic_name d k = internal_name (comp_name d) (k + 1)"
  by (simp add: synthetic_name_def)

lemma chain_frame:
  assumes b: "build_chain comps (g, cl) d' = Inr (g', cl')" and inv: "graph_inv caps g"
  shows "k \<noteq> comp_name d' \<Longrightarrow> (\<And>j. k \<noteq> internal_name (comp_name d') j) \<Longrightarrow>
           hm_get k (cg_node_map g') = hm_get k (cg_node_map g)"
    and "x < length (cg_nodes g) \<Longrightarrow> node_name (cg_nodes g ! x) \<noteq> comp_name d' \<Longrightarrow>
           cg_nodes g' ! x = cg_nodes g ! x \<and> x < length (cg_nodes g')"
    and "(a, b', w) \<in> set (cg_edges g) \<Longrightarrow> (a, b', w) \<in> set (cg_edges g')"
proof -
  have "(k \<noteq> comp_name d' \<longrightarrow> (\<forall>j. k \<noteq> internal_name (comp_name d') j) \<longrightarrow>
           hm_get k (cg_node_map g') = hm_get k (cg_node_map g)) \<and>
        (x < length (cg_nodes g) \<longrightarrow> node_name (cg_nodes g ! x) \<noteq> comp_name d' \<longrightarrow>
           cg_nodes g' ! x = cg_nodes g ! x \<and> x < length (cg_nodes g')) \<and>
        ((a, b', w) \<in> set (cg_edges g) \<longrightarrow> (a, b', w) \<in> set (cg_edges g'))"
  proof (cases "comp_interceptors d' = []")
    case True
    then show ?thesis using b by (simp add: build_chain_def)
  next
    case False
    from b False show ?thesis
    proof (rule build_chain_shape)
      fix i
      assume i: "hm_get (comp_name d') (cg_node_map g) = Some i"
        and n: "cg_nodes g' = (cg_nodes g)[i := rename_node (inner_name d') (cg_nodes g ! i)] @
             map (clone_node comps d') (List.enumerate 0 (rev (comp_interceptors d')))"
        and m: "map_of (cg_node_map g') = ((map_of (cg_node_map g))(comp_name d' := None, inner_name d' \<mapsto> i))
             ++ map_of (chain_names d' (length (cg_nodes g)))"
        and e: "\<And>a b w. (a, b, w) \<in> set (cg_edges g) \<Longrightarrow> b < length (cg_nodes g) \<Longrightarrow>
             (a, b, w) \<in> set (cg_edges g')"
      have "hm_get k (cg_node_map g') = hm_get k (cg_node_map g)"
        if "k \<noteq> comp_name d'" "\<forall>j. k \<noteq> internal_name (comp_name d') j"
      proof -
        have "map_of (chain_names d' (length (cg_nodes g))) k = None"
          by (rule chain_names_None) (use that synthetic_cases in metis)
        with m that show ?thesis by (simp add: map_add_def)
      qed
      moreover have "cg_nodes g' ! x = cg_nodes g ! x \<and> x < length (cg_nodes g')"
        if "x < length (cg_nodes g)" "node_name (cg_nodes g ! x) \<noteq> comp_name d'"
      proof -
        have "x \<noteq> i" using graph_invD(1) [OF inv i] that by auto
        with that show ?thesis by (simp add: n nth_append)
      qed
      moreover have "(a, b', w) \<in> set (cg_edges g')" if "(a, b', w) \<in> set (cg_edges g)"
        using e [OF that] graph_invD(3) [OF inv that] by simp
      ultimately show ?thesis by blast
    qed
  qed
  then show "k \<noteq> comp_name d' \<Longrightarrow> (\<And>j. k \<noteq> internal_name (comp_name d') j) \<Longrightarrow>
           hm_get k (cg_node_map g') = hm_get k (cg_node_map g)"
    and "x < length (cg_nodes g) \<Longrightarrow> node_name (cg_nodes g ! x) \<noteq> comp_name d' \<Longrightarrow>
           cg_nodes g' ! x = cg_nodes g ! x \<and> x < length (cg_nodes g')"
    and "(a, b', w) \<in> set (cg_edges g) \<Longrightarrow> (a, b', w) \<in> set (cg_edges g')"
    by blast+
qed

text \<open>The chain of a definition in a graph: the path of node indices from the renamed component
  out to the interceptor that took its name.\<close>

definition chain_in ::
  "component_definition list \<Rightarrow> component_definition \<Rightarrow> component_graph \<Rightarrow> nat list \<Rightarrow> bool" where
  "chain_in comps d g path \<longleftrightarrow>
     length path = Suc (chain_length d) \<and>
     hm_get (inner_name d) (cg_node_map g) = Some (path ! 0) \<and>
     hm_get (comp_name d) (cg_node_map g) = Some (path ! chain_length d) \<and>
     cg_nodes g ! (path ! 0) = NComponent (d \<lparr> comp_name := inner_name d \<rparr>) \<and>
     (\<forall>k \<le> chain_length d. path ! k < length (cg_nodes g)) \<and>
     (\<forall>k < chain_length d.
        cg_nodes g ! (path ! Suc k) = clone_node comps d (k, rev (comp_interceptors d) ! k) \<and>
        (path ! k, path ! Suc k, Interceptor (of_nat k)) \<in> set (cg_edges g))"

definition chain_name :: "component_definition \<Rightarrow> nat \<Rightarrow> string" where
  "chain_name d k = (case k of 0 \<Rightarrow> inner_name d | Suc j \<Rightarrow> synthetic_name d j)"

lemma chain_in_names:
  "chain_in comps d g path \<Longrightarrow> k \<le> chain_length d \<Longrightarrow> node_name (cg_nodes g ! (path ! k)) = chain_name d k"
  by (cases k) (auto simp: chain_in_def chain_name_def clone_node_name)

lemma chain_in_start:
  assumes b: "build_chain comps (g, cl) d = Inr (g', cl')" and inv: "graph_inv caps g"
    and i: "hm_get (comp_name d) (cg_node_map g) = Some i" "cg_nodes g ! i = NComponent d"
    and ne: "comp_interceptors d \<noteq> []"
  shows "chain_in comps d g' (i # [length (cg_nodes g)..<length (cg_nodes g) + chain_length d])"
  using b ne
proof (rule build_chain_shape)
  fix i'
  let ?n = "length (cg_nodes g)" and ?c = "chain_length d"
  let ?path = "i # [?n..<?n + ?c]"
  assume i': "hm_get (comp_name d) (cg_node_map g) = Some i'"
    and n: "cg_nodes g' = (cg_nodes g)[i' := rename_node (inner_name d) (cg_nodes g ! i')] @
         map (clone_node comps d) (List.enumerate 0 (rev (comp_interceptors d)))"
    and m: "map_of (cg_node_map g') = ((map_of (cg_node_map g))(comp_name d := None, inner_name d \<mapsto> i'))
         ++ map_of (chain_names d ?n)"
    and e: "\<And>j. j < ?c \<Longrightarrow> ((if j = 0 then i' else ?n + j - 1), ?n + j, Interceptor (of_nat j)) \<in> set (cg_edges g')"
  have ii: "i' = i" and il: "i < ?n" using i i' graph_invD(1) [OF inv i(1)] by auto
  have c: "0 < ?c" using ne by simp
  have inner: "map_of (chain_names d ?n) (inner_name d) = None"
    by (rule chain_names_None)
      (auto simp: synthetic_name_def internal_name_inj internal_name_neq_self)
  have outer: "map_of (chain_names d ?n) (comp_name d) = Some (?n + (?c - 1))"
  proof -
    have "?c - 1 < ?c" "synthetic_name d (?c - 1) = comp_name d" using c by (simp_all add: synthetic_name_def)
    then show ?thesis using chain_names_nth [of "?c - 1" d ?n] by metis
  qed
  have last: "?path ! ?c = ?n + (?c - 1)" using c by (cases ?c) (simp_all del: upt_Suc)
  have steps: "?path ! Suc k = ?n + k" "?path ! k = (if k = 0 then i else ?n + k - 1)" if "k < ?c" for k
    using that by (auto simp: nth_Cons split: nat.splits)
  have "(?path ! k, ?path ! Suc k, Interceptor (of_nat k)) \<in> set (cg_edges g')" if "k < ?c" for k
    using e [OF that] steps [OF that] ii by (cases "k = 0") simp_all
  moreover have "cg_nodes g' ! (?path ! Suc k) = clone_node comps d (k, rev (comp_interceptors d) ! k)"
    if "k < ?c" for k
    using that steps(1) [OF that] by (simp add: n nth_append nth_rev_enumerate)
  moreover have "?path ! k < length (cg_nodes g')" if "k \<le> ?c" for k
    using that il by (cases k) (simp_all add: n)
  moreover have "cg_nodes g' ! i = NComponent (d \<lparr> comp_name := inner_name d \<rparr>)"
    using ii il i(2) by (simp add: n nth_append rename_node_def)
  ultimately show ?thesis
    unfolding chain_in_def using m inner outer last ii by (simp add: map_add_def)
qed

lemma chain_in_frame:
  assumes ch: "chain_in comps d g path" and b: "build_chain comps (g, cl) d' = Inr (g', cl')"
    and inv: "graph_inv caps g" and ne: "comp_name d' \<noteq> comp_name d"
    and ok: "\<not> starts_with (comp_name d) ''_''" "\<not> starts_with (comp_name d') ''_''"
      "CHR ''$'' \<notin> set (comp_name d)" "CHR ''$'' \<notin> set (comp_name d')"
  shows "chain_in comps d g' path"
proof -
  note fr = chain_frame [OF b inv]
  have nm: "chain_name d k \<noteq> comp_name d'" for k
    using ne internal_name_neq [OF ok(2), symmetric]
    by (auto simp: chain_name_def synthetic_name_def split: nat.splits)
  have nodes: "cg_nodes g' ! (path ! k) = cg_nodes g ! (path ! k) \<and> path ! k < length (cg_nodes g')"
    if "k \<le> chain_length d" for k
    using fr(2) [of "path ! k"] nm [of k] chain_in_names [OF ch that] ch that by (auto simp: chain_in_def)
  have "hm_get (inner_name d) (cg_node_map g') = hm_get (inner_name d) (cg_node_map g)"
    by (rule fr(1))
      (use ok ne internal_name_neq [OF ok(2), symmetric] internal_name_inject in auto)
  moreover have "hm_get (comp_name d) (cg_node_map g') = hm_get (comp_name d) (cg_node_map g)"
    by (rule fr(1)) (use ok ne internal_name_neq in auto)
  moreover have "(path ! k, path ! Suc k, Interceptor (of_nat k)) \<in> set (cg_edges g')"
    if "k < chain_length d" for k
    using fr(3) ch that by (auto simp: chain_in_def)
  ultimately show ?thesis using ch nodes by (simp add: chain_in_def)
qed

subsection \<open>Lemmas: all chains\<close>

definition imports_from :: "component_definition list \<Rightarrow> component_graph \<Rightarrow> bool" where
  "imports_from comps g \<longleftrightarrow>
     (\<forall>c. NComponent c \<in> set (cg_nodes g) \<longrightarrow> (\<exists>d \<in> set comps. comp_imports c = comp_imports d))"

lemma build_chain_imports:
  assumes b: "build_chain comps (g, cl) d = Inr (g', cl')" and inv: "graph_inv caps g"
    and imp: "imports_from comps g"
  shows "imports_from comps g'"
proof (cases "comp_interceptors d = []")
  case True
  then show ?thesis using b imp by (simp add: build_chain_def)
next
  case False
  from b False show ?thesis
  proof (rule build_chain_shape)
    fix i
    assume i: "hm_get (comp_name d) (cg_node_map g) = Some i"
      and n: "cg_nodes g' = (cg_nodes g)[i := rename_node (inner_name d) (cg_nodes g ! i)] @
           map (clone_node comps d) (List.enumerate 0 (rev (comp_interceptors d)))"
      and f: "\<And>x. x \<in> set (comp_interceptors d) \<Longrightarrow> find_first (\<lambda>c. comp_name c = x) comps \<noteq> None"
    have il: "cg_nodes g ! i \<in> set (cg_nodes g)" using graph_invD(1) [OF inv i] by simp
    show ?thesis unfolding imports_from_def
    proof (intro allI impI)
      fix c assume "NComponent c \<in> set (cg_nodes g')"
      then consider "NComponent c \<in> set (cg_nodes g)"
        | "NComponent c = rename_node (inner_name d) (cg_nodes g ! i)"
        | kx where "kx \<in> set (List.enumerate 0 (rev (comp_interceptors d)))" "NComponent c = clone_node comps d kx"
        unfolding n by (auto dest: set_update_subset_insert [THEN subsetD])
      then show "\<exists>d \<in> set comps. comp_imports c = comp_imports d"
      proof cases
        case 1
        then show ?thesis using imp by (simp add: imports_from_def)
      next
        case 2
        then show ?thesis using imp il
          by (cases "cg_nodes g ! i") (auto simp: rename_node_def imports_from_def)
      next
        case 3
        then have k: "fst kx < length (rev (comp_interceptors d))"
          "rev (comp_interceptors d) ! fst kx = snd kx"
          by (simp_all add: in_set_enumerate_eq)
        have "snd kx \<in> set (comp_interceptors d)"
          using nth_mem [OF k(1)] unfolding k(2) by simp
        with f obtain e where "find_first (\<lambda>c. comp_name c = snd kx) comps = Some e" by blast
        with 3 find_first_Some [OF this] show ?thesis by (auto simp: clone_node_def)
      qed
    qed
  qed
qed

lemma chains_inv:
  assumes "fold_res (build_chain comps) (g, cl) ds = Inr (g', cl')" and "graph_inv caps g"
    and "imports_from comps g" and "\<forall>i \<in> set cl. i < length (cg_nodes g)"
    and "\<forall>d \<in> set ds. comp_name d \<notin> cap_name ` set caps"
  shows "graph_inv caps g' \<and> imports_from comps g' \<and> (\<forall>i \<in> set cl'. i < length (cg_nodes g'))"
  using assms
proof (induction ds arbitrary: g cl)
  case (Cons d ds)
  from Cons.prems(1) obtain g1 cl1 where s: "build_chain comps (g, cl) d = Inr (g1, cl1)"
    "fold_res (build_chain comps) (g1, cl1) ds = Inr (g', cl')"
    unfolding fold_res_Cons_iff by (metis surj_pair)
  have d: "comp_name d \<notin> cap_name ` set caps" using Cons.prems(5) by simp
  show ?case
    by (rule Cons.IH [OF s(2) build_chain_inv(1) [OF s(1) Cons.prems(2) d]
          build_chain_imports [OF s(1) Cons.prems(2,3)]
          build_chain_inv(2) [OF s(1) Cons.prems(2) d Cons.prems(4)]])
      (use Cons.prems(5) in simp)
qed simp

lemma chains_keep:
  assumes "fold_res (build_chain comps) (g, cl) ds = Inr (g', cl')" and "graph_inv caps g"
    and "chain_in comps d g path" and "comp_name d \<notin> comp_name ` set ds"
    and "valid_definitions comps caps" and "d \<in> set comps" and "set ds \<subseteq> set comps"
  shows "chain_in comps d g' path"
  using assms
proof (induction ds arbitrary: g cl)
  case (Cons d' ds)
  from Cons.prems(1) obtain g1 cl1 where s: "build_chain comps (g, cl) d' = Inr (g1, cl1)"
    "fold_res (build_chain comps) (g1, cl1) ds = Inr (g', cl')"
    unfolding fold_res_Cons_iff by (metis surj_pair)
  note v = valid_definitionsD [OF Cons.prems(5)]
  have "chain_in comps d g1 path"
    using Cons.prems v(1,2) by (intro chain_in_frame [OF Cons.prems(3) s(1) Cons.prems(2)]) auto
  moreover have "graph_inv caps g1"
    by (rule build_chain_inv(1) [OF s(1) Cons.prems(2)]) (use Cons.prems v(3) in auto)
  ultimately show ?case using Cons.IH [OF s(2)] Cons.prems by auto
qed simp

subsection \<open>Lemmas: dependency edges\<close>

lemma add_import_edges_same:
  "cg_nodes (add_import_edges importer imps g) = cg_nodes g"
  "cg_node_map (add_import_edges importer imps g) = cg_node_map g"
proof -
  have "cg_nodes (add_import_edges importer imps g) = cg_nodes g \<and>
      cg_node_map (add_import_edges importer imps g) = cg_node_map g"
    by (induction imps arbitrary: g) (auto simp: add_import_edges_def update_edge_def split: option.splits)
  then show "cg_nodes (add_import_edges importer imps g) = cg_nodes g"
    "cg_node_map (add_import_edges importer imps g) = cg_node_map g" by blast+
qed

lemma add_import_edges_Cons:
  "add_import_edges importer (e # imps) g =
     add_import_edges importer imps
       (case hm_get e (cg_node_map g) of Some i \<Rightarrow> update_edge i importer Dependency g | None \<Rightarrow> g)"
  by (simp add: add_import_edges_def)

lemma add_import_edges_inv:
  "graph_inv caps g \<Longrightarrow> importer < length (cg_nodes g) \<Longrightarrow> graph_inv caps (add_import_edges importer imps g)"
proof (induction imps arbitrary: g)
  case (Cons e imps)
  show ?case
  proof (cases "hm_get e (cg_node_map g)")
    case (Some i)
    with Cons.prems graph_invD(1) [OF Cons.prems(1) Some]
    have "graph_inv caps (update_edge i importer Dependency g)" by (intro graph_inv_edge) auto
    with Cons Some show ?thesis by (simp add: add_import_edges_Cons update_edge_def)
  qed (use Cons in \<open>simp add: add_import_edges_Cons\<close>)
qed (simp add: add_import_edges_def)

lemma add_import_edges_keeps:
  assumes "(a, b, w) \<in> set (cg_edges g)"
    and "b \<noteq> importer \<or> (\<forall>e \<in> set imps. hm_get e (cg_node_map g) \<noteq> Some a)"
  shows "(a, b, w) \<in> set (cg_edges (add_import_edges importer imps g))"
  using assms
proof (induction imps arbitrary: g)
  case (Cons e imps)
  show ?case
  proof (cases "hm_get e (cg_node_map g)")
    case (Some i)
    have "(a, b, w) \<in> set (cg_edges (update_edge i importer Dependency g))"
      using Cons.prems Some by (auto simp: update_edge_def intro!: update_edge_list_keeps)
    moreover have "cg_node_map (update_edge i importer Dependency g) = cg_node_map g"
      by (simp add: update_edge_def)
    ultimately show ?thesis using Cons.IH Cons.prems(2) Some by (simp add: add_import_edges_Cons)
  qed (use Cons in \<open>simp add: add_import_edges_Cons\<close>)
qed (simp add: add_import_edges_def)

definition lookup_name :: "component_definition \<Rightarrow> string" where
  "lookup_name d = (if comp_interceptors d = [] then comp_name d else inner_name d)"

lemma add_dependencies_Cons:
  "add_dependencies (d # ds) g =
     add_dependencies ds (case hm_get (lookup_name d) (cg_node_map g) of
        None \<Rightarrow> g | Some i \<Rightarrow> add_import_edges i (comp_imports d) g)"
  by (simp add: add_dependencies_def lookup_name_def)

lemma add_clone_dependencies_Cons:
  "add_clone_dependencies (i # is) g =
     add_clone_dependencies is (case cg_nodes g ! i of
        NComponent d \<Rightarrow> add_import_edges i (comp_imports d) g | NCapability d \<Rightarrow> g)"
  by (simp add: add_clone_dependencies_def)

lemma add_dependencies_inv:
  "graph_inv caps g \<Longrightarrow>
     graph_inv caps (add_dependencies ds g) \<and>
     cg_nodes (add_dependencies ds g) = cg_nodes g \<and>
     cg_node_map (add_dependencies ds g) = cg_node_map g"
proof (induction ds arbitrary: g)
  case (Cons d ds)
  show ?case
  proof (cases "hm_get (lookup_name d) (cg_node_map g)")
    case (Some i)
    have "graph_inv caps (add_import_edges i (comp_imports d) g)"
      using graph_invD(1) [OF Cons.prems Some] Cons.prems by (intro add_import_edges_inv) auto
    with Cons.IH Some show ?thesis by (simp add: add_dependencies_Cons add_import_edges_same)
  qed (use Cons in \<open>simp add: add_dependencies_Cons\<close>)
qed (simp add: add_dependencies_def)

lemma add_clone_dependencies_inv:
  "graph_inv caps g \<Longrightarrow> \<forall>i \<in> set is. i < length (cg_nodes g) \<Longrightarrow>
     graph_inv caps (add_clone_dependencies is g) \<and>
     cg_nodes (add_clone_dependencies is g) = cg_nodes g \<and>
     cg_node_map (add_clone_dependencies is g) = cg_node_map g"
proof (induction "is" arbitrary: g)
  case (Cons i "is")
  show ?case
  proof (cases "cg_nodes g ! i")
    case (NComponent d)
    have "graph_inv caps (add_import_edges i (comp_imports d) g)"
      using Cons.prems by (intro add_import_edges_inv) auto
    with Cons.IH Cons.prems NComponent show ?thesis
      by (simp add: add_clone_dependencies_Cons add_import_edges_same)
  qed (use Cons in \<open>simp add: add_clone_dependencies_Cons\<close>)
qed (simp add: add_clone_dependencies_def)

lemma add_dependencies_keeps:
  assumes "(a, b, w) \<in> set (cg_edges g)" and "\<forall>d \<in> set ds. hm_get (lookup_name d) (cg_node_map g) \<noteq> Some b"
  shows "(a, b, w) \<in> set (cg_edges (add_dependencies ds g))"
  using assms
proof (induction ds arbitrary: g)
  case (Cons d ds)
  then show ?case
    by (cases "hm_get (lookup_name d) (cg_node_map g)")
      (auto simp: add_dependencies_Cons add_import_edges_same intro!: Cons.IH add_import_edges_keeps)
qed (simp add: add_dependencies_def)

lemma add_clone_dependencies_keeps:
  assumes "(a, b, w) \<in> set (cg_edges g)"
    and "\<And>i d e. i \<in> set is \<Longrightarrow> cg_nodes g ! i = NComponent d \<Longrightarrow> e \<in> set (comp_imports d) \<Longrightarrow>
           hm_get e (cg_node_map g) \<noteq> Some a"
  shows "(a, b, w) \<in> set (cg_edges (add_clone_dependencies is g))"
  using assms
proof (induction "is" arbitrary: g)
  case (Cons i "is")
  show ?case
  proof (cases "cg_nodes g ! i")
    case (NComponent d)
    have "(a, b, w) \<in> set (cg_edges (add_import_edges i (comp_imports d) g))"
      using Cons.prems(1) Cons.prems(2) [of i d] NComponent by (intro add_import_edges_keeps) auto
    then have "(a, b, w) \<in> set (cg_edges (add_clone_dependencies is (add_import_edges i (comp_imports d) g)))"
      by (rule Cons.IH) (use Cons.prems(2) in \<open>auto simp: add_import_edges_same\<close>)
    with NComponent show ?thesis by (simp add: add_clone_dependencies_Cons)
  next
    case (NCapability d)
    have "(a, b, w) \<in> set (cg_edges (add_clone_dependencies is g))"
      by (rule Cons.IH [OF Cons.prems(1)]) (use Cons.prems(2) in auto)
    with NCapability show ?thesis by (simp add: add_clone_dependencies_Cons)
  qed
qed (simp add: add_clone_dependencies_def)

subsection \<open>Lemmas: the assembled graph\<close>

lemma assemble_steps:
  assumes "assemble_graph comps caps = Inr g"
  obtains g0 cl where
    "fold_res (build_chain comps) (add_components comps comps (add_capabilities caps empty_graph), []) comps
       = Inr (g0, cl)"
    and "g = add_clone_dependencies cl (add_dependencies comps g0)"
  using assms unfolding assemble_graph_def attempt_Inr_iff by (force split: prod.splits)

lemma imports_from_add:
  "imports_from comps g \<Longrightarrow> \<forall>c. n = NComponent c \<longrightarrow> c \<in> set comps \<Longrightarrow>
     imports_from comps (add_named_node name n g)"
  by (auto simp: add_named_node_def imports_from_def)

lemma start_imports:
  "set ds \<subseteq> set comps \<Longrightarrow>
     imports_from comps (add_components comps ds (add_capabilities caps empty_graph))"
proof -
  assume ds: "set ds \<subseteq> set comps"
  have "imports_from comps g \<Longrightarrow> imports_from comps (add_capabilities cs g)" for cs g
  proof (induction cs arbitrary: g)
    case (Cons c cs)
    then have "imports_from comps (add_named_node (cap_name c) (NCapability c) g)"
      by (intro imports_from_add) auto
    with Cons show ?case by (simp add: add_capabilities_def)
  qed (simp add: add_capabilities_def)
  moreover have "imports_from comps empty_graph" by (simp add: imports_from_def empty_graph_def)
  moreover have "imports_from comps g \<Longrightarrow> imports_from comps (add_components comps ds g)" for g
    using ds
  proof (induction ds arbitrary: g)
    case (Cons d ds)
    then have "imports_from comps (add_named_node (comp_name d) (NComponent d) g)"
      by (intro imports_from_add) auto
    with Cons show ?case by (simp add: add_components_def)
  qed (simp add: add_components_def)
  ultimately show ?thesis by blast
qed

text \<open>
  The node map of an assembled graph is consistent: every name in it leads to a node in
  range that carries exactly that name, and every edge connects existing nodes. This is what
  lets an interceptor take over the name of the component it wraps.
\<close>

theorem assemble_graph_consistent:
  assumes "valid_definitions comps caps" and "assemble_graph comps caps = Inr g"
  shows "(get_node_index name g = Some i \<longrightarrow>
            i < length (cg_nodes g) \<and> node_name (cg_nodes g ! i) = name) \<and>
         list_all (\<lambda>(a, b, w). a < length (cg_nodes g) \<and> b < length (cg_nodes g)) (cg_edges g)"
proof -
  from assms(2) show ?thesis
  proof (rule assemble_steps)
    fix g0 cl
    assume f: "fold_res (build_chain comps)
        (add_components comps comps (add_capabilities caps empty_graph), []) comps = Inr (g0, cl)"
      and g: "g = add_clone_dependencies cl (add_dependencies comps g0)"
    have i0: "graph_inv caps g0 \<and> imports_from comps g0 \<and> (\<forall>i \<in> set cl. i < length (cg_nodes g0))"
      by (rule chains_inv [OF f graph_inv_start start_imports])
        (use valid_definitionsD(3) [OF assms(1)] in auto)
    then have "graph_inv caps g"
      using add_dependencies_inv [of caps g0 comps]
        add_clone_dependencies_inv [of caps "add_dependencies comps g0" cl] by (simp add: g)
    then show ?thesis
      using graph_invD(1) [of caps g name i] graph_invD(3) [of caps g]
      by (auto simp: get_node_index_def list_all_iff)
  qed
qed

lemma add_capabilities_get:
  "k \<notin> cap_name ` set cs \<Longrightarrow>
     hm_get k (cg_node_map (add_capabilities cs g)) = hm_get k (cg_node_map g)"
  by (induction cs arbitrary: g) (simp_all add: add_capabilities_def add_named_node_def)

lemma add_components_get:
  "k \<notin> comp_name ` set ds \<Longrightarrow>
     hm_get k (cg_node_map (add_components comps ds g)) = hm_get k (cg_node_map g)"
  by (induction ds arbitrary: g) (simp_all add: add_components_def add_named_node_def)

lemma add_components_nodes:
  "x < length (cg_nodes g) \<Longrightarrow>
     cg_nodes (add_components comps ds g) ! x = cg_nodes g ! x"
proof (induction ds arbitrary: g)
  case (Cons d ds)
  then show ?case
    using Cons.IH [of "add_named_node (comp_name d) (NComponent d) g"]
    by (simp add: add_components_def) (simp add: add_named_node_def nth_append)
qed (simp add: add_components_def)

lemma add_components_entry:
  assumes "distinct (map comp_name ds)" and "d \<in> set ds" and "\<not> is_template_only comps d"
  shows "\<exists>i. hm_get (comp_name d) (cg_node_map (add_components comps ds g)) = Some i \<and>
             cg_nodes (add_components comps ds g) ! i = NComponent d"
  using assms
proof (induction ds arbitrary: g)
  case (Cons e ds)
  show ?case
  proof (cases "d = e")
    case True
    let ?g1 = "add_named_node (comp_name d) (NComponent d) g"
    have "hm_get (comp_name d) (cg_node_map (add_components comps ds ?g1)) = Some (length (cg_nodes g))"
      using add_components_get [of "comp_name d" ds comps ?g1] Cons.prems True
      by (simp add: add_named_node_def)
    moreover have "cg_nodes (add_components comps ds ?g1) ! length (cg_nodes g) = NComponent d"
      using add_components_nodes [of "length (cg_nodes g)" ?g1 comps ds]
      by (simp add: add_named_node_def)
    ultimately show ?thesis using True Cons.prems by (simp add: add_components_def)
  qed (use Cons in \<open>simp add: add_components_def\<close>)
qed simp

lemma add_components_skips:
  assumes "distinct (map comp_name ds)" and "d \<in> set ds" and "is_template_only comps d"
    and "hm_get (comp_name d) (cg_node_map g) = None"
  shows "hm_get (comp_name d) (cg_node_map (add_components comps ds g)) = None"
  using assms
proof (induction ds arbitrary: g)
  case (Cons e ds)
  show ?case
  proof (cases "d = e")
    case True
    then show ?thesis
      using add_components_get [of "comp_name d" ds comps g] Cons.prems by (simp add: add_components_def)
  next
    case False
    then have d: "d \<in> set ds" "comp_name e \<noteq> comp_name d" using Cons.prems by auto
    let ?g1 = "add_named_node (comp_name e) (NComponent e) g"
    have "hm_get (comp_name d) (cg_node_map ?g1) = None"
      using Cons.prems(4) d(2) by (simp add: add_named_node_def)
    with Cons.IH [OF _ d(1) Cons.prems(3)] Cons.prems show ?thesis
      by (simp add: add_components_def)
  qed
qed simp

text \<open>A definition whose own chain is not built yet keeps its entry, or its absence.\<close>

lemma chains_before:
  assumes "fold_res (build_chain comps) (g, cl) ds = Inr (g', cl')" and "graph_inv caps g"
    and v: "valid_definitions comps caps" and "d \<in> set comps" "set ds \<subseteq> set comps"
    and "comp_name d \<notin> comp_name ` set ds"
  shows "hm_get (comp_name d) (cg_node_map g') = hm_get (comp_name d) (cg_node_map g) \<and> graph_inv caps g' \<and>
         (\<forall>i. hm_get (comp_name d) (cg_node_map g) = Some i \<longrightarrow> cg_nodes g' ! i = cg_nodes g ! i)"
  using assms
proof (induction ds arbitrary: g cl)
  case (Cons d' ds)
  from Cons.prems(1) obtain g1 cl1 where s: "build_chain comps (g, cl) d' = Inr (g1, cl1)"
    "fold_res (build_chain comps) (g1, cl1) ds = Inr (g', cl')"
    unfolding fold_res_Cons_iff by (metis surj_pair)
  note vd = valid_definitionsD [OF v]
  have ne: "comp_name d \<noteq> comp_name d'" using Cons.prems by auto
  have d': "d' \<in> set comps" using Cons.prems by simp
  have i1: "graph_inv caps g1"
    by (rule build_chain_inv(1) [OF s(1) Cons.prems(2)]) (use vd(3) [OF d'] in simp)
  have k: "hm_get (comp_name d) (cg_node_map g1) = hm_get (comp_name d) (cg_node_map g)"
    by (rule chain_frame(1) [OF s(1) Cons.prems(2) ne]) (use internal_name_neq vd(1) Cons.prems(4) in blast)
  have n: "cg_nodes g1 ! i = cg_nodes g ! i" if "hm_get (comp_name d) (cg_node_map g) = Some i" for i
    using chain_frame(2) [OF s(1) Cons.prems(2), of i] graph_invD(1) [OF Cons.prems(2) that] ne by simp
  from Cons.IH [OF s(2) i1 v Cons.prems(4)] Cons.prems k n show ?case by auto
qed simp

lemma chain_source_internal:
  assumes "chain_in comps d g path" and "k < chain_length d"
  shows "starts_with (node_name (cg_nodes g ! (path ! k))) ''_''"
proof (cases k)
  case 0
  then show ?thesis
    using chain_in_names [OF assms(1), of 0] by (simp add: chain_name_def internal_name_start)
next
  case (Suc j)
  then have "j \<noteq> chain_length d - 1" using assms(2) by simp
  then show ?thesis
    using chain_in_names [OF assms(1), of k] assms(2) Suc
    by (simp add: chain_name_def synthetic_name_def internal_name_start)
qed

lemma lookup_not_synthetic:
  assumes v: "valid_definitions comps caps" and d: "d \<in> set comps" "comp_interceptors d \<noteq> []"
    and d': "d' \<in> set comps"
  shows "lookup_name d' \<noteq> synthetic_name d k"
proof (cases "comp_interceptors d' = []")
  case True
  then have "d' \<noteq> d" using d by auto
  then have "comp_name d' \<noteq> comp_name d" using valid_same_name [OF v d' d(1)] by blast
  moreover have "comp_name d' \<noteq> internal_name (comp_name d) (k + 1)"
    using valid_definitionsD(1) [OF v d'] internal_name_neq by blast
  ultimately show ?thesis using True by (simp add: lookup_name_def synthetic_name_def)
next
  case False
  have "inner_name d' \<noteq> comp_name d"
    using valid_definitionsD(1) [OF v d(1)] internal_name_neq by metis
  moreover have "inner_name d' \<noteq> internal_name (comp_name d) (k + 1)"
    using internal_name_inject valid_definitionsD(2) [OF v] d(1) d' by simp
  ultimately show ?thesis using False by (simp add: lookup_name_def synthetic_name_def)
qed

lemma chain_in_dependencies:
  assumes ch: "chain_in comps d g path" and v: "valid_definitions comps caps"
    and d: "d \<in> set comps" "comp_interceptors d \<noteq> []"
    and inv: "graph_inv caps g" and imp: "imports_from comps g" and cl: "\<forall>i \<in> set cl. i < length (cg_nodes g)"
  shows "chain_in comps d (add_clone_dependencies cl (add_dependencies comps g)) path"
proof -
  let ?g1 = "add_dependencies comps g"
  note s1 = add_dependencies_inv [OF inv, of comps]
  have s2: "cg_nodes (add_clone_dependencies cl ?g1) = cg_nodes g"
    "cg_node_map (add_clone_dependencies cl ?g1) = cg_node_map g"
    using add_clone_dependencies_inv [of caps ?g1 cl] s1 cl by auto
  have edge: "(path ! k, path ! Suc k, Interceptor (of_nat k)) \<in> set (cg_edges (add_clone_dependencies cl ?g1))"
    if k: "k < chain_length d" for k
  proof (rule add_clone_dependencies_keeps)
    show "(path ! k, path ! Suc k, Interceptor (of_nat k)) \<in> set (cg_edges ?g1)"
    proof (rule add_dependencies_keeps)
      show "(path ! k, path ! Suc k, Interceptor (of_nat k)) \<in> set (cg_edges g)"
        using ch k by (simp add: chain_in_def)
      show "\<forall>d' \<in> set comps. hm_get (lookup_name d') (cg_node_map g) \<noteq> Some (path ! Suc k)"
      proof (intro ballI notI)
        fix d' assume d': "d' \<in> set comps"
          and "hm_get (lookup_name d') (cg_node_map g) = Some (path ! Suc k)"
        then have "lookup_name d' = node_name (cg_nodes g ! (path ! Suc k))"
          using graph_invD(1) [OF inv] by metis
        also have "\<dots> = synthetic_name d k"
          using chain_in_names [OF ch, of "Suc k"] k by (simp add: chain_name_def)
        finally show False using lookup_not_synthetic [OF v d d'] by blast
      qed
    qed
    fix i c e
    assume i: "i \<in> set cl" "cg_nodes ?g1 ! i = NComponent c" and e: "e \<in> set (comp_imports c)"
    then have "NComponent c \<in> set (cg_nodes g)" using cl s1 by (metis nth_mem)
    then obtain d' where "d' \<in> set comps" "comp_imports c = comp_imports d'"
      using imp by (auto simp: imports_from_def)
    with e have "\<not> starts_with e ''_''" using valid_definitionsD(5) [OF v] by simp
    then show "hm_get e (cg_node_map ?g1) \<noteq> Some (path ! k)"
      using chain_source_internal [OF ch k] graph_invD(1) [OF inv] s1 by metis
  qed
  show ?thesis using ch edge s2 by (simp add: chain_in_def)
qed

lemma assembled_chain:
  assumes "valid_definitions comps caps" and "assemble_graph comps caps = Inr g"
    and "d \<in> set comps" and "comp_interceptors d \<noteq> []"
  shows "\<exists>path. chain_in comps d g path"
proof -
  note vd = valid_definitionsD [OF assms(1)]
  let ?start = "add_components comps comps (add_capabilities caps empty_graph)"
  from assms(2) show ?thesis
  proof (rule assemble_steps)
    fix g0 cl
    assume f: "fold_res (build_chain comps) (?start, []) comps = Inr (g0, cl)"
      and g: "g = add_clone_dependencies cl (add_dependencies comps g0)"
    from assms(3) obtain pre post where c: "comps = pre @ d # post" by (meson split_list)
    have names: "comp_name d \<notin> comp_name ` set pre" "comp_name d \<notin> comp_name ` set post"
      using vd(4) by (auto simp: c)
    from f obtain st1 where "fold_res (build_chain comps) (?start, []) pre = Inr st1"
      "fold_res (build_chain comps) st1 (d # post) = Inr (g0, cl)"
      by (subst (asm) (2) c) (auto simp only: fold_res_append attempt_Inr_iff)
    moreover obtain g1 cl1 where "st1 = (g1, cl1)" by force
    ultimately have f1: "fold_res (build_chain comps) (?start, []) pre = Inr (g1, cl1)"
      and "fold_res (build_chain comps) (g1, cl1) (d # post) = Inr (g0, cl)" by simp_all
    then obtain g2 cl2 where b: "build_chain comps (g1, cl1) d = Inr (g2, cl2)"
      and f2: "fold_res (build_chain comps) (g2, cl2) post = Inr (g0, cl)"
      unfolding fold_res_Cons_iff by (metis surj_pair)
    have bef: "hm_get (comp_name d) (cg_node_map g1) = hm_get (comp_name d) (cg_node_map ?start) \<and>
        graph_inv caps g1 \<and>
        (\<forall>i. hm_get (comp_name d) (cg_node_map ?start) = Some i \<longrightarrow> cg_nodes g1 ! i = cg_nodes ?start ! i)"
      by (rule chains_before [OF f1 graph_inv_start assms(1,3)]) (use names c in auto)
    have "hm_get (comp_name d) (cg_node_map g1) \<noteq> None"
      using b assms(4) by (auto simp: build_chain_def attempt_Inr_iff ok_or_Inr_iff)
    moreover have "hm_get (comp_name d) (cg_node_map ?start) = None" if "is_template_only comps d"
      by (rule add_components_skips [OF vd(4) assms(3) that])
        (use add_capabilities_get vd(3) [OF assms(3)] in \<open>simp add: empty_graph_def\<close>)
    ultimately have "\<not> is_template_only comps d" using bef by auto
    from add_components_entry [OF vd(4) assms(3) this] bef obtain i where
      i: "hm_get (comp_name d) (cg_node_map g1) = Some i" "cg_nodes g1 ! i = NComponent d"
      by fastforce
    have inv1: "graph_inv caps g1" using bef by blast
    obtain path where p2: "chain_in comps d g2 path"
      using chain_in_start [OF b inv1 i assms(4)] by blast
    have inv2: "graph_inv caps g2"
      by (rule build_chain_inv(1) [OF b inv1 vd(3) [OF assms(3)]])
    have p0: "chain_in comps d g0 path"
      by (rule chains_keep [OF f2 inv2 p2 names(2) assms(1,3)]) (auto simp: c)
    have i0: "graph_inv caps g0 \<and> imports_from comps g0 \<and> (\<forall>i \<in> set cl. i < length (cg_nodes g0))"
      by (rule chains_inv [OF f graph_inv_start start_imports]) (use vd(3) in auto)
    have "chain_in comps d g path"
      unfolding g by (rule chain_in_dependencies [OF p0 assms(1,3,4)]) (use i0 in auto)
    then show ?thesis by blast
  qed
qed

text \<open>
  C7. Interceptor chains are built as documented: in an assembled graph the component sits
  under its internal name, the clones of its interceptors follow in reverse list order, each
  linked to the one it wraps by an interceptor edge of its position, and the outermost clone
  holds the component's name. Neither other chains nor dependency edges disturb the chain.
\<close>

theorem interceptor_chain_built:
  assumes "valid_definitions comps caps" and "assemble_graph comps caps = Inr g"
    and "d \<in> set comps" and "comp_interceptors d \<noteq> []"
  shows "\<exists>path. chain_in comps d g path"
  by (rule assembled_chain [OF assms])

text \<open>
  C38. A component that is used only as an interceptor template may not itself list
  interceptors: such a set of definitions is never assembled, because the template has no node
  and taking its node map entry fails.
\<close>

theorem intercepted_template_not_assembled:
  assumes "valid_definitions comps caps" and "d \<in> set comps" and "comp_interceptors d \<noteq> []"
    and "is_template_only comps d"
  shows "\<exists>e. assemble_graph comps caps = Inl e"
proof (cases "assemble_graph comps caps")
  case (Inr g)
  note vd = valid_definitionsD [OF assms(1)]
  let ?start = "add_components comps comps (add_capabilities caps empty_graph)"
  from Inr show ?thesis
  proof (rule assemble_steps)
    fix g0 cl
    assume f: "fold_res (build_chain comps) (?start, []) comps = Inr (g0, cl)"
    from assms(2) obtain pre post where c: "comps = pre @ d # post" by (meson split_list)
    have names: "comp_name d \<notin> comp_name ` set pre" using vd(4) by (auto simp: c)
    from f obtain st1 where "fold_res (build_chain comps) (?start, []) pre = Inr st1"
      "fold_res (build_chain comps) st1 (d # post) = Inr (g0, cl)"
      by (subst (asm) (2) c) (auto simp only: fold_res_append attempt_Inr_iff)
    moreover obtain g1 cl1 where "st1 = (g1, cl1)" by force
    ultimately have f1: "fold_res (build_chain comps) (?start, []) pre = Inr (g1, cl1)"
      and f2: "fold_res (build_chain comps) (g1, cl1) (d # post) = Inr (g0, cl)" by simp_all
    then have "\<exists>st. build_chain comps (g1, cl1) d = Inr st"
      unfolding fold_res_Cons_iff by blast
    then have "hm_get (comp_name d) (cg_node_map g1) \<noteq> None"
      using assms(3) by (auto simp: build_chain_def attempt_Inr_iff ok_or_Inr_iff)
    moreover have "hm_get (comp_name d) (cg_node_map g1) = hm_get (comp_name d) (cg_node_map ?start)"
      using chains_before [OF f1 graph_inv_start assms(1,2)] names c by auto
    moreover have "hm_get (comp_name d) (cg_node_map ?start) = None"
      by (rule add_components_skips [OF vd(4) assms(2,4)])
        (use add_capabilities_get vd(3) [OF assms(2)] in \<open>simp add: empty_graph_def\<close>)
    ultimately show ?thesis by simp
  qed
qed simp

subsection \<open>The cycle check\<close>

definition precedes :: "nat list \<Rightarrow> nat \<Rightarrow> nat \<Rightarrow> bool" where
  "precedes order a b \<longleftrightarrow> (\<exists>pre mid post. order = pre @ a # mid @ b # post)"

text \<open>What petgraph documents of \<open>toposort\<close>: an order it returns lists every node once, the
  source of an edge before its target.\<close>

definition toposort_spec :: "(node list \<Rightarrow> (nat \<times> nat \<times> edge) list \<Rightarrow> nat + nat list) \<Rightarrow> bool" where
  "toposort_spec topo \<longleftrightarrow>
     (\<forall>nodes edges order. topo nodes edges = Inr order \<longrightarrow>
        distinct order \<and> set order = {..<length nodes} \<and>
        list_all (\<lambda>(a, b, w). precedes order a b) edges)"

lemma precedes_irrefl: "distinct order \<Longrightarrow> \<not> precedes order a a"
  by (auto simp: precedes_def)

subsection \<open>Lemmas: every import is an edge\<close>

definition linked :: "component_graph \<Rightarrow> nat \<Rightarrow> nat \<Rightarrow> bool" where
  "linked g a b \<longleftrightarrow> (\<exists>w. (a, b, w) \<in> set (cg_edges g))"

lemma linkedI: "(a, b, w) \<in> set (cg_edges g) \<Longrightarrow> linked g a b"
  by (auto simp: linked_def)

lemma update_edge_linked:
  "linked (update_edge a b w g) a b"
  "linked g a' b' \<Longrightarrow> linked (update_edge a b w g) a' b'"
proof -
  show *: "linked (update_edge a b w g) a b"
    using update_edge_list_mem [of a b w "cg_edges g"] by (auto simp: linked_def update_edge_def)
  show "linked (update_edge a b w g) a' b'" if "linked g a' b'"
    using that * update_edge_list_keeps [of a' b' _ "cg_edges g" a b w]
    by (cases "(a', b') = (a, b)") (auto simp: linked_def update_edge_def)
qed

lemma add_import_edges_linked:
  "linked g a b \<Longrightarrow> linked (add_import_edges importer imps g) a b"
  by (induction imps arbitrary: g)
    (auto simp: add_import_edges_Cons update_edge_linked split: option.splits, simp add: add_import_edges_def)

lemma add_import_edges_links:
  "n \<in> set imps \<Longrightarrow> hm_get n (cg_node_map g) = Some i \<Longrightarrow> linked (add_import_edges importer imps g) i importer"
proof (induction imps arbitrary: g)
  case (Cons e imps)
  let ?g1 = "case hm_get e (cg_node_map g) of Some i \<Rightarrow> update_edge i importer Dependency g | None \<Rightarrow> g"
  have same: "cg_node_map ?g1 = cg_node_map g" by (simp add: update_edge_def split: option.split)
  show ?case
  proof (cases "n = e")
    case True
    then have "linked ?g1 i importer" using Cons.prems by (simp add: update_edge_linked)
    then show ?thesis unfolding add_import_edges_Cons by (rule add_import_edges_linked)
  next
    case False
    then show ?thesis
      using Cons.IH [of ?g1] Cons.prems same by (simp add: add_import_edges_Cons)
  qed
qed simp

lemma add_dependencies_linked:
  "linked g a b \<Longrightarrow> linked (add_dependencies ds g) a b"
proof (induction ds arbitrary: g)
  case (Cons d ds)
  show ?case unfolding add_dependencies_Cons
    by (rule Cons.IH) (use Cons.prems in \<open>simp add: add_import_edges_linked split: option.split\<close>)
qed (simp add: add_dependencies_def)

lemma add_dependencies_links:
  "d \<in> set ds \<Longrightarrow> hm_get (lookup_name d) (cg_node_map g) = Some j \<Longrightarrow> n \<in> set (comp_imports d) \<Longrightarrow>
     hm_get n (cg_node_map g) = Some i \<Longrightarrow> linked (add_dependencies ds g) i j"
proof (induction ds arbitrary: g)
  case (Cons e ds)
  let ?g1 = "case hm_get (lookup_name e) (cg_node_map g) of
        None \<Rightarrow> g | Some i \<Rightarrow> add_import_edges i (comp_imports e) g"
  have same: "cg_node_map ?g1 = cg_node_map g" by (simp add: add_import_edges_same split: option.split)
  show ?case
  proof (cases "d = e")
    case True
    then have "linked ?g1 i j" using Cons.prems by (simp add: add_import_edges_links)
    then show ?thesis unfolding add_dependencies_Cons by (rule add_dependencies_linked)
  next
    case False
    then show ?thesis
      using Cons.IH [of ?g1] Cons.prems same by (simp add: add_dependencies_Cons)
  qed
qed simp

lemma add_clone_dependencies_linked:
  "linked g a b \<Longrightarrow> linked (add_clone_dependencies is g) a b"
proof (induction "is" arbitrary: g)
  case (Cons i "is")
  show ?case unfolding add_clone_dependencies_Cons
    by (rule Cons.IH) (use Cons.prems in \<open>simp add: add_import_edges_linked split: node.split\<close>)
qed (simp add: add_clone_dependencies_def)

lemma add_clone_dependencies_links:
  "j \<in> set is \<Longrightarrow> cg_nodes g ! j = NComponent c \<Longrightarrow> n \<in> set (comp_imports c) \<Longrightarrow>
     hm_get n (cg_node_map g) = Some i \<Longrightarrow> linked (add_clone_dependencies is g) i j"
proof (induction "is" arbitrary: g)
  case (Cons k "is")
  let ?g1 = "case cg_nodes g ! k of
        NComponent d \<Rightarrow> add_import_edges k (comp_imports d) g | NCapability d \<Rightarrow> g"
  have same: "cg_node_map ?g1 = cg_node_map g" "cg_nodes ?g1 = cg_nodes g"
    by (simp_all add: add_import_edges_same split: node.split)
  show ?case
  proof (cases "j = k")
    case True
    then have "linked ?g1 i j" using Cons.prems by (simp add: add_import_edges_links)
    then show ?thesis unfolding add_clone_dependencies_Cons by (rule add_clone_dependencies_linked)
  next
    case False
    then show ?thesis
      using Cons.IH [of ?g1] Cons.prems same by (simp add: add_clone_dependencies_Cons)
  qed
qed simp

text \<open>Where a component node stands while the chains are built: it is a clone, or the node map
  leads to it by the name under which its definition's imports will be linked; \<open>built\<close> are the
  names of the definitions whose chain is built.\<close>

definition homed ::
  "component_definition list \<Rightarrow> string set \<Rightarrow> component_graph \<Rightarrow> nat list \<Rightarrow> bool" where
  "homed comps built g cl \<longleftrightarrow>
     (\<forall>j < length (cg_nodes g). \<forall>c. cg_nodes g ! j = NComponent c \<longrightarrow> j \<in> set cl \<or>
        (\<exists>d \<in> set comps. comp_imports c = comp_imports d \<and>
           hm_get (if comp_name d \<in> built then lookup_name d else comp_name d) (cg_node_map g) = Some j))"

lemma homedD:
  assumes "homed comps built g cl" and "j < length (cg_nodes g)" and "cg_nodes g ! j = NComponent c"
    and "j \<notin> set cl"
  obtains d where "d \<in> set comps" "comp_imports c = comp_imports d"
    "hm_get (if comp_name d \<in> built then lookup_name d else comp_name d) (cg_node_map g) = Some j"
  using assms unfolding homed_def by blast

lemma homed_build_chain:
  assumes b: "build_chain comps (g, cl) d = Inr (g', cl')" and inv: "graph_inv caps g"
    and v: "valid_definitions comps caps" and d: "d \<in> set comps" "comp_name d \<notin> built"
    and h: "homed comps built g cl"
  shows "homed comps (insert (comp_name d) built) g' cl'"
proof (cases "comp_interceptors d = []")
  case True
  then have "g' = g" "cl' = cl" "lookup_name d = comp_name d"
    using b by (simp_all add: build_chain_def lookup_name_def)
  moreover have "lookup_name e = comp_name e" if "e \<in> set comps" "comp_name e = comp_name d" for e
    using valid_same_name [OF v that(1) d(1)] that calculation(3) by simp
  ultimately show ?thesis using h unfolding homed_def by (auto split: if_splits) metis+
next
  case False
  note vd = valid_definitionsD [OF v]
  from b False show ?thesis
  proof (rule build_chain_shape)
    fix i
    assume i: "hm_get (comp_name d) (cg_node_map g) = Some i"
      and n: "cg_nodes g' = (cg_nodes g)[i := rename_node (inner_name d) (cg_nodes g ! i)] @
           map (clone_node comps d) (List.enumerate 0 (rev (comp_interceptors d)))"
      and m: "map_of (cg_node_map g') = ((map_of (cg_node_map g))(comp_name d := None, inner_name d \<mapsto> i))
           ++ map_of (chain_names d (length (cg_nodes g)))"
      and c': "set cl' = set cl \<union> {length (cg_nodes g)..<length (cg_nodes g) + chain_length d}"
    let ?n = "length (cg_nodes g)" and ?key = "\<lambda>bs e. if comp_name e \<in> bs then lookup_name e else comp_name e"
    have inner: "hm_get (inner_name d) (cg_node_map g') = Some i"
    proof -
      have "map_of (chain_names d ?n) (inner_name d) = None"
        by (rule chain_names_None) (auto simp: synthetic_name_def internal_name_inj internal_name_neq_self)
      with m show ?thesis by (simp add: map_add_def)
    qed
    have home: "\<exists>e \<in> set comps. comp_imports c = comp_imports e \<and>
        hm_get (?key (insert (comp_name d) built) e) (cg_node_map g') = Some j"
      if j: "j < ?n" "j \<notin> set cl" "cg_nodes g' ! j = NComponent c" for j c
    proof -
      obtain c0 where c0: "cg_nodes g ! j = NComponent c0" "comp_imports c = comp_imports c0"
        using j(1,3) by (cases "cg_nodes g ! j"; cases "j = i") (auto simp: n nth_append rename_node_def)
      from homedD [OF h j(1) c0(1) j(2)] obtain e where e: "e \<in> set comps" "comp_imports c0 = comp_imports e"
        "hm_get (?key built e) (cg_node_map g) = Some j" by blast
      show ?thesis
      proof (cases "e = d")
        case True
        then have "j = i" using e(3) d(2) i by simp
        then show ?thesis using True e c0 inner False by (auto simp: lookup_name_def)
      next
        case neq: False
        then have ne: "comp_name e \<noteq> comp_name d" using valid_same_name [OF v e(1) d(1)] by blast
        have "?key built e \<noteq> comp_name d"
          using ne internal_name_neq [OF vd(1) [OF d(1)], symmetric] by (simp add: lookup_name_def)
        moreover have "?key built e \<noteq> internal_name (comp_name d) k" for k
          using ne internal_name_neq [OF vd(1) [OF e(1)]] internal_name_inject [OF vd(2) [OF e(1)] vd(2) [OF d(1)]]
          by (simp add: lookup_name_def)
        ultimately have "hm_get (?key built e) (cg_node_map g') = Some j"
          using chain_frame(1) [OF b inv, of "?key built e"] e(3) by metis
        moreover have "?key (insert (comp_name d) built) e = ?key built e" using ne by simp
        ultimately show ?thesis using e(1,2) c0(2) by (intro bexI [of _ e]) simp_all
      qed
    qed
    show ?thesis unfolding homed_def
    proof (intro allI impI)
      fix j c assume j: "j < length (cg_nodes g')" "cg_nodes g' ! j = NComponent c"
      show "j \<in> set cl' \<or> (\<exists>e \<in> set comps. comp_imports c = comp_imports e \<and>
          hm_get (?key (insert (comp_name d) built) e) (cg_node_map g') = Some j)"
      proof (cases "j < ?n")
        case True
        with home [OF True _ j(2)] c' show ?thesis by blast
      next
        case False
        then show ?thesis using j(1) c' by (auto simp: n)
      qed
    qed
  qed
qed

lemma homed_chains:
  assumes "fold_res (build_chain comps) (g, cl) ds = Inr (g', cl')" and "graph_inv caps g"
    and "valid_definitions comps caps" and "set ds \<subseteq> set comps"
    and "distinct (map comp_name ds)" and "built \<inter> comp_name ` set ds = {}"
    and "homed comps built g cl"
  shows "homed comps (built \<union> comp_name ` set ds) g' cl'"
  using assms
proof (induction ds arbitrary: g cl built)
  case (Cons d ds)
  from Cons.prems(1) obtain g1 cl1 where s: "build_chain comps (g, cl) d = Inr (g1, cl1)"
    "fold_res (build_chain comps) (g1, cl1) ds = Inr (g', cl')"
    unfolding fold_res_Cons_iff by (metis surj_pair)
  have d: "d \<in> set comps" "comp_name d \<notin> built" using Cons.prems by auto
  have i1: "graph_inv caps g1"
    by (rule build_chain_inv(1) [OF s(1) Cons.prems(2)]) (use valid_definitionsD(3) [OF Cons.prems(3) d(1)] in simp)
  have "homed comps (insert (comp_name d) built \<union> comp_name ` set ds) g' cl'"
    by (rule Cons.IH [OF s(2) i1 Cons.prems(3) _ _ _
          homed_build_chain [OF s(1) Cons.prems(2,3) d Cons.prems(7)]]) (use Cons.prems in auto)
  then show ?case by simp
qed simp

lemma homed_start:
  assumes "distinct (map comp_name comps)"
  shows "homed comps {} (add_components comps comps (add_capabilities caps empty_graph)) []"
proof -
  let ?ok = "\<lambda>g. \<forall>j < length (cg_nodes g). \<forall>c. cg_nodes g ! j = NComponent c \<longrightarrow>
      c \<in> set comps \<and> hm_get (comp_name c) (cg_node_map g) = Some j"
  have caps: "\<forall>c. NComponent c \<notin> set (cg_nodes (add_capabilities cs g))"
    if "\<forall>c. NComponent c \<notin> set (cg_nodes g)" for cs g
    using that by (induction cs arbitrary: g) (auto simp: add_capabilities_def add_named_node_def)
  have "?ok (add_components comps ds g)"
    if "?ok g" "set ds \<subseteq> set comps" "distinct (map comp_name ds)"
      "\<forall>d \<in> set ds. \<forall>c. NComponent c \<in> set (cg_nodes g) \<longrightarrow> comp_name c \<noteq> comp_name d" for ds g
    using that
  proof (induction ds arbitrary: g)
    case (Cons d ds)
    let ?g1 = "if is_template_only comps d then g else add_named_node (comp_name d) (NComponent d) g"
    have "?ok ?g1"
    proof (cases "is_template_only comps d")
      case False
      show ?thesis
      proof (intro allI impI)
        fix j c assume j: "j < length (cg_nodes ?g1)" "cg_nodes ?g1 ! j = NComponent c"
        show "c \<in> set comps \<and> hm_get (comp_name c) (cg_node_map ?g1) = Some j"
        proof (cases "j < length (cg_nodes g)")
          case True
          then have jg: "cg_nodes g ! j = NComponent c" using j False by (simp add: add_named_node_def nth_append)
          then have "NComponent c \<in> set (cg_nodes g)" using True by (metis nth_mem)
          then have "comp_name c \<noteq> comp_name d" using Cons.prems(4) by simp
          then show ?thesis using Cons.prems(1) True jg False by (simp add: add_named_node_def)
        next
          case False2: False
          then show ?thesis using j False Cons.prems(2) by (auto simp: add_named_node_def nth_append)
        qed
      qed
    qed (use Cons.prems(1) in simp)
    moreover have "\<forall>d' \<in> set ds. \<forall>c. NComponent c \<in> set (cg_nodes ?g1) \<longrightarrow> comp_name c \<noteq> comp_name d'"
      using Cons.prems(3,4) by (auto simp: add_named_node_def)
    ultimately have "?ok (add_components comps ds ?g1)"
      using Cons.IH [of ?g1] Cons.prems(2,3) by simp
    then show ?case by (simp add: add_components_def)
  qed (simp add: add_components_def)
  note step = this [of "add_capabilities caps empty_graph" comps]
  have none: "\<forall>c. NComponent c \<notin> set (cg_nodes (add_capabilities caps empty_graph))"
    by (rule caps) (simp add: empty_graph_def)
  have "?ok (add_components comps comps (add_capabilities caps empty_graph))"
  proof (rule step)
    show "?ok (add_capabilities caps empty_graph)" using none by (metis nth_mem)
  qed (use assms none in simp_all)
  then show ?thesis unfolding homed_def by fastforce
qed

lemma assembled_imports_linked:
  assumes v: "valid_definitions comps caps" and g: "assemble_graph comps caps = Inr g"
    and j: "j < length (cg_nodes g)" "cg_nodes g ! j = NComponent c"
    and n: "n \<in> set (comp_imports c)" "get_node_index n g = Some i"
  shows "linked g i j"
  using g
proof (rule assemble_steps)
  fix g0 cl
  assume f: "fold_res (build_chain comps)
      (add_components comps comps (add_capabilities caps empty_graph), []) comps = Inr (g0, cl)"
    and g': "g = add_clone_dependencies cl (add_dependencies comps g0)"
  note vd = valid_definitionsD [OF v]
  have i0: "graph_inv caps g0 \<and> imports_from comps g0 \<and> (\<forall>i \<in> set cl. i < length (cg_nodes g0))"
    by (rule chains_inv [OF f graph_inv_start start_imports]) (use vd(3) in auto)
  have "homed comps ({} \<union> comp_name ` set comps) g0 cl"
    by (rule homed_chains [OF f graph_inv_start v _ vd(4) _ homed_start [OF vd(4)]]) auto
  then have h: "homed comps (comp_name ` set comps) g0 cl" by simp
  let ?g1 = "add_dependencies comps g0"
  have s1: "cg_nodes ?g1 = cg_nodes g0" "cg_node_map ?g1 = cg_node_map g0" "graph_inv caps ?g1"
    using add_dependencies_inv i0 by blast+
  have s: "cg_nodes g = cg_nodes g0" "cg_node_map g = cg_node_map g0"
    using add_clone_dependencies_inv [of caps ?g1 cl] s1 i0 by (simp_all add: g')
  have n': "hm_get n (cg_node_map g0) = Some i" using n(2) s by (simp add: get_node_index_def)
  show ?thesis
  proof (cases "j \<in> set cl")
    case True
    show ?thesis unfolding g'
      by (rule add_clone_dependencies_links [OF True _ n(1)]) (use j n' s s1 in simp_all)
  next
    case False
    obtain d where d: "d \<in> set comps" "comp_imports c = comp_imports d"
      "hm_get (lookup_name d) (cg_node_map g0) = Some j"
      using homedD [OF h _ _ False, of c] j s by auto
    show ?thesis unfolding g'
      by (intro add_clone_dependencies_linked add_dependencies_links [OF d(1,3) _ n']) (use n(1) d(2) in simp)
  qed
qed

lemma assembled_component_node:
  assumes v: "valid_definitions comps caps" and g: "assemble_graph comps caps = Inr g"
    and d: "d \<in> set comps" "\<not> is_template_only comps d"
  shows "\<exists>j. get_node_index (lookup_name d) g = Some j \<and> j < length (cg_nodes g) \<and>
           cg_nodes g ! j = NComponent (d \<lparr> comp_name := lookup_name d \<rparr>)"
proof (cases "comp_interceptors d = []")
  case False
  with assembled_chain [OF v g d(1)] show ?thesis
    by (auto simp: chain_in_def get_node_index_def lookup_name_def)
next
  case True
  note vd = valid_definitionsD [OF v]
  let ?start = "add_components comps comps (add_capabilities caps empty_graph)"
  from g show ?thesis
  proof (rule assemble_steps)
    fix g0 cl
    assume f: "fold_res (build_chain comps) (?start, []) comps = Inr (g0, cl)"
      and g': "g = add_clone_dependencies cl (add_dependencies comps g0)"
    have i0: "graph_inv caps g0 \<and> imports_from comps g0 \<and> (\<forall>i \<in> set cl. i < length (cg_nodes g0))"
      by (rule chains_inv [OF f graph_inv_start start_imports]) (use vd(3) in auto)
    from d(1) obtain pre post where c: "comps = pre @ d # post" by (meson split_list)
    have names: "comp_name d \<notin> comp_name ` set pre" "comp_name d \<notin> comp_name ` set post"
      using vd(4) by (auto simp: c)
    from f obtain st1 where "fold_res (build_chain comps) (?start, []) pre = Inr st1"
      "fold_res (build_chain comps) st1 (d # post) = Inr (g0, cl)"
      by (subst (asm) (2) c) (auto simp only: fold_res_append attempt_Inr_iff)
    moreover obtain g1 cl1 where "st1 = (g1, cl1)" by force
    ultimately have f1: "fold_res (build_chain comps) (?start, []) pre = Inr (g1, cl1)"
      and "fold_res (build_chain comps) (g1, cl1) (d # post) = Inr (g0, cl)" by simp_all
    moreover have "build_chain comps (g1, cl1) d = Inr (g1, cl1)" using True by (simp add: build_chain_def)
    ultimately have f2: "fold_res (build_chain comps) (g1, cl1) post = Inr (g0, cl)"
      unfolding fold_res_Cons_iff by auto
    from add_components_entry [OF vd(4) d] obtain i where
      i: "hm_get (comp_name d) (cg_node_map ?start) = Some i" "cg_nodes ?start ! i = NComponent d" by blast
    have b1: "hm_get (comp_name d) (cg_node_map g1) = Some i \<and> graph_inv caps g1 \<and> cg_nodes g1 ! i = NComponent d"
      using chains_before [OF f1 graph_inv_start v d(1) _ names(1)] i c by auto
    have b2: "hm_get (comp_name d) (cg_node_map g0) = Some i \<and> cg_nodes g0 ! i = NComponent d"
      using chains_before [OF f2 _ v d(1) _ names(2)] b1 c by auto
    have "cg_nodes g = cg_nodes g0" "cg_node_map g = cg_node_map g0"
      using add_clone_dependencies_inv [of caps "add_dependencies comps g0" cl]
        add_dependencies_inv [of caps g0 comps] i0 by (simp_all add: g')
    then show ?thesis
      using b2 graph_invD(1) [of caps g0 "comp_name d" i] i0 True by (simp add: get_node_index_def lookup_name_def)
  qed
qed

lemma graph_build_order:
  assumes "toposort_spec topo" and "graph_build topo comps caps = Inr g"
  obtains order where "assemble_graph comps caps = Inr g" "get_build_order topo g = Some order"
    "distinct order" "set order = {..<length (cg_nodes g)}"
    "\<And>a b. linked g a b \<Longrightarrow> precedes order a b"
proof -
  from assms(2) obtain g' where g': "assemble_graph comps caps = Inr g'"
    "(case topo (cg_nodes g') (cg_edges g') of
        Inl cycle_node \<Rightarrow> Inl (CircularDependency (node_name (cg_nodes g' ! cycle_node)))
      | Inr _ \<Rightarrow> Inr g') = Inr g"
    unfolding graph_build_def attempt_Inr_iff by blast
  then obtain order where o: "topo (cg_nodes g) (cg_edges g) = Inr order" and g: "assemble_graph comps caps = Inr g"
    by (cases "topo (cg_nodes g') (cg_edges g')") auto
  with assms(1) have s: "distinct order" "set order = {..<length (cg_nodes g)}"
    "list_all (\<lambda>(a, b, w). precedes order a b) (cg_edges g)"
    unfolding toposort_spec_def by blast+
  have "precedes order a b" if "linked g a b" for a b
    using s(3) that by (auto simp: linked_def list_all_iff)
  with that g o s(1,2) show ?thesis by (simp add: get_build_order_def)
qed

text \<open>
  C6. A graph that is built has a build order that follows the definitions: every node appears
  once in it. Every component that is not only an interceptor template has its node, under its
  own name or, when it has interceptors, under its internal one. The node of a component, and of
  every clone of an interceptor, comes after the node that each name of its imports leads to in
  the node map (the outermost interceptor when the imported component is intercepted), and none
  leads to itself. Along an interceptor chain what is wrapped comes before what wraps it.
\<close>

theorem build_order_respects_dependencies:
  assumes "toposort_spec topo" and "valid_definitions comps caps" and "graph_build topo comps caps = Inr g"
  shows "\<exists>order. get_build_order topo g = Some order \<and> distinct order \<and>
           set order = {..<length (cg_nodes g)} \<and>
           (\<forall>d \<in> set comps. \<not> is_template_only comps d \<longrightarrow>
              (\<exists>j. get_node_index (lookup_name d) g = Some j \<and>
                 cg_nodes g ! j = NComponent (d \<lparr> comp_name := lookup_name d \<rparr>) \<and>
                 (\<forall>n \<in> set (comp_imports d). \<forall>i. get_node_index n g = Some i \<longrightarrow>
                    precedes order i j \<and> i \<noteq> j))) \<and>
           (\<forall>d \<in> set comps. comp_interceptors d \<noteq> [] \<longrightarrow>
              (\<exists>path. chain_in comps d g path \<and>
                 (\<forall>k < length (comp_interceptors d). precedes order (path ! k) (path ! Suc k)))) \<and>
           (\<forall>j < length (cg_nodes g). \<forall>c n i. cg_nodes g ! j = NComponent c \<longrightarrow>
              n \<in> set (comp_imports c) \<longrightarrow> get_node_index n g = Some i \<longrightarrow> precedes order i j \<and> i \<noteq> j)"
  using assms(1,3)
proof (rule graph_build_order)
  fix order
  assume g: "assemble_graph comps caps = Inr g" and o: "get_build_order topo g = Some order"
    and s: "distinct order" "set order = {..<length (cg_nodes g)}"
    and prec: "\<And>a b. linked g a b \<Longrightarrow> precedes order a b"
  have imps: "precedes order i j \<and> i \<noteq> j"
    if "j < length (cg_nodes g)" "cg_nodes g ! j = NComponent c" "n \<in> set (comp_imports c)"
      "get_node_index n g = Some i" for j c n i
    using prec [OF assembled_imports_linked [OF assms(2) g that]] precedes_irrefl [OF s(1)] by auto
  have nodes: "\<exists>j. get_node_index (lookup_name d) g = Some j \<and>
      cg_nodes g ! j = NComponent (d \<lparr> comp_name := lookup_name d \<rparr>) \<and>
      (\<forall>n \<in> set (comp_imports d). \<forall>i. get_node_index n g = Some i \<longrightarrow> precedes order i j \<and> i \<noteq> j)"
    if d: "d \<in> set comps" "\<not> is_template_only comps d" for d
  proof -
    obtain j where j: "get_node_index (lookup_name d) g = Some j" "j < length (cg_nodes g)"
      "cg_nodes g ! j = NComponent (d \<lparr> comp_name := lookup_name d \<rparr>)"
      using assembled_component_node [OF assms(2) g d] by blast
    with imps [OF j(2,3)] show ?thesis by (intro exI [of _ j]) simp
  qed
  have chains: "\<exists>path. chain_in comps d g path \<and>
      (\<forall>k < length (comp_interceptors d). precedes order (path ! k) (path ! Suc k))"
    if d: "d \<in> set comps" "comp_interceptors d \<noteq> []" for d
  proof -
    obtain path where p: "chain_in comps d g path" using assembled_chain [OF assms(2) g d] by blast
    then have "precedes order (path ! k) (path ! Suc k)" if "k < length (comp_interceptors d)" for k
      using that unfolding chain_in_def by (blast intro: prec linkedI)
    with p show ?thesis by blast
  qed
  show ?thesis
  proof (intro exI [of _ order] conjI)
    show "get_build_order topo g = Some order" by (rule o)
    show "distinct order" "set order = {..<length (cg_nodes g)}" by (rule s)+
  qed (use nodes in blast, use chains in blast, use imps in blast)
qed

subsection \<open>Concrete graphs\<close>

text \<open>A client with two interceptors over a capability, and a topological sort that accepts
  exactly the graphs whose nodes are already listed in order.\<close>

definition plain_component :: "string \<Rightarrow> string list \<Rightarrow> string list \<Rightarrow> component_definition" where
  "plain_component name imps ints =
     \<lparr> comp_name = name, comp_uri = name @ ''.wasm'', comp_scope = ''any'', comp_imports = imps,
       comp_interceptors = ints, comp_config = [], comp_labels = [] \<rparr>"

definition sample_components :: "component_definition list" where
  "sample_components =
     [plain_component ''client'' [''kv''] [''auth'', ''log''], plain_component ''auth'' [] [],
      plain_component ''log'' [''kv''] []]"

definition sample_capabilities :: "capability_definition list" where
  "sample_capabilities =
     [\<lparr> cap_name = ''kv'', cap_kind = ''memory'', cap_scope = ''any'', cap_properties = [] \<rparr>]"

definition listed_order :: "node list \<Rightarrow> (nat \<times> nat \<times> edge) list \<Rightarrow> nat + nat list" where
  "listed_order nodes edges =
     (if list_all (\<lambda>(a, b, w). a < b \<and> b < length nodes) edges then Inr [0..<length nodes] else Inl 0)"

lemma listed_order_spec: "toposort_spec listed_order"
proof -
  have "precedes [0..<n] a b" if "a < b" "b < n" for a b n
  proof -
    have "[0..<n] = [0..<a] @ a # [Suc a..<b] @ b # [Suc b..<n]"
      using that by (metis upt_add_eq_append upt_conv_Cons le0 less_imp_le_nat le_add_diff_inverse
          less_trans Suc_leI)
    then show ?thesis unfolding precedes_def by blast
  qed
  then show ?thesis
    by (auto simp: toposort_spec_def listed_order_def list_all_iff split: if_splits)
qed

definition sample_graph :: component_graph where
  "sample_graph = (case assemble_graph sample_components sample_capabilities of
     Inr g \<Rightarrow> g | Inl e \<Rightarrow> empty_graph)"

lemma sample_valid: "valid_definitions sample_components sample_capabilities"
  by (simp add: valid_definitions_def sample_components_def sample_capabilities_def
      plain_component_def starts_with_def)

lemma sample_assembled: "assemble_graph sample_components sample_capabilities = Inr sample_graph"
proof -
  have "is_ok (assemble_graph sample_components sample_capabilities)"
    by code_simp
  then show ?thesis by (auto simp: is_ok_iff sample_graph_def)
qed

lemma assemble_graph_consistent_witness:
  "\<exists>i. get_node_index ''client'' sample_graph = Some i \<and> i < length (cg_nodes sample_graph) \<and>
     node_name (cg_nodes sample_graph ! i) = ''client''"
proof -
  have "get_node_index ''client'' sample_graph \<noteq> None" by code_simp
  with assemble_graph_consistent [OF sample_valid sample_assembled, of "''client''"] show ?thesis by auto
qed

lemma interceptor_chain_built_witness:
  "\<exists>path. chain_in sample_components (plain_component ''client'' [''kv''] [''auth'', ''log''])
     sample_graph path"
  by (rule interceptor_chain_built [OF sample_valid sample_assembled])
    (simp_all add: sample_components_def plain_component_def)

lemma intercepted_template_not_assembled_witness:
  "\<exists>e. assemble_graph
     [plain_component ''a'' [] [''b''], plain_component ''b'' [] [''c''], plain_component ''c'' [] []] [] =
     Inl e"
  by (rule intercepted_template_not_assembled [where d = "plain_component ''b'' [] [''c'']"])
    (simp_all add: valid_definitions_def plain_component_def is_template_only_def starts_with_def)

lemma build_order_respects_dependencies_witness:
  "\<exists>order j. get_build_order listed_order sample_graph = Some order \<and>
     get_node_index ''kv'' sample_graph = Some 0 \<and>
     get_node_index (internal_name ''client'' 0) sample_graph = Some j \<and> precedes order 0 j"
proof -
  let ?client = "plain_component ''client'' [''kv''] [''auth'', ''log'']"
  have "is_ok (listed_order (cg_nodes sample_graph) (cg_edges sample_graph))"
    by code_simp
  then have "graph_build listed_order sample_components sample_capabilities = Inr sample_graph"
    by (auto simp: is_ok_iff graph_build_def sample_assembled)
  note w = build_order_respects_dependencies [OF listed_order_spec sample_valid this]
  have c: "?client \<in> set sample_components" "\<not> is_template_only sample_components ?client"
    "lookup_name ?client = internal_name ''client'' 0" "''kv'' \<in> set (comp_imports ?client)"
    by (simp_all add: sample_components_def plain_component_def is_template_only_def lookup_name_def)
  have kv: "get_node_index ''kv'' sample_graph = Some 0" by code_simp
  from w c kv show ?thesis by (metis (no_types, lifting))
qed

end
