(* ===== verification/Registry.thy ===== *)
theory Registry
  imports Graph
begin

section \<open>Composition and registries (\<open>src/composition/composer.rs\<close>, \<open>src/composition/registry.rs\<close>)\<close>

text \<open>
  Flattening of a component's configuration, the interfaces of the WASI capabilities, semantic
  version matching of imports, the processing of one component over its dependencies, and the
  construction of the component and capability registries in build order. Component binaries
  are values of a type \<open>'b\<close>; decoding, plugging and pulling them (wit-parser, wac, static-config,
  the interceptor generator's entry point, OCI and the file system) are the fields of
  \<open>wasm_tools\<close>. Host capabilities are values of a type \<open>'c\<close> made by the registered factories.
\<close>

datatype registry_error =
    ToolFailed string
  | NestedObjectInConfig
  | NullInConfig
  | CannotImportCapability string string string
  | CannotImportComponent string string string
  | ComponentMissing string
  | UnknownCapabilityType string
  | CapabilityNotRegistered string
  | CapabilityCreationFailed string string registry_error
  | NotAComponentNode
  | UnsatisfiedImports string "string list"
  | NoBuildOrder

record package_metadata =
  pm_namespace :: "string option"
  pm_name :: "string option"

record 'b wasm_tools =
  wt_pull_oci :: "string \<Rightarrow> registry_error + 'b"
  wt_read_file :: "string \<Rightarrow> registry_error + 'b"
  wt_parse :: "'b \<Rightarrow> registry_error + package_metadata \<times> string list \<times> string list \<times> function_spec hmap"
  wt_plug :: "'b \<Rightarrow> 'b \<Rightarrow> registry_error + 'b"
  wt_static_config :: "(string \<times> string) list \<Rightarrow> registry_error + 'b"
  wt_wrapper :: "'b \<Rightarrow> registry_error + 'b"

subsection \<open>The composer\<close>

fun convert_json_value_to_string ::
  "(64 word \<Rightarrow> string) \<Rightarrow> json \<Rightarrow> registry_error + string" where
  "convert_json_value_to_string sf (JString s) = Inr s"
| "convert_json_value_to_string sf (JNumber n) = Inr (show_number sf n)"
| "convert_json_value_to_string sf (JBool b) = Inr (bool_string b)"
| "convert_json_value_to_string sf (JArray arr) =
     attempt (collect_res (map (convert_json_value_to_string sf) arr)) (\<lambda>items. Inr (str_join '','' items))"
| "convert_json_value_to_string sf (JObject m) = Inl NestedObjectInConfig"
| "convert_json_value_to_string sf JNull = Inl NullInConfig"

fun flatten_config ::
  "(64 word \<Rightarrow> string) \<Rightarrow> string \<Rightarrow> json \<Rightarrow> (string \<times> string) list \<Rightarrow> registry_error + (string \<times> string) list" where
  "flatten_config sf prefix (JObject m) out =
     fold_res (\<lambda>out kv. flatten_config sf (prefix @ ''.'' @ fst kv) (snd kv) out) out m"
| "flatten_config sf prefix v out =
     attempt (convert_json_value_to_string sf v) (\<lambda>s. Inr (out @ [(prefix, s)]))"

definition create_config_component ::
  "(64 word \<Rightarrow> string) \<Rightarrow> 'b wasm_tools \<Rightarrow> json hmap \<Rightarrow> registry_error + 'b" where
  "create_config_component sf tools config =
     attempt (fold_res (\<lambda>out kv. flatten_config sf (fst kv) (snd kv) out) [] config)
       (wt_static_config tools)"

definition compose_components :: "'b wasm_tools \<Rightarrow> 'b \<Rightarrow> 'b \<Rightarrow> registry_error + 'b" where
  "compose_components tools socket plug = wt_plug tools socket plug"

definition compose_with_config ::
  "(64 word \<Rightarrow> string) \<Rightarrow> 'b wasm_tools \<Rightarrow> 'b \<Rightarrow> json hmap \<Rightarrow> registry_error + 'b" where
  "compose_with_config sf tools bytes config =
     attempt (create_config_component sf tools config) (compose_components tools bytes)"

subsection \<open>WASI capabilities\<close>

datatype wasi_version = P2 | P3

definition split_wasi_kind :: "string \<Rightarrow> string \<times> wasi_version" where
  "split_wasi_kind kind =
     (case strip_suffix kind ''-p2'' of
        Some base \<Rightarrow> (base, P2)
      | None \<Rightarrow>
          (case strip_suffix kind ''-p3'' of
             Some base \<Rightarrow> (base, P3)
           | None \<Rightarrow> (kind, P3)))"

definition wasi_p2_bundle :: "string list" where
  "wasi_p2_bundle =
     [''wasi:cli/environment@0.2.12'',
      ''wasi:cli/exit@0.2.12'',
      ''wasi:cli/stderr@0.2.12'',
      ''wasi:cli/stdin@0.2.12'',
      ''wasi:cli/stdout@0.2.12'',
      ''wasi:cli/terminal-input@0.2.12'',
      ''wasi:cli/terminal-output@0.2.12'',
      ''wasi:cli/terminal-stdin@0.2.12'',
      ''wasi:cli/terminal-stdout@0.2.12'',
      ''wasi:cli/terminal-stderr@0.2.12'',
      ''wasi:clocks/monotonic-clock@0.2.12'',
      ''wasi:clocks/wall-clock@0.2.12'',
      ''wasi:filesystem/preopens@0.2.12'',
      ''wasi:filesystem/types@0.2.12'',
      ''wasi:io/error@0.2.12'',
      ''wasi:io/poll@0.2.12'',
      ''wasi:io/streams@0.2.12'',
      ''wasi:random/random@0.2.12'',
      ''wasi:random/insecure@0.2.12'',
      ''wasi:random/insecure-seed@0.2.12'',
      ''wasi:sockets/tcp@0.2.12'',
      ''wasi:sockets/udp@0.2.12'',
      ''wasi:sockets/network@0.2.12'',
      ''wasi:sockets/instance-network@0.2.12'',
      ''wasi:sockets/ip-name-lookup@0.2.12'',
      ''wasi:sockets/tcp-create-socket@0.2.12'',
      ''wasi:sockets/udp-create-socket@0.2.12'']"

definition get_interfaces_for_capability :: "string \<Rightarrow> string list" where
  "get_interfaces_for_capability kind =
    (if kind = ''wasi:p2'' then wasi_p2_bundle
     else
       (let (base, version) = split_wasi_kind kind in
        if base = ''wasi:cli'' \<and> version = P3 then
     [''wasi:cli/environment@0.3.0'',
      ''wasi:cli/exit@0.3.0'',
      ''wasi:cli/stdin@0.3.0'',
      ''wasi:cli/stdout@0.3.0'',
      ''wasi:cli/stderr@0.3.0'',
      ''wasi:cli/terminal-input@0.3.0'',
      ''wasi:cli/terminal-output@0.3.0'',
      ''wasi:cli/terminal-stdin@0.3.0'',
      ''wasi:cli/terminal-stdout@0.3.0'',
      ''wasi:cli/terminal-stderr@0.3.0'',
      ''wasi:cli/types@0.3.0'']
        else if base = ''wasi:cli'' \<and> version = P2 then
     [''wasi:cli/stdin@0.2.12'',
      ''wasi:cli/stdout@0.2.12'',
      ''wasi:cli/stderr@0.2.12'',
      ''wasi:cli/environment@0.2.12'']
        else if base = ''wasi:clocks'' \<and> version = P3 then
     [''wasi:clocks/monotonic-clock@0.3.0'',
      ''wasi:clocks/system-clock@0.3.0'',
      ''wasi:clocks/timezone@0.3.0'',
      ''wasi:clocks/types@0.3.0'']
        else if base = ''wasi:clocks'' \<and> version = P2 then
     [''wasi:clocks/monotonic-clock@0.2.12'',
      ''wasi:clocks/wall-clock@0.2.12'']
        else if base = ''wasi:filesystem'' \<and> version = P3 then
     [''wasi:filesystem/preopens@0.3.0'',
      ''wasi:filesystem/types@0.3.0'']
        else if base = ''wasi:filesystem'' \<and> version = P2 then
     [''wasi:filesystem/preopens@0.2.12'',
      ''wasi:filesystem/types@0.2.12'',
      ''wasi:io/error@0.2.12'',
      ''wasi:io/poll@0.2.12'',
      ''wasi:io/streams@0.2.12'']
        else if base = ''wasi:http'' \<and> version = P3 then
     [''wasi:http/client@0.3.0'',
      ''wasi:http/types@0.3.0'']
        else if base = ''wasi:http'' \<and> version = P2 then
     [''wasi:http/outgoing-handler@0.2.12'',
      ''wasi:http/types@0.2.12'',
      ''wasi:io/error@0.2.12'',
      ''wasi:io/poll@0.2.12'',
      ''wasi:io/streams@0.2.12'']
        else if base = ''wasi:io'' \<and> version = P2 then
     [''wasi:io/error@0.2.12'',
      ''wasi:io/poll@0.2.12'',
      ''wasi:io/streams@0.2.12'']
        else if base = ''wasi:random'' \<and> version = P3 then
     [''wasi:random/random@0.3.0'',
      ''wasi:random/insecure@0.3.0'',
      ''wasi:random/insecure-seed@0.3.0'']
        else if base = ''wasi:random'' \<and> version = P2 then
     [''wasi:random/random@0.2.12'',
      ''wasi:random/insecure@0.2.12'',
      ''wasi:random/insecure-seed@0.2.12'']
        else if base = ''wasi:sockets'' \<and> version = P3 then
     [''wasi:sockets/types@0.3.0'',
      ''wasi:sockets/ip-name-lookup@0.3.0'']
        else if base = ''wasi:sockets'' \<and> version = P2 then
     [''wasi:sockets/tcp@0.2.12'',
      ''wasi:sockets/udp@0.2.12'',
      ''wasi:sockets/network@0.2.12'',
      ''wasi:sockets/instance-network@0.2.12'',
      ''wasi:sockets/ip-name-lookup@0.2.12'',
      ''wasi:sockets/tcp-create-socket@0.2.12'',
      ''wasi:sockets/udp-create-socket@0.2.12'']
        else []))"

subsection \<open>Import matching\<close>

definition parse_semver :: "string \<Rightarrow> (nat \<times> nat \<times> nat) option" where
  "parse_semver version =
     (let parts = str_split version CHR ''.'' in
      if length parts = 3 then
        (case (parse_unsigned (2 ^ 32) (parts ! 0), parse_unsigned (2 ^ 32) (parts ! 1),
               parse_unsigned (2 ^ 32) (parts ! 2)) of
           (Some major, Some minor, Some patch) \<Rightarrow> Some (major, minor, patch)
         | _ \<Rightarrow> None)
      else None)"

definition semver_satisfies :: "nat \<times> nat \<times> nat \<Rightarrow> nat \<times> nat \<times> nat \<Rightarrow> bool" where
  "semver_satisfies requested available =
     (fst available = fst requested \<and> fst (snd available) = fst (snd requested) \<and>
      snd (snd requested) \<le> snd (snd available))"

definition is_import_satisfied :: "string \<Rightarrow> string list \<Rightarrow> bool" where
  "is_import_satisfied imported capability_interfaces =
     (if imported \<in> set capability_interfaces then True
      else
        (case rsplit_once imported ''@'' of
           None \<Rightarrow> False
         | Some (interface_name, requested_version) \<Rightarrow>
             (case parse_semver requested_version of
                None \<Rightarrow> False
              | Some requested \<Rightarrow>
                  list_ex (\<lambda>available.
                    case rsplit_once available ''@'' of
                      None \<Rightarrow> False
                    | Some (available_name, available_version) \<Rightarrow>
                        interface_name = available_name \<and>
                        is_some_and (parse_semver available_version) (semver_satisfies requested))
                    capability_interfaces)))"

subsection \<open>Registries\<close>

record 'c capability =
  ca_kind :: string
  ca_scope :: string
  ca_interfaces :: "string list"
  ca_properties :: "json hmap"
  ca_instance :: "'c option"

record 'b component_spec =
  sp_name :: string
  sp_namespace :: "string option"
  sp_package :: "string option"
  sp_labels :: "string hmap"
  sp_bytes :: 'b
  sp_imports :: "string list"
  sp_exports :: "string list"
  sp_capabilities :: "string list"
  sp_dependents :: "string list"
  sp_functions :: "function_spec hmap"

type_synonym 'c capability_registry = "('c capability) hmap"
type_synonym 'b component_registry = "('b component_spec) hmap"

text \<open>A host capability: its interfaces, and the factories that make one from its configuration.\<close>

record 'c host_capabilities =
  hc_interfaces :: "'c \<Rightarrow> string list"
  hc_factories :: "(json \<Rightarrow> registry_error + 'c) hmap"

definition get_capability :: "string \<Rightarrow> 'c capability_registry \<Rightarrow> 'c capability option" where
  "get_capability name reg = hm_get name reg"

definition verify_importable ::
  "capability_definition \<Rightarrow> component_definition \<Rightarrow> registry_error + unit" where
  "verify_importable candidate requester =
     guard_res (cap_scope candidate \<noteq> ''any'')
       (CannotImportCapability (comp_name requester) (cap_name candidate) (cap_scope candidate))"

definition get_components :: "'b component_registry \<Rightarrow> 'b component_spec list" where
  "get_components reg = filter (\<lambda>spec. \<not> starts_with (sp_name spec) ''_'') (map snd reg)"

definition get_component :: "string \<Rightarrow> 'b component_registry \<Rightarrow> 'b component_spec option" where
  "get_component name reg = (if starts_with name ''_'' then None else hm_get name reg)"

definition get_required_import ::
  "'b component_registry \<Rightarrow> component_definition \<Rightarrow> component_definition \<Rightarrow>
   registry_error + 'b component_spec" where
  "get_required_import reg candidate requester =
     attempt (ok_or (ComponentMissing (comp_name candidate)) (hm_get (comp_name candidate) reg)) (\<lambda>component.
       if comp_scope candidate = ''any'' then Inr component
       else Inl (CannotImportComponent (comp_name requester) (comp_name candidate) (comp_scope candidate)))"

definition create_capability ::
  "'c host_capabilities \<Rightarrow> capability_definition \<Rightarrow> registry_error + 'c capability" where
  "create_capability hosts d =
     attempt
       (if starts_with (cap_kind d) ''wasi:'' then
          (let interfaces = get_interfaces_for_capability (cap_kind d) in
           if interfaces = [] then Inl (UnknownCapabilityType (cap_kind d)) else Inr (interfaces, None))
        else
          attempt (ok_or (CapabilityNotRegistered (cap_kind d)) (hm_get (cap_kind d) (hc_factories hosts)))
            (\<lambda>factory.
             attempt (map_err (CapabilityCreationFailed (cap_kind d) (cap_name d))
                        (factory (JObject (bt_extend [] (cap_properties d))))) (\<lambda>cap.
               Inr (hc_interfaces hosts cap, Some cap))))
       (\<lambda>(interfaces, inst).
          Inr \<lparr> ca_kind = cap_kind d, ca_scope = cap_scope d, ca_interfaces = interfaces,
                ca_properties = cap_properties d, ca_instance = inst \<rparr>)"

definition create_capability_registry ::
  "'c host_capabilities \<Rightarrow> capability_definition list \<Rightarrow> registry_error + 'c capability_registry" where
  "create_capability_registry hosts defs =
     fold_res (\<lambda>reg d. attempt (create_capability hosts d) (\<lambda>c. Inr (hm_insert (cap_name d) c reg))) [] defs"

subsection \<open>Processing one component\<close>

definition is_advice_component :: "string list \<Rightarrow> bool" where
  "is_advice_component exports = list_ex (\<lambda>e. starts_with e ''modulewise:interceptor/advice'') exports"

definition read_bytes :: "'b wasm_tools \<Rightarrow> string \<Rightarrow> registry_error + 'b" where
  "read_bytes tools uri =
     (case strip_prefix uri ''oci://'' of
        Some oci_ref \<Rightarrow> wt_pull_oci tools oci_ref
      | None \<Rightarrow>
          (case strip_prefix uri ''file://'' of
             Some path \<Rightarrow> wt_read_file tools path
           | None \<Rightarrow> wt_read_file tools uri))"

text \<open>The variables of the loop over the dependencies.\<close>

record 'b linking =
  ln_bytes :: 'b
  ln_imports :: "string list"
  ln_exports :: "string list"
  ln_functions :: "function_spec hmap"
  ln_capabilities :: "string list"

definition hs_extend :: "'a list \<Rightarrow> 'a list \<Rightarrow> 'a list" where
  "hs_extend s xs = fold hs_insert xs s"

definition compose_advice ::
  "'b wasm_tools \<Rightarrow> 'b linking \<Rightarrow> 'b component_spec \<Rightarrow> registry_error + 'b linking" where
  "compose_advice tools ln spec =
     attempt (wt_wrapper tools (sp_bytes spec)) (\<lambda>wrapper_bytes.
     attempt (compose_components tools wrapper_bytes (ln_bytes ln)) (\<lambda>composed_wrapper.
     attempt (compose_components tools composed_wrapper (sp_bytes spec)) (\<lambda>bytes.
       Inr (ln \<lparr> ln_bytes := bytes, ln_imports := sp_imports spec, ln_exports := sp_exports spec,
                 ln_functions := sp_functions spec \<rparr>))))"

definition link_dependency ::
  "'b wasm_tools \<Rightarrow> component_graph \<Rightarrow> 'b component_registry \<Rightarrow> component_definition \<Rightarrow>
   'b linking \<Rightarrow> nat \<times> edge \<Rightarrow> registry_error + 'b linking" where
  "link_dependency tools graph components definition' ln dep =
     (case cg_nodes graph ! fst dep of
        NComponent dependency_def \<Rightarrow>
          attempt (get_required_import components dependency_def definition') (\<lambda>spec.
          attempt
            (if (case snd dep of Interceptor _ \<Rightarrow> True | Dependency \<Rightarrow> False) \<and>
                is_advice_component (ln_exports ln)
             then compose_advice tools ln spec
             else attempt (compose_components tools (ln_bytes ln) (sp_bytes spec)) (\<lambda>bytes.
                    Inr (ln \<lparr> ln_bytes := bytes \<rparr>)))
            (\<lambda>ln.
              Inr (ln \<lparr> ln_imports := filter (\<lambda>i. i \<notin> set (sp_exports spec)) (ln_imports ln),
                        ln_capabilities := hs_extend (ln_capabilities ln) (sp_capabilities spec) \<rparr>)))
      | NCapability capability_def \<Rightarrow>
          attempt (verify_importable capability_def definition') (\<lambda>_.
            Inr (ln \<lparr> ln_capabilities := hs_insert (cap_name capability_def) (ln_capabilities ln) \<rparr>)))"

definition capability_interfaces :: "'c capability_registry \<Rightarrow> string list \<Rightarrow> string list" where
  "capability_interfaces reg names =
     hs_from (concat (map (\<lambda>n. case get_capability n reg of
        None \<Rightarrow> [] | Some c \<Rightarrow> ca_interfaces c) names))"

definition imports_config :: "string list \<Rightarrow> bool" where
  "imports_config imps = list_ex (\<lambda>i. starts_with i ''wasi:config/store'') imps"

definition apply_config ::
  "(64 word \<Rightarrow> string) \<Rightarrow> 'b wasm_tools \<Rightarrow> component_definition \<Rightarrow> 'b \<Rightarrow> string list \<Rightarrow>
   registry_error + 'b \<times> string list" where
  "apply_config sf tools d bytes imps =
     (if imports_config imps then
        attempt (compose_with_config sf tools bytes (comp_config d)) (\<lambda>bytes.
          Inr (bytes, filter (\<lambda>i. \<not> starts_with i ''wasi:config/store'') imps))
      else Inr (bytes, imps))"

definition finish_component ::
  "'c capability_registry \<Rightarrow> component_definition \<Rightarrow> package_metadata \<Rightarrow> 'b linking \<Rightarrow>
   registry_error + 'b component_spec" where
  "finish_component capabilities d metadata ln =
     (let unsatisfied = filter (\<lambda>i. \<not> is_import_satisfied i
            (capability_interfaces capabilities (ln_capabilities ln))) (ln_imports ln)
      in if unsatisfied \<noteq> [] then Inl (UnsatisfiedImports (comp_name d) unsatisfied)
         else Inr \<lparr> sp_name = comp_name d, sp_namespace = pm_namespace metadata,
                    sp_package = pm_name metadata, sp_labels = comp_labels d,
                    sp_bytes = ln_bytes ln, sp_imports = ln_imports ln,
                    sp_exports = ln_exports ln, sp_capabilities = ln_capabilities ln,
                    sp_dependents = [], sp_functions = ln_functions ln \<rparr>)"

definition process_component ::
  "(64 word \<Rightarrow> string) \<Rightarrow> 'b wasm_tools \<Rightarrow> component_graph \<Rightarrow> 'b component_registry \<Rightarrow>
   'c capability_registry \<Rightarrow> nat \<Rightarrow> registry_error + 'b component_spec" where
  "process_component sf tools graph components capabilities node_index =
     (case cg_nodes graph ! node_index of
        NCapability _ \<Rightarrow> Inl NotAComponentNode
      | NComponent d \<Rightarrow>
          attempt (read_bytes tools (comp_uri d)) (\<lambda>bytes.
          attempt (wt_parse tools bytes) (\<lambda>(metadata, imps, exports, functions).
          attempt (apply_config sf tools d bytes imps) (\<lambda>(bytes, imps).
          attempt
            (fold_res (link_dependency tools graph components d)
               \<lparr> ln_bytes = bytes, ln_imports = imps, ln_exports = exports,
                 ln_functions = functions, ln_capabilities = [] \<rparr>
               (get_dependencies graph node_index))
            (finish_component capabilities d metadata)))))"

subsection \<open>Building the registries\<close>

definition build_step ::
  "(64 word \<Rightarrow> string) \<Rightarrow> 'b wasm_tools \<Rightarrow> component_graph \<Rightarrow> 'c capability_registry \<Rightarrow>
   'b component_registry \<Rightarrow> nat \<Rightarrow> registry_error + 'b component_registry" where
  "build_step sf tools graph capabilities built node_index =
     (case cg_nodes graph ! node_index of
        NComponent d \<Rightarrow>
          attempt (process_component sf tools graph built capabilities node_index) (\<lambda>spec.
            Inr (hm_insert (comp_name d) spec built))
      | NCapability _ \<Rightarrow> Inr built)"

definition add_dependent :: "string \<Rightarrow> string \<Rightarrow> 'b component_registry \<Rightarrow> 'b component_registry" where
  "add_dependent name dependent built =
     (case hm_get name built of
        None \<Rightarrow> built
      | Some spec \<Rightarrow> hm_insert name (spec \<lparr> sp_dependents := sp_dependents spec @ [dependent] \<rparr>) built)"

definition record_dependents ::
  "component_graph \<Rightarrow> nat \<Rightarrow> 'b component_registry \<Rightarrow> 'b component_registry" where
  "record_dependents graph node_index built =
     (case cg_nodes graph ! node_index of
        NCapability _ \<Rightarrow> built
      | NComponent d \<Rightarrow>
          fold (\<lambda>(dep_index, e) built.
            case (e, cg_nodes graph ! dep_index) of
              (Dependency, NComponent dep_def) \<Rightarrow> add_dependent (comp_name dep_def) (comp_name d) built
            | _ \<Rightarrow> built) (get_dependencies graph node_index) built)"

definition build_registries ::
  "(64 word \<Rightarrow> string) \<Rightarrow> 'b wasm_tools \<Rightarrow>
   (node list \<Rightarrow> (nat \<times> nat \<times> edge) list \<Rightarrow> nat + nat list) \<Rightarrow> 'c host_capabilities \<Rightarrow> component_graph \<Rightarrow>
   registry_error + 'b component_registry \<times> 'c capability_registry" where
  "build_registries sf tools topo hosts graph =
     (let capability_definitions =
            concat (map (\<lambda>n. case n of NCapability d \<Rightarrow> [d] | NComponent _ \<Rightarrow> []) (cg_nodes graph)) in
      attempt (create_capability_registry hosts capability_definitions) (\<lambda>capabilities.
      attempt (ok_or NoBuildOrder (get_build_order topo graph)) (\<lambda>sorted_indices.
      attempt (fold_res (build_step sf tools graph capabilities) [] sorted_indices) (\<lambda>built.
        Inr (fold (record_dependents graph) sorted_indices built, capabilities)))))"

subsection \<open>Lemmas: versions\<close>

lemma parse_semver_show:
  assumes "a < 2 ^ 32" and "b < 2 ^ 32" and "c < 2 ^ 32"
  shows "parse_semver (show_nat a @ ''.'' @ show_nat b @ ''.'' @ show_nat c) = Some (a, b, c)"
proof -
  have nd: "CHR ''.'' \<notin> set (show_nat n)" for n
    using show_nat_digits [of "CHR ''.''" n] by (auto simp: is_digit_def digit_val_def)
  have "str_split (show_nat a @ ''.'' @ show_nat b @ ''.'' @ show_nat c) CHR ''.'' =
      [show_nat a, show_nat b, show_nat c]"
    using nd by (simp add: str_split_append_char str_split_no_occurrence)
  with assms show ?thesis by (simp add: parse_semver_def numeral_3_eq_3)
qed

text \<open>
  An import of version \<open>a.b.c\<close> is satisfied by exactly those provided versions of the same
  interface that share the major and the minor number and are not older in the patch number.
\<close>

theorem import_version_matching:
  assumes "a < 2 ^ 32" and "b < 2 ^ 32" and "c < 2 ^ 32"
    and "a' < 2 ^ 32" and "b' < 2 ^ 32" and "c' < 2 ^ 32"
  shows "is_import_satisfied (name @ ''@'' @ show_nat a @ ''.'' @ show_nat b @ ''.'' @ show_nat c)
           [name @ ''@'' @ show_nat a' @ ''.'' @ show_nat b' @ ''.'' @ show_nat c'] \<longleftrightarrow>
         a' = a \<and> b' = b \<and> c \<le> c'"
proof -
  let ?v = "\<lambda>a b c. show_nat a @ ''.'' @ show_nat b @ ''.'' @ show_nat c"
  have nd: "CHR ''@'' \<notin> set (show_nat n)" for n
    using show_nat_digits [of "CHR ''@''" n] by (auto simp: is_digit_def digit_val_def)
  have sp: "rsplit_once (name @ ''@'' @ ?v a b c) ''@'' = Some (name, ?v a b c)" for a b c
    using rsplit_once_char [of "CHR ''@''" "?v a b c" name] nd by simp
  have v: "parse_semver (?v a b c) = Some (a, b, c)" "parse_semver (?v a' b' c') = Some (a', b', c')"
    using parse_semver_show assms by blast+
  have eq: "?v a b c = ?v a' b' c' \<longleftrightarrow> a = a' \<and> b = b' \<and> c = c'"
    using v by (metis option.inject prod.inject)
  show ?thesis
    using sp [of a b c] sp [of a' b' c'] v eq
    by (auto simp: is_import_satisfied_def semver_satisfies_def)
qed

lemma import_version_matching_witness:
  "is_import_satisfied ''wasi:http/types@0.2.3'' [''wasi:http/types@0.2.12''] \<longleftrightarrow>
     (0::nat) = 0 \<and> (2::nat) = 2 \<and> (3::nat) \<le> 12"
proof -
  have "show_nat 0 = ''0''" "show_nat 2 = ''2''" "show_nat 3 = ''3''" "show_nat 12 = ''12''"
    by code_simp+
  with import_version_matching [of 0 2 3 0 2 12 "''wasi:http/types''"] show ?thesis by simp
qed

subsection \<open>Lemmas: components\<close>

fun node_scope :: "node \<Rightarrow> string" where
  "node_scope (NComponent d) = comp_scope d"
| "node_scope (NCapability d) = cap_scope d"

lemma link_dependency_scope:
  "link_dependency tools graph comps d ln dep = Inr ln' \<Longrightarrow> node_scope (cg_nodes graph ! fst dep) = ''any''"
  by (cases "cg_nodes graph ! fst dep")
    (auto simp: link_dependency_def attempt_Inr_iff get_required_import_def verify_importable_def
      guard_res_Inr_iff split: if_splits)

lemma process_component_steps:
  assumes "process_component sf tools graph comps caps i = Inr spec"
  obtains d ln0 ln where "cg_nodes graph ! i = NComponent d"
    and "fold_res (link_dependency tools graph comps d) ln0 (get_dependencies graph i) = Inr ln"
    and "filter (\<lambda>i. \<not> is_import_satisfied i (capability_interfaces caps (ln_capabilities ln))) (ln_imports ln) = []"
    and "sp_name spec = comp_name d" and "sp_imports spec = ln_imports ln"
    and "sp_capabilities spec = ln_capabilities ln" and "sp_dependents spec = []"
proof (cases "cg_nodes graph ! i")
  case (NComponent d)
  with assms obtain bytes parsed where p: "wt_parse tools bytes = Inr parsed"
    and r: "(case parsed of (metadata, imps, exports, functions) \<Rightarrow>
          attempt (apply_config sf tools d bytes imps) (\<lambda>(bytes, imps).
          attempt
            (fold_res (link_dependency tools graph comps d)
               \<lparr> ln_bytes = bytes, ln_imports = imps, ln_exports = exports,
                 ln_functions = functions, ln_capabilities = [] \<rparr>
               (get_dependencies graph i))
            (finish_component caps d metadata))) = Inr spec"
    unfolding process_component_def by (simp only: node.case attempt_Inr_iff) blast
  obtain metadata imps exports funs where pp: "parsed = (metadata, imps, exports, funs)"
    by (cases parsed)
  from r obtain c where c: "apply_config sf tools d bytes imps = Inr c"
    and r2: "(case c of (bytes, imps) \<Rightarrow>
          attempt
            (fold_res (link_dependency tools graph comps d)
               \<lparr> ln_bytes = bytes, ln_imports = imps, ln_exports = exports,
                 ln_functions = funs, ln_capabilities = [] \<rparr>
               (get_dependencies graph i))
            (finish_component caps d metadata)) = Inr spec"
    by (auto simp: pp attempt_Inr_iff)
  obtain bytes' imps' where cc: "c = (bytes', imps')" by force
  from r2 obtain ln where f: "fold_res (link_dependency tools graph comps d)
          \<lparr> ln_bytes = bytes', ln_imports = imps', ln_exports = exports, ln_functions = funs,
            ln_capabilities = [] \<rparr> (get_dependencies graph i) = Inr ln"
    and s: "finish_component caps d metadata ln = Inr spec"
    unfolding cc prod.case attempt_Inr_iff by blast
  show ?thesis
    by (rule that [OF NComponent f])
      (use s in \<open>auto simp: finish_component_def Let_def simp del: filter_False split: if_splits\<close>)
qed (use assms in \<open>simp add: process_component_def\<close>)

text \<open>
  C8. A component that is processed runs on what it may import: every import left after
  composition is satisfied by an interface of one of its capabilities, and every dependency it
  was linked with, component or capability, is in a scope that allows it.
\<close>

theorem process_component_imports_satisfied:
  assumes "process_component sf tools graph comps caps i = Inr spec"
  shows "list_all (\<lambda>i. is_import_satisfied i (capability_interfaces caps (sp_capabilities spec)))
           (sp_imports spec) \<and>
         list_all (\<lambda>dep. node_scope (cg_nodes graph ! fst dep) = ''any'') (get_dependencies graph i) \<and>
         (\<exists>d. cg_nodes graph ! i = NComponent d \<and> sp_name spec = comp_name d)"
proof -
  from assms obtain d ln0 ln where p: "cg_nodes graph ! i = NComponent d"
    "fold_res (link_dependency tools graph comps d) ln0 (get_dependencies graph i) = Inr ln"
    "filter (\<lambda>i. \<not> is_import_satisfied i (capability_interfaces caps (ln_capabilities ln))) (ln_imports ln) = []"
    "sp_name spec = comp_name d" "sp_imports spec = ln_imports ln"
    "sp_capabilities spec = ln_capabilities ln"
    by (rule process_component_steps)
  have "list_all (\<lambda>dep. node_scope (cg_nodes graph ! fst dep) = ''any'') (get_dependencies graph i)"
    using fold_res_each [OF p(2)] link_dependency_scope by (fastforce simp: list_all_iff)
  with p show ?thesis by (auto simp: list_all_iff filter_empty_conv)
qed

definition built_inv :: "'b component_registry \<Rightarrow> bool" where
  "built_inv built \<longleftrightarrow>
     (\<forall>k s. hm_get k built = Some s \<longrightarrow> sp_name s = k \<and> sp_dependents s = []) \<and> hm_wf built"

lemma build_step_inv:
  "built_inv built \<Longrightarrow> build_step sf tools graph caps built i = Inr built' \<Longrightarrow> built_inv built'"
proof (cases "cg_nodes graph ! i")
  case (NComponent d)
  assume inv: "built_inv built" and "build_step sf tools graph caps built i = Inr built'"
  then obtain spec where p: "process_component sf tools graph built caps i = Inr spec"
    "built' = hm_insert (comp_name d) spec built"
    using NComponent by (auto simp: build_step_def attempt_Inr_iff)
  have "sp_name spec = comp_name d \<and> sp_dependents spec = []"
    using p(1) by (rule process_component_steps) (use NComponent in simp)
  with inv p(2) show ?thesis by (auto simp: built_inv_def hm_wf_insert)
qed (simp add: build_step_def)

definition dependent_pairs :: "component_graph \<Rightarrow> nat \<Rightarrow> (string \<times> string) list" where
  "dependent_pairs graph j =
     (case cg_nodes graph ! j of
        NCapability _ \<Rightarrow> []
      | NComponent d \<Rightarrow>
          concat (map (\<lambda>(i, e). case (e, cg_nodes graph ! i) of
              (Dependency, NComponent di) \<Rightarrow> [(comp_name di, comp_name d)] | _ \<Rightarrow> [])
            (get_dependencies graph j)))"

lemma record_dependents_pairs:
  "record_dependents graph j built = fold (\<lambda>(n, d). add_dependent n d) (dependent_pairs graph j) built"
proof (cases "cg_nodes graph ! j")
  case (NComponent d)
  have "fold (\<lambda>(dep_index, e) built.
            case (e, cg_nodes graph ! dep_index) of
              (Dependency, NComponent dep_def) \<Rightarrow> add_dependent (comp_name dep_def) (comp_name d) built
            | _ \<Rightarrow> built) deps built =
        fold (\<lambda>(n, d). add_dependent n d)
          (concat (map (\<lambda>(i, e). case (e, cg_nodes graph ! i) of
              (Dependency, NComponent di) \<Rightarrow> [(comp_name di, comp_name d)] | _ \<Rightarrow> []) deps)) built" for deps
    by (induction deps arbitrary: built) (auto split: edge.splits node.splits)
  with NComponent show ?thesis by (simp add: record_dependents_def dependent_pairs_def)
qed (simp add: record_dependents_def dependent_pairs_def)

lemma record_all_pairs:
  "fold (record_dependents graph) order built =
     fold (\<lambda>(n, d). add_dependent n d) (concat (map (dependent_pairs graph) order)) built"
  by (induction order arbitrary: built) (simp_all add: record_dependents_pairs)

lemma add_dependents_get:
  "hm_get k (fold (\<lambda>(n, d). add_dependent n d) ps built) =
     map_option (\<lambda>s. s \<lparr> sp_dependents := sp_dependents s @ map snd (filter (\<lambda>p. fst p = k) ps) \<rparr>)
       (hm_get k built)"
proof (induction ps arbitrary: built)
  case (Cons p ps)
  obtain n d where p: "p = (n, d)" by force
  have "hm_get k (add_dependent n d built) =
      (if n = k then map_option (\<lambda>s. s \<lparr> sp_dependents := sp_dependents s @ [d] \<rparr>) (hm_get k built)
       else hm_get k built)"
    by (auto simp: add_dependent_def split: option.splits)
  then show ?case
    by (cases "hm_get k built") (simp_all add: Cons.IH p)
qed (simp add: option.map_ident)

lemma dependent_pairs_mem:
  "(n, x) \<in> set (dependent_pairs graph j) \<longleftrightarrow>
     (\<exists>i di dj. (i, j, Dependency) \<in> set (cg_edges graph) \<and> cg_nodes graph ! i = NComponent di \<and>
        comp_name di = n \<and> cg_nodes graph ! j = NComponent dj \<and> comp_name dj = x)"
proof (cases "cg_nodes graph ! j")
  case (NComponent d)
  then show ?thesis
    by (auto simp: dependent_pairs_def get_dependencies_def split: edge.splits node.splits; metis)
qed (simp add: dependent_pairs_def)

lemma build_registries_steps:
  assumes "build_registries sf tools topo hosts graph = Inr (reg, caps)"
  obtains order built where "get_build_order topo graph = Some order" and "built_inv built"
    and "reg = fold (\<lambda>(n, d). add_dependent n d) (concat (map (dependent_pairs graph) order)) built"
proof -
  from assms obtain order built where o: "get_build_order topo graph = Some order"
    and f: "fold_res (build_step sf tools graph caps) [] order = Inr built"
    and r: "reg = fold (record_dependents graph) order built"
    unfolding build_registries_def Let_def attempt_Inr_iff ok_or_Inr_iff by blast
  have "built_inv built"
    by (rule fold_res_invariant [OF f, where I = built_inv])
      (simp add: built_inv_def, rule build_step_inv)
  then show ?thesis using that o r record_all_pairs by metis
qed

text \<open>
  The dependents recorded for a registered component are exactly the components that
  depend on it in the graph: \<open>x\<close> is listed iff a component named \<open>x\<close> has a dependency edge
  from a node of that name.
\<close>

theorem recorded_dependents_exact:
  assumes "toposort_spec topo" and "build_registries sf tools topo hosts graph = Inr (reg, caps)"
    and "list_all (\<lambda>(a, b, w). a < length (cg_nodes graph) \<and> b < length (cg_nodes graph)) (cg_edges graph)"
    and "hm_get name reg = Some spec"
  shows "x \<in> set (sp_dependents spec) \<longleftrightarrow>
     (\<exists>i j di dj. (i, j, Dependency) \<in> set (cg_edges graph) \<and> cg_nodes graph ! i = NComponent di \<and>
        comp_name di = name \<and> cg_nodes graph ! j = NComponent dj \<and> comp_name dj = x)"
  using assms(2)
proof (rule build_registries_steps)
  fix order built
  assume o: "get_build_order topo graph = Some order" and inv: "built_inv built"
    and r: "reg = fold (\<lambda>(n, d). add_dependent n d) (concat (map (dependent_pairs graph) order)) built"
  have "topo (cg_nodes graph) (cg_edges graph) = Inr order"
    using o by (auto simp: get_build_order_def split: sum.splits)
  with assms(1) have all: "set order = {..<length (cg_nodes graph)}"
    unfolding toposort_spec_def by blast
  obtain s where s: "hm_get name built = Some s"
    "spec = s \<lparr> sp_dependents := sp_dependents s @
       map snd (filter (\<lambda>p. fst p = name) (concat (map (dependent_pairs graph) order))) \<rparr>"
    using assms(4) unfolding r add_dependents_get by auto
  with inv have "sp_dependents s = []" by (auto simp: built_inv_def)
  with s(2) have "x \<in> set (sp_dependents spec) \<longleftrightarrow> (\<exists>j \<in> set order. (name, x) \<in> set (dependent_pairs graph j))"
    by force
  also have "\<dots> \<longleftrightarrow> (\<exists>j. (name, x) \<in> set (dependent_pairs graph j))"
    unfolding dependent_pairs_mem all using assms(3) by (fastforce simp: list_all_iff)
  finally show ?thesis unfolding dependent_pairs_mem by blast
qed

text \<open>
  The public view of a built registry: looking a component up by name gives a component of
  exactly that name that is also listed, and internal components, whose names start with an
  underscore, are neither found nor listed.
\<close>

theorem public_components_view:
  assumes "build_registries sf tools topo hosts graph = Inr (reg, caps)"
  shows "(get_component name reg = Some spec \<longleftrightarrow> spec \<in> set (get_components reg) \<and> sp_name spec = name)
         \<and> list_all (\<lambda>s. \<not> starts_with (sp_name s) ''_'') (get_components reg)"
  using assms
proof (rule build_registries_steps)
  fix order built
  let ?ps = "concat (map (dependent_pairs graph) order)"
  assume inv: "built_inv built" and r: "reg = fold (\<lambda>(n, d). add_dependent n d) ?ps built"
  have wf: "hm_wf reg"
  proof -
    have "hm_wf b \<Longrightarrow> hm_wf (fold (\<lambda>(n, d). add_dependent n d) ps b)" for ps and b :: "'a component_registry"
      by (induction ps arbitrary: b) (auto simp: add_dependent_def hm_wf_insert split: option.splits)
    then show ?thesis using inv r by (simp add: built_inv_def)
  qed
  have names: "sp_name s = k" if "hm_get k reg = Some s" for k s
    using that inv unfolding r add_dependents_get by (auto simp: built_inv_def)
  have "spec \<in> set (map snd reg) \<and> sp_name spec = name \<longleftrightarrow> hm_get name reg = Some spec"
  proof (intro iffI)
    assume "spec \<in> set (map snd reg) \<and> sp_name spec = name"
    then obtain k where k: "(k, spec) \<in> set reg" "sp_name spec = name" by auto
    then have "hm_get k reg = Some spec" using wf by simp
    with names [OF this] k(2) show "hm_get name reg = Some spec" by simp
  next
    assume h: "hm_get name reg = Some spec"
    then have "spec \<in> set (map snd reg)" by (force dest: map_of_SomeD)
    with names [OF h] show "spec \<in> set (map snd reg) \<and> sp_name spec = name" by simp
  qed
  then show ?thesis by (auto simp: get_component_def get_components_def list_all_iff)
qed

subsection \<open>Concrete registries\<close>

definition sample_tools :: "unit wasm_tools" where
  "sample_tools =
     \<lparr> wt_pull_oci = (\<lambda>_. Inr ()), wt_read_file = (\<lambda>_. Inr ()),
       wt_parse = (\<lambda>_. Inr (\<lparr> pm_namespace = None, pm_name = None \<rparr>, [''acme:kv/store@1.2.3''], [], [])),
       wt_plug = (\<lambda>_ _. Inr ()), wt_static_config = (\<lambda>_. Inr ()), wt_wrapper = (\<lambda>_. Inr ()) \<rparr>"

definition sample_hosts :: "unit host_capabilities" where
  "sample_hosts = \<lparr> hc_interfaces = (\<lambda>_. [''acme:kv/store@1.2.3'']), hc_factories = [(''memory'', \<lambda>_. Inr ())] \<rparr>"

definition chain_graph :: component_graph where
  "chain_graph =
     \<lparr> cg_nodes = [NCapability \<lparr> cap_name = ''kv'', cap_kind = ''memory'', cap_scope = ''any'', cap_properties = [] \<rparr>,
                   NComponent (plain_component ''db'' [''kv''] []),
                   NComponent (plain_component ''api'' [''db'', ''kv''] [])],
       cg_edges = [(0, 1, Dependency), (1, 2, Dependency), (0, 2, Dependency)],
       cg_node_map = [(''kv'', 0), (''db'', 1), (''api'', 2)] \<rparr>"

definition chain_registries :: "unit component_registry \<times> unit capability_registry" where
  "chain_registries =
     (case build_registries (\<lambda>_. []) sample_tools listed_order sample_hosts chain_graph of
        Inr r \<Rightarrow> r | Inl _ \<Rightarrow> ([], []))"

lemma chain_registries_built:
  "build_registries (\<lambda>_. []) sample_tools listed_order sample_hosts chain_graph =
     Inr (fst chain_registries, snd chain_registries)"
proof -
  have "is_ok (build_registries (\<lambda>_. []) sample_tools listed_order sample_hosts chain_graph)"
    by code_simp
  then show ?thesis by (auto simp: is_ok_iff chain_registries_def)
qed

lemma chain_db_registered: "\<exists>spec. hm_get ''db'' (fst chain_registries) = Some spec"
proof -
  have "hm_get ''db'' (fst chain_registries) \<noteq> None" by code_simp
  then show ?thesis by blast
qed

definition chain_db :: "unit component_spec" where
  "chain_db = the (hm_get ''db'' (fst chain_registries))"

lemma process_component_imports_satisfied_witness:
  "let caps = snd chain_registries;
       spec = (case process_component (\<lambda>_. []) sample_tools chain_graph [] caps 1 of Inr s \<Rightarrow> s | Inl _ \<Rightarrow> chain_db)
   in list_all (\<lambda>i. is_import_satisfied i (capability_interfaces caps (sp_capabilities spec)))
        (sp_imports spec) \<and>
      list_all (\<lambda>dep. node_scope (cg_nodes chain_graph ! fst dep) = ''any'') (get_dependencies chain_graph 1) \<and>
      (\<exists>d. cg_nodes chain_graph ! 1 = NComponent d \<and> sp_name spec = comp_name d)"
  unfolding Let_def
proof (rule process_component_imports_satisfied)
  let ?r = "process_component (\<lambda>_. []) sample_tools chain_graph [] (snd chain_registries) 1"
  have "is_ok ?r" by code_simp
  then show "?r = Inr (case ?r of Inr s \<Rightarrow> s | Inl _ \<Rightarrow> chain_db)" by (auto simp: is_ok_iff)
qed

lemma recorded_dependents_exact_witness:
  "''api'' \<in> set (sp_dependents chain_db) \<longleftrightarrow>
     (\<exists>i j di dj. (i, j, Dependency) \<in> set (cg_edges chain_graph) \<and> cg_nodes chain_graph ! i = NComponent di \<and>
        comp_name di = ''db'' \<and> cg_nodes chain_graph ! j = NComponent dj \<and> comp_name dj = ''api'')"
proof (rule recorded_dependents_exact [OF listed_order_spec chain_registries_built])
  show "list_all (\<lambda>(a, b, w). a < length (cg_nodes chain_graph) \<and> b < length (cg_nodes chain_graph))
      (cg_edges chain_graph)"
    by (simp add: chain_graph_def)
  show "hm_get ''db'' (fst chain_registries) = Some chain_db"
    using chain_db_registered by (auto simp: chain_db_def)
qed

lemma public_components_view_witness:
  "(get_component ''db'' (fst chain_registries) = Some chain_db \<longleftrightarrow>
      chain_db \<in> set (get_components (fst chain_registries)) \<and> sp_name chain_db = ''db'') \<and>
   list_all (\<lambda>s. \<not> starts_with (sp_name s) ''_'') (get_components (fst chain_registries))"
  by (rule public_components_view [OF chain_registries_built])

subsection \<open>Lemmas: flattening of configuration\<close>

text \<open>The values a configuration entry may hold: anything but null, and no object inside an array.\<close>

fun list_safe :: "json \<Rightarrow> bool" where
  "list_safe (JArray xs) = list_all list_safe xs"
| "list_safe (JObject m) = False"
| "list_safe JNull = False"
| "list_safe _ = True"

fun config_supported :: "json \<Rightarrow> bool" where
  "config_supported (JObject m) = list_all (\<lambda>kv. config_supported (snd kv)) m"
| "config_supported v = list_safe v"

lemma convert_ok_iff: "is_ok (convert_json_value_to_string sf v) \<longleftrightarrow> list_safe v"
proof (induction sf v rule: convert_json_value_to_string.induct)
  case (4 sf arr)
  have c: "is_ok (collect_res (map (convert_json_value_to_string sf) xs)) \<longleftrightarrow>
      list_all (\<lambda>x. is_ok (convert_json_value_to_string sf x)) xs" for xs
  proof (induction xs)
    case (Cons x xs)
    then show ?case
      by (cases "convert_json_value_to_string sf x";
          cases "collect_res (map (convert_json_value_to_string sf) xs)") auto
  qed simp
  have "list_all (\<lambda>x. is_ok (convert_json_value_to_string sf x)) arr = list_all list_safe arr"
    using 4 by (auto simp: list_all_iff)
  then have "is_ok (collect_res (map (convert_json_value_to_string sf) arr)) = list_all list_safe arr"
    using c [of arr] by blast
  then show ?case
    by (cases "collect_res (map (convert_json_value_to_string sf) arr)") auto
qed auto

text \<open>
  A configuration value is turned into store entries exactly when it is supported: nested
  objects of any depth become dotted keys, and only a null or an object inside an array fails.
\<close>

theorem flatten_config_ok_iff:
  "is_ok (flatten_config sf prefix v out) \<longleftrightarrow> config_supported v"
proof (induction sf prefix v out rule: flatten_config.induct)
  case (1 sf prefix m out)
  have "is_ok (fold_res (\<lambda>out kv. flatten_config sf (prefix @ ''.'' @ fst kv) (snd kv) out) out m') \<longleftrightarrow>
      list_all (\<lambda>kv. config_supported (snd kv)) m'" if "set m' \<subseteq> set m" for m' out
    using that
  proof (induction m' arbitrary: out)
    case (Cons kv m')
    then have "is_ok (flatten_config sf (prefix @ ''.'' @ fst kv) (snd kv) out) \<longleftrightarrow> config_supported (snd kv)"
      using "1.IH" by simp
    with Cons show ?case
      by (cases "flatten_config sf (prefix @ ''.'' @ fst kv) (snd kv) out") auto
  qed simp
  then show ?case by simp
next
  case "2_5"
  have "is_ok (flatten_config sf prefix (JArray va) out) =
      is_ok (convert_json_value_to_string sf (JArray va))" for sf prefix va out
    by (cases "convert_json_value_to_string sf (JArray va)") (simp_all del: convert_json_value_to_string.simps)
  then show ?case by (simp only: convert_ok_iff config_supported.simps)
qed simp_all

end
