(* ===== verification/Message.thy ===== *)
theory Message
  imports Core_Types
begin

section \<open>Messages (\<open>src/message.rs\<close>, \<open>src/context.rs\<close>)\<close>

text \<open>
  Header values, the header map with its typed accessors, the message builder with generated
  \<open>id\<close> and \<open>timestamp\<close> and ambient propagation, and header-propagation entries. The fresh
  UUID, the clock in milliseconds and the task-local propagation context are parameters of
  \<open>build\<close>; an accessor that reaches \<open>unreachable!\<close> gives \<open>None\<close>.
\<close>

datatype header_value = HString string | HInteger "64 word" | HBool bool

fun header_display :: "header_value \<Rightarrow> string" where
  "header_display (HString s) = s"
| "header_display (HInteger n) = show_int (sint n)"
| "header_display (HBool b) = (if b then ''true'' else ''false'')"

text \<open>\<open>FromHeaderValue\<close> for \<open>&str\<close>, \<open>&HeaderValue\<close>, \<open>i64\<close>, \<open>u64\<close> and \<open>bool\<close>.\<close>

fun header_str :: "header_value \<Rightarrow> string option" where
  "header_str (HString s) = Some s"
| "header_str _ = None"

definition header_raw :: "header_value \<Rightarrow> header_value option" where
  "header_raw v = Some v"

fun header_i64 :: "header_value \<Rightarrow> 64 word option" where
  "header_i64 (HInteger n) = Some n"
| "header_i64 _ = None"

fun header_u64 :: "header_value \<Rightarrow> 64 word option" where
  "header_u64 (HInteger n) = (if 0 \<le> sint n then Some n else None)"
| "header_u64 _ = None"

fun header_bool :: "header_value \<Rightarrow> bool option" where
  "header_bool (HBool b) = Some b"
| "header_bool _ = None"

subsection \<open>Headers and messages\<close>

record message_headers =
  mh_map :: "header_value hmap"

record message =
  msg_headers :: message_headers
  msg_body :: string

definition ID :: string where "ID = ''id''"
definition TIMESTAMP :: string where "TIMESTAMP = ''timestamp''"
definition TTL :: string where "TTL = ''ttl''"
definition CONTENT_TYPE :: string where "CONTENT_TYPE = ''content-type''"
definition REPLY_TO :: string where "REPLY_TO = ''reply-to''"
definition CORRELATION_ID :: string where "CORRELATION_ID = ''correlation-id''"

lemmas header_names = ID_def TIMESTAMP_def TTL_def CONTENT_TYPE_def REPLY_TO_def CORRELATION_ID_def

definition headers_get :: "(header_value \<Rightarrow> 'a option) \<Rightarrow> string \<Rightarrow> message_headers \<Rightarrow> 'a option" where
  "headers_get conv key h = and_then (hm_get key (mh_map h)) conv"

definition headers_id :: "message_headers \<Rightarrow> string option" where
  "headers_id h = (case hm_get ID (mh_map h) of Some (HString s) \<Rightarrow> Some s | _ \<Rightarrow> None)"

definition headers_timestamp :: "message_headers \<Rightarrow> 64 word option" where
  "headers_timestamp h = (case hm_get TIMESTAMP (mh_map h) of Some (HInteger n) \<Rightarrow> Some n | _ \<Rightarrow> None)"

definition headers_ttl :: "message_headers \<Rightarrow> 64 word option" where
  "headers_ttl h = headers_get header_u64 TTL h"

definition headers_content_type :: "message_headers \<Rightarrow> string option" where
  "headers_content_type h = headers_get header_str CONTENT_TYPE h"

definition headers_reply_to :: "message_headers \<Rightarrow> string option" where
  "headers_reply_to h = headers_get header_str REPLY_TO h"

definition headers_correlation_id :: "message_headers \<Rightarrow> string option" where
  "headers_correlation_id h = headers_get header_str CORRELATION_ID h"

definition headers_len :: "message_headers \<Rightarrow> nat" where
  "headers_len h = length (mh_map h)"

definition headers_is_empty :: "message_headers \<Rightarrow> bool" where
  "headers_is_empty h = (mh_map h = [])"

subsection \<open>The builder\<close>

record message_builder =
  mb_headers :: "header_value hmap"
  mb_body :: string

record propagation_context =
  pc_entries :: "string hmap"

definition builder_new :: "string \<Rightarrow> message_builder" where
  "builder_new body = \<lparr> mb_headers = [], mb_body = body \<rparr>"

definition builder_from_message :: "message \<Rightarrow> message_builder" where
  "builder_from_message m = \<lparr> mb_headers = mh_map (msg_headers m), mb_body = msg_body m \<rparr>"

definition builder_header :: "string \<Rightarrow> header_value \<Rightarrow> message_builder \<Rightarrow> message_builder" where
  "builder_header key v b = b \<lparr> mb_headers := hm_insert key v (mb_headers b) \<rparr>"

definition builder_headers :: "header_value hmap \<Rightarrow> message_builder \<Rightarrow> message_builder" where
  "builder_headers hs b = b \<lparr> mb_headers := hm_extend (mb_headers b) hs \<rparr>"

definition propagate_header :: "string hmap \<Rightarrow> string \<Rightarrow> header_value hmap \<Rightarrow> header_value hmap" where
  "propagate_header entries key hs =
     (if hm_has key hs then hs
      else case hm_get key entries of Some v \<Rightarrow> hm_insert key (HString v) hs | None \<Rightarrow> hs)"

text \<open>\<open>build\<close>: \<open>uuid\<close> is the fresh identifier, \<open>now\<close> the clock, \<open>ctx\<close> the context in scope.\<close>

definition message_build ::
  "string \<Rightarrow> 64 word \<Rightarrow> propagation_context option \<Rightarrow> message_builder \<Rightarrow> message" where
  "message_build uuid now ctx b =
     (let hs = mb_headers b;
          hs = (if hm_has ID hs then hs else hm_insert ID (HString uuid) hs);
          hs = (if hm_has TIMESTAMP hs then hs else hm_insert TIMESTAMP (HInteger now) hs);
          hs = (case ctx of
                  None \<Rightarrow> hs
                | Some c \<Rightarrow> fold (propagate_header (pc_entries c)) propagated_headers hs)
      in \<lparr> msg_headers = \<lparr> mh_map = hs \<rparr>, msg_body = mb_body b \<rparr>)"

subsection \<open>Propagation entries\<close>

record propagated_header =
  ph_source :: string
  ph_target_opt :: "string option"

datatype propagate_error = EmptyEntry | EmptySource string | EmptyTarget string

definition propagated_header_parse :: "string \<Rightarrow> propagate_error + propagated_header" where
  "propagated_header_parse s =
     (if str_trim s = [] then Inl EmptyEntry
      else
        (case split_once s '' as '' of
           Some (src, tgt) \<Rightarrow>
             (let source = str_trim src; target = str_trim tgt in
              if source = [] then Inl (EmptySource s)
              else if target = [] then Inl (EmptyTarget s)
              else Inr \<lparr> ph_source = source, ph_target_opt = Some target \<rparr>)
         | None \<Rightarrow> Inr \<lparr> ph_source = str_trim s, ph_target_opt = None \<rparr>))"

definition ph_target :: "propagated_header \<Rightarrow> string" where
  "ph_target p = unwrap_or (ph_target_opt p) (ph_source p)"

subsection \<open>Lemmas\<close>

lemma propagate_get:
  "map_of (propagate_header entries key hs) k =
     (if k = key \<and> map_of hs k = None then map_option HString (map_of entries k) else map_of hs k)"
  by (auto simp: propagate_header_def hm_has_iff split: option.splits)

lemma message_build_headers_get:
  "hm_get key (mh_map (msg_headers (message_build uuid now ctx b))) =
     (case hm_get key (mb_headers b) of
        Some v \<Rightarrow> Some v
      | None \<Rightarrow>
          if key = ID then Some (HString uuid)
          else if key = TIMESTAMP then Some (HInteger now)
          else if key \<in> set propagated_headers
            then and_then ctx (\<lambda>c. map_option HString (hm_get key (pc_entries c)))
          else None) \<and>
   msg_body (message_build uuid now ctx b) = mb_body b"
proof (cases ctx)
  case None
  then show ?thesis
    by (auto simp: message_build_def Let_def header_names hm_has_iff split: option.splits)
next
  case (Some c)
  then show ?thesis
    by (auto simp: message_build_def Let_def header_names hm_has_iff propagated_headers_def
        propagate_get split: option.splits)
qed

text \<open>
  What \<open>build\<close> puts in a message: every header the caller supplied is kept with its value,
  a missing \<open>id\<close> and \<open>timestamp\<close> are generated, a missing propagation header is taken from the
  context in scope, and no other header appears.
\<close>

theorem message_build_headers:
  "hm_get key (mh_map (msg_headers (message_build uuid now ctx b))) =
     (case hm_get key (mb_headers b) of
        Some v \<Rightarrow> Some v
      | None \<Rightarrow>
          if key = ID then Some (HString uuid)
          else if key = TIMESTAMP then Some (HInteger now)
          else if key \<in> set propagated_headers
            then and_then ctx (\<lambda>c. map_option HString (hm_get key (pc_entries c)))
          else None) \<and>
   msg_body (message_build uuid now ctx b) = mb_body b"
  by (rule message_build_headers_get)

text \<open>
  The guarantee behind \<open>headers().id()\<close>: on a built message it returns, unless the caller
  supplied an \<open>id\<close> header that is not a string, in which case the accessor runs into its
  \<open>unreachable!\<close> arm because the builder only checks that the key is present.
\<close>

theorem headers_id_defined_iff:
  "headers_id (msg_headers (message_build uuid now ctx b)) = None \<longleftrightarrow>
     (\<exists>v. hm_get ID (mb_headers b) = Some v \<and> header_str v = None)"
proof -
  have "hm_get ID (mh_map (msg_headers (message_build uuid now ctx b))) =
      Some (case hm_get ID (mb_headers b) of Some v \<Rightarrow> v | None \<Rightarrow> HString uuid)"
    using message_build_headers_get [of uuid now ctx b ID] by (simp split: option.splits)
  then show ?thesis
    by (auto simp: headers_id_def split: option.splits header_value.splits)
qed

end
