(* ===== verification/Channel.thy ===== *)
theory Channel
  imports Message "HOL-Library.Sublist"
begin

section \<open>Message channels (\<open>src/messaging/channel.rs\<close>)\<close>

text \<open>
  The in-memory channel with its two overflow modes and the registry of channels. The queues
  themselves are tokio's: an \<open>mpsc\<close> queue per consumer group for \<open>Block\<close>, one \<open>broadcast\<close>
  queue for \<open>DropOldest\<close>. They are parameters (\<open>mpsc_ops\<close>, \<open>broadcast_ops\<close>), and
  \<open>mpsc_spec\<close> and \<open>broadcast_spec\<close> state what their documentation promises.

  An operation is modelled at the moment it takes effect. \<open>Waits\<close> stands for a call that is
  still pending because its timeout is negative; a positive timeout that runs out is \<open>Timeout\<close>.
  Publishing to a \<open>Block\<close> channel is a sequence of sends, one per consumer group, between which
  other operations may run: \<open>chan_step\<close> is that interleaving.
\<close>

datatype publish_error = PClosed string | PFull string | PTimeout string

datatype consume_error = CTimeout string | CClosed string

datatype receipt_error = ReceiptFailed string

fun publish_error_display :: "publish_error \<Rightarrow> string" where
  "publish_error_display (PClosed m) = ''channel closed: '' @ m"
| "publish_error_display (PFull m) = ''channel full: '' @ m"
| "publish_error_display (PTimeout m) = ''publish timeout: '' @ m"

fun consume_error_display :: "consume_error \<Rightarrow> string" where
  "consume_error_display (CClosed m) = ''channel closed: '' @ m"
| "consume_error_display (CTimeout m) = ''consume timeout: '' @ m"

datatype overflow = Block | DropOldest

datatype 'a waiting = Waits | Done 'a

subsection \<open>The queues the channel is built on\<close>

record ('q, 'm) mpsc_ops =
  mp_new :: "nat \<Rightarrow> 'q"
  mp_send :: "'m \<Rightarrow> 'q \<Rightarrow> 'q option"
  mp_recv :: "'q \<Rightarrow> ('m \<times> 'q) option"
  mp_items :: "'q \<Rightarrow> 'm list"
  mp_capacity :: "'q \<Rightarrow> nat"

text \<open>A bounded first-in first-out queue: a send fails exactly when the buffer is full.\<close>

definition mpsc_new_ok :: "('q, 'm) mpsc_ops \<Rightarrow> bool" where
  "mpsc_new_ok mp \<longleftrightarrow> (\<forall>c. 0 < c \<longrightarrow> mp_items mp (mp_new mp c) = [] \<and> mp_capacity mp (mp_new mp c) = c)"

definition mpsc_send_ok :: "('q, 'm) mpsc_ops \<Rightarrow> bool" where
  "mpsc_send_ok mp \<longleftrightarrow>
     (\<forall>m q. case mp_send mp m q of
        None \<Rightarrow> mp_capacity mp q \<le> length (mp_items mp q)
      | Some q' \<Rightarrow> length (mp_items mp q) < mp_capacity mp q \<and>
          mp_items mp q' = mp_items mp q @ [m] \<and> mp_capacity mp q' = mp_capacity mp q)"

definition mpsc_recv_ok :: "('q, 'm) mpsc_ops \<Rightarrow> bool" where
  "mpsc_recv_ok mp \<longleftrightarrow>
     (\<forall>q. case mp_recv mp q of
        None \<Rightarrow> mp_items mp q = []
      | Some (m, q') \<Rightarrow> mp_items mp q = m # mp_items mp q' \<and> mp_capacity mp q' = mp_capacity mp q)"

definition mpsc_spec :: "('q, 'm) mpsc_ops \<Rightarrow> bool" where
  "mpsc_spec mp \<longleftrightarrow> mpsc_new_ok mp \<and> mpsc_send_ok mp \<and> mpsc_recv_ok mp"

datatype 'm received = Received 'm | NothingYet | Lagged nat | SenderGone

record ('b, 'm) broadcast_ops =
  bo_new :: "nat \<Rightarrow> 'b"
  bo_subscribe :: "'b \<Rightarrow> nat \<times> 'b"
  bo_send :: "'m \<Rightarrow> 'b \<Rightarrow> 'b option"
  bo_recv :: "nat \<Rightarrow> 'b \<Rightarrow> 'm received \<times> 'b"
  bo_receivers :: "'b \<Rightarrow> nat list"
  bo_items :: "nat \<Rightarrow> 'b \<Rightarrow> 'm list"

text \<open>
  A broadcast queue: every receiver sees what is sent after it subscribed; a slow one loses its
  oldest messages and is told so once, by \<open>Lagged\<close>, before it goes on with the oldest kept one.
\<close>

definition broadcast_new_ok :: "('b, 'm) broadcast_ops \<Rightarrow> bool" where
  "broadcast_new_ok bo \<longleftrightarrow> (\<forall>c. bo_receivers bo (bo_new bo c) = [])"

definition broadcast_subscribe_ok :: "('b, 'm) broadcast_ops \<Rightarrow> bool" where
  "broadcast_subscribe_ok bo \<longleftrightarrow>
     (\<forall>b. case bo_subscribe bo b of (rx, b') \<Rightarrow>
        rx \<notin> set (bo_receivers bo b) \<and> bo_receivers bo b' = bo_receivers bo b @ [rx] \<and>
        bo_items bo rx b' = [] \<and> (\<forall>r. r \<noteq> rx \<longrightarrow> bo_items bo r b' = bo_items bo r b))"

definition broadcast_send_ok :: "('b, 'm) broadcast_ops \<Rightarrow> bool" where
  "broadcast_send_ok bo \<longleftrightarrow>
     (\<forall>m b. case bo_send bo m b of
        None \<Rightarrow> bo_receivers bo b = []
      | Some b' \<Rightarrow> bo_receivers bo b \<noteq> [] \<and> bo_receivers bo b' = bo_receivers bo b \<and>
          (\<forall>r \<in> set (bo_receivers bo b). \<exists>dropped. bo_items bo r b @ [m] = dropped @ bo_items bo r b' \<and>
             bo_items bo r b' \<noteq> []))"

definition broadcast_recv_ok :: "('b, 'm) broadcast_ops \<Rightarrow> bool" where
  "broadcast_recv_ok bo \<longleftrightarrow>
     (\<forall>r b. case bo_recv bo r b of (res, b') \<Rightarrow>
        bo_receivers bo b' = bo_receivers bo b \<and> (\<forall>r'. r' \<noteq> r \<longrightarrow> bo_items bo r' b' = bo_items bo r' b) \<and>
        (case res of
           Received m \<Rightarrow> bo_items bo r b = m # bo_items bo r b'
         | NothingYet \<Rightarrow> bo_items bo r b = [] \<and> bo_items bo r b' = []
         | Lagged n \<Rightarrow> bo_items bo r b' = bo_items bo r b \<and> bo_items bo r b \<noteq> [] \<and>
             (\<forall>k. fst (bo_recv bo r b') \<noteq> Lagged k)
         | SenderGone \<Rightarrow> False))"

definition broadcast_spec :: "('b, 'm) broadcast_ops \<Rightarrow> bool" where
  "broadcast_spec bo \<longleftrightarrow>
     broadcast_new_ok bo \<and> broadcast_subscribe_ok bo \<and> broadcast_send_ok bo \<and> broadcast_recv_ok bo"

subsection \<open>The local channel\<close>

text \<open>
  \<open>BlockI\<close>: the groups with a sender in the map, in its iteration order, and the queue of every
  grp. A receiver stays in its map for the life of the channel, so a sender never finds its
  receiver gone. \<open>DropOldestI\<close>: the broadcast queue and the receiver of every group.
\<close>

datatype ('q, 'b) channel_inner =
    BlockI "string list" "'q hmap"
  | DropOldestI 'b "nat hmap"

record ('q, 'b) local_channel =
  lc_capacity :: nat
  lc_publish_timeout :: int
  lc_consume_timeout :: int
  lc_inner :: "('q, 'b) channel_inner"

definition DEFAULT_CAPACITY :: nat where "DEFAULT_CAPACITY = 256"
definition DEFAULT_TIMEOUT_MS :: int where "DEFAULT_TIMEOUT_MS = 30000"

definition channel_new ::
  "('b, 'm) broadcast_ops \<Rightarrow> nat \<Rightarrow> overflow \<Rightarrow> int \<Rightarrow> int \<Rightarrow> ('q, 'b) local_channel" where
  "channel_new bo capacity ov publish_timeout consume_timeout =
     \<lparr> lc_capacity = capacity, lc_publish_timeout = publish_timeout, lc_consume_timeout = consume_timeout,
       lc_inner = (case ov of Block \<Rightarrow> BlockI [] [] | DropOldest \<Rightarrow> DropOldestI (bo_new bo capacity) []) \<rparr>"

definition with_defaults :: "('b, 'm) broadcast_ops \<Rightarrow> ('q, 'b) local_channel" where
  "with_defaults bo = channel_new bo DEFAULT_CAPACITY Block DEFAULT_TIMEOUT_MS DEFAULT_TIMEOUT_MS"

text \<open>Creating a group that does not exist: \<open>init_group\<close> and the first part of \<open>consume\<close>.\<close>

definition init_group ::
  "('q, 'm) mpsc_ops \<Rightarrow> ('b, 'm) broadcast_ops \<Rightarrow> string \<Rightarrow> ('q, 'b) local_channel \<Rightarrow> ('q, 'b) local_channel" where
  "init_group mp bo grp c =
     (case lc_inner c of
        BlockI senders receivers \<Rightarrow>
          if hm_has grp receivers then c
          else c \<lparr> lc_inner := BlockI (hs_insert grp senders)
                     (hm_insert grp (mp_new mp (lc_capacity c)) receivers) \<rparr>
      | DropOldestI b receivers \<Rightarrow>
          if hm_has grp receivers then c
          else (let (rx, b') = bo_subscribe bo b
                in c \<lparr> lc_inner := DropOldestI b' (hm_insert grp rx receivers) \<rparr>))"

definition channel_close :: "('q, 'b) local_channel \<Rightarrow> ('q, 'b) local_channel" where
  "channel_close c =
     (case lc_inner c of
        BlockI senders receivers \<Rightarrow> c \<lparr> lc_inner := BlockI [] receivers \<rparr>
      | DropOldestI b receivers \<Rightarrow> c)"

definition no_receivers :: publish_error where
  "no_receivers = PClosed ''no active receivers''"

text \<open>One send of a \<open>Block\<close> channel, by the publish timeout.\<close>

definition send_to ::
  "('q, 'm) mpsc_ops \<Rightarrow> int \<Rightarrow> 'm \<Rightarrow> 'q hmap \<Rightarrow> string \<Rightarrow> 'q hmap \<times> (publish_error + unit) waiting" where
  "send_to mp timeout m receivers grp =
     (case hm_get grp receivers of
        None \<Rightarrow> (receivers, Done (Inl no_receivers))
      | Some q \<Rightarrow>
          (case mp_send mp m q of
             Some q' \<Rightarrow> (hm_insert grp q' receivers, Done (Inr ()))
           | None \<Rightarrow>
               (receivers,
                if timeout < 0 then Waits
                else if timeout = 0 then Done (Inl (PFull ''channel at capacity''))
                else Done (Inl (PTimeout (''no space after '' @ show_int timeout @ ''ms''))))))"

fun send_all ::
  "('q, 'm) mpsc_ops \<Rightarrow> int \<Rightarrow> 'm \<Rightarrow> 'q hmap \<Rightarrow> string list \<Rightarrow> 'q hmap \<times> (publish_error + unit) waiting" where
  "send_all mp timeout m receivers [] = (receivers, Done (Inr ()))"
| "send_all mp timeout m receivers (g # gs) =
     (case send_to mp timeout m receivers g of
        (receivers', Done (Inr u)) \<Rightarrow> send_all mp timeout m receivers' gs
      | stopped \<Rightarrow> stopped)"

definition publish ::
  "('q, 'm) mpsc_ops \<Rightarrow> ('b, 'm) broadcast_ops \<Rightarrow> ('q, 'b) local_channel \<Rightarrow> 'm \<Rightarrow>
   ('q, 'b) local_channel \<times> (publish_error + unit) waiting" where
  "publish mp bo c m =
     (case lc_inner c of
        BlockI senders receivers \<Rightarrow>
          if senders = [] then (c, Done (Inl no_receivers))
          else
            (case send_all mp (lc_publish_timeout c) m receivers senders of
               (receivers', res) \<Rightarrow> (c \<lparr> lc_inner := BlockI senders receivers' \<rparr>, res))
      | DropOldestI b receivers \<Rightarrow>
          (case bo_send bo m b of
             None \<Rightarrow> (c, Done (Inl no_receivers))
           | Some b' \<Rightarrow> (c \<lparr> lc_inner := DropOldestI b' receivers \<rparr>, Done (Inr ()))))"

text \<open>Receiving from a group that exists.\<close>

definition nothing_available :: "int \<Rightarrow> (consume_error + 'm) waiting" where
  "nothing_available timeout =
     (if timeout < 0 then Waits
      else if timeout = 0 then Done (Inl (CTimeout ''no message available''))
      else Done (Inl (CTimeout (''no message after '' @ show_int timeout @ ''ms''))))"

definition receive_block ::
  "('q, 'm) mpsc_ops \<Rightarrow> int \<Rightarrow> bool \<Rightarrow> 'q \<Rightarrow> 'q \<times> (consume_error + 'm) waiting" where
  "receive_block mp timeout connected q =
     (case mp_recv mp q of
        Some (m, q') \<Rightarrow> (q', Done (Inr m))
      | None \<Rightarrow>
          (q, if \<not> connected then Done (Inl (CClosed ''no active senders'')) else nothing_available timeout))"

text \<open>With a timeout of zero a lagged receiver is reported as empty; otherwise it is asked again.\<close>

definition receive_broadcast ::
  "('b, 'm) broadcast_ops \<Rightarrow> int \<Rightarrow> nat \<Rightarrow> 'b \<Rightarrow> 'b \<times> (consume_error + 'm) waiting" where
  "receive_broadcast bo timeout rx b =
     (case bo_recv bo rx b of
        (Received m, b') \<Rightarrow> (b', Done (Inr m))
      | (NothingYet, b') \<Rightarrow> (b', nothing_available timeout)
      | (SenderGone, b') \<Rightarrow> (b', Done (Inl (CClosed ''no active senders'')))
      | (Lagged n, b') \<Rightarrow>
          if timeout = 0 then (b', Done (Inl (CTimeout ''no message available'')))
          else
            (case bo_recv bo rx b' of
               (Received m, b'') \<Rightarrow> (b'', Done (Inr m))
             | (NothingYet, b'') \<Rightarrow> (b'', nothing_available timeout)
             | (SenderGone, b'') \<Rightarrow> (b'', Done (Inl (CClosed ''no active senders'')))
             | (Lagged n, b'') \<Rightarrow> (b'', nothing_available timeout)))"

text \<open>
  \<open>held\<close> are the groups whose sender is still held by a \<open>publish\<close> in progress, which keeps the queue
  connected after the map of senders is cleared.
\<close>

definition consume ::
  "('q, 'm) mpsc_ops \<Rightarrow> ('b, 'm) broadcast_ops \<Rightarrow> string list \<Rightarrow> ('q, 'b) local_channel \<Rightarrow> string \<Rightarrow>
   ('q, 'b) local_channel \<times> (consume_error + 'm) waiting" where
  "consume mp bo held c0 grp =
     (let c = init_group mp bo grp c0 in
      case lc_inner c of
        BlockI senders receivers \<Rightarrow>
          (case hm_get grp receivers of
             None \<Rightarrow> (c, Waits)
           | Some q \<Rightarrow>
               (case receive_block mp (lc_consume_timeout c) (grp \<in> set senders \<or> grp \<in> set held) q of
                  (q', res) \<Rightarrow> (c \<lparr> lc_inner := BlockI senders (hm_insert grp q' receivers) \<rparr>, res)))
      | DropOldestI b receivers \<Rightarrow>
          (case hm_get grp receivers of
             None \<Rightarrow> (c, Waits)
           | Some rx \<Rightarrow>
               (case receive_broadcast bo (lc_consume_timeout c) rx b of
                  (b', res) \<Rightarrow> (c \<lparr> lc_inner := DropOldestI b' receivers \<rparr>, res))))"

subsection \<open>The registry\<close>

text \<open>Channels are shared, so a registry holds references; \<open>'c\<close> is the type of references.\<close>

type_synonym 'c channel_registry = "'c hmap"

definition registry_register :: "string \<Rightarrow> 'c \<Rightarrow> 'c channel_registry \<Rightarrow> 'c channel_registry" where
  "registry_register name channel r = hm_insert name channel r"

definition registry_remove :: "string \<Rightarrow> 'c channel_registry \<Rightarrow> 'c channel_registry \<times> 'c option" where
  "registry_remove name r = (hm_remove name r, hm_get name r)"

definition registry_list :: "'c channel_registry \<Rightarrow> 'c list" where
  "registry_list r = map snd r"

definition registry_lookup :: "string \<Rightarrow> 'c channel_registry \<Rightarrow> 'c option" where
  "registry_lookup name r = hm_get name r"

subsection \<open>The interface of a channel\<close>

text \<open>
  A run of operations, one after the other: \<open>Inl m\<close> publishes, \<open>Inr g\<close> consumes in group \<open>g\<close>; the
  outcome is the channel and the messages received, each with its group.
\<close>

fun received_of :: "(consume_error + 'm) waiting \<Rightarrow> 'm list" where
  "received_of (Done (Inr m)) = [m]"
| "received_of _ = []"

fun run_ops ::
  "('c \<Rightarrow> 'm \<Rightarrow> 'c \<times> (publish_error + unit) waiting) \<Rightarrow> ('c \<Rightarrow> string \<Rightarrow> 'c \<times> (consume_error + 'm) waiting) \<Rightarrow>
   'c \<Rightarrow> ('m + string) list \<Rightarrow> 'c \<times> (string \<times> 'm) list" where
  "run_ops pub con c [] = (c, [])"
| "run_ops pub con c (Inl m # ops) = run_ops pub con (fst (pub c m)) ops"
| "run_ops pub con c (Inr g # ops) =
     (let (c', r) = con c g; (c'', tr) = run_ops pub con c' ops in (c'', map (Pair g) (received_of r) @ tr))"

fun published :: "('m + string) list \<Rightarrow> 'm list" where
  "published [] = []"
| "published (Inl m # ops) = m # published ops"
| "published (Inr g # ops) = published ops"

definition got :: "string \<Rightarrow> (string \<times> 'm) list \<Rightarrow> 'm list" where
  "got g tr = map snd (filter (\<lambda>x. fst x = g) tr)"

lemma got_append [simp]: "got g (a @ b) = got g a @ got g b"
  by (simp add: got_def)

lemma got_Nil [simp]: "got g [] = []"
  by (simp add: got_def)

lemma got_single [simp]: "got g [(h, m)] = (if h = g then [m] else [])"
  by (simp add: got_def)

lemma got_received [simp]: "got g (map (Pair h) ms) = (if h = g then ms else [])"
  by (induction ms) (auto simp: got_def)

text \<open>
  What a client of the \<open>Channel\<close> trait relies on. \<open>backlog c g\<close> are the messages group \<open>g\<close> has yet
  to receive, \<open>groups c\<close> the groups a publication reaches.
\<close>

locale message_channel =
  fixes pub :: "'c \<Rightarrow> 'm \<Rightarrow> 'c \<times> (publish_error + unit) waiting"
    and con :: "'c \<Rightarrow> string \<Rightarrow> 'c \<times> (consume_error + 'm) waiting"
    and reg :: "string \<Rightarrow> 'c \<Rightarrow> 'c"
    and backlog :: "'c \<Rightarrow> string \<Rightarrow> 'm list option"
    and groups :: "'c \<Rightarrow> string list"
    and inv :: "'c \<Rightarrow> bool"
  assumes inv_pub: "inv c \<Longrightarrow> inv (fst (pub c m))"
    and inv_con: "inv c \<Longrightarrow> inv (fst (con c g))"
    and inv_reg: "inv c \<Longrightarrow> inv (reg g c)"
    and con_received: "inv c \<Longrightarrow> con c g = (c', Done (Inr m)) \<Longrightarrow>
      \<exists>ms. backlog c g = Some (m # ms) \<and> backlog c' g = Some ms"
    and con_nothing: "inv c \<Longrightarrow> con c g = (c', r) \<Longrightarrow> (\<And>m. r \<noteq> Done (Inr m)) \<Longrightarrow>
      backlog c' g = Some (unwrap_or (backlog c g) [])"
    and con_other: "inv c \<Longrightarrow> h \<noteq> g \<Longrightarrow> backlog (fst (con c g)) h = backlog c h"
    and pub_any: "inv c \<Longrightarrow> backlog c g = Some ms \<Longrightarrow>
      \<exists>ms'. backlog (fst (pub c m)) g = Some ms' \<and> subseq ms' (ms @ [m])"
    and pub_ok: "inv c \<Longrightarrow> pub c m = (c', Done (Inr ())) \<Longrightarrow> g \<in> set (groups c) \<Longrightarrow>
      \<exists>ms. backlog c' g = Some (ms @ [m])"
    and pub_none: "inv c \<Longrightarrow> backlog c g = None \<Longrightarrow> backlog (fst (pub c m)) g = None"
    and reg_backlog: "inv c \<Longrightarrow> backlog (reg g c) h =
      (if h = g then Some (unwrap_or (backlog c h) []) else backlog c h)"
begin

lemma run_subseq:
  assumes "inv c" and "run_ops pub con c ops = (c', tr)"
  shows "inv c'"
    and "subseq (got g tr @ unwrap_or (backlog c' g) []) (unwrap_or (backlog c g) [] @ published ops)"
proof -
  have "inv c' \<and> subseq (got g tr @ unwrap_or (backlog c' g) []) (unwrap_or (backlog c g) [] @ published ops)"
    using assms
  proof (induction ops arbitrary: c tr)
    case (Cons x ops)
    show ?case
    proof (cases x)
      case (Inl m)
      have "subseq (unwrap_or (backlog (fst (pub c m)) g) []) (unwrap_or (backlog c g) [] @ [m])"
        using pub_any [OF Cons.prems(1), of g _ m] pub_none [OF Cons.prems(1), of g m]
        by (cases "backlog c g") auto
      then have step: "subseq (unwrap_or (backlog (fst (pub c m)) g) [] @ published ops)
          ((unwrap_or (backlog c g) [] @ [m]) @ published ops)"
        by (rule list_emb_append_mono) simp
      have rest: "run_ops pub con (fst (pub c m)) ops = (c', tr)" using Cons.prems(2) Inl by simp
      note ih = Cons.IH [OF inv_pub [OF Cons.prems(1)] rest]
      show ?thesis using ih subseq_order.trans [OF conjunct2 [OF ih] step] by (simp add: Inl)
    next
      case (Inr h)
      obtain c1 r tr1 where r: "con c h = (c1, r)" "run_ops pub con c1 ops = (c', tr1)"
        "tr = map (Pair h) (received_of r) @ tr1"
        using Cons.prems(2) Inr by (auto split: prod.splits)
      have i1: "inv c1" using inv_con [OF Cons.prems(1), of h] r(1) by simp
      have keep: "unwrap_or (backlog c g) [] = got g (map (Pair h) (received_of r)) @ unwrap_or (backlog c1 g) []"
      proof (cases "h = g")
        case True
        show ?thesis
        proof (cases "\<exists>m. r = Done (Inr m)")
          case True
          then obtain m where "r = Done (Inr m)" by blast
          with con_received [OF Cons.prems(1), of h c1 m] r(1) \<open>h = g\<close> show ?thesis by auto
        next
          case False
          then have "received_of r = []" by (cases r rule: received_of.cases) auto
          with con_nothing [OF Cons.prems(1) r(1)] False \<open>h = g\<close> show ?thesis by auto
        qed
      next
        case False
        with con_other [OF Cons.prems(1), of g h] r(1) show ?thesis by simp
      qed
      show ?thesis using Cons.IH [OF i1 r(2)] by (simp add: Inr keep r(3) list_emb_append_mono)
    qed
  qed simp
  then show "inv c'" "subseq (got g tr @ unwrap_or (backlog c' g) []) (unwrap_or (backlog c g) [] @ published ops)"
    by auto
qed

end

subsection \<open>The local channel keeps the contract\<close>

definition backlog ::
  "('q, 'm) mpsc_ops \<Rightarrow> ('b, 'm) broadcast_ops \<Rightarrow> ('q, 'b) local_channel \<Rightarrow> string \<Rightarrow> 'm list option" where
  "backlog mp bo c g =
     (case lc_inner c of
        BlockI senders receivers \<Rightarrow> map_option (mp_items mp) (hm_get g receivers)
      | DropOldestI b receivers \<Rightarrow> map_option (\<lambda>rx. bo_items bo rx b) (hm_get g receivers))"

definition groups :: "('q, 'b) local_channel \<Rightarrow> string list" where
  "groups c = (case lc_inner c of BlockI senders receivers \<Rightarrow> senders | DropOldestI b receivers \<Rightarrow> hm_keys receivers)"

text \<open>The invariant of a local channel over queues that behave as documented.\<close>

definition channel_inv ::
  "('q, 'm) mpsc_ops \<Rightarrow> ('b, 'm) broadcast_ops \<Rightarrow> ('q, 'b) local_channel \<Rightarrow> bool" where
  "channel_inv mp bo c \<longleftrightarrow>
     mpsc_spec mp \<and> broadcast_spec bo \<and> 0 < lc_capacity c \<and>
     (case lc_inner c of
        BlockI senders receivers \<Rightarrow>
          distinct senders \<and> set senders \<subseteq> set (hm_keys receivers) \<and> hm_wf receivers \<and>
          (\<forall>(g, q) \<in> set receivers. mp_capacity mp q = lc_capacity c \<and> length (mp_items mp q) \<le> lc_capacity c)
      | DropOldestI b receivers \<Rightarrow>
          hm_wf receivers \<and> distinct (map snd receivers) \<and> bo_receivers bo b = map snd receivers)"

lemma mpsc_newD: "mpsc_spec mp \<Longrightarrow> 0 < c \<Longrightarrow> mp_items mp (mp_new mp c) = [] \<and> mp_capacity mp (mp_new mp c) = c"
  by (simp add: mpsc_spec_def mpsc_new_ok_def)

lemma mpsc_send_okD:
  "mpsc_spec mp \<Longrightarrow> case mp_send mp m q of
        None \<Rightarrow> mp_capacity mp q \<le> length (mp_items mp q)
      | Some q' \<Rightarrow> length (mp_items mp q) < mp_capacity mp q \<and>
          mp_items mp q' = mp_items mp q @ [m] \<and> mp_capacity mp q' = mp_capacity mp q"
  by (simp add: mpsc_spec_def mpsc_send_ok_def)

lemma mpsc_recv_okD:
  "mpsc_spec mp \<Longrightarrow> case mp_recv mp q of
        None \<Rightarrow> mp_items mp q = []
      | Some (m, q') \<Rightarrow> mp_items mp q = m # mp_items mp q' \<and> mp_capacity mp q' = mp_capacity mp q"
  by (simp add: mpsc_spec_def mpsc_recv_ok_def)

lemma broadcast_subscribe_okD:
  "broadcast_spec bo \<Longrightarrow> case bo_subscribe bo b of (rx, b') \<Rightarrow>
     rx \<notin> set (bo_receivers bo b) \<and> bo_receivers bo b' = bo_receivers bo b @ [rx] \<and>
     bo_items bo rx b' = [] \<and> (\<forall>r. r \<noteq> rx \<longrightarrow> bo_items bo r b' = bo_items bo r b)"
  unfolding broadcast_spec_def broadcast_subscribe_ok_def by (elim conjE) (erule allE, assumption)

lemma broadcast_send_okD:
  "broadcast_spec bo \<Longrightarrow> case bo_send bo m b of
        None \<Rightarrow> bo_receivers bo b = []
      | Some b' \<Rightarrow> bo_receivers bo b \<noteq> [] \<and> bo_receivers bo b' = bo_receivers bo b \<and>
          (\<forall>r \<in> set (bo_receivers bo b). \<exists>dropped. bo_items bo r b @ [m] = dropped @ bo_items bo r b' \<and>
             bo_items bo r b' \<noteq> [])"
  unfolding broadcast_spec_def broadcast_send_ok_def by (elim conjE) (erule allE, erule allE, assumption)

lemma broadcast_recv_okD:
  "broadcast_spec bo \<Longrightarrow> case bo_recv bo r b of (res, b') \<Rightarrow>
     bo_receivers bo b' = bo_receivers bo b \<and> (\<forall>r'. r' \<noteq> r \<longrightarrow> bo_items bo r' b' = bo_items bo r' b) \<and>
     (case res of
        Received m \<Rightarrow> bo_items bo r b = m # bo_items bo r b'
      | NothingYet \<Rightarrow> bo_items bo r b = [] \<and> bo_items bo r b' = []
      | Lagged n \<Rightarrow> bo_items bo r b' = bo_items bo r b \<and> bo_items bo r b \<noteq> [] \<and>
          (\<forall>k. fst (bo_recv bo r b') \<noteq> Lagged k)
      | SenderGone \<Rightarrow> False)"
  unfolding broadcast_spec_def broadcast_recv_ok_def by (elim conjE) (erule allE, erule allE, assumption)

subsubsection \<open>Sends\<close>

definition queues_ok :: "('q, 'm) mpsc_ops \<Rightarrow> nat \<Rightarrow> 'q hmap \<Rightarrow> bool" where
  "queues_ok mp cap receivers \<longleftrightarrow>
     (\<forall>(g, q) \<in> set receivers. mp_capacity mp q = cap \<and> length (mp_items mp q) \<le> cap)"

lemma queues_ok_get: "queues_ok mp cap r \<Longrightarrow> hm_get g r = Some q \<Longrightarrow>
  mp_capacity mp q = cap \<and> length (mp_items mp q) \<le> cap"
  by (auto simp: queues_ok_def dest!: map_of_SomeD)

lemma queues_ok_insert:
  assumes "queues_ok mp cap r" and "mp_capacity mp q = cap" and "length (mp_items mp q) \<le> cap" and "hm_wf r"
  shows "queues_ok mp cap (hm_insert g q r)"
  unfolding queues_ok_def
proof (clarify)
  fix h p assume "(h, p) \<in> set (hm_insert g q r)"
  then have "hm_get h (hm_insert g q r) = Some p"
    by (rule map_of_is_SomeI [OF hm_wf_insert [OF assms(4)]])
  then show "mp_capacity mp p = cap \<and> length (mp_items mp p) \<le> cap"
    using assms queues_ok_get [OF assms(1)] by (auto split: if_splits)
qed

lemma send_to_spec:
  assumes "mpsc_spec mp" and "send_to mp t m r g = (r', res)" and "hm_get g r = Some q"
  shows "if res = Done (Inr ())
         then \<exists>q'. r' = hm_insert g q' r \<and> mp_items mp q' = mp_items mp q @ [m] \<and>
                mp_capacity mp q' = mp_capacity mp q \<and> length (mp_items mp q) < mp_capacity mp q
         else r' = r \<and> mp_capacity mp q \<le> length (mp_items mp q)"
proof (cases "mp_send mp m q")
  case None
  with assms mpsc_send_okD [OF assms(1), where m = m and q = q] show ?thesis by (auto simp: send_to_def split: if_splits)
next
  case (Some q')
  with assms mpsc_send_okD [OF assms(1), where m = m and q = q] show ?thesis by (auto simp: send_to_def)
qed

text \<open>A publication reaches a prefix of the groups, in order; all of them exactly when it succeeds.\<close>

lemma send_all_spec:
  assumes "mpsc_spec mp" and "send_all mp t m r gs = (r', res)" and "distinct gs"
    and "set gs \<subseteq> set (hm_keys r)" and "hm_wf r" and "queues_ok mp cap r"
  shows "hm_wf r' \<and> hm_keys r' = hm_keys r \<and> queues_ok mp cap r' \<and>
    (\<exists>k \<le> length gs. (res = Done (Inr ()) \<longleftrightarrow> k = length gs) \<and>
       (\<forall>h. map_option (mp_items mp) (hm_get h r') =
            map_option (\<lambda>q. mp_items mp q @ (if h \<in> set (take k gs) then [m] else [])) (hm_get h r)) \<and>
       (k < length gs \<longrightarrow> (\<exists>q. hm_get (gs ! k) r = Some q \<and> cap \<le> length (mp_items mp q))))"
  using assms
proof (induction gs arbitrary: r)
  case (Cons g gs)
  obtain q where q: "hm_get g r = Some q"
    using Cons.prems(4) by (cases "hm_get g r") (auto simp: map_of_eq_None_iff)
  obtain r1 res1 where s: "send_to mp t m r g = (r1, res1)" by force
  note spec = send_to_spec [OF Cons.prems(1) s q]
  show ?case
  proof (cases "res1 = Done (Inr ())")
    case True
    then obtain q' where q': "r1 = hm_insert g q' r" "mp_items mp q' = mp_items mp q @ [m]"
      "mp_capacity mp q' = mp_capacity mp q" "length (mp_items mp q) < mp_capacity mp q"
      using spec by auto
    have keys: "hm_keys r1 = hm_keys r"
      using q by (force simp: q'(1) hm_insert_def update_keys dest: map_of_SomeD)
    have cap: "mp_capacity mp q = cap" using queues_ok_get [OF Cons.prems(6) q] by simp
    have ok1: "queues_ok mp cap r1"
      unfolding q'(1) using Cons.prems(5,6) q' cap by (intro queues_ok_insert) auto
    have run: "send_all mp t m r1 gs = (r', res)" using Cons.prems(2) s True by simp
    have prems: "distinct gs" "set gs \<subseteq> set (hm_keys r1)" "hm_wf r1"
      using Cons.prems keys by auto
    from Cons.IH [OF Cons.prems(1) run prems ok1] obtain k where
      ih: "hm_wf r'" "hm_keys r' = hm_keys r1" "queues_ok mp cap r'" "k \<le> length gs"
      "res = Done (Inr ()) \<longleftrightarrow> k = length gs"
      "\<And>h. map_option (mp_items mp) (hm_get h r') =
         map_option (\<lambda>q. mp_items mp q @ (if h \<in> set (take k gs) then [m] else [])) (hm_get h r1)"
      "k < length gs \<longrightarrow> (\<exists>q. hm_get (gs ! k) r1 = Some q \<and> cap \<le> length (mp_items mp q))"
      by blast
    have notin: "g \<notin> set (take k gs)" using Cons.prems(3) by (auto dest: in_set_takeD)
    have items: "map_option (mp_items mp) (hm_get h r') =
         map_option (\<lambda>q. mp_items mp q @ (if h \<in> set (take (Suc k) (g # gs)) then [m] else [])) (hm_get h r)" for h
      using ih(6) [of h] notin q q' by (cases "h = g") auto
    have full: "Suc k < length (g # gs) \<longrightarrow> (\<exists>q. hm_get ((g # gs) ! Suc k) r = Some q \<and> cap \<le> length (mp_items mp q))"
      using ih(7) Cons.prems(3) by (auto simp: q'(1) split: if_splits)
    show ?thesis
      using ih(1-5) keys items full by (intro conjI exI [of _ "Suc k"]) auto
  next
    case False
    then have st: "(r', res) = (r1, res1)" using Cons.prems(2) s by (auto split: waiting.splits sum.splits)
    with False spec queues_ok_get [OF Cons.prems(6) q] Cons.prems(5,6) q show ?thesis
      by (intro conjI exI [of _ 0]) (auto simp: map_option_case split: option.splits)
  qed
qed simp

subsubsection \<open>Groups\<close>

lemma channel_inv_specs:
  "channel_inv mp bo c \<Longrightarrow> mpsc_spec mp" "channel_inv mp bo c \<Longrightarrow> broadcast_spec bo"
  "channel_inv mp bo c \<Longrightarrow> 0 < lc_capacity c"
  by (simp_all add: channel_inv_def)

lemma channel_inv_Block:
  "lc_inner c = BlockI senders receivers \<Longrightarrow> channel_inv mp bo c \<longleftrightarrow>
     mpsc_spec mp \<and> broadcast_spec bo \<and> 0 < lc_capacity c \<and> distinct senders \<and>
     set senders \<subseteq> set (hm_keys receivers) \<and> hm_wf receivers \<and> queues_ok mp (lc_capacity c) receivers"
  by (auto simp: channel_inv_def queues_ok_def)

lemma channel_inv_DropOldest:
  "lc_inner c = DropOldestI b receivers \<Longrightarrow> channel_inv mp bo c \<longleftrightarrow>
     mpsc_spec mp \<and> broadcast_spec bo \<and> 0 < lc_capacity c \<and> hm_wf receivers \<and>
     distinct (map snd receivers) \<and> bo_receivers bo b = map snd receivers"
  by (simp add: channel_inv_def)

lemma hs_insert_props: "distinct s \<Longrightarrow> distinct (hs_insert x s)" "set (hs_insert x s) = insert x (set s)"
  by (auto simp: hs_insert_def)

lemma receiver_injective:
  "distinct (map snd receivers) \<Longrightarrow> hm_wf receivers \<Longrightarrow> hm_get g receivers = Some rx \<Longrightarrow>
   hm_get h receivers = Some rx \<Longrightarrow> g = h"
  by (induction receivers) (force split: if_splits dest: map_of_SomeD)+

lemma receiver_listed: "hm_get g receivers = Some rx \<Longrightarrow> rx \<in> set (map snd receivers)"
  by (force dest: map_of_SomeD)

lemma init_group_contract:
  assumes "channel_inv mp bo c"
  shows "channel_inv mp bo (init_group mp bo g c)"
    and "backlog mp bo (init_group mp bo g c) h =
      (if h = g then Some (unwrap_or (backlog mp bo c h) []) else backlog mp bo c h)"
proof -
  note sp = channel_inv_specs [OF assms]
  have "channel_inv mp bo (init_group mp bo g c) \<and> backlog mp bo (init_group mp bo g c) h =
      (if h = g then Some (unwrap_or (backlog mp bo c h) []) else backlog mp bo c h)"
  proof (cases "lc_inner c")
    case (BlockI senders receivers)
    note inv = assms [unfolded channel_inv_Block [OF BlockI]]
    show ?thesis
    proof (cases "hm_has g receivers")
      case True
      then obtain q where "hm_get g receivers = Some q" by (auto simp: hm_has_iff)
      with True BlockI assms show ?thesis by (auto simp: init_group_def backlog_def)
    next
      case False
      let ?q = "mp_new mp (lc_capacity c)" and ?c = "init_group mp bo g c"
      have c: "lc_inner ?c = BlockI (hs_insert g senders) (hm_insert g ?q receivers)"
        "lc_capacity ?c = lc_capacity c"
        using False by (simp_all add: init_group_def BlockI)
      have q: "mp_items mp ?q = []" "mp_capacity mp ?q = lc_capacity c" using mpsc_newD [OF sp(1,3)] by auto
      have ok: "queues_ok mp (lc_capacity c) (hm_insert g ?q receivers)"
        using inv q by (intro queues_ok_insert) auto
      have "set senders \<subseteq> set (hm_keys receivers)" using inv by blast
      then have "set (hs_insert g senders) \<subseteq> set (hm_keys (hm_insert g ?q receivers))"
        unfolding hs_insert_props hm_keys_insert by blast
      then have "channel_inv mp bo ?c"
        unfolding channel_inv_Block [OF c(1)] using inv c(2) ok by (simp add: hs_insert_props hm_wf_insert)
      moreover have "hm_get g receivers = None" using False by (auto simp: hm_has_iff)
      ultimately show ?thesis using q by (auto simp: backlog_def c BlockI)
    qed
  next
    case (DropOldestI b receivers)
    note inv = assms [unfolded channel_inv_DropOldest [OF DropOldestI]]
    show ?thesis
    proof (cases "hm_has g receivers")
      case True
      then obtain q where "hm_get g receivers = Some q" by (auto simp: hm_has_iff)
      with True DropOldestI assms show ?thesis by (auto simp: init_group_def backlog_def)
    next
      case False
      obtain rx b' where rb: "bo_subscribe bo b = (rx, b')" by force
      have sub: "rx \<notin> set (bo_receivers bo b)" "bo_receivers bo b' = bo_receivers bo b @ [rx]"
        "bo_items bo rx b' = []" "\<And>r. r \<noteq> rx \<Longrightarrow> bo_items bo r b' = bo_items bo r b"
        using broadcast_subscribe_okD [OF sp(2), of b] rb by auto
      let ?c = "init_group mp bo g c"
      have c: "lc_inner ?c = DropOldestI b' (receivers @ [(g, rx)])" "lc_capacity ?c = lc_capacity c"
        using False by (simp_all add: init_group_def DropOldestI rb hm_insert_new)
      have new: "hm_get g receivers = None" using False by (auto simp: hm_has_iff)
      have fresh: "g \<notin> set (hm_keys receivers)" by (rule False [unfolded hm_has_def])
      have "channel_inv mp bo ?c"
        unfolding channel_inv_DropOldest [OF c(1)] using inv c(2) sub(1,2) fresh by auto
      moreover have "hm_get h (receivers @ [(g, rx)]) = (if h = g then Some rx else hm_get h receivers)"
        using new by (auto simp: map_add_def split: option.splits)
      moreover have "bo_items bo r b' = bo_items bo r b" if "hm_get h receivers = Some r" for r
        using receiver_listed [OF that] sub(1,4) inv by metis
      ultimately show ?thesis using sub(3) new
        by (auto simp: backlog_def c(1) DropOldestI map_option_case split: option.splits)
    qed
  qed
  then show "channel_inv mp bo (init_group mp bo g c)"
    and "backlog mp bo (init_group mp bo g c) h =
      (if h = g then Some (unwrap_or (backlog mp bo c h) []) else backlog mp bo c h)" by auto
qed

subsubsection \<open>Publishing\<close>

lemma publish_block_contract:
  assumes "channel_inv mp bo c" and "lc_inner c = BlockI senders receivers" and "publish mp bo c m = (c', res)"
  shows "channel_inv mp bo c' \<and> groups c' = senders \<and>
    (\<exists>k \<le> length senders. (res = Done (Inr ()) \<longleftrightarrow> senders \<noteq> [] \<and> k = length senders) \<and>
       (\<forall>h. backlog mp bo c' h =
          map_option (\<lambda>ms. ms @ (if h \<in> set (take k senders) then [m] else [])) (backlog mp bo c h)) \<and>
       (k < length senders \<longrightarrow>
          (\<exists>ms. backlog mp bo c (senders ! k) = Some ms \<and> lc_capacity c \<le> length ms)))"
proof (cases "senders = []")
  case True
  with assms have "c' = c" "res \<noteq> Done (Inr ())" by (auto simp: publish_def no_receivers_def)
  with True assms show ?thesis by (auto simp: groups_def map_option_case backlog_def split: option.splits)
next
  case False
  note inv = assms(1) [unfolded channel_inv_Block [OF assms(2)]]
  obtain r' where run: "send_all mp (lc_publish_timeout c) m receivers senders = (r', res)"
    and c': "c' = c \<lparr> lc_inner := BlockI senders r' \<rparr>"
    using assms(2,3) False by (auto simp: publish_def split: prod.splits)
  have inner: "lc_inner c' = BlockI senders r'" "lc_capacity c' = lc_capacity c" by (simp_all add: c')
  have prem: "mpsc_spec mp" "distinct senders" "set senders \<subseteq> set (hm_keys receivers)" "hm_wf receivers"
    "queues_ok mp (lc_capacity c) receivers" using inv by blast+
  from send_all_spec [OF prem(1) run prem(2-5)] obtain k where
    k: "hm_wf r'" "hm_keys r' = hm_keys receivers" "queues_ok mp (lc_capacity c) r'" "k \<le> length senders"
    "res = Done (Inr ()) \<longleftrightarrow> k = length senders"
    "\<And>h. map_option (mp_items mp) (hm_get h r') =
       map_option (\<lambda>q. mp_items mp q @ (if h \<in> set (take k senders) then [m] else [])) (hm_get h receivers)"
    "k < length senders \<longrightarrow> (\<exists>q. hm_get (senders ! k) receivers = Some q \<and> lc_capacity c \<le> length (mp_items mp q))"
    by blast
  have "channel_inv mp bo c'"
    unfolding channel_inv_Block [OF inner(1)] using inv k(1-3) inner(2) by auto
  moreover have "backlog mp bo c' h =
      map_option (\<lambda>ms. ms @ (if h \<in> set (take k senders) then [m] else [])) (backlog mp bo c h)" for h
    using k(6) [of h] by (simp add: backlog_def inner assms(2) option.map_comp comp_def)
  ultimately show ?thesis
    using k(4,5,7) False by (intro conjI exI [of _ k]) (auto simp: groups_def inner backlog_def assms(2))
qed

lemma publish_drop_contract:
  assumes "channel_inv mp bo c" and "lc_inner c = DropOldestI b receivers" and "publish mp bo c m = (c', res)"
  shows "channel_inv mp bo c' \<and> groups c' = groups c \<and> (res = Done (Inr ()) \<longleftrightarrow> receivers \<noteq> []) \<and> res \<noteq> Waits \<and>
    (\<forall>h. backlog mp bo c h = None \<longrightarrow> backlog mp bo c' h = None) \<and>
    (\<forall>h ms. backlog mp bo c h = Some ms \<longrightarrow>
       (\<exists>dropped ms'. backlog mp bo c' h = Some (ms' @ [m]) \<and> ms = dropped @ ms'))"
proof -
  note inv = assms(1) [unfolded channel_inv_DropOldest [OF assms(2)]]
  note sp = channel_inv_specs [OF assms(1)]
  show ?thesis
  proof (cases "bo_send bo m b")
    case None
    then have "receivers = []" using broadcast_send_okD [OF sp(2), where m = m and b = b] inv by simp
    with None assms show ?thesis
      by (auto simp: publish_def backlog_def no_receivers_def)
  next
    case (Some b')
    then have s: "bo_receivers bo b' = map snd receivers" "receivers \<noteq> []"
      "\<And>r. r \<in> set (map snd receivers) \<Longrightarrow> \<exists>dropped. bo_items bo r b @ [m] = dropped @ bo_items bo r b' \<and>
             bo_items bo r b' \<noteq> []"
      using broadcast_send_okD [OF sp(2), where m = m and b = b] inv by auto
    have c': "c' = c \<lparr> lc_inner := DropOldestI b' receivers \<rparr>" "res = Done (Inr ())"
      using assms(2,3) Some by (auto simp: publish_def)
    have inner: "lc_inner c' = DropOldestI b' receivers" "lc_capacity c' = lc_capacity c" by (simp_all add: c')
    have "channel_inv mp bo c'"
      unfolding channel_inv_DropOldest [OF inner(1)] using inv s(1) inner(2) by simp
    moreover have "\<exists>dropped ms'. backlog mp bo c' h = Some (ms' @ [m]) \<and> ms = dropped @ ms'"
      if h: "backlog mp bo c h = Some ms" for h ms
    proof -
      from h obtain rx where rx: "hm_get h receivers = Some rx" "ms = bo_items bo rx b"
        by (auto simp: backlog_def assms(2))
      from s(3) [OF receiver_listed [OF rx(1)]] obtain d where
        d: "ms @ [m] = d @ bo_items bo rx b'" "bo_items bo rx b' \<noteq> []" by (auto simp: rx(2))
      then have "bo_items bo rx b' = butlast (bo_items bo rx b') @ [m]"
        by (metis append_butlast_last_id last_appendR last_snoc)
      with d have "ms = d @ butlast (bo_items bo rx b')" by (metis append.assoc append_same_eq)
      with \<open>bo_items bo rx b' = butlast (bo_items bo rx b') @ [m]\<close> show ?thesis
        by (auto simp: backlog_def inner rx(1))
    qed
    ultimately show ?thesis using c'(2) s(2) by (auto simp: groups_def inner assms(2) backlog_def)
  qed
qed

subsubsection \<open>Consuming\<close>

lemma receive_block_spec:
  assumes "mpsc_spec mp" and "receive_block mp t connected q = (q', res)"
  shows "(case res of
     Done (Inr m) \<Rightarrow> mp_items mp q = m # mp_items mp q' \<and> mp_capacity mp q' = mp_capacity mp q
   | Done (Inl (CClosed r)) \<Rightarrow> q' = q \<and> mp_items mp q = [] \<and> \<not> connected
   | Done (Inl (CTimeout r)) \<Rightarrow> q' = q \<and> mp_items mp q = [] \<and> connected \<and> 0 \<le> t
   | Waits \<Rightarrow> q' = q \<and> mp_items mp q = [] \<and> connected \<and> t < 0)"
  using assms(2) mpsc_recv_okD [OF assms(1), of q]
  by (auto simp: receive_block_def nothing_available_def split: option.splits prod.splits if_splits)

lemma receive_broadcast_spec:
  assumes "broadcast_spec bo" and "receive_broadcast bo t rx b = (b', res)"
  shows "bo_receivers bo b' = bo_receivers bo b \<and> (\<forall>r. r \<noteq> rx \<longrightarrow> bo_items bo r b' = bo_items bo r b) \<and>
    (case res of
       Done (Inr m) \<Rightarrow> bo_items bo rx b = m # bo_items bo rx b'
     | Done (Inl (CClosed r)) \<Rightarrow> False
     | Done (Inl (CTimeout r)) \<Rightarrow> bo_items bo rx b' = bo_items bo rx b \<and> 0 \<le> t \<and>
         (bo_items bo rx b = [] \<or> t = 0 \<and> (\<exists>n. fst (bo_recv bo rx b) = Lagged n))
     | Waits \<Rightarrow> bo_items bo rx b' = bo_items bo rx b \<and> bo_items bo rx b = [] \<and> t < 0)"
proof -
  obtain r1 b1 where r1: "bo_recv bo rx b = (r1, b1)" by force
  note one = broadcast_recv_okD [OF assms(1), where r = rx and b = b, unfolded r1 prod.case]
  show ?thesis
  proof (cases "(\<exists>n. r1 = Lagged n) \<and> t \<noteq> 0")
    case True
    then obtain n where n: "r1 = Lagged n" by blast
    obtain r2 b2 where r2: "bo_recv bo rx b1 = (r2, b2)" by force
    note two = broadcast_recv_okD [OF assms(1), where r = rx and b = b1, unfolded r2 prod.case]
    have nl: "r2 \<noteq> Lagged k" for k using one n r2 by auto
    show ?thesis
      using assms(2) True n one two nl
      by (cases r2) (auto simp: receive_broadcast_def r1 r2 nothing_available_def split: if_splits)
  next
    case False
    then show ?thesis
      using assms(2) one
      by (cases r1) (auto simp: receive_broadcast_def r1 nothing_available_def split: if_splits)
  qed
qed

lemma consume_contract:
  assumes "channel_inv mp bo c0" and "consume mp bo held c0 g = (c', res)"
  shows "channel_inv mp bo c' \<and> groups c' = groups (init_group mp bo g c0) \<and>
    (\<forall>h. h \<noteq> g \<longrightarrow> backlog mp bo c' h = backlog mp bo c0 h) \<and>
    (case res of
       Done (Inr m) \<Rightarrow> \<exists>ms. backlog mp bo c0 g = Some (m # ms) \<and> backlog mp bo c' g = Some ms
     | _ \<Rightarrow> backlog mp bo c' g = Some (unwrap_or (backlog mp bo c0 g) []))"
proof -
  let ?c = "init_group mp bo g c0"
  note ini = init_group_contract [OF assms(1), of g]
  note sp = channel_inv_specs [OF ini(1)]
  have keep: "backlog mp bo c0 g = Some (m # ms)" if "backlog mp bo ?c g = Some (m # ms)" for m ms
    using that ini(2) [of g] by (cases "backlog mp bo c0 g") auto
  show ?thesis
  proof (cases "lc_inner ?c")
    case (BlockI senders receivers)
    note inv = ini(1) [unfolded channel_inv_Block [OF BlockI]]
    obtain q where q: "hm_get g receivers = Some q"
      using ini(2) [of g] BlockI by (auto simp: backlog_def)
    obtain q' where run: "receive_block mp (lc_consume_timeout ?c) (g \<in> set senders \<or> g \<in> set held) q = (q', res)"
      and c': "c' = ?c \<lparr> lc_inner := BlockI senders (hm_insert g q' receivers) \<rparr>"
      using assms(2) BlockI q by (auto simp: consume_def Let_def split: prod.splits)
    have inner: "lc_inner c' = BlockI senders (hm_insert g q' receivers)" "lc_capacity c' = lc_capacity ?c"
      by (simp_all add: c')
    note spec = receive_block_spec [OF sp(1) run]
    have "mp_capacity mp q' = mp_capacity mp q \<and> length (mp_items mp q') \<le> length (mp_items mp q)"
      using spec by (auto split: waiting.splits sum.splits consume_error.splits)
    note cap = this
    have ok: "queues_ok mp (lc_capacity ?c) (hm_insert g q' receivers)"
    proof (intro queues_ok_insert)
      show "queues_ok mp (lc_capacity ?c) receivers" "hm_wf receivers" using inv by auto
      then show "mp_capacity mp q' = lc_capacity ?c" "length (mp_items mp q') \<le> lc_capacity ?c"
        using cap queues_ok_get [OF _ q] by fastforce+
    qed
    have "set senders \<subseteq> insert g (set (hm_keys receivers))" using inv by blast
    then have "channel_inv mp bo c'"
      unfolding channel_inv_Block [OF inner(1)] using inv ok inner(2)
      by (simp only: hm_keys_insert hm_wf_insert simp_thms)
    moreover have "groups c' = groups ?c" by (simp add: groups_def inner BlockI)
    moreover have old: "unwrap_or (backlog mp bo c0 g) [] = mp_items mp q"
      using ini(2) [of g] q by (simp add: backlog_def [of mp bo ?c] BlockI)
    moreover have new: "backlog mp bo c' h = (if h = g then Some (mp_items mp q') else backlog mp bo c0 h)" for h
      using ini(2) [of h] by (auto simp: backlog_def [of mp bo ?c] backlog_def [of mp bo c'] inner BlockI)
    moreover have "backlog mp bo ?c g = Some (mp_items mp q)" by (simp add: backlog_def BlockI q)
    ultimately show ?thesis
      using spec keep by (auto split: waiting.splits sum.splits consume_error.splits)
  next
    case (DropOldestI b receivers)
    note inv = ini(1) [unfolded channel_inv_DropOldest [OF DropOldestI]]
    obtain rx where rx: "hm_get g receivers = Some rx"
      using ini(2) [of g] DropOldestI by (auto simp: backlog_def)
    obtain b' where run: "receive_broadcast bo (lc_consume_timeout ?c) rx b = (b', res)"
      and c': "c' = ?c \<lparr> lc_inner := DropOldestI b' receivers \<rparr>"
      using assms(2) DropOldestI rx by (auto simp: consume_def Let_def split: prod.splits)
    have inner: "lc_inner c' = DropOldestI b' receivers" "lc_capacity c' = lc_capacity ?c" by (simp_all add: c')
    note spec = receive_broadcast_spec [OF sp(2) run]
    have others: "\<And>r. r \<noteq> rx \<Longrightarrow> bo_items bo r b' = bo_items bo r b" using spec by blast
    have "channel_inv mp bo c'"
      unfolding channel_inv_DropOldest [OF inner(1)] using inv spec inner(2) by auto
    moreover have "groups c' = groups ?c" by (simp add: groups_def inner DropOldestI)
    moreover have b: "backlog mp bo ?c g = Some (bo_items bo rx b)" by (simp add: backlog_def DropOldestI rx)
    moreover have old: "unwrap_or (backlog mp bo c0 g) [] = bo_items bo rx b" using ini(2) [of g] b by simp
    moreover have new: "backlog mp bo c' g = Some (bo_items bo rx b')" by (simp add: backlog_def inner rx)
    moreover have "backlog mp bo c' h = backlog mp bo c0 h" if "h \<noteq> g" for h
    proof -
      have "r \<noteq> rx" if "hm_get h receivers = Some r" for r
        using receiver_injective [of receivers h r g] inv that rx \<open>h \<noteq> g\<close> by auto
      then have "backlog mp bo c' h = backlog mp bo ?c h"
        using others by (auto simp: backlog_def inner DropOldestI map_option_case split: option.splits)
      with ini(2) [of h] that show ?thesis by simp
    qed
    moreover have "case res of
       Done (Inr m) \<Rightarrow> \<exists>ms. backlog mp bo c0 g = Some (m # ms) \<and> backlog mp bo c' g = Some ms
     | _ \<Rightarrow> backlog mp bo c' g = Some (unwrap_or (backlog mp bo c0 g) [])"
    proof (cases "\<exists>m. res = Done (Inr m)")
      case True
      then obtain m where m: "res = Done (Inr m)" by blast
      with spec have "bo_items bo rx b = m # bo_items bo rx b'" by simp
      with keep b new m show ?thesis by simp
    next
      case False
      then have "bo_items bo rx b' = bo_items bo rx b"
        using conjunct2 [OF conjunct2 [OF spec]]
        by (cases res; cases "case res of Done (Inl e) \<Rightarrow> e | _ \<Rightarrow> CClosed []")
          (simp_all split: sum.splits)
      with old new have "backlog mp bo c' g = Some (unwrap_or (backlog mp bo c0 g) [])" by simp
      with False show ?thesis by (simp split: waiting.splits sum.splits)
    qed
    ultimately show ?thesis by blast
  qed
qed

lemma publish_contract:
  assumes "channel_inv mp bo c" and "publish mp bo c m = (c', res)"
  shows "backlog mp bo c g = Some ms \<Longrightarrow> \<exists>ms'. backlog mp bo c' g = Some ms' \<and> subseq ms' (ms @ [m])"
    and "res = Done (Inr ()) \<Longrightarrow> g \<in> set (groups c) \<Longrightarrow> \<exists>ms. backlog mp bo c' g = Some (ms @ [m])"
    and "backlog mp bo c g = None \<Longrightarrow> backlog mp bo c' g = None"
proof -
  have "(\<forall>ms. backlog mp bo c g = Some ms \<longrightarrow> (\<exists>ms'. backlog mp bo c' g = Some ms' \<and> subseq ms' (ms @ [m]))) \<and>
     (res = Done (Inr ()) \<longrightarrow> g \<in> set (groups c) \<longrightarrow> (\<exists>ms. backlog mp bo c' g = Some (ms @ [m]))) \<and>
     (backlog mp bo c g = None \<longrightarrow> backlog mp bo c' g = None)"
  proof (cases "lc_inner c")
    case (BlockI senders receivers)
    note inv = assms(1) [unfolded channel_inv_Block [OF BlockI]]
    have some: "\<exists>ms. backlog mp bo c g = Some ms" if "g \<in> set senders"
      using that inv by (cases "hm_get g receivers") (auto simp: backlog_def BlockI map_of_eq_None_iff)
    from publish_block_contract [OF assms(1) BlockI assms(2)] some show ?thesis
      by (force simp: groups_def BlockI)
  next
    case (DropOldestI b receivers)
    have some: "\<exists>ms. backlog mp bo c g = Some ms" if "g \<in> set (hm_keys receivers)"
      using that by (cases "hm_get g receivers") (auto simp: backlog_def DropOldestI map_of_eq_None_iff)
    from publish_drop_contract [OF assms(1) DropOldestI assms(2)] some show ?thesis
      by (force simp: groups_def DropOldestI)
  qed
  then show "backlog mp bo c g = Some ms \<Longrightarrow> \<exists>ms'. backlog mp bo c' g = Some ms' \<and> subseq ms' (ms @ [m])"
    and "res = Done (Inr ()) \<Longrightarrow> g \<in> set (groups c) \<Longrightarrow> \<exists>ms. backlog mp bo c' g = Some (ms @ [m])"
    and "backlog mp bo c g = None \<Longrightarrow> backlog mp bo c' g = None"
    by auto
qed

interpretation lc: message_channel "publish mp bo" "consume mp bo []" "init_group mp bo" "backlog mp bo" groups
    "channel_inv mp bo"
  for mp :: "('q, 'm) mpsc_ops" and bo :: "('b, 'm) broadcast_ops"
proof (unfold_locales, goal_cases)
  case (1 c m)
  then show ?case
    by (cases "lc_inner c"; cases "publish mp bo c m")
      (auto dest: publish_block_contract publish_drop_contract)
next
  case (2 c g)
  then show ?case by (cases "consume mp bo [] c g") (auto dest: consume_contract)
next
  case (3 c g)
  then show ?case by (rule init_group_contract(1))
next
  case (4 c g c' m)
  then show ?case using consume_contract [OF 4] by simp
next
  case (5 c g c' r)
  then show ?case using consume_contract [OF 5(1,2)] by (auto split: waiting.splits sum.splits)
next
  case (6 c h g)
  then show ?case using consume_contract [OF 6(1)] by (cases "consume mp bo [] c g") auto
next
  case (7 c g ms m)
  then show ?case using publish_contract(1) [OF 7(1) _ 7(2), of m] by (cases "publish mp bo c m") auto
next
  case (8 c m c' g)
  then show ?case using publish_contract(2) [OF 8(1,2)] by simp
next
  case (9 c g m)
  then show ?case using publish_contract(3) [OF 9(1)] by (cases "publish mp bo c m") auto
next
  case (10 c g h)
  then show ?case by (rule init_group_contract(2))
qed

subsection \<open>Sequential runs\<close>

text \<open>
  Whatever the overflow mode and the timeouts, a consumer group receives messages in the order
  they were published, none twice and none that was not published: over any run of publishing and
  consuming, what the group received and what it has left are a subsequence of what it had and
  what was published.
\<close>

theorem channel_delivers_in_order:
  assumes "channel_inv mp bo c"
    and "run_ops (publish mp bo) (consume mp bo []) c ops = (c', tr)"
  shows "subseq (got g tr @ unwrap_or (backlog mp bo c' g) [])
           (unwrap_or (backlog mp bo c g) [] @ published ops)"
  by (rule lc.run_subseq(2) [OF assms])

text \<open>
  Publishing to a blocking channel reaches all its groups or a prefix of them: it succeeds
  exactly when there is a group and each one got the message at the end of its queue; otherwise the
  groups before the first full one got it, and no queue ever exceeds the capacity.
\<close>

theorem publish_reaches_prefix:
  assumes "channel_inv mp bo c" and "lc_inner c = BlockI senders receivers"
    and "publish mp bo c m = (c', res)"
  shows "\<exists>k \<le> length senders.
     (res = Done (Inr ()) \<longleftrightarrow> senders \<noteq> [] \<and> k = length senders) \<and>
     (\<forall>h. backlog mp bo c' h =
        map_option (\<lambda>ms. ms @ (if h \<in> set (take k senders) then [m] else [])) (backlog mp bo c h)) \<and>
     (k < length senders \<longrightarrow>
        (\<exists>ms. backlog mp bo c (senders ! k) = Some ms \<and> length ms = lc_capacity c)) \<and>
     (\<forall>h. length (unwrap_or (backlog mp bo c' h) []) \<le> lc_capacity c)"
proof -
  note pc = publish_block_contract [OF assms]
  have cap: "length ms \<le> lc_capacity c" if "channel_inv mp bo d" "lc_capacity d = lc_capacity c"
    "lc_inner d = BlockI ss rs" "backlog mp bo d h = Some ms" for d ss rs h ms
    using that queues_ok_get [of mp "lc_capacity d" rs h]
    by (auto simp: channel_inv_Block [OF that(3)] backlog_def)
  obtain r' where c': "lc_inner c' = BlockI senders r'" "lc_capacity c' = lc_capacity c"
    using assms(2,3) by (auto simp: publish_def split: if_splits prod.splits)
  have inv': "channel_inv mp bo c'" using pc by blast
  have "length (unwrap_or (backlog mp bo c' h) []) \<le> lc_capacity c" for h
    using cap [OF inv' c'(2,1), of h] by (cases "backlog mp bo c' h") auto
  with pc cap [OF assms(1) refl assms(2)] show ?thesis by (metis le_antisym)
qed

text \<open>
  When consuming times out there is nothing to receive, with one exception: on a channel that
  drops old messages, with a timeout of zero, a group that has been overrun is told there is no
  message although its backlog is not empty.
\<close>

theorem consume_timeout_means_empty:
  assumes "channel_inv mp bo c" and "consume mp bo held c g = (c', Done (Inl (CTimeout r)))"
  shows "unwrap_or (backlog mp bo c' g) [] = [] \<or>
     (lc_consume_timeout c = 0 \<and> (\<exists>b receivers rx n. lc_inner c = DropOldestI b receivers \<and>
        hm_get g receivers = Some rx \<and> fst (bo_recv bo rx b) = Lagged n))"
proof -
  let ?c = "init_group mp bo g c"
  note ini = init_group_contract [OF assms(1), of g]
  note sp = channel_inv_specs [OF assms(1)]
  have tm: "lc_consume_timeout ?c = lc_consume_timeout c"
    by (simp add: init_group_def Let_def split: channel_inner.splits prod.splits)
  show ?thesis
  proof (cases "lc_inner ?c")
    case (BlockI senders receivers)
    obtain q where q: "hm_get g receivers = Some q" using ini(2) [of g] BlockI by (auto simp: backlog_def)
    obtain q' where run: "receive_block mp (lc_consume_timeout ?c) (g \<in> set senders \<or> g \<in> set held) q =
        (q', Done (Inl (CTimeout r)))"
      and c': "c' = ?c \<lparr> lc_inner := BlockI senders (hm_insert g q' receivers) \<rparr>"
      using assms(2) BlockI q by (auto simp: consume_def Let_def split: prod.splits)
    with receive_block_spec [OF sp(1) run] show ?thesis by (simp add: backlog_def)
  next
    case (DropOldestI b receivers)
    obtain rx where rx: "hm_get g receivers = Some rx" using ini(2) [of g] DropOldestI by (auto simp: backlog_def)
    obtain b' where run: "receive_broadcast bo (lc_consume_timeout ?c) rx b = (b', Done (Inl (CTimeout r)))"
      and c': "c' = ?c \<lparr> lc_inner := DropOldestI b' receivers \<rparr>"
      using assms(2) DropOldestI rx by (auto simp: consume_def Let_def split: prod.splits)
    note spec = receive_broadcast_spec [OF sp(2) run]
    show ?thesis
    proof (cases "bo_items bo rx b = []")
      case True
      with spec have "bo_items bo rx b' = []" by simp
      then show ?thesis by (simp add: c' backlog_def rx)
    next
      case False
      with spec obtain n where n: "lc_consume_timeout c = 0" "fst (bo_recv bo rx b) = Lagged n"
        by (auto simp: tm)
      have "?c = c"
      proof (rule ccontr)
        assume ne: "?c \<noteq> c"
        then have "backlog mp bo c g = None"
          by (auto simp: init_group_def backlog_def hm_has_iff split: channel_inner.splits if_splits)
        with ini(2) [of g] have "backlog mp bo ?c g = Some []" by simp
        with False show False by (simp add: backlog_def DropOldestI rx)
      qed
      with n DropOldestI rx show ?thesis by auto
    qed
  qed
qed

subsection \<open>Queues of lists\<close>

text \<open>An instance of the two queues, on which the properties above are applied.\<close>

definition list_mpsc :: "('m list \<times> nat, 'm) mpsc_ops" where
  "list_mpsc =
     \<lparr> mp_new = (\<lambda>c. ([], c)),
       mp_send = (\<lambda>m q. if length (fst q) < snd q then Some (fst q @ [m], snd q) else None),
       mp_recv = (\<lambda>q. case fst q of [] \<Rightarrow> None | m # ms \<Rightarrow> Some (m, (ms, snd q))),
       mp_items = fst, mp_capacity = snd \<rparr>"

type_synonym 'm list_broadcast = "nat \<times> (nat \<times> nat \<times> 'm list) list"

definition push_bounded :: "nat \<Rightarrow> 'm \<Rightarrow> nat \<times> 'm list \<Rightarrow> nat \<times> 'm list" where
  "push_bounded cap m q =
     (if max 1 cap \<le> length (snd q) then (Suc (fst q), tl (snd q) @ [m]) else (fst q, snd q @ [m]))"

definition list_items :: "nat \<Rightarrow> 'm list_broadcast \<Rightarrow> 'm list" where
  "list_items r b = (case map_of (snd b) r of None \<Rightarrow> [] | Some q \<Rightarrow> snd q)"

definition list_receive :: "nat \<Rightarrow> 'm list_broadcast \<Rightarrow> 'm received \<times> 'm list_broadcast" where
  "list_receive r b =
     (case map_of (snd b) r of
        None \<Rightarrow> (NothingYet, b)
      | Some (lagged, items) \<Rightarrow>
          (case items of
             [] \<Rightarrow> (NothingYet, b)
           | m # ms \<Rightarrow>
               if 0 < lagged then (Lagged lagged, (fst b, AList.update r (0, items) (snd b)))
               else (Received m, (fst b, AList.update r (0, ms) (snd b)))))"

definition list_broadcast_ops :: "('m list_broadcast, 'm) broadcast_ops" where
  "list_broadcast_ops =
     \<lparr> bo_new = (\<lambda>c. (c, [])),
       bo_subscribe = (\<lambda>b. let rx = Suc (sum_list (map fst (snd b))) in (rx, (fst b, snd b @ [(rx, 0, [])]))),
       bo_send = (\<lambda>m b. if snd b = [] then None
                        else Some (fst b, map (\<lambda>(r, q). (r, push_bounded (fst b) m q)) (snd b))),
       bo_recv = list_receive,
       bo_receivers = (\<lambda>b. map fst (snd b)),
       bo_items = list_items \<rparr>"

lemma list_mpsc_spec: "mpsc_spec list_mpsc"
  by (simp add: mpsc_spec_def mpsc_new_ok_def mpsc_send_ok_def mpsc_recv_ok_def list_mpsc_def split: list.splits)

lemma push_bounded_items: "\<exists>dropped. snd q @ [m] = dropped @ snd (push_bounded cap m q) \<and> snd (push_bounded cap m q) \<noteq> []"
proof (cases "max 1 cap \<le> length (snd q)")
  case True
  then have "snd q = [hd (snd q)] @ tl (snd q)" by (cases "snd q") auto
  with True show ?thesis by (intro exI [of _ "[hd (snd q)]"]) (simp add: push_bounded_def)
qed (auto simp: push_bounded_def)

lemma map_of_push: "map_of (map (\<lambda>(r, q). (r, f q)) rs) r = map_option f (map_of rs r)"
  by (induction rs) auto

lemma list_broadcast_spec: "broadcast_spec list_broadcast_ops"
proof -
  have fresh: "Suc (sum_list (map fst rs)) \<notin> fst ` set rs" for rs :: "(nat \<times> nat \<times> 'm list) list"
    using member_le_sum_list [of "Suc (sum_list (map fst rs))" "map fst rs"] by auto
  have items: "list_items r (c, rs @ [(rx, 0, [])]) = (if r = rx then [] else list_items r (c, rs))"
    if "rx \<notin> fst ` set rs" for r rx c and rs :: "(nat \<times> nat \<times> 'm list) list"
  proof -
    have "map_of rs rx = None" using that by (simp add: map_of_eq_None_iff)
    then show ?thesis by (auto simp: list_items_def map_add_def split: option.splits)
  qed
  have sub: "broadcast_subscribe_ok list_broadcast_ops"
    unfolding broadcast_subscribe_ok_def
  proof (intro allI)
    fix b :: "'m list_broadcast"
    show "case bo_subscribe list_broadcast_ops b of (rx, b') \<Rightarrow>
        rx \<notin> set (bo_receivers list_broadcast_ops b) \<and>
        bo_receivers list_broadcast_ops b' = bo_receivers list_broadcast_ops b @ [rx] \<and>
        bo_items list_broadcast_ops rx b' = [] \<and>
        (\<forall>r. r \<noteq> rx \<longrightarrow> bo_items list_broadcast_ops r b' = bo_items list_broadcast_ops r b)"
      using fresh [of "snd b"] items [OF fresh [of "snd b"]]
      by (simp add: list_broadcast_ops_def Let_def)
  qed
  have send: "broadcast_send_ok list_broadcast_ops"
    unfolding broadcast_send_ok_def
  proof (intro allI)
    fix m and b :: "'m list_broadcast"
    have "\<exists>dropped. list_items r b @ [m] =
        dropped @ list_items r (fst b, map (\<lambda>(r, q). (r, push_bounded (fst b) m q)) (snd b)) \<and>
        list_items r (fst b, map (\<lambda>(r, q). (r, push_bounded (fst b) m q)) (snd b)) \<noteq> []"
      if r: "r \<in> set (map fst (snd b))" for r
    proof -
      obtain q where "map_of (snd b) r = Some q"
        using r by (cases "map_of (snd b) r") (auto simp: map_of_eq_None_iff)
      then show ?thesis using push_bounded_items [of q m "fst b"] by (simp add: list_items_def map_of_push)
    qed
    then show "case bo_send list_broadcast_ops m b of
        None \<Rightarrow> bo_receivers list_broadcast_ops b = []
      | Some b' \<Rightarrow> bo_receivers list_broadcast_ops b \<noteq> [] \<and> bo_receivers list_broadcast_ops b' = bo_receivers list_broadcast_ops b \<and>
          (\<forall>r \<in> set (bo_receivers list_broadcast_ops b). \<exists>dropped. bo_items list_broadcast_ops r b @ [m] =
             dropped @ bo_items list_broadcast_ops r b' \<and> bo_items list_broadcast_ops r b' \<noteq> [])"
      by (auto simp: list_broadcast_ops_def comp_def case_prod_beta)
  qed
  have recv: "broadcast_recv_ok list_broadcast_ops"
    unfolding broadcast_recv_ok_def
  proof (intro allI)
    fix r and b :: "'m list_broadcast"
    have keys: "map fst (AList.update r q (snd b)) = map fst (snd b)" if "map_of (snd b) r = Some p" for q p
      using that by (auto simp: update_keys dest: map_of_SomeD intro!: rev_image_eqI)
    show "case bo_recv list_broadcast_ops r b of (res, b') \<Rightarrow>
        bo_receivers list_broadcast_ops b' = bo_receivers list_broadcast_ops b \<and>
        (\<forall>r'. r' \<noteq> r \<longrightarrow> bo_items list_broadcast_ops r' b' = bo_items list_broadcast_ops r' b) \<and>
        (case res of
           Received m \<Rightarrow> bo_items list_broadcast_ops r b = m # bo_items list_broadcast_ops r b'
         | NothingYet \<Rightarrow> bo_items list_broadcast_ops r b = [] \<and> bo_items list_broadcast_ops r b' = []
         | Lagged n \<Rightarrow> bo_items list_broadcast_ops r b' = bo_items list_broadcast_ops r b \<and>
             bo_items list_broadcast_ops r b \<noteq> [] \<and> (\<forall>k. fst (bo_recv list_broadcast_ops r b') \<noteq> Lagged k)
         | SenderGone \<Rightarrow> False)"
      using keys by (auto simp: list_broadcast_ops_def list_receive_def list_items_def update_conv'
          split: option.splits list.splits)
  qed
  show ?thesis
    using sub send recv by (simp add: broadcast_spec_def broadcast_new_ok_def list_broadcast_ops_def)
qed

lemma channel_inv_new:
  assumes "mpsc_spec mp" and "broadcast_spec bo" and "0 < capacity"
  shows "channel_inv mp bo (channel_new bo capacity ov pt ct)"
    and "backlog mp bo (channel_new bo capacity ov pt ct) g = None"
  using assms by (auto simp: channel_inv_def channel_new_def backlog_def broadcast_spec_def broadcast_new_ok_def
      split: overflow.splits)

definition demo_channel :: "overflow \<Rightarrow> (nat list \<times> nat, nat list_broadcast) local_channel" where
  "demo_channel ov = channel_new list_broadcast_ops 1 ov 0 0"

lemma demo_channel_inv: "channel_inv list_mpsc list_broadcast_ops (demo_channel ov)"
  unfolding demo_channel_def by (rule channel_inv_new(1) [OF list_mpsc_spec list_broadcast_spec]) simp

definition demo_run :: "(nat list \<times> nat, nat list_broadcast) local_channel \<times> (string \<times> nat) list" where
  "demo_run = run_ops (publish list_mpsc list_broadcast_ops) (consume list_mpsc list_broadcast_ops [])
     (demo_channel DropOldest) [Inr ''g'', Inl 1, Inl 2, Inr ''g'', Inr ''g'']"

lemma channel_delivers_in_order_witness:
  "subseq (got ''g'' (snd demo_run) @ unwrap_or (backlog list_mpsc list_broadcast_ops (fst demo_run) ''g'') []) [1, 2]"
proof -
  have run: "run_ops (publish list_mpsc list_broadcast_ops) (consume list_mpsc list_broadcast_ops [])
     (demo_channel DropOldest) [Inr ''g'', Inl 1, Inl 2, Inr ''g'', Inr ''g''] = (fst demo_run, snd demo_run)"
    by (simp add: demo_run_def del: run_ops.simps)
  have b: "backlog list_mpsc list_broadcast_ops (demo_channel DropOldest) ''g'' = None"
    unfolding demo_channel_def by (rule channel_inv_new(2) [OF list_mpsc_spec list_broadcast_spec]) simp
  from channel_delivers_in_order [OF demo_channel_inv run, of "''g''"] b show ?thesis by simp
qed

definition demo_open :: "overflow \<Rightarrow> (nat list \<times> nat, nat list_broadcast) local_channel" where
  "demo_open ov = init_group list_mpsc list_broadcast_ops ''g'' (demo_channel ov)"

lemma demo_open_inv: "channel_inv list_mpsc list_broadcast_ops (demo_open ov)"
  unfolding demo_open_def by (rule init_group_contract(1) [OF demo_channel_inv])

lemma publish_reaches_prefix_witness:
  "length (unwrap_or (backlog list_mpsc list_broadcast_ops
      (fst (publish list_mpsc list_broadcast_ops (demo_open Block) 7)) ''g'') []) \<le> 1"
proof -
  obtain c' res where p: "publish list_mpsc list_broadcast_ops (demo_open Block) 7 = (c', res)" by force
  have inner: "lc_inner (demo_open Block) = BlockI [''g''] [(''g'', ([], 1))]" by code_simp
  have "lc_capacity (demo_open Block) = 1" by code_simp
  moreover from publish_reaches_prefix [OF demo_open_inv inner p]
  have "length (unwrap_or (backlog list_mpsc list_broadcast_ops c' ''g'') []) \<le> lc_capacity (demo_open Block)" by blast
  ultimately show ?thesis by (simp add: p)
qed

lemma consume_timeout_means_empty_witness:
  "unwrap_or (backlog list_mpsc list_broadcast_ops
     (fst (consume list_mpsc list_broadcast_ops [] (demo_open Block) ''g'')) ''g'') [] = []"
proof -
  obtain c' where c: "consume list_mpsc list_broadcast_ops [] (demo_open Block) ''g'' =
      (c', Done (Inl (CTimeout ''no message available'')))"
  proof -
    have "snd (consume list_mpsc list_broadcast_ops [] (demo_open Block) ''g'') =
        Done (Inl (CTimeout ''no message available''))" by code_simp
    with that show thesis by (metis prod.collapse)
  qed
  have "lc_inner (demo_open Block) = BlockI [''g''] [(''g'', ([], 1))]" by code_simp
  with consume_timeout_means_empty [OF demo_open_inv c] c show ?thesis by auto
qed

end
