(* ===== verification/Channel_Concurrency.thy ===== *)
theory Channel_Concurrency
  imports Channel
begin

section \<open>Concurrent use of a blocking channel (\<open>src/messaging/channel.rs\<close>)\<close>

text \<open>
  Publishing to a \<open>Block\<close> channel takes a snapshot of the senders and then sends to one group after
  the other, without a lock: between two sends, consumers, other publishers, new groups and
  \<open>close\<close> may take effect. A state is the channel and the publications in progress (message,
  snapshot, groups still to be served); \<open>chan_step\<close> is one atomic effect, with its label.
\<close>

type_synonym 'm publication = "'m \<times> string list \<times> string list"

datatype 'm event = Begin 'm | Sent string 'm | Published 'm "string list" | Failed 'm publish_error
  | Took string 'm | Quiet

definition held_groups :: "'m publication list \<Rightarrow> string list" where
  "held_groups ps = concat (map (\<lambda>p. fst (snd p)) ps)"

inductive chan_step ::
  "('q, 'm) mpsc_ops \<Rightarrow> ('b, 'm) broadcast_ops \<Rightarrow> ('q, 'b) local_channel \<times> 'm publication list \<Rightarrow>
   'm event \<Rightarrow> ('q, 'b) local_channel \<times> 'm publication list \<Rightarrow> bool"
  for mp bo where
  step_begin: "lc_inner c = BlockI senders receivers \<Longrightarrow> senders \<noteq> [] \<Longrightarrow>
     chan_step mp bo (c, ps) (Begin m) (c, ps @ [(m, senders, senders)])"
| step_send: "lc_inner c = BlockI senders receivers \<Longrightarrow> i < length ps \<Longrightarrow> ps ! i = (m, all, g # gs) \<Longrightarrow>
     send_to mp (lc_publish_timeout c) m receivers g = (receivers', Done (Inr ())) \<Longrightarrow>
     chan_step mp bo (c, ps) (Sent g m) (c \<lparr> lc_inner := BlockI senders receivers' \<rparr>, ps[i := (m, all, gs)])"
| step_fail: "lc_inner c = BlockI senders receivers \<Longrightarrow> i < length ps \<Longrightarrow> ps ! i = (m, all, g # gs) \<Longrightarrow>
     send_to mp (lc_publish_timeout c) m receivers g = (receivers', Done (Inl e)) \<Longrightarrow>
     chan_step mp bo (c, ps) (Failed m e) (c, take i ps @ drop (Suc i) ps)"
| step_done: "i < length ps \<Longrightarrow> ps ! i = (m, all, []) \<Longrightarrow>
     chan_step mp bo (c, ps) (Published m all) (c, take i ps @ drop (Suc i) ps)"
| step_take: "consume mp bo (held_groups ps) c g = (c', Done (Inr m)) \<Longrightarrow>
     chan_step mp bo (c, ps) (Took g m) (c', ps)"
| step_miss: "consume mp bo (held_groups ps) c g = (c', r) \<Longrightarrow> received_of r = [] \<Longrightarrow>
     chan_step mp bo (c, ps) Quiet (c', ps)"
| step_init: "chan_step mp bo (c, ps) Quiet (init_group mp bo g c, ps)"
| step_close: "chan_step mp bo (c, ps) Quiet (channel_close c, ps)"

inductive_cases chan_step_cases: "chan_step mp bo (c, ps) e (c', ps')"

inductive chan_trace ::
  "('q, 'm) mpsc_ops \<Rightarrow> ('b, 'm) broadcast_ops \<Rightarrow> ('q, 'b) local_channel \<times> 'm publication list \<Rightarrow>
   'm event list \<Rightarrow> ('q, 'b) local_channel \<times> 'm publication list \<Rightarrow> bool"
  for mp bo s where
  trace_start: "chan_trace mp bo s [] s"
| trace_step: "chan_trace mp bo s tr t \<Longrightarrow> chan_step mp bo t e u \<Longrightarrow> chan_trace mp bo s (tr @ [e]) u"

fun sent_to :: "string \<Rightarrow> 'm event list \<Rightarrow> 'm list" where
  "sent_to g [] = []"
| "sent_to g (Sent h m # tr) = (if h = g then m # sent_to g tr else sent_to g tr)"
| "sent_to g (e # tr) = sent_to g tr"

fun taken_from :: "string \<Rightarrow> 'm event list \<Rightarrow> 'm list" where
  "taken_from g [] = []"
| "taken_from g (Took h m # tr) = (if h = g then m # taken_from g tr else taken_from g tr)"
| "taken_from g (e # tr) = taken_from g tr"

lemma sent_to_append [simp]: "sent_to g (a @ b) = sent_to g a @ sent_to g b"
  by (induction g a rule: sent_to.induct) auto

lemma taken_from_append [simp]: "taken_from g (a @ b) = taken_from g a @ taken_from g b"
  by (induction g a rule: taken_from.induct) auto

lemma sent_to_mem: "Sent g m \<in> set tr \<longleftrightarrow> m \<in> set (sent_to g tr)"
  by (induction g tr rule: sent_to.induct) auto

text \<open>Every sender of the channel, and of every publication in progress, has its queue.\<close>

definition pub_ok :: "('q, 'b) local_channel \<Rightarrow> 'm event list \<Rightarrow> 'm publication \<Rightarrow> bool" where
  "pub_ok c tr p =
     (case p of (m, all, rest) \<Rightarrow>
        \<exists>served. all = served @ rest \<and> (\<forall>g \<in> set served. Sent g m \<in> set tr))"

definition block_channel :: "('q, 'b) local_channel \<Rightarrow> bool" where
  "block_channel c = (case lc_inner c of BlockI _ _ \<Rightarrow> True | DropOldestI _ _ \<Rightarrow> False)"

lemma block_channelE:
  assumes "block_channel c" obtains senders receivers where "lc_inner c = BlockI senders receivers"
  using assms by (auto simp: block_channel_def split: channel_inner.splits)

lemma block_channel_kept:
  assumes "block_channel c"
  shows "block_channel (init_group mp bo g c)" and "block_channel (channel_close c)"
    and "block_channel (fst (consume mp bo held c g))"
proof -
  show i: "block_channel (init_group mp bo g c)"
    using assms by (auto simp: block_channel_def init_group_def split: channel_inner.splits)
  show "block_channel (channel_close c)"
    using assms by (auto simp: block_channel_def channel_close_def split: channel_inner.splits)
  show "block_channel (fst (consume mp bo held c g))"
    using i by (auto simp: consume_def Let_def block_channel_def split: channel_inner.splits option.splits prod.splits)
qed

lemma channel_close_contract:
  assumes "channel_inv mp bo c"
  shows "channel_inv mp bo (channel_close c) \<and> backlog mp bo (channel_close c) = backlog mp bo c"
  using assms by (auto simp: channel_close_def channel_inv_def backlog_def fun_eq_iff split: channel_inner.splits)

lemma take_drop_mem: "x \<in> set (take i xs @ drop (Suc i) xs) \<Longrightarrow> x \<in> set xs"
  by (auto dest: in_set_takeD in_set_dropD)

lemma pub_ok_mono: "pub_ok c tr p \<Longrightarrow> set tr \<subseteq> set tr' \<Longrightarrow> pub_ok c tr' p"
  by (auto simp: pub_ok_def)

text \<open>The invariant of the states reached from a fresh channel by a trace.\<close>

definition reach_inv ::
  "('q, 'm) mpsc_ops \<Rightarrow> ('b, 'm) broadcast_ops \<Rightarrow> ('q, 'b) local_channel \<times> 'm publication list \<Rightarrow>
   'm event list \<Rightarrow> bool" where
  "reach_inv mp bo s tr =
     (channel_inv mp bo (fst s) \<and> block_channel (fst s) \<and>
      (\<forall>p \<in> set (snd s). pub_ok (fst s) tr p) \<and>
      (\<forall>m all g. Published m all \<in> set tr \<longrightarrow> g \<in> set all \<longrightarrow> Sent g m \<in> set tr) \<and>
      (\<forall>g. sent_to g tr = taken_from g tr @ unwrap_or (backlog mp bo (fst s) g) []))"

lemma send_to_step:
  assumes "channel_inv mp bo c" and "lc_inner c = BlockI senders receivers"
    and "send_to mp t m receivers g = (receivers', Done (Inr ()))"
  shows "channel_inv mp bo (c \<lparr> lc_inner := BlockI senders receivers' \<rparr>) \<and>
    (\<forall>h. unwrap_or (backlog mp bo (c \<lparr> lc_inner := BlockI senders receivers' \<rparr>) h) [] =
       unwrap_or (backlog mp bo c h) [] @ (if h = g then [m] else []))"
proof -
  note inv = assms(1) [unfolded channel_inv_Block [OF assms(2)]]
  obtain q where q: "hm_get g receivers = Some q"
    using assms(3) by (cases "hm_get g receivers") (auto simp: send_to_def)
  from send_to_spec [OF conjunct1 [OF inv] assms(3) q] obtain q' where
    q': "receivers' = hm_insert g q' receivers" "mp_items mp q' = mp_items mp q @ [m]"
    "mp_capacity mp q' = mp_capacity mp q" "length (mp_items mp q) < mp_capacity mp q" by auto
  let ?c = "c \<lparr> lc_inner := BlockI senders receivers' \<rparr>"
  have inner: "lc_inner ?c = BlockI senders receivers'" "lc_capacity ?c = lc_capacity c" by simp_all
  have "queues_ok mp (lc_capacity c) receivers" using inv by blast
  then have "queues_ok mp (lc_capacity c) receivers'"
    unfolding q'(1) using inv q' queues_ok_get [OF _ q] by (intro queues_ok_insert) auto
  moreover have "set senders \<subseteq> insert g (set (hm_keys receivers))" using inv by blast
  ultimately have "channel_inv mp bo ?c"
    unfolding channel_inv_Block [OF inner(1)] inner(2) using inv
    by (simp only: q'(1) hm_keys_insert hm_wf_insert simp_thms)
  then show ?thesis using q q' by (auto simp: backlog_def assms(2))
qed

lemma reach_step:
  assumes "reach_inv mp bo s tr" and "chan_step mp bo s e t"
  shows "reach_inv mp bo t (tr @ [e])"
proof -
  obtain c ps c' ps' where st: "s = (c, ps)" "t = (c', ps')" by force
  have inv: "channel_inv mp bo c" "block_channel c" "\<And>p. p \<in> set ps \<Longrightarrow> pub_ok c tr p"
    "\<And>m all g. Published m all \<in> set tr \<Longrightarrow> g \<in> set all \<Longrightarrow> Sent g m \<in> set tr"
    "\<And>g. sent_to g tr = taken_from g tr @ unwrap_or (backlog mp bo c g) []"
    using assms(1) by (auto simp: reach_inv_def st)
  have mono: "pub_ok c'' (tr @ [e]) p" if "p \<in> set ps" for p c''
    using inv(3) [OF that] by (auto simp: pub_ok_def)
  from assms(2) [unfolded st] show ?thesis
  proof (cases rule: chan_step_cases [consumes 1])
    case (1 senders receivers m)
    then show ?thesis using inv mono by (auto simp: reach_inv_def st pub_ok_def)
  next
    case (2 senders receivers i m all g gs receivers')
    note send = send_to_step [OF inv(1) "2"(2,5)]
    have "pub_ok c' (tr @ [e]) p" if "p \<in> set ps'" for p
    proof (cases "p = (m, all, gs)")
      case True
      have "(m, all, g # gs) \<in> set ps" using "2"(3,4) nth_mem by fastforce
      from inv(3) [OF this] obtain served where "all = served @ g # gs" "\<forall>g \<in> set served. Sent g m \<in> set tr"
        by (auto simp: pub_ok_def)
      then show ?thesis by (auto simp: pub_ok_def True "2"(1) intro!: exI [of _ "served @ [g]"])
    next
      case False
      with that "2"(7) have "p \<in> set ps" using set_update_subset_insert by fastforce
      then show ?thesis by (rule mono)
    qed
    moreover have "block_channel c'" by (simp add: block_channel_def "2"(6))
    moreover have "sent_to h (tr @ [e]) = taken_from h (tr @ [e]) @ unwrap_or (backlog mp bo c' h) []" for h
      using inv(5) [of h] conjunct2 [OF send] by (simp add: "2"(1,6))
    ultimately show ?thesis
      using inv send by (auto simp: reach_inv_def st "2"(1,6))
  next
    case (3 senders receivers i m all g gs receivers' err)
    have "p \<in> set ps" if "p \<in> set ps'" for p using that unfolding 3(3) by (rule take_drop_mem)
    with mono have "\<forall>p \<in> set ps'. pub_ok c' (tr @ [e]) p" by blast
    then show ?thesis using inv 3(1,2) by (simp add: reach_inv_def st)
  next
    case (4 i m all)
    have "(m, all, []) \<in> set ps" using 4(2,3) nth_mem by fastforce
    from inv(3) [OF this] have all: "\<forall>g \<in> set all. Sent g m \<in> set tr" by (auto simp: pub_ok_def)
    have "p \<in> set ps" if "p \<in> set ps'" for p using that unfolding 4(5) by (rule take_drop_mem)
    with mono have "\<forall>p \<in> set ps'. pub_ok c' (tr @ [e]) p" by blast
    then show ?thesis using inv all 4(1,4) by (auto simp: reach_inv_def st)
  next
    case (5 g m)
    note con = consume_contract [OF inv(1) "5"(3)]
    have "block_channel c'" using block_channel_kept(3) [OF inv(2), of mp bo "held_groups ps" g] "5"(3) by simp
    moreover from con obtain ms where ms: "backlog mp bo c g = Some (m # ms)" "backlog mp bo c' g = Some ms" by auto
    moreover have "backlog mp bo c' h = backlog mp bo c h" if "h \<noteq> g" for h using con that by blast
    then have "sent_to h (tr @ [e]) = taken_from h (tr @ [e]) @ unwrap_or (backlog mp bo c' h) []" for h
      using inv(5) [of h] ms by (cases "h = g") (auto simp: "5"(1))
    ultimately show ?thesis
      using inv mono con by (auto simp: reach_inv_def st "5"(1,2))
  next
    case (6 g r)
    note con = consume_contract [OF inv(1) "6"(3)]
    have "block_channel c'" using block_channel_kept(3) [OF inv(2), of mp bo "held_groups ps" g] "6"(3) by simp
    moreover have "unwrap_or (backlog mp bo c' h) [] = unwrap_or (backlog mp bo c h) []" for h
      using con "6"(4) by (cases "h = g") (auto split: waiting.splits sum.splits)
    ultimately show ?thesis
      using inv mono con by (auto simp: reach_inv_def st "6"(1,2))
  next
    case (7 g)
    have "unwrap_or (backlog mp bo c' h) [] = unwrap_or (backlog mp bo c h) []" for h
      using init_group_contract(2) [OF inv(1), of g h] by (simp add: "7")
    then show ?thesis
      using inv mono init_group_contract(1) [OF inv(1), of g] block_channel_kept(1) [OF inv(2)]
      by (auto simp: reach_inv_def st "7")
  next
    case 8
    then show ?thesis
      using inv mono channel_close_contract [OF inv(1)] block_channel_kept(2) [OF inv(2)]
      by (auto simp: reach_inv_def st)
  qed
qed

lemma reach_trace:
  assumes "chan_trace mp bo s tr t" and "reach_inv mp bo s []"
  shows "reach_inv mp bo t tr"
  using assms by (induction rule: chan_trace.induct) (auto intro: reach_step)

lemma reach_fresh:
  assumes "channel_inv mp bo c" and "lc_inner c = BlockI senders receivers" and "\<And>g. unwrap_or (backlog mp bo c g) [] = []"
  shows "reach_inv mp bo (c, []) []"
  using assms by (simp add: reach_inv_def block_channel_def)

text \<open>
  C21. A blocking channel loses, duplicates and reorders nothing under any interleaving of
  publishers, consumers, new groups and closing: from a channel with empty queues, what was sent to
  a group is at every moment exactly what the group has taken, in that order, followed by its
  queue; and a publication that reported success was sent to every group of its snapshot.
\<close>

theorem interleaved_exactly_once:
  assumes "channel_inv mp bo c" and "lc_inner c = BlockI senders receivers"
    and "\<And>g. unwrap_or (backlog mp bo c g) [] = []"
    and "chan_trace mp bo (c, []) tr (c', ps)"
  shows "sent_to g tr = taken_from g tr @ unwrap_or (backlog mp bo c' g) [] \<and>
    (Published m all \<in> set tr \<longrightarrow> (\<forall>h \<in> set all. m \<in> set (sent_to h tr)))"
  using reach_trace [OF assms(4) reach_fresh [OF assms(1-3)]]
  unfolding reach_inv_def fst_conv sent_to_mem by blast

lemma interleaved_exactly_once_witness:
  "sent_to ''g'' [Begin (7 :: nat), Sent ''g'' 7, Took ''g'' 7] = [7]"
proof -
  let ?mp = "list_mpsc :: (nat list \<times> nat, nat) mpsc_ops" and ?bo = "list_broadcast_ops :: (nat list_broadcast, nat) broadcast_ops"
  let ?c = "demo_open Block"
  have inner: "lc_inner ?c = BlockI [''g''] [(''g'', ([], 1))]" "lc_publish_timeout ?c = 0" by code_simp+
  have empty: "unwrap_or (backlog ?mp ?bo ?c g) [] = []" for g
    by (simp add: backlog_def inner list_mpsc_def)
  let ?c1 = "?c \<lparr> lc_inner := BlockI [''g''] [(''g'', ([7], 1))] \<rparr>"
  have "send_to ?mp (lc_publish_timeout ?c) 7 [(''g'', ([], 1))] ''g'' = ([(''g'', ([7], 1))], Done (Inr ()))"
    by (simp add: send_to_def list_mpsc_def hm_insert_def)
  then have s2: "chan_step ?mp ?bo (?c, [(7, [''g''], [''g''])]) (Sent ''g'' 7) (?c1, [(7, [''g''], [])])"
    using step_send [OF inner(1), of 0 "[(7, [''g''], [''g''])]" 7 "[''g'']" "''g''" "[]" ?mp "[(''g'', ([7], 1))]" ?bo] by simp
  have s1: "chan_step ?mp ?bo (?c, []) (Begin 7) (?c, [(7, [''g''], [''g''])])"
    using step_begin [OF inner(1), of ?mp ?bo "[]" 7] by simp
  have "snd (consume ?mp ?bo [''g''] ?c1 ''g'') = Done (Inr 7)" by code_simp
  then obtain c2 where "consume ?mp ?bo (held_groups [(7 :: nat, [''g''], [])]) ?c1 ''g'' = (c2, Done (Inr 7))"
    by (cases "consume ?mp ?bo [''g''] ?c1 ''g''") (auto simp: held_groups_def)
  then have s3: "chan_step ?mp ?bo (?c1, [(7, [''g''], [])]) (Took ''g'' 7) (c2, [(7, [''g''], [])])"
    by (rule step_take)
  have "chan_trace ?mp ?bo (?c, []) ((([] @ [Begin 7]) @ [Sent ''g'' 7]) @ [Took ''g'' 7]) (c2, [(7, [''g''], [])])"
    by (intro trace_step [OF trace_step [OF trace_step [OF trace_start s1] s2] s3])
  from interleaved_exactly_once [OF demo_open_inv inner(1) empty this, of "''g''"] show ?thesis by auto
qed

subsection \<open>Closing\<close>

text \<open>
  After \<open>close\<close> on a blocking channel with no publication in progress, publishing fails, the
  groups of the channel still receive what is queued for them and are told that the channel is
  closed only once their queue is empty; but a group that consumes for the first time after that
  gets a sender again, so the channel is open once more.
\<close>

theorem close_drains:
  assumes "channel_inv mp bo c" and "lc_inner c = BlockI senders receivers"
  shows "publish mp bo (channel_close c) m = (channel_close c, Done (Inl no_receivers)) \<and>
    (case backlog mp bo c g of
       Some [] \<Rightarrow> snd (consume mp bo [] (channel_close c) g) = Done (Inl (CClosed ''no active senders''))
     | Some (x # xs) \<Rightarrow> snd (consume mp bo [] (channel_close c) g) = Done (Inr x)
     | None \<Rightarrow> groups (fst (consume mp bo [] (channel_close c) g)) = [g])"
proof -
  have cl: "lc_inner (channel_close c) = BlockI [] receivers" by (simp add: channel_close_def assms(2))
  note inv = channel_close_contract [OF assms(1)]
  have pub: "publish mp bo (channel_close c) m = (channel_close c, Done (Inl no_receivers))"
    by (simp add: publish_def cl)
  show ?thesis
  proof (cases "hm_get g receivers")
    case None
    let ?i = "init_group mp bo g (channel_close c)"
    have "lc_inner ?i = BlockI [g] (hm_insert g (mp_new mp (lc_capacity (channel_close c))) receivers)"
      using None by (auto simp: init_group_def cl hm_has_iff hs_insert_def)
    moreover obtain c' r where con: "consume mp bo [] (channel_close c) g = (c', r)" by force
    ultimately have "groups c' = [g]" using consume_contract [OF conjunct1 [OF inv] con] by (simp add: groups_def)
    with None con pub show ?thesis by (simp add: backlog_def assms(2))
  next
    case (Some q)
    have "init_group mp bo g (channel_close c) = channel_close c"
      using Some by (auto simp: init_group_def cl hm_has_iff)
    then have run: "snd (consume mp bo [] (channel_close c) g) =
        snd (receive_block mp (lc_consume_timeout (channel_close c)) False q)"
      by (simp add: consume_def Let_def cl Some split: prod.splits)
    have b: "backlog mp bo c g = Some (mp_items mp q)" by (simp add: backlog_def assms(2) Some)
    have mps: "mpsc_spec mp" using assms(1) by (simp add: channel_inv_def)
    show ?thesis
      using pub run mpsc_recv_okD [OF mps, of q]
      by (auto simp: b receive_block_def split: option.splits list.splits)
  qed
qed

lemma close_drains_witness:
  "snd (consume list_mpsc list_broadcast_ops [] (channel_close (demo_open Block)) ''g'') =
     Done (Inl (CClosed ''no active senders''))"
proof -
  have inner: "lc_inner (demo_open Block) = BlockI [''g''] [(''g'', ([], 1))]" by code_simp
  from close_drains [OF demo_open_inv inner, of 0 "''g''"] show ?thesis
    by (simp add: backlog_def inner list_mpsc_def)
qed

end
