(* ===== verification/Reply.thy ===== *)
theory Reply
  imports Channel
begin

section \<open>Named channels and request-reply (\<open>src/messaging/reply.rs\<close>, publishers of \<open>channel.rs\<close> and \<open>bus.rs\<close>)\<close>

text \<open>
  Channels are shared by reference, so the state is a store of channels, indexed by their
  addresses, with the two registries of the program: the channels managed by the bus and the
  ephemeral reply channels. A \<open>dyn ReplyPublisher\<close> is one of the registries or a
  \<open>CompositeReplyPublisher\<close>. The state is a record scheme: its \<open>more\<close> part is the world of the
  component invocations, which every operation here leaves alone. The fresh UUID of a reply channel
  is a parameter.
\<close>

record ('q, 'b) messaging =
  ms_heap :: "('q, 'b) local_channel list"
  ms_managed :: "nat channel_registry"
  ms_ephemeral :: "nat channel_registry"

datatype registry_id = Managed | Ephemeral

datatype reply_publisher =
    RegistryPublisher registry_id
  | CompositeReplyPublisher reply_publisher reply_publisher

fun registry_of :: "registry_id \<Rightarrow> ('q, 'b, 'w) messaging_scheme \<Rightarrow> nat channel_registry" where
  "registry_of Managed st = ms_managed st"
| "registry_of Ephemeral st = ms_ephemeral st"

definition messaging_new :: "('q, 'b) messaging" where
  "messaging_new = \<lparr> ms_heap = [], ms_managed = [], ms_ephemeral = [] \<rparr>"

definition channel_at :: "('q, 'b, 'w) messaging_scheme \<Rightarrow> nat \<Rightarrow> ('q, 'b) local_channel" where
  "channel_at st ref = ms_heap st ! ref"

definition set_channel ::
  "nat \<Rightarrow> ('q, 'b) local_channel \<Rightarrow> ('q, 'b, 'w) messaging_scheme \<Rightarrow> ('q, 'b, 'w) messaging_scheme" where
  "set_channel ref c st = st \<lparr> ms_heap := (ms_heap st)[ref := c] \<rparr>"

text \<open>\<open>Arc::new(channel)\<close>.\<close>

definition alloc_channel ::
  "('q, 'b) local_channel \<Rightarrow> ('q, 'b, 'w) messaging_scheme \<Rightarrow> nat \<times> ('q, 'b, 'w) messaging_scheme" where
  "alloc_channel c st = (length (ms_heap st), st \<lparr> ms_heap := ms_heap st @ [c] \<rparr>)"

subsection \<open>Publishing by name\<close>

definition publish_at ::
  "('q, message) mpsc_ops \<Rightarrow> ('b, message) broadcast_ops \<Rightarrow> nat \<Rightarrow> message \<Rightarrow> ('q, 'b, 'w) messaging_scheme \<Rightarrow>
   ('q, 'b, 'w) messaging_scheme \<times> (publish_error + unit) waiting" where
  "publish_at mp bo ref m st =
     (case publish mp bo (channel_at st ref) m of (c, r) \<Rightarrow> (set_channel ref c st, r))"

definition channel_not_found :: "string \<Rightarrow> string" where
  "channel_not_found name = ''channel '' @ [CHR 0x27] @ name @ [CHR 0x27] @ '' not found''"

definition registry_publish ::
  "('q, message) mpsc_ops \<Rightarrow> ('b, message) broadcast_ops \<Rightarrow> registry_id \<Rightarrow> string \<Rightarrow> message \<Rightarrow>
   ('q, 'b, 'w) messaging_scheme \<Rightarrow> ('q, 'b, 'w) messaging_scheme \<times> (publish_error + unit) waiting" where
  "registry_publish mp bo which name m st =
     (case registry_lookup name (registry_of which st) of
        None \<Rightarrow> (st, Done (Inl (PClosed (channel_not_found name))))
      | Some ref \<Rightarrow> publish_at mp bo ref m st)"

text \<open>The composite publisher turns to the managed channels only when the ephemeral one is closed.\<close>

fun reply_publish ::
  "('q, message) mpsc_ops \<Rightarrow> ('b, message) broadcast_ops \<Rightarrow> reply_publisher \<Rightarrow> string \<Rightarrow> message \<Rightarrow>
   ('q, 'b, 'w) messaging_scheme \<Rightarrow> ('q, 'b, 'w) messaging_scheme \<times> (publish_error + unit) waiting" where
  "reply_publish mp bo (RegistryPublisher which) name m st = registry_publish mp bo which name m st"
| "reply_publish mp bo (CompositeReplyPublisher ephemeral managed) name m st =
     (case reply_publish mp bo ephemeral name m st of
        (st', Done (Inl (PClosed e))) \<Rightarrow> reply_publish mp bo managed name m st'
      | r \<Rightarrow> r)"

subsection \<open>Return addresses\<close>

definition REPLY_GROUP :: string where "REPLY_GROUP = ''reply''"
definition DEFAULT_REPLY_TIMEOUT_MS :: int where "DEFAULT_REPLY_TIMEOUT_MS = 30000"

record channel_return_address =
  ra_channel :: nat
  ra_name :: string

definition return_address ::
  "('q, message) mpsc_ops \<Rightarrow> ('b, message) broadcast_ops \<Rightarrow> string \<Rightarrow> ('q, 'b, 'w) messaging_scheme \<Rightarrow>
   channel_return_address \<times> ('q, 'b, 'w) messaging_scheme" where
  "return_address mp bo uuid st =
     (let name = ''reply-'' @ uuid;
          c = channel_new bo 1 Block DEFAULT_REPLY_TIMEOUT_MS DEFAULT_REPLY_TIMEOUT_MS;
          (ref, st) = alloc_channel (init_group mp bo REPLY_GROUP c) st;
          st = st \<lparr> ms_ephemeral := registry_register name ref (ms_ephemeral st) \<rparr>
      in (\<lparr> ra_channel = ref, ra_name = name \<rparr>, st))"

text \<open>\<open>Drop for ChannelReturnAddress\<close>.\<close>

definition return_address_drop :: "channel_return_address \<Rightarrow> ('q, 'b, 'w) messaging_scheme \<Rightarrow> ('q, 'b, 'w) messaging_scheme" where
  "return_address_drop ra st = st \<lparr> ms_ephemeral := fst (registry_remove (ra_name ra) (ms_ephemeral st)) \<rparr>"

text \<open>\<open>take\<close> removes the channel whatever was received, and consumes the handle, which is dropped.\<close>

definition return_address_take ::
  "('q, message) mpsc_ops \<Rightarrow> ('b, message) broadcast_ops \<Rightarrow> channel_return_address \<Rightarrow> ('q, 'b, 'w) messaging_scheme \<Rightarrow>
   ('q, 'b, 'w) messaging_scheme \<times> (string + message) waiting" where
  "return_address_take mp bo ra st =
     (case consume mp bo [] (channel_at st (ra_channel ra)) REPLY_GROUP of
        (c, Waits) \<Rightarrow> (set_channel (ra_channel ra) c st, Waits)
      | (c, Done r) \<Rightarrow>
          (let st = set_channel (ra_channel ra) c st;
               st = st \<lparr> ms_ephemeral := fst (registry_remove (ra_name ra) (ms_ephemeral st)) \<rparr>
           in (return_address_drop ra st,
               Done (map_err (\<lambda>e. ''reply channel error: '' @ consume_error_display e) r))))"

subsection \<open>The invariant of the state\<close>

definition messaging_inv ::
  "('q, message) mpsc_ops \<Rightarrow> ('b, message) broadcast_ops \<Rightarrow> ('q, 'b, 'w) messaging_scheme \<Rightarrow> bool" where
  "messaging_inv mp bo st \<longleftrightarrow>
     mpsc_spec mp \<and> broadcast_spec bo \<and> (\<forall>c \<in> set (ms_heap st). channel_inv mp bo c) \<and>
     (\<forall>ref \<in> set (map snd (ms_managed st)) \<union> set (map snd (ms_ephemeral st)). ref < length (ms_heap st)) \<and>
     hm_wf (ms_managed st) \<and> hm_wf (ms_ephemeral st)"

lemma messaging_inv_new: "mpsc_spec mp \<Longrightarrow> broadcast_spec bo \<Longrightarrow> messaging_inv mp bo messaging_new"
  by (simp add: messaging_inv_def messaging_new_def)

lemma messaging_inv_set_channel:
  assumes "messaging_inv mp bo st" and "channel_inv mp bo c"
  shows "messaging_inv mp bo (set_channel ref c st)"
  using assms set_update_subset_insert [of "ms_heap st" ref c] by (fastforce simp: messaging_inv_def set_channel_def)

lemma messaging_inv_at: "messaging_inv mp bo st \<Longrightarrow> ref < length (ms_heap st) \<Longrightarrow> channel_inv mp bo (channel_at st ref)"
  by (simp add: messaging_inv_def channel_at_def)

lemma messaging_inv_ref:
  assumes "messaging_inv mp bo st" and "hm_get name (registry_of which st) = Some ref"
  shows "ref < length (ms_heap st)"
  using assms by (cases which) (force simp: messaging_inv_def dest: map_of_SomeD)+

lemma set_channel_simps [simp]:
  "ms_managed (set_channel ref c st) = ms_managed st" "ms_ephemeral (set_channel ref c st) = ms_ephemeral st"
  "length (ms_heap (set_channel ref c st)) = length (ms_heap st)"
  "messaging.more (set_channel ref c st) = messaging.more st"
  "ref < length (ms_heap st) \<Longrightarrow> channel_at (set_channel ref c st) ref = c"
  "ref' \<noteq> ref \<Longrightarrow> channel_at (set_channel ref c st) ref' = channel_at st ref'"
  by (simp_all add: set_channel_def channel_at_def)

lemma publish_at_keeps:
  assumes "messaging_inv mp bo st" and "ref < length (ms_heap st)" and "publish_at mp bo ref m st = (st', r)"
  shows "messaging_inv mp bo st' \<and> ms_managed st' = ms_managed st \<and> ms_ephemeral st' = ms_ephemeral st \<and>
    length (ms_heap st') = length (ms_heap st) \<and> (\<forall>ref'. ref' \<noteq> ref \<longrightarrow> channel_at st' ref' = channel_at st ref')"
proof -
  obtain c where c: "publish mp bo (channel_at st ref) m = (c, r)" "st' = set_channel ref c st"
    using assms(3) by (auto simp: publish_at_def split: prod.splits)
  have "channel_inv mp bo c" using lc.inv_pub [OF messaging_inv_at [OF assms(1,2)], of m] c(1) by simp
  from messaging_inv_set_channel [OF assms(1) this] c(2) show ?thesis by simp
qed

lemma registry_publish_keeps:
  assumes "messaging_inv mp bo st" and "registry_publish mp bo which name m st = (st', r)"
  shows "messaging_inv mp bo st' \<and> ms_managed st' = ms_managed st \<and> ms_ephemeral st' = ms_ephemeral st \<and>
    length (ms_heap st') = length (ms_heap st)"
proof (cases "hm_get name (registry_of which st)")
  case None
  with assms show ?thesis by (simp add: registry_publish_def registry_lookup_def)
next
  case (Some ref)
  with assms(2) have "publish_at mp bo ref m st = (st', r)" by (simp add: registry_publish_def registry_lookup_def)
  from publish_at_keeps [OF assms(1) messaging_inv_ref [OF assms(1) Some] this] show ?thesis by simp
qed

lemma reply_publish_keeps:
  assumes "messaging_inv mp bo st" and "reply_publish mp bo p name m st = (st', r)"
  shows "messaging_inv mp bo st' \<and> ms_managed st' = ms_managed st \<and> ms_ephemeral st' = ms_ephemeral st \<and>
    length (ms_heap st') = length (ms_heap st)"
  using assms
proof (induction mp bo p name m st arbitrary: st' r rule: reply_publish.induct)
  case (1 mp bo which name m st)
  then show ?case using registry_publish_keeps by simp
next
  case (2 mp bo ephemeral managed name m st)
  obtain st1 r1 where r1: "reply_publish mp bo ephemeral name m st = (st1, r1)" by force
  note k1 = "2.IH"(1) [OF "2.prems"(1) r1]
  show ?case
  proof (cases "\<exists>e. r1 = Done (Inl (PClosed e))")
    case True
    then obtain e where e: "r1 = Done (Inl (PClosed e))" by blast
    have "reply_publish mp bo managed name m st1 = (st', r)" using "2.prems"(2) by (simp add: r1 e)
    from "2.IH"(2) [OF r1 [symmetric] e refl refl conjunct1 [OF k1] this] k1 show ?thesis by simp
  next
    case False
    then have "(st', r) = (st1, r1)"
      using "2.prems"(2) by (auto simp: r1 split: waiting.splits sum.splits publish_error.splits)
    with k1 show ?thesis by simp
  qed
qed

subsection \<open>A reply channel\<close>

text \<open>The reply channel as \<open>return_address\<close> makes it, with one slot and one group, holding \<open>ms\<close>.\<close>

definition reply_channel ::
  "('q, message) mpsc_ops \<Rightarrow> ('b, message) broadcast_ops \<Rightarrow> ('q, 'b) local_channel \<Rightarrow> message list \<Rightarrow> bool" where
  "reply_channel mp bo c ms \<longleftrightarrow>
     channel_inv mp bo c \<and> lc_publish_timeout c = 30000 \<and> lc_consume_timeout c = 30000 \<and>
     (\<exists>q. lc_inner c = BlockI [REPLY_GROUP] [(REPLY_GROUP, q)] \<and> mp_items mp q = ms \<and> mp_capacity mp q = 1)"

abbreviation no_space :: publish_error where
  "no_space \<equiv> PTimeout (''no space after '' @ show_int 30000 @ ''ms'')"

abbreviation no_reply :: consume_error where
  "no_reply \<equiv> CTimeout (''no message after '' @ show_int 30000 @ ''ms'')"

lemma reply_channel_publish:
  assumes "reply_channel mp bo c ms"
  shows "\<exists>c'. publish mp bo c m = (c', Done (if ms = [] then Inr () else Inl no_space)) \<and>
    reply_channel mp bo c' (if ms = [] then [m] else ms)"
proof -
  obtain q where q: "lc_inner c = BlockI [REPLY_GROUP] [(REPLY_GROUP, q)]" "mp_items mp q = ms" "mp_capacity mp q = 1"
    using assms by (auto simp: reply_channel_def)
  have c: "channel_inv mp bo c" "lc_publish_timeout c = 30000" "lc_consume_timeout c = 30000"
    using assms by (simp_all add: reply_channel_def)
  note send = mpsc_send_okD [OF channel_inv_specs(1) [OF c(1)], of q m]
  show ?thesis
  proof (cases "mp_send mp m q")
    case None
    then have "publish mp bo c m = (c, Done (Inl no_space))" "ms \<noteq> []"
      using send q by (auto simp: publish_def send_to_def c)
    with assms show ?thesis by auto
  next
    case (Some q')
    let ?c = "c \<lparr> lc_inner := BlockI [REPLY_GROUP] [(REPLY_GROUP, q')] \<rparr>"
    have q': "ms = []" "mp_items mp q' = [m]" "mp_capacity mp q' = 1" using send Some q by auto
    have run: "publish mp bo c m = (?c, Done (Inr ()))"
      using Some q by (simp add: publish_def send_to_def hm_insert_def)
    moreover have "channel_inv mp bo ?c" using lc.inv_pub [OF c(1), of m] run by simp
    ultimately show ?thesis using q' c by (simp add: reply_channel_def)
  qed
qed

lemma reply_channel_consume:
  assumes "reply_channel mp bo c ms"
  shows "\<exists>c'. consume mp bo [] c REPLY_GROUP = (c', Done (case ms of [] \<Rightarrow> Inl no_reply | m # _ \<Rightarrow> Inr m)) \<and>
    reply_channel mp bo c' (tl ms)"
proof -
  obtain q where q: "lc_inner c = BlockI [REPLY_GROUP] [(REPLY_GROUP, q)]" "mp_items mp q = ms" "mp_capacity mp q = 1"
    using assms by (auto simp: reply_channel_def)
  have c: "channel_inv mp bo c" "lc_publish_timeout c = 30000" "lc_consume_timeout c = 30000"
    using assms by (simp_all add: reply_channel_def)
  have init: "init_group mp bo REPLY_GROUP c = c" by (simp add: init_group_def q(1) hm_has_def)
  obtain c' r where con: "consume mp bo [] c REPLY_GROUP = (c', r)" by force
  have "channel_inv mp bo c'" using lc.inv_con [OF c(1), of REPLY_GROUP] con by simp
  with con mpsc_recv_okD [OF channel_inv_specs(1) [OF c(1)], of q] show ?thesis
    by (auto simp: consume_def Let_def init q c receive_block_def nothing_available_def reply_channel_def
        hm_insert_def split: option.splits list.splits)
qed

lemma hm_insert_values: "set (map snd (hm_insert k v m)) \<subseteq> insert v (set (map snd m))"
  by (induction m) (auto simp: hm_insert_def)

lemma return_address_props:
  assumes "messaging_inv mp bo st" and "return_address mp bo uuid st = (ra, st')"
  shows "messaging_inv mp bo st'" and "ra_name ra = ''reply-'' @ uuid" and "ra_channel ra = length (ms_heap st)"
    and "ms_ephemeral st' = hm_insert (ra_name ra) (ra_channel ra) (ms_ephemeral st)"
    and "ms_managed st' = ms_managed st" and "length (ms_heap st') = Suc (length (ms_heap st))"
    and "reply_channel mp bo (channel_at st' (ra_channel ra)) []"
    and "ref < length (ms_heap st) \<Longrightarrow> channel_at st' ref = channel_at st ref"
proof -
  let ?n = "channel_new bo 1 Block 30000 30000 :: ('a, 'b) local_channel"
  let ?c = "init_group mp bo REPLY_GROUP ?n"
  have specs: "mpsc_spec mp" "broadcast_spec bo" using assms(1) by (simp_all add: messaging_inv_def)
  have new: "channel_inv mp bo ?n" by (rule channel_inv_new(1) [OF specs]) simp
  have inner: "lc_inner ?c = BlockI [REPLY_GROUP] [(REPLY_GROUP, mp_new mp 1)]"
    by (simp add: init_group_def channel_new_def hm_has_def hs_insert_def hm_insert_def)
  have fields: "lc_capacity ?c = 1" "lc_publish_timeout ?c = 30000" "lc_consume_timeout ?c = 30000"
    by (simp_all add: init_group_def channel_new_def hm_has_def)
  have fresh: "reply_channel mp bo ?c []"
    using init_group_contract(1) [OF new, of REPLY_GROUP] inner fields mpsc_newD [OF specs(1), of 1]
    by (simp add: reply_channel_def)
  have st': "ra = \<lparr> ra_channel = length (ms_heap st), ra_name = ''reply-'' @ uuid \<rparr>"
    "st' = st \<lparr> ms_heap := ms_heap st @ [?c],
       ms_ephemeral := hm_insert (''reply-'' @ uuid) (length (ms_heap st)) (ms_ephemeral st) \<rparr>"
    using assms(2)
    by (auto simp: return_address_def Let_def alloc_channel_def DEFAULT_REPLY_TIMEOUT_MS_def registry_register_def)
  have "ref < Suc (length (ms_heap st))"
    if "ref \<in> set (map snd (hm_insert name (length (ms_heap st)) (ms_ephemeral st)))" for ref name
    using subsetD [OF hm_insert_values that] assms(1)
    by (metis (no_types, lifting) UnCI insertE less_Suc_eq messaging_inv_def)
  then show "messaging_inv mp bo st'"
    using assms(1) fresh by (auto simp: messaging_inv_def st' hm_wf_insert reply_channel_def less_Suc_eq)
  show "reply_channel mp bo (channel_at st' (ra_channel ra)) []"
    using fresh by (simp add: st' channel_at_def)
  show "ref < length (ms_heap st) \<Longrightarrow> channel_at st' ref = channel_at st ref"
    by (simp add: st' channel_at_def nth_append)
qed (use assms(2) in \<open>auto simp: return_address_def Let_def alloc_channel_def registry_register_def\<close>)

text \<open>
  Request-reply: the address handed out for a request accepts exactly one reply from whoever
  publishes to its name, a second reply finds no space, and \<open>take\<close> returns the first one; without a
  reply \<open>take\<close> fails with a timeout. Either way the address is gone afterwards, so that a late
  reply is told that the channel does not exist, and no other channel is touched.
\<close>

theorem reply_channel_single_use:
  assumes "messaging_inv mp bo st" and "return_address mp bo uuid st = (ra, st0)"
  shows "(\<exists>st1 st2 late. registry_publish mp bo Ephemeral (ra_name ra) m st0 = (st1, Done (Inr ())) \<and>
      registry_publish mp bo Ephemeral (ra_name ra) m' st1 = (st2, Done (Inl no_space)) \<and>
      return_address_take mp bo ra st2 = (late, Done (Inr m)) \<and>
      registry_publish mp bo Ephemeral (ra_name ra) m' late = (late, Done (Inl (PClosed (channel_not_found (ra_name ra)))))) \<and>
    (\<exists>late. return_address_take mp bo ra st0 =
        (late, Done (Inl (''reply channel error: '' @ consume_error_display no_reply))) \<and>
      hm_get (ra_name ra) (ms_ephemeral late) = None)"
proof (intro conjI)
  note ra = return_address_props [OF assms]
  let ?r = "ra_channel ra"
  have get: "hm_get (ra_name ra) (ms_ephemeral st0) = Some ?r" by (simp add: ra(4))
  obtain c1 where c1: "publish mp bo (channel_at st0 ?r) m = (c1, Done (Inr ()))" "reply_channel mp bo c1 [m]"
    using reply_channel_publish [OF ra(7), of m] by auto
  obtain c2 where c2: "publish mp bo c1 m' = (c2, Done (Inl no_space))" "reply_channel mp bo c2 [m]"
    using reply_channel_publish [OF c1(2), of m'] by auto
  obtain c3 where c3: "consume mp bo [] c2 REPLY_GROUP = (c3, Done (Inr m))"
    using reply_channel_consume [OF c2(2)] by auto
  have "?r < length (ms_heap st0)" using ra(3,6) by simp
  then show "\<exists>st1 st2 late. registry_publish mp bo Ephemeral (ra_name ra) m st0 = (st1, Done (Inr ())) \<and>
      registry_publish mp bo Ephemeral (ra_name ra) m' st1 = (st2, Done (Inl no_space)) \<and>
      return_address_take mp bo ra st2 = (late, Done (Inr m)) \<and>
      registry_publish mp bo Ephemeral (ra_name ra) m' late = (late, Done (Inl (PClosed (channel_not_found (ra_name ra)))))"
    using get c1(1) c2(1) c3
    by (simp add: registry_publish_def registry_lookup_def publish_at_def return_address_take_def Let_def
        registry_remove_def return_address_drop_def)
  obtain c4 where "consume mp bo [] (channel_at st0 ?r) REPLY_GROUP = (c4, Done (Inl no_reply))"
    using reply_channel_consume [OF ra(7)] by auto
  then show "\<exists>late. return_address_take mp bo ra st0 =
        (late, Done (Inl (''reply channel error: '' @ consume_error_display no_reply))) \<and>
      hm_get (ra_name ra) (ms_ephemeral late) = None"
    by (simp add: return_address_take_def Let_def registry_remove_def return_address_drop_def)
qed

lemma reply_channel_single_use_witness:
  "\<exists>late. return_address_take list_mpsc list_broadcast_ops
      (fst (return_address list_mpsc list_broadcast_ops ''1'' (messaging_new :: (message list \<times> nat, message list_broadcast) messaging)))
      (snd (return_address list_mpsc list_broadcast_ops ''1'' messaging_new)) =
    (late, Done (Inl (''reply channel error: '' @ consume_error_display no_reply)))"
proof -
  have "messaging_inv list_mpsc list_broadcast_ops (messaging_new :: (message list \<times> nat, message list_broadcast) messaging)"
    by (rule messaging_inv_new [OF list_mpsc_spec list_broadcast_spec])
  from reply_channel_single_use [OF this surjective_pairing, of "''1''"] show ?thesis by blast
qed

end
