(* ===== verification/Paths.thy ===== *)
theory Paths
  imports Message
begin

section \<open>Paths, templates and content-type specs (\<open>src/mapping.rs\<close>)\<close>

text \<open>
  The grammar of paths into JSON values, template references with defaults, content-type specs
  and their parser, UTF-8 validation, and the walk of a path through a value. The text form of
  JSON is a parameter: \<open>sj\<close> prints a value (\<open>to_string\<close>, \<open>to_vec\<close>), \<open>pj\<close> parses one.
\<close>

datatype path_segment = Key string | Index nat

datatype content_type_spec = Literal string | Path "path_segment list"

datatype path_error =
    NoFirstName string
  | EmptySegment string
  | UnclosedBracket string
  | UnterminatedQuote string
  | NoBracketAfterQuote string
  | InvalidBracketSegment string
  | IndexTooLarge string
  | NoBracketAfterIndex string
  | UnexpectedCharacter string char nat

subsection \<open>Bytes and characters\<close>

definition is_ascii_alphanumeric :: "char \<Rightarrow> bool" where
  "is_ascii_alphanumeric c =
     (let n = (of_char c :: nat) in
      48 \<le> n \<and> n \<le> 57 \<or> 65 \<le> n \<and> n \<le> 90 \<or> 97 \<le> n \<and> n \<le> 122)"

definition is_name_char :: "char \<Rightarrow> bool" where
  "is_name_char c = (is_ascii_alphanumeric c \<or> c = CHR ''_'' \<or> c = CHR ''-'')"

text \<open>\<open>std::str::from_utf8\<close> accepts exactly the well-formed UTF-8 byte sequences.\<close>

definition cont_byte :: "char \<Rightarrow> bool" where
  "cont_byte c = (let n = (of_char c :: nat) in 128 \<le> n \<and> n \<le> 191)"

definition byte_in :: "nat \<Rightarrow> nat \<Rightarrow> char \<Rightarrow> bool" where
  "byte_in lo hi c = (let n = (of_char c :: nat) in lo \<le> n \<and> n \<le> hi)"

fun utf8_valid :: "string \<Rightarrow> bool" where
  "utf8_valid [] = True"
| "utf8_valid (a # s) =
     (if byte_in 0 127 a then utf8_valid s
      else if byte_in 194 223 a then
        (case s of b # r \<Rightarrow> cont_byte b \<and> utf8_valid r | _ \<Rightarrow> False)
      else if byte_in 224 239 a then
        (case s of b # c # r \<Rightarrow>
           (if byte_in 224 224 a then byte_in 160 191 b
            else if byte_in 237 237 a then byte_in 128 159 b else cont_byte b) \<and>
           cont_byte c \<and> utf8_valid r
         | _ \<Rightarrow> False)
      else if byte_in 240 244 a then
        (case s of b # c # d # r \<Rightarrow>
           (if byte_in 240 240 a then byte_in 144 191 b
            else if byte_in 244 244 a then byte_in 128 143 b else cont_byte b) \<and>
           cont_byte c \<and> cont_byte d \<and> utf8_valid r
         | _ \<Rightarrow> False)
      else False)"

text \<open>\<open>String::push(b as char)\<close>: the code point \<open>b\<close>, in UTF-8.\<close>

definition push_byte_as_char :: "char \<Rightarrow> string" where
  "push_byte_as_char c =
     (let n = (of_char c :: nat)
      in if n < 128 then [c] else [char_of (192 + n div 64), char_of (128 + n mod 64)])"

subsection \<open>Paths\<close>

function parse_segments :: "string \<Rightarrow> string \<Rightarrow> path_error + path_segment list" where
  "parse_segments s [] = Inr []"
| "parse_segments s (c # rest) =
     (if c = CHR ''.'' then
        (let name = takeWhile is_name_char rest in
         if name = [] then Inl (EmptySegment s)
         else attempt (parse_segments s (drop (length name) rest)) (\<lambda>segs. Inr (Key name # segs)))
      else if c = CHR ''['' then
        (case rest of
           [] \<Rightarrow> Inl (UnclosedBracket s)
         | d # rest' \<Rightarrow>
             (if d = CHR ''\"'' then
                (let key = takeWhile (\<lambda>b. b \<noteq> CHR ''\"'') rest' in
                 case drop (length key) rest' of
                   [] \<Rightarrow> Inl (UnterminatedQuote s)
                 | q # after \<Rightarrow>
                     (case after of
                        [] \<Rightarrow> Inl (NoBracketAfterQuote s)
                      | e # tail \<Rightarrow>
                          (if e \<noteq> CHR '']'' then Inl (NoBracketAfterQuote s)
                           else attempt (parse_segments s tail) (\<lambda>segs. Inr (Key key # segs)))))
              else
                (let ds = takeWhile is_digit rest in
                 if ds = [] then Inl (InvalidBracketSegment s)
                 else
                   (case parse_unsigned (2 ^ 64) ds of
                      None \<Rightarrow> Inl (IndexTooLarge s)
                    | Some idx \<Rightarrow>
                        (case drop (length ds) rest of
                           [] \<Rightarrow> Inl (NoBracketAfterIndex s)
                         | e # tail \<Rightarrow>
                             (if e \<noteq> CHR '']'' then Inl (NoBracketAfterIndex s)
                              else attempt (parse_segments s tail) (\<lambda>segs. Inr (Index idx # segs))))))))
      else Inl (UnexpectedCharacter s c (length s - Suc (length rest))))"
  by pat_completeness auto
termination
proof (relation "measure (\<lambda>(s, r). length r)", goal_cases)
  case (3 s c rest d rest' key q after e tail)
  then have "length (drop (length key) rest') = Suc (Suc (length tail))" by simp
  then show ?case using 3 by simp
next
  case (4 s c rest d rest' ds idx e tail)
  then have "length (drop (length ds) rest) = Suc (length tail)" by simp
  then show ?case using 4 by simp
qed auto

definition parse_path :: "string \<Rightarrow> path_error + path_segment list" where
  "parse_path s =
     (let first = takeWhile is_name_char s in
      if first = [] then Inl (NoFirstName s)
      else attempt (parse_segments s (drop (length first) s)) (\<lambda>segs. Inr (Key first # segs)))"

text \<open>One step of a path into a value: \<open>get(k)\<close> on an object, \<open>get(i)\<close> on an array.\<close>

fun step_into :: "path_segment \<Rightarrow> json \<Rightarrow> json option" where
  "step_into (Key k) v = json_get k v"
| "step_into (Index i) v = (case v of JArray xs \<Rightarrow> get_at xs i | _ \<Rightarrow> None)"

fun walk_path :: "path_segment list \<Rightarrow> json \<Rightarrow> json option" where
  "walk_path [] v = Some v"
| "walk_path (s # ss) v = and_then (step_into s v) (walk_path ss)"

subsection \<open>Content-type specs\<close>

datatype spec_error = SpecNotString string string | SpecPath string string path_error

definition path_only_inner :: "string \<Rightarrow> string option" where
  "path_only_inner s =
     and_then (and_then (strip_prefix s ''{'') (\<lambda>t. strip_suffix t ''}'')) (\<lambda>inner.
       if has_char inner CHR ''{'' \<or> has_char inner CHR ''}'' then None else Some inner)"

definition parse_content_type_specs ::
  "json btmap \<Rightarrow> string \<Rightarrow> spec_error + content_type_spec hmap" where
  "parse_content_type_specs m block_name =
     fold_res (\<lambda>out (field, val).
       attempt (ok_or (SpecNotString block_name field) (as_str val)) (\<lambda>s.
       attempt
         (case path_only_inner s of
            Some inner \<Rightarrow> map_ok Path (map_err (SpecPath block_name field) (parse_path inner))
          | None \<Rightarrow> Inr (Literal s))
         (\<lambda>spec. Inr (hm_insert field spec out)))) [] m"

definition result_decoding_parse :: "json btmap \<Rightarrow> spec_error + content_type_spec hmap" where
  "result_decoding_parse m = parse_content_type_specs m ''result-decoding''"

definition param_encoding_parse :: "json btmap \<Rightarrow> spec_error + content_type_spec hmap" where
  "param_encoding_parse m = parse_content_type_specs m ''param-encoding''"

definition is_supported_content_type :: "string \<Rightarrow> bool" where
  "is_supported_content_type ct = (ct = ''application/json'' \<or> ct = ''text/plain'')"

text \<open>The four mapping blocks.\<close>

record mapping_config =
  mc_param_mapping :: "(json hmap) option"
  mc_param_encoding :: "(content_type_spec hmap) option"
  mc_result_decoding :: "(content_type_spec hmap) option"
  mc_result_mapping :: "json option"

subsection \<open>Printing paths, for the round trip\<close>

definition bare_name :: "string \<Rightarrow> bool" where
  "bare_name s \<longleftrightarrow> s \<noteq> [] \<and> list_all is_name_char s"

fun show_segment :: "path_segment \<Rightarrow> string" where
  "show_segment (Key k) = (if bare_name k then ''.'' @ k else ''[\"'' @ k @ ''\"]'')"
| "show_segment (Index i) = ''['' @ show_nat i @ '']''"

fun segment_ok :: "path_segment \<Rightarrow> bool" where
  "segment_ok (Key k) = (CHR ''\"'' \<notin> set k)"
| "segment_ok (Index i) = (i < 2 ^ 64)"

definition show_path :: "string \<Rightarrow> path_segment list \<Rightarrow> string" where
  "show_path first segs = first @ concat (map show_segment segs)"

lemma takeWhile_stop:
  "list_all P xs \<Longrightarrow> ys = [] \<or> \<not> P (hd ys) \<Longrightarrow> takeWhile P (xs @ ys) = xs"
  by (cases ys) (auto simp: list_all_iff takeWhile_append2)

lemma shown_start: "concat (map show_segment segs) = [] \<or> hd (concat (map show_segment segs)) \<in> {CHR ''.'', CHR ''[''}"
  by (cases segs; cases "hd segs") auto

lemma name_char_not [simp]: "\<not> is_name_char CHR ''.''" "\<not> is_name_char CHR ''[''" "\<not> is_digit CHR '']''"
  by (simp_all add: is_name_char_def is_ascii_alphanumeric_def is_digit_def digit_val_def)

lemma parse_segments_show:
  "list_all segment_ok segs \<Longrightarrow> parse_segments s (concat (map show_segment segs)) = Inr segs"
proof (induction segs)
  case (Cons seg segs)
  let ?r = "concat (map show_segment segs)"
  have ih: "parse_segments s ?r = Inr segs" using Cons by simp
  have stop: "?r = [] \<or> \<not> is_name_char (hd ?r)" using shown_start [of segs] by auto
  show ?case
  proof (cases seg)
    case (Key k)
    show ?thesis
    proof (cases "bare_name k")
      case True
      then have "takeWhile is_name_char (k @ ?r) = k" "k \<noteq> []"
        using takeWhile_stop [of is_name_char k, OF _ stop] by (auto simp: bare_name_def)
      with Key True ih show ?thesis by simp
    next
      case False
      have "takeWhile (\<lambda>b. b \<noteq> CHR ''\"'') (k @ CHR ''\"'' # CHR '']'' # ?r) = k"
        by (rule takeWhile_stop) (use Cons.prems Key in \<open>auto simp: list_all_iff\<close>)
      with Key False ih show ?thesis by simp
    qed
  next
    case (Index i)
    have d: "list_all is_digit (show_nat i)" using show_nat_digits by (auto simp: list_all_iff)
    then have t: "takeWhile is_digit (show_nat i @ CHR '']'' # ?r) = show_nat i"
      by (rule takeWhile_stop) simp
    obtain c cs where c: "show_nat i = c # cs" by (cases "show_nat i") auto
    then have "is_digit c" using d by simp
    then have "c \<noteq> CHR ''\"''" by (auto simp: is_digit_def digit_val_def)
    moreover have "parse_unsigned (2 ^ 64) (show_nat i) = Some i"
      using Cons.prems Index by simp
    ultimately show ?thesis using Index ih t c by simp
  qed
qed simp

text \<open>
  The path grammar reads back every path it can spell: bare names after a dot, quoted keys
  in brackets, and bracketed indices up to the width of \<open>usize\<close> are parsed to the segments they
  were printed from, in order.
\<close>

theorem parse_path_show:
  assumes "bare_name first" and "list_all segment_ok segs"
  shows "parse_path (show_path first segs) = Inr (Key first # segs)"
proof -
  have "concat (map show_segment segs) = [] \<or> \<not> is_name_char (hd (concat (map show_segment segs)))"
    using shown_start [of segs] by auto
  then have "takeWhile is_name_char (show_path first segs) = first"
    using takeWhile_stop assms(1) by (auto simp: show_path_def bare_name_def)
  with assms show ?thesis
    by (simp add: parse_path_def parse_segments_show) (simp add: show_path_def parse_segments_show bare_name_def)
qed

lemma parse_path_show_witness:
  "parse_path ''body[\"a.b\"].items[3]'' = Inr [Key ''body'', Key ''a.b'', Key ''items'', Index 3]"
proof -
  have "show_nat 3 = ''3''" by code_simp
  moreover have "\<not> bare_name ''a.b''" "bare_name ''items''" "bare_name ''body''"
    by (simp_all add: bare_name_def is_name_char_def is_ascii_alphanumeric_def)
  ultimately show ?thesis
    using parse_path_show [of "''body''" "[Key ''a.b'', Key ''items'', Index 3]"]
    by (simp add: show_path_def)
qed

end
