(* ===== verification/Schema.thy ===== *)
theory Schema
  imports Paths "HOL-Library.Sublist"
begin

section \<open>Schema derivation and alignment (\<open>src/schema.rs\<close>)\<close>

text \<open>
  References in templates, resolution of paths in JSON schemas, the derived input and output
  schemas of a mapped operation, structural alignment, and coercion of values to a schema.
  \<open>unwrap_singular_oneof\<close> and \<open>coerce_value\<close> have no failing branch (printing a value cannot
  fail), so they are plain functions.
\<close>

datatype schema_error =
    NoProperties string
  | KeyNotFound string
  | TupleIndexOutOfRange nat nat
  | NoItems nat
  | CannotDescendKey string "string option"
  | CannotDescendIndex nat "string option"
  | UnknownParam string string
  | NoReturnType string
  | IndexInBody nat
  | EmptyInsertPath
  | ConflictingTypes string
  | NotAnObjectSchema
  | RequiredNotArray
  | PropertiesNotObject
  | AlignUnwrap string
  | TypeMismatchAt string string string
  | PropertySetMismatch string "string list" "string list"
  | TupleLengthMismatch string nat nat
  | ResultHasNoProperties string
  | ResultHasNoField string
  | FieldNotByteArray string

subsection \<open>Template references\<close>

definition parse_token_path :: "string \<Rightarrow> path_segment list option" where
  "parse_token_path inner =
     (let trimmed = str_trim inner;
          head = str_trim (case str_split trimmed CHR ''|'' of h # _ \<Rightarrow> h | [] \<Rightarrow> trimmed)
      in case parse_path head of Inr p \<Rightarrow> Some p | Inl _ \<Rightarrow> None)"

definition template_path :: "string \<Rightarrow> path_segment list option" where
  "template_path s = and_then (path_only_inner s) parse_token_path"

function extract_template_refs :: "string \<Rightarrow> path_segment list list" where
  "extract_template_refs [] = []"
| "extract_template_refs (c # rest) =
     (if c = CHR ''{'' then
        (case str_find rest ''}'' of
           Some e \<Rightarrow>
             (case parse_token_path (take e rest) of Some p \<Rightarrow> [p] | None \<Rightarrow> []) @
             extract_template_refs (drop (Suc e) rest)
         | None \<Rightarrow> extract_template_refs rest)
      else extract_template_refs rest)"
  by pat_completeness auto
termination by (relation "measure length") auto

fun body_subpath :: "path_segment list \<Rightarrow> path_segment list option" where
  "body_subpath (Key k # rest) = (if k = ''body'' then Some rest else None)"
| "body_subpath _ = None"

subsection \<open>Resolving paths in schemas\<close>

definition schema_type :: "json \<Rightarrow> string option" where
  "schema_type s = and_then (json_get ''type'' s) as_str"

definition schema_is_null :: "json \<Rightarrow> bool" where
  "schema_is_null s = (schema_type s = Some ''null'')"

text \<open>The loop over the two arms of a \<open>result\<close>: the value of \<open>ok\<close> so far and whether \<open>error\<close> was
  seen, or \<open>None\<close> when the schema is left as it is.\<close>

definition result_arm :: "json option \<times> bool \<Rightarrow> json \<Rightarrow> (json option \<times> bool) option" where
  "result_arm st arm =
     (case and_then (json_get ''properties'' arm) as_object of
        Some [(key, val)] \<Rightarrow>
          (if key = ''ok'' then Some (Some val, snd st)
           else if key = ''error'' then Some (fst st, True) else None)
      | _ \<Rightarrow> None)"

definition unwrap_singular_oneof :: "json \<Rightarrow> json" where
  "unwrap_singular_oneof schema =
     (case and_then (json_get ''oneOf'' schema) as_array of
        Some [a, b] \<Rightarrow>
          (case (find_first (\<lambda>s. \<not> schema_is_null s) [a, b], list_ex schema_is_null [a, b]) of
             (Some non_null, True) \<Rightarrow> non_null
           | _ \<Rightarrow>
               (case and_then (result_arm (None, False) a) (\<lambda>st. result_arm st b) of
                  Some (Some v, True) \<Rightarrow> v
                | _ \<Rightarrow> schema))
      | _ \<Rightarrow> schema)"

definition descend :: "json \<Rightarrow> path_segment \<Rightarrow> schema_error + json" where
  "descend schema segment =
     (let current = unwrap_singular_oneof schema; t = schema_type current in
      case segment of
        Key k \<Rightarrow>
          (if t = Some ''object'' then
             attempt (ok_or (NoProperties k) (and_then (json_get ''properties'' current) as_object))
               (\<lambda>props. ok_or (KeyNotFound k) (map_of props k))
           else Inl (CannotDescendKey k t))
      | Index idx \<Rightarrow>
          (if t = Some ''array'' then
             (case and_then (json_get ''prefixItems'' current) as_array of
                Some items \<Rightarrow> ok_or (TupleIndexOutOfRange idx (length items)) (get_at items idx)
              | None \<Rightarrow> ok_or (NoItems idx) (json_get ''items'' current))
           else Inl (CannotDescendIndex idx t)))"

definition resolve_path :: "json \<Rightarrow> path_segment list \<Rightarrow> schema_error + json" where
  "resolve_path schema path =
     map_ok unwrap_singular_oneof (fold_res descend (unwrap_singular_oneof schema) path)"

definition validate_path_exists :: "json \<Rightarrow> path_segment list \<Rightarrow> schema_error + unit" where
  "validate_path_exists schema path = map_ok (\<lambda>_. ()) (resolve_path schema path)"

definition is_byte_schema :: "json \<Rightarrow> bool" where
  "is_byte_schema items \<longleftrightarrow>
     schema_type items = Some ''number'' \<and>
     and_then (json_get ''minimum'' items) as_u64 = Some 0 \<and>
     and_then (json_get ''maximum'' items) as_u64 = Some 255"

definition validate_byte_array_field :: "json \<Rightarrow> string \<Rightarrow> schema_error + unit" where
  "validate_byte_array_field result_schema field_name =
     (let schema = unwrap_singular_oneof (unwrap_singular_oneof result_schema) in
      attempt (ok_or (ResultHasNoProperties field_name)
                 (and_then (json_get ''properties'' schema) as_object)) (\<lambda>properties.
      attempt (ok_or (ResultHasNoField field_name) (map_of properties field_name)) (\<lambda>field_schema.
      let field_schema = unwrap_singular_oneof field_schema in
      if schema_type field_schema \<noteq> Some ''array'' then Inl (FieldNotByteArray field_name)
      else
        attempt (ok_or (FieldNotByteArray field_name) (json_get ''items'' field_schema)) (\<lambda>items.
          guard_res (\<not> is_byte_schema (unwrap_singular_oneof items)) (FieldNotByteArray field_name)))))"

subsection \<open>Deriving the input schema\<close>

definition jstrings :: "string list \<Rightarrow> json" where
  "jstrings xs = JArray (map JString xs)"

definition jtype :: "string \<Rightarrow> json" where
  "jtype t = JObject [(''type'', JString t)]"

definition object_schema :: "json btmap \<Rightarrow> string list \<Rightarrow> json" where
  "object_schema properties required =
     jobj [(''type'', JString ''object''), (''properties'', JObject properties),
           (''required'', jstrings required), (''additionalProperties'', JBool False)]"

definition schema_for_encoded_position :: "content_type_spec \<Rightarrow> json" where
  "schema_for_encoded_position spec =
     (if spec = Literal ''text/plain'' then jtype ''string'' else JObject [])"

definition param_surface_schema ::
  "(content_type_spec hmap) option \<Rightarrow> string \<Rightarrow> json \<Rightarrow> json" where
  "param_surface_schema encoding param_name wit_schema =
     (case and_then encoding (hm_get param_name) of
        Some spec \<Rightarrow> schema_for_encoded_position spec
      | None \<Rightarrow> wit_schema)"

fun collect_refs :: "json \<Rightarrow> path_segment list list" where
  "collect_refs (JString s) =
     (case template_path s of Some p \<Rightarrow> [p] | None \<Rightarrow> extract_template_refs s)"
| "collect_refs (JArray items) = concat (map collect_refs items)"
| "collect_refs (JObject m) = concat (map (\<lambda>kv. collect_refs (snd kv)) m)"
| "collect_refs _ = []"

fun key_segment :: "path_segment \<Rightarrow> schema_error + string" where
  "key_segment (Key k) = Inr k"
| "key_segment (Index i) = Inl (IndexInBody i)"

definition obj_required :: "json btmap \<Rightarrow> schema_error + json list" where
  "obj_required obj =
     (case map_of obj ''required'' of
        None \<Rightarrow> Inr [] | Some (JArray a) \<Rightarrow> Inr a | Some _ \<Rightarrow> Inl RequiredNotArray)"

definition obj_properties :: "json btmap \<Rightarrow> schema_error + json btmap" where
  "obj_properties obj =
     (case map_of obj ''properties'' of
        None \<Rightarrow> Inr [] | Some (JObject p) \<Rightarrow> Inr p | Some _ \<Rightarrow> Inl PropertiesNotObject)"

fun insert_recursive :: "json \<Rightarrow> path_segment list \<Rightarrow> json \<Rightarrow> schema_error + json" where
  "insert_recursive node [] leaf = Inl EmptyInsertPath"
| "insert_recursive node (seg # rest) leaf =
     attempt (ok_or NotAnObjectSchema (as_object node)) (\<lambda>obj.
     attempt (key_segment seg) (\<lambda>head.
     attempt (obj_required obj) (\<lambda>req.
     let obj = bt_insert ''required''
                 (JArray (if JString head \<in> set req then req else req @ [JString head])) obj in
     attempt (obj_properties obj) (\<lambda>props.
       if rest = [] then
         (case map_of props head of
            Some existing \<Rightarrow>
              if existing \<noteq> leaf then Inl (ConflictingTypes head)
              else Inr (JObject (bt_insert ''properties'' (JObject props) obj))
          | None \<Rightarrow> Inr (JObject (bt_insert ''properties'' (JObject (bt_insert head leaf props)) obj)))
       else
         attempt (insert_recursive (unwrap_or (map_of props head) (object_schema [] [])) rest leaf) (\<lambda>nested.
           Inr (JObject (bt_insert ''properties'' (JObject (bt_insert head nested props)) obj)))))))"

definition push_required :: "string \<Rightarrow> string list \<Rightarrow> string list" where
  "push_required head required = (if head \<in> set required then required else required @ [head])"

definition insert_at_path ::
  "json btmap \<times> string list \<Rightarrow> path_segment list \<Rightarrow> json \<Rightarrow> schema_error + json btmap \<times> string list" where
  "insert_at_path acc path leaf =
     (case acc of (properties, required) \<Rightarrow>
        (case path of
           [] \<Rightarrow> Inl EmptyInsertPath
         | seg # rest \<Rightarrow>
             attempt (key_segment seg) (\<lambda>head.
               if rest = [] then
                 (case map_of properties head of
                    Some existing \<Rightarrow>
                      if existing \<noteq> leaf then Inl (ConflictingTypes head) else Inr (properties, required)
                  | None \<Rightarrow> Inr (bt_insert head leaf properties, push_required head required))
               else
                 attempt (insert_recursive (unwrap_or (map_of properties head) (object_schema [] [])) rest leaf)
                   (\<lambda>nested. Inr (bt_insert head nested properties, push_required head required)))))"

definition derive_param_entry ::
  "function_spec \<Rightarrow> mapping_config \<Rightarrow> json btmap \<times> string list \<Rightarrow> string \<times> json \<Rightarrow>
   schema_error + json btmap \<times> string list" where
  "derive_param_entry f config acc entry =
     (case entry of (arg_name, template) \<Rightarrow>
        attempt (ok_or (UnknownParam arg_name (fn_name f))
                   (find_first (\<lambda>p. fp_name p = arg_name) (fn_params f))) (\<lambda>param.
          case and_then (and_then (as_str template) template_path) body_subpath of
            Some under_body \<Rightarrow>
              insert_at_path acc under_body
                (param_surface_schema (mc_param_encoding config) (fp_name param) (fp_json_schema param))
          | None \<Rightarrow>
              fold_res (\<lambda>acc under_body. insert_at_path acc under_body (jtype ''string'')) acc
                (List.map_filter body_subpath (collect_refs template))))"

definition derive_input_schema :: "function_spec \<Rightarrow> mapping_config \<Rightarrow> schema_error + json" where
  "derive_input_schema f config =
     (case mc_param_mapping config of
        None \<Rightarrow>
          Inr (object_schema
            (fold (\<lambda>p. bt_insert (fp_name p)
                (param_surface_schema (mc_param_encoding config) (fp_name p) (fp_json_schema p))) (fn_params f) [])
            (map fp_name (filter (\<lambda>p. \<not> fp_is_optional p) (fn_params f))))
      | Some param_mapping \<Rightarrow>
          attempt (fold_res (derive_param_entry f config) ([], []) param_mapping)
            (\<lambda>(properties, required). Inr (object_schema properties required)))"

subsection \<open>Deriving the output schema\<close>

definition apply_decoding_to_schema :: "json \<Rightarrow> content_type_spec hmap \<Rightarrow> json" where
  "apply_decoding_to_schema wit_result decoding =
     (case wit_result of
        JObject m \<Rightarrow>
          (case map_of m ''properties'' of
             Some (JObject properties) \<Rightarrow>
               JObject (bt_insert ''properties''
                 (JObject (fold (\<lambda>(f, spec). bt_insert f (schema_for_encoded_position spec)) decoding properties)) m)
           | _ \<Rightarrow> wit_result)
      | _ \<Rightarrow> wit_result)"

fun derive_schema_from_template :: "json \<Rightarrow> json \<Rightarrow> schema_error + json" where
  "derive_schema_from_template (JString s) wit_source =
     (case template_path s of
        Some path \<Rightarrow> resolve_path wit_source path
      | None \<Rightarrow> Inr (jtype ''string''))"
| "derive_schema_from_template (JObject m) wit_source =
     attempt (collect_res (map (\<lambda>kv. map_ok (Pair (fst kv)) (derive_schema_from_template (snd kv) wit_source)) m))
       (\<lambda>subs. Inr (object_schema (bt_extend [] subs) (map fst m)))"
| "derive_schema_from_template (JArray items) wit_source =
     attempt (collect_res (map (\<lambda>v. derive_schema_from_template v wit_source) items)) (\<lambda>subs.
       Inr (jobj [(''type'', JString ''array''), (''prefixItems'', JArray subs),
                  (''minItems'', JNumber (PosInt (of_nat (length subs)))),
                  (''maxItems'', JNumber (PosInt (of_nat (length subs))))]))"
| "derive_schema_from_template (JBool b) wit_source = Inr (jtype ''boolean'')"
| "derive_schema_from_template (JNumber n) wit_source = Inr (jtype ''number'')"
| "derive_schema_from_template JNull wit_source = Inr (jtype ''null'')"

definition decoded_schema :: "(content_type_spec hmap) option \<Rightarrow> json \<Rightarrow> json" where
  "decoded_schema decoding schema =
     (case decoding of None \<Rightarrow> schema | Some d \<Rightarrow> apply_decoding_to_schema schema d)"

definition derive_output_schema :: "function_spec \<Rightarrow> mapping_config \<Rightarrow> schema_error + json option" where
  "derive_output_schema f config =
     (case mc_result_mapping config of
        None \<Rightarrow>
          Inr (map_option (\<lambda>r. decoded_schema (mc_result_decoding config) (unwrap_singular_oneof r)) (fn_result f))
      | Some result_mapping \<Rightarrow>
          (case json_get ''body'' result_mapping of
             None \<Rightarrow> Inr None
           | Some template \<Rightarrow>
               if template = JNull \<or> template = JString [] then Inr None
               else
                 attempt (ok_or (NoReturnType (fn_name f)) (fn_result f)) (\<lambda>wit_result.
                   map_ok Some (derive_schema_from_template template
                     (decoded_schema (mc_result_decoding config) wit_result)))))"

subsection \<open>Coercion to a schema\<close>

text \<open>\<open>sj\<close> is \<open>serde_json::to_string\<close>.\<close>

function coerce_value :: "(json \<Rightarrow> string) \<Rightarrow> json \<Rightarrow> json \<Rightarrow> json" where
  "coerce_value sj schema (JNull) = JNull"
| "coerce_value sj schema (JString s) = JString s"
| "coerce_value sj schema (JBool b) =
     (if schema_type schema = Some ''string'' then JString (sj (JBool b)) else JBool b)"
| "coerce_value sj schema (JNumber n) =
     (if schema_type schema = Some ''string'' then JString (sj (JNumber n)) else JNumber n)"
| "coerce_value sj schema (JObject m) =
     (if schema_type schema = Some ''string'' then JString (sj (JObject m))
      else if schema_type schema = Some ''object'' then
        (case and_then (json_get ''properties'' schema) as_object of
           Some properties \<Rightarrow>
             JObject (map (\<lambda>(k, v).
               (k, case map_of properties k of Some sub \<Rightarrow> coerce_value sj sub v | None \<Rightarrow> v)) m)
         | None \<Rightarrow> JObject m)
      else JObject m)"
| "coerce_value sj schema (JArray xs) =
     (if schema_type schema = Some ''string'' then JString (sj (JArray xs))
      else if schema_type schema = Some ''array'' then
        (case json_get ''items'' schema of
           Some item_schema \<Rightarrow> JArray (map (coerce_value sj item_schema) xs)
         | None \<Rightarrow> JArray xs)
      else JArray xs)"
  by pat_completeness auto
termination
  by (relation "measure (\<lambda>(sj, schema, v). json_size v)") (auto dest: member_size element_size)

subsection \<open>Structural alignment\<close>

definition display_path :: "string \<Rightarrow> string" where
  "display_path p = (if p = [] then ''(root)'' else p)"

definition type_check :: "string option \<Rightarrow> string option \<Rightarrow> string \<Rightarrow> schema_error + unit" where
  "type_check declared_type derived_type path =
     (case (declared_type, derived_type) of
        (Some d, Some s) \<Rightarrow>
          guard_res (d \<noteq> s \<and> d \<noteq> ''string'') (TypeMismatchAt (display_path path) d s)
      | _ \<Rightarrow> Inr ())"

definition schema_properties :: "json \<Rightarrow> json btmap" where
  "schema_properties s = unwrap_or (and_then (json_get ''properties'' s) as_object) []"

definition property_set_check :: "json btmap \<Rightarrow> json btmap \<Rightarrow> string \<Rightarrow> schema_error + unit" where
  "property_set_check declared derived path =
     (let extra = filter (\<lambda>k. k \<notin> set (map fst derived)) (map fst declared);
          missing = filter (\<lambda>k. k \<notin> set (map fst declared)) (map fst derived)
      in guard_res (set (map fst derived) \<noteq> set (map fst declared))
           (PropertySetMismatch (display_path path) extra missing))"

lemma unwrap_singular_oneof_size: "json_size (unwrap_singular_oneof s) \<le> json_size s"
proof -
  have arm: "json_size v < json_size x" if h: "result_arm st x = Some (Some v, e)" "fst st \<noteq> Some v" for st x v e
  proof -
    obtain o1 m where o1: "json_get ''properties'' x = Some o1" and m: "as_object o1 = Some m"
      using h(1)
      by (cases "and_then (json_get ''properties'' x) as_object") (auto simp: result_arm_def and_then_Some_iff)
    then have "m = [(''ok'', v)]" using h
      by (auto simp: result_arm_def split: list.splits prod.splits if_splits)
    then have "json_size v < json_size o1" using as_object_size [OF m, of "''ok''" v] by simp
    with json_get_size [OF o1] show ?thesis by simp
  qed
  show ?thesis
  proof (cases "and_then (json_get ''oneOf'' s) as_array")
    case (Some xs)
    then obtain arr where arr: "json_get ''oneOf'' s = Some arr" "as_array arr = Some xs"
      by (auto simp: and_then_Some_iff)
    have el: "json_size x < json_size s" if "x \<in> set xs" for x
      using json_get_size [OF arr(1)] as_array_size [OF arr(2) that] by simp
    show ?thesis
    proof (cases "\<exists>a b. xs = [a, b]")
      case True
      then obtain a b where xs: "xs = [a, b]" by blast
      have two: "json_size v \<le> json_size s"
        if "and_then (result_arm (None, False) a) (\<lambda>st. result_arm st b) = Some (Some v, True)" for v
      proof -
        from that obtain st where st: "result_arm (None, False) a = Some st" "result_arm st b = Some (Some v, True)"
          by (auto simp: and_then_Some_iff)
        show ?thesis
        proof (cases "fst st = Some v")
          case True
          then have "json_size v < json_size a" using arm [of "(None, False)" a v "snd st"] st(1)
            by (cases st) auto
          then show ?thesis using el [of a] xs by simp
        next
          case False
          then show ?thesis using arm [OF st(2)] el [of b] xs by simp
        qed
      qed
      show ?thesis
        using Some xs el two
        by (auto simp: unwrap_singular_oneof_def split: option.splits prod.splits bool.splits
            intro: less_imp_le dest!: find_first_Some)
    next
      case False
      then show ?thesis using Some
        by (auto simp: unwrap_singular_oneof_def split: list.splits)
    qed
  qed (simp add: unwrap_singular_oneof_def)
qed

lemma schema_properties_size:
  "map_of (schema_properties s) n = Some w \<Longrightarrow> json_size w < json_size s"
  by (cases "and_then (json_get ''properties'' s) as_object")
    (auto simp: schema_properties_def and_then_Some_iff dest!: json_get_size as_object_size)

lemma unwrapped_property_size:
  "map_of (schema_properties (unwrap_singular_oneof s)) n = Some w \<Longrightarrow> json_size w < json_size s"
  using schema_properties_size unwrap_singular_oneof_size [of s] by fastforce

lemma unwrapped_items_size:
  "json_get k (unwrap_singular_oneof s) = Some w \<Longrightarrow> json_size w < json_size s"
  using json_get_size unwrap_singular_oneof_size [of s] by fastforce

lemma unwrapped_prefix_size:
  "and_then (json_get k (unwrap_singular_oneof s)) as_array = Some ws \<Longrightarrow> w \<in> set ws \<Longrightarrow> json_size w < json_size s"
  using as_array_size unwrapped_items_size by (fastforce simp: and_then_Some_iff)

lemma unwrapped_prefix_nth:
  "Some ws = and_then (json_get k (unwrap_singular_oneof s)) as_array \<Longrightarrow>
   \<forall>i < length ws. json_size (ws ! i) < json_size s"
  by (metis unwrapped_prefix_size nth_mem)

function align :: "json \<Rightarrow> json \<Rightarrow> string \<Rightarrow> schema_error + unit" where
  "align declared0 derived0 path =
     (let declared = unwrap_singular_oneof declared0;
          derived = unwrap_singular_oneof derived0;
          declared_type = schema_type declared;
          derived_type = schema_type derived
      in
      attempt (type_check declared_type derived_type path) (\<lambda>_.
      attempt
        (if derived_type = Some ''object'' \<and> declared_type = Some ''object'' then
           attempt (property_set_check (schema_properties declared) (schema_properties derived) path) (\<lambda>_.
           fold_res (\<lambda>_ name_derived_sub.
               case map_of (schema_properties declared) (fst name_derived_sub) of
                 None \<Rightarrow> Inl (AlignUnwrap (fst name_derived_sub))
               | Some declared_sub \<Rightarrow>
                   align declared_sub (snd name_derived_sub)
                     (if path = [] then fst name_derived_sub else path @ ''/'' @ fst name_derived_sub))
             () (schema_properties derived))
         else Inr ()) (\<lambda>_.
      if derived_type = Some ''array'' \<and> declared_type = Some ''array'' then
        (case (and_then (json_get ''prefixItems'' declared) as_array,
               and_then (json_get ''prefixItems'' derived) as_array) of
           (Some d, Some s) \<Rightarrow>
             if length d \<noteq> length s then
               Inl (TupleLengthMismatch (display_path path) (length d) (length s))
             else
               fold_res (\<lambda>_ idv. align (fst (snd idv)) (snd (snd idv))
                   (display_path path @ ''/'' @ show_nat (fst idv)))
                 () (enumerate 0 (zip d s))
         | _ \<Rightarrow>
             (case (json_get ''items'' declared, json_get ''items'' derived) of
                (Some d_items, Some s_items) \<Rightarrow>
                  align d_items s_items (display_path path @ ''/items'')
              | _ \<Rightarrow> Inr ()))
      else Inr ())))"
  by pat_completeness auto
termination
  by (relation "measure (\<lambda>(declared, derived, path). json_size declared)")
    (auto simp: in_set_enumerate_eq dest: unwrapped_property_size unwrapped_items_size [OF sym]
      dest!: unwrapped_prefix_nth)

definition validate_structural_alignment :: "json \<Rightarrow> json \<Rightarrow> schema_error + unit" where
  "validate_structural_alignment declared derived = align declared derived []"

subsection \<open>Coercion\<close>

text \<open>A value conforms when no position declared as a string holds anything but a string or null.\<close>

function string_conform :: "json \<Rightarrow> json \<Rightarrow> bool" where
  "string_conform schema JNull = True"
| "string_conform schema (JString s) = True"
| "string_conform schema (JBool b) = (schema_type schema \<noteq> Some ''string'')"
| "string_conform schema (JNumber n) = (schema_type schema \<noteq> Some ''string'')"
| "string_conform schema (JObject m) =
     (schema_type schema \<noteq> Some ''string'' \<and>
      (case (schema_type schema = Some ''object'', and_then (json_get ''properties'' schema) as_object) of
         (True, Some properties) \<Rightarrow>
           list_all (\<lambda>(k, v). case map_of properties k of Some sub \<Rightarrow> string_conform sub v | None \<Rightarrow> True) m
       | _ \<Rightarrow> True))"
| "string_conform schema (JArray xs) =
     (schema_type schema \<noteq> Some ''string'' \<and>
      (case (schema_type schema = Some ''array'', json_get ''items'' schema) of
         (True, Some item_schema) \<Rightarrow> list_all (string_conform item_schema) xs
       | _ \<Rightarrow> True))"
  by pat_completeness auto
termination
  by (relation "measure (\<lambda>(schema, v). json_size v)") (auto dest: member_size element_size)

lemma coerce_value_conform: "string_conform schema (coerce_value sj schema v)"
proof (induction sj schema v rule: coerce_value.induct)
  case (5 sj schema m)
  show ?case
  proof (cases "and_then (json_get ''properties'' schema) as_object")
    case (Some properties)
    with 5 show ?thesis by (auto simp: list_all_iff split: option.splits)
  qed simp
next
  case (6 sj schema xs)
  then show ?case by (cases "json_get ''items'' schema") (auto simp: list_all_iff)
qed auto

lemma coerce_value_id: "string_conform schema v \<Longrightarrow> coerce_value sj schema v = v"
proof (induction sj schema v rule: coerce_value.induct)
  case (5 sj schema m)
  show ?case
  proof (cases "schema_type schema = Some ''object''")
    case True
    show ?thesis
    proof (cases "and_then (json_get ''properties'' schema) as_object")
      case (Some properties)
      have "map (\<lambda>(k, v). (k, case map_of properties k of Some sub \<Rightarrow> coerce_value sj sub v | None \<Rightarrow> v)) m =
          map id m"
        using 5 True Some by (intro map_cong) (force simp: list_all_iff split: option.splits)+
      then show ?thesis using 5(2) True Some by simp
    qed (use 5(2) True in simp)
  qed (use 5(2) in simp)
next
  case (6 sj schema xs)
  show ?case
  proof (cases "schema_type schema = Some ''array''")
    case True
    show ?thesis
    proof (cases "json_get ''items'' schema")
      case (Some item_schema)
      have "map (coerce_value sj item_schema) xs = map id xs"
        using 6 True Some by (intro map_cong) (auto simp: list_all_iff)
      then show ?thesis using 6(2) True Some by simp
    qed (use 6(2) True in simp)
  qed (use 6(2) in simp)
qed auto

text \<open>The schema that is declared for a position of a value: of a member by \<open>properties\<close> under a schema
  of type \<open>object\<close>, of an item by \<open>items\<close> under one of type \<open>array\<close>. Alternatives (\<open>oneOf\<close>) and
  tuples (\<open>prefixItems\<close>) declare nothing here.\<close>

fun declared_at :: "path_segment list \<Rightarrow> json \<Rightarrow> json option" where
  "declared_at [] schema = Some schema"
| "declared_at (Key k # path) schema =
     (if schema_type schema = Some ''object''
      then and_then (and_then (json_get ''properties'' schema) as_object) (\<lambda>ps. and_then (map_of ps k) (declared_at path))
      else None)"
| "declared_at (Index i # path) schema =
     (if schema_type schema = Some ''array'' then and_then (json_get ''items'' schema) (declared_at path) else None)"

definition string_at :: "path_segment list \<Rightarrow> json \<Rightarrow> bool" where
  "string_at path schema \<longleftrightarrow> (\<exists>sub. declared_at path schema = Some sub \<and> schema_type sub = Some ''string'')"

fun stringified :: "(json \<Rightarrow> string) \<Rightarrow> json \<Rightarrow> json" where
  "stringified sj JNull = JNull"
| "stringified sj (JString s) = JString s"
| "stringified sj v = JString (sj v)"

text \<open>Equal scalars, arrays of one length, objects with the same keys.\<close>

fun same_head :: "json \<Rightarrow> json \<Rightarrow> bool" where
  "same_head (JArray xs) w \<longleftrightarrow> (\<exists>ys. w = JArray ys \<and> length xs = length ys)"
| "same_head (JObject m) w \<longleftrightarrow> (\<exists>m'. w = JObject m' \<and> map fst m = map fst m')"
| "same_head v w \<longleftrightarrow> v = w"

lemma same_head_refl [simp]: "same_head v v"
  by (cases v) simp_all

lemma string_at_simps:
  "string_at [] schema \<longleftrightarrow> schema_type schema = Some ''string''"
  "string_at (Key k # path) schema \<longleftrightarrow> schema_type schema = Some ''object'' \<and>
     (\<exists>ps sub. and_then (json_get ''properties'' schema) as_object = Some ps \<and> map_of ps k = Some sub \<and> string_at path sub)"
  "string_at (Index i # path) schema \<longleftrightarrow> schema_type schema = Some ''array'' \<and>
     (\<exists>sub. json_get ''items'' schema = Some sub \<and> string_at path sub)"
  by (auto simp: string_at_def and_then_def split: option.splits)

lemma map_of_map_keyed: "map_of (map (\<lambda>(k, v). (k, f k v)) m) k = map_option (f k) (map_of m k)"
  by (induction m) auto

lemma step_into_coerced:
  "step_into (Key k) (coerce_value sj schema v) =
     (if schema_type schema = Some ''string'' then None
      else map_option (\<lambda>w. case and_then (if schema_type schema = Some ''object''
               then and_then (json_get ''properties'' schema) as_object else None) (\<lambda>ps. map_of ps k) of
             Some sub \<Rightarrow> coerce_value sj sub w | None \<Rightarrow> w) (step_into (Key k) v))"
  "step_into (Index i) (coerce_value sj schema v) =
     (if schema_type schema = Some ''string'' then None
      else map_option (\<lambda>w. case if schema_type schema = Some ''array'' then json_get ''items'' schema else None of
             Some sub \<Rightarrow> coerce_value sj sub w | None \<Rightarrow> w) (step_into (Index i) v))"
  by (cases v; auto simp: map_of_map_keyed get_at_def option.map_ident split: option.splits)+

lemma coerced_string:
  "string_at path schema \<Longrightarrow> walk_path path (coerce_value sj schema v) = map_option (stringified sj) (walk_path path v)"
proof (induction path arbitrary: schema v)
  case Nil
  then show ?case by (cases v) (simp_all add: string_at_simps)
next
  case (Cons seg path)
  then show ?case
    by (cases seg; cases "step_into seg v") (auto simp: string_at_simps step_into_coerced simp del: step_into.simps)
qed

lemma coerced_elsewhere:
  "(\<And>q. prefix q path \<Longrightarrow> \<not> string_at q schema) \<Longrightarrow>
     rel_option same_head (walk_path path v) (walk_path path (coerce_value sj schema v))"
proof (induction path arbitrary: schema v)
  case Nil
  have "schema_type schema \<noteq> Some ''string''" using Nil [of "[]"] by (simp add: string_at_simps)
  then show ?case
    by (cases v) (auto simp: string_at_simps comp_def case_prod_beta' split: option.splits)
next
  case (Cons seg path)
  have type: "schema_type schema \<noteq> Some ''string''" using Cons.prems [of "[]"] by (simp add: string_at_simps)
  have rest: "\<not> string_at (seg # q) schema" if "prefix q path" for q using Cons.prems [of "seg # q"] that by simp
  show ?case
  proof (cases "step_into seg v")
    case None
    then show ?thesis by (cases seg) (simp_all add: step_into_coerced type del: step_into.simps)
  next
    case (Some w)
    have refl: "rel_option same_head x x" for x by (cases x) simp_all
    show ?thesis
    proof (cases "\<exists>sub. (\<forall>q. string_at (seg # q) schema \<longleftrightarrow> string_at q sub) \<and>
        step_into seg (coerce_value sj schema v) = Some (coerce_value sj sub w)")
      case True
      then obtain sub where sub: "\<forall>q. string_at (seg # q) schema \<longleftrightarrow> string_at q sub"
        "step_into seg (coerce_value sj schema v) = Some (coerce_value sj sub w)" by blast
      have "rel_option same_head (walk_path path w) (walk_path path (coerce_value sj sub w))"
        by (rule Cons.IH) (use rest sub(1) in blast)
      with Some sub(2) show ?thesis by simp
    next
      case False
      have "step_into seg (coerce_value sj schema v) = Some w"
      proof (cases seg)
        case (Key k)
        show ?thesis
        proof (cases "and_then (if schema_type schema = Some ''object''
            then and_then (json_get ''properties'' schema) as_object else None) (\<lambda>ps. map_of ps k)")
          case None
          then show ?thesis using Some type by (simp add: Key step_into_coerced del: step_into.simps)
        next
          case (Some sub)
          then have "string_at (seg # q) schema \<longleftrightarrow> string_at q sub" for q
            by (auto simp: Key string_at_simps and_then_def split: option.splits if_splits)
          moreover have "step_into seg (coerce_value sj schema v) = Some (coerce_value sj sub w)"
            using Some type \<open>step_into seg v = Some w\<close> by (simp add: Key step_into_coerced del: step_into.simps)
          ultimately show ?thesis using False by blast
        qed
      next
        case (Index i)
        then show ?thesis using False Some type
          by (auto simp: step_into_coerced string_at_simps simp del: step_into.simps split: option.splits if_splits)
      qed
      with Some refl show ?thesis by simp
    qed
  qed
qed

lemma fitting_conform:
  "json_wf v \<Longrightarrow> (\<And>path w. string_at path schema \<Longrightarrow> walk_path path v = Some w \<Longrightarrow> stringified sj w = w) \<Longrightarrow>
     string_conform schema v"
proof (induction schema v rule: string_conform.induct)
  case (5 schema m)
  have type: "schema_type schema \<noteq> Some ''string''" using "5.prems"(2) [of "[]"] by (auto simp: string_at_simps)
  have "string_conform sub x"
    if o: "schema_type schema = Some ''object''" "and_then (json_get ''properties'' schema) as_object = Some ps"
      "(k, x) \<in> set m" "map_of ps k = Some sub" for ps k x sub
  proof -
    have "bt_wf m" using "5.prems"(1) by simp
    then have "map_of m k = Some x" using bt_wf_distinct o(3) by (metis map_of_is_SomeI)
    moreover have "json_wf x" using "5.prems"(1) o(3) by (auto simp: list_all_iff)
    ultimately show ?thesis
      using "5.IH" [of True "Some ps" ps "(k, x)" k x sub] o "5.prems"(2) [of "Key k # _"]
      by (auto simp: string_at_simps)
  qed
  then show ?case using type by (auto simp: list_all_iff split: option.splits bool.splits prod.splits)
next
  case (6 schema xs)
  have type: "schema_type schema \<noteq> Some ''string''" using "6.prems"(2) [of "[]"] by (auto simp: string_at_simps)
  have "string_conform sub x"
    if o: "schema_type schema = Some ''array''" "json_get ''items'' schema = Some sub" "x \<in> set xs" for sub x
  proof -
    obtain i where "get_at xs i = Some x" using o(3) by (metis get_at_Some_iff in_set_conv_nth)
    moreover have "json_wf x" using "6.prems"(1) o(3) by (auto simp: list_all_iff)
    ultimately show ?thesis
      using "6.IH" [of True "Some sub" sub x] o "6.prems"(2) [of "Index i # _"] by (auto simp: string_at_simps)
  qed
  then show ?case using type by (auto simp: list_all_iff split: option.splits bool.splits prod.splits)
qed (use string_at_simps(1) in fastforce)+

text \<open>
  C37. Coercion by positions. A position is a path of keys and indices; the schema declares it by
  \<open>properties\<close> of objects and \<open>items\<close> of arrays, the only keywords that are followed (not \<open>oneOf\<close> or
  \<open>prefixItems\<close>). At a position declared to be a string, null and strings stay and any other value
  becomes the string of its JSON text. At a position that is neither declared to be a string nor below
  one, the value has the same kind as before, with the same keys, the same length or the same scalar,
  and no position appears or disappears. So a well-formed value is left exactly as it was if and only
  if it had a string or null at every string position, and coercing twice changes nothing more.
\<close>

theorem coerce_value_correct:
  "(string_at path schema \<longrightarrow>
      walk_path path (coerce_value sj schema v) = map_option (stringified sj) (walk_path path v)) \<and>
   ((\<forall>q. prefix q path \<longrightarrow> \<not> string_at q schema) \<longrightarrow>
      rel_option same_head (walk_path path v) (walk_path path (coerce_value sj schema v))) \<and>
   (json_wf v \<longrightarrow> (coerce_value sj schema v = v \<longleftrightarrow>
      (\<forall>p w. string_at p schema \<longrightarrow> walk_path p v = Some w \<longrightarrow> w = JNull \<or> (\<exists>s. w = JString s)))) \<and>
   coerce_value sj schema (coerce_value sj schema v) = coerce_value sj schema v"
proof -
  have fixed: "stringified sj w = w \<longleftrightarrow> w = JNull \<or> (\<exists>s. w = JString s)" for w
    by (cases w) simp_all
  have "stringified sj w = w" if "coerce_value sj schema v = v" "string_at p schema" "walk_path p v = Some w" for p w
    using coerced_string [OF that(2), of sj v] that(1,3) by simp
  moreover have "coerce_value sj schema v = v"
    if "json_wf v" "\<forall>p w. string_at p schema \<longrightarrow> walk_path p v = Some w \<longrightarrow> stringified sj w = w"
    using fitting_conform [OF that(1)] that(2) by (blast intro: coerce_value_id)
  ultimately have "json_wf v \<longrightarrow> (coerce_value sj schema v = v \<longleftrightarrow>
      (\<forall>p w. string_at p schema \<longrightarrow> walk_path p v = Some w \<longrightarrow> stringified sj w = w))" by blast
  then have "json_wf v \<longrightarrow> (coerce_value sj schema v = v \<longleftrightarrow>
      (\<forall>p w. string_at p schema \<longrightarrow> walk_path p v = Some w \<longrightarrow> w = JNull \<or> (\<exists>s. w = JString s)))"
    unfolding fixed .
  with coerced_string coerced_elsewhere coerce_value_id [OF coerce_value_conform] show ?thesis by blast
qed

definition label_schema :: json where
  "label_schema = jobj [(''type'', JString ''object''),
     (''properties'', jobj [(''tags'', jobj [(''type'', JString ''array''), (''items'', jtype ''string'')])])]"

lemma coerce_value_correct_witness:
  "walk_path [Key ''tags'', Index 1] (coerce_value (\<lambda>_. ''true'') label_schema
     (JObject [(''id'', JBool False), (''tags'', JArray [JNull, JBool True])])) = Some (JString ''true'') \<and>
   walk_path [Key ''id''] (coerce_value (\<lambda>_. ''true'') label_schema
     (JObject [(''id'', JBool False), (''tags'', JArray [JNull, JBool True])])) = Some (JBool False)"
proof -
  let ?v = "JObject [(''id'', JBool False), (''tags'', JArray [JNull, JBool True])]" and ?sj = "\<lambda>_ :: json. ''true''"
  have s: "string_at [Key ''tags'', Index 1] label_schema" "\<not> string_at [] label_schema" "\<not> string_at [Key ''id''] label_schema"
    by (simp_all add: string_at_simps label_schema_def json_get_jobj schema_type_def jtype_def jobj_def bt_extend_def)
  have "walk_path [Key ''tags'', Index 1] (coerce_value ?sj label_schema ?v) = Some (JString ''true'')"
    using coerce_value_correct [of "[Key ''tags'', Index 1]" label_schema ?sj ?v] s(1) by (simp add: get_at_def)
  moreover have "\<forall>q. prefix q [Key ''id''] \<longrightarrow> \<not> string_at q label_schema"
    using s(2,3) by (auto simp: prefix_Cons)
  then have "rel_option same_head (walk_path [Key ''id''] ?v) (walk_path [Key ''id''] (coerce_value ?sj label_schema ?v))"
    using coerce_value_correct [of "[Key ''id'']" label_schema ?sj ?v] by blast
  then have "walk_path [Key ''id''] (coerce_value ?sj label_schema ?v) = Some (JBool False)"
    by (cases "walk_path [Key ''id''] (coerce_value ?sj label_schema ?v)") (auto split: json.splits)
  ultimately show ?thesis by blast
qed

subsection \<open>Insertion into a derived schema\<close>

text \<open>\<open>path_required node path\<close>: every key of the path is a required property at its level.\<close>

fun path_required :: "json \<Rightarrow> path_segment list \<Rightarrow> bool" where
  "path_required node [] = True"
| "path_required node (Index i # rest) = False"
| "path_required node (Key k # rest) =
     (JString k \<in> set (unwrap_or (and_then (json_get ''required'' node) as_array) []) \<and>
      (case map_of (schema_properties node) k of Some sub \<Rightarrow> path_required sub rest | None \<Rightarrow> False))"

fun schema_leaf :: "json \<Rightarrow> path_segment list \<Rightarrow> json option" where
  "schema_leaf node [] = Some node"
| "schema_leaf node (Index i # rest) = None"
| "schema_leaf node (Key k # rest) = and_then (map_of (schema_properties node) k) (\<lambda>sub. schema_leaf sub rest)"

definition required_of :: "json \<Rightarrow> json list" where
  "required_of node = unwrap_or (and_then (json_get ''required'' node) as_array) []"

text \<open>One level of a successful insertion.\<close>

lemma insert_recursive_step:
  assumes "insert_recursive node (seg # rest) leaf = Inr node'"
  obtains k where "seg = Key k" and "set (required_of node') = insert (JString k) (set (required_of node))"
    and "rest = [] \<Longrightarrow> map_of (schema_properties node') = (map_of (schema_properties node))(k \<mapsto> leaf)"
    and "rest = [] \<Longrightarrow> map_of (schema_properties node) k \<in> {None, Some leaf}"
    and "rest \<noteq> [] \<Longrightarrow> \<exists>nested. insert_recursive
            (unwrap_or (map_of (schema_properties node) k) (object_schema [] [])) rest leaf = Inr nested \<and>
          map_of (schema_properties node') = (map_of (schema_properties node))(k \<mapsto> nested)"
proof -
  from assms obtain obj k req props where
    o1: "node = JObject obj" "seg = Key k" "obj_required obj = Inr req" and
    p1: "obj_properties (bt_insert ''required''
       (JArray (if JString k \<in> set req then req else req @ [JString k])) obj) = Inr props"
    by (cases node; cases seg) (auto simp: attempt_Inr_iff Let_def)
  have props: "schema_properties node = props"
    using p1 by (auto simp: o1 schema_properties_def obj_properties_def bt_get_insert split: option.splits json.splits)
  have req: "required_of node = req"
    using o1(3) by (auto simp: o1(1) required_of_def obj_required_def split: option.splits json.splits)
  note s = o1 p1 Let_def
  show thesis
  proof (cases "rest = []")
    case True
    have m: "map_of props k \<in> {None, Some leaf}"
      using assms True by (auto simp: s split: option.splits if_splits)
    then have "map_of (schema_properties node') = (map_of props)(k \<mapsto> leaf)"
        "set (required_of node') = insert (JString k) (set req)"
      using assms True
      by (auto simp: s schema_properties_def required_of_def bt_get_insert fun_eq_iff split: if_splits)
    then show thesis using that [OF o1(2)] True m by (simp add: props req)
  next
    case False
    then obtain nested where n: "insert_recursive (unwrap_or (map_of props k) (object_schema [] [])) rest leaf = Inr nested"
      and node': "node' = JObject (bt_insert ''properties'' (JObject (bt_insert k nested props))
        (bt_insert ''required'' (JArray (if JString k \<in> set req then req else req @ [JString k])) obj))"
      using assms by (auto simp: s attempt_Inr_iff)
    have "map_of (schema_properties node') = (map_of props)(k \<mapsto> nested)"
        "set (required_of node') = insert (JString k) (set req)"
      by (auto simp: node' schema_properties_def required_of_def bt_get_insert fun_eq_iff split: if_splits)
    then show thesis using that [OF o1(2)] False n by (simp add: props req)
  qed
qed

lemma path_required_Key:
  "path_required node (Key k # rest) \<longleftrightarrow>
     JString k \<in> set (required_of node) \<and>
     (\<exists>sub. map_of (schema_properties node) k = Some sub \<and> path_required sub rest)"
  by (auto simp: required_of_def split: option.splits)

text \<open>The empty object schema has no properties, so a level created on the way starts empty.\<close>

lemma object_schema_parts [simp]:
  "schema_properties (object_schema ps req) = ps"
  "required_of (object_schema ps req) = map JString req"
  by (simp_all add: object_schema_def schema_properties_def required_of_def json_get_jobj jstrings_def)

lemma path_required_empty_object:
  "path_required (object_schema [] []) q \<longleftrightarrow> q = []"
  by (cases q; cases "hd q") (auto simp: object_schema_parts [unfolded required_of_def])

lemma insert_recursive_required:
  "insert_recursive node path leaf = Inr node' \<Longrightarrow> path_required node' path"
proof (induction path arbitrary: node node')
  case (Cons seg rest)
  from insert_recursive_step [OF Cons.prems] obtain k where k: "seg = Key k"
    "set (required_of node') = insert (JString k) (set (required_of node))"
    "rest = [] \<Longrightarrow> map_of (schema_properties node') = (map_of (schema_properties node))(k \<mapsto> leaf)"
    "rest \<noteq> [] \<Longrightarrow> \<exists>nested. insert_recursive
        (unwrap_or (map_of (schema_properties node) k) (object_schema [] [])) rest leaf = Inr nested \<and>
      map_of (schema_properties node') = (map_of (schema_properties node))(k \<mapsto> nested)"
    by metis
  show ?case
    using k Cons.IH by (cases "rest = []") (auto simp: path_required_Key simp del: path_required.simps(3))
qed simp

lemma insert_recursive_keeps:
  "insert_recursive node path leaf = Inr node' \<Longrightarrow> path_required node q \<Longrightarrow> path_required node' q"
proof (induction path arbitrary: node node' q)
  case (Cons seg rest)
  from insert_recursive_step [OF Cons.prems(1)] obtain k where k: "seg = Key k"
    "set (required_of node') = insert (JString k) (set (required_of node))"
    "rest = [] \<Longrightarrow> map_of (schema_properties node') = (map_of (schema_properties node))(k \<mapsto> leaf)"
    "rest = [] \<Longrightarrow> map_of (schema_properties node) k \<in> {None, Some leaf}"
    "rest \<noteq> [] \<Longrightarrow> \<exists>nested. insert_recursive
        (unwrap_or (map_of (schema_properties node) k) (object_schema [] [])) rest leaf = Inr nested \<and>
      map_of (schema_properties node') = (map_of (schema_properties node))(k \<mapsto> nested)"
    by metis
  show ?case
  proof (cases q)
    case (Cons q0 qs)
    then obtain kq where q0: "q0 = Key kq" using Cons.prems(2) Cons by (cases q0) auto
    obtain sub where sub: "map_of (schema_properties node) kq = Some sub" "path_required sub qs"
      "JString kq \<in> set (required_of node)"
      using Cons.prems(2) unfolding Cons q0 path_required_Key by blast
    have "\<exists>sub'. map_of (schema_properties node') kq = Some sub' \<and> path_required sub' qs"
    proof (cases "kq = k")
      case True
      show ?thesis
      proof (cases "rest = []")
        case True
        with k(3,4) sub \<open>kq = k\<close> show ?thesis by auto
      next
        case False
        with k(5) sub(1) \<open>kq = k\<close> obtain nested where
          n: "insert_recursive sub rest leaf = Inr nested"
             "map_of (schema_properties node') = (map_of (schema_properties node))(k \<mapsto> nested)"
          by auto
        from Cons.IH [OF n(1) sub(2)] n(2) True show ?thesis by auto
      qed
    next
      case False
      with k(3,5) sub show ?thesis by (cases "rest = []") auto
    qed
    with k(2) sub(3) show ?thesis unfolding Cons q0 path_required_Key by blast
  qed simp
qed simp

lemma insert_recursive_leaf:
  "insert_recursive node path leaf = Inr node' \<Longrightarrow> schema_leaf node' path = Some leaf"
proof (induction path arbitrary: node node')
  case (Cons seg rest)
  from insert_recursive_step [OF Cons.prems] obtain k where k: "seg = Key k"
    "rest = [] \<Longrightarrow> map_of (schema_properties node') = (map_of (schema_properties node))(k \<mapsto> leaf)"
    "rest \<noteq> [] \<Longrightarrow> \<exists>nested. insert_recursive
        (unwrap_or (map_of (schema_properties node) k) (object_schema [] [])) rest leaf = Inr nested \<and>
      map_of (schema_properties node') = (map_of (schema_properties node))(k \<mapsto> nested)"
    by metis
  then show ?case using Cons.IH by (cases "rest = []") auto
qed simp

text \<open>Inserting at the top level is inserting into the object schema it stands for.\<close>

definition acc_schema :: "json btmap \<times> string list \<Rightarrow> json" where
  "acc_schema acc = object_schema (fst acc) (snd acc)"

lemma set_push_required [simp]: "set (push_required k ks) = insert k (set ks)"
  by (auto simp: push_required_def)

text \<open>The accumulator's invariant: every property it holds is required.\<close>

definition acc_sync :: "json btmap \<times> string list \<Rightarrow> bool" where
  "acc_sync acc = (set (map fst (fst acc)) \<subseteq> set (snd acc))"

lemma map_of_mem_keys: "map_of m k = Some v \<Longrightarrow> k \<in> set (map fst m)"
  by (induction m) (auto split: if_splits)

lemma insert_at_path_cases:
  assumes "insert_at_path acc path leaf = Inr acc'"
  obtains (same) k where "path = [Key k]" "map_of (fst acc) k = Some leaf" "acc' = acc"
    | (put) k rest v where "path = Key k # rest"
        "acc' = (bt_insert k v (fst acc), push_required k (snd acc))"
        "if rest = [] then map_of (fst acc) k = None \<and> v = leaf
         else insert_recursive (unwrap_or (map_of (fst acc) k) (object_schema [] [])) rest leaf = Inr v"
proof -
  obtain props req where acc: "acc = (props, req)" by force
  from assms obtain k rest where p: "path = Key k # rest"
    by (cases path; cases "hd path") (auto simp: insert_at_path_def acc)
  show thesis
  proof (cases "rest = [] \<and> (\<exists>e. map_of props k = Some e)")
    case True
    with assms have "map_of props k = Some leaf" "acc' = acc"
      by (auto simp: insert_at_path_def acc p split: if_splits)
    with True same [of k] show thesis by (simp add: acc p)
  next
    case False
    show thesis
    proof (cases "rest = []")
      case True
      with assms False have "acc' = (bt_insert k leaf props, push_required k req)" "map_of props k = None"
        by (auto simp: insert_at_path_def acc p)
      with True put [of k rest leaf] show thesis by (simp add: acc p)
    next
      case False
      with assms obtain v where
        "insert_recursive (unwrap_or (map_of props k) (object_schema [] [])) rest leaf = Inr v"
        "acc' = (bt_insert k v props, push_required k req)"
        by (cases "insert_recursive (unwrap_or (map_of props k) (object_schema [] [])) rest leaf")
          (auto simp: insert_at_path_def acc p)
      with False put [of k rest v] show thesis by (simp add: acc p del: insert_recursive.simps)
    qed
  qed
qed

lemma insert_at_path_sync:
  "insert_at_path acc path leaf = Inr acc' \<Longrightarrow> acc_sync acc \<Longrightarrow> acc_sync acc'"
  by (erule insert_at_path_cases) (auto simp: acc_sync_def bt_insert_keys simp del: set_map)

lemma insert_at_path_required:
  "insert_at_path acc path leaf = Inr acc' \<Longrightarrow> acc_sync acc \<Longrightarrow> path_required (acc_schema acc') path"
proof (erule insert_at_path_cases, goal_cases)
  case (1 k)
  then have "k \<in> set (snd acc)"
    unfolding acc_sync_def by (meson map_of_mem_keys subsetD)
  with 1 show ?case by (simp add: acc_schema_def path_required_Key del: path_required.simps(3))
next
  case (2 k rest v)
  then have "path_required v rest" using insert_recursive_required by (cases rest) auto
  with 2 show ?case by (simp add: acc_schema_def path_required_Key del: path_required.simps(3))
qed

lemma insert_at_path_leaf:
  "insert_at_path acc path leaf = Inr acc' \<Longrightarrow> schema_leaf (acc_schema acc') path = Some leaf"
  by (erule insert_at_path_cases)
    (auto simp: acc_schema_def split: if_splits dest: insert_recursive_leaf)

lemma insert_at_path_keeps:
  assumes "insert_at_path acc path leaf = Inr acc'" and q: "path_required (acc_schema acc) q"
  shows "path_required (acc_schema acc') q"
  using assms(1)
proof (cases rule: insert_at_path_cases)
  case (put k rest v)
  have sub: "path_required v r" if "map_of (fst acc) k = Some s" "path_required s r" for s r
    using put(3) that insert_recursive_keeps by (auto split: if_splits)
  show ?thesis
  proof (cases q)
    case (Cons q0 qs)
    then obtain kq where q0: "q0 = Key kq" using q by (cases q0) auto
    show ?thesis
      using q sub unfolding Cons q0 put(2) acc_schema_def path_required_Key by auto
  qed simp
qed (use q in simp)

lemma insert_at_paths_required:
  assumes "fold_res (\<lambda>acc path. insert_at_path acc path leaf) acc paths = Inr acc'" and "acc_sync acc"
  shows "acc_sync acc'"
    and "p \<in> set paths \<Longrightarrow> path_required (acc_schema acc') p"
    and "path_required (acc_schema acc) q \<Longrightarrow> path_required (acc_schema acc') q"
proof -
  have "acc_sync acc' \<and> (\<forall>p \<in> set paths. path_required (acc_schema acc') p) \<and>
      (\<forall>q. path_required (acc_schema acc) q \<longrightarrow> path_required (acc_schema acc') q)"
    using assms
  proof (induction paths arbitrary: acc)
    case (Cons p paths)
    then obtain a where a: "insert_at_path acc p leaf = Inr a"
      "fold_res (\<lambda>acc path. insert_at_path acc path leaf) a paths = Inr acc'"
      by (auto simp: attempt_Inr_iff)
    show ?case
      using Cons.IH [OF a(2) insert_at_path_sync [OF a(1) Cons.prems(2)]]
        insert_at_path_required [OF a(1) Cons.prems(2)] insert_at_path_keeps [OF a(1)]
      by auto
  qed auto
  then show "acc_sync acc'"
    and "p \<in> set paths \<Longrightarrow> path_required (acc_schema acc') p"
    and "path_required (acc_schema acc) q \<Longrightarrow> path_required (acc_schema acc') q"
    by auto
qed

lemma derive_param_entry_required:
  assumes "derive_param_entry f config acc entry = Inr acc'" and "acc_sync acc"
  shows "acc_sync acc'"
    and "p \<in> set (collect_refs (snd entry)) \<Longrightarrow> body_subpath p = Some q \<Longrightarrow>
         path_required (acc_schema acc') q"
    and "path_required (acc_schema acc) r \<Longrightarrow> path_required (acc_schema acc') r"
proof -
  let ?under = "and_then (and_then (as_str (snd entry)) template_path) body_subpath"
  obtain param :: function_param where run: "(case ?under of
        Some under_body \<Rightarrow> insert_at_path acc under_body
          (param_surface_schema (mc_param_encoding config) (fp_name param) (fp_json_schema param))
      | None \<Rightarrow> fold_res (\<lambda>acc under_body. insert_at_path acc under_body (jtype ''string'')) acc
          (List.map_filter body_subpath (collect_refs (snd entry)))) = Inr acc'"
    using assms(1) unfolding derive_param_entry_def case_prod_beta attempt_Inr_iff by blast
  have "acc_sync acc' \<and>
      (p \<in> set (collect_refs (snd entry)) \<longrightarrow> body_subpath p = Some q \<longrightarrow> path_required (acc_schema acc') q) \<and>
      (path_required (acc_schema acc) r \<longrightarrow> path_required (acc_schema acc') r)"
  proof (cases ?under)
    case None
    with run have run: "fold_res (\<lambda>acc under_body. insert_at_path acc under_body (jtype ''string'')) acc
          (List.map_filter body_subpath (collect_refs (snd entry))) = Inr acc'" by simp
    have "q \<in> set (List.map_filter body_subpath (collect_refs (snd entry)))"
      if "p \<in> set (collect_refs (snd entry))" "body_subpath p = Some q"
      using that by (force simp: List.map_filter_def)
    with insert_at_paths_required [OF run assms(2)] show ?thesis by blast
  next
    case (Some under)
    then obtain s path where s: "snd entry = JString s" "template_path s = Some path" "body_subpath path = Some under"
      by (cases "snd entry") (auto simp: and_then_Some_iff)
    from Some run have run: "insert_at_path acc under
        (param_surface_schema (mc_param_encoding config) (fp_name param) (fp_json_schema param)) = Inr acc'"
      by simp
    show ?thesis
      using insert_at_path_sync [OF run assms(2)] insert_at_path_required [OF run assms(2)]
        insert_at_path_keeps [OF run] s by auto
  qed
  then show "acc_sync acc'"
    and "p \<in> set (collect_refs (snd entry)) \<Longrightarrow> body_subpath p = Some q \<Longrightarrow>
         path_required (acc_schema acc') q"
    and "path_required (acc_schema acc) r \<Longrightarrow> path_required (acc_schema acc') r"
    by auto
qed

lemma derive_param_entries_required:
  assumes "fold_res (derive_param_entry f config) acc entries = Inr acc'" and "acc_sync acc"
  shows "(\<forall>entry \<in> set entries. \<forall>p \<in> set (collect_refs (snd entry)). \<forall>q. body_subpath p = Some q \<longrightarrow>
           path_required (acc_schema acc') q) \<and>
         (\<forall>r. path_required (acc_schema acc) r \<longrightarrow> path_required (acc_schema acc') r)"
  using assms
proof (induction entries arbitrary: acc)
  case (Cons e entries)
  then obtain a where a: "derive_param_entry f config acc e = Inr a"
    "fold_res (derive_param_entry f config) a entries = Inr acc'"
    by (auto simp: attempt_Inr_iff)
  show ?case
    using Cons.IH [OF a(2) derive_param_entry_required(1) [OF a(1) Cons.prems(2)]]
      derive_param_entry_required(2,3) [OF a(1) Cons.prems(2)]
    by auto
qed simp

text \<open>
  C36. The derived input schema covers what the templates read: when the schema of an operation
  with a parameter mapping is derived, every path under \<open>body\<close> that any template of the mapping
  refers to, at any depth, is a chain of declared and required properties of that schema,
  whatever the other templates insert before or after it.
\<close>

theorem derive_input_schema_covers_references:
  assumes "derive_input_schema f config = Inr schema"
    and "mc_param_mapping config = Some mapping"
    and "(arg, template) \<in> set mapping"
    and "reference \<in> set (collect_refs template)"
    and "body_subpath reference = Some path"
  shows "path_required schema path"
proof -
  from assms(1,2) obtain acc where acc: "fold_res (derive_param_entry f config) ([], []) mapping = Inr acc"
    "schema = acc_schema acc"
    by (auto simp: derive_input_schema_def attempt_Inr_iff acc_schema_def)
  have "acc_sync ([], [])" by (simp add: acc_sync_def)
  from derive_param_entries_required [OF acc(1) this] assms(3-5) acc(2) show ?thesis by fastforce
qed

definition mapping_example :: mapping_config where
  "mapping_example =
     \<lparr> mc_param_mapping = Some [(''note'', JString ''Hi {body.user.name}'')], mc_param_encoding = None,
       mc_result_decoding = None, mc_result_mapping = None \<rparr>"

definition function_example :: function_spec where
  "function_example = function_new None ''f'' [] [\<lparr> fp_name = ''note'', fp_is_optional = False, fp_json_schema = jtype ''string'' \<rparr>] None True"

lemma derive_input_schema_covers_references_witness:
  "path_required (case derive_input_schema function_example mapping_example of Inr s \<Rightarrow> s | Inl _ \<Rightarrow> JNull)
     [Key ''user'', Key ''name'']"
proof -
  have "is_ok (derive_input_schema function_example mapping_example)" by code_simp
  then obtain s where s: "derive_input_schema function_example mapping_example = Inr s" by (auto simp: is_ok_iff)
  have "[Key ''body'', Key ''user'', Key ''name''] \<in> set (collect_refs (JString ''Hi {body.user.name}''))"
    by code_simp
  then have "path_required s [Key ''user'', Key ''name'']"
    using derive_input_schema_covers_references [OF s, of "[(''note'', JString ''Hi {body.user.name}'')]" "''note''"
        "JString ''Hi {body.user.name}''" "[Key ''body'', Key ''user'', Key ''name'']"]
    by (simp add: mapping_example_def del: path_required.simps collect_refs.simps)
  then show ?thesis by (simp only: s sum.case)
qed

subsection \<open>Alignment accepts the derived schema itself\<close>

lemma json_wf_unwrap:
  assumes "json_wf s" shows "json_wf (unwrap_singular_oneof s)"
proof -
  have mem: "json_wf w" if "json_get k v = Some arr" "as_array arr = Some xs" "w \<in> set xs" "json_wf v" for k v w arr xs
    using json_wf_member [OF that(4,1)] that(2,3) by (cases arr) (auto simp: list_all_iff)
  have arm: "json_wf v" if "result_arm st x = Some (Some v, e)" "fst st \<noteq> Some v" "json_wf x" for st x v e
  proof -
    from that(1,2) have "and_then (json_get ''properties'' x) as_object = Some [(''ok'', v)]"
      by (cases "and_then (json_get ''properties'' x) as_object")
        (auto simp: result_arm_def split: list.splits prod.splits if_splits)
    then obtain p where p: "json_get ''properties'' x = Some p" "as_object p = Some [(''ok'', v)]"
      by (auto simp: and_then_Some_iff)
    from json_wf_member [OF that(3) p(1)] p(2) show ?thesis by (cases p) auto
  qed
  show ?thesis
  proof (cases "\<exists>a b arr. json_get ''oneOf'' s = Some arr \<and> as_array arr = Some [a, b]")
    case True
    then obtain a b arr where ab: "json_get ''oneOf'' s = Some arr" "as_array arr = Some [a, b]" by blast
    have w: "json_wf a" "json_wf b" using mem [OF ab] assms by auto
    have two: "json_wf v"
      if "and_then (result_arm (None, False) a) (\<lambda>st. result_arm st b) = Some (Some v, True)" for v
    proof -
      from that obtain st where st: "result_arm (None, False) a = Some st" "result_arm st b = Some (Some v, True)"
        by (auto simp: and_then_Some_iff)
      show ?thesis
      proof (cases "fst st = Some v")
        case True
        then show ?thesis using arm [of "(None, False)" a v "snd st"] st(1) w by (cases st) auto
      qed (use arm [OF st(2)] w in auto)
    qed
    show ?thesis using ab w two assms
      by (auto simp: unwrap_singular_oneof_def split: option.splits prod.splits bool.splits dest!: find_first_Some)
  next
    case False
    then have "unwrap_singular_oneof s = s"
      by (cases "and_then (json_get ''oneOf'' s) as_array")
        (auto simp: unwrap_singular_oneof_def and_then_Some_iff split: list.splits)
    with assms show ?thesis by simp
  qed
qed

lemma fold_res_unit_all:
  "(\<And>x. x \<in> set xs \<Longrightarrow> f x = Inr ()) \<Longrightarrow> fold_res (\<lambda>_ x. f x) () xs = Inr ()"
  by (induction xs) auto

declare align.simps [simp del]

lemma align_refl: "json_wf s \<Longrightarrow> align s s path = Inr ()"
proof (induction s arbitrary: path rule: measure_induct_rule [of json_size])
  case (less s)
  let ?s = "unwrap_singular_oneof s"
  have wf: "json_wf ?s" using less by (simp add: json_wf_unwrap)
  have t: "type_check (schema_type ?s) (schema_type ?s) path = Inr ()"
    by (simp add: type_check_def split: option.splits)
  have p: "property_set_check (schema_properties ?s) (schema_properties ?s) path = Inr ()"
    by (simp add: property_set_check_def)
  have sub: "map_of (schema_properties ?s) (fst x) = Some (snd x) \<and> json_wf (snd x)" if x: "x \<in> set (schema_properties ?s)" for x
  proof -
    from x obtain o1 where o1: "json_get ''properties'' ?s = Some o1" "as_object o1 = Some (schema_properties ?s)"
      by (cases "and_then (json_get ''properties'' ?s) as_object") (auto simp: schema_properties_def and_then_Some_iff)
    from json_wf_member [OF wf o1(1)] o1(2) have "json_wf (JObject (schema_properties ?s))" by (cases o1) auto
    then show ?thesis using x bt_wf_distinct by (cases x) (fastforce simp: list_all_iff)
  qed
  have props: "fold_res (\<lambda>_ x. case map_of (schema_properties ?s) (fst x) of
           None \<Rightarrow> Inl (AlignUnwrap (fst x))
         | Some d \<Rightarrow> align d (snd x) (if path = [] then fst x else path @ ''/'' @ fst x)) ()
         (schema_properties ?s) = Inr ()"
  proof (rule fold_res_unit_all)
    fix x assume "x \<in> set (schema_properties ?s)"
    from sub [OF this] have x: "map_of (schema_properties ?s) (fst x) = Some (snd x)" "json_wf (snd x)" by auto
    show "(case map_of (schema_properties ?s) (fst x) of
           None \<Rightarrow> Inl (AlignUnwrap (fst x))
         | Some d \<Rightarrow> align d (snd x) (if path = [] then fst x else path @ ''/'' @ fst x)) = Inr ()"
      using less.IH [OF unwrapped_property_size [OF x(1)] x(2)] x(1) by simp
  qed
  have items: "align w w path' = Inr ()" if "json_get k ?s = Some w" for k w path'
    using less.IH [OF unwrapped_items_size [OF that]] json_wf_member [OF wf that] by blast
  have prefix: "fold_res (\<lambda>_ idv. align (fst (snd idv)) (snd (snd idv)) (g idv)) () (enumerate 0 (zip xs xs)) = Inr ()"
    if xs: "and_then (json_get k ?s) as_array = Some xs" for k xs g
  proof (rule fold_res_unit_all)
    fix idv assume "idv \<in> set (enumerate 0 (zip xs xs))"
    then obtain i where i: "i < length xs" "snd idv = (xs ! i, xs ! i)" by (auto simp: in_set_enumerate_eq)
    from xs obtain w where w: "json_get k ?s = Some w" "as_array w = Some xs" by (auto simp: and_then_Some_iff)
    have "json_wf (xs ! i)" using json_wf_member [OF wf w(1)] w(2) i(1) by (cases w) (auto simp: list_all_iff)
    moreover have "json_size (xs ! i) < json_size s"
      using unwrapped_prefix_size [OF xs] i(1) by simp
    ultimately show "align (fst (snd idv)) (snd (snd idv)) (g idv) = Inr ()" using less.IH i(2) by simp
  qed
  show ?case
    by (subst align.simps) (auto simp: Let_def t p props items prefix split: option.splits)
qed

text \<open>
  Alignment accepts a well-formed schema against itself: a surface that declares exactly the
  schema derived from the operation always passes the check, whatever mixture of objects, tuples,
  lists, options and results it is made of, at every depth.
\<close>

theorem alignment_reflexive:
  assumes "json_wf schema"
  shows "validate_structural_alignment schema schema = Inr ()"
  using align_refl [OF assms] by (simp add: validate_structural_alignment_def)

lemma alignment_reflexive_witness:
  "validate_structural_alignment (object_schema [(''a'', jtype ''string'')] [''a''])
     (object_schema [(''a'', jtype ''string'')] [''a'']) = Inr ()"
proof -
  have "json_wf (object_schema [(''a'', jtype ''string'')] [''a''])" by code_simp
  then show ?thesis by (rule alignment_reflexive)
qed

end
