(* ===== verification/Mapping_Layer.thy ===== *)
theory Mapping_Layer
  imports Schema
begin

section \<open>Message mapping (\<open>src/mapping.rs\<close>)\<close>

text \<open>
  Templates and their substitution, content-type specs at run time (result decoding and parameter
  encoding), and the mapper that turns a message into a call of a component function and the
  result of the call into a reply message. \<open>sj\<close> prints a JSON value (\<open>to_string\<close>, \<open>to_vec\<close>),
  \<open>pj\<close> parses JSON text (\<open>from_slice\<close>, \<open>from_str\<close>).
\<close>

datatype mapping_error =
    NotOneFunction string nat
  | FunctionNotFound string string
  | NoReturnForDecoding string
  | SchemaError schema_error
  | DecodingPathInvalid string schema_error
  | UnsupportedContentType string string
  | EncodingNoSuchParam string
  | EncodingNotByteArray string
  | EncodingEmptyPath string
  | EncodingFirstIndex string nat
  | EncodingPathInvalid string schema_error
  | ContentTypeUnresolved string
  | ContentTypeNull string
  | ContentTypeNotString string json
  | ResultNotObject
  | FieldMissing string
  | FieldNotBytes string
  | MalformedJson string
  | MalformedText string
  | CannotEncodeNull string
  | CannotEncodeText string json
  | EmptyTemplateReference
  | EmptyTemplatePath string
  | TemplatePathError path_error
  | EmptyDefault
  | InvalidDefault string
  | UnknownPath string
  | MissingArg string
  | NonObjectBody nat
  | BodyNotJson
  | BodyNotUtf8
  | UnsupportedBody string
  | HeadersNotObject json
  | MapperPanic

subsection \<open>Templates\<close>

record template_spec =
  ts_path :: "path_segment list"
  ts_raw_path :: string
  ts_default :: "json option"

definition parse_default :: "(string \<Rightarrow> json option) \<Rightarrow> string \<Rightarrow> mapping_error + json" where
  "parse_default pj s0 =
     (let s = str_trim s0 in
      if s = [] then Inl EmptyDefault else ok_or (InvalidDefault s) (pj s))"

definition parse_spec :: "(string \<Rightarrow> json option) \<Rightarrow> string \<Rightarrow> mapping_error + template_spec" where
  "parse_spec pj inner =
     (let trimmed = str_trim inner in
      if trimmed = [] then Inl EmptyTemplateReference
      else
        attempt
          (case split_once trimmed ''|'' of
             Some (h, d) \<Rightarrow> map_ok (\<lambda>v. (str_trim h, Some v)) (parse_default pj (str_trim d))
           | None \<Rightarrow> Inr (trimmed, None))
          (\<lambda>(head, dflt).
             if head = [] then Inl (EmptyTemplatePath inner)
             else
               map_ok (\<lambda>path. \<lparr> ts_path = path, ts_raw_path = head, ts_default = dflt \<rparr>)
                 (map_err TemplatePathError (parse_path head))))"

definition parse_path_only_template :: "(string \<Rightarrow> json option) \<Rightarrow> string \<Rightarrow> template_spec option" where
  "parse_path_only_template pj s =
     (if length s < 3 \<or> hd s \<noteq> CHR ''{'' \<or> last s \<noteq> CHR ''}'' then None
      else
        (let inner = butlast (tl s) in
         if has_char inner CHR ''{'' \<or> has_char inner CHR ''}'' then None
         else case parse_spec pj inner of Inr spec \<Rightarrow> Some spec | Inl _ \<Rightarrow> None))"

definition resolve :: "template_spec \<Rightarrow> json \<Rightarrow> mapping_error + json" where
  "resolve spec source =
     (case walk_path (ts_path spec) source of
        Some v \<Rightarrow> Inr v
      | None \<Rightarrow> ok_or (UnknownPath (ts_raw_path spec)) (ts_default spec))"

fun render_scalar :: "(json \<Rightarrow> string) \<Rightarrow> json \<Rightarrow> string" where
  "render_scalar sj (JString s) = s"
| "render_scalar sj JNull = []"
| "render_scalar sj v = sj v"

function substitute_string ::
  "(json \<Rightarrow> string) \<Rightarrow> (string \<Rightarrow> json option) \<Rightarrow> string \<Rightarrow> json \<Rightarrow> mapping_error + string" where
  "substitute_string sj pj [] source = Inr []"
| "substitute_string sj pj (c # rest) source =
     (case (if c = CHR ''{'' then str_find rest ''}'' else None) of
        Some e \<Rightarrow>
          attempt (parse_spec pj (take e rest)) (\<lambda>spec.
          attempt (resolve spec source) (\<lambda>v.
            map_ok ((@) (render_scalar sj v)) (substitute_string sj pj (drop (Suc e) rest) source)))
      | None \<Rightarrow> map_ok ((@) (push_byte_as_char c)) (substitute_string sj pj rest source))"
  by pat_completeness auto
termination by (relation "measure (\<lambda>(sj, pj, t, source). length t)") auto

fun substitute_value ::
  "(json \<Rightarrow> string) \<Rightarrow> (string \<Rightarrow> json option) \<Rightarrow> json \<Rightarrow> json \<Rightarrow> mapping_error + json" where
  "substitute_value sj pj (JString s) source =
     (case parse_path_only_template pj s of
        Some spec \<Rightarrow> resolve spec source
      | None \<Rightarrow> map_ok JString (substitute_string sj pj s source))"
| "substitute_value sj pj (JArray items) source =
     map_ok JArray (collect_res (map (\<lambda>v. substitute_value sj pj v source) items))"
| "substitute_value sj pj (JObject m) source =
     map_ok (\<lambda>kvs. JObject (bt_extend [] kvs))
       (collect_res (map (\<lambda>kv. map_ok (Pair (fst kv)) (substitute_value sj pj (snd kv) source)) m))"
| "substitute_value sj pj JNull source = Inr JNull"
| "substitute_value sj pj (JBool b) source = Inr (JBool b)"
| "substitute_value sj pj (JNumber n) source = Inr (JNumber n)"

subsection \<open>Byte arrays\<close>

definition is_byte_array_param_schema :: "json \<Rightarrow> bool" where
  "is_byte_array_param_schema schema =
     (case as_object schema of
        None \<Rightarrow> False
      | Some obj \<Rightarrow>
          and_then (map_of obj ''type'') as_str = Some ''array'' \<and>
          (case map_of obj ''items'' of None \<Rightarrow> False | Some items \<Rightarrow> is_byte_schema items))"

definition byte_of_item :: "json \<Rightarrow> char option" where
  "byte_of_item item =
     and_then (as_u64 item) (\<lambda>n. if n > 255 then None else Some (char_of (unat n)))"

definition value_to_bytes :: "json \<Rightarrow> string option" where
  "value_to_bytes v =
     and_then (as_array v) (\<lambda>arr.
       case collect_res (map (\<lambda>item. ok_or () (byte_of_item item)) arr) of
         Inr bs \<Rightarrow> Some bs | Inl _ \<Rightarrow> None)"

definition bytes_to_value :: "string \<Rightarrow> json" where
  "bytes_to_value bs = JArray (map (\<lambda>b. JNumber (num_of_u64 (of_char b))) bs)"

subsection \<open>Content types at run time\<close>

fun content_type_value :: "string \<Rightarrow> json \<Rightarrow> mapping_error + string" where
  "content_type_value name (JString s) = Inr s"
| "content_type_value name JNull = Inl (ContentTypeNull name)"
| "content_type_value name v = Inl (ContentTypeNotString name v)"

text \<open>Phase 1: the content type of every entry, in the original view.\<close>

definition resolve_types ::
  "(string \<Rightarrow> path_segment list \<Rightarrow> mapping_error + string) \<Rightarrow> content_type_spec hmap \<Rightarrow>
   mapping_error + string hmap" where
  "resolve_types at_path specs =
     fold_res (\<lambda>out (name, spec).
       attempt (case spec of Literal s \<Rightarrow> Inr s | Path segments \<Rightarrow> at_path name segments) (\<lambda>ct.
         if \<not> is_supported_content_type ct then Inl (UnsupportedContentType name ct)
         else Inr (hm_insert name ct out))) [] specs"

definition result_path_type :: "json \<Rightarrow> string \<Rightarrow> path_segment list \<Rightarrow> mapping_error + string" where
  "result_path_type wit_result name segments =
     attempt (ok_or (ContentTypeUnresolved name) (walk_path segments wit_result)) (content_type_value name)"

definition decode_bytes :: "(string \<Rightarrow> json option) \<Rightarrow> string \<Rightarrow> string \<Rightarrow> string \<Rightarrow> mapping_error + json" where
  "decode_bytes pj field ct bytes =
     (if ct = ''application/json'' then ok_or (MalformedJson field) (pj bytes)
      else if ct = ''text/plain'' then
        (if utf8_valid bytes then Inr (JString bytes) else Inl (MalformedText field))
      else Inl MapperPanic)"

definition decode_field ::
  "(string \<Rightarrow> json option) \<Rightarrow> json btmap \<Rightarrow> string \<times> string \<Rightarrow> mapping_error + json btmap" where
  "decode_field pj out_obj entry =
     (case entry of (field, ct) \<Rightarrow>
        attempt (ok_or (FieldMissing field) (map_of out_obj field)) (\<lambda>v.
        attempt (ok_or (FieldNotBytes field) (value_to_bytes v)) (\<lambda>bytes.
        attempt (decode_bytes pj field ct bytes) (\<lambda>decoded.
          Inr (bt_insert field decoded out_obj)))))"

definition apply_result_decoding ::
  "(string \<Rightarrow> json option) \<Rightarrow> json \<Rightarrow> content_type_spec hmap \<Rightarrow> mapping_error + json" where
  "apply_result_decoding pj wit_result decoding =
     attempt (resolve_types (result_path_type wit_result) decoding) (\<lambda>resolved.
     attempt (ok_or ResultNotObject (as_object wit_result)) (\<lambda>out_obj.
       map_ok JObject (fold_res (decode_field pj) out_obj resolved)))"

definition resolve_param_path ::
  "json list \<Rightarrow> string list \<Rightarrow> string \<Rightarrow> path_segment list \<Rightarrow> mapping_error + string" where
  "resolve_param_path args param_names name segments =
     (case segments of
        [] \<Rightarrow> Inl (EncodingEmptyPath name)
      | Index i # _ \<Rightarrow> Inl (EncodingFirstIndex name i)
      | Key param_name # rest \<Rightarrow>
          attempt (ok_or (EncodingNoSuchParam param_name) (position (\<lambda>n. n = param_name) param_names)) (\<lambda>idx.
          attempt (ok_or MapperPanic (get_at args idx)) (\<lambda>current.
          attempt (ok_or (ContentTypeUnresolved name) (walk_path rest current)) (content_type_value name))))"

definition encode_arg :: "(json \<Rightarrow> string) \<Rightarrow> string \<Rightarrow> string \<Rightarrow> json \<Rightarrow> mapping_error + string" where
  "encode_arg sj name ct arg =
     (if ct = ''application/json'' then Inr (sj arg)
      else if ct = ''text/plain'' then
        (case arg of
           JString s \<Rightarrow> Inr s
         | JNull \<Rightarrow> Inl (CannotEncodeNull name)
         | other \<Rightarrow> Inl (CannotEncodeText name other))
      else Inl MapperPanic)"

definition encode_param ::
  "(json \<Rightarrow> string) \<Rightarrow> string list \<Rightarrow> json list \<Rightarrow> string \<times> string \<Rightarrow> mapping_error + json list" where
  "encode_param sj param_names args entry =
     (case entry of (name, ct) \<Rightarrow>
        attempt (ok_or (EncodingNoSuchParam name) (position (\<lambda>n. n = name) param_names)) (\<lambda>idx.
        attempt (ok_or MapperPanic (get_at args idx)) (\<lambda>arg.
        attempt (encode_arg sj name ct arg) (\<lambda>encoded.
          Inr (args[idx := bytes_to_value encoded])))))"

definition apply_param_encoding ::
  "(json \<Rightarrow> string) \<Rightarrow> json list \<Rightarrow> string list \<Rightarrow> content_type_spec hmap \<Rightarrow> mapping_error + json list" where
  "apply_param_encoding sj args param_names encoding =
     attempt (resolve_types (resolve_param_path args param_names) encoding) (\<lambda>resolved.
       fold_res (encode_param sj param_names) args resolved)"

subsection \<open>The mapper\<close>

record message_mapper =
  mm_function_key :: string
  mm_params :: "function_param list"
  mm_param_mapping :: "(json hmap) option"
  mm_param_encoding :: "(content_type_spec hmap) option"
  mm_result_decoding :: "(content_type_spec hmap) option"
  mm_result_mapping :: "json option"

record invocation =
  inv_function_key :: string
  inv_args :: "json list"

definition validate_param_encoding_path ::
  "string \<Rightarrow> function_spec \<Rightarrow> path_segment list \<Rightarrow> mapping_error + unit" where
  "validate_param_encoding_path entry f segments =
     (case segments of
        [] \<Rightarrow> Inl (EncodingEmptyPath entry)
      | Index i # _ \<Rightarrow> Inl (EncodingFirstIndex entry i)
      | Key param_name # rest \<Rightarrow>
          attempt (ok_or (EncodingNoSuchParam param_name)
                     (find_first (\<lambda>p. fp_name p = param_name) (fn_params f))) (\<lambda>param.
            map_err (EncodingPathInvalid entry) (validate_path_exists (fp_json_schema param) rest)))"

definition check_decoding :: "json \<Rightarrow> string \<times> content_type_spec \<Rightarrow> mapping_error + unit" where
  "check_decoding result_schema entry =
     (case entry of (field, spec) \<Rightarrow>
        attempt (map_err SchemaError (validate_byte_array_field result_schema field)) (\<lambda>_.
          case spec of
            Path segments \<Rightarrow>
              map_err (DecodingPathInvalid field) (validate_path_exists result_schema segments)
          | Literal ct \<Rightarrow>
              guard_res (\<not> is_supported_content_type ct) (UnsupportedContentType field ct)))"

definition check_encoding :: "function_spec \<Rightarrow> string \<times> content_type_spec \<Rightarrow> mapping_error + unit" where
  "check_encoding f entry =
     (case entry of (param_name, spec) \<Rightarrow>
        attempt (ok_or (EncodingNoSuchParam param_name)
                   (find_first (\<lambda>p. fp_name p = param_name) (fn_params f))) (\<lambda>param.
        attempt (guard_res (\<not> is_byte_array_param_schema (fp_json_schema param))
                   (EncodingNotByteArray param_name)) (\<lambda>_.
          case spec of
            Path segments \<Rightarrow> validate_param_encoding_path param_name f segments
          | Literal ct \<Rightarrow>
              guard_res (\<not> is_supported_content_type ct) (UnsupportedContentType param_name ct))))"

definition from_component ::
  "component \<Rightarrow> string option \<Rightarrow> mapping_config \<Rightarrow> mapping_error + message_mapper" where
  "from_component cm key config =
     attempt
       (case key of
          Some k \<Rightarrow> Inr k
        | None \<Rightarrow>
            (case c_functions cm of
               [(k, f)] \<Rightarrow> Inr k
             | fs \<Rightarrow> Inl (NotOneFunction (md_name (c_metadata cm)) (length fs)))) (\<lambda>key.
     attempt (ok_or (FunctionNotFound key (md_name (c_metadata cm))) (hm_get key (c_functions cm))) (\<lambda>f.
     attempt
       (case mc_result_decoding config of
          None \<Rightarrow> Inr ()
        | Some decoding \<Rightarrow>
            attempt (ok_or (NoReturnForDecoding (fn_name f)) (fn_result f)) (\<lambda>result_schema.
              fold_res (\<lambda>_. check_decoding result_schema) () decoding)) (\<lambda>_.
     attempt
       (case mc_param_encoding config of
          None \<Rightarrow> Inr ()
        | Some encoding \<Rightarrow> fold_res (\<lambda>_. check_encoding f) () encoding) (\<lambda>_.
     Inr \<lparr> mm_function_key = key, mm_params = fn_params f,
           mm_param_mapping = mc_param_mapping config, mm_param_encoding = mc_param_encoding config,
           mm_result_decoding = mc_result_decoding config, mm_result_mapping = mc_result_mapping config \<rparr>))))"

definition parse_body :: "(string \<Rightarrow> json option) \<Rightarrow> message \<Rightarrow> mapping_error + json" where
  "parse_body pj msg =
     (let content_type = unwrap_or (headers_content_type (msg_headers msg)) ''application/json'' in
      if content_type = ''application/json'' then
        (if msg_body msg = [] then Inr JNull else ok_or BodyNotJson (pj (msg_body msg)))
      else if content_type = ''text/plain'' then
        (if utf8_valid (msg_body msg) then Inr (JString (msg_body msg)) else Inl BodyNotUtf8)
      else Inl (UnsupportedBody content_type))"

definition headers_as_value :: "message \<Rightarrow> json" where
  "headers_as_value msg =
     JObject (fold (\<lambda>(k, v). bt_insert k (JString (header_display v))) (mh_map (msg_headers msg)) [])"

definition name_match :: "function_param \<Rightarrow> json \<Rightarrow> mapping_error + json" where
  "name_match param body =
     (case json_get (fp_name param) body of
        Some v \<Rightarrow> Inr v
      | None \<Rightarrow> if fp_is_optional param then Inr JNull else Inl (MissingArg (fp_name param)))"

definition normalize_body :: "message_mapper \<Rightarrow> json \<Rightarrow> mapping_error + json" where
  "normalize_body mm body =
     (if mm_param_mapping mm \<noteq> None then Inr body
      else if length (mm_params mm) = 1 then
        (let first = hd (mm_params mm) in
         Inr (case body of
                JObject obj \<Rightarrow>
                  if map_of obj (fp_name first) \<noteq> None then body else JObject [(fp_name first, body)]
              | _ \<Rightarrow> JObject [(fp_name first, body)]))
      else
        (case body of JObject _ \<Rightarrow> Inr body | _ \<Rightarrow> Inl (NonObjectBody (length (mm_params mm)))))"

text \<open>The template source, one argument, and the stringification of string parameters.\<close>

definition template_source :: "json \<Rightarrow> message \<Rightarrow> json" where
  "template_source parsed_body msg =
     JObject (bt_extend [] [(''body'', parsed_body), (''headers'', headers_as_value msg)])"

definition arg_value ::
  "(json \<Rightarrow> string) \<Rightarrow> (string \<Rightarrow> json option) \<Rightarrow> message_mapper \<Rightarrow> json \<Rightarrow> json \<Rightarrow> function_param \<Rightarrow>
   mapping_error + json" where
  "arg_value sj pj mm source name_match_body param =
     (case and_then (mm_param_mapping mm) (hm_get (fp_name param)) of
        Some template \<Rightarrow> substitute_value sj pj template source
      | None \<Rightarrow> name_match param name_match_body)"

definition stringify_arg :: "(json \<Rightarrow> string) \<Rightarrow> function_param \<Rightarrow> json \<Rightarrow> json" where
  "stringify_arg sj param arg =
     (if schema_type (fp_json_schema param) = Some ''string'' then
        (case arg of JString _ \<Rightarrow> arg | JNull \<Rightarrow> arg | _ \<Rightarrow> JString (sj arg))
      else arg)"

definition to_invocation ::
  "(json \<Rightarrow> string) \<Rightarrow> (string \<Rightarrow> json option) \<Rightarrow> message_mapper \<Rightarrow> message \<Rightarrow> mapping_error + invocation" where
  "to_invocation sj pj mm msg =
     (if mm_params mm = [] then Inr \<lparr> inv_function_key = mm_function_key mm, inv_args = [] \<rparr>
      else
        attempt (parse_body pj msg) (\<lambda>parsed_body.
        attempt (normalize_body mm parsed_body) (\<lambda>name_match_body.
        attempt (collect_res (map (arg_value sj pj mm (template_source parsed_body msg) name_match_body)
                   (mm_params mm))) (\<lambda>args.
        attempt
          (case mm_param_encoding mm of
             None \<Rightarrow> Inr args
           | Some encoding \<Rightarrow> apply_param_encoding sj args (map fp_name (mm_params mm)) encoding) (\<lambda>args.
        Inr \<lparr> inv_function_key = mm_function_key mm,
              inv_args = map2 (stringify_arg sj) (mm_params mm) args \<rparr>)))))"

definition serialize_body :: "(json \<Rightarrow> string) \<Rightarrow> json \<Rightarrow> string \<Rightarrow> string" where
  "serialize_body sj v content_type =
     (if content_type = ''text/plain'' then (case v of JString s \<Rightarrow> s | other \<Rightarrow> sj other) else sj v)"

definition mapped_body ::
  "(json \<Rightarrow> string) \<Rightarrow> (string \<Rightarrow> json option) \<Rightarrow> json \<Rightarrow> json \<Rightarrow> string \<Rightarrow> mapping_error + string" where
  "mapped_body sj pj mapping source content_type =
     (case json_get ''body'' mapping of
        None \<Rightarrow> Inr []
      | Some JNull \<Rightarrow> Inr []
      | Some (JString []) \<Rightarrow> Inr []
      | Some template \<Rightarrow>
          map_ok (\<lambda>body_value. serialize_body sj body_value content_type)
            (substitute_value sj pj template source))"

definition mapped_headers ::
  "(json \<Rightarrow> string) \<Rightarrow> (string \<Rightarrow> json option) \<Rightarrow> json \<Rightarrow> json \<Rightarrow> mapping_error + json btmap" where
  "mapped_headers sj pj mapping source =
     (case json_get ''headers'' mapping of
        None \<Rightarrow> Inr []
      | Some JNull \<Rightarrow> Inr []
      | Some template \<Rightarrow>
          attempt (substitute_value sj pj template source) (\<lambda>headers_value.
            ok_or (HeadersNotObject headers_value) (as_object headers_value)))"

definition header_text :: "(json \<Rightarrow> string) \<Rightarrow> json \<Rightarrow> string" where
  "header_text sj v = (case v of JString s \<Rightarrow> s | other \<Rightarrow> sj other)"

definition from_invocation_result ::
  "(json \<Rightarrow> string) \<Rightarrow> (string \<Rightarrow> json option) \<Rightarrow> string \<Rightarrow> 64 word \<Rightarrow> propagation_context option \<Rightarrow>
   message_mapper \<Rightarrow> json \<Rightarrow> string hmap \<Rightarrow> mapping_error + message" where
  "from_invocation_result sj pj uuid now ctx mm wit_result propagated =
     (let content_type = unwrap_or (hm_get CONTENT_TYPE propagated) ''application/json'' in
      attempt
        (case mm_result_decoding mm of
           None \<Rightarrow> Inr wit_result
         | Some decoding \<Rightarrow> apply_result_decoding pj wit_result decoding) (\<lambda>source.
      attempt
        (case mm_result_mapping mm of
           None \<Rightarrow> Inr (serialize_body sj source content_type, [])
         | Some mapping \<Rightarrow>
             attempt (mapped_body sj pj mapping source content_type) (\<lambda>body_bytes.
               map_ok (Pair body_bytes) (mapped_headers sj pj mapping source))) (\<lambda>(body_bytes, hs).
      let b = builder_new body_bytes;
          b = fold (\<lambda>(k, v). builder_header k (HString (header_text sj v))) hs b;
          b = fold (\<lambda>(k, v). builder_header k (HString v)) propagated b
      in Inr (message_build uuid now ctx b))))"

subsection \<open>Byte arrays round trip\<close>

lemma of_char_word: "unat (of_char c :: 64 word) = of_char c"
proof -
  have "(of_char c :: nat) < 2 ^ 64"
    by (rule less_trans [OF nat_of_char_less_256]) simp
  then have "unat (of_nat (of_char c :: nat) :: 64 word) = of_char c" by (simp add: unat_of_nat)
  then show ?thesis by (simp only: of_nat_of_char)
qed

lemma byte_of_item_num [simp]: "byte_of_item (JNumber (num_of_u64 (of_char c))) = Some c"
proof -
  have "(of_char c :: nat) \<le> 255" using nat_of_char_less_256 [of c] by linarith
  then have "\<not> (of_char c :: 64 word) > 255"
    by (simp only: word_less_nat_alt of_char_word not_less) simp
  then show ?thesis by (simp add: byte_of_item_def of_char_word)
qed

lemma value_to_bytes_round_trip [simp]: "value_to_bytes (bytes_to_value bs) = Some bs"
  by (simp add: value_to_bytes_def bytes_to_value_def comp_def)

subsection \<open>Parameter encoding\<close>

lemma resolve_types_spec:
  assumes "resolve_types at_path specs = Inr resolved" and "distinct (map fst specs)"
  shows "map fst resolved = map fst specs"
    and "(name, spec) \<in> set specs \<Longrightarrow> \<exists>ct. map_of resolved name = Some ct \<and> is_supported_content_type ct \<and>
         (case spec of Literal s \<Rightarrow> Inr s | Path segments \<Rightarrow> at_path name segments) = Inr ct"
proof -
  let ?step = "\<lambda>out (name, spec).
       attempt (case spec of Literal s \<Rightarrow> Inr s | Path segments \<Rightarrow> at_path name segments) (\<lambda>ct.
         if \<not> is_supported_content_type ct then Inl (UnsupportedContentType name ct)
         else Inr (hm_insert name ct out))"
  have "map fst resolved = map fst out @ map fst specs \<and>
      (\<forall>(name, spec) \<in> set specs. \<exists>ct. map_of resolved name = Some ct \<and> is_supported_content_type ct \<and>
         (case spec of Literal s \<Rightarrow> Inr s | Path segments \<Rightarrow> at_path name segments) = Inr ct) \<and>
      (\<forall>k. k \<notin> set (map fst specs) \<longrightarrow> map_of resolved k = map_of out k)"
    if "fold_res ?step out specs = Inr resolved" "distinct (map fst out @ map fst specs)" for out
    using that
  proof (induction specs arbitrary: out)
    case (Cons e specs)
    obtain name spec where e: "e = (name, spec)" by force
    obtain ct where ct: "(case spec of Literal s \<Rightarrow> Inr s | Path segments \<Rightarrow> at_path name segments) = Inr ct"
      "is_supported_content_type ct" "fold_res ?step (hm_insert name ct out) specs = Inr resolved"
      using Cons.prems(1) by (auto simp: e attempt_Inr_iff split: if_splits)
    have fresh: "name \<notin> fst ` set out" using Cons.prems(2) by (auto simp: e)
    have keys: "map fst (hm_insert name ct out) = map fst out @ [name]"
      using fresh by (simp add: hm_insert_def update_keys)
    have "distinct (map fst (hm_insert name ct out) @ map fst specs)"
      using Cons.prems(2) by (auto simp: keys e)
    from Cons.IH [OF ct(3) this] have ih: "map fst resolved = map fst out @ [name] @ map fst specs"
      "\<forall>(name, spec) \<in> set specs. \<exists>ct. map_of resolved name = Some ct \<and> is_supported_content_type ct \<and>
         (case spec of Literal s \<Rightarrow> Inr s | Path segments \<Rightarrow> at_path name segments) = Inr ct"
      "\<forall>k. k \<notin> set (map fst specs) \<longrightarrow> map_of resolved k = ((map_of out)(name \<mapsto> ct)) k"
      by (simp_all add: keys)
    have "map_of resolved name = Some ct" using ih(3) Cons.prems(2) by (simp add: e)
    then show ?case using ih ct(1,2) by (auto simp: e)
  qed simp
  note run = this [of "[]", OF assms(1) [unfolded resolve_types_def]]
  have "distinct (map fst ([] :: string hmap) @ map fst specs)" using assms(2) by simp
  note all = run [OF this]
  show "map fst resolved = map fst specs" using all by simp
  show "\<exists>ct. map_of resolved name = Some ct \<and> is_supported_content_type ct \<and>
         (case spec of Literal s \<Rightarrow> Inr s | Path segments \<Rightarrow> at_path name segments) = Inr ct"
    if "(name, spec) \<in> set specs"
    using all that by blast
qed

lemma position_distinct:
  assumes "distinct xs"
  shows "position (\<lambda>n. n = x) xs = Some i \<longleftrightarrow> i < length xs \<and> xs ! i = x"
proof
  assume i: "i < length xs \<and> xs ! i = x"
  then obtain j where "position (\<lambda>n. n = x) xs = Some j"
    using position_mem [of x xs "\<lambda>n. n = x"] by auto
  with position_Some [OF this] i assms show "position (\<lambda>n. n = x) xs = Some i"
    by (auto simp: nth_eq_iff_index_eq)
qed (auto dest: position_Some)

text \<open>What one resolved entry, and all of them, do to the arguments.\<close>

lemma encode_params_spec:
  assumes "fold_res (encode_param sj names) args resolved = Inr args'"
    and "distinct names" and "distinct (map fst resolved)" and "i < length names" and "length args = length names"
  shows "length args' = length args"
    and "map_of resolved (names ! i) = None \<Longrightarrow> args' ! i = args ! i"
    and "map_of resolved (names ! i) = Some ct \<Longrightarrow>
         \<exists>bytes. encode_arg sj (names ! i) ct (args ! i) = Inr bytes \<and> args' ! i = bytes_to_value bytes"
proof -
  have "length args' = length args \<and>
      (case map_of resolved (names ! i) of
         None \<Rightarrow> args' ! i = args ! i
       | Some ct \<Rightarrow> \<exists>bytes. encode_arg sj (names ! i) ct (args ! i) = Inr bytes \<and> args' ! i = bytes_to_value bytes)"
    using assms
  proof (induction resolved arbitrary: args)
    case (Cons e resolved)
    obtain name ct where e: "e = (name, ct)" by force
    obtain idx arg bytes where st: "position (\<lambda>n. n = name) names = Some idx" "get_at args idx = Some arg"
      "encode_arg sj name ct arg = Inr bytes"
      "fold_res (encode_param sj names) (args[idx := bytes_to_value bytes]) resolved = Inr args'"
      using Cons.prems(1) unfolding e fold_res_Cons_iff
      by (auto simp: encode_param_def [of sj names args "(name, ct)"] attempt_Inr_iff ok_or_Inr_iff)
    have idx: "idx < length names" "names ! idx = name"
      using st(1) position_distinct [OF Cons.prems(2)] by auto
    have dist: "distinct (map fst resolved)" "length (args[idx := bytes_to_value bytes]) = length names"
      using Cons.prems by auto
    note ih = Cons.IH [OF st(4) Cons.prems(2) dist(1) Cons.prems(4) dist(2)]
    show ?case
    proof (cases "i = idx")
      case True
      then have "map_of resolved (names ! i) = None"
        using Cons.prems(3) idx by (auto simp: e map_of_eq_None_iff)
      with True ih idx st(2,3) show ?thesis by (auto simp: e get_at_Some_iff)
    next
      case False
      then have "names ! i \<noteq> name" using idx Cons.prems(2,4) nth_eq_iff_index_eq by metis
      with False ih show ?thesis by (auto simp: e split: option.splits)
    qed
  qed simp
  then show "length args' = length args"
    and "map_of resolved (names ! i) = None \<Longrightarrow> args' ! i = args ! i"
    and "map_of resolved (names ! i) = Some ct \<Longrightarrow>
         \<exists>bytes. encode_arg sj (names ! i) ct (args ! i) = Inr bytes \<and> args' ! i = bytes_to_value bytes"
    by (auto split: option.splits)
qed

text \<open>
  Parameter encoding is positional and exact: it leaves an argument whose parameter has no
  entry untouched, and replaces every other one by an array that reads back as the bytes of that
  argument, its JSON text or, for a string under \<open>text/plain\<close>, the string itself, where every
  content type, fixed or taken from a path, was resolved on the arguments before any was encoded.
\<close>

theorem apply_param_encoding_correct:
  assumes "apply_param_encoding sj args names encoding = Inr args'"
    and "distinct names" and "distinct (map fst encoding)" and "length args = length names"
    and "i < length names"
  shows "case map_of encoding (names ! i) of
           None \<Rightarrow> args' ! i = args ! i
         | Some spec \<Rightarrow> \<exists>ct bytes.
             (case spec of Literal s \<Rightarrow> Inr s
              | Path segments \<Rightarrow> resolve_param_path args names (names ! i) segments) = Inr ct \<and>
             is_supported_content_type ct \<and> value_to_bytes (args' ! i) = Some bytes \<and>
             (if ct = ''application/json'' then bytes = sj (args ! i) else args ! i = JString bytes)"
proof -
  obtain resolved where r: "resolve_types (resolve_param_path args names) encoding = Inr resolved"
    "fold_res (encode_param sj names) args resolved = Inr args'"
    using assms(1) by (auto simp: apply_param_encoding_def attempt_Inr_iff)
  note types = resolve_types_spec [OF r(1) assms(3)]
  have dist: "distinct (map fst resolved)" using types(1) assms(3) by simp
  note enc = encode_params_spec [OF r(2) assms(2) dist assms(5,4)]
  show ?thesis
  proof (cases "map_of encoding (names ! i)")
    case None
    then have "map_of resolved (names ! i) = None" using types(1) by (metis map_of_eq_None_iff image_set)
    with None enc(2) show ?thesis by simp
  next
    case (Some spec)
    from types(2) [OF map_of_SomeD [OF Some]] obtain ct where ct: "map_of resolved (names ! i) = Some ct"
      "is_supported_content_type ct"
      "(case spec of Literal s \<Rightarrow> Inr s
        | Path segments \<Rightarrow> resolve_param_path args names (names ! i) segments) = Inr ct" by blast
    from enc(3) [OF ct(1)] obtain bytes where
      b: "encode_arg sj (names ! i) ct (args ! i) = Inr bytes" "args' ! i = bytes_to_value bytes" by blast
    then have "value_to_bytes (args' ! i) = Some bytes \<and>
        (if ct = ''application/json'' then bytes = sj (args ! i) else args ! i = JString bytes)"
      by (auto simp: encode_arg_def split: if_splits json.splits)
    with ct(2,3) Some show ?thesis by auto
  qed
qed

lemma apply_param_encoding_correct_witness:
  "value_to_bytes ((case apply_param_encoding (\<lambda>_. ''x'') [JString ''a'', JString ''text/plain''] [''p'', ''t'']
      [(''p'', Path [Key ''t''])] of Inr a \<Rightarrow> a | Inl _ \<Rightarrow> []) ! 0) = Some ''a''"
proof -
  have "apply_param_encoding (\<lambda>_. ''x'') [JString ''a'', JString ''text/plain''] [''p'', ''t'']
      [(''p'', Path [Key ''t''])] = Inr [bytes_to_value ''a'', JString ''text/plain'']"
    by (simp add: apply_param_encoding_def resolve_types_def resolve_param_path_def is_supported_content_type_def
        encode_param_def encode_arg_def hm_insert_def)
  from apply_param_encoding_correct [OF this, of 0] this show ?thesis
    by (simp add: resolve_param_path_def)
qed

subsection \<open>Calls\<close>

lemma apply_param_encoding_length:
  assumes "apply_param_encoding sj args names encoding = Inr args'"
  shows "length args' = length args"
proof -
  obtain resolved where "fold_res (encode_param sj names) args resolved = Inr args'"
    using assms by (auto simp: apply_param_encoding_def attempt_Inr_iff)
  then show ?thesis
  proof (induction resolved arbitrary: args)
    case (Cons e resolved)
    obtain name ct where e: "e = (name, ct)" by force
    from Cons.prems obtain a where a: "encode_param sj names args (name, ct) = Inr a"
      "fold_res (encode_param sj names) a resolved = Inr args'"
      unfolding e fold_res_Cons_iff by blast
    have "length a = length args" using a(1) by (auto simp: encode_param_def attempt_Inr_iff)
    with Cons.IH [OF a(2)] show ?case by simp
  qed simp
qed

lemma to_invocation_cases:
  assumes "to_invocation sj pj mm msg = Inr call" and "mm_params mm \<noteq> []"
  obtains body nm args0 args1 where "parse_body pj msg = Inr body" "normalize_body mm body = Inr nm"
    "collect_res (map (arg_value sj pj mm (template_source body msg) nm) (mm_params mm)) = Inr args0"
    "(case mm_param_encoding mm of None \<Rightarrow> Inr args0
      | Some encoding \<Rightarrow> apply_param_encoding sj args0 (map fp_name (mm_params mm)) encoding) = Inr args1"
    "inv_args call = map2 (stringify_arg sj) (mm_params mm) args1"
    "inv_function_key call = mm_function_key mm"
    "length args0 = length (mm_params mm)" "length args1 = length (mm_params mm)"
proof -
  obtain body nm args0 args1 where *: "parse_body pj msg = Inr body" "normalize_body mm body = Inr nm"
    "collect_res (map (arg_value sj pj mm (template_source body msg) nm) (mm_params mm)) = Inr args0"
    "(case mm_param_encoding mm of None \<Rightarrow> Inr args0
      | Some encoding \<Rightarrow> apply_param_encoding sj args0 (map fp_name (mm_params mm)) encoding) = Inr args1"
    "call = \<lparr> inv_function_key = mm_function_key mm, inv_args = map2 (stringify_arg sj) (mm_params mm) args1 \<rparr>"
    using assms by (auto simp: to_invocation_def attempt_Inr_iff)
  have l0: "length args0 = length (mm_params mm)" using collect_res_length [OF *(3)] by simp
  have l1: "length args1 = length (mm_params mm)"
    using *(4) l0 by (auto split: option.splits dest: apply_param_encoding_length)
  show thesis using that [OF *(1-4)] *(5) l0 l1 by simp
qed

lemma parse_body_cases:
  assumes "parse_body pj msg = Inr body"
  shows "let ct = unwrap_or (headers_content_type (msg_headers msg)) ''application/json'' in
    ct = ''application/json'' \<and> (if msg_body msg = [] then body = JNull else pj (msg_body msg) = Some body) \<or>
    ct = ''text/plain'' \<and> utf8_valid (msg_body msg) \<and> body = JString (msg_body msg)"
  using assms by (auto simp: parse_body_def Let_def ok_or_Inr_iff split: if_splits)

lemma unmapped_argument:
  assumes "normalize_body mm body = Inr nm" and "param \<in> set (mm_params mm)" and "name_match param nm = Inr v"
  shows "(\<forall>w. json_get (fp_name param) body = Some w \<longrightarrow> v = w) \<and>
    (json_get (fp_name param) body = None \<longrightarrow>
       (if mm_param_mapping mm = None \<and> length (mm_params mm) = 1 then v = body else fp_is_optional param \<and> v = JNull))"
proof (cases "mm_param_mapping mm = None \<and> length (mm_params mm) = 1")
  case True
  with assms(2) have h: "hd (mm_params mm) = param" by (auto simp: length_Suc_conv)
  have "json_get (fp_name param) nm = Some (case json_get (fp_name param) body of Some w \<Rightarrow> w | None \<Rightarrow> body)"
    using assms(1) True by (cases body) (auto simp: normalize_body_def h split: option.splits if_splits)
  with assms(3) True show ?thesis by (auto simp: name_match_def split: option.splits)
next
  case False
  then have "nm = body"
    using assms(1) by (auto simp: normalize_body_def split: if_splits json.splits)
  with assms(3) False show ?thesis by (auto simp: name_match_def split: option.splits if_splits)
qed

lemma argument_content:
  assumes "normalize_body mm body = Inr nm" and "param \<in> set (mm_params mm)"
    and "arg_value sj pj mm (template_source body msg) nm param = Inr v"
  shows "case and_then (mm_param_mapping mm) (hm_get (fp_name param)) of
      Some template \<Rightarrow>
        substitute_value sj pj template (JObject [(''body'', body), (''headers'', headers_as_value msg)]) = Inr v
    | None \<Rightarrow>
        (case json_get (fp_name param) body of
           Some w \<Rightarrow> v = w
         | None \<Rightarrow> if mm_param_mapping mm = None \<and> length (mm_params mm) = 1 then v = body
                   else fp_is_optional param \<and> v = JNull)"
proof -
  have source: "template_source body msg = JObject [(''body'', body), (''headers'', headers_as_value msg)]"
    by (simp add: template_source_def bt_extend_def)
  show ?thesis
    using assms(3) unmapped_argument [OF assms(1,2), of v] by (auto simp: arg_value_def source split: option.splits)
qed

lemma stringify_arg_cases:
  "stringify_arg sj param v = (if schema_type (fp_json_schema param) = Some ''string'' \<and> v \<noteq> JNull \<and>
     (\<forall>s. v \<noteq> JString s) then JString (sj v) else v)"
  by (cases v) (simp_all add: stringify_arg_def)


definition mapper_example :: message_mapper where
  "mapper_example =
     \<lparr> mm_function_key = ''greet'',
       mm_params = [\<lparr> fp_name = ''name'', fp_is_optional = False, fp_json_schema = jtype ''string'' \<rparr>],
       mm_param_mapping = Some [(''name'', JString ''Hi {headers.user}'')], mm_param_encoding = None,
       mm_result_decoding = None, mm_result_mapping = None \<rparr>"

definition message_example :: message where
  "message_example = \<lparr> msg_headers = \<lparr> mh_map = [(''user'', HString ''Ann'')] \<rparr>, msg_body = [] \<rparr>"


text \<open>
  Binding and calling fit together: when a mapper was accepted for a component function whose
  parameters have distinct names, and a call is built from a message, every parameter that has an
  encoding entry receives a byte array, which is what its WIT type asks for.
\<close>

theorem encoded_params_receive_bytes:
  assumes "from_component cm key config = Inr mm" and "to_invocation sj pj mm msg = Inr call"
    and "mm_param_encoding mm = Some encoding" and "distinct (map fst encoding)"
    and "distinct (map fp_name (mm_params mm))" and "(name, spec) \<in> set encoding"
  shows "\<exists>i bytes. i < length (mm_params mm) \<and> fp_name (mm_params mm ! i) = name \<and>
     is_byte_array_param_schema (fp_json_schema (mm_params mm ! i)) \<and>
     value_to_bytes (inv_args call ! i) = Some bytes"
proof -
  obtain f where f: "mm_params mm = fn_params f" "fold_res (\<lambda>_. check_encoding f) () encoding = Inr ()"
    using assms(1,3) by (auto simp: from_component_def attempt_Inr_iff)
  then have "check_encoding f (name, spec) = Inr ()" using assms(6) by (simp add: fold_res_guard_ok)
  then obtain param where param: "find_first (\<lambda>p. fp_name p = name) (fn_params f) = Some param"
    "is_byte_array_param_schema (fp_json_schema param)"
    by (auto simp: check_encoding_def attempt_Inr_iff ok_or_Inr_iff guard_res_Inr_iff)
  then obtain i where i: "i < length (mm_params mm)" "mm_params mm ! i = param" "fp_name param = name"
    using find_first_Some [OF param(1)] f(1) by (auto simp: in_set_conv_nth)
  have "mm_params mm \<noteq> []" using i(1) by auto
  from to_invocation_cases [OF assms(2) this] obtain body nm args0 args1 where
    *: "parse_body pj msg = Inr body" "normalize_body mm body = Inr nm"
    "collect_res (map (arg_value sj pj mm (template_source body msg) nm) (mm_params mm)) = Inr args0"
    "(case mm_param_encoding mm of None \<Rightarrow> Inr args0
      | Some encoding \<Rightarrow> apply_param_encoding sj args0 (map fp_name (mm_params mm)) encoding) = Inr args1"
    "inv_args call = map2 (stringify_arg sj) (mm_params mm) args1"
    "inv_function_key call = mm_function_key mm"
    "length args0 = length (mm_params mm)" "length args1 = length (mm_params mm)" .
  have enc: "apply_param_encoding sj args0 (map fp_name (mm_params mm)) encoding = Inr args1"
    using *(4) assms(3) by simp
  note call = *(5) and len = *(7,8)
  obtain resolved where r: "resolve_types (resolve_param_path args0 (map fp_name (mm_params mm))) encoding = Inr resolved"
    "fold_res (encode_param sj (map fp_name (mm_params mm))) args0 resolved = Inr args1"
    using enc by (auto simp: apply_param_encoding_def attempt_Inr_iff)
  note types = resolve_types_spec [OF r(1) assms(4)]
  have dist: "distinct (map fst resolved)" using types(1) assms(4) by simp
  obtain ct where ct: "map_of resolved name = Some ct" using types(2) [OF assms(6)] by blast
  have "i < length (map fp_name (mm_params mm))" "length args0 = length (map fp_name (mm_params mm))"
    "map fp_name (mm_params mm) ! i = name"
    using i len by simp_all
  from encode_params_spec(3) [OF r(2) assms(5) dist this(1,2)] this(3) ct obtain bytes where
    b: "args1 ! i = bytes_to_value bytes" by auto
  have "schema_type (fp_json_schema param) \<noteq> Some ''string''"
    using param(2) by (cases "fp_json_schema param")
      (auto simp: is_byte_array_param_schema_def schema_type_def)
  then have "inv_args call ! i = bytes_to_value bytes"
    using call i len b by (simp add: stringify_arg_def)
  with i param(2) show ?thesis by (intro exI [of _ i]) simp
qed

definition byte_array_schema :: json where
  "byte_array_schema = jobj [(''type'', JString ''array''),
     (''items'', jobj [(''type'', JString ''number''), (''minimum'', JNumber (PosInt 0)), (''maximum'', JNumber (PosInt 255))])]"

definition upload_component :: component where
  "upload_component =
     \<lparr> c_metadata = \<lparr> md_name = ''files'', md_namespace = None, md_package = None, md_labels = [],
                      md_dependents = None, md_exports = [] \<rparr>,
       c_functions = [(''put'', function_new None ''put'' []
         [\<lparr> fp_name = ''data'', fp_is_optional = False, fp_json_schema = byte_array_schema \<rparr>] None True)] \<rparr>"

definition upload_config :: mapping_config where
  "upload_config = \<lparr> mc_param_mapping = None, mc_param_encoding = Some [(''data'', Literal ''text/plain'')],
     mc_result_decoding = None, mc_result_mapping = None \<rparr>"

definition text_message :: "string \<Rightarrow> message" where
  "text_message body = \<lparr> msg_headers = \<lparr> mh_map = [(CONTENT_TYPE, HString ''text/plain'')] \<rparr>, msg_body = body \<rparr>"

lemma encoded_params_receive_bytes_witness:
  "\<exists>mm call i bytes. from_component upload_component None upload_config = Inr mm \<and>
     to_invocation (\<lambda>_. []) (\<lambda>_. None) mm (text_message ''abc'') = Inr call \<and>
     i < length (mm_params mm) \<and> value_to_bytes (inv_args call ! i) = Some bytes"
proof -
  have ok: "is_ok (from_component upload_component None upload_config)" by code_simp
  then obtain mm where mm: "from_component upload_component None upload_config = Inr mm" by (auto simp: is_ok_iff)
  have "is_ok (attempt (from_component upload_component None upload_config)
      (\<lambda>mm. to_invocation (\<lambda>_. []) (\<lambda>_. None) mm (text_message ''abc'')))" by code_simp
  then obtain call where call: "to_invocation (\<lambda>_. []) (\<lambda>_. None) mm (text_message ''abc'') = Inr call"
    by (auto simp: is_ok_iff mm)
  have "mm_param_encoding mm = Some [(''data'', Literal ''text/plain'')]" "map fp_name (mm_params mm) = [''data'']"
    using mm by (auto simp: from_component_def upload_component_def upload_config_def function_new_def attempt_Inr_iff)
  from encoded_params_receive_bytes [OF mm call this(1), of "''data''" "Literal ''text/plain''"] this(2) mm call
  show ?thesis by auto
qed

subsection \<open>Replies\<close>

lemma builder_fold_headers:
  "mb_headers (fold (\<lambda>(k, v). builder_header k (g v)) kvs b) =
     fold (\<lambda>(k, v). hm_insert k (g v)) kvs (mb_headers b)"
  "mb_body (fold (\<lambda>(k, v). builder_header k (g v)) kvs b) = mb_body b"
  by (induction kvs arbitrary: b) (auto simp: builder_header_def)

lemma reply_of_call:
  assumes "from_invocation_result sj pj uuid now ctx mm wit_result propagated = Inr msg"
    and "distinct (map fst propagated)"
  shows "(\<forall>k v. hm_get k propagated = Some v \<longrightarrow> hm_get k (mh_map (msg_headers msg)) = Some (HString v)) \<and>
    (mm_result_mapping mm = None \<and> mm_result_decoding mm = None \<longrightarrow>
       msg_body msg = serialize_body sj wit_result (unwrap_or (hm_get CONTENT_TYPE propagated) ''application/json'')) \<and>
    (\<forall>mapping. mm_result_mapping mm = Some mapping \<and>
       json_get ''body'' mapping \<in> {None, Some JNull, Some (JString [])} \<longrightarrow> msg_body msg = [])"
proof -
  obtain source body hs where run:
    "(case mm_result_decoding mm of None \<Rightarrow> Inr wit_result
      | Some decoding \<Rightarrow> apply_result_decoding pj wit_result decoding) = Inr source"
    "(case mm_result_mapping mm of
        None \<Rightarrow> Inr (serialize_body sj source (unwrap_or (hm_get CONTENT_TYPE propagated) ''application/json''), [])
      | Some mapping \<Rightarrow>
          attempt (mapped_body sj pj mapping source (unwrap_or (hm_get CONTENT_TYPE propagated) ''application/json''))
            (\<lambda>body_bytes. map_ok (Pair body_bytes) (mapped_headers sj pj mapping source))) = Inr (body, hs)"
    "msg = message_build uuid now ctx (fold (\<lambda>(k, v). builder_header k (HString v)) propagated
       (fold (\<lambda>(k, v). builder_header k (HString (header_text sj v))) hs (builder_new body)))"
    using assms(1) by (auto simp: from_invocation_result_def attempt_Inr_iff Let_def)
  have body: "msg_body msg = body"
    unfolding run(3) message_build_def by (simp add: Let_def builder_fold_headers builder_new_def)
  have "hm_get k (mh_map (msg_headers msg)) = Some (HString v)" if "hm_get k propagated = Some v" for k v
  proof -
    have "hm_get k (fold (\<lambda>(k, v). hm_insert ([] @ k) (HString v)) propagated m) = Some (HString v)" for m
      using fold_prefix_get_prefixed [OF assms(2), where f = HString and p = "[]" and m = m and k = k] that
      by simp
    then show ?thesis
      unfolding run(3) using message_build_headers_get by (simp add: builder_fold_headers)
  qed
  moreover have "mm_result_mapping mm = None \<and> mm_result_decoding mm = None \<longrightarrow>
       msg_body msg = serialize_body sj wit_result (unwrap_or (hm_get CONTENT_TYPE propagated) ''application/json'')"
    using run body by auto
  moreover have "\<forall>mapping. mm_result_mapping mm = Some mapping \<and>
       json_get ''body'' mapping \<in> {None, Some JNull, Some (JString [])} \<longrightarrow> msg_body msg = []"
    using run(2) body by (auto simp: mapped_body_def attempt_Inr_iff map_ok_Inr_iff)
  ultimately show ?thesis by blast
qed

text \<open>
  The reply of a call: a propagated header reaches the reply with its value even when the
  mapping sets a header of that name; without a result mapping the body is the (decoded) result,
  printed as text or JSON by the propagated content type; and a mapping whose \<open>body\<close> slot is
  absent, null or empty gives an empty body.
\<close>

theorem reply_headers_and_body:
  assumes "from_invocation_result sj pj uuid now ctx mm wit_result propagated = Inr msg"
    and "distinct (map fst propagated)"
  shows "(\<forall>k v. hm_get k propagated = Some v \<longrightarrow> hm_get k (mh_map (msg_headers msg)) = Some (HString v)) \<and>
    (mm_result_mapping mm = None \<and> mm_result_decoding mm = None \<longrightarrow>
       msg_body msg = serialize_body sj wit_result (unwrap_or (hm_get CONTENT_TYPE propagated) ''application/json'')) \<and>
    (\<forall>mapping. mm_result_mapping mm = Some mapping \<and>
       json_get ''body'' mapping \<in> {None, Some JNull, Some (JString [])} \<longrightarrow> msg_body msg = [])"
  using reply_of_call [OF assms] .

lemma reply_headers_and_body_witness:
  "hm_get ''correlation-id'' (mh_map (msg_headers (case from_invocation_result (\<lambda>_. ''null'') (\<lambda>_. None) ''u'' 0 None
       mapper_example JNull [(''correlation-id'', ''7'')] of Inr m \<Rightarrow> m | Inl _ \<Rightarrow> message_example))) = Some (HString ''7'')"
proof -
  have "is_ok (from_invocation_result (\<lambda>_. ''null'') (\<lambda>_. None) ''u'' 0 None
       mapper_example JNull [(''correlation-id'', ''7'')])" by code_simp
  then obtain m where m: "from_invocation_result (\<lambda>_. ''null'') (\<lambda>_. None) ''u'' 0 None
       mapper_example JNull [(''correlation-id'', ''7'')] = Inr m" by (auto simp: is_ok_iff)
  from reply_headers_and_body [OF this] have "hm_get ''correlation-id'' (mh_map (msg_headers m)) = Some (HString ''7'')"
    by simp
  then show ?thesis by (simp only: m sum.case)
qed

subsection \<open>Literal templates\<close>

lemma substitute_string_literal:
  "CHR ''{'' \<notin> set s \<Longrightarrow> substitute_string sj pj s source = Inr (concat (map push_byte_as_char s))"
  by (induction s) auto

lemma push_byte_ascii: "push_byte_as_char c = [c] \<longleftrightarrow> (of_char c :: nat) < 128"
  by (auto simp: push_byte_as_char_def Let_def)

lemma push_byte_length: "length (push_byte_as_char c) = (if (of_char c :: nat) < 128 then 1 else 2)"
  by (simp add: push_byte_as_char_def Let_def)

lemma push_bytes_length: "length s \<le> length (concat (map push_byte_as_char s))"
proof (induction s)
  case (Cons c s)
  then show ?case using push_byte_length [of c] by simp
qed simp

lemma push_bytes_id_iff:
  "concat (map push_byte_as_char s) = s \<longleftrightarrow> (\<forall>c \<in> set s. (of_char c :: nat) < 128)"
proof
  assume "concat (map push_byte_as_char s) = s"
  then have "length (concat (map push_byte_as_char s)) = length s" by simp
  then show "\<forall>c \<in> set s. (of_char c :: nat) < 128"
  proof (induction s)
    case (Cons c s)
    have "length (push_byte_as_char c) + length (concat (map push_byte_as_char s)) = Suc (length s)"
      using Cons.prems by simp
    with push_bytes_length [of s] push_byte_length [of c] have "(of_char c :: nat) < 128"
      "length (concat (map push_byte_as_char s)) = length s"
      by (auto split: if_splits)
    with Cons.IH show ?case by simp
  qed simp
next
  assume "\<forall>c \<in> set s. (of_char c :: nat) < 128"
  then show "concat (map push_byte_as_char s) = s"
  proof (induction s)
    case (Cons c s)
    then show ?case using push_byte_ascii [of c] by simp
  qed simp
qed

text \<open>
  C39. Text outside placeholders is copied byte by byte, each byte pushed as the character of that
  code: a template without a placeholder stands for itself if and only if it is ASCII, and
  otherwise every byte above 127 becomes two.
\<close>

theorem literal_template_kept_iff_ascii:
  assumes "CHR ''{'' \<notin> set s"
  shows "substitute_value sj pj (JString s) source = Inr (JString (concat (map push_byte_as_char s))) \<and>
    (substitute_value sj pj (JString s) source = Inr (JString s) \<longleftrightarrow> (\<forall>c \<in> set s. (of_char c :: nat) < 128))"
proof -
  have "parse_path_only_template pj s = None"
    using assms by (cases s) (auto simp: parse_path_only_template_def)
  then show ?thesis using assms by (simp add: substitute_string_literal push_bytes_id_iff)
qed

lemma literal_template_kept_iff_ascii_witness:
  "substitute_value (\<lambda>_. []) (\<lambda>_. None) (JString [CHR 0xC3, CHR 0xA9]) JNull \<noteq> Inr (JString [CHR 0xC3, CHR 0xA9])"
proof -
  have "CHR ''{'' \<notin> set [CHR 0xC3, CHR 0xA9]" "\<not> (\<forall>c \<in> set [CHR 0xC3, CHR 0xA9]. (of_char c :: nat) < 128)"
    by simp_all
  with literal_template_kept_iff_ascii [OF this(1)] show ?thesis by blast
qed

end
