(* ===== verification/Activator.thy ===== *)
theory Activator
  imports Reply Mapping_Layer
begin

section \<open>The activator of a subscription (\<open>src/messaging/activator.rs\<close>)\<close>

text \<open>
  The handler that turns a message into the call of a component function and, when the message
  asks for it, its result into a reply. \<open>ComponentInvoker\<close> is the record \<open>invoker_ops\<close>: an
  invocation acts on the whole messaging state, since the component may itself publish. The fresh
  UUID and the clock of the reply and the propagation context around the handler are parameters.
\<close>

record ('i, 's) invoker_ops =
  iv_get_component :: "'i \<Rightarrow> string \<Rightarrow> component option"
  iv_invoke :: "'i \<Rightarrow> string \<Rightarrow> string \<Rightarrow> json list \<Rightarrow> propagation_context option \<Rightarrow> 's \<Rightarrow> 's \<times> (string + json)"

datatype invocation_mode = Direct | Mapped message_mapper

record 'i activator =
  act_invoker :: 'i
  act_component_name :: string
  act_mode :: invocation_mode
  act_reply_publisher :: "reply_publisher option"

datatype activator_error = ComponentNotFound string | MapperRejected mapping_error

datatype handle_error =
    DirectModeUnimplemented
  | MessageNotMapped mapping_error
  | InvocationFailed string
  | NoReplyPublisher string
  | ReplyNotMapped mapping_error
  | ReplyNotPublished publish_error

definition exports_handler_interface :: "component \<Rightarrow> bool" where
  "exports_handler_interface c =
     list_ex (\<lambda>(_, f). is_some_and (fn_interface f)
        (\<lambda>iface. starts_with (if_full_name iface) ''modulewise:messaging/handler'')) (c_functions c)"

definition activator_new ::
  "('i, 's) invoker_ops \<Rightarrow> 'i \<Rightarrow> string \<Rightarrow> string option \<Rightarrow> mapping_config \<Rightarrow> reply_publisher option \<Rightarrow>
   activator_error + 'i activator" where
  "activator_new ops invoker component_name key config publisher =
     attempt (ok_or (ComponentNotFound component_name) (iv_get_component ops invoker component_name)) (\<lambda>c.
     attempt
       (if exports_handler_interface c then Inr Direct
        else map_err MapperRejected (map_ok Mapped (from_component c key config))) (\<lambda>mode.
     Inr \<lparr> act_invoker = invoker, act_component_name = component_name, act_mode = mode,
           act_reply_publisher = publisher \<rparr>))"

text \<open>The propagated headers of an inbound message, in the order of \<open>PROPAGATED_HEADERS\<close>.\<close>

definition collect_propagated :: "message_headers \<Rightarrow> string hmap" where
  "collect_propagated h =
     fold (\<lambda>key m. case headers_get header_str key h of Some v \<Rightarrow> hm_insert key v m | None \<Rightarrow> m)
       propagated_headers []"

text \<open>What a reply echoes: the propagated headers, the content type and the correlation id.\<close>

definition reply_propagated :: "message_headers \<Rightarrow> string hmap \<Rightarrow> string hmap" where
  "reply_propagated h propagated =
     (let m = (case headers_content_type h of Some ct \<Rightarrow> hm_insert CONTENT_TYPE ct propagated | None \<Rightarrow> propagated)
      in case headers_correlation_id h of Some c \<Rightarrow> hm_insert CORRELATION_ID c m | None \<Rightarrow> m)"

definition send_reply ::
  "('q, message) mpsc_ops \<Rightarrow> ('b, message) broadcast_ops \<Rightarrow> (json \<Rightarrow> string) \<Rightarrow> (string \<Rightarrow> json option) \<Rightarrow>
   string \<Rightarrow> 64 word \<Rightarrow> propagation_context option \<Rightarrow> message_mapper \<Rightarrow> reply_publisher option \<Rightarrow> string \<Rightarrow>
   json \<Rightarrow> string hmap \<Rightarrow> ('q, 'b, 'w) messaging_scheme \<Rightarrow>
   ('q, 'b, 'w) messaging_scheme \<times> (handle_error + unit) waiting" where
  "send_reply mp bo sj pj uuid now ambient mapper publisher reply_to result propagated st =
     (case publisher of
        None \<Rightarrow> (st, Done (Inl (NoReplyPublisher reply_to)))
      | Some p \<Rightarrow>
          (case from_invocation_result sj pj uuid now ambient mapper result propagated of
             Inl e \<Rightarrow> (st, Done (Inl (ReplyNotMapped e)))
           | Inr reply \<Rightarrow>
               (case reply_publish mp bo p reply_to reply st of
                  (st', Waits) \<Rightarrow> (st', Waits)
                | (st', Done r) \<Rightarrow> (st', Done (map_err ReplyNotPublished r)))))"

definition activator_handle ::
  "('q, message) mpsc_ops \<Rightarrow> ('b, message) broadcast_ops \<Rightarrow> ('i, ('q, 'b, 'w) messaging_scheme) invoker_ops \<Rightarrow>
   (json \<Rightarrow> string) \<Rightarrow> (string \<Rightarrow> json option) \<Rightarrow> string \<Rightarrow> 64 word \<Rightarrow> propagation_context option \<Rightarrow> 'i activator \<Rightarrow>
   message \<Rightarrow> ('q, 'b, 'w) messaging_scheme \<Rightarrow> ('q, 'b, 'w) messaging_scheme \<times> (handle_error + unit) waiting" where
  "activator_handle mp bo ops sj pj uuid now ambient act msg st =
     (case act_mode act of
        Direct \<Rightarrow> (st, Done (Inl DirectModeUnimplemented))
      | Mapped mapper \<Rightarrow>
          (case to_invocation sj pj mapper msg of
             Inl e \<Rightarrow> (st, Done (Inl (MessageNotMapped e)))
           | Inr call \<Rightarrow>
               (let propagated = collect_propagated (msg_headers msg);
                    ctx = (if propagated = [] then ambient else Some \<lparr> pc_entries = propagated \<rparr>)
                in case iv_invoke ops (act_invoker act) (act_component_name act) (inv_function_key call)
                          (inv_args call) ctx st of
                     (st', Inl e) \<Rightarrow> (st', Done (Inl (InvocationFailed e)))
                   | (st', Inr result) \<Rightarrow>
                       (case headers_reply_to (msg_headers msg) of
                          None \<Rightarrow> (st', Done (Inr ()))
                        | Some reply_to \<Rightarrow>
                            send_reply mp bo sj pj uuid now ambient mapper (act_reply_publisher act) reply_to result
                              (reply_propagated (msg_headers msg) propagated) st'))))"

subsection \<open>Lemmas\<close>

lemma collect_propagated_get:
  "hm_get key (collect_propagated h) = (if key \<in> set propagated_headers then headers_get header_str key h else None)"
  by (auto simp: collect_propagated_def propagated_headers_def split: option.splits)

lemma collect_propagated_wf: "hm_wf (collect_propagated h)"
  by (auto simp: collect_propagated_def propagated_headers_def hm_wf_insert split: option.splits)

lemma reply_propagated_get:
  "hm_get key (reply_propagated h m) =
     (if key = CORRELATION_ID \<and> headers_correlation_id h \<noteq> None then headers_correlation_id h
      else if key = CONTENT_TYPE \<and> headers_content_type h \<noteq> None then headers_content_type h
      else hm_get key m)"
  by (auto simp: reply_propagated_def header_names split: option.splits)

lemma reply_propagated_wf: "hm_wf m \<Longrightarrow> hm_wf (reply_propagated h m)"
  by (auto simp: reply_propagated_def hm_wf_insert split: option.splits)

text \<open>What the reply to \<open>msg\<close> echoes, header by header.\<close>

definition echoed :: "message \<Rightarrow> string \<Rightarrow> string option" where
  "echoed msg key =
     (if key \<in> {CONTENT_TYPE, CORRELATION_ID} \<union> set propagated_headers
      then headers_get header_str key (msg_headers msg) else None)"

lemma reply_propagated_echoed:
  "hm_get key (reply_propagated (msg_headers msg) (collect_propagated (msg_headers msg))) = echoed msg key"
  by (auto simp: reply_propagated_get collect_propagated_get echoed_def headers_correlation_id_def
      headers_content_type_def header_names propagated_headers_def)

lemma reply_echoes:
  assumes "from_invocation_result sj pj uuid now ambient mapper result
      (reply_propagated (msg_headers msg) (collect_propagated (msg_headers msg))) = Inr reply"
    and "echoed msg key = Some v"
  shows "hm_get key (mh_map (msg_headers reply)) = Some (HString v)"
  using reply_of_call [OF assms(1) reply_propagated_wf [OF collect_propagated_wf]] assms(2)
  by (simp only: reply_propagated_echoed)

definition reply_timed_out :: string where
  "reply_timed_out = ''reply channel error: '' @ consume_error_display no_reply"

text \<open>An invocation that leaves the reply channel of a request to the reply itself.\<close>

definition spares_reply ::
  "('i, ('q, 'b, 'w) messaging_scheme) invoker_ops \<Rightarrow> 'i \<Rightarrow> channel_return_address \<Rightarrow> bool" where
  "spares_reply ops i ra \<longleftrightarrow>
     (\<forall>c f args ctx s s' r. iv_invoke ops i c f args ctx s = (s', r) \<longrightarrow>
        hm_get (ra_name ra) (ms_ephemeral s') = hm_get (ra_name ra) (ms_ephemeral s) \<and>
        channel_at s' (ra_channel ra) = channel_at s (ra_channel ra) \<and> length (ms_heap s) \<le> length (ms_heap s'))"

text \<open>The reply channel of \<open>ra\<close> is registered and holds \<open>ms\<close>.\<close>

definition awaiting ::
  "('q, message) mpsc_ops \<Rightarrow> ('b, message) broadcast_ops \<Rightarrow> channel_return_address \<Rightarrow> message list \<Rightarrow>
   ('q, 'b, 'w) messaging_scheme \<Rightarrow> bool" where
  "awaiting mp bo ra ms st \<longleftrightarrow>
     hm_get (ra_name ra) (ms_ephemeral st) = Some (ra_channel ra) \<and> ra_channel ra < length (ms_heap st) \<and>
     reply_channel mp bo (channel_at st (ra_channel ra)) ms"

lemma awaiting_fresh:
  assumes "messaging_inv mp bo st" and "return_address mp bo uuid st = (ra, st0)"
  shows "awaiting mp bo ra [] st0"
  using return_address_props [OF assms] by (simp add: awaiting_def)

lemma awaiting_invoke:
  "awaiting mp bo ra ms st \<Longrightarrow> spares_reply ops i ra \<Longrightarrow> iv_invoke ops i c f args ctx st = (st', r) \<Longrightarrow>
     awaiting mp bo ra ms st'"
  unfolding awaiting_def spares_reply_def by (metis order_less_le_trans)

lemma awaiting_reply:
  assumes "awaiting mp bo ra [] st"
  shows "\<exists>st'. reply_publish mp bo (CompositeReplyPublisher (RegistryPublisher Ephemeral) p) (ra_name ra) m st =
      (st', Done (Inr ())) \<and> awaiting mp bo ra [m] st'"
proof -
  obtain c where "publish mp bo (channel_at st (ra_channel ra)) m = (c, Done (Inr ()))" "reply_channel mp bo c [m]"
    using assms reply_channel_publish [of mp bo _ "[]" m] by (fastforce simp: awaiting_def)
  with assms show ?thesis
    by (simp add: awaiting_def registry_publish_def registry_lookup_def publish_at_def)
qed

lemma awaiting_take:
  assumes "awaiting mp bo ra ms st"
  shows "snd (return_address_take mp bo ra st) =
    Done (case ms of [] \<Rightarrow> Inl reply_timed_out | m # _ \<Rightarrow> Inr m)"
proof -
  obtain c where "consume mp bo [] (channel_at st (ra_channel ra)) REPLY_GROUP =
      (c, Done (case ms of [] \<Rightarrow> Inl no_reply | m # _ \<Rightarrow> Inr m))"
    using assms reply_channel_consume [of mp bo _ ms] by (fastforce simp: awaiting_def)
  then show ?thesis by (simp add: return_address_take_def Let_def reply_timed_out_def split: list.splits)
qed

lemma send_reply_awaiting:
  assumes "awaiting mp bo ra [] st"
    and "send_reply mp bo sj pj uuid now ambient mapper
      (Some (CompositeReplyPublisher (RegistryPublisher Ephemeral) p)) (ra_name ra) result propagated st = (st', res)"
  shows "(\<exists>e. res = Done (Inl (ReplyNotMapped e)) \<and> awaiting mp bo ra [] st') \<or>
    (\<exists>reply. res = Done (Inr ()) \<and> awaiting mp bo ra [reply] st' \<and>
       from_invocation_result sj pj uuid now ambient mapper result propagated = Inr reply)"
proof (cases "from_invocation_result sj pj uuid now ambient mapper result propagated")
  case (Inl e)
  with assms show ?thesis by (auto simp: send_reply_def)
next
  case (Inr reply)
  obtain st'' where "reply_publish mp bo (CompositeReplyPublisher (RegistryPublisher Ephemeral) p) (ra_name ra) reply st =
      (st'', Done (Inr ()))" "awaiting mp bo ra [reply] st''"
    using awaiting_reply [OF assms(1)] by blast
  with assms(2) Inr show ?thesis by (simp add: send_reply_def)
qed

lemma handled_awaiting:
  assumes "awaiting mp bo ra [] st0"
    and "headers_reply_to (msg_headers msg) = Some (ra_name ra)"
    and "act_reply_publisher act = Some (CompositeReplyPublisher (RegistryPublisher Ephemeral) p)"
    and "spares_reply ops (act_invoker act) ra"
    and "activator_handle mp bo ops sj pj uuid now ambient act msg st0 = (st1, res)"
  shows "(\<exists>e. res = Done (Inl e) \<and> awaiting mp bo ra [] st1) \<or>
    (\<exists>reply. res = Done (Inr ()) \<and> awaiting mp bo ra [reply] st1 \<and>
      (\<forall>key v. echoed msg key = Some v \<longrightarrow> hm_get key (mh_map (msg_headers reply)) = Some (HString v)))"
proof -
  note fresh = assms(1)
  have failed: ?thesis if "res = Done (Inl e)" "awaiting mp bo ra [] st1" for e
    using that by simp
  show ?thesis
  proof (cases "act_mode act")
    case Direct
    with assms(5) have "res = Done (Inl DirectModeUnimplemented)" "st1 = st0" by (simp_all add: activator_handle_def)
    with fresh failed show ?thesis by blast
  next
    case (Mapped mapper)
    show ?thesis
    proof (cases "to_invocation sj pj mapper msg")
      case (Inl e)
      with Mapped assms(5) have "res = Done (Inl (MessageNotMapped e))" "st1 = st0" by (simp_all add: activator_handle_def)
      with fresh failed show ?thesis by blast
    next
      case (Inr call)
      let ?pr = "collect_propagated (msg_headers msg)"
      obtain st' r where run: "iv_invoke ops (act_invoker act) (act_component_name act) (inv_function_key call)
          (inv_args call) (if ?pr = [] then ambient else Some \<lparr> pc_entries = ?pr \<rparr>) st0 = (st', r)" by force
      note wait = awaiting_invoke [OF fresh assms(4) run]
      show ?thesis
      proof (cases r)
        case (Inl e)
        with Mapped Inr run assms(5) have "res = Done (Inl (InvocationFailed e))" "st1 = st'"
          by (simp_all add: activator_handle_def Let_def)
        with wait failed show ?thesis by blast
      next
        case (Inr result)
        with Mapped \<open>to_invocation sj pj mapper msg = Inr call\<close> run assms(2,3,5)
        have "send_reply mp bo sj pj uuid now ambient mapper
            (Some (CompositeReplyPublisher (RegistryPublisher Ephemeral) p)) (ra_name ra) result
            (reply_propagated (msg_headers msg) ?pr) st' = (st1, res)"
          by (simp add: activator_handle_def Let_def)
        from send_reply_awaiting [OF wait this] show ?thesis
        proof (elim disjE exE conjE)
          fix e assume "res = Done (Inl (ReplyNotMapped e))" "awaiting mp bo ra [] st1"
          then show ?thesis by (rule failed)
        next
          fix reply assume "res = Done (Inr ())" "awaiting mp bo ra [reply] st1"
            "from_invocation_result sj pj uuid now ambient mapper result
               (reply_propagated (msg_headers msg) ?pr) = Inr reply"
          with reply_echoes show ?thesis by auto
        qed
      qed
    qed
  qed
qed

lemma handled_iff_answered:
  assumes "awaiting mp bo ra [] st0"
    and "headers_reply_to (msg_headers msg) = Some (ra_name ra)"
    and "act_reply_publisher act = Some (CompositeReplyPublisher (RegistryPublisher Ephemeral) p)"
    and "spares_reply ops (act_invoker act) ra"
    and "activator_handle mp bo ops sj pj uuid now ambient act msg st0 = (st1, res)"
  shows "(\<exists>e. res = Done (Inl e) \<and> snd (return_address_take mp bo ra st1) = Done (Inl reply_timed_out)) \<or>
    (\<exists>reply. res = Done (Inr ()) \<and> snd (return_address_take mp bo ra st1) = Done (Inr reply) \<and>
      (\<forall>key v. echoed msg key = Some v \<longrightarrow> hm_get key (mh_map (msg_headers reply)) = Some (HString v)))"
  using handled_awaiting [OF assms] awaiting_take [of mp bo ra "[]" st1] awaiting_take [of mp bo ra "[_]" st1] by auto

text \<open>
  A request is answered if and only if it was handled: when the activator of a subscription
  handles a message whose reply address was handed out by \<open>return_address\<close>, it never blocks; if it
  succeeds, \<open>take\<close> returns a reply that echoes the correlation id, the content type and the trace
  headers of the request; and if it fails, at whatever stage, no reply was sent and \<open>take\<close> times out.
\<close>

theorem request_answered_iff_handled:
  assumes "messaging_inv mp bo st" and "return_address mp bo name_id st = (ra, st0)"
    and "headers_reply_to (msg_headers msg) = Some (ra_name ra)"
    and "act_reply_publisher act = Some (CompositeReplyPublisher (RegistryPublisher Ephemeral) p)"
    and "spares_reply ops (act_invoker act) ra"
    and "activator_handle mp bo ops sj pj uuid now ambient act msg st0 = (st1, res)"
  shows "(\<exists>e. res = Done (Inl e) \<and>
      snd (return_address_take mp bo ra st1) = Done (Inl reply_timed_out)) \<or>
    (\<exists>reply. res = Done (Inr ()) \<and> snd (return_address_take mp bo ra st1) = Done (Inr reply) \<and>
      (\<forall>key v. echoed msg key = Some v \<longrightarrow> hm_get key (mh_map (msg_headers reply)) = Some (HString v)))"
  by (rule handled_iff_answered [OF awaiting_fresh [OF assms(1,2)] assms(3-6)])

text \<open>A component that answers every call with null, and a request to it.\<close>

definition null_invoker :: "(unit, (message list \<times> nat, message list_broadcast) messaging) invoker_ops" where
  "null_invoker = \<lparr> iv_get_component = (\<lambda>i name. None), iv_invoke = (\<lambda>i c f args ctx s. (s, Inr JNull)) \<rparr>"

definition null_activator :: "unit activator" where
  "null_activator = \<lparr> act_invoker = (), act_component_name = ''greeter'', act_mode = Mapped mapper_example,
     act_reply_publisher =
       Some (CompositeReplyPublisher (RegistryPublisher Ephemeral) (RegistryPublisher Managed)) \<rparr>"

definition demo_request :: message where
  "demo_request = \<lparr> msg_headers = \<lparr> mh_map = [(''user'', HString ''Ann''), (REPLY_TO, HString ''reply-1'')] \<rparr>, msg_body = [] \<rparr>"

definition demo_address :: "channel_return_address \<times> (message list \<times> nat, message list_broadcast) messaging" where
  "demo_address = return_address list_mpsc list_broadcast_ops ''1'' messaging_new"

lemma request_answered_iff_handled_witness:
  "\<exists>st1 reply. activator_handle list_mpsc list_broadcast_ops null_invoker (\<lambda>_. ''null'') (\<lambda>_. None) ''u'' 0 None
      null_activator demo_request (snd demo_address) = (st1, Done (Inr ())) \<and>
    snd (return_address_take list_mpsc list_broadcast_ops (fst demo_address) st1) = Done (Inr reply)"
proof -
  have inv: "messaging_inv list_mpsc list_broadcast_ops
      (messaging_new :: (message list \<times> nat, message list_broadcast) messaging)"
    by (rule messaging_inv_new [OF list_mpsc_spec list_broadcast_spec])
  have ra: "return_address list_mpsc list_broadcast_ops ''1'' messaging_new = (fst demo_address, snd demo_address)"
    by (simp add: demo_address_def)
  have to: "headers_reply_to (msg_headers demo_request) = Some (ra_name (fst demo_address))" by code_simp
  have pub: "act_reply_publisher null_activator =
      Some (CompositeReplyPublisher (RegistryPublisher Ephemeral) (RegistryPublisher Managed))"
    by (simp add: null_activator_def)
  have spares: "spares_reply null_invoker (act_invoker null_activator) (fst demo_address)"
    by (simp add: spares_reply_def null_invoker_def)
  obtain st1 res where run: "activator_handle list_mpsc list_broadcast_ops null_invoker (\<lambda>_. ''null'') (\<lambda>_. None) ''u'' 0 None
      null_activator demo_request (snd demo_address) = (st1, res)" by force
  have "snd (activator_handle list_mpsc list_broadcast_ops null_invoker (\<lambda>_. ''null'') (\<lambda>_. None) ''u'' 0 None
      null_activator demo_request (snd demo_address)) = Done (Inr ())" by code_simp
  with run have "res = Done (Inr ())" by simp
  with request_answered_iff_handled [OF inv ra to pub spares run] run show ?thesis by auto
qed

end
