(* ===== verification/Dispatcher.thy ===== *)
theory Dispatcher
  imports Channel_Concurrency "HOL-Library.Multiset"
begin

section \<open>The dispatcher of a subscription (\<open>src/messaging/dispatcher.rs\<close>)\<close>

text \<open>
  The loop that consumes from a channel in a consumer group and spawns one handler task per
  message. A state is the channel, the point of the loop and the \<open>JoinSet\<close>: the tasks spawned and
  not yet joined, each with its message and, once the handler has returned, whether it succeeded.
  \<open>dispatch_step\<close> is one atomic step, with its label; \<open>env\<close> is what the other users of the channel
  may do to it, by \<open>Elsewhere\<close>. The channel is given by its \<open>consume\<close>, so the relation serves every
  implementation of the trait.
\<close>

datatype phase = Looping | Consuming | Draining | Exited

type_synonym 'm task = "'m \<times> bool option"

record ('c, 'm) dispatch =
  di_channel :: 'c
  di_phase :: phase
  di_tasks :: "'m task list"

datatype 'm dispatch_event =
    Spawned 'm
  | Handled 'm bool
  | Cancelled
  | Elsewhere
  | Internal

definition without :: "nat \<Rightarrow> 'a list \<Rightarrow> 'a list" where
  "without i xs = take i xs @ drop (Suc i) xs"

definition dispatch_start :: "'c \<Rightarrow> ('c, 'm) dispatch" where
  "dispatch_start c = \<lparr> di_channel = c, di_phase = Looping, di_tasks = [] \<rparr>"

text \<open>
  At the head of the loop a full set of tasks is joined once. \<open>select!\<close> is biased: cancellation is
  looked at only while \<open>consume\<close> has no message.
\<close>

inductive dispatch_step ::
  "('c \<Rightarrow> string \<Rightarrow> 'c \<times> (consume_error + 'm) waiting) \<Rightarrow> ('c \<Rightarrow> 'c \<Rightarrow> bool) \<Rightarrow> string \<Rightarrow> nat \<Rightarrow>
   ('c, 'm) dispatch \<Rightarrow> 'm dispatch_event \<Rightarrow> ('c, 'm) dispatch \<Rightarrow> bool"
  for con env grp n where
  d_capacity: "di_phase d = Looping \<Longrightarrow> length (di_tasks d) < n \<Longrightarrow>
     dispatch_step con env grp n d Internal (d \<lparr> di_phase := Consuming \<rparr>)"
| d_nothing_to_join: "di_phase d = Looping \<Longrightarrow> n = 0 \<Longrightarrow> di_tasks d = [] \<Longrightarrow>
     dispatch_step con env grp n d Internal (d \<lparr> di_phase := Consuming \<rparr>)"
| d_join: "di_phase d = Looping \<Longrightarrow> n \<le> length (di_tasks d) \<Longrightarrow> i < length (di_tasks d) \<Longrightarrow>
     di_tasks d ! i = (m, Some ok) \<Longrightarrow>
     dispatch_step con env grp n d Internal (d \<lparr> di_phase := Consuming, di_tasks := without i (di_tasks d) \<rparr>)"
| d_spawn: "di_phase d = Consuming \<Longrightarrow> con (di_channel d) grp = (c', Done (Inr m)) \<Longrightarrow>
     dispatch_step con env grp n d (Spawned m)
       (d \<lparr> di_channel := c', di_phase := Looping, di_tasks := di_tasks d @ [(m, None)] \<rparr>)"
| d_timeout: "di_phase d = Consuming \<Longrightarrow> con (di_channel d) grp = (c', Done (Inl (CTimeout e))) \<Longrightarrow>
     dispatch_step con env grp n d Internal (d \<lparr> di_channel := c', di_phase := Looping \<rparr>)"
| d_closed: "di_phase d = Consuming \<Longrightarrow> con (di_channel d) grp = (c', Done (Inl (CClosed e))) \<Longrightarrow>
     dispatch_step con env grp n d Internal (d \<lparr> di_channel := c', di_phase := Draining \<rparr>)"
| d_pending: "di_phase d = Consuming \<Longrightarrow> con (di_channel d) grp = (c', Waits) \<Longrightarrow>
     dispatch_step con env grp n d Internal (d \<lparr> di_channel := c' \<rparr>)"
| d_cancelled: "di_phase d = Consuming \<Longrightarrow> con (di_channel d) grp = (c', r) \<Longrightarrow> received_of r = [] \<Longrightarrow>
     dispatch_step con env grp n d Cancelled (d \<lparr> di_channel := c', di_phase := Draining \<rparr>)"
| d_handled: "i < length (di_tasks d) \<Longrightarrow> di_tasks d ! i = (m, None) \<Longrightarrow>
     dispatch_step con env grp n d (Handled m ok) (d \<lparr> di_tasks := (di_tasks d)[i := (m, Some ok)] \<rparr>)"
| d_drain: "di_phase d = Draining \<Longrightarrow> i < length (di_tasks d) \<Longrightarrow> di_tasks d ! i = (m, Some ok) \<Longrightarrow>
     dispatch_step con env grp n d Internal (d \<lparr> di_tasks := without i (di_tasks d) \<rparr>)"
| d_exit: "di_phase d = Draining \<Longrightarrow> di_tasks d = [] \<Longrightarrow>
     dispatch_step con env grp n d Internal (d \<lparr> di_phase := Exited \<rparr>)"
| d_elsewhere: "env (di_channel d) c' \<Longrightarrow> dispatch_step con env grp n d Elsewhere (d \<lparr> di_channel := c' \<rparr>)"

inductive_cases dispatch_step_cases: "dispatch_step con env grp n d e d'"

inductive dispatch_trace ::
  "('c \<Rightarrow> string \<Rightarrow> 'c \<times> (consume_error + 'm) waiting) \<Rightarrow> ('c \<Rightarrow> 'c \<Rightarrow> bool) \<Rightarrow> string \<Rightarrow> nat \<Rightarrow>
   ('c, 'm) dispatch \<Rightarrow> 'm dispatch_event list \<Rightarrow> ('c, 'm) dispatch \<Rightarrow> bool"
  for con env grp n d where
  dispatch_none: "dispatch_trace con env grp n d [] d"
| dispatch_more: "dispatch_trace con env grp n d tr t \<Longrightarrow> dispatch_step con env grp n t e u \<Longrightarrow>
     dispatch_trace con env grp n d (tr @ [e]) u"

fun spawned :: "'m dispatch_event list \<Rightarrow> 'm list" where
  "spawned [] = []"
| "spawned (Spawned m # tr) = m # spawned tr"
| "spawned (e # tr) = spawned tr"

fun handled :: "'m dispatch_event list \<Rightarrow> 'm list" where
  "handled [] = []"
| "handled (Handled m ok # tr) = m # handled tr"
| "handled (e # tr) = handled tr"

lemma spawned_append [simp]: "spawned (a @ b) = spawned a @ spawned b"
  by (induction a rule: spawned.induct) auto

lemma handled_append [simp]: "handled (a @ b) = handled a @ handled b"
  by (induction a rule: handled.induct) auto

subsection \<open>Tasks\<close>

text \<open>The messages of the tasks that still run, in the order of spawning.\<close>

definition running :: "'m task list \<Rightarrow> 'm list" where
  "running ts = map fst (filter (\<lambda>t. snd t = None) ts)"

lemma running_simps [simp]:
  "running [] = []"
  "running (a @ b) = running a @ running b"
  "running (t # ts) = (if snd t = None then fst t # running ts else running ts)"
  by (simp_all add: running_def)

lemma length_without: "i < length xs \<Longrightarrow> Suc (length (without i xs)) = length xs"
  by (simp add: without_def)

lemma split_at: "i < length xs \<Longrightarrow> xs = take i xs @ xs ! i # drop (Suc i) xs"
  by (simp add: id_take_nth_drop)

lemma running_split: "i < length ts \<Longrightarrow> running ts = running (take i ts) @ running [ts ! i] @ running (drop (Suc i) ts)"
  using arg_cong [OF split_at, of i ts running] by simp

lemma running_without:
  assumes "i < length ts" and "ts ! i = (m, Some ok)"
  shows "running (without i ts) = running ts"
  using running_split [OF assms(1)] assms(2) by (simp add: without_def)

lemma running_handled:
  assumes "i < length ts" and "ts ! i = (m, None)"
  shows "mset (running ts) = add_mset m (mset (running (ts[i := (m, Some ok)])))"
    and "length ts \<le> 1 \<Longrightarrow> running ts = [m] \<and> running (ts[i := (m, Some ok)]) = []"
proof -
  show "mset (running ts) = add_mset m (mset (running (ts[i := (m, Some ok)])))"
    using running_split [OF assms(1)] assms by (simp add: upd_conv_take_nth_drop)
  show "length ts \<le> 1 \<Longrightarrow> running ts = [m] \<and> running (ts[i := (m, Some ok)]) = []"
    using assms by (cases ts) auto
qed

subsection \<open>Every run\<close>

definition dispatch_inv :: "nat \<Rightarrow> 'm dispatch_event list \<Rightarrow> ('c, 'm) dispatch \<Rightarrow> bool" where
  "dispatch_inv n tr d \<longleftrightarrow>
     length (di_tasks d) \<le> max 1 n \<and>
     (di_phase d = Consuming \<longrightarrow> length (di_tasks d) < max 1 n) \<and>
     mset (spawned tr) = mset (handled tr) + mset (running (di_tasks d)) \<and>
     (n \<le> 1 \<longrightarrow> spawned tr = handled tr @ running (di_tasks d)) \<and>
     (di_phase d = Exited \<longrightarrow> di_tasks d = [])"

lemma dispatch_inv_step:
  assumes "dispatch_inv n tr d" and "dispatch_step con env grp n d e d'"
  shows "dispatch_inv n (tr @ [e]) d'"
  using assms(2,1)
proof cases
  case (d_join i m ok)
  then show ?thesis
    using assms(1) length_without [OF d_join(5)] by (auto simp: dispatch_inv_def running_without)
next
  case (d_handled i m ok)
  note run = running_handled [OF d_handled(3,4), of ok]
  have "d' = d \<lparr> di_tasks := (di_tasks d)[i := (m, Some ok)] \<rparr>" "e = Handled m ok" by fact+
  moreover have "n \<le> 1 \<Longrightarrow> length (di_tasks d) \<le> 1" using assms(1) by (auto simp: dispatch_inv_def)
  ultimately show ?thesis using assms(1) run d_handled(3) by (auto simp: dispatch_inv_def)
next
  case (d_drain i m ok)
  then show ?thesis
    using assms(1) length_without [OF d_drain(4)] by (auto simp: dispatch_inv_def running_without)
qed (auto simp: dispatch_inv_def)

lemma dispatch_inv_trace:
  assumes "dispatch_trace con env grp n (dispatch_start c) tr d"
  shows "dispatch_inv n tr d"
  using assms
proof (induction rule: dispatch_trace.induct)
  case dispatch_none
  then show ?case by (simp add: dispatch_inv_def dispatch_start_def)
qed (rule dispatch_inv_step)

lemma run_conserves:
  assumes "dispatch_trace con env grp n d0 tr d" and "di_phase d0 \<noteq> Exited"
  shows "mset (running (di_tasks d0)) + mset (spawned tr) = mset (handled tr) + mset (running (di_tasks d)) \<and>
    (di_phase d = Exited \<longrightarrow> di_tasks d = [])"
  using assms(1)
proof (induction rule: dispatch_trace.induct)
  case dispatch_none
  then show ?case using assms(2) by simp
next
  case (dispatch_more tr t e u)
  from dispatch_more.hyps(2) dispatch_more.IH show ?case
  proof cases
    case (d_handled i m ok)
    with dispatch_more.IH running_handled(1) [OF d_handled(3,4), of ok] show ?thesis by auto
  qed (auto simp: running_without)
qed

text \<open>
  Whatever the channel, the handler and the interleaving, and for every configured concurrency
  \<open>n\<close>: at most \<open>max 1 n\<close> messages are being handled at any moment; every message consumed is handled
  exactly once and, when \<open>run\<close> returns, has been handled; and with a concurrency of one, messages
  are handled in the order they were consumed.
\<close>

theorem dispatcher_handles_once:
  assumes "dispatch_trace con env grp n (dispatch_start c) tr d"
  shows "length (running (di_tasks d)) \<le> max 1 n \<and>
    mset (spawned tr) = mset (handled tr) + mset (running (di_tasks d)) \<and>
    (di_phase d = Exited \<longrightarrow> mset (spawned tr) = mset (handled tr)) \<and>
    (n = 1 \<longrightarrow> prefix (handled tr) (spawned tr))"
proof -
  note inv = dispatch_inv_trace [OF assms, unfolded dispatch_inv_def]
  have "length (running (di_tasks d)) \<le> length (di_tasks d)" by (simp add: running_def)
  with inv show ?thesis by (auto simp: prefix_def)
qed

text \<open>A channel with one message queued for the group, and a full run of its dispatcher after closing.\<close>

definition demo_queued :: "(nat list \<times> nat, nat list_broadcast) local_channel" where
  "demo_queued = (demo_open Block) \<lparr> lc_inner := BlockI [''g''] [(''g'', ([7], 1))] \<rparr>"

definition demo_events :: "nat dispatch_event list" where
  "demo_events = (((([] @ [Internal]) @ [Spawned 7]) @ [Handled 7 True]) @ [Internal]) @ [Internal]"

abbreviation demo_consume where
  "demo_consume \<equiv> consume (list_mpsc :: (nat list \<times> nat, nat) mpsc_ops) (list_broadcast_ops :: (nat list_broadcast, nat) broadcast_ops) []"

lemma demo_consume_run:
  "demo_consume (channel_close demo_queued) ''g'' =
     (demo_queued \<lparr> lc_inner := BlockI [] [(''g'', ([], 1))] \<rparr>, Done (Inr 7))"
  "demo_consume (demo_queued \<lparr> lc_inner := BlockI [] [(''g'', ([], 1))] \<rparr>) ''g'' =
     (demo_queued \<lparr> lc_inner := BlockI [] [(''g'', ([], 1))] \<rparr>, Done (Inl (CClosed ''no active senders'')))"
  by (simp_all add: demo_queued_def consume_def Let_def init_group_def channel_close_def hm_has_def receive_block_def
      list_mpsc_def hm_insert_def)

lemma demo_trace:
  "dispatch_trace demo_consume env ''g'' 1 (dispatch_start (channel_close demo_queued)) demo_events
     \<lparr> di_channel = demo_queued \<lparr> lc_inner := BlockI [] [(''g'', ([], 1))] \<rparr>, di_phase = Draining, di_tasks = [] \<rparr>"
proof -
  let ?c = "channel_close demo_queued" and ?e = "demo_queued \<lparr> lc_inner := BlockI [] [(''g'', ([], 1))] \<rparr>"
  let ?step = "dispatch_step demo_consume env ''g'' 1"
  have 1: "?step (dispatch_start ?c) Internal \<lparr> di_channel = ?c, di_phase = Consuming, di_tasks = [] \<rparr>"
    using d_capacity [of "dispatch_start ?c" 1] by (simp add: dispatch_start_def)
  have 2: "?step \<lparr> di_channel = ?c, di_phase = Consuming, di_tasks = [] \<rparr> (Spawned 7)
      \<lparr> di_channel = ?e, di_phase = Looping, di_tasks = [(7, None)] \<rparr>"
    using d_spawn [of "\<lparr> di_channel = ?c, di_phase = Consuming, di_tasks = [] \<rparr>" demo_consume "''g''" ?e 7 env 1]
    by (simp add: demo_consume_run)
  have 3: "?step \<lparr> di_channel = ?e, di_phase = Looping, di_tasks = [(7, None)] \<rparr> (Handled 7 True)
      \<lparr> di_channel = ?e, di_phase = Looping, di_tasks = [(7, Some True)] \<rparr>"
    using d_handled [of 0 "\<lparr> di_channel = ?e, di_phase = Looping, di_tasks = [(7, None)] \<rparr>" 7] by simp
  have 4: "?step \<lparr> di_channel = ?e, di_phase = Looping, di_tasks = [(7, Some True)] \<rparr> Internal
      \<lparr> di_channel = ?e, di_phase = Consuming, di_tasks = [] \<rparr>"
    using d_join [of "\<lparr> di_channel = ?e, di_phase = Looping, di_tasks = [(7 :: nat, Some True)] \<rparr>" 1 0 7 True]
    by (simp add: without_def)
  have 5: "?step \<lparr> di_channel = ?e, di_phase = Consuming, di_tasks = [] \<rparr> Internal
      \<lparr> di_channel = ?e, di_phase = Draining, di_tasks = [] \<rparr>"
    using d_closed [of "\<lparr> di_channel = ?e, di_phase = Consuming, di_tasks = [] \<rparr>" demo_consume "''g''" ?e "''no active senders''" env 1]
    by (simp add: demo_consume_run del: One_nat_def)
  show ?thesis unfolding demo_events_def
    by (rule dispatch_more [OF dispatch_more [OF dispatch_more [OF dispatch_more [OF dispatch_more [OF
          dispatch_none 1] 2] 3] 4] 5])
qed

lemma dispatcher_handles_once_witness: "prefix (handled demo_events) (spawned demo_events)"
  using dispatcher_handles_once [OF demo_trace [of "\<lambda>_ _. True"]] by simp

subsection \<open>Shutting down\<close>

text \<open>
  What the dispatcher relies on once its channel is closed: the group receives what is queued for
  it and is then told that the channel is closed. The other users of the channel do not change
  that, except that, when the group is \<open>shared\<close>, another dispatcher of it may take the next message;
  \<open>shut c ms\<close> says that \<open>c\<close> is closed for the group with \<open>ms\<close> left.
\<close>

locale closed_source =
  fixes con :: "'c \<Rightarrow> string \<Rightarrow> 'c \<times> (consume_error + 'm) waiting"
    and env :: "'c \<Rightarrow> 'c \<Rightarrow> bool"
    and shared :: bool
    and grp :: string
    and shut :: "'c \<Rightarrow> 'm list \<Rightarrow> bool"
  assumes shut_message: "shut c (m # ms) \<Longrightarrow> \<exists>c'. con c grp = (c', Done (Inr m)) \<and> shut c' ms"
    and shut_empty: "shut c [] \<Longrightarrow> \<exists>c' e. con c grp = (c', Done (Inl (CClosed e))) \<and> shut c' []"
    and shut_env: "shut c ms \<Longrightarrow> env c c' \<Longrightarrow> shut c' ms \<or> shared \<and> (\<exists>m ms'. ms = m # ms' \<and> shut c' ms')"
begin

definition weight :: "'m list \<Rightarrow> ('c, 'm) dispatch \<Rightarrow> nat" where
  "weight ms d = 4 * length ms + length (di_tasks d) + length (running (di_tasks d)) +
     (case di_phase d of Looping \<Rightarrow> 3 | Consuming \<Rightarrow> 2 | Draining \<Rightarrow> 1 | Exited \<Rightarrow> 0)"

definition left :: "'m list \<Rightarrow> ('c, 'm) dispatch \<Rightarrow> 'm dispatch_event list \<Rightarrow> 'm list \<Rightarrow> bool" where
  "left ms d tr ms' \<longleftrightarrow> shut (di_channel d) ms' \<and>
     (\<exists>taken. mset ms = mset (spawned tr) + mset taken + mset ms' \<and> (shared \<or> taken = [])) \<and>
     (di_phase d \<in> {Draining, Exited} \<longrightarrow> Cancelled \<in> set tr \<or> ms' = [])"

lemma step_lighter:
  assumes "dispatch_step con env grp n d e d'" and "left ms d tr ms'"
  shows "\<exists>ms''. left ms d' (tr @ [e]) ms'' \<and> weight ms'' d' + (if e = Elsewhere then 0 else 1) \<le> weight ms' d"
  using assms(1)
proof cases
  case (d_join i m ok)
  then show ?thesis
    using assms(2) length_without [OF d_join(5)]
    by (intro exI [of _ ms']) (auto simp: left_def weight_def running_without)
next
  case (d_drain i m ok)
  then show ?thesis
    using assms(2) length_without [OF d_drain(4)]
    by (intro exI [of _ ms']) (auto simp: left_def weight_def running_without)
next
  case (d_handled i m ok)
  have "length (running (di_tasks d)) = Suc (length (running ((di_tasks d)[i := (m, Some ok)])))"
    using running_handled(1) [OF d_handled(3,4), of ok] by (metis size_add_mset size_mset)
  then show ?thesis
    using assms(2) d_handled by (intro exI [of _ ms']) (auto simp: left_def weight_def)
next
  case (d_spawn c' m)
  then obtain ms'' where "ms' = m # ms''" "shut c' ms''"
    using assms(2) shut_message [of "di_channel d"] shut_empty [of "di_channel d"]
    by (cases ms') (fastforce simp: left_def)+
  then show ?thesis
    using assms(2) d_spawn by (intro exI [of _ ms'']) (auto simp: left_def weight_def)
next
  case (d_timeout c' err)
  then show ?thesis
    using assms(2) shut_message [of "di_channel d"] shut_empty [of "di_channel d"]
    by (cases ms') (fastforce simp: left_def)+
next
  case (d_pending c')
  then show ?thesis
    using assms(2) shut_message [of "di_channel d"] shut_empty [of "di_channel d"]
    by (cases ms') (fastforce simp: left_def)+
next
  case (d_closed c' err)
  then have "ms' = [] \<and> shut c' []"
    using assms(2) shut_message [of "di_channel d"] shut_empty [of "di_channel d"]
    by (cases ms') (fastforce simp: left_def)+
  then show ?thesis
    using assms(2) d_closed by (intro exI [of _ ms']) (auto simp: left_def weight_def)
next
  case (d_cancelled c' r)
  then have "ms' = [] \<and> shut c' []"
    using assms(2) shut_message [of "di_channel d"] shut_empty [of "di_channel d"]
    by (cases ms') (fastforce simp: left_def)+
  then show ?thesis
    using assms(2) d_cancelled by (intro exI [of _ ms']) (auto simp: left_def weight_def)
next
  case (d_elsewhere c')
  from assms(2) have "shut (di_channel d) ms'" by (simp add: left_def)
  from shut_env [OF this d_elsewhere(3)] show ?thesis
  proof
    assume "shut c' ms'"
    then show ?thesis
      using assms(2) d_elsewhere by (intro exI [of _ ms']) (auto simp: left_def weight_def)
  next
    assume "shared \<and> (\<exists>m ms''. ms' = m # ms'' \<and> shut c' ms'')"
    then obtain m ms'' where take: "shared" "ms' = m # ms''" "shut c' ms''" by blast
    obtain taken where "mset ms = mset (spawned tr) + mset taken + mset ms'"
      using assms(2) by (auto simp: left_def)
    then have "mset ms = mset (spawned (tr @ [Elsewhere])) + mset (m # taken) + mset ms''" by (simp add: take(2))
    then have "\<exists>taken. mset ms = mset (spawned (tr @ [e])) + mset taken + mset ms'' \<and> (shared \<or> taken = [])"
      using take(1) d_elsewhere(1) by blast
    moreover have "di_phase d' \<in> {Draining, Exited} \<longrightarrow> Cancelled \<in> set (tr @ [e])"
      using assms(2) take(2) d_elsewhere(2) by (auto simp: left_def)
    ultimately have "left ms d' (tr @ [e]) ms''"
      using take(3) d_elsewhere(2) unfolding left_def by auto
    then show ?thesis using d_elsewhere(1,2) take(2) by (intro exI [of _ ms'']) (simp add: weight_def)
  qed
next
  case d_capacity
  then show ?thesis using assms(2) by (intro exI [of _ ms']) (auto simp: left_def weight_def)
next
  case d_nothing_to_join
  then show ?thesis using assms(2) by (intro exI [of _ ms']) (auto simp: left_def weight_def)
next
  case d_exit
  then show ?thesis using assms(2) by (intro exI [of _ ms']) (auto simp: left_def weight_def)
qed

definition own_steps :: "'m dispatch_event list \<Rightarrow> nat" where
  "own_steps tr = length (filter (\<lambda>e. e \<noteq> Elsewhere) tr)"

lemma trace_lighter:
  assumes "dispatch_trace con env grp n d0 tr d" and "shut (di_channel d0) ms" and "di_phase d0 \<in> {Looping, Consuming}"
  shows "\<exists>ms'. left ms d tr ms' \<and> weight ms' d + own_steps tr \<le> weight ms d0"
  using assms(1)
proof (induction rule: dispatch_trace.induct)
  case dispatch_none
  have "\<exists>taken. mset ms = mset (spawned ([] :: 'm dispatch_event list)) + mset taken + mset ms \<and> (shared \<or> taken = [])"
    by (intro exI [of _ "[]"]) simp
  then show ?case using assms(2,3) by (intro exI [of _ ms]) (auto simp: left_def own_steps_def)
next
  case (dispatch_more tr t e u)
  then obtain ms' where ms': "left ms t tr ms'" "weight ms' t + own_steps tr \<le> weight ms d0" by auto
  from step_lighter [OF dispatch_more.hyps(2) ms'(1)] obtain ms'' where
    "left ms u (tr @ [e]) ms''" "weight ms'' u + (if e = Elsewhere then 0 else 1) \<le> weight ms' t" by blast
  with ms'(2) show ?case by (intro exI [of _ ms'']) (auto simp: own_steps_def split: if_splits)
qed

lemma consuming_steps:
  assumes "shut (di_channel d) ms" and "di_phase d = Consuming"
  shows "\<exists>e d'. dispatch_step con env grp n d e d' \<and> e \<noteq> Elsewhere \<and> e \<noteq> Cancelled"
proof (cases ms)
  case Nil
  with shut_empty assms(1) obtain c' err where "con (di_channel d) grp = (c', Done (Inl (CClosed err)))" by blast
  with d_closed [of d con grp c' err env n] assms(2) show ?thesis by blast
next
  case (Cons m ms')
  with shut_message assms(1) obtain c' where "con (di_channel d) grp = (c', Done (Inr m))" by blast
  with d_spawn [of d con grp c' m env n] assms(2) show ?thesis by blast
qed

lemma not_stuck:
  assumes "shut (di_channel d) ms" and "di_phase d \<noteq> Exited"
  shows "\<exists>e d'. dispatch_step con env grp n d e d' \<and> e \<noteq> Elsewhere \<and> e \<noteq> Cancelled"
proof (cases "di_tasks d")
  case Nil
  show ?thesis
  proof (cases "di_phase d")
    case Looping
    with Nil d_capacity [of d n con env grp] d_nothing_to_join [of d n con env grp] show ?thesis by (cases n) auto
  next
    case Draining
    with Nil d_exit [of d con env grp n] show ?thesis by blast
  qed (use assms consuming_steps in auto)
next
  case (Cons t ts)
  obtain m r where t: "t = (m, r)" by force
  show ?thesis
  proof (cases r)
    case None
    then have "dispatch_step con env grp n d (Handled m True) (d \<lparr> di_tasks := (di_tasks d)[0 := (m, Some True)] \<rparr>)"
      using Cons t by (intro d_handled) auto
    then show ?thesis by blast
  next
    case (Some ok)
    have i: "0 < length (di_tasks d)" "di_tasks d ! 0 = (m, Some ok)" using Cons t Some by auto
    show ?thesis
    proof (cases "di_phase d")
      case Looping
      with i d_join [of d n 0 m ok con env grp] d_capacity [of d n con env grp] show ?thesis
        by (cases "n \<le> length (di_tasks d)") (blast, use not_le in blast)
    next
      case Draining
      with i d_drain [of d 0 m ok con env grp n] show ?thesis by blast
    qed (use assms consuming_steps in auto)
  qed
qed

lemma run_of_closed:
  assumes "dispatch_trace con env grp n d0 tr d" and "shut (di_channel d0) ms" and "di_phase d0 \<in> {Looping, Consuming}"
  shows "length (filter (\<lambda>e. e \<noteq> Elsewhere) tr) \<le> 4 * length ms + 2 * length (di_tasks d0) + 3 \<and>
    (di_phase d \<noteq> Exited \<longrightarrow> (\<exists>e d'. dispatch_step con env grp n d e d' \<and> e \<noteq> Elsewhere \<and> e \<noteq> Cancelled)) \<and>
    (di_phase d = Exited \<and> Cancelled \<notin> set tr \<longrightarrow> shut (di_channel d) [] \<and>
       (\<exists>taken. mset (handled tr) + mset taken = mset (running (di_tasks d0)) + mset ms \<and> (shared \<or> taken = [])))"
proof -
  from trace_lighter [OF assms] obtain ms' where
    ms': "left ms d tr ms'" "weight ms' d + own_steps tr \<le> weight ms d0" by blast
  have "length (running (di_tasks d0)) \<le> length (di_tasks d0)" by (simp add: running_def)
  then have "weight ms d0 \<le> 4 * length ms + 2 * length (di_tasks d0) + 3"
    by (auto simp: weight_def split: phase.splits)
  moreover have "shut (di_channel d) ms'" using ms'(1) by (simp add: left_def)
  with not_stuck [of d ms' n] have "di_phase d \<noteq> Exited \<Longrightarrow> \<exists>e d'. dispatch_step con env grp n d e d' \<and> e \<noteq> Elsewhere \<and> e \<noteq> Cancelled"
    by blast
  moreover have "di_phase d0 \<noteq> Exited" using assms(3) by auto
  then have "shut (di_channel d) [] \<and>
      (\<exists>taken. mset (handled tr) + mset taken = mset (running (di_tasks d0)) + mset ms \<and> (shared \<or> taken = []))"
    if e: "di_phase d = Exited" "Cancelled \<notin> set tr"
  proof -
    have end': "ms' = []" "shut (di_channel d) ms'" using ms'(1) e by (auto simp: left_def)
    obtain taken where t: "mset ms = mset (spawned tr) + mset taken" "shared \<or> taken = []"
      using ms'(1) end'(1) by (auto simp: left_def)
    have "mset (running (di_tasks d0)) + mset (spawned tr) = mset (handled tr)"
      using run_conserves [OF assms(1) \<open>di_phase d0 \<noteq> Exited\<close>] e(1) by simp
    then have "mset (handled tr) + mset taken = mset (running (di_tasks d0)) + mset ms"
      by (simp add: t(1) ac_simps flip: \<open>mset (running (di_tasks d0)) + mset (spawned tr) = mset (handled tr)\<close>)
    with t(2) end' show ?thesis by blast
  qed
  ultimately show ?thesis using ms'(2) by (auto simp: own_steps_def)
qed

end

text \<open>A blocking channel whose group has no sender and the messages \<open>ms\<close> queued.\<close>

definition shut_channel ::
  "('q, 'm) mpsc_ops \<Rightarrow> ('b, 'm) broadcast_ops \<Rightarrow> string \<Rightarrow> ('q, 'b) local_channel \<Rightarrow> 'm list \<Rightarrow> bool" where
  "shut_channel mp bo grp c ms \<longleftrightarrow>
     channel_inv mp bo c \<and> block_channel c \<and> grp \<notin> set (groups c) \<and> backlog mp bo c grp = Some ms"

text \<open>
  What the other users of a channel do: consume in other groups and, when the group is \<open>shared\<close> by a
  second dispatcher (a component with two subscriptions of the channel), in this one; begin and finish
  a publication; create groups; close. A publication that was suspended before the step is not among
  them: it holds senders that it cloned earlier (theory \<open>Channel_Concurrency\<close>), and while it does the
  group is not closed.
\<close>

definition other_use ::
  "('q, 'm) mpsc_ops \<Rightarrow> ('b, 'm) broadcast_ops \<Rightarrow> bool \<Rightarrow> string \<Rightarrow>
   ('q, 'b) local_channel \<Rightarrow> ('q, 'b) local_channel \<Rightarrow> bool" where
  "other_use mp bo shared grp c c' \<longleftrightarrow>
     (\<exists>held g. (g = grp \<longrightarrow> shared) \<and> c' = fst (consume mp bo held c g)) \<or> (\<exists>m. c' = fst (publish mp bo c m)) \<or>
     (\<exists>g. c' = init_group mp bo g c) \<or> c' = channel_close c"

lemma shut_channel_consume:
  assumes "shut_channel mp bo grp c ms"
  shows "\<exists>c'. consume mp bo [] c grp =
      (c', Done (case ms of [] \<Rightarrow> Inl (CClosed ''no active senders'') | m # _ \<Rightarrow> Inr m)) \<and>
    shut_channel mp bo grp c' (tl ms)"
proof -
  obtain senders receivers where inner: "lc_inner c = BlockI senders receivers" "grp \<notin> set senders"
    using assms by (auto simp: shut_channel_def groups_def elim!: block_channelE)
  have inv: "channel_inv mp bo c" "block_channel c" using assms by (simp_all add: shut_channel_def)
  obtain q where q: "hm_get grp receivers = Some q" "mp_items mp q = ms"
    using assms by (auto simp: shut_channel_def backlog_def inner)
  have init: "init_group mp bo grp c = c" using q(1) by (auto simp: init_group_def inner hm_has_iff)
  obtain c' r where con: "consume mp bo [] c grp = (c', r)" by force
  have mps: "mpsc_spec mp" using inv(1) by (simp add: channel_inv_def)
  have r: "r = Done (case ms of [] \<Rightarrow> Inl (CClosed ''no active senders'') | m # _ \<Rightarrow> Inr m)"
    using con mpsc_recv_okD [OF mps, of q] q inner(2)
    by (auto simp: consume_def Let_def init inner(1) receive_block_def split: option.splits list.splits prod.splits)
  have "groups c' = senders" using consume_contract [OF inv(1) con] by (simp add: init groups_def inner(1))
  moreover have "backlog mp bo c' grp = Some (tl ms)"
    using consume_contract [OF inv(1) con] r assms
    by (cases ms) (auto simp: shut_channel_def)
  ultimately have "shut_channel mp bo grp c' (tl ms)"
    using inner(2) consume_contract [OF inv(1) con] block_channel_kept(3) [OF inv(2), of mp bo "[]" grp] con
    by (simp add: shut_channel_def)
  then show ?thesis using con r by blast
qed

lemma init_group_groups:
  assumes "channel_inv mp bo c" and "block_channel c" and "backlog mp bo c grp = Some ms" and "grp \<notin> set (groups c)"
  shows "grp \<notin> set (groups (init_group mp bo g c))"
  using assms(2-4)
  by (auto simp: init_group_def backlog_def groups_def hm_has_iff hs_insert_def elim!: block_channelE
      split: if_splits)

lemma shut_channel_other_use:
  assumes "shut_channel mp bo grp c ms" and "other_use mp bo shared grp c c'"
  shows "shut_channel mp bo grp c' ms \<or> shared \<and> (\<exists>m ms'. ms = m # ms' \<and> shut_channel mp bo grp c' ms')"
proof -
  have inv: "channel_inv mp bo c" "block_channel c" "grp \<notin> set (groups c)" "backlog mp bo c grp = Some ms"
    using assms(1) by (simp_all add: shut_channel_def)
  note ini = init_group_groups [OF inv(1,2,4,3)]
  from assms(2) show ?thesis unfolding other_use_def
  proof (elim disjE exE conjE)
    fix held g assume g: "g = grp \<longrightarrow> shared" "c' = fst (consume mp bo held c g)"
    have con: "consume mp bo held c g = (c', snd (consume mp bo held c g))" by (simp add: g(2))
    have "block_channel c'" using block_channel_kept(3) [OF inv(2), of mp bo held g] by (simp add: g(2))
    note contract = consume_contract [OF inv(1) con] this
    show ?thesis
    proof (cases "g = grp")
      case False
      with contract inv(4) ini [of g] show ?thesis by (simp add: shut_channel_def)
    next
      case True
      have kept: "channel_inv mp bo c'" "block_channel c'" "grp \<notin> set (groups c')"
        using contract ini [of g] by simp_all
      show ?thesis
      proof (cases "\<exists>m. snd (consume mp bo held c g) = Done (Inr m)")
        case True2: True
        then obtain m ms' where "ms = m # ms'" "backlog mp bo c' grp = Some ms'"
          using contract(1) inv(4) True by auto
        with kept g(1) True show ?thesis by (auto simp: shut_channel_def)
      next
        case False
        then have "backlog mp bo c' grp = Some ms"
          using contract(1) inv(4) True by (auto split: waiting.splits sum.splits)
        with kept show ?thesis by (simp add: shut_channel_def)
      qed
    qed
  next
    fix m assume c': "c' = fst (publish mp bo c m)"
    obtain senders receivers where inner: "lc_inner c = BlockI senders receivers" using inv(2) by (rule block_channelE)
    have pub: "publish mp bo c m = (c', snd (publish mp bo c m))" by (simp add: c')
    have senders: "groups c = senders" by (simp add: groups_def inner)
    from publish_block_contract [OF inv(1) inner pub] obtain k where
      "channel_inv mp bo c'" and g: "groups c' = groups c" and "backlog mp bo c' grp =
         map_option (\<lambda>ms. ms @ (if grp \<in> set (take k senders) then [m] else [])) (backlog mp bo c grp)"
      unfolding senders by blast
    moreover have "grp \<notin> set (take k senders)" using inv(3) senders by (auto dest: in_set_takeD)
    ultimately have "channel_inv mp bo c'" "groups c' = groups c" "backlog mp bo c' grp = Some ms"
      using inv(4) by simp_all
    moreover have "block_channel c'"
      using pub inner by (auto simp: publish_def block_channel_def split: if_splits prod.splits)
    ultimately show ?thesis using inv(3) by (simp add: shut_channel_def)
  next
    fix g assume "c' = init_group mp bo g c"
    with init_group_contract [OF inv(1), of g] block_channel_kept(1) [OF inv(2), of mp bo g] ini inv(4) show ?thesis
      by (cases "grp = g") (simp_all add: shut_channel_def)
  next
    assume "c' = channel_close c"
    with channel_close_contract [OF inv(1)] block_channel_kept(2) [OF inv(2)] inv(3,4) show ?thesis
      by (auto simp: shut_channel_def groups_def channel_close_def split: channel_inner.splits)
  qed
qed

interpretation shut_lc: closed_source "consume mp bo []" "other_use mp bo shared grp" shared grp "shut_channel mp bo grp"
  for mp bo shared grp
proof
  fix c m ms assume "shut_channel mp bo grp c (m # ms)"
  from shut_channel_consume [OF this]
  show "\<exists>c'. consume mp bo [] c grp = (c', Done (Inr m)) \<and> shut_channel mp bo grp c' ms" by simp
next
  fix c assume "shut_channel mp bo grp c []"
  from shut_channel_consume [OF this]
  show "\<exists>c' e. consume mp bo [] c grp = (c', Done (Inl (CClosed e))) \<and> shut_channel mp bo grp c' []" by auto
qed (rule shut_channel_other_use)

lemma shut_channel_close:
  assumes "channel_inv mp bo c" and "block_channel c" and "backlog mp bo c grp = Some ms"
  shows "shut_channel mp bo grp (channel_close c) ms"
  using channel_close_contract [OF assms(1)] block_channel_kept(2) [OF assms(2)] assms(2,3)
  by (auto simp: shut_channel_def groups_def channel_close_def elim!: block_channelE)

text \<open>
  Closing its channel ends every dispatcher, wherever it is in its loop, while the other users of
  the channel do as \<open>other_use\<close> says: with \<open>ms\<close> queued for its group it takes at most
  \<open>4 * length ms + 2 * length tasks + 3\<close> steps of its own, is never stuck before \<open>run\<close> returns, and
  when it returns without cancellation nothing is queued for the group any more, and what was in
  flight and in \<open>ms\<close> has been handled, but for what another dispatcher of the group took.
\<close>

theorem dispatcher_drains_and_exits:
  assumes "channel_inv mp bo c" and "block_channel c" and "backlog mp bo c grp = Some ms"
    and "di_channel d0 = channel_close c" and "di_phase d0 \<in> {Looping, Consuming}"
    and "dispatch_trace (consume mp bo []) (other_use mp bo shared grp) grp n d0 tr d"
  shows "length (filter (\<lambda>e. e \<noteq> Elsewhere) tr) \<le> 4 * length ms + 2 * length (di_tasks d0) + 3 \<and>
    (di_phase d \<noteq> Exited \<longrightarrow>
       (\<exists>e d'. dispatch_step (consume mp bo []) (other_use mp bo shared grp) grp n d e d' \<and> e \<noteq> Elsewhere \<and> e \<noteq> Cancelled)) \<and>
    (di_phase d = Exited \<and> Cancelled \<notin> set tr \<longrightarrow> backlog mp bo (di_channel d) grp = Some [] \<and>
       (\<exists>taken. mset (handled tr) + mset taken = mset (running (di_tasks d0)) + mset ms \<and> (shared \<or> taken = [])))"
  using shut_lc.run_of_closed [OF assms(6) _ assms(5)] shut_channel_close [OF assms(1-3)] assms(4) by (simp add: shut_channel_def)

lemma dispatcher_drains_and_exits_witness: "length (filter (\<lambda>e. e \<noteq> Elsewhere) demo_events) \<le> 7"
proof -
  have inv: "channel_inv list_mpsc list_broadcast_ops demo_queued"
  proof -
    have i: "lc_inner demo_queued = BlockI [''g''] [(''g'', ([7], 1))]" by (simp add: demo_queued_def)
    have c: "lc_capacity demo_queued = 1" by code_simp
    show ?thesis unfolding channel_inv_Block [OF i] c
      using list_mpsc_spec list_broadcast_spec by (simp add: queues_ok_def) (simp add: list_mpsc_def)
  qed
  have block: "block_channel demo_queued" and queued: "backlog list_mpsc list_broadcast_ops demo_queued ''g'' = Some [7]"
    by (simp_all add: demo_queued_def block_channel_def backlog_def list_mpsc_def)
  have start: "di_channel (dispatch_start (channel_close demo_queued) :: (_, nat) dispatch) = channel_close demo_queued"
    "di_phase (dispatch_start (channel_close demo_queued) :: (_, nat) dispatch) \<in> {Looping, Consuming}"
    "di_tasks (dispatch_start (channel_close demo_queued) :: (_, nat) dispatch) = []"
    by (simp_all add: dispatch_start_def)
  from dispatcher_drains_and_exits [OF inv block queued start(1,2) demo_trace] start(3) show ?thesis by simp
qed

end
