(* ===== verification/Bus.thy ===== *)
theory Bus
  imports Activator Dispatcher
begin

section \<open>The message bus (\<open>src/messaging/bus.rs\<close>)\<close>

text \<open>
  The control plane: subscriptions, their channels, activators and dispatchers. The bus is
  \<open>GenericBus\<close> at its only instance, \<open>LocalBus\<close>; its registry is the managed registry of the
  messaging state. A spawned dispatcher is recorded by what it was built from; its run is the
  relation \<open>dispatch_step\<close>. \<open>shutdown\<close> is in two parts, the closing of the channels and the wait
  for the dispatchers, which the clock may cut short by cancelling them.
\<close>

record subscription_config =
  sc_channel_name :: string
  sc_component_name :: string
  sc_function_key :: "string option"
  sc_mapping :: mapping_config

record 'i dispatcher =
  dr_channel :: nat
  dr_group :: string
  dr_handler :: "'i activator"
  dr_concurrency :: nat

record 'i bus =
  bus_subscriptions :: "subscription_config list"
  bus_invoker :: "'i option"
  bus_shared_publisher :: "reply_publisher option"
  bus_cancelled :: bool
  bus_dispatchers :: "'i dispatcher list"

definition bus_new :: "'i bus" where
  "bus_new = \<lparr> bus_subscriptions = [], bus_invoker = None, bus_shared_publisher = None, bus_cancelled = False,
     bus_dispatchers = [] \<rparr>"

text \<open>\<open>LocalChannelFactory\<close>.\<close>

definition factory_create :: "('b, message) broadcast_ops \<Rightarrow> string \<Rightarrow> ('q, 'b) local_channel" where
  "factory_create bo name = with_defaults bo"

definition factory_init ::
  "('q, message) mpsc_ops \<Rightarrow> ('b, message) broadcast_ops \<Rightarrow> string \<Rightarrow> ('q, 'b) local_channel \<Rightarrow> ('q, 'b) local_channel" where
  "factory_init mp bo grp c = init_group mp bo grp c"

definition factory_close :: "('q, 'b) local_channel \<Rightarrow> ('q, 'b) local_channel" where
  "factory_close c = channel_close c"

subsection \<open>Operations\<close>

definition bus_publish ::
  "('q, message) mpsc_ops \<Rightarrow> ('b, message) broadcast_ops \<Rightarrow> string \<Rightarrow> message \<Rightarrow> ('q, 'b, 'w) messaging_scheme \<Rightarrow>
   ('q, 'b, 'w) messaging_scheme \<times> (string + unit) waiting" where
  "bus_publish mp bo channel m st =
     (case registry_lookup channel (ms_managed st) of
        None \<Rightarrow> (st, Done (Inl (channel_not_found channel)))
      | Some ref \<Rightarrow>
          (case publish_at mp bo ref m st of
             (st', Waits) \<Rightarrow> (st', Waits)
           | (st', Done r) \<Rightarrow> (st', Done (map_err publish_error_display r))))"

definition add_subscription :: "subscription_config \<Rightarrow> 'i bus \<Rightarrow> 'i bus" where
  "add_subscription sub b = b \<lparr> bus_subscriptions := bus_subscriptions b @ [sub] \<rparr>"

definition set_invoker :: "'i \<Rightarrow> 'i bus \<Rightarrow> 'i bus" where
  "set_invoker i b = b \<lparr> bus_invoker := Some i \<rparr>"

definition set_reply_publisher :: "reply_publisher \<Rightarrow> 'i bus \<Rightarrow> 'i bus" where
  "set_reply_publisher p b = b \<lparr> bus_shared_publisher := Some p \<rparr>"

datatype start_error = InvokerNotSet | ActivatorFailed activator_error

definition bus_reply_publisher :: "'i bus \<Rightarrow> reply_publisher" where
  "bus_reply_publisher b =
     (case bus_shared_publisher b of
        Some shared \<Rightarrow> CompositeReplyPublisher shared (RegistryPublisher Managed)
      | None \<Rightarrow> RegistryPublisher Managed)"

text \<open>The channel of a subscription: looked up, or created and registered.\<close>

definition subscription_channel ::
  "('b, message) broadcast_ops \<Rightarrow> string \<Rightarrow> ('q, 'b, 'w) messaging_scheme \<Rightarrow> nat \<times> ('q, 'b, 'w) messaging_scheme" where
  "subscription_channel bo name st =
     (case registry_lookup name (ms_managed st) of
        Some ref \<Rightarrow> (ref, st)
      | None \<Rightarrow>
          (let (ref, st) = alloc_channel (factory_create bo name) st
           in (ref, st \<lparr> ms_managed := registry_register name ref (ms_managed st) \<rparr>)))"

definition start_subscription ::
  "('q, message) mpsc_ops \<Rightarrow> ('b, message) broadcast_ops \<Rightarrow> ('i, ('q, 'b, 'w) messaging_scheme) invoker_ops \<Rightarrow> 'i \<Rightarrow>
   reply_publisher \<Rightarrow> subscription_config \<Rightarrow> 'i bus \<times> ('q, 'b, 'w) messaging_scheme \<Rightarrow>
   ('i bus \<times> ('q, 'b, 'w) messaging_scheme) \<times> (start_error + unit)" where
  "start_subscription mp bo ops invoker publisher sub s =
     (case s of (b, st) \<Rightarrow>
       (let (ref, st) = subscription_channel bo (sc_channel_name sub) st;
            st = set_channel ref (factory_init mp bo (sc_component_name sub) (channel_at st ref)) st
        in case activator_new ops invoker (sc_component_name sub) (sc_function_key sub) (sc_mapping sub) (Some publisher) of
             Inl e \<Rightarrow> ((b, st), Inl (ActivatorFailed e))
           | Inr act \<Rightarrow>
               ((b \<lparr> bus_dispatchers := bus_dispatchers b @
                    [\<lparr> dr_channel = ref, dr_group = sc_component_name sub, dr_handler = act, dr_concurrency = 1 \<rparr>] \<rparr>,
                 st), Inr ())))"

fun start_subscriptions ::
  "('q, message) mpsc_ops \<Rightarrow> ('b, message) broadcast_ops \<Rightarrow> ('i, ('q, 'b, 'w) messaging_scheme) invoker_ops \<Rightarrow> 'i \<Rightarrow>
   reply_publisher \<Rightarrow> subscription_config list \<Rightarrow> 'i bus \<times> ('q, 'b, 'w) messaging_scheme \<Rightarrow>
   ('i bus \<times> ('q, 'b, 'w) messaging_scheme) \<times> (start_error + unit)" where
  "start_subscriptions mp bo ops invoker publisher [] s = (s, Inr ())"
| "start_subscriptions mp bo ops invoker publisher (sub # subs) s =
     (case start_subscription mp bo ops invoker publisher sub s of
        (s', Inr u) \<Rightarrow> start_subscriptions mp bo ops invoker publisher subs s'
      | (s', Inl e) \<Rightarrow> (s', Inl e))"

definition bus_start ::
  "('q, message) mpsc_ops \<Rightarrow> ('b, message) broadcast_ops \<Rightarrow> ('i, ('q, 'b, 'w) messaging_scheme) invoker_ops \<Rightarrow>
   'i bus \<times> ('q, 'b, 'w) messaging_scheme \<Rightarrow> ('i bus \<times> ('q, 'b, 'w) messaging_scheme) \<times> (start_error + unit)" where
  "bus_start mp bo ops s =
     (case s of (b, st) \<Rightarrow>
        (case bus_invoker b of
           None \<Rightarrow> ((b, st), Inl InvokerNotSet)
         | Some invoker \<Rightarrow>
             start_subscriptions mp bo ops invoker (bus_reply_publisher b) (bus_subscriptions b)
               (b \<lparr> bus_subscriptions := [] \<rparr>, st)))"

definition close_channels :: "nat list \<Rightarrow> ('q, 'b, 'w) messaging_scheme \<Rightarrow> ('q, 'b, 'w) messaging_scheme" where
  "close_channels refs st = fold (\<lambda>ref st. set_channel ref (factory_close (channel_at st ref)) st) refs st"

definition bus_shutdown :: "('q, 'b, 'w) messaging_scheme \<Rightarrow> ('q, 'b, 'w) messaging_scheme" where
  "bus_shutdown st = close_channels (registry_list (ms_managed st)) st"

definition bus_shutdown_wait :: "bool \<Rightarrow> 'i bus \<Rightarrow> 'i bus" where
  "bus_shutdown_wait timed_out b = b \<lparr> bus_dispatchers := [], bus_cancelled := (bus_cancelled b \<or> timed_out) \<rparr>"

subsection \<open>The invariant of the bus\<close>

text \<open>
  Managed channels are blocking and open (every group has its sender), and every dispatcher's
  channel is registered and knows its group.
\<close>

definition open_channel :: "('q, 'b) local_channel \<Rightarrow> bool" where
  "open_channel c =
     (case lc_inner c of BlockI senders receivers \<Rightarrow> set senders = set (hm_keys receivers) | DropOldestI _ _ \<Rightarrow> False)"

definition attended :: "('q, 'b, 'w) messaging_scheme \<Rightarrow> 'i dispatcher \<Rightarrow> bool" where
  "attended st d \<longleftrightarrow>
     dr_channel d \<in> set (map snd (ms_managed st)) \<and> dr_group d \<in> set (groups (channel_at st (dr_channel d)))"

definition bus_inv ::
  "('q, message) mpsc_ops \<Rightarrow> ('b, message) broadcast_ops \<Rightarrow> 'i bus \<times> ('q, 'b, 'w) messaging_scheme \<Rightarrow> bool" where
  "bus_inv mp bo s \<longleftrightarrow>
     messaging_inv mp bo (snd s) \<and>
     (\<forall>ref \<in> set (map snd (ms_managed (snd s))). open_channel (channel_at (snd s) ref)) \<and>
     (\<forall>d \<in> set (bus_dispatchers (fst s)). attended (snd s) d)"

lemma bus_inv_new: "mpsc_spec mp \<Longrightarrow> broadcast_spec bo \<Longrightarrow> bus_inv mp bo (bus_new, messaging_new)"
  using messaging_inv_new [of mp bo] by (simp add: bus_inv_def bus_new_def messaging_new_def)

lemma open_channelE:
  assumes "open_channel c"
  obtains senders receivers where "lc_inner c = BlockI senders receivers" "set senders = set (hm_keys receivers)"
  using assms by (auto simp: open_channel_def split: channel_inner.splits)

lemma open_block: "open_channel c \<Longrightarrow> block_channel c"
  by (auto simp: block_channel_def elim: open_channelE)

lemma open_init_group:
  assumes "open_channel c"
  shows "open_channel (init_group mp bo g c)" and "set (groups (init_group mp bo g c)) = insert g (set (groups c))"
proof -
  obtain senders receivers where inner: "lc_inner c = BlockI senders receivers" "set senders = set (hm_keys receivers)"
    using assms by (rule open_channelE)
  have has: "hm_has g receivers \<longleftrightarrow> g \<in> set senders" using inner(2) by (simp add: hm_has_def)
  show "open_channel (init_group mp bo g c)" "set (groups (init_group mp bo g c)) = insert g (set (groups c))"
    using inner(2) has hm_keys_insert [of g "mp_new mp (lc_capacity c)" receivers]
    by (auto simp: init_group_def inner(1) open_channel_def groups_def hs_insert_def)
qed

lemma with_defaults_ok:
  assumes "mpsc_spec mp" and "broadcast_spec bo"
  shows "channel_inv mp bo (with_defaults bo)" and "open_channel (with_defaults bo)"
proof -
  show "channel_inv mp bo (with_defaults bo)"
    unfolding with_defaults_def by (rule channel_inv_new(1) [OF assms]) (simp add: DEFAULT_CAPACITY_def)
  show "open_channel (with_defaults bo)"
    by (simp add: with_defaults_def channel_new_def open_channel_def)
qed

lemma hm_get_value: "hm_get k m = Some v \<Longrightarrow> v \<in> set (map snd m)"
  by (force dest: map_of_SomeD)

subsection \<open>Starting\<close>

lemma subscription_channel_props:
  assumes "bus_inv mp bo (b, st)" and "subscription_channel bo name st = (ref, st1)"
  shows "bus_inv mp bo (b, st1)" and "hm_get name (ms_managed st1) = Some ref"
    and "hm_get other (ms_managed st) = Some r \<Longrightarrow> hm_get other (ms_managed st1) = Some r"
proof -
  have "bus_inv mp bo (b, st1) \<and> hm_get name (ms_managed st1) = Some ref \<and>
    (hm_get other (ms_managed st) = Some r \<longrightarrow> hm_get other (ms_managed st1) = Some r)"
  proof (cases "hm_get name (ms_managed st)")
    case (Some ref')
    with assms show ?thesis by (simp add: subscription_channel_def registry_lookup_def)
  next
    case None
    let ?n = "length (ms_heap st)"
    have st1: "ref = ?n" "st1 = st \<lparr> ms_heap := ms_heap st @ [with_defaults bo], ms_managed := ms_managed st @ [(name, ?n)] \<rparr>"
      using assms(2) None
      by (auto simp: subscription_channel_def registry_lookup_def alloc_channel_def registry_register_def
          factory_create_def hm_insert_new hm_has_iff)
    have inv: "messaging_inv mp bo st" using assms(1) by (simp add: bus_inv_def)
    then have specs: "mpsc_spec mp" "broadcast_spec bo" by (simp_all add: messaging_inv_def)
    note new = with_defaults_ok [OF specs]
    have old: "channel_at st1 r = channel_at st r" if "r < ?n" for r
      using that by (simp add: st1 channel_at_def nth_append)
    have refs: "r < ?n" if "r \<in> set (map snd (ms_managed st))" for r
      using that inv by (auto simp: messaging_inv_def)
    have "messaging_inv mp bo st1"
      using inv new(1) None
      by (auto simp: messaging_inv_def st1 less_Suc_eq map_of_eq_None_iff)
    moreover have "open_channel (channel_at st1 r)" if "r \<in> set (map snd (ms_managed st1))" for r
    proof (cases "r = ?n")
      case True
      with new(2) show ?thesis by (simp add: st1 channel_at_def)
    next
      case False
      with that have "r \<in> set (map snd (ms_managed st))" by (auto simp: st1)
      with assms(1) old [OF refs] show ?thesis by (auto simp: bus_inv_def)
    qed
    moreover have "attended st1 d" if "attended st d" for d :: "'c dispatcher"
      using that old refs by (auto simp: attended_def st1(2))
    ultimately show ?thesis using assms(1) None by (auto simp: bus_inv_def st1 map_add_Some_iff)
  qed
  then show "bus_inv mp bo (b, st1)" "hm_get name (ms_managed st1) = Some ref"
    "hm_get other (ms_managed st) = Some r \<Longrightarrow> hm_get other (ms_managed st1) = Some r" by blast+
qed

lemma init_subscription_props:
  fixes g :: string
  assumes "bus_inv mp bo (b, st)" and "hm_get name (ms_managed st) = Some ref"
    and st1_def: "st1 = set_channel ref (init_group mp bo g (channel_at st ref)) st"
  shows "bus_inv mp bo (b, st1)" and "g \<in> set (groups (channel_at st1 ref))"
proof -
  have inv: "messaging_inv mp bo st" using assms(1) by (simp add: bus_inv_def)
  have ref: "ref < length (ms_heap st)" "ref \<in> set (map snd (ms_managed st))"
    using messaging_inv_ref [OF inv, where which = Managed and name = name] assms(2) by (auto dest: hm_get_value)
  have opn: "open_channel (channel_at st ref)" using assms(1) ref(2) by (auto simp: bus_inv_def)
  note init = open_init_group [OF opn, of mp bo g]
  have at: "channel_at st1 r = (if r = ref then init_group mp bo g (channel_at st ref) else channel_at st r)" for r
    using ref(1) by (simp add: st1_def)
  have "messaging_inv mp bo st1"
    unfolding st1_def by (rule messaging_inv_set_channel [OF inv init_group_contract(1) [OF messaging_inv_at [OF inv ref(1)]]])
  moreover have "ms_managed st1 = ms_managed st" by (simp add: st1_def)
  ultimately show "bus_inv mp bo (b, st1)" using assms(1) init at by (auto simp: bus_inv_def attended_def)
  show "g \<in> set (groups (channel_at st1 ref))" using init(2) at by simp
qed

text \<open>The subscription has a dispatcher on the channel of its name, in the group of its component.\<close>

definition started :: "subscription_config \<Rightarrow> 'i bus \<times> ('q, 'b, 'w) messaging_scheme \<Rightarrow> bool" where
  "started sub s \<longleftrightarrow>
     (\<exists>d \<in> set (bus_dispatchers (fst s)). dr_group d = sc_component_name sub \<and>
        hm_get (sc_channel_name sub) (ms_managed (snd s)) = Some (dr_channel d))"

definition extends ::
  "'i bus \<times> ('q, 'b, 'w) messaging_scheme \<Rightarrow> 'i bus \<times> ('q, 'b, 'w) messaging_scheme \<Rightarrow> bool" where
  "extends s s' \<longleftrightarrow>
     set (bus_dispatchers (fst s)) \<subseteq> set (bus_dispatchers (fst s')) \<and>
     bus_subscriptions (fst s') = bus_subscriptions (fst s) \<and>
     (\<forall>name ref. hm_get name (ms_managed (snd s)) = Some ref \<longrightarrow> hm_get name (ms_managed (snd s')) = Some ref)"

lemma extends_refl: "extends s s" by (simp add: extends_def)

lemma extends_trans: "extends s t \<Longrightarrow> extends t u \<Longrightarrow> extends s u" by (auto simp: extends_def)

lemma started_extends: "started sub s \<Longrightarrow> extends s s' \<Longrightarrow> started sub s'"
  by (auto simp: started_def extends_def)

lemma start_subscription_props:
  assumes "bus_inv mp bo s" and "start_subscription mp bo ops invoker publisher sub s = (s', res)"
  shows "bus_inv mp bo s' \<and> extends s s' \<and> (res = Inr () \<longrightarrow> started sub s')"
proof -
  obtain b st where s: "s = (b, st)" by force
  obtain ref st1 where ch: "subscription_channel bo (sc_channel_name sub) st = (ref, st1)" by force
  note one = subscription_channel_props [OF assms(1) [unfolded s] ch]
  let ?st2 = "set_channel ref (init_group mp bo (sc_component_name sub) (channel_at st1 ref)) st1"
  note two = init_subscription_props [OF one(1,2) refl, of "sc_component_name sub"]
  have ext: "extends s (b', ?st2)" if "bus_subscriptions b' = bus_subscriptions b"
    "set (bus_dispatchers b) \<subseteq> set (bus_dispatchers b')" for b'
    using one(3) that by (simp add: extends_def s)
  show ?thesis
  proof (cases "activator_new ops invoker (sc_component_name sub) (sc_function_key sub) (sc_mapping sub) (Some publisher)")
    case (Inl e)
    then have "s' = (b, ?st2)" "res = Inl (ActivatorFailed e)"
      using assms(2) by (simp_all add: start_subscription_def s ch Let_def factory_init_def)
    with two(1) ext show ?thesis by simp
  next
    case (Inr act)
    let ?d = "\<lparr> dr_channel = ref, dr_group = sc_component_name sub, dr_handler = act, dr_concurrency = 1 \<rparr>"
    let ?b = "b \<lparr> bus_dispatchers := bus_dispatchers b @ [?d] \<rparr>"
    have s': "s' = (?b, ?st2)"
      using assms(2) Inr by (simp add: start_subscription_def s ch Let_def factory_init_def)
    have "ref \<in> set (map snd (ms_managed st1))" using one(2) by (rule hm_get_value)
    then have "attended ?st2 ?d" using two(2) by (simp add: attended_def)
    with two(1) have "bus_inv mp bo s'" by (simp add: bus_inv_def s')
    moreover have "started sub s'" using one(2) by (simp add: started_def s')
    ultimately show ?thesis using ext [of ?b] by (auto simp: s')
  qed
qed

lemma start_subscriptions_props:
  assumes "bus_inv mp bo s" and "start_subscriptions mp bo ops invoker publisher subs s = (s', res)"
  shows "bus_inv mp bo s' \<and> extends s s' \<and> (res = Inr () \<longrightarrow> (\<forall>sub \<in> set subs. started sub s'))"
  using assms
proof (induction subs arbitrary: s)
  case Nil
  then show ?case by (simp add: extends_refl)
next
  case (Cons sub subs)
  obtain s1 r1 where r1: "start_subscription mp bo ops invoker publisher sub s = (s1, r1)" by (metis surj_pair)
  note one = start_subscription_props [OF Cons.prems(1) r1]
  show ?case
  proof (cases r1)
    case (Inl e)
    with Cons.prems(2) one r1 show ?thesis by auto
  next
    case (Inr u)
    then have "start_subscriptions mp bo ops invoker publisher subs s1 = (s', res)" using Cons.prems(2) r1 by simp
    from Cons.IH [OF conjunct1 [OF one] this] one Inr show ?thesis
      by (auto intro: extends_trans started_extends)
  qed
qed

lemma bus_start_props:
  assumes "bus_inv mp bo (b, st)" and "bus_start mp bo ops (b, st) = (s', res)"
  shows "bus_inv mp bo s' \<and> (bus_invoker b \<noteq> None \<longrightarrow> bus_subscriptions (fst s') = []) \<and>
    (res = Inr () \<longrightarrow> (\<forall>sub \<in> set (bus_subscriptions b). started sub s'))"
proof (cases "bus_invoker b")
  case None
  with assms show ?thesis by (auto simp: bus_start_def)
next
  case (Some invoker)
  have "bus_inv mp bo (b \<lparr> bus_subscriptions := [] \<rparr>, st)" using assms(1) by (simp add: bus_inv_def)
  from start_subscriptions_props [OF this] assms(2) Some show ?thesis
    by (fastforce simp: bus_start_def extends_def)
qed

lemma send_all_not_refused:
  "set gs \<subseteq> set (hm_keys rs) \<Longrightarrow> send_all mp t m rs gs \<noteq> (rs', Done (Inl (PClosed e)))"
proof (induction gs arbitrary: rs)
  case (Cons g gs)
  then obtain q where q: "hm_get g rs = Some q" by (cases "hm_get g rs") (auto simp: map_of_eq_None_iff)
  have "set gs \<subseteq> set (hm_keys (hm_insert g q' rs))" for q' unfolding hm_keys_insert using Cons.prems by auto
  from Cons.IH [OF this] q show ?case by (auto simp: send_to_def split: option.splits)
qed simp

lemma open_errors:
  assumes "\<And>t. e \<noteq> PClosed t"
  shows "publish_error_display e \<noteq> channel_not_found name \<and> publish_error_display e \<noteq> publish_error_display no_receivers"
  using assms by (cases e) (simp_all add: channel_not_found_def no_receivers_def)


subsection \<open>Shutting down\<close>

lemma channel_close_twice: "channel_close (channel_close c) = channel_close c"
  by (auto simp: channel_close_def split: channel_inner.splits)

lemma close_channels_props:
  "(\<forall>ref \<in> set refs. ref < length (ms_heap st)) \<Longrightarrow>
     channel_at (close_channels refs st) r = (if r \<in> set refs then channel_close (channel_at st r) else channel_at st r) \<and>
     ms_managed (close_channels refs st) = ms_managed st \<and> length (ms_heap (close_channels refs st)) = length (ms_heap st)"
proof (induction refs arbitrary: st)
  case (Cons ref refs)
  let ?st = "set_channel ref (factory_close (channel_at st ref)) st"
  have "\<forall>ref \<in> set refs. ref < length (ms_heap ?st)" using Cons.prems by simp
  from Cons.IH [OF this] Cons.prems show ?case
    by (cases "r = ref") (auto simp: close_channels_def factory_close_def channel_close_twice)
qed (simp add: close_channels_def)

lemma bus_shutdown_at:
  assumes "messaging_inv mp bo st" and "ref \<in> set (map snd (ms_managed st))"
  shows "channel_at (bus_shutdown st) ref = channel_close (channel_at st ref)"
    and "ms_managed (bus_shutdown st) = ms_managed st"
proof -
  have "\<forall>ref \<in> set (map snd (ms_managed st)). ref < length (ms_heap st)"
    using assms(1) by (auto simp: messaging_inv_def)
  from close_channels_props [OF this, of ref] assms(2)
  show "channel_at (bus_shutdown st) ref = channel_close (channel_at st ref)" "ms_managed (bus_shutdown st) = ms_managed st"
    by (simp_all add: bus_shutdown_def registry_list_def)
qed

text \<open>
  C22. Shutting the bus down: no subscribed channel accepts a message any more. Assume that no
  publication is suspended at that time (it would still hold senders), and let the other users of the
  channel consume, publish, create groups and close as they like, a second dispatcher of the same group
  included when the group is \<open>shared\<close>. Then every dispatcher of the bus, wherever it is in its loop,
  takes a bounded number of steps and is never stuck before its \<open>run\<close> returns. When it returns without
  having been cancelled, nothing is queued for its group any more, and the task in flight and what was
  queued for the group at the shutdown has been handled: by it alone if the group is not shared, and
  otherwise but for what the other dispatchers of the group took.
\<close>

theorem shutdown_ends_dispatchers:
  assumes "bus_inv mp bo (b, st)" and "d \<in> set (bus_dispatchers b)"
    and "di_channel d0 = channel_at (bus_shutdown st) (dr_channel d)" and "di_phase d0 \<in> {Looping, Consuming}"
    and "dispatch_trace (consume mp bo []) (other_use mp bo shared (dr_group d)) (dr_group d) (dr_concurrency d) d0 tr d1"
  shows "publish mp bo (channel_at (bus_shutdown st) (dr_channel d)) m =
      (channel_at (bus_shutdown st) (dr_channel d), Done (Inl no_receivers)) \<and>
    (\<exists>ms. backlog mp bo (channel_at st (dr_channel d)) (dr_group d) = Some ms \<and>
      length (filter (\<lambda>e. e \<noteq> Elsewhere) tr) \<le> 4 * length ms + 2 * length (di_tasks d0) + 3 \<and>
      (di_phase d1 = Exited \<and> Cancelled \<notin> set tr \<longrightarrow> backlog mp bo (di_channel d1) (dr_group d) = Some [] \<and>
         (\<exists>taken. mset (handled tr) + mset taken = mset (running (di_tasks d0)) + mset ms \<and> (shared \<or> taken = [])))) \<and>
    (di_phase d1 \<noteq> Exited \<longrightarrow>
      (\<exists>e d2. dispatch_step (consume mp bo []) (other_use mp bo shared (dr_group d)) (dr_group d) (dr_concurrency d) d1 e d2 \<and>
         e \<noteq> Elsewhere \<and> e \<noteq> Cancelled))"
proof -
  let ?c = "channel_at st (dr_channel d)"
  have inv: "messaging_inv mp bo st" and att: "attended st d" using assms(1,2) by (auto simp: bus_inv_def)
  then have ref: "dr_channel d \<in> set (map snd (ms_managed st))" by (simp add: attended_def)
  have opn: "open_channel ?c" using assms(1) ref by (auto simp: bus_inv_def)
  obtain senders receivers where inner: "lc_inner ?c = BlockI senders receivers" "set senders = set (hm_keys receivers)"
    using opn by (rule open_channelE)
  have cinv: "channel_inv mp bo ?c" using inv ref messaging_inv_at [OF inv, of "dr_channel d"] by (auto simp: messaging_inv_def)
  have "dr_group d \<in> set (hm_keys receivers)" using att inner by (auto simp: attended_def groups_def)
  then obtain ms where ms: "backlog mp bo ?c (dr_group d) = Some ms"
    by (cases "hm_get (dr_group d) receivers") (auto simp: backlog_def inner(1) map_of_eq_None_iff)
  note at = bus_shutdown_at(1) [OF inv ref]
  have "publish mp bo (channel_close ?c) m = (channel_close ?c, Done (Inl no_receivers))"
    by (simp add: publish_def channel_close_def inner(1))
  moreover have "shut_channel mp bo (dr_group d) (di_channel d0) ms"
    using shut_channel_close [OF cinv open_block [OF opn] ms] by (simp add: assms(3) at)
  from shut_lc.run_of_closed [OF assms(5) this assms(4), unfolded shut_channel_def] ms
  have "\<exists>ms. backlog mp bo ?c (dr_group d) = Some ms \<and>
      length (filter (\<lambda>e. e \<noteq> Elsewhere) tr) \<le> 4 * length ms + 2 * length (di_tasks d0) + 3 \<and>
      (di_phase d1 = Exited \<and> Cancelled \<notin> set tr \<longrightarrow> backlog mp bo (di_channel d1) (dr_group d) = Some [] \<and>
         (\<exists>taken. mset (handled tr) + mset taken = mset (running (di_tasks d0)) + mset ms \<and> (shared \<or> taken = [])))"
    and "di_phase d1 \<noteq> Exited \<longrightarrow>
      (\<exists>e d2. dispatch_step (consume mp bo []) (other_use mp bo shared (dr_group d)) (dr_group d) (dr_concurrency d) d1 e d2 \<and>
         e \<noteq> Elsewhere \<and> e \<noteq> Cancelled)" by blast+
  ultimately show ?thesis unfolding at by blast
qed

subsection \<open>An example\<close>

definition greeter_invoker :: "(unit, (message list \<times> nat, message list_broadcast) messaging) invoker_ops" where
  "greeter_invoker = null_invoker \<lparr> iv_get_component := (\<lambda>i name. if name = ''files'' then Some upload_component else None) \<rparr>"

definition demo_subscription :: subscription_config where
  "demo_subscription = \<lparr> sc_channel_name = ''in'', sc_component_name = ''files'', sc_function_key = None,
     sc_mapping = upload_config \<rparr>"

definition demo_bus :: "unit bus" where
  "demo_bus = add_subscription demo_subscription (set_invoker () bus_new)"

definition demo_started :: "(unit bus \<times> (message list \<times> nat, message list_broadcast) messaging) \<times> (start_error + unit)" where
  "demo_started = bus_start list_mpsc list_broadcast_ops greeter_invoker (demo_bus, messaging_new)"

lemma demo_bus_inv: "bus_inv list_mpsc list_broadcast_ops (demo_bus, messaging_new :: (message list \<times> nat, message list_broadcast) messaging)"
  using bus_inv_new [OF list_mpsc_spec list_broadcast_spec]
  by (simp add: bus_inv_def demo_bus_def add_subscription_def set_invoker_def bus_new_def)

lemma demo_start:
  "bus_start list_mpsc list_broadcast_ops greeter_invoker (demo_bus, messaging_new) =
     ((fst (fst demo_started), snd (fst demo_started)), Inr ())"
proof -
  have "snd demo_started = Inr ()" by code_simp
  then show ?thesis unfolding demo_started_def by (metis prod.collapse)
qed


lemma shutdown_ends_dispatchers_witness:
  "\<exists>d. d \<in> set (bus_dispatchers (fst (fst demo_started))) \<and>
     snd (publish list_mpsc list_broadcast_ops (channel_at (bus_shutdown (snd (fst demo_started))) (dr_channel d)) message_example) =
       Done (Inl no_receivers)"
proof -
  have inv: "bus_inv list_mpsc list_broadcast_ops (fst (fst demo_started), snd (fst demo_started))"
    using bus_start_props [OF demo_bus_inv demo_start] by blast
  have "bus_dispatchers (fst (fst demo_started)) \<noteq> []" by code_simp
  then obtain d where d: "d \<in> set (bus_dispatchers (fst (fst demo_started)))" by (meson last_in_set)
  let ?d0 = "\<lparr> di_channel = channel_at (bus_shutdown (snd (fst demo_started))) (dr_channel d), di_phase = Looping,
    di_tasks = ([] :: message task list) \<rparr>"
  have start: "di_channel ?d0 = channel_at (bus_shutdown (snd (fst demo_started))) (dr_channel d)"
    "di_phase ?d0 \<in> {Looping, Consuming}" by simp_all
  from shutdown_ends_dispatchers [OF inv d start dispatch_none, of message_example] d show ?thesis by auto
qed

end
