(* ===== verification/Messaging_Service.thy ===== *)
theory Messaging_Service
  imports Bus Config_Handlers
begin

section \<open>The messaging service (\<open>src/messaging/service.rs\<close>)\<close>

text \<open>
  The configuration handler of the \<open>[subscription.*]\<close> category, the service that starts the bus from
  the subscriptions read, and the publisher with its request-reply operation. The vector of
  subscriptions shared by the handler and the service is the handler's state; the reply handler is
  the ephemeral registry of the messaging state. Where the trait's error is text, \<open>boxed_error\<close>
  keeps only that the handler failed.
\<close>

datatype subscription_error =
    NotOwned string
  | SubscriptionProblem string property_error
  | ParamEncodingInvalid string spec_error
  | ResultDecodingInvalid string spec_error

record messaging_handler =
  mh_subscriptions :: "subscription_config list"

definition messaging_claimed_categories :: "messaging_handler \<Rightarrow> category_claim list" where
  "messaging_claimed_categories h = [claim_all ''subscription'']"

definition messaging_claimed_properties :: "messaging_handler \<Rightarrow> (string list) hmap" where
  "messaging_claimed_properties h =
     [(''subscription'', [''channel'', ''component'', ''function'', ''param-mapping'', ''param-encoding'',
        ''result-decoding'', ''result-mapping''])]"

definition take_param_mapping :: "property_map \<Rightarrow> property_error + (json hmap) option \<times> property_map" where
  "take_param_mapping properties =
     (case hm_get ''param-mapping'' properties of
        Some (JObject m) \<Rightarrow> Inr (Some (hm_extend [] m), hm_remove ''param-mapping'' properties)
      | Some other \<Rightarrow> Inl (TypeMismatch ''param-mapping'' ''an object'' other)
      | None \<Rightarrow> Inr (None, hm_remove ''param-mapping'' properties))"

definition take_specs ::
  "string \<Rightarrow> (json btmap \<Rightarrow> spec_error + content_type_spec hmap) \<Rightarrow> (spec_error \<Rightarrow> subscription_error) \<Rightarrow> string \<Rightarrow>
   property_map \<Rightarrow> subscription_error + (content_type_spec hmap) option \<times> property_map" where
  "take_specs key parse err name properties =
     (case hm_get key properties of
        Some (JObject m) \<Rightarrow> map_err err (map_ok (\<lambda>specs. (Some specs, hm_remove key properties)) (parse m))
      | Some other \<Rightarrow> Inl (SubscriptionProblem name (TypeMismatch key ''an object'' other))
      | None \<Rightarrow> Inr (None, hm_remove key properties))"

definition parse_subscription :: "string \<Rightarrow> property_map \<Rightarrow> subscription_error + subscription_config" where
  "parse_subscription name properties =
     (let ctx = SubscriptionProblem name in
      attempt (map_err ctx (take_required_string properties ''component'')) (\<lambda>(component_name, properties).
      attempt (map_err ctx (take_optional_string properties ''channel'')) (\<lambda>(channel, properties).
      attempt (map_err ctx (take_optional_string properties ''function'')) (\<lambda>(key, properties).
      attempt (map_err ctx (take_param_mapping properties)) (\<lambda>(param_mapping, properties).
      attempt (take_specs ''param-encoding'' param_encoding_parse (ParamEncodingInvalid name) name properties)
        (\<lambda>(param_encoding, properties).
      let result_mapping = hm_get ''result-mapping'' properties;
          properties = hm_remove ''result-mapping'' properties
      in
      attempt (take_specs ''result-decoding'' result_decoding_parse (ResultDecodingInvalid name) name properties)
        (\<lambda>(result_decoding, properties).
      Inr \<lparr> sc_channel_name = unwrap_or channel name, sc_component_name = component_name, sc_function_key = key,
            sc_mapping = \<lparr> mc_param_mapping = param_mapping, mc_param_encoding = param_encoding,
              mc_result_decoding = result_decoding, mc_result_mapping = result_mapping \<rparr> \<rparr>)))))))"

definition messaging_handle_category ::
  "messaging_handler \<Rightarrow> string \<Rightarrow> string \<Rightarrow> property_map \<Rightarrow> subscription_error + messaging_handler" where
  "messaging_handle_category h category name properties =
     (if category \<noteq> ''subscription'' then Inl (NotOwned category)
      else map_ok (\<lambda>sub. h \<lparr> mh_subscriptions := mh_subscriptions h @ [sub] \<rparr>) (parse_subscription name properties))"

definition boxed_error :: "subscription_error \<Rightarrow> config_error" where
  "boxed_error e = HandlerFailed ''MessagingConfigHandler''"

definition messaging_ops :: "messaging_handler handler_ops" where
  "messaging_ops = default_handler_ops
     \<lparr> ho_claimed_categories := messaging_claimed_categories,
       ho_claimed_properties := messaging_claimed_properties,
       ho_handle_category := (\<lambda>h c n p. map_err boxed_error (messaging_handle_category h c n p)) \<rparr>"

interpretation mess: config_handler messaging_ops
  by unfold_locales
    (auto simp: messaging_ops_def default_handler_ops_def messaging_handle_category_def
      messaging_claimed_categories_def messaging_claimed_properties_def claim_all_def
      map_ok_Inr_iff map_err_Inr_iff split: if_splits)

subsection \<open>The service\<close>

record 'i messaging_service =
  svc_handler :: messaging_handler
  svc_bus :: "'i bus"

definition messaging_service_new :: "'i messaging_service" where
  "messaging_service_new = \<lparr> svc_handler = \<lparr> mh_subscriptions = [] \<rparr>, svc_bus = bus_new \<rparr>"

definition service_set_invoker :: "'i \<Rightarrow> 'i messaging_service \<Rightarrow> 'i messaging_service" where
  "service_set_invoker i svc = svc \<lparr> svc_bus := set_invoker i (svc_bus svc) \<rparr>"

definition service_start ::
  "('q, message) mpsc_ops \<Rightarrow> ('b, message) broadcast_ops \<Rightarrow> ('i, ('q, 'b, 'w) messaging_scheme) invoker_ops \<Rightarrow>
   'i messaging_service \<times> ('q, 'b, 'w) messaging_scheme \<Rightarrow>
   ('i messaging_service \<times> ('q, 'b, 'w) messaging_scheme) \<times> (start_error + unit)" where
  "service_start mp bo ops s =
     (case s of (svc, st) \<Rightarrow>
       (let b = fold add_subscription (mh_subscriptions (svc_handler svc)) (svc_bus svc);
            b = set_reply_publisher (RegistryPublisher Ephemeral) b
        in case bus_start mp bo ops (b, st) of
             ((b, st), res) \<Rightarrow> ((svc \<lparr> svc_handler := \<lparr> mh_subscriptions = [] \<rparr>, svc_bus := b \<rparr>, st), res)))"

definition service_shutdown :: "('q, 'b, 'w) messaging_scheme \<Rightarrow> ('q, 'b, 'w) messaging_scheme" where
  "service_shutdown st = bus_shutdown st"

text \<open>The publisher: \<open>publish\<close> is the bus's; a request that cannot be published drops its address.\<close>

definition publish_request ::
  "('q, message) mpsc_ops \<Rightarrow> ('b, message) broadcast_ops \<Rightarrow> string \<Rightarrow> string \<Rightarrow> 64 word \<Rightarrow> propagation_context option \<Rightarrow>
   string \<Rightarrow> message \<Rightarrow> ('q, 'b, 'w) messaging_scheme \<Rightarrow>
   ('q, 'b, 'w) messaging_scheme \<times> (string + channel_return_address) waiting" where
  "publish_request mp bo reply_id uuid now ambient channel m st =
     (let (ra, st) = return_address mp bo reply_id st;
          req = message_build uuid now ambient
                  (builder_header REPLY_TO (HString (ra_name ra)) (builder_from_message m))
      in case bus_publish mp bo channel req st of
           (st, Waits) \<Rightarrow> (st, Waits)
         | (st, Done (Inl e)) \<Rightarrow> (return_address_drop ra st, Done (Inl e))
         | (st, Done (Inr u)) \<Rightarrow> (st, Done (Inr ra)))"

subsection \<open>Subscriptions\<close>

lemma take_specs_Inr:
  assumes "take_specs key parse err name p = Inr (specs, p')"
  shows "p' = hm_remove key p"
    and "case hm_get key p of None \<Rightarrow> specs = None | Some v \<Rightarrow> \<exists>m r. v = JObject m \<and> parse m = Inr r \<and> specs = Some r"
  using assms by (auto simp: take_specs_def map_ok_Inr_iff map_err_Inr_iff split: option.splits json.splits)

lemma take_param_mapping_Inr:
  assumes "take_param_mapping p = Inr (pm, p')"
  shows "p' = hm_remove ''param-mapping'' p"
    and "case hm_get ''param-mapping'' p of None \<Rightarrow> pm = None | Some v \<Rightarrow> \<exists>m. v = JObject m \<and> pm = Some (hm_extend [] m)"
  using assms by (auto simp: take_param_mapping_def split: option.splits json.splits)

text \<open>
  Reading a subscription: an accepted entry names its component by a string, its channel by a
  string or else by the entry's own name, and its function by a string or not at all; the
  result-mapping is any value, taken as it is; and the entry is appended to the subscriptions.
\<close>

theorem subscription_read:
  assumes "messaging_handle_category h category name p = Inr h'"
  shows "\<exists>sub. category = ''subscription'' \<and> mh_subscriptions h' = mh_subscriptions h @ [sub] \<and>
    hm_get ''component'' p = Some (JString (sc_component_name sub)) \<and>
    hm_get ''channel'' p \<in> {None, Some (JString (sc_channel_name sub))} \<and>
    (hm_get ''channel'' p = None \<longrightarrow> sc_channel_name sub = name) \<and>
    hm_get ''function'' p = map_option JString (sc_function_key sub) \<and>
    mc_result_mapping (sc_mapping sub) = hm_get ''result-mapping'' p \<and>
    (mc_param_encoding (sc_mapping sub) = None \<longleftrightarrow> hm_get ''param-encoding'' p = None) \<and>
    (mc_result_decoding (sc_mapping sub) = None \<longleftrightarrow> hm_get ''result-decoding'' p = None) \<and>
    (mc_param_mapping (sc_mapping sub) = None \<longleftrightarrow> hm_get ''param-mapping'' p = None)"
proof -
  obtain sub where cat: "category = ''subscription''" and h': "h' = h \<lparr> mh_subscriptions := mh_subscriptions h @ [sub] \<rparr>"
    and sub: "parse_subscription name p = Inr sub"
    using assms by (auto simp: messaging_handle_category_def map_ok_Inr_iff split: if_splits)
  obtain cname p1 ch p2 key p3 pm p4 pe p5 rd p6 where
    r: "take_required_string p ''component'' = Inr (cname, p1)" "take_optional_string p1 ''channel'' = Inr (ch, p2)"
    "take_optional_string p2 ''function'' = Inr (key, p3)" "take_param_mapping p3 = Inr (pm, p4)"
    "take_specs ''param-encoding'' param_encoding_parse (ParamEncodingInvalid name) name p4 = Inr (pe, p5)"
    "take_specs ''result-decoding'' result_decoding_parse (ResultDecodingInvalid name) name
       (hm_remove ''result-mapping'' p5) = Inr (rd, p6)"
    and sub': "sub = \<lparr> sc_channel_name = unwrap_or ch name, sc_component_name = cname, sc_function_key = key,
            sc_mapping = \<lparr> mc_param_mapping = pm, mc_param_encoding = pe,
              mc_result_decoding = rd, mc_result_mapping = hm_get ''result-mapping'' p5 \<rparr> \<rparr>"
    using sub by (auto simp: parse_subscription_def Let_def attempt_Inr_iff map_err_Inr_iff)
  have p1: "hm_get ''component'' p = Some (JString cname)" "p1 = hm_remove ''component'' p"
    using r(1) by (auto simp: take_required_string_def split: option.splits json.splits)
  have opt: "hm_get k q = map_option JString v \<and> q' = hm_remove k q"
    if "take_optional_string q k = Inr (v, q')" for q q' k v
    using that by (auto simp: take_optional_string_def split: option.splits json.splits)
  note p4 = take_param_mapping_Inr [OF r(4)] and p5 = take_specs_Inr [OF r(5)] and p6 = take_specs_Inr [OF r(6)]
  have "hm_get ''channel'' p = map_option JString ch" "hm_get ''function'' p = map_option JString key"
    using opt [OF r(2)] opt [OF r(3)] p1(2) by auto
  moreover have "pm = None \<longleftrightarrow> hm_get ''param-mapping'' p = None"
    using p4(2) opt [OF r(2)] opt [OF r(3)] p1(2) by (auto split: option.splits)
  moreover have "pe = None \<longleftrightarrow> hm_get ''param-encoding'' p = None"
    using p5(2) p4(1) opt [OF r(2)] opt [OF r(3)] p1(2) by (auto split: option.splits)
  moreover have "rd = None \<longleftrightarrow> hm_get ''result-decoding'' p = None"
    using p6(2) p5(1) p4(1) opt [OF r(2)] opt [OF r(3)] p1(2) by (auto split: option.splits)
  moreover have "hm_get ''result-mapping'' p5 = hm_get ''result-mapping'' p"
    using p5(1) p4(1) opt [OF r(2)] opt [OF r(3)] p1(2) by auto
  ultimately show ?thesis using cat h' sub' p1(1) by (cases ch) auto
qed

lemma subscription_read_witness:
  "\<exists>h'. messaging_handle_category \<lparr> mh_subscriptions = [] \<rparr> ''subscription'' ''orders''
      [(''component'', JString ''files'')] = Inr h' \<and> length (mh_subscriptions h') = 1"
proof -
  have "is_ok (messaging_handle_category \<lparr> mh_subscriptions = [] \<rparr> ''subscription'' ''orders''
      [(''component'', JString ''files'')])" by code_simp
  then obtain h' where h': "messaging_handle_category \<lparr> mh_subscriptions = [] \<rparr> ''subscription'' ''orders''
      [(''component'', JString ''files'')] = Inr h'" by (auto simp: is_ok_iff)
  from subscription_read [OF this] h' show ?thesis by auto
qed

subsection \<open>Request and reply\<close>

lemma publish_at_other:
  assumes "publish_at mp bo ref m st = (st', r)"
  shows "ms_managed st' = ms_managed st \<and> ms_ephemeral st' = ms_ephemeral st \<and>
    length (ms_heap st') = length (ms_heap st) \<and> (ref' \<noteq> ref \<longrightarrow> channel_at st' ref' = channel_at st ref')"
  using assms by (auto simp: publish_at_def split: prod.splits)

lemma bus_publish_other:
  assumes "bus_publish mp bo channel m st = (st', r)"
    and "\<And>ref. hm_get channel (ms_managed st) = Some ref \<Longrightarrow> ref' \<noteq> ref"
  shows "ms_managed st' = ms_managed st \<and> ms_ephemeral st' = ms_ephemeral st \<and>
    length (ms_heap st') = length (ms_heap st) \<and> channel_at st' ref' = channel_at st ref'"
proof (cases "hm_get channel (ms_managed st)")
  case None
  with assms(1) show ?thesis by (simp add: bus_publish_def registry_lookup_def)
next
  case (Some ref)
  obtain st1 r1 where run: "publish_at mp bo ref m st = (st1, r1)" by (metis surj_pair)
  with assms(1) Some have "st' = st1" by (auto simp: bus_publish_def registry_lookup_def split: waiting.splits)
  with publish_at_other [OF run, of ref'] assms(2) [OF Some] show ?thesis by simp
qed

lemma hm_remove_fresh: "hm_get k m = None \<Longrightarrow> hm_remove k (hm_insert k v m) = m"
  by (induction m) (auto simp: hm_remove_def hm_insert_def split: if_splits)

lemma request_outcome:
  assumes "messaging_inv mp bo st" and "hm_get (''reply-'' @ reply_id) (ms_ephemeral st) = None"
    and "publish_request mp bo reply_id uuid now ambient channel m st = (st', Done res)"
  shows "(\<exists>e. res = Inl e \<and> ms_ephemeral st' = ms_ephemeral st) \<or>
    (\<exists>ra. res = Inr ra \<and> ra_name ra = ''reply-'' @ reply_id \<and> ra_channel ra = length (ms_heap st) \<and> awaiting mp bo ra [] st')"
proof -
  obtain ra st0 where ra: "return_address mp bo reply_id st = (ra, st0)" by (metis surj_pair)
  note props = return_address_props [OF assms(1) ra]
  let ?req = "message_build uuid now ambient (builder_header REPLY_TO (HString (ra_name ra)) (builder_from_message m))"
  obtain st1 r where pub: "bus_publish mp bo channel ?req st0 = (st1, r)" by (metis surj_pair)
  have "ra_channel ra \<noteq> ref" if "hm_get channel (ms_managed st0) = Some ref" for ref
    using messaging_inv_ref [where which = Managed, OF assms(1)] that props(3,5) by fastforce
  from bus_publish_other [OF pub this]
  have st1: "ms_ephemeral st1 = ms_ephemeral st0" "length (ms_heap st1) = length (ms_heap st0)"
    "channel_at st1 (ra_channel ra) = channel_at st0 (ra_channel ra)" by blast+
  have run: "(st', Done res) = (case r of Waits \<Rightarrow> (st1, Waits)
      | Done (Inl e) \<Rightarrow> (return_address_drop ra st1, Done (Inl e)) | Done (Inr u) \<Rightarrow> (st1, Done (Inr ra)))"
    using assms(3) pub by (auto simp: publish_request_def ra Let_def split: waiting.splits sum.splits)
  then consider e where "r = Done (Inl e)" "res = Inl e" "st' = return_address_drop ra st1"
    | "res = Inr ra" "st' = st1" by (auto split: waiting.splits sum.splits)
  then show ?thesis
  proof cases
    case (1 e)
    then have "ms_ephemeral st' = ms_ephemeral st"
      using hm_remove_fresh [OF assms(2)] by (simp add: return_address_drop_def registry_remove_def st1(1) props(2,4))
    with 1 show ?thesis by simp
  next
    case 2
    then have "awaiting mp bo ra [] st'"
      using awaiting_fresh [OF assms(1) ra] st1 by (simp add: awaiting_def)
    with 2 props(2,3) show ?thesis by simp
  qed
qed

lemma accepted_request:
  assumes "messaging_inv mp bo st" and "hm_get (''reply-'' @ reply_id) (ms_ephemeral st) = None"
    and "publish_request mp bo reply_id uuid now ambient channel m st = (st', Done (Inr ra))"
  shows "ra_channel ra = length (ms_heap st) \<and> awaiting mp bo ra [] st'"
  using request_outcome [OF assms] by simp

text \<open>
  Sending a request: with a name that is not in use, a request that is accepted leaves its
  address waiting for a reply; one that is refused leaves no reply channel behind.
\<close>

theorem request_address:
  assumes "messaging_inv mp bo st" and "hm_get (''reply-'' @ reply_id) (ms_ephemeral st) = None"
    and "publish_request mp bo reply_id uuid now ambient channel m st = (st', Done res)"
  shows "(\<exists>e. res = Inl e \<and> ms_ephemeral st' = ms_ephemeral st) \<or>
    (\<exists>ra. res = Inr ra \<and> ra_name ra = ''reply-'' @ reply_id \<and> awaiting mp bo ra [] st')"
  using request_outcome [OF assms] by blast

lemma request_address_witness:
  "\<exists>st'. publish_request list_mpsc list_broadcast_ops ''1'' ''u'' 0 None ''in'' message_example
      (messaging_new :: (message list \<times> nat, message list_broadcast) messaging) =
        (st', Done (Inl (channel_not_found ''in''))) \<and> ms_ephemeral st' = []"
proof -
  let ?st = "messaging_new :: (message list \<times> nat, message list_broadcast) messaging"
  have inv: "messaging_inv list_mpsc list_broadcast_ops ?st" by (rule messaging_inv_new [OF list_mpsc_spec list_broadcast_spec])
  have none: "hm_get (''reply-'' @ ''1'') (ms_ephemeral ?st) = None" by (simp add: messaging_new_def)
  obtain st' res where run: "publish_request list_mpsc list_broadcast_ops ''1'' ''u'' 0 None ''in'' message_example ?st = (st', res)"
    by (metis surj_pair)
  have "snd (publish_request list_mpsc list_broadcast_ops ''1'' ''u'' 0 None ''in'' message_example ?st) =
      Done (Inl (channel_not_found ''in''))" by code_simp
  with run have res: "res = Done (Inl (channel_not_found ''in''))" by simp
  with request_address [OF inv none run [unfolded res]] run show ?thesis by (auto simp: messaging_new_def)
qed

definition service_publisher :: reply_publisher where
  "service_publisher = CompositeReplyPublisher (RegistryPublisher Ephemeral) (RegistryPublisher Managed)"

lemma start_subscriptions_publisher:
  assumes "start_subscriptions mp bo ops invoker publisher subs s = (s', res)"
    and "\<forall>d \<in> set (bus_dispatchers (fst s)). act_reply_publisher (dr_handler d) = Some publisher"
  shows "\<forall>d \<in> set (bus_dispatchers (fst s')). act_reply_publisher (dr_handler d) = Some publisher"
  using assms
proof (induction subs arbitrary: s)
  case (Cons sub subs)
  obtain s1 r1 where r1: "start_subscription mp bo ops invoker publisher sub s = (s1, r1)" by (metis surj_pair)
  then have s1: "\<forall>d \<in> set (bus_dispatchers (fst s1)). act_reply_publisher (dr_handler d) = Some publisher"
    using Cons.prems(2)
    by (auto simp: start_subscription_def Let_def activator_new_def attempt_Inr_iff split: prod.splits sum.splits)
  show ?case
  proof (cases r1)
    case (Inl e)
    with Cons.prems(1) r1 s1 show ?thesis by auto
  next
    case (Inr u)
    with Cons.prems(1) r1 have "start_subscriptions mp bo ops invoker publisher subs s1 = (s', res)" by simp
    from Cons.IH [OF this s1] show ?thesis .
  qed
qed simp

lemma add_subscriptions_dispatchers: "bus_dispatchers (fold add_subscription subs b) = bus_dispatchers b"
  by (induction subs arbitrary: b) (simp_all add: add_subscription_def)

lemma service_start_publisher:
  assumes "service_start mp bo ops (svc, st) = ((svc', st'), res)" and "bus_dispatchers (svc_bus svc) = []"
    and "d \<in> set (bus_dispatchers (svc_bus svc'))"
  shows "act_reply_publisher (dr_handler d) = Some service_publisher"
proof -
  let ?b = "set_reply_publisher (RegistryPublisher Ephemeral)
    (fold add_subscription (mh_subscriptions (svc_handler svc)) (svc_bus svc))"
  have none: "bus_dispatchers ?b = []"
    using assms(2) by (simp add: set_reply_publisher_def add_subscriptions_dispatchers)
  obtain b' where start: "bus_start mp bo ops (?b, st) = ((b', st'), res)" "svc_bus svc' = b'"
    using assms(1) by (auto simp: service_start_def Let_def split: prod.splits)
  have pub: "bus_reply_publisher ?b = service_publisher"
    by (simp add: bus_reply_publisher_def set_reply_publisher_def service_publisher_def)
  show ?thesis
  proof (cases "bus_invoker ?b")
    case None
    with start none assms(3) show ?thesis by (simp add: bus_start_def)
  next
    case (Some i)
    with start(1) have "start_subscriptions mp bo ops i service_publisher (bus_subscriptions ?b)
        (?b \<lparr> bus_subscriptions := [] \<rparr>, st) = ((b', st'), res)" by (simp add: bus_start_def pub)
    from start_subscriptions_publisher [OF this] none assms(3) start(2) show ?thesis by simp
  qed
qed

lemma service_start_inv:
  assumes "bus_inv mp bo (svc_bus svc, st)" and "service_start mp bo ops (svc, st) = ((svc', st'), res)"
  shows "bus_inv mp bo (svc_bus svc', st')"
proof -
  let ?b = "set_reply_publisher (RegistryPublisher Ephemeral)
    (fold add_subscription (mh_subscriptions (svc_handler svc)) (svc_bus svc))"
  have "bus_inv mp bo (?b, st)"
    using assms(1) by (simp add: bus_inv_def set_reply_publisher_def add_subscriptions_dispatchers)
  moreover obtain b' st'' res' where start: "bus_start mp bo ops (?b, st) = ((b', st''), res')" by (metis surj_pair)
  ultimately have "bus_inv mp bo (b', st'')" using bus_start_props by blast
  moreover have "svc_bus svc' = b'" "st' = st''" using assms(2) start by (auto simp: service_start_def Let_def)
  ultimately show ?thesis by simp
qed

lemma handled_request_awaiting:
  assumes "service_start mp bo ops (svc, st) = ((svc', st0), Inr ())" and "bus_dispatchers (svc_bus svc) = []"
    and "d \<in> set (bus_dispatchers (svc_bus svc'))" and "spares_reply ops (act_invoker (dr_handler d)) ra"
    and "messaging_inv mp bo st1" and "hm_get (''reply-'' @ reply_id) (ms_ephemeral st1) = None"
    and "dr_channel d < length (ms_heap st1)"
    and "publish_request mp bo reply_id uuid now ambient channel m st1 = (st2, Done (Inr ra))"
    and "headers_reply_to (msg_headers req) = Some (ra_name ra)"
    and "activator_handle mp bo ops sj pj uuid' now' ambient' (dr_handler d) req (set_channel (dr_channel d) c st2) = (st3, res)"
  shows "(\<exists>e. res = Done (Inl e) \<and> awaiting mp bo ra [] st3) \<or>
    (\<exists>reply. res = Done (Inr ()) \<and> awaiting mp bo ra [reply] st3 \<and>
      (\<forall>key v. echoed req key = Some v \<longrightarrow> hm_get key (mh_map (msg_headers reply)) = Some (HString v)))"
proof -
  have wait: "awaiting mp bo ra [] st2" and "ra_channel ra = length (ms_heap st1)"
    using accepted_request [OF assms(5,6,8)] by simp_all
  with assms(7) have "awaiting mp bo ra [] (set_channel (dr_channel d) c st2)"
    using wait by (simp add: awaiting_def)
  from handled_awaiting [OF this assms(9) _ assms(4,10)] service_start_publisher [OF assms(1-3)]
  show ?thesis by (simp add: service_publisher_def)
qed

text \<open>
  C12. The whole request-reply exchange, across publisher, bus, dispatcher, activator and reply
  handler: when a request is accepted for a channel and a dispatcher of the started service takes it
  from its channel and handles it, the requester's \<open>take\<close> returns a reply echoing the correlation
  id, the content type and the trace headers of the request exactly when the handler succeeded, and
  times out exactly when it failed.
\<close>

theorem request_reply_round_trip:
  assumes "service_start mp bo ops (svc, st) = ((svc', st0), Inr ())" and "bus_dispatchers (svc_bus svc) = []"
    and "d \<in> set (bus_dispatchers (svc_bus svc'))" and "spares_reply ops (act_invoker (dr_handler d)) ra"
    and "messaging_inv mp bo st1" and "hm_get (''reply-'' @ reply_id) (ms_ephemeral st1) = None"
    and "dr_channel d < length (ms_heap st1)"
    and "publish_request mp bo reply_id uuid now ambient channel m st1 = (st2, Done (Inr ra))"
    and "consume mp bo [] (channel_at st2 (dr_channel d)) (dr_group d) = (c, Done (Inr req))"
    and "headers_reply_to (msg_headers req) = Some (ra_name ra)"
    and "activator_handle mp bo ops sj pj uuid' now' ambient' (dr_handler d) req (set_channel (dr_channel d) c st2) = (st3, res)"
  shows "(\<exists>e. res = Done (Inl e) \<and> snd (return_address_take mp bo ra st3) = Done (Inl reply_timed_out)) \<or>
    (\<exists>reply. res = Done (Inr ()) \<and> snd (return_address_take mp bo ra st3) = Done (Inr reply) \<and>
      (\<forall>key v. echoed req key = Some v \<longrightarrow> hm_get key (mh_map (msg_headers reply)) = Some (HString v)))"
  using handled_request_awaiting [OF assms(1-8,10,11)] awaiting_take [of mp bo ra "[]" st3] awaiting_take [of mp bo ra "[_]" st3]
  by auto

text \<open>One exchange with a component that answers null.\<close>

definition demo_service :: "unit messaging_service" where
  "demo_service = service_set_invoker () (messaging_service_new \<lparr> svc_handler := \<lparr> mh_subscriptions = [demo_subscription] \<rparr> \<rparr>)"

definition demo_up :: "(unit messaging_service \<times> (message list \<times> nat, message list_broadcast) messaging) \<times> (start_error + unit)" where
  "demo_up = service_start list_mpsc list_broadcast_ops greeter_invoker (demo_service, messaging_new)"

definition demo_dispatcher :: "unit dispatcher" where
  "demo_dispatcher = hd (bus_dispatchers (svc_bus (fst (fst demo_up))))"

definition demo_message :: message where
  "demo_message = message_build ''u'' 0 None (builder_header CONTENT_TYPE (HString ''text/plain'') (builder_new ''abc''))"

definition demo_sent :: "(message list \<times> nat, message list_broadcast) messaging \<times> (string + channel_return_address) waiting" where
  "demo_sent = publish_request list_mpsc list_broadcast_ops ''1'' ''u'' 0 None ''in'' demo_message (snd (fst demo_up))"

definition demo_taken where
  "demo_taken = consume list_mpsc list_broadcast_ops [] (channel_at (fst demo_sent) (dr_channel demo_dispatcher)) (dr_group demo_dispatcher)"

definition demo_req :: message where
  "demo_req = (case snd demo_taken of Done (Inr m) \<Rightarrow> m | _ \<Rightarrow> message_example)"

definition demo_ra :: channel_return_address where
  "demo_ra = (case snd demo_sent of Done (Inr ra) \<Rightarrow> ra | _ \<Rightarrow> \<lparr> ra_channel = 0, ra_name = [] \<rparr>)"

definition demo_handled where
  "demo_handled = activator_handle list_mpsc list_broadcast_ops greeter_invoker (\<lambda>_. ''null'') (\<lambda>_. None) ''v'' 0 None
     (dr_handler demo_dispatcher) demo_req (set_channel (dr_channel demo_dispatcher) (fst demo_taken) (fst demo_sent))"

lemma demo_exchange:
  "service_start list_mpsc list_broadcast_ops greeter_invoker (demo_service, messaging_new) =
     ((fst (fst demo_up), snd (fst demo_up)), Inr ())"
  "bus_dispatchers (svc_bus demo_service) = []"
  "demo_dispatcher \<in> set (bus_dispatchers (svc_bus (fst (fst demo_up))))"
  "spares_reply greeter_invoker (act_invoker (dr_handler demo_dispatcher)) demo_ra"
  "messaging_inv list_mpsc list_broadcast_ops (snd (fst demo_up))"
  "hm_get (''reply-'' @ ''1'') (ms_ephemeral (snd (fst demo_up))) = None"
  "dr_channel demo_dispatcher < length (ms_heap (snd (fst demo_up)))"
  "publish_request list_mpsc list_broadcast_ops ''1'' ''u'' 0 None ''in'' demo_message (snd (fst demo_up)) =
     (fst demo_sent, Done (Inr demo_ra))"
  "consume list_mpsc list_broadcast_ops [] (channel_at (fst demo_sent) (dr_channel demo_dispatcher)) (dr_group demo_dispatcher) =
     (fst demo_taken, Done (Inr demo_req))"
  "headers_reply_to (msg_headers demo_req) = Some (ra_name demo_ra)"
  "activator_handle list_mpsc list_broadcast_ops greeter_invoker (\<lambda>_. ''null'') (\<lambda>_. None) ''v'' 0 None (dr_handler demo_dispatcher)
     demo_req (set_channel (dr_channel demo_dispatcher) (fst demo_taken) (fst demo_sent)) = (fst demo_handled, Done (Inr ()))"
proof -
  let ?mp = "list_mpsc :: (message list \<times> nat, message) mpsc_ops" and ?bo = "list_broadcast_ops :: (message list_broadcast, message) broadcast_ops"
  have "snd demo_up = Inr ()" by code_simp
  then have up: "service_start ?mp ?bo greeter_invoker (demo_service, messaging_new) =
      ((fst (fst demo_up), snd (fst demo_up)), Inr ())"
    unfolding demo_up_def by (metis prod.collapse)
  have none: "bus_dispatchers (svc_bus demo_service) = []" by code_simp
  have "bus_dispatchers (svc_bus (fst (fst demo_up))) \<noteq> []" by code_simp
  then have d: "demo_dispatcher \<in> set (bus_dispatchers (svc_bus (fst (fst demo_up))))" by (simp add: demo_dispatcher_def)
  have spares: "spares_reply greeter_invoker (act_invoker (dr_handler demo_dispatcher)) demo_ra"
    by (simp add: spares_reply_def greeter_invoker_def null_invoker_def)
  have "bus_inv ?mp ?bo (svc_bus demo_service, messaging_new :: (message list \<times> nat, message list_broadcast) messaging)"
    using messaging_inv_new [OF list_mpsc_spec list_broadcast_spec] none by (simp add: bus_inv_def messaging_new_def)
  from service_start_inv [OF this up] have inv: "messaging_inv ?mp ?bo (snd (fst demo_up))" by (simp add: bus_inv_def)
  have fresh: "hm_get (''reply-'' @ ''1'') (ms_ephemeral (snd (fst demo_up))) = None" by code_simp
  have ref: "dr_channel demo_dispatcher < length (ms_heap (snd (fst demo_up)))" by code_simp
  have "case snd demo_sent of Done (Inr ra) \<Rightarrow> True | _ \<Rightarrow> False" by code_simp
  then have "snd demo_sent = Done (Inr demo_ra)" by (simp add: demo_ra_def split: waiting.splits sum.splits)
  then have sent: "publish_request ?mp ?bo ''1'' ''u'' 0 None ''in'' demo_message (snd (fst demo_up)) =
      (fst demo_sent, Done (Inr demo_ra))"
    unfolding demo_sent_def by (metis prod.collapse)
  have "case snd demo_taken of Done (Inr m) \<Rightarrow> True | _ \<Rightarrow> False" by code_simp
  then have "snd demo_taken = Done (Inr demo_req)" by (simp add: demo_req_def split: waiting.splits sum.splits)
  then have taken: "consume ?mp ?bo [] (channel_at (fst demo_sent) (dr_channel demo_dispatcher)) (dr_group demo_dispatcher) =
      (fst demo_taken, Done (Inr demo_req))"
    unfolding demo_taken_def by (metis prod.collapse)
  have to: "headers_reply_to (msg_headers demo_req) = Some (ra_name demo_ra)" by code_simp
  have ok: "snd demo_handled = Done (Inr ())" by code_simp
  have handled: "activator_handle ?mp ?bo greeter_invoker (\<lambda>_. ''null'') (\<lambda>_. None) ''v'' 0 None (dr_handler demo_dispatcher)
      demo_req (set_channel (dr_channel demo_dispatcher) (fst demo_taken) (fst demo_sent)) = (fst demo_handled, Done (Inr ()))"
    using ok unfolding demo_handled_def by (metis prod.collapse)
  show "service_start list_mpsc list_broadcast_ops greeter_invoker (demo_service, messaging_new) =
     ((fst (fst demo_up), snd (fst demo_up)), Inr ())" by (rule up)
  show "bus_dispatchers (svc_bus demo_service) = []" by (rule none)
  show "demo_dispatcher \<in> set (bus_dispatchers (svc_bus (fst (fst demo_up))))" by (rule d)
  show "spares_reply greeter_invoker (act_invoker (dr_handler demo_dispatcher)) demo_ra" by (rule spares)
  show "messaging_inv list_mpsc list_broadcast_ops (snd (fst demo_up))" by (rule inv)
  show "hm_get (''reply-'' @ ''1'') (ms_ephemeral (snd (fst demo_up))) = None" by (rule fresh)
  show "dr_channel demo_dispatcher < length (ms_heap (snd (fst demo_up)))" by (rule ref)
  show "publish_request list_mpsc list_broadcast_ops ''1'' ''u'' 0 None ''in'' demo_message (snd (fst demo_up)) =
     (fst demo_sent, Done (Inr demo_ra))" by (rule sent)
  show "consume list_mpsc list_broadcast_ops [] (channel_at (fst demo_sent) (dr_channel demo_dispatcher)) (dr_group demo_dispatcher) =
     (fst demo_taken, Done (Inr demo_req))" by (rule taken)
  show "headers_reply_to (msg_headers demo_req) = Some (ra_name demo_ra)" by (rule to)
  show "activator_handle list_mpsc list_broadcast_ops greeter_invoker (\<lambda>_. ''null'') (\<lambda>_. None) ''v'' 0 None (dr_handler demo_dispatcher)
     demo_req (set_channel (dr_channel demo_dispatcher) (fst demo_taken) (fst demo_sent)) = (fst demo_handled, Done (Inr ()))" by (rule handled)
qed

lemma request_reply_round_trip_witness:
  "\<exists>reply. snd (return_address_take list_mpsc list_broadcast_ops demo_ra (fst demo_handled)) = Done (Inr reply)"
  using request_reply_round_trip [OF demo_exchange] by auto

end
