(* ===== verification/Http_Routes.thy ===== *)
theory Http_Routes
  imports Message Paths
begin

section \<open>Routes of the HTTP server (\<open>crates/http-server/src/config.rs\<close>)\<close>

text \<open>
  The data of a parsed route, the grammar of query-parameter entries, path placeholders and
  captures, and the test that tells whether two routes can match the same request.
\<close>

subsection \<open>Data\<close>

datatype content_type = JsonBody | TextPlain

fun content_type_as_str :: "content_type \<Rightarrow> string" where
  "content_type_as_str JsonBody = ''application/json''"
| "content_type_as_str TextPlain = ''text/plain''"

definition content_type_parse :: "string \<Rightarrow> content_type option" where
  "content_type_parse s =
     (if s = ''application/json'' then Some JsonBody else if s = ''text/plain'' then Some TextPlain else None)"

datatype route_target =
    ComponentTarget string string mapping_config
  | ChannelTarget string "64 word option"

datatype query_param_kind =
    RequiredParam "string option" bool
  | OptionalParam "string option" bool
  | ForbiddenParam

record query_param_spec =
  qp_name :: string
  qp_kind :: query_param_kind

record route_config =
  rc_name :: string
  rc_method :: string
  rc_path :: string
  rc_query_params :: "query_param_spec list"
  rc_content_type :: "content_type option"
  rc_target :: route_target
  rc_propagate_request_headers :: "propagated_header list"
  rc_propagate_response_headers :: "propagated_header list"
  rc_response_schema :: "json option"

record server_config =
  sv_name :: string
  sv_port :: "16 word"
  sv_routes :: "route_config list"
  sv_otlp_endpoint :: "string option"
  sv_otlp_protocol :: string

subsection \<open>Query parameters\<close>

datatype query_error =
    EmptyQueryEntry
  | ForbiddenWithValue string
  | AfterQuestionMark string
  | NoEffect string
  | EmptyQueryName string
  | BadQueryName string

definition validate_name :: "string \<Rightarrow> string \<Rightarrow> query_error + string" where
  "validate_name name entry =
     (if name = [] then Inl (EmptyQueryName entry)
      else if list_ex (\<lambda>c. c \<in> set ''?=!~'') name then Inl (BadQueryName entry)
      else Inr name)"

text \<open>The text before an optional \<open>?\<close> joined with what follows it, and whether there was one.\<close>

definition split_optional :: "bool \<Rightarrow> string \<Rightarrow> string \<Rightarrow> query_error + string \<times> bool" where
  "split_optional capture entry rest =
     (case split_once rest ''?'' of
        None \<Rightarrow> Inr (rest, False)
      | Some (head, after_q) \<Rightarrow>
          if after_q \<noteq> [] \<and> \<not> starts_with after_q ''='' then Inl (AfterQuestionMark entry)
          else if \<not> capture \<and> after_q = [] then Inl (NoEffect entry)
          else Inr (head @ after_q, True))"

definition parse_query_param_spec :: "string \<Rightarrow> query_error + query_param_spec" where
  "parse_query_param_spec raw =
     (let entry = str_trim raw in
      if entry = [] then Inl EmptyQueryEntry
      else
        (let (forbidden, capture, rest) =
               (case strip_prefix entry ''!'' of
                  Some r \<Rightarrow> (True, False, r)
                | None \<Rightarrow>
                    (case strip_prefix entry ''~'' of
                       Some r \<Rightarrow> (False, False, r)
                     | None \<Rightarrow> (False, True, entry)))
         in
         if forbidden then
           (if has_char rest CHR ''='' \<or> has_char rest CHR ''?'' then Inl (ForbiddenWithValue entry)
            else map_ok (\<lambda>name. \<lparr> qp_name = name, qp_kind = ForbiddenParam \<rparr>) (validate_name rest entry))
         else
           attempt (split_optional capture entry rest) (\<lambda>(name_and_value, optional).
             (let (name, v) =
                    (case split_once name_and_value ''='' of
                       Some (n, v) \<Rightarrow> (n, Some v)
                     | None \<Rightarrow> (name_and_value, None))
              in map_ok (\<lambda>name. \<lparr> qp_name = name,
                           qp_kind = (if optional then OptionalParam v capture else RequiredParam v capture) \<rparr>)
                   (validate_name name entry)))))"

fun captures_param :: "query_param_kind \<Rightarrow> bool" where
  "captures_param (RequiredParam v capture) = capture"
| "captures_param (OptionalParam v capture) = capture"
| "captures_param ForbiddenParam = False"

fun kinds_are_exclusive :: "query_param_kind \<Rightarrow> query_param_kind \<Rightarrow> bool" where
  "kinds_are_exclusive ForbiddenParam (RequiredParam v c) = True"
| "kinds_are_exclusive (RequiredParam v c) ForbiddenParam = True"
| "kinds_are_exclusive (RequiredParam (Some va) c) (RequiredParam (Some vb) d) = (va \<noteq> vb)"
| "kinds_are_exclusive _ _ = False"

text \<open>The specs of the first route collected into a map, where a later spec of a name wins.\<close>

definition spec_map :: "query_param_spec list \<Rightarrow> query_param_kind hmap" where
  "spec_map a = hm_extend [] (map (\<lambda>s. (qp_name s, qp_kind s)) a)"

definition query_specs_disjoint :: "query_param_spec list \<Rightarrow> query_param_spec list \<Rightarrow> bool" where
  "query_specs_disjoint a b =
     list_ex (\<lambda>s. is_some_and (hm_get (qp_name s) (spec_map a)) (\<lambda>kind. kinds_are_exclusive kind (qp_kind s))) b"

subsection \<open>Paths\<close>

definition split_path :: "string \<Rightarrow> string list" where
  "split_path path = filter (\<lambda>s. s \<noteq> []) (str_split path CHR ''/'')"

definition is_placeholder :: "string \<Rightarrow> bool" where
  "is_placeholder segment = (starts_with segment ''{'' \<and> ends_with segment ''}'')"

text \<open>\<open>&segment[1..segment.len() - 1]\<close>.\<close>

definition placeholder_inner :: "string \<Rightarrow> string" where
  "placeholder_inner segment = butlast (tl segment)"

datatype capture_error = InvalidPlaceholder string | DuplicateCapture string | CaptureCollision string

definition capture_segment :: "string list \<Rightarrow> string \<Rightarrow> capture_error + string list" where
  "capture_segment path_captures segment =
     (if is_placeholder segment then
        (let inner = placeholder_inner segment in
         if has_char inner CHR ''{'' \<or> has_char inner CHR ''}'' then Inl (InvalidPlaceholder segment)
         else if inner = [] then Inr path_captures
         else if inner \<in> set path_captures then Inl (DuplicateCapture inner)
         else Inr (hs_insert inner path_captures))
      else Inr path_captures)"

definition validate_route_captures :: "string \<Rightarrow> query_param_spec list \<Rightarrow> capture_error + unit" where
  "validate_route_captures path query_params =
     attempt (fold_res capture_segment [] (split_path path)) (\<lambda>path_captures.
       fold_res (\<lambda>_ spec.
         if captures_param (qp_kind spec) \<and> qp_name spec \<in> set path_captures then Inl (CaptureCollision (qp_name spec))
         else Inr ()) () query_params)"

definition method_accepts_body :: "string \<Rightarrow> bool" where
  "method_accepts_body method = (method \<notin> {''GET'', ''HEAD'', ''OPTIONS'', ''TRACE''})"

definition route_has_captures :: "string \<Rightarrow> query_param_spec list \<Rightarrow> bool" where
  "route_has_captures path query_params =
     (list_ex (\<lambda>segment. is_placeholder segment \<and> placeholder_inner segment \<noteq> []) (split_path path) \<or>
      list_ex (\<lambda>spec. captures_param (qp_kind spec)) query_params)"

definition path_structure :: "string \<Rightarrow> string list" where
  "path_structure path = map (\<lambda>s. if is_placeholder s then ''{}'' else s) (split_path path)"

subsection \<open>Conflicts\<close>

definition routes_conflict :: "route_config \<Rightarrow> route_config \<Rightarrow> bool" where
  "routes_conflict a b \<longleftrightarrow>
     rc_method a = rc_method b \<and> path_structure (rc_path a) = path_structure (rc_path b) \<and>
     rc_content_type a = rc_content_type b \<and> \<not> query_specs_disjoint (rc_query_params a) (rc_query_params b)"

text \<open>The first conflicting pair, in the order of the two nested loops.\<close>

fun find_conflict :: "route_config list \<Rightarrow> (route_config \<times> route_config) option" where
  "find_conflict [] = None"
| "find_conflict (r # rs) =
     (case find_first (routes_conflict r) rs of
        Some r' \<Rightarrow> Some (r, r')
      | None \<Rightarrow> find_conflict rs)"

lemma find_conflict_None_iff: "find_conflict rs = None \<longleftrightarrow> sorted_wrt (\<lambda>a b. \<not> routes_conflict a b) rs"
  by (induction rs) (auto simp: find_first_None_iff split: option.splits dest: find_first_Some)

subsection \<open>The grammar of query parameters\<close>

text \<open>The entry that denotes a specification.\<close>

fun show_query_kind :: "string \<Rightarrow> query_param_kind \<Rightarrow> string" where
  "show_query_kind name (RequiredParam v capture) =
     (if capture then [] else ''~'') @ name @ (case v of None \<Rightarrow> [] | Some w \<Rightarrow> ''='' @ w)"
| "show_query_kind name (OptionalParam v capture) =
     (if capture then [] else ''~'') @ name @ ''?'' @ (case v of None \<Rightarrow> [] | Some w \<Rightarrow> ''='' @ w)"
| "show_query_kind name ForbiddenParam = ''!'' @ name"

text \<open>
  Names have no special character and no blank in them; values have no question mark, which the
  parser would take for the mark of an optional parameter, and no blank; and the one specification
  the grammar excludes is the optional one that neither captures nor constrains.
\<close>

definition query_text :: "string \<Rightarrow> bool" where
  "query_text s \<longleftrightarrow> list_all (\<lambda>c. \<not> ws_byte c \<and> c \<noteq> CHR ''?'') s"

definition query_spec_ok :: "query_param_spec \<Rightarrow> bool" where
  "query_spec_ok s \<longleftrightarrow>
     qp_name s \<noteq> [] \<and> list_all (\<lambda>c. \<not> ws_byte c \<and> c \<notin> set ''?=!~'') (qp_name s) \<and>
     (case qp_kind s of
        RequiredParam v c \<Rightarrow> is_none_or v query_text
      | OptionalParam v c \<Rightarrow> is_none_or v query_text \<and> (c \<or> v \<noteq> None)
      | ForbiddenParam \<Rightarrow> True)"

lemma special_not_blank: "c \<in> set ''?=!~'' \<Longrightarrow> \<not> ws_byte c"
proof -
  have "list_all (\<lambda>c. \<not> ws_byte c) ''?=!~''" by code_simp
  then show "c \<in> set ''?=!~'' \<Longrightarrow> \<not> ws_byte c" by (simp only: list_all_iff) blast
qed

lemma split_optional_plain: "CHR ''?'' \<notin> set rest \<Longrightarrow> split_optional capture entry rest = Inr (rest, False)"
  by (simp add: split_optional_def split_once_None_iff [THEN iffD2])

lemma split_optional_mark:
  assumes "CHR ''?'' \<notin> set name" and "v = None \<Longrightarrow> capture"
  shows "split_optional capture entry (name @ CHR ''?'' # (case v of None \<Rightarrow> [] | Some w \<Rightarrow> CHR ''='' # w)) =
    Inr (name @ (case v of None \<Rightarrow> [] | Some w \<Rightarrow> CHR ''='' # w), True)"
  using assms by (cases v) (simp_all add: split_optional_def)

lemma split_value:
  assumes "CHR ''='' \<notin> set name"
  shows "split_once (name @ (case v of None \<Rightarrow> [] | Some w \<Rightarrow> CHR ''='' # w)) ''='' =
    (case v of None \<Rightarrow> None | Some w \<Rightarrow> Some (name, w))"
  using assms by (cases v) (simp_all add: split_once_None_iff [THEN iffD2])

lemma query_text_not_blank: "query_text w \<Longrightarrow> x \<in> set w \<Longrightarrow> \<not> ws_byte x"
  by (simp add: query_text_def list_all_iff)

lemma query_text_no_mark: "query_text w \<Longrightarrow> CHR ''?'' \<notin> set w"
  by (auto simp: query_text_def list_all_iff)

lemma shown_not_blank:
  assumes "query_spec_ok s" and "x \<in> set (show_query_kind (qp_name s) (qp_kind s))"
  shows "\<not> ws_byte x"
proof -
  have n: "x \<in> set (qp_name s) \<Longrightarrow> \<not> ws_byte x" using assms(1) by (simp add: query_spec_ok_def list_all_iff)
  have special: "x \<in> {CHR ''?'', CHR ''='', CHR ''!'', CHR ''~''} \<Longrightarrow> \<not> ws_byte x"
    by (rule special_not_blank) simp
  have "x \<in> set (qp_name s) \<or> x \<in> {CHR ''?'', CHR ''='', CHR ''!'', CHR ''~''} \<or>
      (\<exists>w. query_text w \<and> x \<in> set w)"
  proof (cases "qp_kind s")
    case (RequiredParam v c)
    then show ?thesis using assms by (cases v; cases c) (simp_all add: query_spec_ok_def, blast+)
  next
    case (OptionalParam v c)
    then show ?thesis using assms by (cases v; cases c) (simp_all add: query_spec_ok_def, blast+)
  next
    case ForbiddenParam
    then show ?thesis using assms by auto
  qed
  with n query_text_not_blank special show ?thesis by blast
qed

lemma parse_query_valued:
  assumes "str_trim e = e" and "e = (if capture then [] else ''~'') @ rest" and "rest = c # cs"
    and "c \<noteq> CHR ''!''" and "c \<noteq> CHR ''~''"
    and "split_optional capture e rest = Inr (name @ (case v of None \<Rightarrow> [] | Some w \<Rightarrow> CHR ''='' # w), optional)"
    and "CHR ''='' \<notin> set name" and "validate_name name e = Inr name"
  shows "parse_query_param_spec e =
    Inr \<lparr> qp_name = name, qp_kind = (if optional then OptionalParam v capture else RequiredParam v capture) \<rparr>"
proof -
  have "e \<noteq> []" using assms(2,3) by simp
  moreover have "(case strip_prefix e ''!'' of Some r \<Rightarrow> (True, False, r)
      | None \<Rightarrow> (case strip_prefix e ''~'' of Some r \<Rightarrow> (False, False, r) | None \<Rightarrow> (False, True, e))) = (False, capture, rest)"
    using assms(2-5) by (simp add: strip_prefix_def)
  moreover note split_value [OF assms(7), of v]
  ultimately show ?thesis
    using assms(1,6,8) by (cases v) (simp_all add: parse_query_param_spec_def)
qed

lemma parse_query_forbidden:
  assumes "str_trim e = e" and "e = CHR ''!'' # name" and "CHR ''='' \<notin> set name" and "CHR ''?'' \<notin> set name"
    and "validate_name name e = Inr name"
  shows "parse_query_param_spec e = Inr \<lparr> qp_name = name, qp_kind = ForbiddenParam \<rparr>"
proof -
  have "e \<noteq> []" "strip_prefix e ''!'' = Some name" using assms(2) by (simp_all add: strip_prefix_def)
  then show ?thesis using assms(1,3-5) by (simp add: parse_query_param_spec_def has_char_def)
qed

text \<open>
  The grammar of query-parameter entries: every specification it can express is read back
  from the entry that spells it out, in all its eight forms.
\<close>

theorem query_param_roundtrip:
  assumes "query_spec_ok s"
  shows "parse_query_param_spec (show_query_kind (qp_name s) (qp_kind s)) = Inr s"
proof -
  let ?n = "qp_name s" and ?e = "show_query_kind (qp_name s) (qp_kind s)"
  have n: "?n \<noteq> []" "\<And>c. c \<in> set ?n \<Longrightarrow> \<not> ws_byte c \<and> c \<notin> set ''?=!~''"
    using assms by (auto simp: query_spec_ok_def list_all_iff)
  have valid: "validate_name ?n entry = Inr ?n" for entry
    using n by (auto simp: validate_name_def list_ex_iff)
  obtain c cs where c: "?n = c # cs" "c \<noteq> CHR ''!''" "c \<noteq> CHR ''~''" using n by (cases ?n) auto
  have mem: "CHR ''?'' \<notin> set ?n" "CHR ''='' \<notin> set ?n" using n(2) by auto
  have trim: "str_trim ?e = ?e" by (rule str_trim_id [OF shown_not_blank [OF assms]])
  have start: "?n @ r = c # cs @ r" for r by (simp add: c(1))
  show ?thesis
  proof (cases "qp_kind s")
    case (RequiredParam v capture)
    have "is_none_or v query_text" using assms by (simp add: query_spec_ok_def RequiredParam)
    with mem(1) have "CHR ''?'' \<notin> set (?n @ (case v of None \<Rightarrow> [] | Some w \<Rightarrow> CHR ''='' # w))"
      by (cases v) (simp_all add: query_text_no_mark)
    note opt = split_optional_plain [OF this]
    have "?e = (if capture then [] else ''~'') @ ?n @ (case v of None \<Rightarrow> [] | Some w \<Rightarrow> CHR ''='' # w)"
      by (cases v) (simp_all add: RequiredParam)
    from parse_query_valued [OF trim this start c(2,3) opt mem(2) valid] RequiredParam show ?thesis by simp
  next
    case (OptionalParam v capture)
    have "v = None \<Longrightarrow> capture" using assms by (simp add: query_spec_ok_def OptionalParam)
    note opt = split_optional_mark [OF mem(1) this]
    have "?e = (if capture then [] else ''~'') @ ?n @ CHR ''?'' # (case v of None \<Rightarrow> [] | Some w \<Rightarrow> CHR ''='' # w)"
      by (cases v) (simp_all add: OptionalParam)
    from parse_query_valued [OF trim this start c(2,3) opt mem(2) valid] OptionalParam show ?thesis by simp
  next
    case ForbiddenParam
    then have "?e = CHR ''!'' # ?n" by simp
    from parse_query_forbidden [OF trim this mem(2,1) valid] ForbiddenParam show ?thesis by simp
  qed
qed

lemma query_param_roundtrip_witness:
  "parse_query_param_spec ''~lang?=en'' = Inr \<lparr> qp_name = ''lang'', qp_kind = OptionalParam (Some ''en'') False \<rparr>"
proof -
  have "query_spec_ok \<lparr> qp_name = ''lang'', qp_kind = OptionalParam (Some ''en'') False \<rparr>" by code_simp
  from query_param_roundtrip [OF this] show ?thesis by simp
qed

end
