(* ===== verification/Http_Config.thy ===== *)
theory Http_Config
  imports Http_Routes Config_Handlers
begin

section \<open>Configuration of the HTTP server (\<open>crates/http-server/src/config.rs\<close>)\<close>

text \<open>
  The handler of \<open>[server.*]\<close> entries of type \<open>http\<close>: the server's own fields, its routes field by
  field in the order the code checks them, and the search for conflicting routes. Errors are
  constructors in place of the texts. The parameter \<open>hn\<close> tells
  whether hyper accepts a string as a header name. \<open>to_uppercase\<close> is written out for ASCII
  letters, the only ones a method that hyper accepts can have.
\<close>

subsection \<open>Errors\<close>

datatype route_problem =
    NotATable json
  | FieldMissing string
  | FieldNotString string json
  | FieldNotNumber string json
  | TimeoutNotInteger
  | FieldNotObject string json
  | EncodingRejected string spec_error
  | FieldNotStringArray string json
  | EntryNotString string json
  | PropagateEntry string string propagate_error
  | InvalidHeaderName string string string
  | HeaderOverridden propagated_header
  | QueryEntry query_error
  | ContentTypeWithoutBody string
  | UnsupportedContentType string
  | TextPlainParamMapping
  | TextPlainParamEncoding
  | TextPlainCaptures
  | ComponentAndChannel
  | MappingOnChannelRoute
  | TimeoutOnComponentRoute
  | CaptureProblem capture_error

datatype server_error =
    UnexpectedServerCategory string
  | PortNotValid string
  | PortNotNumber string json
  | PortMissing string
  | ServerFieldNotString string string json
  | RoutesNotTable string json
  | RouteProblem string string route_problem
  | RoutesConflict string route_config route_config
  | UnknownServerProperties string "string list"

subsection \<open>Fields of a route\<close>

definition get_optional_string :: "json btmap \<Rightarrow> string \<Rightarrow> route_problem + string option" where
  "get_optional_string props key =
     (case hm_get key props of
        Some (JString s) \<Rightarrow> Inr (Some s)
      | Some got \<Rightarrow> Inl (FieldNotString key got)
      | None \<Rightarrow> Inr None)"

definition get_required_string :: "json btmap \<Rightarrow> string \<Rightarrow> route_problem + string" where
  "get_required_string props key =
     (case hm_get key props of
        Some (JString s) \<Rightarrow> Inr s
      | Some got \<Rightarrow> Inl (FieldNotString key got)
      | None \<Rightarrow> Inl (FieldMissing key))"

definition get_reply_timeout :: "json btmap \<Rightarrow> route_problem + (64 word) option" where
  "get_reply_timeout props =
     (case hm_get ''reply-timeout-ms'' props of
        Some (JNumber n) \<Rightarrow> map_ok Some (ok_or TimeoutNotInteger (as_u64 (JNumber n)))
      | Some got \<Rightarrow> Inl (FieldNotNumber ''reply-timeout-ms'' got)
      | None \<Rightarrow> Inr None)"

definition get_param_mapping :: "json btmap \<Rightarrow> route_problem + (json hmap) option" where
  "get_param_mapping props =
     (case hm_get ''param-mapping'' props of
        Some (JObject m) \<Rightarrow> Inr (Some (hm_extend [] m))
      | Some got \<Rightarrow> Inl (FieldNotObject ''param-mapping'' got)
      | None \<Rightarrow> Inr None)"

definition get_specs ::
  "json btmap \<Rightarrow> string \<Rightarrow> (json btmap \<Rightarrow> spec_error + content_type_spec hmap) \<Rightarrow>
   route_problem + (content_type_spec hmap) option" where
  "get_specs props key parse =
     (case hm_get key props of
        Some (JObject m) \<Rightarrow> map_err (EncodingRejected key) (map_ok Some (parse m))
      | Some got \<Rightarrow> Inl (FieldNotObject key got)
      | None \<Rightarrow> Inr None)"

definition get_response_schema :: "json btmap \<Rightarrow> route_problem + json option" where
  "get_response_schema props =
     (case hm_get ''response-schema'' props of
        Some (JObject m) \<Rightarrow> Inr (Some (JObject m))
      | Some got \<Rightarrow> Inl (FieldNotObject ''response-schema'' got)
      | None \<Rightarrow> Inr None)"

definition parse_string_list :: "json btmap \<Rightarrow> string \<Rightarrow> route_problem + string list" where
  "parse_string_list props key =
     (case hm_get key props of
        Some (JArray items) \<Rightarrow>
          collect_res (map (\<lambda>v. case v of JString s \<Rightarrow> Inr s | got \<Rightarrow> Inl (EntryNotString key got)) items)
      | Some got \<Rightarrow> Inl (FieldNotStringArray key got)
      | None \<Rightarrow> Inr [])"

datatype propagation_direction = Inbound | Outbound

definition check_propagated ::
  "(string \<Rightarrow> bool) \<Rightarrow> string \<Rightarrow> propagation_direction \<Rightarrow> string \<Rightarrow> route_problem + propagated_header" where
  "check_propagated hn key direction s =
     attempt (map_err (PropagateEntry key s) (propagated_header_parse s)) (\<lambda>entry.
       (let http_name = (case direction of Inbound \<Rightarrow> ph_source entry | Outbound \<Rightarrow> ph_target entry)
        in if \<not> hn http_name then Inl (InvalidHeaderName key s http_name) else Inr entry))"

definition parse_propagated_headers_list ::
  "(string \<Rightarrow> bool) \<Rightarrow> json btmap \<Rightarrow> string \<Rightarrow> propagation_direction \<Rightarrow> route_problem + propagated_header list" where
  "parse_propagated_headers_list hn props key direction =
     attempt (parse_string_list props key) (\<lambda>raw. collect_res (map (check_propagated hn key direction) raw))"

definition mapped_header_targets :: "json option \<Rightarrow> string list" where
  "mapped_header_targets result_mapping =
     (case and_then result_mapping (json_get ''headers'') of
        Some (JObject m) \<Rightarrow> hm_keys m
      | _ \<Rightarrow> [])"

definition check_overrides :: "json option \<Rightarrow> propagated_header list \<Rightarrow> route_problem + unit" where
  "check_overrides result_mapping propagated =
     fold_res (\<lambda>_ entry.
       if ph_target entry \<in> set (mapped_header_targets result_mapping) \<and> ph_source entry \<noteq> ph_target entry
       then Inl (HeaderOverridden entry) else Inr ()) () propagated"

definition parse_query_params :: "json btmap \<Rightarrow> route_problem + query_param_spec list" where
  "parse_query_params props =
     (case hm_get ''query-params'' props of
        Some (JArray items) \<Rightarrow>
          collect_res (map (\<lambda>v. case v of
              JString s \<Rightarrow> map_err QueryEntry (parse_query_param_spec s)
            | other \<Rightarrow> Inl (EntryNotString ''query-params'' other)) items)
      | Some got \<Rightarrow> Inl (FieldNotStringArray ''query-params'' got)
      | None \<Rightarrow> Inr [])"

definition ascii_upper :: "char \<Rightarrow> char" where
  "ascii_upper c = (let n = (of_char c :: nat) in if 97 \<le> n \<and> n \<le> 122 then char_of (n - 32) else c)"

definition to_uppercase :: "string \<Rightarrow> string" where
  "to_uppercase s = map ascii_upper s"

definition parse_content_type :: "json btmap \<Rightarrow> string \<Rightarrow> route_problem + content_type option" where
  "parse_content_type props method =
     (case (method_accepts_body method, hm_get ''content-type'' props) of
        (False, Some got) \<Rightarrow> Inl (ContentTypeWithoutBody method)
      | (False, None) \<Rightarrow> Inr None
      | (True, Some (JString s)) \<Rightarrow> map_ok Some (ok_or (UnsupportedContentType s) (content_type_parse s))
      | (True, Some got) \<Rightarrow> Inl (FieldNotString ''content-type'' got)
      | (True, None) \<Rightarrow> Inr (Some JsonBody))"

definition check_text_plain ::
  "content_type option \<Rightarrow> (json hmap) option \<Rightarrow> (content_type_spec hmap) option \<Rightarrow> string \<Rightarrow> query_param_spec list \<Rightarrow>
   route_problem + unit" where
  "check_text_plain content_type param_mapping param_encoding path query_params =
     (if content_type = Some TextPlain then
        (if param_mapping \<noteq> None then Inl TextPlainParamMapping
         else if param_encoding \<noteq> None then Inl TextPlainParamEncoding
         else if route_has_captures path query_params then Inl TextPlainCaptures
         else Inr ())
      else Inr ())"

definition parse_target ::
  "string option \<Rightarrow> string option \<Rightarrow> string option \<Rightarrow> (64 word) option \<Rightarrow> mapping_config \<Rightarrow> route_problem + route_target" where
  "parse_target component function_name channel reply_timeout_ms mapping =
     (if (component \<noteq> None \<or> function_name \<noteq> None) \<and> channel \<noteq> None then Inl ComponentAndChannel
      else
        (case channel of
           Some ch \<Rightarrow>
             if mc_param_mapping mapping \<noteq> None \<or> mc_param_encoding mapping \<noteq> None \<or>
                mc_result_decoding mapping \<noteq> None \<or> mc_result_mapping mapping \<noteq> None
             then Inl MappingOnChannelRoute
             else Inr (ChannelTarget ch reply_timeout_ms)
         | None \<Rightarrow>
             attempt (ok_or (FieldMissing ''component'') component) (\<lambda>comp.
             attempt (ok_or (FieldMissing ''function'') function_name) (\<lambda>f.
             if reply_timeout_ms \<noteq> None then Inl TimeoutOnComponentRoute
             else Inr (ComponentTarget comp f mapping)))))"

subsection \<open>A route\<close>

definition parse_route :: "(string \<Rightarrow> bool) \<Rightarrow> string \<Rightarrow> json \<Rightarrow> route_problem + route_config" where
  "parse_route hn route_name route_value =
     (case route_value of
        JObject props \<Rightarrow>
          attempt (get_required_string props ''path'') (\<lambda>path.
          attempt (get_optional_string props ''component'') (\<lambda>component.
          attempt (get_optional_string props ''function'') (\<lambda>function_name.
          attempt (get_optional_string props ''channel'') (\<lambda>channel.
          attempt (get_reply_timeout props) (\<lambda>reply_timeout_ms.
          attempt (get_param_mapping props) (\<lambda>param_mapping.
          attempt (get_specs props ''param-encoding'' param_encoding_parse) (\<lambda>param_encoding.
          let result_mapping = hm_get ''result-mapping'' props in
          attempt (get_specs props ''result-decoding'' result_decoding_parse) (\<lambda>result_decoding.
          attempt (get_response_schema props) (\<lambda>response_schema.
          attempt (parse_propagated_headers_list hn props ''propagate-request-headers'' Inbound) (\<lambda>request_headers.
          attempt (parse_propagated_headers_list hn props ''propagate-response-headers'' Outbound) (\<lambda>response_headers.
          attempt (check_overrides result_mapping response_headers) (\<lambda>_.
          attempt (parse_query_params props) (\<lambda>query_params.
          attempt (map_ok to_uppercase (get_required_string props ''method'')) (\<lambda>method.
          attempt (parse_content_type props method) (\<lambda>content_type.
          attempt (check_text_plain content_type param_mapping param_encoding path query_params) (\<lambda>_.
          attempt (parse_target component function_name channel reply_timeout_ms
                     \<lparr> mc_param_mapping = param_mapping, mc_param_encoding = param_encoding,
                       mc_result_decoding = result_decoding, mc_result_mapping = result_mapping \<rparr>) (\<lambda>target.
          attempt (map_err CaptureProblem (validate_route_captures path query_params)) (\<lambda>_.
          Inr \<lparr> rc_name = route_name, rc_method = method, rc_path = path, rc_query_params = query_params,
                rc_content_type = content_type, rc_target = target,
                rc_propagate_request_headers = request_headers,
                rc_propagate_response_headers = response_headers,
                rc_response_schema = response_schema \<rparr>))))))))))))))))))
      | got \<Rightarrow> Inl (NotATable got))"

definition parse_routes ::
  "(string \<Rightarrow> bool) \<Rightarrow> string \<Rightarrow> property_map \<Rightarrow> server_error + route_config list \<times> property_map" where
  "parse_routes hn server_name properties =
     (case hm_get ''route'' properties of
        Some (JObject route_table) \<Rightarrow>
          attempt
            (collect_res (map (\<lambda>(route_name, v). map_err (RouteProblem server_name route_name) (parse_route hn route_name v))
               route_table)) (\<lambda>routes.
          (case find_conflict routes of
             Some (a, b) \<Rightarrow> Inl (RoutesConflict server_name a b)
           | None \<Rightarrow> Inr (routes, hm_remove ''route'' properties)))
      | Some got \<Rightarrow> Inl (RoutesNotTable server_name got)
      | None \<Rightarrow> Inr ([], hm_remove ''route'' properties))"

subsection \<open>The handler\<close>

record http_handler =
  hh_servers :: "server_config list"

definition http_claimed_categories :: "http_handler \<Rightarrow> category_claim list" where
  "http_claimed_categories h =
     [claim_with_selector ''server'' \<lparr> sel_conditions = [\<lparr> cond_key = ''type'', cond_operator = Equals ''http'' \<rparr>] \<rparr>]"

definition http_claimed_properties :: "http_handler \<Rightarrow> (string list) hmap" where
  "http_claimed_properties h =
     [(''server'', [''type'', ''port'', ''route'', ''otlp-endpoint'', ''otlp-protocol''])]"

definition take_port :: "string \<Rightarrow> property_map \<Rightarrow> server_error + 16 word \<times> property_map" where
  "take_port name properties =
     (case hm_get ''port'' properties of
        Some (JNumber n) \<Rightarrow>
          map_ok (\<lambda>p. (p, hm_remove ''port'' properties))
            (ok_or (PortNotValid name)
               (and_then (as_u64 (JNumber n)) (\<lambda>p. if unat p < 2 ^ 16 then Some (ucast p) else None)))
      | Some got \<Rightarrow> Inl (PortNotNumber name got)
      | None \<Rightarrow> Inl (PortMissing name))"

definition take_server_string :: "string \<Rightarrow> property_map \<Rightarrow> string \<Rightarrow> server_error + string option \<times> property_map" where
  "take_server_string name properties key =
     (case hm_get key properties of
        Some (JString s) \<Rightarrow> Inr (Some s, hm_remove key properties)
      | Some got \<Rightarrow> Inl (ServerFieldNotString name key got)
      | None \<Rightarrow> Inr (None, hm_remove key properties))"

definition parse_server :: "(string \<Rightarrow> bool) \<Rightarrow> string \<Rightarrow> property_map \<Rightarrow> server_error + server_config" where
  "parse_server hn name properties =
     (let properties = hm_remove ''type'' properties in
      attempt (take_port name properties) (\<lambda>(port, properties).
      attempt (take_server_string name properties ''otlp-endpoint'') (\<lambda>(otlp_endpoint, properties).
      attempt (take_server_string name properties ''otlp-protocol'') (\<lambda>(otlp_protocol, properties).
      attempt (parse_routes hn name properties) (\<lambda>(routes, properties).
        if properties \<noteq> [] then Inl (UnknownServerProperties name (hm_keys properties))
        else Inr \<lparr> sv_name = name, sv_port = port, sv_routes = routes, sv_otlp_endpoint = otlp_endpoint,
                   sv_otlp_protocol = unwrap_or otlp_protocol ''grpc'' \<rparr>)))))"

definition http_handle_category ::
  "(string \<Rightarrow> bool) \<Rightarrow> http_handler \<Rightarrow> string \<Rightarrow> string \<Rightarrow> property_map \<Rightarrow> server_error + http_handler" where
  "http_handle_category hn h category name properties =
     (if category \<noteq> ''server'' then Inl (UnexpectedServerCategory category)
      else map_ok (\<lambda>s. h \<lparr> hh_servers := hh_servers h @ [s] \<rparr>) (parse_server hn name properties))"

text \<open>As a boxed handler the error is only known to be this handler's.\<close>

definition http_ops :: "(string \<Rightarrow> bool) \<Rightarrow> http_handler handler_ops" where
  "http_ops hn = default_handler_ops
     \<lparr> ho_claimed_categories := http_claimed_categories,
       ho_claimed_properties := http_claimed_properties,
       ho_handle_category := (\<lambda>h c n p.
         map_err (\<lambda>_. HandlerFailed ''HttpServerConfigHandler'') (http_handle_category hn h c n p)) \<rparr>"

interpretation http: config_handler "http_ops hn" for hn
  by unfold_locales
    (auto simp: http_ops_def default_handler_ops_def http_handle_category_def
      http_claimed_categories_def http_claimed_properties_def claim_with_selector_def
      map_ok_Inr_iff map_err_Inr_iff split: if_splits)

subsection \<open>What an accepted configuration guarantees\<close>

text \<open>
  A well-formed route: its content type is declared exactly when its method takes a body, its
  captures are valid, a plain-text route has neither captures nor parameter mappings, and no header
  a result mapping writes is overwritten by a propagated header of another name.
\<close>

definition route_ok :: "(string \<Rightarrow> bool) \<Rightarrow> route_config \<Rightarrow> bool" where
  "route_ok hn r \<longleftrightarrow>
     (rc_content_type r = None \<longleftrightarrow> \<not> method_accepts_body (rc_method r)) \<and>
     validate_route_captures (rc_path r) (rc_query_params r) = Inr () \<and>
     (rc_content_type r = Some TextPlain \<longrightarrow> \<not> route_has_captures (rc_path r) (rc_query_params r)) \<and>
     (\<forall>p \<in> set (rc_propagate_request_headers r). hn (ph_source p)) \<and>
     (\<forall>p \<in> set (rc_propagate_response_headers r). hn (ph_target p)) \<and>
     (case rc_target r of
        ComponentTarget c f mapping \<Rightarrow>
          (rc_content_type r = Some TextPlain \<longrightarrow> mc_param_mapping mapping = None \<and> mc_param_encoding mapping = None) \<and>
          (\<forall>p \<in> set (rc_propagate_response_headers r).
             ph_target p \<in> set (mapped_header_targets (mc_result_mapping mapping)) \<longrightarrow> ph_source p = ph_target p)
      | ChannelTarget ch t \<Rightarrow> True)"

lemma parse_content_type_ok:
  "parse_content_type props method = Inr ct \<Longrightarrow> ct = None \<longleftrightarrow> \<not> method_accepts_body method"
  by (auto simp: parse_content_type_def map_ok_Inr_iff split: option.splits json.splits prod.splits bool.splits)

lemma check_text_plain_ok:
  "check_text_plain ct pm pe path qs = Inr () \<Longrightarrow>
     ct = Some TextPlain \<longrightarrow> pm = None \<and> pe = None \<and> \<not> route_has_captures path qs"
  by (auto simp: check_text_plain_def split: if_splits)

lemma check_overrides_ok:
  "check_overrides rm ps = Inr () \<Longrightarrow>
     \<forall>p \<in> set ps. ph_target p \<in> set (mapped_header_targets rm) \<longrightarrow> ph_source p = ph_target p"
  by (auto simp: check_overrides_def fold_res_guard_ok split: if_splits)

lemma parse_propagated_ok:
  assumes "parse_propagated_headers_list hn props key dir = Inr ps" and "p \<in> set ps"
  shows "case dir of Inbound \<Rightarrow> hn (ph_source p) | Outbound \<Rightarrow> hn (ph_target p)"
proof -
  obtain raw where "collect_res (map (check_propagated hn key dir) raw) = Inr ps"
    using assms(1) by (auto simp: parse_propagated_headers_list_def attempt_Inr_iff)
  then obtain s where "check_propagated hn key dir s = Inr p"
    using assms(2) collect_res_nth by (fastforce simp: in_set_conv_nth dest: collect_res_length)
  then show ?thesis by (auto simp: check_propagated_def attempt_Inr_iff Let_def split: if_splits propagation_direction.splits)
qed

lemma parse_target_ok:
  "parse_target c f ch t mapping = Inr tg \<Longrightarrow>
     (\<exists>name. tg = ChannelTarget name t \<and> ch = Some name) \<or>
     (\<exists>comp g. tg = ComponentTarget comp g mapping \<and> c = Some comp \<and> f = Some g \<and> ch = None \<and> t = None)"
  by (auto simp: parse_target_def attempt_Inr_iff ok_or_Inr_iff split: if_splits option.splits)

lemma parse_route_ok:
  assumes "parse_route hn name v = Inr r"
  shows "route_ok hn r \<and> rc_name r = name"
proof -
  obtain props where v: "v = JObject props" using assms by (auto simp: parse_route_def split: json.splits)
  obtain path c f ch t pm pe rd rs req res qs mth ct tg where
    p: "parse_propagated_headers_list hn props ''propagate-request-headers'' Inbound = Inr req"
    "parse_propagated_headers_list hn props ''propagate-response-headers'' Outbound = Inr res"
    "check_overrides (hm_get ''result-mapping'' props) res = Inr ()"
    "parse_content_type props mth = Inr ct" "check_text_plain ct pm pe path qs = Inr ()"
    "parse_target c f ch t \<lparr> mc_param_mapping = pm, mc_param_encoding = pe, mc_result_decoding = rd,
       mc_result_mapping = hm_get ''result-mapping'' props \<rparr> = Inr tg"
    "validate_route_captures path qs = Inr ()"
    and r: "r = \<lparr> rc_name = name, rc_method = mth, rc_path = path, rc_query_params = qs, rc_content_type = ct,
      rc_target = tg, rc_propagate_request_headers = req, rc_propagate_response_headers = res, rc_response_schema = rs \<rparr>"
    using assms unfolding parse_route_def v Let_def json.case attempt_Inr_iff
    by (elim exE conjE) (auto simp: map_err_Inr_iff)
  show ?thesis
    using parse_content_type_ok [OF p(4)] check_text_plain_ok [OF p(5)] check_overrides_ok [OF p(3)]
      parse_propagated_ok [OF p(1)] parse_propagated_ok [OF p(2)] parse_target_ok [OF p(6)] p(7)
    by (auto simp: route_ok_def r)
qed

lemma parse_routes_ok:
  assumes "parse_routes hn server p = Inr (routes, p')"
  shows "(\<forall>r \<in> set routes. route_ok hn r) \<and> sorted_wrt (\<lambda>a b. \<not> routes_conflict a b) routes \<and>
    p' = hm_remove ''route'' p \<and>
    (case hm_get ''route'' p of None \<Rightarrow> routes = [] | Some v \<Rightarrow> \<exists>table. v = JObject table \<and> map rc_name routes = hm_keys table)"
proof (cases "hm_get ''route'' p")
  case None
  with assms show ?thesis by (simp add: parse_routes_def)
next
  case (Some v)
  then obtain table where v: "v = JObject table" using assms by (auto simp: parse_routes_def split: json.splits)
  let ?f = "\<lambda>(name, v). map_err (RouteProblem server name) (parse_route hn name v)"
  obtain rs where rs: "collect_res (map ?f table) = Inr rs" "(case find_conflict rs of Some (a, b) \<Rightarrow> Inl (RoutesConflict server a b)
      | None \<Rightarrow> Inr (rs, hm_remove ''route'' p)) = Inr (routes, p')"
    using assms Some v by (auto simp: parse_routes_def attempt_Inr_iff)
  then have run: "collect_res (map ?f table) = Inr routes" "find_conflict routes = None" "p' = hm_remove ''route'' p"
    by (cases "find_conflict rs"; auto)+
  have len: "length routes = length table" using collect_res_length [OF run(1)] by simp
  have each: "route_ok hn (routes ! i) \<and> rc_name (routes ! i) = fst (table ! i)" if "i < length table" for i
  proof -
    obtain name v where "table ! i = (name, v)" by force
    then show ?thesis
      using collect_res_nth [OF run(1) that] parse_route_ok by (auto simp: map_err_Inr_iff)
  qed
  then have "\<forall>r \<in> set routes. route_ok hn r" using len by (auto simp: in_set_conv_nth)
  moreover have "map rc_name routes = hm_keys table" by (rule nth_equalityI) (use len each in auto)
  ultimately show ?thesis using run(2,3) Some v by (simp add: find_conflict_None_iff)
qed

lemma take_port_ok:
  assumes "take_port name p = Inr (port, p')"
  shows "\<exists>n. hm_get ''port'' p = Some (JNumber (PosInt n)) \<and> unat n = unat port"
proof -
  obtain num where num: "hm_get ''port'' p = Some (JNumber num)"
    using assms by (auto simp: take_port_def split: option.splits json.splits)
  with assms obtain n where n: "as_u64 (JNumber num) = Some n" "unat n < 2 ^ 16" "port = ucast n"
    by (auto simp: take_port_def map_ok_Inr_iff ok_or_Inr_iff and_then_Some_iff split: if_splits)
  then have "num = PosInt n" by (cases num) (auto split: if_splits)
  moreover have "unat (ucast n :: 16 word) = unat n"
    using n(2) by (simp add: unsigned_ucast_eq unsigned_take_bit_eq take_bit_nat_eq_self)
  ultimately show ?thesis using num n(3) by auto
qed

text \<open>
  C31. What an accepted server entry guarantees: the port is the number given, within 16 bits; the
  routes are those of the table, in its order; each route is well formed (its content type fits
  its method, its captures cannot collide, no mapped header is overwritten by a propagated one,
  every propagated name is a header name); and no two routes conflict.
\<close>

theorem accepted_server_config:
  assumes "parse_server hn name p = Inr s"
  shows "sv_name s = name \<and> (\<forall>r \<in> set (sv_routes s). route_ok hn r) \<and>
    sorted_wrt (\<lambda>a b. \<not> routes_conflict a b) (sv_routes s) \<and>
    (\<exists>n. hm_get ''port'' p = Some (JNumber (PosInt n)) \<and> unat n = unat (sv_port s)) \<and>
    (case hm_get ''route'' p of None \<Rightarrow> sv_routes s = []
     | Some v \<Rightarrow> \<exists>table. v = JObject table \<and> map rc_name (sv_routes s) = hm_keys table)"
proof -
  obtain port p1 oe p2 op p3 routes p4 where
    r: "take_port name (hm_remove ''type'' p) = Inr (port, p1)" "take_server_string name p1 ''otlp-endpoint'' = Inr (oe, p2)"
    "take_server_string name p2 ''otlp-protocol'' = Inr (op, p3)" "parse_routes hn name p3 = Inr (routes, p4)"
    and s: "sv_name s = name" "sv_port s = port" "sv_routes s = routes"
    using assms by (auto simp: parse_server_def Let_def attempt_Inr_iff split: if_splits)
  have "p1 = hm_remove ''port'' (hm_remove ''type'' p)"
    using r(1) by (auto simp: take_port_def map_ok_Inr_iff split: option.splits json.splits)
  moreover have "p2 = hm_remove ''otlp-endpoint'' p1" "p3 = hm_remove ''otlp-protocol'' p2"
    using r(2,3) by (auto simp: take_server_string_def split: option.splits json.splits)
  ultimately have "hm_get ''route'' p3 = hm_get ''route'' p" by simp
  moreover have "hm_get ''port'' (hm_remove ''type'' p) = hm_get ''port'' p" by simp
  ultimately show ?thesis
    using parse_routes_ok [OF r(4)] take_port_ok [OF r(1)] s by (simp split: option.splits)
qed

definition demo_route :: json where
  "demo_route = jobj [(''method'', JString ''get''), (''path'', JString ''/users/{id}''), (''component'', JString ''users''),
     (''function'', JString ''show''), (''query-params'', JArray [JString ''~v=1''])]"

definition demo_server :: "json btmap \<Rightarrow> property_map" where
  "demo_server table = [(''type'', JString ''http''), (''port'', JNumber (PosInt 8080)), (''route'', JObject table)]"

lemma demo_server_parses:
  assumes "parse_routes hn ''api'' [(''route'', JObject table)] = Inr (routes, p)"
  shows "parse_server hn ''api'' (demo_server table) =
    Inr \<lparr> sv_name = ''api'', sv_port = 8080, sv_routes = routes, sv_otlp_endpoint = None, sv_otlp_protocol = ''grpc'' \<rparr>"
proof -
  have port: "take_port ''api'' (hm_remove ''type'' (demo_server table)) = Inr (8080, [(''route'', JObject table)])"
    by (simp add: take_port_def demo_server_def hm_remove_def)
  have strings: "take_server_string ''api'' [(''route'', v)] key = Inr (None, [(''route'', v)])" if "key \<noteq> ''route''" for v key
    using that by (simp add: take_server_string_def hm_remove_def)
  have "p = []" using parse_routes_ok [OF assms] by (simp add: hm_remove_def)
  with assms show ?thesis by (simp add: parse_server_def port strings)
qed

lemma accepted_server_config_witness:
  "\<exists>s. parse_server (\<lambda>_. True) ''api'' (demo_server [(''show'', demo_route)]) = Inr s \<and>
     map rc_name (sv_routes s) = [''show''] \<and> unat (sv_port s) = 8080"
proof -
  have "is_ok (parse_routes (\<lambda>_. True) ''api'' [(''route'', JObject [(''show'', demo_route)])])" by code_simp
  then obtain s where s: "parse_server (\<lambda>_. True) ''api'' (demo_server [(''show'', demo_route)]) = Inr s"
    by (auto simp: is_ok_iff dest!: demo_server_parses)
  from accepted_server_config [OF this] s show ?thesis by (auto simp: demo_server_def)
qed

end
