(* ===== verification/Http_Match.thy ===== *)
theory Http_Match
  imports Http_Config Mapping_Layer
begin

section \<open>Compiled routes and request matching (\<open>crates/http-server/src/server.rs\<close>)\<close>

text \<open>
  The compilation of a parsed route against the components, and the match of a request's method,
  path and query against it. The JSON-schema validators of the \<open>jsonschema\<close> crate are the parameter
  \<open>validator_ops\<close>; \<open>vm\<close> tells whether hyper accepts a string as a method. Percent-decoding of the
  query string is the parameter \<open>fu\<close>.
\<close>

record 'v validator_ops =
  vo_compile :: "json \<Rightarrow> string + 'v"
  vo_validate :: "'v \<Rightarrow> json \<Rightarrow> string + unit"

datatype segment = LiteralSegment string | ParamSegment string | AnonymousSegment

datatype compiled_target =
    CompiledComponent string message_mapper
  | CompiledChannel string "(64 word) option"

record 'v response_schema =
  rsch_spec :: json
  rsch_validator :: 'v

record 'v route =
  rt_name :: string
  rt_method :: string
  rt_path_segments :: "segment list"
  rt_query_params :: "query_param_spec list"
  rt_content_type :: "content_type option"
  rt_target :: compiled_target
  rt_request_schema :: "'v option"
  rt_propagate_request_headers :: "propagated_header list"
  rt_response_schema :: "('v response_schema) option"
  rt_propagate_response_headers :: "propagated_header list"

datatype route_error =
    InvalidMethod string string
  | RouteComponentNotFound string string
  | RouteFunctionNotFound string string string
  | RequestSchemaUnderivable string schema_error
  | ResponseSchemaUnderivable string schema_error
  | ResponseSchemaMisaligned string schema_error
  | RouteMapperRejected string mapping_error
  | ValidatorRejected string string

definition compile_segment :: "string \<Rightarrow> segment" where
  "compile_segment s =
     (if is_placeholder s then
        (let inner = placeholder_inner s in if inner = [] then AnonymousSegment else ParamSegment inner)
      else LiteralSegment s)"

definition request_schema_new :: "'v validator_ops \<Rightarrow> string \<Rightarrow> json \<Rightarrow> route_error + 'v" where
  "request_schema_new vo name spec = map_err (ValidatorRejected name) (vo_compile vo spec)"

definition response_schema_new :: "'v validator_ops \<Rightarrow> string \<Rightarrow> json \<Rightarrow> route_error + 'v response_schema" where
  "response_schema_new vo name spec =
     map_ok (\<lambda>v. \<lparr> rsch_spec = spec, rsch_validator = v \<rparr>) (map_err (ValidatorRejected name) (vo_compile vo spec))"

text \<open>The response schema of a component route: the declared one, aligned with the derived one, or that.\<close>

definition resolve_response_schema :: "string \<Rightarrow> json option \<Rightarrow> json option \<Rightarrow> route_error + json option" where
  "resolve_response_schema name declared derived =
     (case (declared, derived) of
        (Some dcl, Some drv) \<Rightarrow>
          map_ok (\<lambda>_. Some dcl) (map_err (ResponseSchemaMisaligned name) (validate_structural_alignment dcl drv))
      | (Some dcl, None) \<Rightarrow> Inr (Some dcl)
      | (None, Some drv) \<Rightarrow> Inr (Some drv)
      | (None, None) \<Rightarrow> Inr None)"

definition compile_target ::
  "(string \<Rightarrow> component option) \<Rightarrow> route_config \<Rightarrow> route_error + compiled_target \<times> json option \<times> json option" where
  "compile_target components config =
     (let name = rc_name config in
      case rc_target config of
        ComponentTarget cname f mapping \<Rightarrow>
          attempt (ok_or (RouteComponentNotFound name cname) (components cname)) (\<lambda>component_def.
          attempt (ok_or (RouteFunctionNotFound name f cname) (hm_get f (c_functions component_def))) (\<lambda>func.
          attempt (map_err (RequestSchemaUnderivable name) (derive_input_schema func mapping)) (\<lambda>request_spec.
          attempt (map_err (ResponseSchemaUnderivable name) (derive_output_schema func mapping)) (\<lambda>derived.
          attempt (resolve_response_schema name (rc_response_schema config) derived) (\<lambda>response_spec.
          attempt (map_err (RouteMapperRejected name) (from_component component_def (Some f) mapping)) (\<lambda>mapper.
          Inr (CompiledComponent cname mapper, Some request_spec, response_spec)))))))
      | ChannelTarget channel reply_timeout_ms \<Rightarrow>
          Inr (CompiledChannel channel reply_timeout_ms, None, rc_response_schema config))"

definition transpose_result :: "('a \<Rightarrow> 'e + 'b) \<Rightarrow> 'a option \<Rightarrow> 'e + 'b option" where
  "transpose_result f x = (case x of None \<Rightarrow> Inr None | Some v \<Rightarrow> map_ok Some (f v))"

definition route_from_config ::
  "(string \<Rightarrow> bool) \<Rightarrow> 'v validator_ops \<Rightarrow> (string \<Rightarrow> component option) \<Rightarrow> route_config \<Rightarrow> route_error + 'v route" where
  "route_from_config vm vo components config =
     (if \<not> vm (rc_method config) then Inl (InvalidMethod (rc_name config) (rc_method config))
      else
        attempt (compile_target components config) (\<lambda>(target, request_spec, response_spec).
        attempt (transpose_result (request_schema_new vo (rc_name config)) request_spec) (\<lambda>request_schema.
        attempt (transpose_result (response_schema_new vo (rc_name config)) response_spec) (\<lambda>response_schema.
        Inr \<lparr> rt_name = rc_name config, rt_method = rc_method config,
              rt_path_segments = map compile_segment (split_path (rc_path config)),
              rt_query_params = rc_query_params config, rt_content_type = rc_content_type config,
              rt_target = target, rt_request_schema = request_schema,
              rt_propagate_request_headers = rc_propagate_request_headers config,
              rt_response_schema = response_schema,
              rt_propagate_response_headers = rc_propagate_response_headers config \<rparr>))))"

subsection \<open>Matching\<close>

datatype query_outcome = Match | NoMatch | Capture string

definition apply_query_spec :: "query_param_spec \<Rightarrow> string hmap \<Rightarrow> query_outcome" where
  "apply_query_spec spec query =
     (case qp_kind spec of
        ForbiddenParam \<Rightarrow> (if hm_get (qp_name spec) query \<noteq> None then NoMatch else Match)
      | RequiredParam expected capture \<Rightarrow>
          (case hm_get (qp_name spec) query of
             None \<Rightarrow> NoMatch
           | Some v \<Rightarrow>
               if is_some_and expected (\<lambda>e. v \<noteq> e) then NoMatch
               else if capture then Capture v else Match)
      | OptionalParam expected capture \<Rightarrow>
          (case hm_get (qp_name spec) query of
             None \<Rightarrow> Match
           | Some v \<Rightarrow>
               if is_some_and expected (\<lambda>e. v \<noteq> e) then NoMatch
               else if capture then Capture v else Match))"

record captures =
  cp_path :: "string hmap"
  cp_query :: "string hmap"

fun match_segments :: "string hmap \<Rightarrow> string list \<Rightarrow> segment list \<Rightarrow> (string hmap) option" where
  "match_segments captured (part # parts) (LiteralSegment expected # segs) =
     (if part = expected then match_segments captured parts segs else None)"
| "match_segments captured (part # parts) (ParamSegment name # segs) =
     match_segments (hm_insert name part captured) parts segs"
| "match_segments captured (part # parts) (AnonymousSegment # segs) = match_segments captured parts segs"
| "match_segments captured _ _ = Some captured"

fun match_query :: "string hmap \<Rightarrow> query_param_spec list \<Rightarrow> string hmap \<Rightarrow> (string hmap) option" where
  "match_query captured [] query = Some captured"
| "match_query captured (spec # specs) query =
     (case apply_query_spec spec query of
        Match \<Rightarrow> match_query captured specs query
      | NoMatch \<Rightarrow> None
      | Capture v \<Rightarrow> match_query (hm_insert (qp_name spec) v captured) specs query)"

definition match_request :: "'v route \<Rightarrow> string \<Rightarrow> string \<Rightarrow> string hmap \<Rightarrow> captures option" where
  "match_request r method path query =
     (if method \<noteq> rt_method r then None
      else
        (let parts = split_path path in
         if length parts \<noteq> length (rt_path_segments r) then None
         else
           and_then (match_segments [] parts (rt_path_segments r)) (\<lambda>path_captures.
           and_then (match_query [] (rt_query_params r) query) (\<lambda>query_captures.
             Some \<lparr> cp_path = path_captures, cp_query = query_captures \<rparr>))))"

definition captures_merged :: "captures \<Rightarrow> string hmap" where
  "captures_merged c = hm_extend (cp_query c) (cp_path c)"

definition parse_query_string :: "(string \<Rightarrow> (string \<times> string) list) \<Rightarrow> string \<Rightarrow> string hmap" where
  "parse_query_string fu q = hm_extend [] (fu q)"

subsection \<open>What a match means\<close>

text \<open>A request satisfies a query specification.\<close>

fun query_satisfies :: "string option \<Rightarrow> query_param_kind \<Rightarrow> bool" where
  "query_satisfies actual ForbiddenParam = (actual = None)"
| "query_satisfies actual (RequiredParam expected capture) = (actual \<noteq> None \<and> (expected = None \<or> actual = expected))"
| "query_satisfies actual (OptionalParam expected capture) = (actual = None \<or> expected = None \<or> actual = expected)"

fun segment_matches :: "string \<Rightarrow> segment \<Rightarrow> bool" where
  "segment_matches part (LiteralSegment s) = (part = s)"
| "segment_matches part _ = True"

definition request_matches :: "'v route \<Rightarrow> string \<Rightarrow> string \<Rightarrow> string hmap \<Rightarrow> bool" where
  "request_matches r method path query \<longleftrightarrow>
     method = rt_method r \<and> list_all2 segment_matches (split_path path) (rt_path_segments r) \<and>
     (\<forall>spec \<in> set (rt_query_params r). query_satisfies (hm_get (qp_name spec) query) (qp_kind spec))"

lemma apply_query_spec_iff:
  "apply_query_spec spec query \<noteq> NoMatch \<longleftrightarrow> query_satisfies (hm_get (qp_name spec) query) (qp_kind spec)"
proof (cases "qp_kind spec")
  case (RequiredParam expected capture)
  then show ?thesis
    by (cases expected; cases "hm_get (qp_name spec) query") (auto simp: apply_query_spec_def)
next
  case (OptionalParam expected capture)
  then show ?thesis
    by (cases expected; cases "hm_get (qp_name spec) query") (auto simp: apply_query_spec_def)
qed (auto simp: apply_query_spec_def)

lemma match_query_Some_iff:
  "(\<exists>c. match_query captured specs query = Some c) \<longleftrightarrow>
     (\<forall>spec \<in> set specs. query_satisfies (hm_get (qp_name spec) query) (qp_kind spec))"
proof (induction captured specs query rule: match_query.induct)
  case (2 captured spec specs query)
  then show ?case
    using apply_query_spec_iff [of spec query] by (cases "apply_query_spec spec query") auto
qed simp

lemma match_segments_Some_iff:
  "length parts = length segs \<Longrightarrow>
     (\<exists>c. match_segments captured parts segs = Some c) \<longleftrightarrow> list_all2 segment_matches parts segs"
  by (induction captured parts segs rule: match_segments.induct) auto

lemma match_request_iff:
  "(\<exists>c. match_request r method path query = Some c) \<longleftrightarrow> request_matches r method path query"
proof (cases "length (split_path path) = length (rt_path_segments r)")
  case True
  then show ?thesis
    using match_segments_Some_iff [OF True, of "[]"] match_query_Some_iff [of "[]" "rt_query_params r" query]
    by (auto simp: match_request_def request_matches_def and_then_Some_iff)
next
  case False
  then show ?thesis
    by (auto simp: match_request_def request_matches_def dest: list_all2_lengthD)
qed

subsection \<open>Exclusive routes\<close>

lemma exclusive_sound: "kinds_are_exclusive ka kb \<Longrightarrow> query_satisfies actual ka \<Longrightarrow> \<not> query_satisfies actual kb"
  by (induction ka kb rule: kinds_are_exclusive.induct) auto

lemma spec_map_get: "hm_get k (spec_map a) = Some kind \<Longrightarrow> \<exists>s \<in> set a. qp_name s = k \<and> qp_kind s = kind"
  by (auto simp: spec_map_def hm_get_extend dest!: map_of_SomeD)

lemma disjoint_sound:
  assumes "query_specs_disjoint a b"
  shows "\<not> ((\<forall>s \<in> set a. query_satisfies (hm_get (qp_name s) query) (qp_kind s)) \<and>
             (\<forall>s \<in> set b. query_satisfies (hm_get (qp_name s) query) (qp_kind s)))"
proof -
  obtain sb kind where sb: "sb \<in> set b" "hm_get (qp_name sb) (spec_map a) = Some kind" "kinds_are_exclusive kind (qp_kind sb)"
    using assms by (auto simp: query_specs_disjoint_def list_ex_iff is_some_and_iff)
  from spec_map_get [OF sb(2)] obtain sa where "sa \<in> set a" "qp_name sa = qp_name sb" "qp_kind sa = kind" by blast
  with sb exclusive_sound [of kind "qp_kind sb"] show ?thesis by metis
qed

text \<open>The overlap the test supposes although no request is in it.\<close>

fun fixed_against_optional :: "query_param_kind \<Rightarrow> query_param_kind \<Rightarrow> bool" where
  "fixed_against_optional (RequiredParam (Some x) c) (OptionalParam (Some y) d) = (x \<noteq> y)"
| "fixed_against_optional (OptionalParam (Some x) c) (RequiredParam (Some y) d) = (x \<noteq> y)"
| "fixed_against_optional _ _ = False"

lemma required_satisfied: "query_satisfies actual (RequiredParam e c) \<longleftrightarrow> (\<exists>v. actual = Some v \<and> (\<forall>w. e = Some w \<longrightarrow> v = w))"
  by (cases actual; cases e) auto

lemma optional_satisfied: "query_satisfies actual (OptionalParam e c) \<longleftrightarrow> (\<forall>v w. actual = Some v \<longrightarrow> e = Some w \<longrightarrow> v = w)"
  by (cases actual; cases e) auto

lemma overlap_iff:
  "(\<exists>actual. query_satisfies actual ka \<and> query_satisfies actual kb) \<longleftrightarrow>
     \<not> kinds_are_exclusive ka kb \<and> \<not> fixed_against_optional ka kb"
proof (cases ka)
  case ka: (RequiredParam e c)
  show ?thesis
  proof (cases kb)
    case kb: (RequiredParam f d)
    show ?thesis unfolding ka kb required_satisfied by (cases e; cases f) auto
  next
    case kb: (OptionalParam f d)
    show ?thesis unfolding ka kb required_satisfied optional_satisfied by (cases e; cases f) auto
  qed (simp add: ka)
next
  case ka: (OptionalParam e c)
  show ?thesis
  proof (cases kb)
    case kb: (RequiredParam f d)
    show ?thesis unfolding ka kb required_satisfied optional_satisfied by (cases e; cases f) auto
  next
    case kb: (OptionalParam f d)
    show ?thesis unfolding ka kb by (auto intro: exI [of _ None])
  qed (auto simp: ka)
next
  case ka: ForbiddenParam
  show ?thesis by (cases kb) (auto simp: ka)
qed

text \<open>
  The exclusion test between query parameters: what it calls exclusive is never satisfied by
  one request, for single parameters and for whole routes; conversely it recognises every pair of
  kinds that no request can satisfy together, with one exception, a required fixed value against
  an optional fixed value that differs, which it takes for an overlap.
\<close>

theorem exclusion_exact:
  "(query_specs_disjoint a b \<longrightarrow>
     \<not> ((\<forall>s \<in> set a. query_satisfies (hm_get (qp_name s) query) (qp_kind s)) \<and>
        (\<forall>s \<in> set b. query_satisfies (hm_get (qp_name s) query) (qp_kind s)))) \<and>
   ((\<nexists>actual. query_satisfies actual ka \<and> query_satisfies actual kb) \<longleftrightarrow>
      kinds_are_exclusive ka kb \<or> fixed_against_optional ka kb)"
  using disjoint_sound [of a b query] overlap_iff [of ka kb] by blast

lemma exclusion_exact_witness:
  "\<not> (query_satisfies (Some ''a'') (RequiredParam (Some ''a'') True) \<and> query_satisfies (Some ''a'') (RequiredParam (Some ''b'') True)) \<and>
   (\<nexists>actual. query_satisfies actual (RequiredParam (Some ''a'') True) \<and> query_satisfies actual (OptionalParam (Some ''b'') True))"
proof -
  let ?a = "[\<lparr> qp_name = ''k'', qp_kind = RequiredParam (Some ''a'') True \<rparr>]"
    and ?b = "[\<lparr> qp_name = ''k'', qp_kind = RequiredParam (Some ''b'') True \<rparr>]"
  have "query_specs_disjoint ?a ?b" by code_simp
  with exclusion_exact [of ?a ?b "[(''k'', ''a'')]" "RequiredParam (Some ''a'') True" "OptionalParam (Some ''b'') True"]
  show ?thesis by simp
qed

lemma route_from_config_fields:
  assumes "route_from_config vm vo components config = Inr r"
  shows "rt_method r = rc_method config \<and> rt_path_segments r = map compile_segment (split_path (rc_path config)) \<and>
    rt_query_params r = rc_query_params config \<and> rt_content_type r = rc_content_type config \<and> vm (rc_method config) \<and>
    rt_propagate_request_headers r = rc_propagate_request_headers config \<and>
    rt_propagate_response_headers r = rc_propagate_response_headers config"
  using assms by (auto simp: route_from_config_def attempt_Inr_iff split: if_splits)

text \<open>
  C35. Routes of an accepted server cannot compete for a request: when one request matches two of
  its routes, these differ in their content type or in the structure of their paths.
\<close>

theorem accepted_routes_exclusive:
  assumes "parse_server hn name p = Inr s" and "i < j" and "j < length (sv_routes s)"
    and "route_from_config vm vo components (sv_routes s ! i) = Inr a"
    and "route_from_config vm vo components (sv_routes s ! j) = Inr b"
    and "match_request a method path query = Some ca" and "match_request b method path query = Some cb"
  shows "rt_content_type a \<noteq> rt_content_type b \<or>
    path_structure (rc_path (sv_routes s ! i)) \<noteq> path_structure (rc_path (sv_routes s ! j))"
proof -
  let ?a = "sv_routes s ! i" and ?b = "sv_routes s ! j"
  obtain p1 p2 p3 p4 where "parse_routes hn name p3 = Inr (sv_routes s, p4)"
    using assms(1) by (auto simp: parse_server_def Let_def attempt_Inr_iff split: if_splits)
  from conjunct1 [OF conjunct2 [OF parse_routes_ok [OF this]]] have no: "\<not> routes_conflict ?a ?b"
    using assms(2,3) by (simp add: sorted_wrt_iff_nth_less)
  note fa = route_from_config_fields [OF assms(4)] and fb = route_from_config_fields [OF assms(5)]
  have "request_matches a method path query" "request_matches b method path query"
    using assms(6,7) match_request_iff by blast+
  then have "rc_method ?a = rc_method ?b"
    and "\<not> query_specs_disjoint (rc_query_params ?a) (rc_query_params ?b)"
    using fa fb disjoint_sound [of "rc_query_params ?a" "rc_query_params ?b" query] by (auto simp: request_matches_def)
  with no fa fb show ?thesis by (auto simp: routes_conflict_def)
qed

subsection \<open>Captures\<close>

fun capture_names :: "segment list \<Rightarrow> string list" where
  "capture_names [] = []"
| "capture_names (ParamSegment name # segs) = name # capture_names segs"
| "capture_names (_ # segs) = capture_names segs"

fun captured_parts :: "string list \<Rightarrow> segment list \<Rightarrow> (string \<times> string) list" where
  "captured_parts (part # parts) (ParamSegment name # segs) = (name, part) # captured_parts parts segs"
| "captured_parts (part # parts) (_ # segs) = captured_parts parts segs"
| "captured_parts _ _ = []"

lemma capture_segment_Inr:
  assumes "capture_segment caps s = Inr caps'"
  shows "set caps' = set caps \<union> set (capture_names [compile_segment s])"
    and "set caps \<inter> set (capture_names [compile_segment s]) = {}"
  using assms by (auto simp: capture_segment_def compile_segment_def Let_def hs_insert_def split: if_splits)

lemma capture_names_Cons: "capture_names (x # xs) = capture_names [x] @ capture_names xs"
  by (cases x) auto

lemma validated_captures:
  assumes "fold_res capture_segment caps segs = Inr caps'"
  shows "set caps' = set caps \<union> set (capture_names (map compile_segment segs)) \<and>
    distinct (capture_names (map compile_segment segs)) \<and> set caps \<inter> set (capture_names (map compile_segment segs)) = {}"
  using assms
proof (induction segs arbitrary: caps)
  case (Cons s segs)
  obtain caps1 where c1: "capture_segment caps s = Inr caps1" "fold_res capture_segment caps1 segs = Inr caps'"
    using Cons.prems unfolding fold_res_Cons_iff by blast
  have d: "distinct (capture_names [compile_segment s])" by (cases "compile_segment s") auto
  show ?case
    using d Cons.IH [OF c1(2)] capture_segment_Inr [OF c1(1)] capture_names_Cons [of "compile_segment s" "map compile_segment segs"] by (simp del: capture_names.simps) blast
qed simp

lemma match_segments_captures:
  "length parts = length segs \<Longrightarrow> match_segments captured parts segs = Some c \<Longrightarrow>
     c = hm_extend captured (captured_parts parts segs)"
  by (induction captured parts segs rule: match_segments.induct) (auto simp: hm_extend_def split: if_splits)

lemma captured_parts_keys: "length parts = length segs \<Longrightarrow> map fst (captured_parts parts segs) = capture_names segs"
  by (induction parts segs rule: captured_parts.induct) auto

lemma match_query_captures:
  assumes "match_query captured specs query = Some c"
  shows "hm_get k c =
    (if \<exists>spec \<in> set specs. qp_name spec = k \<and> captures_param (qp_kind spec) \<and> hm_get k query \<noteq> None
     then hm_get k query else hm_get k captured)"
  using assms
proof (induction captured specs query arbitrary: rule: match_query.induct)
  case (2 captured spec specs query)
  have cap: "apply_query_spec spec query = Capture v \<Longrightarrow> hm_get (qp_name spec) query = Some v \<and> captures_param (qp_kind spec)" for v
    by (cases "qp_kind spec") (auto simp: apply_query_spec_def split: option.splits if_splits)
  have nocap: "apply_query_spec spec query = Match \<Longrightarrow> \<not> (captures_param (qp_kind spec) \<and> hm_get (qp_name spec) query \<noteq> None)"
    by (cases "qp_kind spec") (auto simp: apply_query_spec_def split: option.splits if_splits)
  show ?case
  proof (cases "apply_query_spec spec query")
    case Match
    with 2 nocap show ?thesis by auto
  next
    case (Capture v)
    with 2 cap show ?thesis by auto
  qed (use 2 in simp)
qed simp

lemma match_request_fields:
  assumes "match_request r method path query = Some c"
  shows "match_segments [] (split_path path) (rt_path_segments r) = Some (cp_path c)"
    and "match_query [] (rt_query_params r) query = Some (cp_query c)"
    and "length (split_path path) = length (rt_path_segments r)"
  using assms by (auto simp: match_request_def Let_def and_then_Some_iff split: if_splits)

lemma valid_route_captures:
  assumes "validate_route_captures path specs = Inr ()"
  shows "distinct (capture_names (map compile_segment (split_path path)))"
    and "spec \<in> set specs \<Longrightarrow> captures_param (qp_kind spec) \<Longrightarrow>
      qp_name spec \<notin> set (capture_names (map compile_segment (split_path path)))"
proof -
  obtain caps where caps: "fold_res capture_segment [] (split_path path) = Inr caps"
    and free: "fold_res (\<lambda>_ spec. if captures_param (qp_kind spec) \<and> qp_name spec \<in> set caps
        then Inl (CaptureCollision (qp_name spec)) else Inr ()) () specs = Inr ()"
    using assms by (auto simp: validate_route_captures_def attempt_Inr_iff)
  note names = validated_captures [OF caps]
  then show "distinct (capture_names (map compile_segment (split_path path)))" by simp
  show "qp_name spec \<notin> set (capture_names (map compile_segment (split_path path)))"
    if "spec \<in> set specs" "captures_param (qp_kind spec)"
    using iffD1 [OF fold_res_guard_ok free] names that by (auto split: if_splits)
qed

text \<open>
  The captures of a request: on a route of an accepted server, the merged captures of a
  matching request hold under each name of the path the part of the request's path in that place,
  and under each capturing query parameter the value the request gives it, and nothing else, so
  that no capture is lost in the merge.
\<close>

theorem captures_complete:
  assumes "route_ok hn config" and "route_from_config vm vo components config = Inr r"
    and "match_request r method path query = Some c"
  shows "hm_get k (captures_merged c) = Some v \<longleftrightarrow>
    (k, v) \<in> set (captured_parts (split_path path) (rt_path_segments r)) \<or>
    (\<exists>spec \<in> set (rc_query_params config). qp_name spec = k \<and> captures_param (qp_kind spec) \<and> hm_get k query = Some v)"
proof -
  let ?parts = "captured_parts (split_path path) (rt_path_segments r)"
  note m = match_request_fields [OF assms(3)]
  have segs: "rt_path_segments r = map compile_segment (split_path (rc_path config))"
    and qs: "rt_query_params r = rc_query_params config"
    using route_from_config_fields [OF assms(2)] by simp_all
  have "validate_route_captures (rc_path config) (rc_query_params config) = Inr ()"
    using assms(1) by (simp add: route_ok_def)
  note valid = valid_route_captures [OF this]
  have keys: "map fst ?parts = capture_names (rt_path_segments r)" by (rule captured_parts_keys [OF m(3)])
  with valid(1) have dist: "distinct (map fst ?parts)" by (simp add: segs)
  have "cp_path c = hm_extend [] ?parts" by (rule match_segments_captures [OF m(3,1)])
  then have "hm_wf (cp_path c)" and path: "map_of (cp_path c) = map_of ?parts"
    using hm_wf_extend [of "[]" ?parts] map_of_rev_distinct_keys [OF dist] by (simp_all add: hm_get_extend)
  then have merged: "map_of (captures_merged c) = map_of (cp_query c) ++ map_of ?parts"
    by (simp add: captures_merged_def hm_get_extend map_of_rev_distinct_keys)
  have parts: "map_of ?parts k = Some v \<longleftrightarrow> (k, v) \<in> set ?parts" by (rule map_of_eq_Some_iff [OF dist])
  have free: "map_of ?parts k = None" if "spec \<in> set (rc_query_params config)" "qp_name spec = k" "captures_param (qp_kind spec)" for spec
  proof -
    have "k \<notin> set (map fst ?parts)" using valid(2) [OF that(1,3)] that(2) unfolding keys by (simp add: segs)
    then show ?thesis by (simp add: map_of_eq_None_iff)
  qed
  from match_query_captures [OF m(2), of k] free parts show ?thesis
    by (auto simp: merged map_add_Some_iff qs)
qed

definition demo_validators :: "unit validator_ops" where
  "demo_validators = \<lparr> vo_compile = (\<lambda>_. Inr ()), vo_validate = (\<lambda>_ _. Inr ()) \<rparr>"

definition demo_channel_route :: "(string \<times> json) list \<Rightarrow> json" where
  "demo_channel_route extra = jobj ([(''method'', JString ''POST''), (''channel'', JString ''jobs'')] @ extra)"

lemma captures_complete_witness:
  "\<exists>config r c. parse_route (\<lambda>_. True) ''r'' (demo_channel_route
       [(''path'', JString ''/users/{id}''), (''query-params'', JArray [JString ''page''])]) = Inr config \<and>
     route_from_config (\<lambda>_. True) demo_validators (\<lambda>_. None) config = Inr r \<and>
     match_request r ''POST'' ''/users/7'' [(''page'', ''2'')] = Some c \<and>
     hm_get ''id'' (captures_merged c) = Some ''7'' \<and> hm_get ''page'' (captures_merged c) = Some ''2''"
proof -
  let ?j = "demo_channel_route [(''path'', JString ''/users/{id}''), (''query-params'', JArray [JString ''page''])]"
  have "(case parse_route (\<lambda>_. True) ''r'' ?j of Inl _ \<Rightarrow> False | Inr config \<Rightarrow>
      map qp_name (rc_query_params config) = [''page''] \<and> list_all (captures_param \<circ> qp_kind) (rc_query_params config) \<and>
      (case route_from_config (\<lambda>_. True) demo_validators (\<lambda>_. None) config of Inl _ \<Rightarrow> False | Inr r \<Rightarrow>
        (''id'', ''7'') \<in> set (captured_parts (split_path ''/users/7'') (rt_path_segments r)) \<and>
        match_request r ''POST'' ''/users/7'' [(''page'', ''2'')] \<noteq> None))" by code_simp
  then obtain config r c where r: "parse_route (\<lambda>_. True) ''r'' ?j = Inr config"
    "route_from_config (\<lambda>_. True) demo_validators (\<lambda>_. None) config = Inr r"
    "match_request r ''POST'' ''/users/7'' [(''page'', ''2'')] = Some c"
    and page: "map qp_name (rc_query_params config) = [''page'']" "list_all (captures_param \<circ> qp_kind) (rc_query_params config)"
    and which: "(''id'', ''7'') \<in> set (captured_parts (split_path ''/users/7'') (rt_path_segments r))"
    by (auto split: sum.splits)
  have "route_ok (\<lambda>_. True) config" using parse_route_ok [OF r(1)] by simp
  note merged = captures_complete [OF this r(2,3)]
  from page have "\<exists>spec \<in> set (rc_query_params config). qp_name spec = ''page'' \<and> captures_param (qp_kind spec)"
    by (cases "rc_query_params config") auto
  with merged [of "''page''" "''2''"] merged [of "''id''" "''7''"] which r show ?thesis by auto
qed

lemma accepted_routes_exclusive_witness:
  "\<exists>s a b. parse_server (\<lambda>_. True) ''api'' (demo_server
       [(''a'', demo_channel_route [(''path'', JString ''/jobs'')]),
        (''b'', demo_channel_route [(''path'', JString ''/jobs''), (''content-type'', JString ''text/plain'')])]) = Inr s \<and>
     route_from_config (\<lambda>_. True) demo_validators (\<lambda>_. None) (sv_routes s ! 0) = Inr a \<and>
     route_from_config (\<lambda>_. True) demo_validators (\<lambda>_. None) (sv_routes s ! 1) = Inr b \<and>
     match_request a ''POST'' ''/jobs'' [] \<noteq> None \<and> match_request b ''POST'' ''/jobs'' [] \<noteq> None \<and>
     rt_content_type a \<noteq> rt_content_type b"
proof -
  let ?t = "[(''a'', demo_channel_route [(''path'', JString ''/jobs'')]),
        (''b'', demo_channel_route [(''path'', JString ''/jobs''), (''content-type'', JString ''text/plain'')])]"
  have "(case parse_routes (\<lambda>_. True) ''api'' [(''route'', JObject ?t)] of Inl _ \<Rightarrow> False | Inr (routes, p) \<Rightarrow>
      length routes = 2 \<and> path_structure (rc_path (routes ! 0)) = path_structure (rc_path (routes ! 1)) \<and>
      (case route_from_config (\<lambda>_. True) demo_validators (\<lambda>_. None) (routes ! 0) of Inl _ \<Rightarrow> False | Inr a \<Rightarrow>
        match_request a ''POST'' ''/jobs'' [] \<noteq> None) \<and>
      (case route_from_config (\<lambda>_. True) demo_validators (\<lambda>_. None) (routes ! 1) of Inl _ \<Rightarrow> False | Inr a \<Rightarrow>
        match_request a ''POST'' ''/jobs'' [] \<noteq> None))" by code_simp
  then obtain routes p a b where parsed: "parse_routes (\<lambda>_. True) ''api'' [(''route'', JObject ?t)] = Inr (routes, p)"
    and len: "length routes = 2" and same: "path_structure (rc_path (routes ! 0)) = path_structure (rc_path (routes ! 1))"
    and routes: "route_from_config (\<lambda>_. True) demo_validators (\<lambda>_. None) (routes ! 0) = Inr a"
      "route_from_config (\<lambda>_. True) demo_validators (\<lambda>_. None) (routes ! 1) = Inr b"
    and ma: "match_request a ''POST'' ''/jobs'' [] \<noteq> None" and mb: "match_request b ''POST'' ''/jobs'' [] \<noteq> None"
    by (auto split: sum.splits)
  from ma mb obtain ca cb where m: "match_request a ''POST'' ''/jobs'' [] = Some ca" "match_request b ''POST'' ''/jobs'' [] = Some cb"
    by auto
  from demo_server_parses [OF parsed] obtain s where s: "parse_server (\<lambda>_. True) ''api'' (demo_server ?t) = Inr s"
    "sv_routes s = routes" by auto
  have "rt_content_type a \<noteq> rt_content_type b"
    using accepted_routes_exclusive [OF s(1), of 0 1 "\<lambda>_. True" demo_validators "\<lambda>_. None" a b "''POST''" "''/jobs''" "[]" ca cb]
      len same routes m by (simp add: s(2))
  with s routes m show ?thesis by auto
qed

end
