(* ===== verification/Http_Server.thy ===== *)
theory Http_Server
  imports Http_Match Messaging_Service
begin

section \<open>Request handling (\<open>crates/http-server/src/server.rs\<close>)\<close>

text \<open>
  From a received request to its response: the message built from headers, body and captures, the
  call of a component or the publication to a channel, and the response built from the reply
  message. A response body is either bytes or, where the code formats a message for the client, the
  problem it reports. The message publisher is the record \<open>publisher_ops\<close>; its \<open>pb_take_within\<close> is
  \<open>tokio::time::timeout\<close> around the handle's \<open>take\<close>, \<open>None\<close> when the deadline passes first. What the
  server takes from its libraries and surroundings is the record \<open>server_env\<close>: JSON text, the
  validators, the validity of response headers, fresh identifiers and the clock, the propagation
  context of the task, and the trace parent it makes up. The tracer of the router maps the
  propagated headers to the trace parent of the host span.
\<close>

record http_request =
  rq_method :: string
  rq_path :: string
  rq_query :: "string option"
  rq_header :: "string \<Rightarrow> string option"
  rq_body :: "string + string"

datatype http_problem =
    BodyUnreadable string
  | ContentTypeMismatch string content_type
  | InvalidJsonBody
  | CaptureCollides string
  | NonObjectWithCaptures
  | TextWithCaptures
  | TextNotUtf8
  | UnsupportedMedia string
  | RequestNotConforming string
  | CallRejected mapping_error
  | InvocationError string
  | ReplyRejected mapping_error
  | ReplyNotJson
  | ReplyNotConforming string
  | ResponseNotBuilt
  | MessagingDisabled
  | NotPublished string string
  | ReplyFailed string
  | NoReplyWithin "64 word"

datatype response_body = Raw string | Problem http_problem

record http_response =
  rs_status :: nat
  rs_headers :: "(string \<times> string) list"
  rs_body :: response_body

record ('h, 's) publisher_ops =
  pb_publish :: "string \<Rightarrow> message \<Rightarrow> 's \<Rightarrow> 's \<times> (string + unit) waiting"
  pb_publish_request :: "string \<Rightarrow> message \<Rightarrow> 's \<Rightarrow> 's \<times> (string + 'h) waiting"
  pb_take_within :: "64 word \<Rightarrow> 'h \<Rightarrow> 's \<Rightarrow> 's \<times> (string + message) option"

record 'v server_env =
  se_sj :: "json \<Rightarrow> string"
  se_pj :: "string \<Rightarrow> json option"
  se_vo :: "'v validator_ops"
  se_header_name :: "string \<Rightarrow> bool"
  se_header_value :: "string \<Rightarrow> bool"
  se_form :: "string \<Rightarrow> (string \<times> string) list"
  se_uuid :: string
  se_reply_uuid :: string
  se_now :: "64 word"
  se_ambient :: "propagation_context option"
  se_fresh_traceparent :: string

record ('i, 'v, 'h, 's) router =
  ro_routes :: "'v route list"
  ro_invoker :: 'i
  ro_publisher :: "('h, 's) publisher_ops option"
  ro_tracer :: "(string hmap \<Rightarrow> string) option"

definition error_response :: "nat \<times> http_problem \<Rightarrow> http_response" where
  "error_response e = \<lparr> rs_status = fst e, rs_headers = [], rs_body = Problem (snd e) \<rparr>"

subsection \<open>From the request to a message\<close>

definition effective_content_type :: "content_type option \<Rightarrow> string option \<Rightarrow> (nat \<times> http_problem) + string option" where
  "effective_content_type route_content_type request_ct =
     (case route_content_type of
        None \<Rightarrow> Inr None
      | Some declared \<Rightarrow>
          (case request_ct of
             Some ct \<Rightarrow>
               if \<not> starts_with ct (content_type_as_str declared) then Inl (415, ContentTypeMismatch ct declared)
               else Inr (Some ct)
           | None \<Rightarrow> Inr (Some (content_type_as_str declared))))"

definition captures_to_value :: "string hmap \<Rightarrow> json" where
  "captures_to_value caps = JObject (fold (\<lambda>(k, v). bt_insert k (JString v)) caps [])"

definition merge_captures :: "string hmap \<Rightarrow> json btmap \<Rightarrow> (nat \<times> http_problem) + json btmap" where
  "merge_captures caps obj =
     fold_res (\<lambda>obj (k, v).
       if hm_get k obj \<noteq> None then Inl (400, CaptureCollides k) else Inr (bt_insert k (JString v) obj)) obj caps"

definition body_value ::
  "(string \<Rightarrow> json option) \<Rightarrow> string option \<Rightarrow> string \<Rightarrow> string hmap \<Rightarrow> (nat \<times> http_problem) + json option" where
  "body_value pj content_type body caps =
     (case content_type of
        None \<Rightarrow> Inr (if caps = [] then None else Some (captures_to_value caps))
      | Some ct \<Rightarrow>
          if body = [] then Inr (if caps = [] then None else Some (captures_to_value caps))
          else if starts_with ct ''application/json'' then
            (case pj body of
               None \<Rightarrow> Inl (400, InvalidJsonBody)
             | Some parsed \<Rightarrow>
                 if caps = [] then Inr (Some parsed)
                 else
                   (case parsed of
                      JObject obj \<Rightarrow> map_ok (\<lambda>obj. Some (JObject obj)) (merge_captures caps obj)
                    | _ \<Rightarrow> Inl (400, NonObjectWithCaptures)))
          else if starts_with ct ''text/plain'' then
            (if caps \<noteq> [] then Inl (400, TextWithCaptures)
             else if utf8_valid body then Inr (Some (JString body)) else Inl (400, TextNotUtf8))
          else Inl (415, UnsupportedMedia ct))"

definition validate_request ::
  "'v validator_ops \<Rightarrow> 'v option \<Rightarrow> json option \<Rightarrow> (nat \<times> http_problem) + unit" where
  "validate_request vo request_schema value_opt =
     (case request_schema of
        None \<Rightarrow> Inr ()
      | Some s \<Rightarrow> map_err (\<lambda>e. (400, RequestNotConforming e)) (vo_validate vo s (unwrap_or value_opt (JObject []))))"

definition serialized_body :: "(json \<Rightarrow> string) \<Rightarrow> json option \<Rightarrow> string option \<Rightarrow> string" where
  "serialized_body sj value_opt content_type =
     (case (value_opt, content_type) of
        (None, _) \<Rightarrow> []
      | (Some (JString s), Some ct) \<Rightarrow> if starts_with ct ''text/plain'' then s else sj (JString s)
      | (Some v, _) \<Rightarrow> sj v)"

definition copy_header :: "(string \<Rightarrow> string option) \<Rightarrow> string \<Rightarrow> string \<Rightarrow> message_builder \<Rightarrow> message_builder" where
  "copy_header headers source target b =
     (case headers source of Some v \<Rightarrow> builder_header target (HString v) b | None \<Rightarrow> b)"

definition build_message_from_request ::
  "'v server_env \<Rightarrow> (string \<Rightarrow> string option) \<Rightarrow> string \<Rightarrow> captures \<Rightarrow> content_type option \<Rightarrow> 'v option \<Rightarrow>
   propagated_header list \<Rightarrow> (nat \<times> http_problem) + message" where
  "build_message_from_request env headers body caps route_content_type request_schema propagate =
     attempt (effective_content_type route_content_type (headers ''content-type'')) (\<lambda>content_type.
     attempt (body_value (se_pj env) content_type body (captures_merged caps)) (\<lambda>value_opt.
     attempt (validate_request (se_vo env) request_schema value_opt) (\<lambda>_.
     let b = builder_header CONTENT_TYPE (HString (unwrap_or content_type (content_type_as_str JsonBody)))
               (builder_new (serialized_body (se_sj env) value_opt content_type));
         b = fold (\<lambda>entry. copy_header headers (ph_source entry) (ph_target entry)) propagate b;
         b = fold (\<lambda>key. copy_header headers key key) propagated_headers b
     in Inr (message_build (se_uuid env) (se_now env) (se_ambient env) b))))"

subsection \<open>From the reply to a response\<close>

definition response_bytes ::
  "'v server_env \<Rightarrow> ('v response_schema) option \<Rightarrow> string \<Rightarrow> string \<Rightarrow> http_problem + string" where
  "response_bytes env response_schema content_type body =
     (case response_schema of
        None \<Rightarrow> Inr body
      | Some s \<Rightarrow>
          if starts_with content_type ''application/json'' then
            attempt (if body = [] then Inr JNull else ok_or ReplyNotJson (se_pj env body)) (\<lambda>parsed.
            let parsed = coerce_value (se_sj env) (rsch_spec s) parsed in
            attempt (map_err ReplyNotConforming (vo_validate (se_vo env) (rsch_validator s) parsed)) (\<lambda>_.
            Inr (se_sj env parsed)))
          else Inr body)"

definition response_headers :: "message \<Rightarrow> string \<Rightarrow> propagated_header list \<Rightarrow> (string \<times> string) list" where
  "response_headers msg content_type propagate =
     (''content-type'', content_type) #
     concat (map (\<lambda>entry. case headers_get header_str (ph_source entry) (msg_headers msg) of
         Some v \<Rightarrow> [(ph_target entry, v)] | None \<Rightarrow> []) propagate)"

definition build_http_response_from_message ::
  "'v server_env \<Rightarrow> message \<Rightarrow> ('v response_schema) option \<Rightarrow> propagated_header list \<Rightarrow>
   http_problem + http_response" where
  "build_http_response_from_message env msg response_schema propagate =
     (let content_type = unwrap_or (headers_content_type (msg_headers msg)) ''application/json'' in
      attempt (response_bytes env response_schema content_type (msg_body msg)) (\<lambda>bytes.
      let hs = response_headers msg content_type propagate in
      if list_all (\<lambda>(n, v). se_header_name env n \<and> se_header_value env v) hs
      then Inr \<lparr> rs_status = 200, rs_headers = hs, rs_body = Raw bytes \<rparr>
      else Inl ResponseNotBuilt))"

subsection \<open>Targets\<close>

definition invoke_with_mapper ::
  "'v server_env \<Rightarrow> ('i, 's) invoker_ops \<Rightarrow> 'i \<Rightarrow> string \<Rightarrow> message_mapper \<Rightarrow> message \<Rightarrow> string hmap \<Rightarrow>
   ('v response_schema) option \<Rightarrow> propagated_header list \<Rightarrow> 's \<Rightarrow> 's \<times> ((nat \<times> http_problem) + http_response)" where
  "invoke_with_mapper env ops invoker component_name mapper msg propagated response_schema propagate st =
     (case to_invocation (se_sj env) (se_pj env) mapper msg of
        Inl e \<Rightarrow> (st, Inl (400, CallRejected e))
      | Inr call \<Rightarrow>
          (let ctx = (if propagated = [] then se_ambient env else Some \<lparr> pc_entries = propagated \<rparr>)
           in case iv_invoke ops invoker component_name (inv_function_key call) (inv_args call) ctx st of
                (st', Inl e) \<Rightarrow> (st', Inl (500, InvocationError e))
              | (st', Inr result) \<Rightarrow>
                  (st',
                   attempt (map_err (\<lambda>e. (500, ReplyRejected e))
                     (from_invocation_result (se_sj env) (se_pj env) (se_reply_uuid env) (se_now env) (se_ambient env)
                        mapper result propagated)) (\<lambda>reply.
                   map_err (Pair 500) (build_http_response_from_message env reply response_schema propagate)))))"

definition with_traceparent :: "'v server_env \<Rightarrow> (string hmap \<Rightarrow> string) option \<Rightarrow> string hmap \<Rightarrow> string hmap" where
  "with_traceparent env tracer propagated =
     (case tracer of
        Some span \<Rightarrow> hm_insert ''traceparent'' (span propagated) propagated
      | None \<Rightarrow>
          if hm_has ''traceparent'' propagated then propagated
          else hm_insert ''traceparent'' (se_fresh_traceparent env) propagated)"

definition invoke_component ::
  "'v server_env \<Rightarrow> ('i, 's) invoker_ops \<Rightarrow> ('i, 'v, 'h, 's) router \<Rightarrow> string \<Rightarrow> message_mapper \<Rightarrow> message \<Rightarrow>
   ('v response_schema) option \<Rightarrow> propagated_header list \<Rightarrow> 's \<Rightarrow> 's \<times> http_response" where
  "invoke_component env ops router component_name mapper msg response_schema propagate st =
     (let propagated = with_traceparent env (ro_tracer router) (collect_propagated (msg_headers msg))
      in case invoke_with_mapper env ops (ro_invoker router) component_name mapper msg propagated response_schema
                propagate st of
           (st', Inr response) \<Rightarrow> (st', response)
         | (st', Inl e) \<Rightarrow> (st', error_response e))"

definition accepted_response :: http_response where
  "accepted_response = \<lparr> rs_status = 202, rs_headers = [], rs_body = Raw [] \<rparr>"

definition reply_response ::
  "'v server_env \<Rightarrow> 64 word \<Rightarrow> ('v response_schema) option \<Rightarrow> propagated_header list \<Rightarrow> (string + message) option \<Rightarrow>
   http_response" where
  "reply_response env timeout_ms response_schema propagate reply =
     (case reply of
        Some (Inr msg) \<Rightarrow>
          (case build_http_response_from_message env msg response_schema propagate of
             Inr r \<Rightarrow> r
           | Inl e \<Rightarrow> error_response (500, e))
      | Some (Inl e) \<Rightarrow> error_response (500, ReplyFailed e)
      | None \<Rightarrow> error_response (504, NoReplyWithin timeout_ms))"

definition publish_to_channel ::
  "'v server_env \<Rightarrow> ('i, 'v, 'h, 's) router \<Rightarrow> string \<Rightarrow> message \<Rightarrow> (64 word) option \<Rightarrow>
   ('v response_schema) option \<Rightarrow> propagated_header list \<Rightarrow> 's \<Rightarrow> 's \<times> http_response waiting" where
  "publish_to_channel env router channel msg reply_timeout_ms response_schema propagate st =
     (case ro_publisher router of
        None \<Rightarrow> (st, Done (error_response (500, MessagingDisabled)))
      | Some pb \<Rightarrow>
          (case reply_timeout_ms of
             None \<Rightarrow>
               (case pb_publish pb channel msg st of
                  (st', Waits) \<Rightarrow> (st', Waits)
                | (st', Done (Inr u)) \<Rightarrow> (st', Done accepted_response)
                | (st', Done (Inl e)) \<Rightarrow> (st', Done (error_response (500, NotPublished channel e))))
           | Some timeout_ms \<Rightarrow>
               (case pb_publish_request pb channel msg st of
                  (st', Waits) \<Rightarrow> (st', Waits)
                | (st', Done (Inl e)) \<Rightarrow> (st', Done (error_response (500, NotPublished channel e)))
                | (st', Done (Inr handle)) \<Rightarrow>
                    (case pb_take_within pb timeout_ms handle st' of
                       (st'', reply) \<Rightarrow>
                         (st'', Done (reply_response env timeout_ms response_schema propagate reply))))))"

definition router_dispatch ::
  "'v server_env \<Rightarrow> ('i, 's) invoker_ops \<Rightarrow> ('i, 'v, 'h, 's) router \<Rightarrow> 'v route \<Rightarrow> captures \<Rightarrow>
   (string \<Rightarrow> string option) \<Rightarrow> string \<Rightarrow> 's \<Rightarrow> 's \<times> http_response waiting" where
  "router_dispatch env ops router r caps headers body st =
     (case build_message_from_request env headers body caps (rt_content_type r) (rt_request_schema r)
             (rt_propagate_request_headers r) of
        Inl e \<Rightarrow> (st, Done (error_response e))
      | Inr msg \<Rightarrow>
          (case rt_target r of
             CompiledComponent component_name mapper \<Rightarrow>
               (case invoke_component env ops router component_name mapper msg (rt_response_schema r)
                       (rt_propagate_response_headers r) st of
                  (st', response) \<Rightarrow> (st', Done response))
           | CompiledChannel channel reply_timeout_ms \<Rightarrow>
               publish_to_channel env router channel msg reply_timeout_ms (rt_response_schema r)
                 (rt_propagate_response_headers r) st))"

subsection \<open>The router\<close>

definition not_found_response :: http_response where
  "not_found_response = \<lparr> rs_status = 404, rs_headers = [], rs_body = Raw ''Not Found'' \<rparr>"

text \<open>The first route that matches, with its captures.\<close>

fun first_match :: "'v route list \<Rightarrow> string \<Rightarrow> string \<Rightarrow> string hmap \<Rightarrow> ('v route \<times> captures) option" where
  "first_match [] method path query = None"
| "first_match (r # rs) method path query =
     (case match_request r method path query of
        Some caps \<Rightarrow> Some (r, caps)
      | None \<Rightarrow> first_match rs method path query)"

definition router_handle ::
  "'v server_env \<Rightarrow> ('i, 's) invoker_ops \<Rightarrow> ('i, 'v, 'h, 's) router \<Rightarrow> http_request \<Rightarrow> 's \<Rightarrow>
   's \<times> http_response waiting" where
  "router_handle env ops router req st =
     (let query = parse_query_string (se_form env) (unwrap_or (rq_query req) [])
      in case rq_body req of
           Inl e \<Rightarrow> (st, Done (error_response (400, BodyUnreadable e)))
         | Inr body \<Rightarrow>
             (case first_match (ro_routes router) (rq_method req) (rq_path req) query of
                Some (r, caps) \<Rightarrow> router_dispatch env ops router r caps (rq_header req) body st
              | None \<Rightarrow> (st, Done not_found_response)))"

text \<open>\<open>HttpServer::new\<close>: the tracer is whatever could be built for the configured endpoint.\<close>

definition http_server_new ::
  "(string \<Rightarrow> bool) \<Rightarrow> 'v server_env \<Rightarrow> ('i, 's) invoker_ops \<Rightarrow> (string \<Rightarrow> string \<Rightarrow> string \<Rightarrow> (string hmap \<Rightarrow> string) option) \<Rightarrow>
   server_config \<Rightarrow> 'i \<Rightarrow> ('h, 's) publisher_ops option \<Rightarrow> route_error + ('i, 'v, 'h, 's) router" where
  "http_server_new vm env ops build_tracer config invoker publisher =
     attempt (collect_res (map (route_from_config vm (se_vo env) (iv_get_component ops invoker)) (sv_routes config))) (\<lambda>routes.
     Inr \<lparr> ro_routes = routes, ro_invoker = invoker, ro_publisher = publisher,
           ro_tracer = and_then (sv_otlp_endpoint config) (\<lambda>endpoint.
             build_tracer endpoint (sv_otlp_protocol config) (sv_name config)) \<rparr>)"

subsection \<open>The message built from a request\<close>

lemma not_both_types: "starts_with ct ''application/json'' \<Longrightarrow> \<not> starts_with ct ''text/plain''"
  by (auto simp: starts_with_iff)

lemma captures_to_value_get:
  "hm_wf caps \<Longrightarrow> captures_to_value caps = JObject obj \<Longrightarrow> hm_get k obj = map_option JString (hm_get k caps)"
proof -
  assume wf: "hm_wf caps" and obj: "captures_to_value caps = JObject obj"
  have "map_of (fold (\<lambda>(k, v). bt_insert k (JString v)) cs m) = map_of m ++ (map_option JString \<circ> map_of (rev cs))" for cs m
    by (induction cs arbitrary: m) (auto simp: map_add_def fun_eq_iff split: option.splits)
  from this [of caps "[]"] show ?thesis
    using obj map_of_rev_distinct_keys [OF wf] by (auto simp: captures_to_value_def)
qed

lemma merge_captures_get:
  assumes "merge_captures caps obj = Inr obj'"
  shows "hm_get k obj' = (case hm_get k caps of Some v \<Rightarrow> Some (JString v) | None \<Rightarrow> hm_get k obj)"
    and "hm_get k caps \<noteq> None \<Longrightarrow> hm_get k obj = None"
proof -
  have "hm_get k obj' = (case hm_get k caps of Some v \<Rightarrow> Some (JString v) | None \<Rightarrow> hm_get k obj) \<and>
      (hm_get k caps \<noteq> None \<longrightarrow> hm_get k obj = None)"
    using assms
  proof (induction caps arbitrary: obj)
    case (Cons kv caps)
    obtain k0 v0 where kv: "kv = (k0, v0)" by force
    with Cons.prems have free: "hm_get k0 obj = None" and run: "merge_captures caps (bt_insert k0 (JString v0) obj) = Inr obj'"
      by (auto simp: merge_captures_def attempt_Inr_iff split: if_splits)
    from Cons.IH [OF run] free show ?case by (cases "k = k0"; cases "hm_get k caps") (auto simp: kv)
  qed (simp add: merge_captures_def)
  then show "hm_get k obj' = (case hm_get k caps of Some v \<Rightarrow> Some (JString v) | None \<Rightarrow> hm_get k obj)"
    and "hm_get k caps \<noteq> None \<Longrightarrow> hm_get k obj = None" by simp_all
qed

lemma body_value_captures:
  assumes "body_value pj ct body caps = Inr value_opt" and "hm_wf caps" and "hm_get k caps = Some v"
  shows "\<exists>obj. value_opt = Some (JObject obj) \<and> hm_get k obj = Some (JString v)"
proof -
  have ne: "caps \<noteq> []" using assms(3) by auto
  have plain: "\<exists>obj. Some (captures_to_value caps) = Some (JObject obj) \<and> hm_get k obj = Some (JString v)"
    using captures_to_value_get [OF assms(2), of _ k] assms(3) by (simp add: captures_to_value_def)
  have merged: ?thesis if "merge_captures caps obj = Inr obj'" "value_opt = Some (JObject obj')" for obj obj'
    using merge_captures_get(1) [OF that(1), of k] that(2) assms(3) by simp
  show ?thesis
    using assms(1) ne plain merged
    by (auto simp: body_value_def map_ok_Inr_iff split: option.splits if_splits json.splits)
qed

lemma body_value_fields:
  assumes "body_value pj (Some ct) body caps = Inr value_opt" and "body \<noteq> []" and "starts_with ct ''application/json''"
  shows "\<exists>parsed. pj body = Some parsed \<and>
    (caps = [] \<longrightarrow> value_opt = Some parsed) \<and>
    (\<forall>obj k w. parsed = JObject obj \<longrightarrow> hm_get k obj = Some w \<longrightarrow>
       (\<exists>obj'. value_opt = Some (JObject obj') \<and> hm_get k obj' = Some w))"
proof -
  obtain parsed where parsed: "pj body = Some parsed" using assms by (auto simp: body_value_def split: option.splits)
  show ?thesis
  proof (cases "caps = []")
    case True
    with assms parsed show ?thesis by (auto simp: body_value_def)
  next
    case False
    with assms parsed obtain obj obj' where obj: "parsed = JObject obj" "merge_captures caps obj = Inr obj'"
      "value_opt = Some (JObject obj')"
      by (auto simp: body_value_def map_ok_Inr_iff split: json.splits)
    have "hm_get k obj' = Some w" if "hm_get k obj = Some w" for k w
      using merge_captures_get [OF obj(2), of k] that by (cases "hm_get k caps") auto
    with obj parsed False show ?thesis by auto
  qed
qed

lemma fold_copy_header:
  "mb_body (fold (\<lambda>e. copy_header headers (f e) (g e)) es b) = mb_body b"
  "k \<notin> g ` set es \<Longrightarrow> hm_get k (mb_headers (fold (\<lambda>e. copy_header headers (f e) (g e)) es b)) = hm_get k (mb_headers b)"
  by (induction es arbitrary: b) (auto simp: copy_header_def builder_header_def split: option.splits)

lemma fold_copy_propagated:
  assumes "headers key = Some v"
  shows "key \<in> set es \<Longrightarrow> hm_get key (mb_headers (fold (\<lambda>k. copy_header headers k k) es b)) = Some (HString v)"
proof (induction es arbitrary: b)
  case (Cons e es)
  show ?case
  proof (cases "key \<in> set es")
    case False
    with Cons.prems have "e = key" by simp
    have "hm_get key (mb_headers (copy_header headers e e b)) = Some (HString v)"
      using assms by (simp add: \<open>e = key\<close> copy_header_def builder_header_def)
    with False fold_copy_header(2) [of key "\<lambda>k. k" es headers "\<lambda>k. k" "copy_header headers e e b"] show ?thesis by simp
  qed (use Cons.IH in simp)
qed simp

lemma built_message:
  assumes "build_message_from_request env headers body caps rct schema propagate = Inr m"
  obtains content_type value_opt where
    "effective_content_type rct (headers ''content-type'') = Inr content_type"
    "body_value (se_pj env) content_type body (captures_merged caps) = Inr value_opt"
    "validate_request (se_vo env) schema value_opt = Inr ()"
    "msg_body m = serialized_body (se_sj env) value_opt content_type"
    "CONTENT_TYPE \<notin> ph_target ` set propagate \<Longrightarrow> headers_content_type (msg_headers m) =
       Some (unwrap_or content_type ''application/json'')"
    "\<And>key v. key \<in> set propagated_headers \<Longrightarrow> headers key = Some v \<Longrightarrow>
       hm_get key (mh_map (msg_headers m)) = Some (HString v)"
proof -
  obtain ct value_opt where steps:
    "effective_content_type rct (headers ''content-type'') = Inr ct"
    "body_value (se_pj env) ct body (captures_merged caps) = Inr value_opt"
    "validate_request (se_vo env) schema value_opt = Inr ()"
    and m: "m = message_build (se_uuid env) (se_now env) (se_ambient env)
      (fold (\<lambda>key. copy_header headers key key) propagated_headers
        (fold (\<lambda>entry. copy_header headers (ph_source entry) (ph_target entry)) propagate
          (builder_header CONTENT_TYPE (HString (unwrap_or ct ''application/json''))
            (builder_new (serialized_body (se_sj env) value_opt ct)))))"
    using assms by (auto simp: build_message_from_request_def attempt_Inr_iff Let_def)
  let ?b = "builder_header CONTENT_TYPE (HString (unwrap_or ct ''application/json''))
      (builder_new (serialized_body (se_sj env) value_opt ct))"
  let ?b1 = "fold (\<lambda>entry. copy_header headers (ph_source entry) (ph_target entry)) propagate ?b"
  let ?b2 = "fold (\<lambda>key. copy_header headers key key) propagated_headers ?b1"
  note built = message_build_headers_get [where uuid = "se_uuid env" and now = "se_now env" and ctx = "se_ambient env" and b = ?b2, folded m]
  have body: "msg_body m = serialized_body (se_sj env) value_opt ct"
    using built [where key = ID] by (simp add: fold_copy_header builder_header_def builder_new_def)
  have ctype: "headers_content_type (msg_headers m) = Some (unwrap_or ct ''application/json'')"
    if "CONTENT_TYPE \<notin> ph_target ` set propagate"
  proof -
    have "CONTENT_TYPE \<notin> (\<lambda>k. k) ` set propagated_headers" by (simp add: propagated_headers_def header_names)
    from fold_copy_header(2) [OF this] fold_copy_header(2) [OF that]
    have "hm_get CONTENT_TYPE (mb_headers ?b2) = Some (HString (unwrap_or ct ''application/json''))"
      by (simp add: builder_header_def)
    with built [where key = CONTENT_TYPE] show ?thesis by (simp add: headers_content_type_def headers_get_def)
  qed
  have "hm_get key (mh_map (msg_headers m)) = Some (HString v)" if "key \<in> set propagated_headers" "headers key = Some v" for key v
    using built [where key = key] fold_copy_propagated [where headers = headers and key = key and v = v and es = propagated_headers and b = ?b1] that
    by simp
  with steps body ctype show ?thesis by (rule that)
qed

lemma match_query_wf: "match_query captured specs query = Some c \<Longrightarrow> hm_wf captured \<Longrightarrow> hm_wf c"
  by (induction captured specs query rule: match_query.induct) (auto simp: hm_wf_insert split: query_outcome.splits)

lemma captures_merged_wf:
  assumes "match_request r method path query = Some caps"
  shows "hm_wf (captures_merged caps)"
  unfolding captures_merged_def
  by (rule hm_wf_extend [OF match_query_wf [OF match_request_fields(2) [OF assms]]]) simp


subsection \<open>Responses\<close>

text \<open>A response to a route with a response schema: a JSON body conforms to it, and has a string wherever it asks for one.\<close>

definition conforming_response :: "'v server_env \<Rightarrow> ('v response_schema) option \<Rightarrow> http_response \<Rightarrow> bool" where
  "conforming_response env schema resp \<longleftrightarrow>
     (\<forall>s. schema = Some s \<longrightarrow>
       (\<exists>ct hs bytes. rs_headers resp = (''content-type'', ct) # hs \<and> rs_body resp = Raw bytes \<and>
         (starts_with ct ''application/json'' \<longrightarrow>
           (\<exists>v. bytes = se_sj env v \<and> vo_validate (se_vo env) (rsch_validator s) v = Inr () \<and>
             string_conform (rsch_spec s) v))))"

lemma built_response:
  assumes "build_http_response_from_message env msg schema propagate = Inr resp"
  shows "rs_status resp = 200 \<and> conforming_response env schema resp"
proof -
  obtain ct bytes where ct: "ct = unwrap_or (headers_content_type (msg_headers msg)) ''application/json''"
    and bytes: "response_bytes env schema ct (msg_body msg) = Inr bytes"
    and resp: "resp = \<lparr> rs_status = 200, rs_headers = response_headers msg ct propagate, rs_body = Raw bytes \<rparr>"
    using assms by (auto simp: build_http_response_from_message_def attempt_Inr_iff Let_def split: if_splits)
  have "\<exists>v. bytes = se_sj env v \<and> vo_validate (se_vo env) (rsch_validator s) v = Inr () \<and> string_conform (rsch_spec s) v"
    if "schema = Some s" "starts_with ct ''application/json''" for s
    using bytes that coerce_value_conform
    by (auto simp: response_bytes_def attempt_Inr_iff map_err_Inr_iff Let_def split: if_splits)
  then show ?thesis by (simp add: resp response_headers_def conforming_response_def)
qed

lemma error_response_simps [simp]:
  "rs_status (error_response e) = fst e" "rs_body (error_response e) = Problem (snd e)"
  by (simp_all add: error_response_def)

lemma effective_content_type_error: "effective_content_type rct ct = Inl e \<Longrightarrow> fst e = 415"
  by (auto simp: effective_content_type_def split: option.splits if_splits)

lemma merge_captures_error: "merge_captures caps obj = Inl e \<Longrightarrow> fst e = 400"
  unfolding merge_captures_def
  by (induction caps arbitrary: obj) (auto simp: attempt_Inl_iff split: if_splits)

lemma body_value_error: "body_value pj ct body caps = Inl e \<Longrightarrow> fst e = 400 \<or> fst e = 415"
  by (auto simp: body_value_def map_ok_def dest: merge_captures_error
      split: option.splits if_splits json.splits sum.splits)

lemma validate_request_error: "validate_request vo schema v = Inl e \<Longrightarrow> fst e = 400"
  by (auto simp: validate_request_def map_err_Inl_iff split: option.splits)

lemma build_error:
  assumes "build_message_from_request env headers body caps rct schema propagate = Inl e"
  shows "fst e = 400 \<or> fst e = 415"
  using assms effective_content_type_error body_value_error validate_request_error
  unfolding build_message_from_request_def attempt_Inl_iff Let_def by blast

lemma invoke_with_mapper_outcome:
  assumes "invoke_with_mapper env ops i c mapper msg propagated schema propagate st = (st', res)"
  shows "(\<exists>resp. res = Inr resp \<and> rs_status resp = 200 \<and> conforming_response env schema resp) \<or>
    (\<exists>e. res = Inl (500, e)) \<or> (\<exists>e. res = Inl (400, e) \<and> st' = st)"
proof (cases "to_invocation (se_sj env) (se_pj env) mapper msg")
  case (Inr call)
  let ?ctx = "if propagated = [] then se_ambient env else Some \<lparr> pc_entries = propagated \<rparr>"
  obtain st1 r where run: "iv_invoke ops i c (inv_function_key call) (inv_args call) ?ctx st = (st1, r)" by force
  show ?thesis
  proof (cases r)
    case (Inl e)
    with assms run \<open>to_invocation _ _ _ _ = Inr call\<close> show ?thesis by (auto simp: invoke_with_mapper_def)
  next
    case (Inr result)
    with assms run \<open>to_invocation _ _ _ _ = Inr call\<close>
    have res: "res = attempt (map_err (\<lambda>e. (500, ReplyRejected e))
        (from_invocation_result (se_sj env) (se_pj env) (se_reply_uuid env) (se_now env) (se_ambient env)
          mapper result propagated)) (\<lambda>reply.
        map_err (Pair 500) (build_http_response_from_message env reply schema propagate))"
      by (simp add: invoke_with_mapper_def)
    show ?thesis
    proof (cases res)
      case (Inl e)
      show ?thesis using res [unfolded Inl, symmetric] by (auto simp: Inl attempt_Inl_iff map_err_Inl_iff)
    next
      case (Inr resp)
      show ?thesis using res [unfolded Inr, symmetric] by (auto simp: Inr attempt_Inr_iff map_err_Inr_iff dest!: built_response)
    qed
  qed
qed (use assms in \<open>auto simp: invoke_with_mapper_def\<close>)

lemma invoke_component_outcome:
  assumes "invoke_component env ops router c mapper msg schema propagate st = (st', resp)"
  shows "(rs_status resp = 200 \<and> conforming_response env schema resp) \<or> rs_status resp = 500 \<or>
    (rs_status resp = 400 \<and> st' = st)"
proof -
  let ?p = "with_traceparent env (ro_tracer router) (collect_propagated (msg_headers msg))"
  obtain st1 res where run: "invoke_with_mapper env ops (ro_invoker router) c mapper msg ?p schema propagate st = (st1, res)"
    by force
  with assms have "st' = st1" "resp = (case res of Inr r \<Rightarrow> r | Inl e \<Rightarrow> error_response e)"
    by (auto simp: invoke_component_def Let_def split: sum.splits)
  with invoke_with_mapper_outcome [OF run] show ?thesis by auto
qed

lemma reply_response_outcome:
  "(rs_status (reply_response env ms schema propagate reply) = 200 \<and>
      conforming_response env schema (reply_response env ms schema propagate reply)) \<or>
   rs_status (reply_response env ms schema propagate reply) \<in> {500, 504}"
  by (auto simp: reply_response_def dest!: built_response split: option.splits sum.splits)

lemma publish_to_channel_cases:
  assumes "publish_to_channel env router channel msg t schema propagate st = (st', Done resp)"
  shows "rs_status resp = 500 \<or> (t = None \<and> resp = accepted_response) \<or>
    (\<exists>ms reply. t = Some ms \<and> resp = reply_response env ms schema propagate reply)"
  using assms
  by (auto simp: publish_to_channel_def split: option.splits prod.splits waiting.splits sum.splits)

lemma dispatch_outcome:
  assumes "router_dispatch env ops router r caps headers body st = (st', Done resp)"
  shows "(rs_status resp = 200 \<and> conforming_response env (rt_response_schema r) resp) \<or>
    (rs_status resp = 202 \<and> (\<exists>channel. rt_target r = CompiledChannel channel None)) \<or>
    (rs_status resp = 504 \<and> (\<exists>channel ms. rt_target r = CompiledChannel channel (Some ms))) \<or>
    rs_status resp = 500 \<or> (rs_status resp \<in> {400, 415} \<and> st' = st)"
proof (cases "build_message_from_request env headers body caps (rt_content_type r) (rt_request_schema r)
    (rt_propagate_request_headers r)")
  case (Inl e)
  with assms build_error [OF Inl] show ?thesis by (auto simp: router_dispatch_def)
next
  case (Inr msg)
  show ?thesis
  proof (cases "rt_target r")
    case (CompiledComponent c mapper)
    with assms Inr invoke_component_outcome show ?thesis
      by (fastforce simp: router_dispatch_def split: prod.splits)
  next
    case (CompiledChannel channel t)
    with assms Inr have run: "publish_to_channel env router channel msg t (rt_response_schema r)
        (rt_propagate_response_headers r) st = (st', Done resp)" by (simp add: router_dispatch_def)
    from publish_to_channel_cases [OF run] reply_response_outcome [of env _ "rt_response_schema r" "rt_propagate_response_headers r"]
      CompiledChannel show ?thesis by (auto simp: accepted_response_def)
  qed
qed

subsection \<open>Routing\<close>

abbreviation request_query :: "'v server_env \<Rightarrow> http_request \<Rightarrow> string hmap" where
  "request_query env req \<equiv> parse_query_string (se_form env) (unwrap_or (rq_query req) [])"

lemma first_match_Some_iff:
  "first_match rs method path query = Some (r, caps) \<longleftrightarrow>
     (\<exists>i < length rs. rs ! i = r \<and> match_request r method path query = Some caps \<and>
        (\<forall>j < i. match_request (rs ! j) method path query = None))"
proof (induction rs)
  case (Cons r0 rs)
  show ?case
  proof (cases "match_request r0 method path query")
    case None
    then show ?thesis
      using Cons.IH by (auto simp: Ex_less_Suc2 All_less_Suc2)
  next
    case (Some c)
    then show ?thesis by (auto simp: Ex_less_Suc2 All_less_Suc2)
  qed
qed simp

lemma first_match_None_iff:
  "first_match rs method path query = None \<longleftrightarrow> (\<forall>r \<in> set rs. \<not> request_matches r method path query)"
proof (induction rs)
  case (Cons r rs)
  then show ?case
    using match_request_iff [of r "method" path query] by (cases "match_request r method path query") auto
qed simp

lemma first_match_exists:
  assumes "j < length rs" and "request_matches (rs ! j) method path query"
  shows "\<exists>i caps. i \<le> j \<and> first_match rs method path query = Some (rs ! i, caps)"
proof -
  have "first_match rs method path query \<noteq> None"
    using first_match_None_iff [of rs "method" path query] assms nth_mem by metis
  then obtain r caps where m: "first_match rs method path query = Some (r, caps)" by force
  then obtain i where i: "i < length rs" "rs ! i = r" "\<forall>k < i. match_request (rs ! k) method path query = None"
    unfolding first_match_Some_iff by blast
  obtain c where "match_request (rs ! j) method path query = Some c"
    using assms(2) match_request_iff [of "rs ! j"] by blast
  with i(3) have "i \<le> j" by (metis not_le_imp_less option.distinct(1))
  with m i(2) show ?thesis by blast
qed

text \<open>
  C14. The answer to a request: 404 exactly when the body could be read and no route matches; every
  other status is one of seven; a client error (400, 404, 415) leaves the system as it was, no
  component called and nothing published; 202 and 504 only come from channel routes, without and
  with a reply timeout; and a 200 from a route with a response schema carries, if it is JSON, a body
  that conforms to the schema.
\<close>

theorem response_classified:
  assumes "router_handle env ops router req st = (st', Done resp)"
  shows "(rs_status resp = 404 \<longleftrightarrow> (\<exists>body. rq_body req = Inr body) \<and>
      (\<forall>r \<in> set (ro_routes router). \<not> request_matches r (rq_method req) (rq_path req) (request_query env req))) \<and>
    rs_status resp \<in> {200, 202, 400, 404, 415, 500, 504} \<and>
    (rs_status resp \<in> {400, 404, 415} \<longrightarrow> st' = st) \<and>
    (rs_status resp \<in> {200, 202, 504} \<longrightarrow>
       (\<exists>r \<in> set (ro_routes router). request_matches r (rq_method req) (rq_path req) (request_query env req) \<and>
         (rs_status resp = 200 \<longrightarrow> conforming_response env (rt_response_schema r) resp) \<and>
         (rs_status resp = 202 \<longrightarrow> (\<exists>channel. rt_target r = CompiledChannel channel None)) \<and>
         (rs_status resp = 504 \<longrightarrow> (\<exists>channel ms. rt_target r = CompiledChannel channel (Some ms)))))"
proof (cases "rq_body req")
  case (Inl e)
  with assms show ?thesis by (auto simp: router_handle_def)
next
  case (Inr body)
  show ?thesis
  proof (cases "first_match (ro_routes router) (rq_method req) (rq_path req) (request_query env req)")
    case None
    with assms Inr first_match_None_iff [of "ro_routes router" "rq_method req"] show ?thesis
      by (auto simp: router_handle_def not_found_response_def)
  next
    case (Some m)
    obtain r caps where m: "m = (r, caps)" by force
    with Some assms Inr have run: "router_dispatch env ops router r caps (rq_header req) body st = (st', Done resp)"
      by (simp add: router_handle_def)
    obtain i where i: "i < length (ro_routes router)" "ro_routes router ! i = r"
      and mr: "match_request r (rq_method req) (rq_path req) (request_query env req) = Some caps"
      using Some unfolding m first_match_Some_iff by blast
    have r: "r \<in> set (ro_routes router)" "request_matches r (rq_method req) (rq_path req) (request_query env req)"
      using i nth_mem mr match_request_iff by blast+
    from dispatch_outcome [OF run] r Inr show ?thesis by fastforce
  qed
qed

subsection \<open>The bus as the publisher\<close>

text \<open>
  The publisher of the messaging service. While the server waits for a reply the other tasks run:
  \<open>others\<close> is what they do up to the reply or the earlier of the two deadlines, the server's and the
  one of the reply channel, which is polled first when both have passed.
\<close>

definition bus_take_within ::
  "('q, message) mpsc_ops \<Rightarrow> ('b, message) broadcast_ops \<Rightarrow>
   (('q, 'b, 'w) messaging_scheme \<Rightarrow> ('q, 'b, 'w) messaging_scheme) \<Rightarrow> 64 word \<Rightarrow> channel_return_address \<Rightarrow>
   ('q, 'b, 'w) messaging_scheme \<Rightarrow> ('q, 'b, 'w) messaging_scheme \<times> (string + message) option" where
  "bus_take_within mp bo others timeout_ms ra st0 =
     (let st = others st0 in
      case return_address_take mp bo ra st of
        (st', Done (Inr reply)) \<Rightarrow> (st', Some (Inr reply))
      | (st', Done (Inl e)) \<Rightarrow>
          if e = reply_timed_out \<and> uint timeout_ms < DEFAULT_REPLY_TIMEOUT_MS then (return_address_drop ra st, None)
          else (st', Some (Inl e))
      | (st', Waits) \<Rightarrow> (return_address_drop ra st, None))"

definition bus_publisher ::
  "('q, message) mpsc_ops \<Rightarrow> ('b, message) broadcast_ops \<Rightarrow>
   (('q, 'b, 'w) messaging_scheme \<Rightarrow> ('q, 'b, 'w) messaging_scheme) \<Rightarrow> string \<Rightarrow> string \<Rightarrow> 64 word \<Rightarrow>
   propagation_context option \<Rightarrow> (channel_return_address, ('q, 'b, 'w) messaging_scheme) publisher_ops" where
  "bus_publisher mp bo others reply_id uuid now ambient =
     \<lparr> pb_publish = bus_publish mp bo,
       pb_publish_request = publish_request mp bo reply_id uuid now ambient,
       pb_take_within = bus_take_within mp bo others \<rparr>"

lemma take_clears:
  assumes "awaiting mp bo ra replies st"
  shows "hm_get (ra_name ra) (ms_ephemeral (fst (return_address_take mp bo ra st))) = None"
proof -
  obtain c r where "consume mp bo [] (channel_at st (ra_channel ra)) REPLY_GROUP = (c, Done r)"
    using assms reply_channel_consume [of mp bo _ replies] by (fastforce simp: awaiting_def)
  then show ?thesis by (simp add: return_address_take_def Let_def registry_remove_def return_address_drop_def)
qed

lemma bus_take_outcome:
  assumes "awaiting mp bo ra replies (others st)"
  shows "\<exists>st'. bus_take_within mp bo others ms ra st =
      (st', case replies of reply # _ \<Rightarrow> Some (Inr reply)
            | [] \<Rightarrow> if uint ms < DEFAULT_REPLY_TIMEOUT_MS then None else Some (Inl reply_timed_out)) \<and>
    hm_get (ra_name ra) (ms_ephemeral st') = None"
proof -
  obtain st' where take: "return_address_take mp bo ra (others st) =
      (st', Done (case replies of [] \<Rightarrow> Inl reply_timed_out | m # _ \<Rightarrow> Inr m))"
    using awaiting_take [OF assms] by (metis prod.collapse)
  with take_clears [OF assms] have "hm_get (ra_name ra) (ms_ephemeral st') = None" by simp
  with take show ?thesis
    by (auto simp: bus_take_within_def return_address_drop_def registry_remove_def split: list.splits)
qed

lemma reply_route_run:
  assumes "ro_publisher router = Some (bus_publisher mp bo others reply_id uuid now ambient)"
    and "publish_request mp bo reply_id uuid now ambient channel msg st = (st1, Done (Inr ra))"
    and "awaiting mp bo ra replies (others st1)"
  shows "\<exists>st'. publish_to_channel env router channel msg (Some ms) schema propagate st =
      (st', Done (reply_response env ms schema propagate
         (case replies of reply # _ \<Rightarrow> Some (Inr reply)
          | [] \<Rightarrow> if uint ms < DEFAULT_REPLY_TIMEOUT_MS then None else Some (Inl reply_timed_out)))) \<and>
    hm_get (ra_name ra) (ms_ephemeral st') = None"
  using bus_take_outcome [where others = others and st = st1 and ms = ms, OF assms(3)] assms(1,2)
  by (auto simp: publish_to_channel_def bus_publisher_def)

text \<open>
  The answer to an unanswered request: a channel route that waits for a reply reports a gateway
  timeout, as it should, only for a timeout below 30 seconds; with a longer one the reply channel
  gives up first, after its own 30 seconds, and the client gets an internal server error. In both
  cases the reply address is gone.
\<close>

theorem unanswered_request_status:
  assumes "ro_publisher router = Some (bus_publisher mp bo others reply_id uuid now ambient)"
    and "publish_request mp bo reply_id uuid now ambient channel msg st = (st1, Done (Inr ra))"
    and "awaiting mp bo ra [] (others st1)"
  shows "\<exists>st'. publish_to_channel env router channel msg (Some ms) schema propagate st =
      (st', Done (error_response
         (if uint ms < 30000 then (504, NoReplyWithin ms) else (500, ReplyFailed reply_timed_out)))) \<and>
    hm_get (ra_name ra) (ms_ephemeral st') = None"
  using reply_route_run [OF assms, of env ms schema propagate]
  by (simp add: reply_response_def DEFAULT_REPLY_TIMEOUT_MS_def split: if_splits)


subsection \<open>Content types\<close>

lemma declared_types [simp]:
  "starts_with (content_type_as_str d @ t) ''application/json'' \<longleftrightarrow> d = JsonBody"
  "starts_with (content_type_as_str d @ t) ''text/plain'' \<longleftrightarrow> d = TextPlain"
  by (cases d; simp)+

lemma body_value_declared_error:
  "body_value pj (Some (content_type_as_str d @ t)) body caps = Inl e \<Longrightarrow> fst e = 400"
  by (cases d) (auto simp: body_value_def map_ok_def dest: merge_captures_error
      split: option.splits if_splits json.splits sum.splits)

lemma parse_body_parameters:
  assumes "headers_content_type (msg_headers msg) = Some (content_type_as_str d @ t)" and "t \<noteq> []"
  shows "parse_body pj msg = Inl (UnsupportedBody (content_type_as_str d @ t))"
  using assms by (cases d) (auto simp: parse_body_def)

text \<open>
  Content types with parameters: on a component route whose function takes parameters, every
  request with a body type such as \<open>application/json; charset=utf-8\<close> is refused as a bad request and
  calls nothing. The server accepts a content type by its prefix, the message mapper only the exact
  name.
\<close>

theorem content_type_parameters_rejected:
  assumes "rq_body req = Inr body"
    and "first_match (ro_routes router) (rq_method req) (rq_path req) (request_query env req) = Some (r, caps)"
    and "rt_content_type r = Some declared" and "rt_target r = CompiledComponent c mapper" and "mm_params mapper \<noteq> []"
    and "CONTENT_TYPE \<notin> ph_target ` set (rt_propagate_request_headers r)"
    and "rq_header req ''content-type'' = Some (content_type_as_str declared @ parameters)" and "parameters \<noteq> []"
  shows "\<exists>problem. router_handle env ops router req st = (st, Done (error_response (400, problem)))"
proof -
  let ?ct = "content_type_as_str declared @ parameters"
  let ?build = "build_message_from_request env (rq_header req) body caps (rt_content_type r) (rt_request_schema r)
    (rt_propagate_request_headers r)"
  have ct: "effective_content_type (rt_content_type r) (rq_header req ''content-type'') = Inr (Some ?ct)"
    by (simp add: effective_content_type_def assms(3,7))
  have run: "router_handle env ops router req st = router_dispatch env ops router r caps (rq_header req) body st"
    by (simp add: router_handle_def assms(1,2))
  show ?thesis
  proof (cases ?build)
    case (Inl e)
    then have "fst e = 400"
      unfolding build_message_from_request_def ct attempt_simps Let_def attempt_Inl_iff
      by (auto dest: body_value_declared_error validate_request_error)
    then obtain problem where "e = (400, problem)" by (cases e) auto
    with Inl show ?thesis by (auto simp: run router_dispatch_def)
  next
    case (Inr msg)
    from Inr have "headers_content_type (msg_headers msg) = Some ?ct"
      by (rule built_message) (use ct assms(6) in auto)
    from parse_body_parameters [OF this assms(8)] assms(5)
    have "to_invocation (se_sj env) (se_pj env) mapper msg = Inl (UnsupportedBody ?ct)" by (simp add: to_invocation_def)
    with Inr show ?thesis
      by (auto simp: run router_dispatch_def assms(4) invoke_component_def invoke_with_mapper_def)
  qed
qed

lemma same_structure_matches:
  assumes "path_structure p = path_structure q"
  shows "list_all2 segment_matches parts (map compile_segment (split_path p)) =
    list_all2 segment_matches parts (map compile_segment (split_path q))"
proof -
  let ?g = "\<lambda>s. if is_placeholder s then ''{}'' else s"
  have "is_placeholder ''{}''" by code_simp
  then have "segment_matches part (compile_segment s) \<longleftrightarrow> is_placeholder (?g s) \<or> part = ?g s" for part s
    by (auto simp: compile_segment_def Let_def)
  then have "list_all2 segment_matches parts (map compile_segment ss) =
      list_all2 (\<lambda>part s. is_placeholder s \<or> part = s) parts (map ?g ss)" for ss
    by (simp add: list.rel_map)
  with assms show ?thesis by (simp add: path_structure_def)
qed

lemma server_routes:
  assumes "http_server_new vm env ops bt s invoker publisher = Inr router" and "i < length (sv_routes s)"
  shows "route_from_config vm (se_vo env) (iv_get_component ops invoker) (sv_routes s ! i) = Inr (ro_routes router ! i)"
    and "length (ro_routes router) = length (sv_routes s)"
proof -
  have run: "collect_res (map (route_from_config vm (se_vo env) (iv_get_component ops invoker)) (sv_routes s)) = Inr (ro_routes router)"
    using assms(1) by (auto simp: http_server_new_def attempt_Inr_iff)
  show "route_from_config vm (se_vo env) (iv_get_component ops invoker) (sv_routes s ! i) = Inr (ro_routes router ! i)"
    using collect_res_nth [OF run] assms(2) by simp
  show "length (ro_routes router) = length (sv_routes s)" using collect_res_length [OF run] by simp
qed

text \<open>
  C34. Routes that differ only in their content type: the configuration admits them as distinct, but
  the second can never be reached. A request for it whose body type is the second route's is matched
  by the first and refused with 415.
\<close>

theorem content_type_route_shadowed:
  assumes "http_server_new vm env ops bt s invoker publisher = Inr router"
    and "i < j" and "j < length (sv_routes s)"
    and "rc_method (sv_routes s ! i) = rc_method (sv_routes s ! j)"
    and "path_structure (rc_path (sv_routes s ! i)) = path_structure (rc_path (sv_routes s ! j))"
    and "rc_query_params (sv_routes s ! i) = rc_query_params (sv_routes s ! j)"
    and "rc_content_type (sv_routes s ! i) = Some d" and "rc_content_type (sv_routes s ! j) = Some d'" and "d \<noteq> d'"
    and "rq_body req = Inr body"
    and "request_matches (ro_routes router ! j) (rq_method req) (rq_path req) (request_query env req)"
    and "\<forall>k < i. \<not> request_matches (ro_routes router ! k) (rq_method req) (rq_path req) (request_query env req)"
    and "rq_header req ''content-type'' = Some (content_type_as_str d' @ parameters)"
  shows "router_handle env iops router req st =
    (st, Done (error_response (415, ContentTypeMismatch (content_type_as_str d' @ parameters) d)))"
proof -
  let ?a = "ro_routes router ! i" and ?b = "ro_routes router ! j"
  have i: "i < length (sv_routes s)" using assms(2,3) by simp
  note fa = route_from_config_fields [OF server_routes(1) [OF assms(1) i]]
    and fb = route_from_config_fields [OF server_routes(1) [OF assms(1,3)]]
  have "request_matches ?a (rq_method req) (rq_path req) (request_query env req)"
    using assms(11) fa fb same_structure_matches [OF assms(5)] by (simp add: request_matches_def assms(4,6))
  then obtain caps where m: "match_request ?a (rq_method req) (rq_path req) (request_query env req) = Some caps"
    using match_request_iff by blast
  have "match_request (ro_routes router ! k) (rq_method req) (rq_path req) (request_query env req) = None" if "k < i" for k
    using assms(12) that match_request_iff [of "ro_routes router ! k"] by (metis option.exhaust)
  then have first: "first_match (ro_routes router) (rq_method req) (rq_path req) (request_query env req) = Some (?a, caps)"
    unfolding first_match_Some_iff using m i server_routes(2) [OF assms(1) i] by auto
  have "\<not> starts_with (content_type_as_str d' @ parameters) (content_type_as_str d)"
    using assms(9) by (cases d; cases d') simp_all
  then show ?thesis
    using fa assms(7,10,13) first
    by (simp add: router_handle_def router_dispatch_def build_message_from_request_def effective_content_type_def)
qed

subsection \<open>Examples\<close>

definition demo_env :: "unit server_env" where
  "demo_env = \<lparr> se_sj = (\<lambda>_. ''null''), se_pj = (\<lambda>_. Some (JObject [(''a'', JNull)])), se_vo = demo_validators,
     se_header_name = (\<lambda>_. True), se_header_value = (\<lambda>_. True), se_form = (\<lambda>_. []), se_uuid = ''u'', se_reply_uuid = ''v'',
     se_now = 0, se_ambient = None, se_fresh_traceparent = ''00'' \<rparr>"

definition demo_target_route :: "content_type \<Rightarrow> compiled_target \<Rightarrow> unit route" where
  "demo_target_route ct target = \<lparr> rt_name = ''jobs'', rt_method = ''POST'',
     rt_path_segments = [LiteralSegment ''jobs'', ParamSegment ''id''], rt_query_params = [], rt_content_type = Some ct,
     rt_target = target, rt_request_schema = Some (), rt_propagate_request_headers = [], rt_response_schema = None,
     rt_propagate_response_headers = [] \<rparr>"

definition log_publisher :: "(unit, message list) publisher_ops" where
  "log_publisher = \<lparr> pb_publish = (\<lambda>c m s. (m # s, Done (Inr ()))), pb_publish_request = (\<lambda>c m s. (m # s, Done (Inr ()))),
     pb_take_within = (\<lambda>t h s. (s, None)) \<rparr>"

definition log_invoker :: "(unit, message list) invoker_ops" where
  "log_invoker = \<lparr> iv_get_component = (\<lambda>i name. None), iv_invoke = (\<lambda>i c f args ctx s. (s, Inr JNull)) \<rparr>"

definition demo_router :: "'v route list \<Rightarrow> (unit, 'v, unit, message list) router" where
  "demo_router routes = \<lparr> ro_routes = routes, ro_invoker = (), ro_publisher = Some log_publisher, ro_tracer = None \<rparr>"

definition demo_http_request :: "string \<Rightarrow> string option \<Rightarrow> http_request" where
  "demo_http_request path ct = \<lparr> rq_method = ''POST'', rq_path = path, rq_query = None,
     rq_header = (\<lambda>k. if k = ''content-type'' then ct else None), rq_body = Inr ''{}'' \<rparr>"

lemma response_classified_witness:
  "\<exists>st' resp. router_handle demo_env log_invoker
       (demo_router [demo_target_route JsonBody (CompiledChannel ''in'' None)]) (demo_http_request ''/jobs/7'' None) [] = (st', Done resp) \<and>
     rs_status resp = 202 \<and> length st' = 1 \<and> rs_status resp \<notin> {400, 404, 415}"
proof -
  let ?run = "router_handle demo_env log_invoker (demo_router [demo_target_route JsonBody (CompiledChannel ''in'' None)])
    (demo_http_request ''/jobs/7'' None) []"
  have "length (fst ?run) = 1 \<and> (case snd ?run of Done r \<Rightarrow> rs_status r = 202 | Waits \<Rightarrow> False)" by code_simp
  then obtain st' resp where run: "?run = (st', Done resp)" and s: "length st' = 1" "rs_status resp = 202"
    by (cases ?run) (auto split: waiting.splits)
  from response_classified [OF run] s run show ?thesis by auto
qed


type_synonym demo_state = "(message list \<times> nat, message list_broadcast) messaging"

definition bus_router ::
  "(demo_state \<Rightarrow> demo_state) \<Rightarrow> (unit, unit, channel_return_address, demo_state) router" where
  "bus_router others = \<lparr> ro_routes = [], ro_invoker = (),
     ro_publisher = Some (bus_publisher list_mpsc list_broadcast_ops others ''1'' ''u'' 0 None), ro_tracer = None \<rparr>"

lemma unanswered_request_status_witness:
  "\<exists>st'. publish_to_channel demo_env (bus_router (\<lambda>st. st)) ''in'' demo_message (Some 60000) None [] (snd (fst demo_up)) =
     (st', Done (error_response (500, ReplyFailed reply_timed_out)))"
proof -
  have "awaiting list_mpsc list_broadcast_ops demo_ra [] (fst demo_sent)"
    using accepted_request [OF demo_exchange(5,6,8)] by simp
  from unanswered_request_status [where others = "\<lambda>st. st" and router = "bus_router (\<lambda>st. st)" and ms = 60000
      and schema = None and propagate = "[]" and env = demo_env, OF _ demo_exchange(8) this]
  show ?thesis by (auto simp: bus_router_def)
qed


lemma content_type_parameters_rejected_witness:
  "\<exists>problem. router_handle demo_env log_invoker (demo_router [demo_target_route JsonBody (CompiledComponent ''c'' mapper_example)])
       (demo_http_request ''/jobs/7'' (Some ''application/json; charset=utf-8'')) [] = ([], Done (error_response (400, problem)))"
proof -
  let ?r = "demo_target_route JsonBody (CompiledComponent ''c'' mapper_example)"
    and ?req = "demo_http_request ''/jobs/7'' (Some ''application/json; charset=utf-8'')"
  have "rq_body ?req = Inr ''{}''" by (simp add: demo_http_request_def)
  moreover have "first_match (ro_routes (demo_router [?r])) (rq_method ?req) (rq_path ?req) (request_query demo_env ?req) \<noteq> None" by code_simp
  then obtain caps where "first_match (ro_routes (demo_router [?r])) (rq_method ?req) (rq_path ?req) (request_query demo_env ?req) = Some (?r, caps)"
    unfolding demo_router_def by (auto split: option.splits)
  moreover have "mm_params mapper_example \<noteq> []" by (simp add: mapper_example_def)
  ultimately show ?thesis
    using content_type_parameters_rejected [where req = ?req and router = "demo_router [?r]" and env = demo_env and r = ?r
        and declared = JsonBody and parameters = "''; charset=utf-8''" and c = "''c''" and mapper = mapper_example and body = "''{}''"
        and ops = log_invoker and st = "[]"]
    by (simp add: demo_target_route_def demo_http_request_def)
qed

lemma content_type_route_shadowed_witness:
  "\<exists>s router. parse_server (\<lambda>_. True) ''api'' (demo_server
       [(''a'', demo_channel_route [(''path'', JString ''/jobs'')]),
        (''b'', demo_channel_route [(''path'', JString ''/jobs''), (''content-type'', JString ''text/plain'')])]) = Inr s \<and>
     http_server_new (\<lambda>_. True) demo_env log_invoker (\<lambda>_ _ _. None) s () (Some log_publisher) = Inr router \<and>
     router_handle demo_env log_invoker router (demo_http_request ''/jobs'' (Some ''text/plain'')) [] =
       ([], Done (error_response (415, ContentTypeMismatch ''text/plain'' JsonBody)))"
proof -
  let ?t = "[(''a'', demo_channel_route [(''path'', JString ''/jobs'')]),
        (''b'', demo_channel_route [(''path'', JString ''/jobs''), (''content-type'', JString ''text/plain'')])]"
    and ?req = "demo_http_request ''/jobs'' (Some ''text/plain'')"
    and ?compile = "route_from_config (\<lambda>_. True) demo_validators (\<lambda>_. None)"
  have "(case parse_routes (\<lambda>_. True) ''api'' [(''route'', JObject ?t)] of Inl _ \<Rightarrow> False | Inr (routes, p) \<Rightarrow>
      length routes = 2 \<and> path_structure (rc_path (routes ! 0)) = path_structure (rc_path (routes ! 1)) \<and>
      rc_method (routes ! 0) = rc_method (routes ! 1) \<and> rc_query_params (routes ! 0) = rc_query_params (routes ! 1) \<and>
      rc_content_type (routes ! 0) = Some JsonBody \<and> rc_content_type (routes ! 1) = Some TextPlain \<and>
      (case collect_res (map ?compile routes) of Inl _ \<Rightarrow> False | Inr rs \<Rightarrow>
        match_request (rs ! 1) ''POST'' ''/jobs'' [] \<noteq> None))" by code_simp
  then obtain routes p rs where parsed: "parse_routes (\<lambda>_. True) ''api'' [(''route'', JObject ?t)] = Inr (routes, p)"
    and same: "length routes = 2" "path_structure (rc_path (routes ! 0)) = path_structure (rc_path (routes ! 1))"
      "rc_method (routes ! 0) = rc_method (routes ! 1)" "rc_query_params (routes ! 0) = rc_query_params (routes ! 1)"
      "rc_content_type (routes ! 0) = Some JsonBody" "rc_content_type (routes ! 1) = Some TextPlain"
    and rs: "collect_res (map ?compile routes) = Inr rs" "match_request (rs ! 1) ''POST'' ''/jobs'' [] \<noteq> None"
    by (auto split: sum.splits)
  let ?router = "demo_router rs"
  from demo_server_parses [OF parsed] obtain s where s: "parse_server (\<lambda>_. True) ''api'' (demo_server ?t) = Inr s"
    "sv_routes s = routes" "sv_otlp_endpoint s = None" by auto
  have new: "http_server_new (\<lambda>_. True) demo_env log_invoker (\<lambda>_ _ _. None) s () (Some log_publisher) = Inr ?router"
    using rs(1) by (simp add: http_server_new_def s demo_env_def log_invoker_def demo_router_def)
  have "request_matches (rs ! 1) ''POST'' ''/jobs'' []" using rs(2) match_request_iff [of "rs ! 1" "''POST''"] by blast
  moreover have "request_query demo_env ?req = []" by (simp add: parse_query_string_def demo_env_def hm_extend_def)
  ultimately have "request_matches (ro_routes ?router ! 1) (rq_method ?req) (rq_path ?req) (request_query demo_env ?req)"
    by (simp add: demo_router_def demo_http_request_def)
  from content_type_route_shadowed [OF new, where i = 0 and j = 1 and d = JsonBody and d' = TextPlain and req = ?req
      and body = "''{}''" and parameters = "[]" and iops = log_invoker and st = "[]"] this same s
  show ?thesis using new by (auto simp: demo_http_request_def)
qed

end
