(* ===== verification/Http_Service.thy ===== *)
theory Http_Service
  imports Http_Server
begin

section \<open>The HTTP service (\<open>crates/http-server/src/service.rs\<close>, \<open>HttpServer::run\<close>)\<close>

text \<open>
  The service that owns the parsed servers, starts one router per server and stops them. The
  sockets are the operating system's: a run of a server is the list of what its \<open>select!\<close> loop sees,
  accepted connections, a failed accept, or the change of the shutdown flag. A task is the name of a
  server with its port and router.
\<close>

record ('i, 'v, 'h, 's) http_task =
  ht_name :: string
  ht_port :: "16 word"
  ht_router :: "('i, 'v, 'h, 's) router"

record ('i, 'v, 'h, 's) http_service =
  hs_handler :: http_handler
  hs_invoker :: "'i option"
  hs_publisher :: "('h, 's) publisher_ops option"
  hs_shutdown :: bool
  hs_tasks :: "('i, 'v, 'h, 's) http_task list"

datatype service_error = InvokerNotSet | ServerNotBuilt route_error

definition http_service_default :: "('i, 'v, 'h, 's) http_service" where
  "http_service_default = \<lparr> hs_handler = \<lparr> hh_servers = [] \<rparr>, hs_invoker = None, hs_publisher = None,
     hs_shutdown = False, hs_tasks = [] \<rparr>"

definition http_set_invoker :: "'i \<Rightarrow> ('i, 'v, 'h, 's) http_service \<Rightarrow> ('i, 'v, 'h, 's) http_service" where
  "http_set_invoker i svc = svc \<lparr> hs_invoker := Some i \<rparr>"

definition http_set_publisher ::
  "('h, 's) publisher_ops \<Rightarrow> ('i, 'v, 'h, 's) http_service \<Rightarrow> ('i, 'v, 'h, 's) http_service" where
  "http_set_publisher p svc = svc \<lparr> hs_publisher := Some p \<rparr>"

text \<open>The loop over the servers: an error returns at once, with the tasks spawned so far.\<close>

fun start_servers ::
  "(server_config \<Rightarrow> route_error + ('i, 'v, 'h, 's) router) \<Rightarrow> server_config list \<Rightarrow> ('i, 'v, 'h, 's) http_task list \<Rightarrow>
   ('i, 'v, 'h, 's) http_task list \<times> (service_error + unit)" where
  "start_servers new [] tasks = (tasks, Inr ())"
| "start_servers new (config # configs) tasks =
     (case new config of
        Inl e \<Rightarrow> (tasks, Inl (ServerNotBuilt e))
      | Inr router \<Rightarrow>
          start_servers new configs
            (tasks @ [\<lparr> ht_name = sv_name config, ht_port = sv_port config, ht_router = router \<rparr>]))"

definition http_service_start ::
  "(string \<Rightarrow> bool) \<Rightarrow> 'v server_env \<Rightarrow> ('i, 's) invoker_ops \<Rightarrow> (string \<Rightarrow> string \<Rightarrow> string \<Rightarrow> (string hmap \<Rightarrow> string) option) \<Rightarrow>
   ('i, 'v, 'h, 's) http_service \<Rightarrow> ('i, 'v, 'h, 's) http_service \<times> (service_error + unit)" where
  "http_service_start vm env ops bt svc =
     (case hs_invoker svc of
        None \<Rightarrow> (svc, Inl InvokerNotSet)
      | Some invoker \<Rightarrow>
          (let servers = hh_servers (hs_handler svc);
               svc = svc \<lparr> hs_handler := \<lparr> hh_servers = [] \<rparr> \<rparr>
           in if servers = [] then (svc, Inr ())
              else
                (case start_servers (\<lambda>config. http_server_new vm env ops bt config invoker (hs_publisher svc))
                        servers (hs_tasks svc) of
                   (tasks, res) \<Rightarrow> (svc \<lparr> hs_tasks := tasks \<rparr>, res))))"

text \<open>\<open>shutdown\<close> raises the flag, takes the tasks and waits for each of them.\<close>

definition http_service_shutdown ::
  "('i, 'v, 'h, 's) http_service \<Rightarrow> ('i, 'v, 'h, 's) http_service \<times> ('i, 'v, 'h, 's) http_task list" where
  "http_service_shutdown svc = (svc \<lparr> hs_shutdown := True, hs_tasks := [] \<rparr>, hs_tasks svc)"

datatype 'c server_event = Accepted 'c | AcceptFailed string | ShutdownChanged

text \<open>The connections a server has spawned, and whether and how its loop has ended.\<close>

fun accept_loop :: "'c list \<Rightarrow> 'c server_event list \<Rightarrow> 'c list \<times> (string + unit) waiting" where
  "accept_loop conns [] = (conns, Waits)"
| "accept_loop conns (Accepted c # events) = accept_loop (conns @ [c]) events"
| "accept_loop conns (AcceptFailed e # events) = (conns, Done (Inl e))"
| "accept_loop conns (ShutdownChanged # events) = (conns, Done (Inr ()))"

subsection \<open>Started servers\<close>

lemma start_servers_ok:
  assumes "start_servers new configs tasks = (tasks', Inr ())"
  shows "\<exists>routers. collect_res (map new configs) = Inr routers \<and>
    tasks' = tasks @ map2 (\<lambda>config router. \<lparr> ht_name = sv_name config, ht_port = sv_port config, ht_router = router \<rparr>)
      configs routers"
  using assms
proof (induction configs arbitrary: tasks)
  case (Cons config configs)
  then obtain router where router: "new config = Inr router" by (auto split: sum.splits)
  from Cons.prems router Cons.IH [of "tasks @ [\<lparr> ht_name = sv_name config, ht_port = sv_port config, ht_router = router \<rparr>]"]
  obtain routers where "collect_res (map new configs) = Inr routers"
    "tasks' = tasks @ \<lparr> ht_name = sv_name config, ht_port = sv_port config, ht_router = router \<rparr> #
      map2 (\<lambda>config router. \<lparr> ht_name = sv_name config, ht_port = sv_port config, ht_router = router \<rparr>) configs routers"
    by auto
  with router show ?case by (intro exI [of _ "router # routers"]) (simp add: attempt_Inr_iff)
qed simp

lemma start_servers_failed:
  assumes "start_servers new configs tasks = (tasks', Inl e)"
  shows "\<exists>config \<in> set configs. \<exists>re. new config = Inl re \<and> e = ServerNotBuilt re"
  using assms by (induction configs arbitrary: tasks) (auto split: sum.splits)

lemma started_service:
  assumes "http_service_start vm env ops bt svc = (svc', Inr ())" and "hs_tasks svc = []"
  shows "map ht_name (hs_tasks svc') = map sv_name (hh_servers (hs_handler svc)) \<and> hh_servers (hs_handler svc') = [] \<and>
    (\<forall>i < length (hs_tasks svc'). \<exists>invoker. hs_invoker svc = Some invoker \<and>
       http_server_new vm env ops bt (hh_servers (hs_handler svc) ! i) invoker (hs_publisher svc) =
         Inr (ht_router (hs_tasks svc' ! i)))"
proof -
  obtain invoker where invoker: "hs_invoker svc = Some invoker"
    using assms(1) by (auto simp: http_service_start_def split: option.splits)
  let ?new = "\<lambda>config. http_server_new vm env ops bt config invoker (hs_publisher svc)"
  show ?thesis
  proof (cases "hh_servers (hs_handler svc) = []")
    case True
    with assms invoker show ?thesis by (auto simp: http_service_start_def)
  next
    case False
    obtain tasks where run: "start_servers ?new (hh_servers (hs_handler svc)) [] = (tasks, Inr ())"
      and svc': "hs_tasks svc' = tasks" "hh_servers (hs_handler svc') = []"
      using assms invoker False by (auto simp: http_service_start_def Let_def split: prod.splits)
    from start_servers_ok [OF run] obtain routers where r: "collect_res (map ?new (hh_servers (hs_handler svc))) = Inr routers"
      "tasks = map2 (\<lambda>config router. \<lparr> ht_name = sv_name config, ht_port = sv_port config, ht_router = router \<rparr>)
        (hh_servers (hs_handler svc)) routers" by auto
    have len: "length routers = length (hh_servers (hs_handler svc))" using collect_res_length [OF r(1)] by simp
    have "map ht_name tasks = map sv_name (hh_servers (hs_handler svc))"
      using len by (auto simp: r(2) intro: nth_equalityI)
    with svc' invoker collect_res_nth [OF r(1)] len show ?thesis by (auto simp: r(2))
  qed
qed

lemma accept_loop_before:
  "accept_loop conns events = (conns', r) \<Longrightarrow>
     conns' = conns @ concat (map (\<lambda>e. case e of Accepted c \<Rightarrow> [c] | _ \<Rightarrow> [])
       (takeWhile (\<lambda>e. \<exists>c. e = Accepted c) events)) \<and>
     (r = Waits \<longleftrightarrow> (\<forall>e \<in> set events. \<exists>c. e = Accepted c))"
  by (induction conns events rule: accept_loop.induct) auto

text \<open>
  The life of a server: after a start that succeeded there is one task per configured server, in
  order, with the router compiled from its configuration and this service's invoker and publisher, and
  no configuration is left to be started again; a server serves every connection accepted before its
  loop ends, and the loop ends at the first shutdown signal or failed accept, and only then.
\<close>

theorem http_servers_run:
  assumes "http_service_start vm env ops bt svc = (svc', Inr ())" and "hs_tasks svc = []"
    and "accept_loop [] events = (conns, r)"
  shows "map ht_name (hs_tasks svc') = map sv_name (hh_servers (hs_handler svc)) \<and> hh_servers (hs_handler svc') = [] \<and>
    (\<forall>i < length (hs_tasks svc'). \<exists>invoker. hs_invoker svc = Some invoker \<and>
       http_server_new vm env ops bt (hh_servers (hs_handler svc) ! i) invoker (hs_publisher svc) =
         Inr (ht_router (hs_tasks svc' ! i))) \<and>
    conns = concat (map (\<lambda>e. case e of Accepted c \<Rightarrow> [c] | _ \<Rightarrow> []) (takeWhile (\<lambda>e. \<exists>c. e = Accepted c) events)) \<and>
    (r = Waits \<longleftrightarrow> (\<forall>e \<in> set events. \<exists>c. e = Accepted c))"
  using started_service [OF assms(1,2)] accept_loop_before [OF assms(3)] by simp

end
