(* ===== verification/Wit_Types.thy ===== *)
theory Wit_Types
  imports Rust_Maps
begin

section \<open>WIT types seen by the interceptor (\<open>crates/interceptor/src/types.rs\<close>)\<close>

text \<open>
  The arena of wit-parser, as far as the interceptor reads it, and the questions it asks of a type: its
  discriminant in the advice protocol, its name, and whether values of it need memory. \<open>Resolve\<close> holds
  its types, interfaces, worlds and packages in arenas, here lists, and an identifier is a position.

  The source follows type references without a bound. Here each function has fuel, one unit per
  reference, and \<open>None\<close> means that it ran out (or that an identifier lies outside the arena, where
  the arena's index panics). \<open>ordered_types\<close> is what wit-parser guarantees: WIT has no recursive
  types, and the arena holds a type after the types it refers to. Then as much fuel as there are types
  is enough, which is the termination of the source's functions.
\<close>

subsection \<open>The arena\<close>

datatype wtype =
    WBool | WU8 | WU16 | WU32 | WU64 | WS8 | WS16 | WS32 | WS64 | WF32 | WF64
  | WChar | WString | WErrorContext | WId nat

datatype handle = HOwn nat | HBorrow nat

datatype type_kind =
    KRecord "(string \<times> wtype) list"
  | KResource
  | KHandle handle
  | KFlags "string list"
  | KTuple "wtype list"
  | KVariant "(string \<times> wtype option) list"
  | KEnum "string list"
  | KOption wtype
  | KResult "wtype option" "wtype option"
  | KList wtype
  | KMap wtype wtype
  | KFixedLengthList wtype nat
  | KFuture "wtype option"
  | KStream "wtype option"
  | KType wtype
  | KUnknown

datatype type_owner = OwnerWorld nat | OwnerInterface nat | OwnerNone

record type_def =
  td_name :: "string option"
  td_kind :: type_kind
  td_owner :: type_owner

record wit_function =
  wf_name :: string
  wf_params :: "(string \<times> wtype) list"
  wf_result :: "wtype option"
  wf_docs :: "string option"

record wit_interface =
  wi_name :: "string option"
  wi_types :: "(string \<times> nat) list"
  wi_functions :: "(string \<times> wit_function) list"
  wi_package :: "nat option"

datatype world_item = ItemInterface nat | ItemFunction wit_function | ItemType nat

record wit_world =
  ww_name :: string
  ww_imports :: "(string \<times> world_item) list"
  ww_exports :: "(string \<times> world_item) list"
  ww_package :: "nat option"

record wit_package =
  wp_namespace :: string
  wp_name :: string
  wp_version :: "string option"

record resolve =
  rs_types :: "type_def list"
  rs_interfaces :: "wit_interface list"
  rs_worlds :: "wit_world list"
  rs_packages :: "wit_package list"

definition type_at :: "resolve \<Rightarrow> nat \<Rightarrow> type_def option" where
  "type_at rs i = (if i < length (rs_types rs) then Some (rs_types rs ! i) else None)"

text \<open>The types a kind is made of, in the order in which the source visits them.\<close>

fun handle_id :: "handle \<Rightarrow> nat" where
  "handle_id (HOwn i) = i"
| "handle_id (HBorrow i) = i"

fun child_types :: "type_kind \<Rightarrow> wtype list" where
  "child_types (KRecord fs) = map snd fs"
| "child_types (KTuple ts) = ts"
| "child_types (KVariant cs) = List.map_filter snd cs"
| "child_types (KOption t) = [t]"
| "child_types (KResult ok err) = List.map_filter (\<lambda>t. t) [ok, err]"
| "child_types (KList t) = [t]"
| "child_types (KType t) = [t]"
| "child_types (KHandle h) = [WId (handle_id h)]"
| "child_types (KFuture t) = List.map_filter (\<lambda>t. t) [t]"
| "child_types (KStream t) = List.map_filter (\<lambda>t. t) [t]"
| "child_types (KMap k v) = [k, v]"
| "child_types (KFixedLengthList t n) = [t]"
| "child_types (KFlags names) = []"
| "child_types (KEnum names) = []"
| "child_types KResource = []"
| "child_types KUnknown = []"

subsection \<open>Questions about a type\<close>

fun value_discriminant :: "nat \<Rightarrow> resolve \<Rightarrow> wtype \<Rightarrow> nat option" where
  "value_discriminant fuel rs WString = Some 0"
| "value_discriminant fuel rs WS8 = Some 1"
| "value_discriminant fuel rs WS16 = Some 1"
| "value_discriminant fuel rs WS32 = Some 1"
| "value_discriminant fuel rs WS64 = Some 1"
| "value_discriminant fuel rs WU8 = Some 2"
| "value_discriminant fuel rs WU16 = Some 2"
| "value_discriminant fuel rs WU32 = Some 2"
| "value_discriminant fuel rs WU64 = Some 2"
| "value_discriminant fuel rs WChar = Some 2"
| "value_discriminant fuel rs WF32 = Some 3"
| "value_discriminant fuel rs WF64 = Some 4"
| "value_discriminant fuel rs WBool = Some 5"
| "value_discriminant fuel rs WErrorContext = Some 6"
| "value_discriminant 0 rs (WId i) = None"
| "value_discriminant (Suc fuel) rs (WId i) =
     (case type_at rs i of
        None \<Rightarrow> None
      | Some td \<Rightarrow> (case td_kind td of KType t \<Rightarrow> value_discriminant fuel rs t | _ \<Rightarrow> Some 6))"

fun kind_name :: "type_kind \<Rightarrow> string" where
  "kind_name (KRecord fs) = ''record''"
| "kind_name (KList t) = ''list''"
| "kind_name (KTuple ts) = ''tuple''"
| "kind_name (KVariant cs) = ''variant''"
| "kind_name (KEnum names) = ''enum''"
| "kind_name (KFlags names) = ''flags''"
| "kind_name (KOption t) = ''option''"
| "kind_name (KResult ok err) = ''result''"
| "kind_name (KHandle h) = ''handle''"
| "kind_name KResource = ''resource''"
| "kind_name (KFuture t) = ''future''"
| "kind_name (KStream t) = ''stream''"
| "kind_name (KMap k v) = ''map''"
| "kind_name (KFixedLengthList t n) = ''fixed-length-list''"
| "kind_name (KType t) = []"
| "kind_name KUnknown = ''unknown''"

fun type_name_str :: "nat \<Rightarrow> resolve \<Rightarrow> wtype \<Rightarrow> string option" where
  "type_name_str fuel rs WBool = Some ''bool''"
| "type_name_str fuel rs WU8 = Some ''u8''"
| "type_name_str fuel rs WU16 = Some ''u16''"
| "type_name_str fuel rs WU32 = Some ''u32''"
| "type_name_str fuel rs WU64 = Some ''u64''"
| "type_name_str fuel rs WS8 = Some ''s8''"
| "type_name_str fuel rs WS16 = Some ''s16''"
| "type_name_str fuel rs WS32 = Some ''s32''"
| "type_name_str fuel rs WS64 = Some ''s64''"
| "type_name_str fuel rs WF32 = Some ''f32''"
| "type_name_str fuel rs WF64 = Some ''f64''"
| "type_name_str fuel rs WChar = Some ''char''"
| "type_name_str fuel rs WString = Some ''string''"
| "type_name_str fuel rs WErrorContext = Some ''unknown''"
| "type_name_str 0 rs (WId i) = None"
| "type_name_str (Suc fuel) rs (WId i) =
     (case type_at rs i of
        None \<Rightarrow> None
      | Some td \<Rightarrow>
          (case td_name td of
             Some name \<Rightarrow> Some name
           | None \<Rightarrow> (case td_kind td of KType t \<Rightarrow> type_name_str fuel rs t | k \<Rightarrow> Some (kind_name k))))"

text \<open>\<open>any\<close> of the source, which stops at the first element that has the property.\<close>

fun any_opt :: "('a \<Rightarrow> bool option) \<Rightarrow> 'a list \<Rightarrow> bool option" where
  "any_opt p [] = Some False"
| "any_opt p (x # xs) = (case p x of None \<Rightarrow> None | Some True \<Rightarrow> Some True | Some False \<Rightarrow> any_opt p xs)"

fun type_needs_memory :: "nat \<Rightarrow> resolve \<Rightarrow> wtype \<Rightarrow> bool option" where
  "type_needs_memory fuel rs WString = Some True"
| "type_needs_memory 0 rs (WId i) = None"
| "type_needs_memory (Suc fuel) rs (WId i) =
     (case type_at rs i of
        None \<Rightarrow> None
      | Some td \<Rightarrow>
          (case td_kind td of
             KRecord fs \<Rightarrow> any_opt (type_needs_memory fuel rs) (map snd fs)
           | KList t \<Rightarrow> Some True
           | KTuple ts \<Rightarrow> any_opt (type_needs_memory fuel rs) ts
           | KVariant cs \<Rightarrow> any_opt (type_needs_memory fuel rs) (List.map_filter snd cs)
           | KOption t \<Rightarrow> type_needs_memory fuel rs t
           | KResult ok err \<Rightarrow> any_opt (type_needs_memory fuel rs) (List.map_filter (\<lambda>t. t) [ok, err])
           | KType t \<Rightarrow> type_needs_memory fuel rs t
           | KMap k v \<Rightarrow> any_opt (type_needs_memory fuel rs) [k, v]
           | KFixedLengthList t n \<Rightarrow> type_needs_memory fuel rs t
           | _ \<Rightarrow> Some False))"
| "type_needs_memory fuel rs _ = Some False"

definition func_needs_memory :: "nat \<Rightarrow> resolve \<Rightarrow> wit_function \<Rightarrow> bool option" where
  "func_needs_memory fuel rs f =
     any_opt (type_needs_memory fuel rs) (map snd (wf_params f) @ (case wf_result f of Some t \<Rightarrow> [t] | None \<Rightarrow> []))"

subsection \<open>Exports of the target world\<close>

datatype function_export = Intercepted wit_function | Bypassed wit_function

fun export_func :: "function_export \<Rightarrow> wit_function" where
  "export_func (Intercepted f) = f"
| "export_func (Bypassed f) = f"

definition export_func_name :: "function_export \<Rightarrow> string" where
  "export_func_name fe = wf_name (export_func fe)"

record interface_export =
  ie_interface :: nat
  ie_full_name :: string
  ie_functions :: "function_export list"
  ie_owned_types :: "string list"
  ie_used_types :: "string list"

datatype world_export = ExportInterface interface_export | ExportFunction function_export

record type_import =
  ti_interface :: nat
  ti_full_name :: string
  ti_type_names :: "string list"

record target_world =
  tw_resolve :: resolve
  tw_world :: nat
  tw_exports :: "world_export list"
  tw_type_imports :: "type_import list"

subsection \<open>Core types\<close>

datatype wasm_type = WasmI32 | WasmI64 | WasmF32 | WasmF64 | WasmPointer | WasmPointerOrI64 | WasmLength

datatype core_type = I32 | I64 | F32 | F64

fun wasm_type_str :: "wasm_type \<Rightarrow> core_type" where
  "wasm_type_str WasmI32 = I32"
| "wasm_type_str WasmPointer = I32"
| "wasm_type_str WasmLength = I32"
| "wasm_type_str WasmI64 = I64"
| "wasm_type_str WasmPointerOrI64 = I64"
| "wasm_type_str WasmF32 = F32"
| "wasm_type_str WasmF64 = F64"

datatype intercept_error = TooManyFlatFields wtype | NoInterfaceName nat | NoPackage nat
  | WorldCount nat | DecodeError string | OutsideArena

text \<open>\<open>Resolve::push_flat\<close> into a buffer of 64 is the parameter \<open>pf\<close>; \<open>None\<close>: it does not fit.\<close>

definition flat_types :: "(resolve \<Rightarrow> wtype \<Rightarrow> wasm_type list option) \<Rightarrow> resolve \<Rightarrow> wtype \<Rightarrow> intercept_error + core_type list" where
  "flat_types pf rs t =
     (case pf rs t of None \<Rightarrow> Inl (TooManyFlatFields t) | Some ws \<Rightarrow> Inr (map wasm_type_str ws))"

subsection \<open>Enough fuel\<close>

definition ordered_types :: "resolve \<Rightarrow> bool" where
  "ordered_types rs \<longleftrightarrow>
     (\<forall>i < length (rs_types rs). \<forall>j. WId j \<in> set (child_types (td_kind (rs_types rs ! i))) \<longrightarrow> j < i)"

fun type_below :: "nat \<Rightarrow> wtype \<Rightarrow> bool" where
  "type_below n (WId i) \<longleftrightarrow> i < n"
| "type_below n t \<longleftrightarrow> True"

definition in_arena :: "resolve \<Rightarrow> wtype \<Rightarrow> bool" where
  "in_arena rs t \<longleftrightarrow> type_below (length (rs_types rs)) t"

lemma type_below_child:
  assumes "ordered_types rs" and "i < length (rs_types rs)" and "t \<in> set (child_types (td_kind (rs_types rs ! i)))"
  shows "type_below i t"
  using assms by (cases t) (auto simp: ordered_types_def)

lemma any_opt_total: "(\<And>x. x \<in> set xs \<Longrightarrow> p x \<noteq> None) \<Longrightarrow> any_opt p xs \<noteq> None"
proof (induction xs)
  case (Cons x xs)
  then obtain b where "p x = Some b" by fastforce
  with Cons show ?case by (cases b) auto
qed simp

lemma any_opt_Some:
  "any_opt p xs = Some b \<Longrightarrow> (\<And>x. x \<in> set xs \<Longrightarrow> p x \<noteq> None) \<Longrightarrow> b \<longleftrightarrow> (\<exists>x \<in> set xs. p x = Some True)"
  by (induction xs) (auto split: option.splits bool.splits)

lemma child_step:
  assumes "ordered_types rs" and "type_below (Suc fuel) (WId i)" and "in_arena rs (WId i)"
    and "t \<in> set (child_types (td_kind (rs_types rs ! i)))"
  shows "type_below fuel t" "in_arena rs t"
proof -
  have "type_below i t" using assms by (intro type_below_child) (auto simp: in_arena_def)
  with assms(2,3) show "type_below fuel t" "in_arena rs t" by (cases t; auto simp: in_arena_def)+
qed

lemma value_discriminant_total:
  "ordered_types rs \<Longrightarrow> type_below fuel t \<Longrightarrow> in_arena rs t \<Longrightarrow> \<exists>d \<le> 6. value_discriminant fuel rs t = Some d"
proof (induction fuel rs t rule: value_discriminant.induct)
  case (16 fuel rs i)
  then show ?case
    using child_step [of rs fuel i] by (auto simp: type_at_def in_arena_def split: type_kind.split)
qed auto

lemma type_name_str_total:
  "ordered_types rs \<Longrightarrow> type_below fuel t \<Longrightarrow> in_arena rs t \<Longrightarrow> \<exists>s. type_name_str fuel rs t = Some s"
proof (induction fuel rs t rule: type_name_str.induct)
  case (16 fuel rs i)
  then show ?case
    using child_step [of rs fuel i] by (auto simp: type_at_def in_arena_def split: option.split type_kind.split)
qed auto

text \<open>Which types hold text or lists: directly, or in a part that is stored in the value itself.\<close>

fun inline_kind :: "type_kind \<Rightarrow> bool" where
  "inline_kind (KHandle h) = False"
| "inline_kind (KFuture t) = False"
| "inline_kind (KStream t) = False"
| "inline_kind (KList t) = False"
| "inline_kind _ = True"

inductive holds_memory :: "resolve \<Rightarrow> wtype \<Rightarrow> bool" for rs where
  text_type: "holds_memory rs WString"
| list_type: "type_at rs i = Some td \<Longrightarrow> td_kind td = KList t \<Longrightarrow> holds_memory rs (WId i)"
| part_type: "type_at rs i = Some td \<Longrightarrow> inline_kind (td_kind td) \<Longrightarrow> t \<in> set (child_types (td_kind td)) \<Longrightarrow>
    holds_memory rs t \<Longrightarrow> holds_memory rs (WId i)"

inductive_cases holds_memory_id: "holds_memory rs (WId i)"
inductive_simps holds_memory_simps [simp]: "holds_memory rs WString" "holds_memory rs WBool" "holds_memory rs WChar"
  "holds_memory rs WU8" "holds_memory rs WU16" "holds_memory rs WU32" "holds_memory rs WU64"
  "holds_memory rs WS8" "holds_memory rs WS16" "holds_memory rs WS32" "holds_memory rs WS64"
  "holds_memory rs WF32" "holds_memory rs WF64" "holds_memory rs WErrorContext"

lemma holds_memory_iff:
  "type_at rs i = Some td \<Longrightarrow> holds_memory rs (WId i) \<longleftrightarrow>
     (\<exists>t. td_kind td = KList t) \<or> inline_kind (td_kind td) \<and> (\<exists>t \<in> set (child_types (td_kind td)). holds_memory rs t)"
  by (auto elim!: holds_memory_id intro: list_type part_type)

lemma any_opt_exact: "(\<And>x. x \<in> set xs \<Longrightarrow> p x = Some (q x)) \<Longrightarrow> any_opt p xs = Some (\<exists>x \<in> set xs. q x)"
  by (induction xs) (auto split: bool.split)

lemma type_needs_memory_total:
  "ordered_types rs \<Longrightarrow> type_below fuel t \<Longrightarrow> in_arena rs t \<Longrightarrow> type_needs_memory fuel rs t = Some (holds_memory rs t)"
proof (induction fuel arbitrary: t)
  case 0
  then show ?case by (cases t) auto
next
  case (Suc fuel)
  show ?case
  proof (cases t)
    case (WId i)
    define td where "td = rs_types rs ! i"
    have td: "type_at rs i = Some td" using Suc.prems(3) WId by (simp add: type_at_def in_arena_def td_def)
    have ih: "type_needs_memory fuel rs t' = Some (holds_memory rs t')" if "t' \<in> set (child_types (td_kind td))" for t'
      using Suc.IH Suc.prems(1) child_step [OF Suc.prems(1), of fuel i t'] Suc.prems(2,3) that by (simp add: WId td_def)
    have any: "any_opt (type_needs_memory fuel rs) ts = Some (\<exists>t' \<in> set ts. holds_memory rs t')"
      if "set ts \<subseteq> set (child_types (td_kind td))" for ts
      by (rule any_opt_exact) (use ih that in blast)
    show ?thesis
      unfolding WId type_needs_memory.simps td option.case holds_memory_iff [OF td]
      by (cases "td_kind td") (use any ih in \<open>auto split: option.split bool.split\<close>)
  qed simp_all
qed

text \<open>
  The questions the interceptor asks of a type terminate: on an arena in which a type comes after
  the types it refers to, one step per type of the arena is enough to find the discriminant (at most
  6), the name, and whether values need memory; and the last answer is right: a type needs memory
  exactly if text or a list is stored in it at any depth.
\<close>

theorem type_questions_terminate:
  assumes "ordered_types rs" and "in_arena rs t"
  shows "(\<exists>d \<le> 6. value_discriminant (length (rs_types rs)) rs t = Some d) \<and>
    (\<exists>s. type_name_str (length (rs_types rs)) rs t = Some s) \<and>
    type_needs_memory (length (rs_types rs)) rs t = Some (holds_memory rs t)"
  using assms value_discriminant_total type_name_str_total type_needs_memory_total
  unfolding in_arena_def by simp

definition sample_resolve :: resolve where
  "sample_resolve = \<lparr>
     rs_types = [
       \<lparr>td_name = Some ''point'', td_kind = KRecord [(''x'', WF64), (''y'', WF64)], td_owner = OwnerInterface 0\<rparr>,
       \<lparr>td_name = None, td_kind = KOption (WId 0), td_owner = OwnerNone\<rparr>,
       \<lparr>td_name = Some ''point'', td_kind = KType (WId 0), td_owner = OwnerWorld 0\<rparr>],
     rs_interfaces = [\<lparr>wi_name = Some ''shapes'', wi_types = [(''point'', 0)],
       wi_functions = [(''norm'', \<lparr>wf_name = ''norm'', wf_params = [(''p'', WId 1)], wf_result = Some WF64, wf_docs = None\<rparr>)], wi_package = Some 0\<rparr>],
     rs_worlds = [\<lparr>ww_name = ''geometry'', ww_imports = [(''shapes'', ItemInterface 0)],
       ww_exports = [(''shapes'', ItemInterface 0),
         (''origin'', ItemFunction \<lparr>wf_name = ''origin'', wf_params = [], wf_result = Some (WId 2), wf_docs = None\<rparr>)], ww_package = Some 0\<rparr>],
     rs_packages = [\<lparr>wp_namespace = ''test'', wp_name = ''geometry'', wp_version = Some ''1.0.0''\<rparr>]\<rparr>"

lemma sample_ordered: "ordered_types sample_resolve"
  by (auto simp: ordered_types_def sample_resolve_def less_Suc_eq)

lemma sample_size: "length (rs_types sample_resolve) = 3"
  by (simp add: sample_resolve_def)

theorem type_questions_terminate_witness:
  "(\<exists>d \<le> 6. value_discriminant 3 sample_resolve (WId 2) = Some d) \<and>
    (\<exists>s. type_name_str 3 sample_resolve (WId 2) = Some s) \<and>
    type_needs_memory 3 sample_resolve (WId 2) = Some (holds_memory sample_resolve (WId 2))"
  using type_questions_terminate [OF sample_ordered, of "WId 2"] by (simp add: sample_size in_arena_def)

end
