(* ===== verification/Wit_Parser.thy ===== *)
theory Wit_Parser
  imports Registry Wit_Types
begin

section \<open>Reading a component's WIT (\<open>src/composition/wit.rs\<close>)\<close>

text \<open>
  From the decoded WIT of a component to what the registry keeps of it: its package, the interfaces it
  imports and exports, and its functions with a JSON schema for each parameter and result. The arena
  and its fuel are those of \<open>Wit_Types\<close>; the decoder of wit-parser is the parameter \<open>decode\<close>. A panic of
  the source (an identifier outside the arena, an unknown kind, the unwrapped interface of a function
  of the world) is an error value.
\<close>

datatype wit_error =
    DecodeFailed string
  | NotOneWorld
  | MissingPackage string
  | MissingName
  | NotAnInterface interface_error
  | AmbiguousFunction string string string
  | ArenaPanic
  | UnknownKindPanic
  | UnwrapPanic
  | OutOfFuel

definition get_interface :: "resolve \<Rightarrow> nat \<Rightarrow> wit_error + Wit_Types.wit_interface" where
  "get_interface rs i = ok_or ArenaPanic (if i < length (rs_interfaces rs) then Some (rs_interfaces rs ! i) else None)"

definition get_package :: "resolve \<Rightarrow> nat \<Rightarrow> wit_error + wit_package" where
  "get_package rs i = ok_or ArenaPanic (if i < length (rs_packages rs) then Some (rs_packages rs ! i) else None)"

definition get_type :: "resolve \<Rightarrow> nat \<Rightarrow> wit_error + type_def" where
  "get_type rs i = ok_or ArenaPanic (type_at rs i)"

subsection \<open>Types\<close>

fun is_optional_type :: "nat \<Rightarrow> resolve \<Rightarrow> wtype \<Rightarrow> wit_error + bool" where
  "is_optional_type 0 rs (WId i) = Inl OutOfFuel"
| "is_optional_type (Suc fuel) rs (WId i) =
     attempt (get_type rs i) (\<lambda>td.
       (case td_kind td of
          KOption t \<Rightarrow> Inr True
        | KType t \<Rightarrow> is_optional_type fuel rs t
        | _ \<Rightarrow> Inr False))"
| "is_optional_type fuel rs t = Inr False"

text \<open>\<open>all\<close> and \<open>&&\<close> of the source, which stop at the first \<open>false\<close>.\<close>

fun all_res :: "('a \<Rightarrow> 'e + bool) \<Rightarrow> 'a list \<Rightarrow> 'e + bool" where
  "all_res p [] = Inr True"
| "all_res p (x # xs) = attempt (p x) (\<lambda>b. if b then all_res p xs else Inr False)"

lemma all_res_cong [fundef_cong]:
  "xs = ys \<Longrightarrow> (\<And>x. x \<in> set ys \<Longrightarrow> p x = q x) \<Longrightarrow> all_res p xs = all_res q ys"
proof (induction xs arbitrary: ys)
  case (Cons x xs)
  then show ?case by (cases ys) (auto intro!: attempt_cong)
qed simp

fun is_invokable :: "nat \<Rightarrow> resolve \<Rightarrow> wtype \<Rightarrow> wit_error + bool" where
  "is_invokable fuel rs WErrorContext = Inr False"
| "is_invokable 0 rs (WId i) = Inl OutOfFuel"
| "is_invokable (Suc fuel) rs (WId i) =
     attempt (get_type rs i) (\<lambda>td.
       (case td_kind td of
          KType t \<Rightarrow> is_invokable fuel rs t
        | KRecord fs \<Rightarrow> all_res (is_invokable fuel rs) (map snd fs)
        | KVariant cs \<Rightarrow> all_res (is_invokable fuel rs) (List.map_filter snd cs)
        | KOption t \<Rightarrow> is_invokable fuel rs t
        | KList t \<Rightarrow> is_invokable fuel rs t
        | KResult ok err \<Rightarrow> all_res (is_invokable fuel rs) (List.map_filter (\<lambda>t. t) [ok, err])
        | KTuple ts \<Rightarrow> all_res (is_invokable fuel rs) ts
        | KMap k v \<Rightarrow> all_res (is_invokable fuel rs) [k, v]
        | KEnum names \<Rightarrow> Inr True
        | KFlags names \<Rightarrow> Inr True
        | _ \<Rightarrow> Inr False))"
| "is_invokable fuel rs t = Inr True"

definition jint :: "int \<Rightarrow> json" where
  "jint n = JNumber (num_of_i64 (of_int n))"

text \<open>\<open>json!({"type": name})\<close>, with further members.\<close>

definition typed :: "string \<Rightarrow> (string \<times> json) list \<Rightarrow> json" where
  "typed name kvs = jobj ((''type'', JString name) # kvs)"

definition bounded :: "int \<Rightarrow> int \<Rightarrow> json" where
  "bounded lo hi = typed ''number'' [(''minimum'', jint lo), (''maximum'', jint hi)]"

definition closed_object :: "(string \<times> json) list \<Rightarrow> string list \<Rightarrow> (string \<times> json) list" where
  "closed_object properties required =
     [(''properties'', jobj properties), (''required'', JArray (map JString required)), (''additionalProperties'', JBool False)]"

definition record_schema :: "string option \<Rightarrow> (string \<times> json) list \<Rightarrow> string list \<Rightarrow> json" where
  "record_schema title properties required =
     typed ''object'' (closed_object properties required @
       (case title of Some name \<Rightarrow> [(''title'', JString name)] | None \<Rightarrow> []))"

fun case_schema :: "string \<times> json option \<Rightarrow> json" where
  "case_schema (name, Some payload) =
     typed ''object'' (closed_object [(''type'', jobj [(''const'', JString name)]), (''value'', payload)] [''type'', ''value''])"
| "case_schema (name, None) =
     typed ''object'' (closed_object [(''type'', jobj [(''const'', JString name)])] [''type''])"

definition arm_schema :: "string \<Rightarrow> json \<Rightarrow> json" where
  "arm_schema key payload = typed ''object'' (closed_object [(key, payload)] [key])"

definition sized_array :: "(string \<times> json) list \<Rightarrow> nat \<Rightarrow> json" where
  "sized_array kvs len = typed ''array'' (kvs @ [(''minItems'', jint (int len)), (''maxItems'', jint (int len))])"

definition opaque_schema :: "string \<Rightarrow> string \<Rightarrow> json" where
  "opaque_schema kind description = jobj [(''x-wit-type'', JString kind), (''description'', JString description)]"

definition one_of :: "json list \<Rightarrow> json" where
  "one_of schemas = jobj [(''oneOf'', JArray schemas)]"

definition null_schema :: json where
  "null_schema = typed ''null'' []"

text \<open>The schema of an optional part; \<open>null\<close> where there is none.\<close>

definition part_schema :: "(wtype \<Rightarrow> wit_error + json) \<Rightarrow> wtype option \<Rightarrow> wit_error + json" where
  "part_schema schema part = (case part of Some t \<Rightarrow> schema t | None \<Rightarrow> Inr null_schema)"

lemma part_schema_cong [fundef_cong]:
  "part = part' \<Longrightarrow> (\<And>t. part' = Some t \<Longrightarrow> f t = g t) \<Longrightarrow> part_schema f part = part_schema g part'"
  by (auto simp: part_schema_def split: option.split)

fun wit_type_to_json_schema :: "nat \<Rightarrow> resolve \<Rightarrow> wtype \<Rightarrow> wit_error + json" where
  "wit_type_to_json_schema fuel rs WBool = Inr (typed ''boolean'' [])"
| "wit_type_to_json_schema fuel rs WU8 = Inr (bounded 0 255)"
| "wit_type_to_json_schema fuel rs WU16 = Inr (bounded 0 65535)"
| "wit_type_to_json_schema fuel rs WU32 = Inr (bounded 0 4294967295)"
| "wit_type_to_json_schema fuel rs WU64 = Inr (typed ''number'' [(''minimum'', jint 0)])"
| "wit_type_to_json_schema fuel rs WS8 = Inr (bounded (- 128) 127)"
| "wit_type_to_json_schema fuel rs WS16 = Inr (bounded (- 32768) 32767)"
| "wit_type_to_json_schema fuel rs WS32 = Inr (bounded (- 2147483648) 2147483647)"
| "wit_type_to_json_schema fuel rs WS64 = Inr (typed ''number'' [])"
| "wit_type_to_json_schema fuel rs WF32 = Inr (typed ''number'' [])"
| "wit_type_to_json_schema fuel rs WF64 = Inr (typed ''number'' [])"
| "wit_type_to_json_schema fuel rs WChar = Inr (typed ''string'' [(''minLength'', jint 1), (''maxLength'', jint 1)])"
| "wit_type_to_json_schema fuel rs WString = Inr (typed ''string'' [])"
| "wit_type_to_json_schema fuel rs WErrorContext = Inr (typed ''string'' [])"
| "wit_type_to_json_schema 0 rs (WId i) = Inl OutOfFuel"
| "wit_type_to_json_schema (Suc fuel) rs (WId i) =
     attempt (get_type rs i) (\<lambda>td.
       (case td_kind td of
          KType t \<Rightarrow> wit_type_to_json_schema fuel rs t
        | KRecord fs \<Rightarrow>
            attempt (collect_res (map (\<lambda>(name, t). map_ok (Pair name) (wit_type_to_json_schema fuel rs t)) fs)) (\<lambda>properties.
            attempt (collect_res (map (\<lambda>(name, t). map_ok (Pair name) (is_optional_type fuel rs t)) fs)) (\<lambda>optional.
              Inr (record_schema (td_name td) properties (map fst (filter (\<lambda>(name, opt). \<not> opt) optional)))))
        | KVariant cs \<Rightarrow>
            map_ok (\<lambda>cases. one_of (map case_schema cases))
              (collect_res (map (\<lambda>(name, t).
                 (case t of
                    Some t \<Rightarrow> map_ok (\<lambda>payload. (name, Some payload)) (wit_type_to_json_schema fuel rs t)
                  | None \<Rightarrow> Inr (name, None))) cs))
        | KEnum names \<Rightarrow> Inr (typed ''string'' [(''enum'', JArray (map JString names))])
        | KOption t \<Rightarrow> map_ok (\<lambda>inner. one_of [inner, null_schema]) (wit_type_to_json_schema fuel rs t)
        | KResult ok err \<Rightarrow>
            attempt (part_schema (wit_type_to_json_schema fuel rs) ok) (\<lambda>ok_schema.
            map_ok (\<lambda>err_schema. one_of [arm_schema ''ok'' ok_schema, arm_schema ''error'' err_schema])
              (part_schema (wit_type_to_json_schema fuel rs) err))
        | KList t \<Rightarrow> map_ok (\<lambda>items. typed ''array'' [(''items'', items)]) (wit_type_to_json_schema fuel rs t)
        | KFixedLengthList t len \<Rightarrow> map_ok (\<lambda>items. sized_array [(''items'', items)] len) (wit_type_to_json_schema fuel rs t)
        | KMap k v \<Rightarrow>
            attempt (wit_type_to_json_schema fuel rs v) (\<lambda>value_schema.
              if k = WString then Inr (typed ''object'' [(''additionalProperties'', value_schema)])
              else map_ok (\<lambda>key_schema. typed ''array'' [(''items'', sized_array [(''prefixItems'', JArray [key_schema, value_schema])] 2)])
                     (wit_type_to_json_schema fuel rs k))
        | KTuple ts \<Rightarrow>
            map_ok (\<lambda>items. sized_array [(''prefixItems'', JArray items)] (length items))
              (collect_res (map (wit_type_to_json_schema fuel rs) ts))
        | KFlags names \<Rightarrow>
            Inr (typed ''array'' [(''items'', typed ''string'' [(''enum'', JArray (map JString names))]), (''uniqueItems'', JBool True)])
        | KResource \<Rightarrow> Inr (opaque_schema ''resource'' ''Resource handle (no JSON value representation)'')
        | KHandle h \<Rightarrow> Inr (opaque_schema ''resource'' ''Resource handle (no JSON value representation)'')
        | KStream t \<Rightarrow> Inr (opaque_schema ''stream'' ''Stream (no JSON value representation)'')
        | KFuture t \<Rightarrow> Inr (opaque_schema ''future'' ''Future (no JSON value representation)'')
        | KUnknown \<Rightarrow> Inl UnknownKindPanic))"

subsection \<open>Functions and interfaces\<close>

definition wit_fuel :: "resolve \<Rightarrow> nat" where
  "wit_fuel rs = length (rs_types rs)"

definition build_full_interface_name :: "resolve \<Rightarrow> nat \<Rightarrow> wit_error + string" where
  "build_full_interface_name rs i =
     attempt (get_interface rs i) (\<lambda>interface.
     attempt (ok_or MissingName (wi_name interface)) (\<lambda>interface_name.
     attempt (ok_or (MissingPackage interface_name) (wi_package interface)) (\<lambda>package_id.
     map_ok (\<lambda>package.
         wp_namespace package @ '':'' @ wp_name package @ ''/'' @ interface_name @
         (case wp_version package of Some v \<Rightarrow> CHR ''@'' # v | None \<Rightarrow> []))
       (get_package rs package_id))))"

definition parse_param :: "resolve \<Rightarrow> string \<times> wtype \<Rightarrow> wit_error + function_param" where
  "parse_param rs p =
     attempt (is_optional_type (wit_fuel rs) rs (snd p)) (\<lambda>opt.
     map_ok (\<lambda>schema. \<lparr>fp_name = fst p, fp_is_optional = opt, fp_json_schema = schema\<rparr>)
       (wit_type_to_json_schema (wit_fuel rs) rs (snd p)))"

definition parse_function :: "resolve \<Rightarrow> wit_function \<Rightarrow> Core_Types.wit_interface option \<Rightarrow> wit_error + function_spec" where
  "parse_function rs func interface =
     attempt (all_res (is_invokable (wit_fuel rs) rs)
       (map snd (wf_params func) @ (case wf_result func of Some t \<Rightarrow> [t] | None \<Rightarrow> []))) (\<lambda>invokable.
     attempt (collect_res (map (parse_param rs) (wf_params func))) (\<lambda>params.
     attempt (case wf_result func of
                Some t \<Rightarrow> map_ok Some (wit_type_to_json_schema (wit_fuel rs) rs t)
              | None \<Rightarrow> Inr None) (\<lambda>result.
       Inr (function_new interface (wf_name func) (unwrap_or (wf_docs func) []) params result invokable))))"

definition parse_interface :: "resolve \<Rightarrow> nat \<Rightarrow> wit_error + function_spec list" where
  "parse_interface rs i =
     attempt (get_interface rs i) (\<lambda>interface.
     attempt (build_full_interface_name rs i) (\<lambda>full_interface_name.
     attempt (map_err NotAnInterface (interface_parse full_interface_name)) (\<lambda>interface_obj.
       collect_res (map (\<lambda>(_, func). parse_function rs func (Some interface_obj)) (wi_functions interface)))))"

definition clash :: "function_spec \<Rightarrow> function_spec \<Rightarrow> wit_error" where
  "clash existing func =
     (case (fn_interface existing, fn_interface func) of
        (Some a, Some b) \<Rightarrow> AmbiguousFunction (interface_display a) (interface_display b) (function_key func)
      | _ \<Rightarrow> UnwrapPanic)"

definition add_function :: "function_spec hmap \<Rightarrow> function_spec \<Rightarrow> wit_error + function_spec hmap" where
  "add_function result func =
     (let key = function_key func in
      case hm_get key result of
        Some existing \<Rightarrow> Inl (clash existing func)
      | None \<Rightarrow> Inr (hm_insert key func result))"

definition build_function_map :: "function_spec list \<Rightarrow> wit_error + function_spec hmap" where
  "build_function_map funcs = fold_res add_function [] funcs"

subsection \<open>Worlds\<close>

fun item_specs :: "resolve \<Rightarrow> world_item \<Rightarrow> wit_error + function_spec list" where
  "item_specs rs (ItemInterface i) = parse_interface rs i"
| "item_specs rs (ItemFunction func) = map_ok (\<lambda>f. [f]) (parse_function rs func None)"
| "item_specs rs (ItemType i) = Inr []"

text \<open>An imported interface counts only if it has functions.\<close>

fun import_names :: "resolve \<Rightarrow> world_item \<Rightarrow> wit_error + string list" where
  "import_names rs (ItemInterface i) =
     attempt (get_interface rs i) (\<lambda>interface.
       if wi_functions interface = [] then Inr [] else map_ok (\<lambda>n. [n]) (build_full_interface_name rs i))"
| "import_names rs _ = Inr []"

fun export_names :: "resolve \<Rightarrow> world_item \<Rightarrow> wit_error + string list" where
  "export_names rs (ItemInterface i) = map_ok (\<lambda>n. [n]) (build_full_interface_name rs i)"
| "export_names rs _ = Inr []"

definition world_metadata :: "resolve \<Rightarrow> wit_world \<Rightarrow> wit_error + package_metadata" where
  "world_metadata rs world =
     (case ww_package world of
        Some package_id \<Rightarrow>
          map_ok (\<lambda>package. \<lparr>pm_namespace = Some (wp_namespace package), pm_name = Some (wp_name package)\<rparr>) (get_package rs package_id)
      | None \<Rightarrow> Inr \<lparr>pm_namespace = None, pm_name = None\<rparr>)"

definition parse_resolve ::
  "resolve \<Rightarrow> wit_error + package_metadata \<times> string list \<times> string list \<times> function_spec hmap" where
  "parse_resolve rs =
     (case rs_worlds rs of
        [world] \<Rightarrow>
          attempt (world_metadata rs world) (\<lambda>metadata.
          attempt (collect_res (map (import_names rs \<circ> snd) (ww_imports world))) (\<lambda>imports'.
          attempt (collect_res (map (export_names rs \<circ> snd) (ww_exports world))) (\<lambda>exports.
          attempt (collect_res (map (item_specs rs \<circ> snd) (ww_exports world))) (\<lambda>functions'.
          map_ok (\<lambda>function_map. (metadata, concat imports', concat exports, function_map))
            (build_function_map (concat functions'))))))
      | _ \<Rightarrow> Inl NotOneWorld)"

definition parse ::
  "('b \<Rightarrow> string + resolve) \<Rightarrow> 'b \<Rightarrow> wit_error + package_metadata \<times> string list \<times> string list \<times> function_spec hmap" where
  "parse decode component_bytes = attempt (map_err DecodeFailed (decode component_bytes)) parse_resolve"

subsection \<open>The function map\<close>

lemma hm_has_snoc: "hm_has k (m @ [(j, v)]) \<longleftrightarrow> k = j \<or> hm_has k m"
  by (auto simp: hm_has_iff map_add_def split: option.split)

lemma add_function_new: "\<not> hm_has (function_key f) m \<Longrightarrow> add_function m f = Inr (m @ [(function_key f, f)])"
  by (cases "hm_get (function_key f) m") (auto simp: add_function_def hm_has_iff hm_insert_new)

lemma add_functions_Inr:
  "fold_res add_function m fs = Inr m' \<longleftrightarrow>
     distinct (map function_key fs) \<and> (\<forall>f \<in> set fs. \<not> hm_has (function_key f) m) \<and> m' = m @ map (\<lambda>f. (function_key f, f)) fs"
proof (induction fs arbitrary: m)
  case (Cons f fs)
  show ?case
  proof (cases "hm_get (function_key f) m")
    case None
    then have new: "\<not> hm_has (function_key f) m" by (simp add: hm_has_iff)
    show ?thesis
      using new by (auto simp: add_function_new Cons.IH hm_has_snoc) (metis image_eqI)
  next
    case (Some g)
    then have "hm_has (function_key f) m" by (simp add: hm_has_iff)
    with Some show ?thesis by (auto simp: add_function_def attempt_Inr_iff Let_def split: option.splits)
  qed
qed auto

lemma build_function_map_Inr:
  "build_function_map fs = Inr m \<longleftrightarrow> distinct (map function_key fs) \<and> m = map (\<lambda>f. (function_key f, f)) fs"
  by (auto simp: build_function_map_def add_functions_Inr hm_has_iff)

text \<open>What an exported item stands for: its functions, each with the full name of its interface.\<close>

definition interface_full_name :: "resolve \<Rightarrow> nat \<Rightarrow> string" where
  "interface_full_name rs i =
     (let interface = rs_interfaces rs ! i; package = rs_packages rs ! unwrap_or (wi_package interface) 0 in
      wp_namespace package @ '':'' @ wp_name package @ ''/'' @ unwrap_or (wi_name interface) [] @
      (case wp_version package of Some v \<Rightarrow> CHR ''@'' # v | None \<Rightarrow> []))"

lemma build_full_interface_name_Inr: "build_full_interface_name rs i = Inr n \<Longrightarrow> n = interface_full_name rs i"
  by (auto simp: build_full_interface_name_def interface_full_name_def get_interface_def get_package_def
      attempt_Inr_iff map_ok_Inr_iff ok_or_Inr_iff Let_def split: if_splits)

fun functions_of_item :: "resolve \<Rightarrow> world_item \<Rightarrow> (string option \<times> wit_function) list" where
  "functions_of_item rs (ItemInterface i) = map (\<lambda>(_, f). (Some (interface_full_name rs i), f)) (wi_functions (rs_interfaces rs ! i))"
| "functions_of_item rs (ItemFunction f) = [(None, f)]"
| "functions_of_item rs (ItemType i) = []"

text \<open>A specification that describes a function of the WIT: names, texts and schemas.\<close>

definition describes :: "resolve \<Rightarrow> string option \<times> wit_function \<Rightarrow> function_spec \<Rightarrow> bool" where
  "describes rs nf spec \<longleftrightarrow>
     (case fst nf of
        None \<Rightarrow> fn_interface spec = None
      | Some n \<Rightarrow> (\<exists>i. interface_parse n = Inr i \<and> fn_interface spec = Some i)) \<and>
     fn_name spec = wf_name (snd nf) \<and> fn_docs spec = unwrap_or (wf_docs (snd nf)) [] \<and>
     list_all2 (\<lambda>(name, t) p. fp_name p = name \<and>
         is_optional_type (wit_fuel rs) rs t = Inr (fp_is_optional p) \<and>
         wit_type_to_json_schema (wit_fuel rs) rs t = Inr (fp_json_schema p)) (wf_params (snd nf)) (fn_params spec) \<and>
     rel_option (\<lambda>t s. wit_type_to_json_schema (wit_fuel rs) rs t = Inr s) (wf_result (snd nf)) (fn_result spec) \<and>
     all_res (is_invokable (wit_fuel rs) rs)
       (map snd (wf_params (snd nf)) @ (case wf_result (snd nf) of Some t \<Rightarrow> [t] | None \<Rightarrow> [])) = Inr (fn_is_invokable spec)"

lemma collect_res_list_all2: "collect_res (map f xs) = Inr ys \<longleftrightarrow> list_all2 (\<lambda>x y. f x = Inr y) xs ys"
  by (simp add: collect_res_Inr_iff list_all2_conv_all_nth list_eq_iff_nth_eq [of "map f xs"]) (metis length_map nth_map)

lemma parse_function_Inr:
  assumes "parse_function rs f interface = Inr spec" and "case n of None \<Rightarrow> interface = None | Some s \<Rightarrow> (\<exists>i. interface_parse s = Inr i \<and> interface = Some i)"
  shows "describes rs (n, f) spec"
proof -
  have "list_all2 (\<lambda>(name, t) p. fp_name p = name \<and> is_optional_type (wit_fuel rs) rs t = Inr (fp_is_optional p) \<and>
      wit_type_to_json_schema (wit_fuel rs) rs t = Inr (fp_json_schema p)) ps qs"
    if "list_all2 (\<lambda>p q. parse_param rs p = Inr q) ps qs" for ps qs
    using that by (rule list_all2_mono) (auto simp: parse_param_def attempt_Inr_iff map_ok_Inr_iff)
  then show ?thesis
    using assms
    by (auto simp: parse_function_def describes_def function_new_def attempt_Inr_iff collect_res_list_all2 map_ok_Inr_iff
        split: option.splits)
qed

lemma item_specs_Inr:
  assumes "item_specs rs item = Inr specs"
  shows "list_all2 (describes rs) (functions_of_item rs item) specs"
proof (cases item)
  case (ItemInterface i)
  with assms obtain iface where i: "interface_parse (interface_full_name rs i) = Inr iface"
    and fs: "list_all2 (\<lambda>(_, f) spec. parse_function rs f (Some iface) = Inr spec) (wi_functions (rs_interfaces rs ! i)) specs"
    by (auto simp: parse_interface_def attempt_Inr_iff collect_res_list_all2 get_interface_def ok_or_Inr_iff map_err_Inr_iff
        case_prod_beta' dest!: build_full_interface_name_Inr split: if_splits)
  have "list_all2 (\<lambda>(_, f) spec. describes rs (Some (interface_full_name rs i), f) spec) (wi_functions (rs_interfaces rs ! i)) specs"
    using fs by (rule list_all2_mono) (auto intro!: parse_function_Inr i)
  then show ?thesis by (simp add: ItemInterface list_all2_map1 case_prod_beta')
qed (use assms in \<open>auto simp: map_ok_Inr_iff intro: parse_function_Inr\<close>)

lemma items_concat:
  "list_all2 (\<lambda>x y. list_all2 p (f x) y) xs ys \<Longrightarrow> list_all2 p (concat (map f xs)) (concat ys)"
  by (induction xs ys rule: list_all2_induct) (auto intro: list_all2_appendI)

fun item_exports :: "resolve \<Rightarrow> world_item \<Rightarrow> string list" where
  "item_exports rs (ItemInterface i) = [interface_full_name rs i]"
| "item_exports rs _ = []"

fun item_imports :: "resolve \<Rightarrow> world_item \<Rightarrow> string list" where
  "item_imports rs (ItemInterface i) = (if wi_functions (rs_interfaces rs ! i) = [] then [] else [interface_full_name rs i])"
| "item_imports rs _ = []"

lemma export_names_Inr: "export_names rs item = Inr ns \<Longrightarrow> ns = item_exports rs item"
  by (cases item) (auto simp: map_ok_Inr_iff dest: build_full_interface_name_Inr)

lemma import_names_Inr: "import_names rs item = Inr ns \<Longrightarrow> ns = item_imports rs item"
  by (cases item) (auto simp: attempt_Inr_iff map_ok_Inr_iff get_interface_def ok_or_Inr_iff split: if_splits
      dest: build_full_interface_name_Inr)

lemma names_concat:
  assumes "collect_res (map (f \<circ> snd) xs) = Inr ys" and "\<And>x y. f x = Inr y \<Longrightarrow> y = g x"
  shows "ys = map (g \<circ> snd) xs"
  using assms unfolding collect_res_list_all2 by (induction rule: list_all2_induct) auto

text \<open>
  C9. The registry's view of a component is exactly its world: parsing succeeds only for a single world,
  and then the exports are the exported interfaces, the imports the imported interfaces that have
  functions, and the function map has one entry per exported function, in order and under distinct
  keys, that carries its name, its interface, its text and for each parameter and the result the
  schema of its type.
\<close>

theorem parsed_world_exact:
  assumes "parse decode component_bytes = Inr (metadata, imps, exps, functions')"
  shows "\<exists>rs world. decode component_bytes = Inr rs \<and> rs_worlds rs = [world] \<and>
    imps = concat (map (item_imports rs \<circ> snd) (ww_imports world)) \<and>
    exps = concat (map (item_exports rs \<circ> snd) (ww_exports world)) \<and>
    list_all2 (\<lambda>nf (key, spec). describes rs nf spec \<and> key = function_key spec)
      (concat (map (functions_of_item rs \<circ> snd) (ww_exports world))) functions' \<and>
    distinct (map fst functions')"
proof -
  obtain rs where rs: "decode component_bytes = Inr rs" "parse_resolve rs = Inr (metadata, imps, exps, functions')"
    using assms by (auto simp: parse_def attempt_Inr_iff map_err_Inr_iff)
  then obtain world imps' exps' specs where w: "rs_worlds rs = [world]"
    and i: "collect_res (map (import_names rs \<circ> snd) (ww_imports world)) = Inr imps'" "imps = concat imps'"
    and e: "collect_res (map (export_names rs \<circ> snd) (ww_exports world)) = Inr exps'" "exps = concat exps'"
    and s: "collect_res (map (item_specs rs \<circ> snd) (ww_exports world)) = Inr specs"
    and m: "build_function_map (concat specs) = Inr functions'"
    by (auto simp: parse_resolve_def attempt_Inr_iff map_ok_Inr_iff split: list.splits)
  have "list_all2 (\<lambda>x y. list_all2 (describes rs) ((functions_of_item rs \<circ> snd) x) y) (ww_exports world) specs"
    using s unfolding collect_res_list_all2 by (rule list_all2_mono) (auto intro: item_specs_Inr)
  then have d: "list_all2 (describes rs) (concat (map (functions_of_item rs \<circ> snd) (ww_exports world))) (concat specs)"
    by (rule items_concat)
  have m': "functions' = map (\<lambda>f. (function_key f, f)) (concat specs)" "distinct (map function_key (concat specs))"
    using m by (auto simp: build_function_map_Inr)
  show ?thesis
    using rs(1) w names_concat [OF i(1) import_names_Inr] names_concat [OF e(1) export_names_Inr] i(2) e(2) d m'(2)
    by (auto simp: m'(1) list_all2_map2 comp_def)
qed

text \<open>A function name that two interfaces of the same short name export is an error, whatever their packages.\<close>

lemma ambiguous_functions:
  assumes "build_function_map fs = Inl e"
  shows "\<exists>f \<in> set fs. \<exists>g \<in> set fs. function_key f = function_key g \<and> e = clash f g"
proof -
  have "\<exists>f \<in> S \<union> set fs. \<exists>g \<in> set fs. function_key f = function_key g \<and> e = clash f g"
    if "fold_res add_function m fs = Inl e" and "\<forall>(k, f) \<in> set m. k = function_key f \<and> f \<in> S" for m S
    using that
  proof (induction fs arbitrary: m S)
    case (Cons f fs)
    show ?case
    proof (cases "hm_get (function_key f) m")
      case None
      then have "fold_res add_function (m @ [(function_key f, f)]) fs = Inl e"
        using Cons.prems(1) by (simp add: add_function_new hm_has_iff)
      then have "\<exists>x \<in> insert f S \<union> set fs. \<exists>g \<in> set fs. function_key x = function_key g \<and> e = clash x g"
        by (rule Cons.IH) (use Cons.prems(2) in auto)
      then show ?thesis by auto
    next
      case (Some g)
      then have "(function_key f, g) \<in> set m" by (rule map_of_SomeD)
      then have "function_key f = function_key g" "g \<in> S" using Cons.prems(2) by auto
      moreover have "e = clash g f" using Cons.prems(1) Some by (simp add: add_function_def Let_def)
      ultimately show ?thesis by auto
    qed
  qed simp
  from this [of "[]" "{}"] assms show ?thesis by (simp add: build_function_map_def)
qed

subsection \<open>Termination, and which functions are invokable\<close>

fun opaque_kind :: "type_kind \<Rightarrow> bool" where
  "opaque_kind (KStream t) = True"
| "opaque_kind (KFuture t) = True"
| "opaque_kind KResource = True"
| "opaque_kind (KHandle h) = True"
| "opaque_kind (KFixedLengthList t n) = True"
| "opaque_kind KUnknown = True"
| "opaque_kind _ = False"

text \<open>A type that holds, at any depth, something that JSON cannot carry.\<close>

inductive opaque_inside :: "resolve \<Rightarrow> wtype \<Rightarrow> bool" for rs where
  error_context: "opaque_inside rs WErrorContext"
| opaque_type: "type_at rs i = Some td \<Longrightarrow> opaque_kind (td_kind td) \<Longrightarrow> opaque_inside rs (WId i)"
| opaque_part: "type_at rs i = Some td \<Longrightarrow> t \<in> set (child_types (td_kind td)) \<Longrightarrow> opaque_inside rs t \<Longrightarrow> opaque_inside rs (WId i)"

inductive_cases opaque_inside_id: "opaque_inside rs (WId i)"
inductive_simps opaque_inside_simps [simp]: "opaque_inside rs WErrorContext" "opaque_inside rs WBool" "opaque_inside rs WChar"
  "opaque_inside rs WString" "opaque_inside rs WU8" "opaque_inside rs WU16" "opaque_inside rs WU32" "opaque_inside rs WU64"
  "opaque_inside rs WS8" "opaque_inside rs WS16" "opaque_inside rs WS32" "opaque_inside rs WS64"
  "opaque_inside rs WF32" "opaque_inside rs WF64"

lemma opaque_inside_iff:
  "type_at rs i = Some td \<Longrightarrow> opaque_inside rs (WId i) \<longleftrightarrow>
     opaque_kind (td_kind td) \<or> (\<exists>t \<in> set (child_types (td_kind td)). opaque_inside rs t)"
  by (auto elim!: opaque_inside_id intro: opaque_type opaque_part)

lemma all_res_exact: "(\<And>x. x \<in> set xs \<Longrightarrow> p x = Inr (q x)) \<Longrightarrow> all_res p xs = Inr (\<forall>x \<in> set xs. q x)"
  by (induction xs) auto

lemma is_invokable_exact:
  "ordered_types rs \<Longrightarrow> type_below fuel t \<Longrightarrow> in_arena rs t \<Longrightarrow> is_invokable fuel rs t = Inr (\<not> opaque_inside rs t)"
proof (induction fuel arbitrary: t)
  case 0
  then show ?case by (cases t) auto
next
  case (Suc fuel)
  show ?case
  proof (cases t)
    case (WId i)
    define td where "td = rs_types rs ! i"
    have td: "type_at rs i = Some td" using Suc.prems(3) WId by (simp add: type_at_def in_arena_def td_def)
    have ih: "is_invokable fuel rs t' = Inr (\<not> opaque_inside rs t')" if "t' \<in> set (child_types (td_kind td))" for t'
      using Suc.IH Suc.prems(1) child_step [OF Suc.prems(1), of fuel i t'] Suc.prems(2,3) that by (simp add: WId td_def)
    have all: "all_res (is_invokable fuel rs) ts = Inr (\<forall>t' \<in> set ts. \<not> opaque_inside rs t')"
      if "set ts \<subseteq> set (child_types (td_kind td))" for ts
      by (rule all_res_exact) (use ih that in blast)
    show ?thesis
      unfolding WId is_invokable.simps get_type_def td ok_or_simps attempt_simps opaque_inside_iff [OF td]
      by (cases "td_kind td") (use all ih in \<open>auto split: option.split\<close>)
  qed simp_all
qed

lemma is_optional_type_total:
  "ordered_types rs \<Longrightarrow> type_below fuel t \<Longrightarrow> in_arena rs t \<Longrightarrow> \<exists>b. is_optional_type fuel rs t = Inr b"
proof (induction fuel rs t rule: is_optional_type.induct)
  case (2 fuel rs i)
  then show ?case
    using child_step [of rs fuel i] by (auto simp: type_at_def get_type_def in_arena_def split: type_kind.split)
qed auto

lemma collect_res_total: "(\<And>x. x \<in> set xs \<Longrightarrow> \<exists>y. f x = Inr y) \<Longrightarrow> \<exists>ys. collect_res (map f xs) = Inr ys"
  by (induction xs) fastforce+

lemma json_schema_total:
  assumes "ordered_types rs" and "KUnknown \<notin> td_kind ` set (rs_types rs)"
  shows "type_below fuel t \<Longrightarrow> in_arena rs t \<Longrightarrow> \<exists>s. wit_type_to_json_schema fuel rs t = Inr s"
proof (induction fuel arbitrary: t)
  case 0
  then show ?case by (cases t) auto
next
  case (Suc fuel)
  show ?case
  proof (cases t)
    case (WId i)
    define td where "td = rs_types rs ! i"
    have td: "type_at rs i = Some td" using Suc.prems(2) WId by (simp add: type_at_def in_arena_def td_def)
    have "td \<in> set (rs_types rs)" using Suc.prems(2) WId by (simp add: td_def in_arena_def)
    then have known: "td_kind td \<noteq> KUnknown" using assms(2) by (metis imageI)
    have ih: "\<exists>s. wit_type_to_json_schema fuel rs t' = Inr s" if "t' \<in> set (child_types (td_kind td))" for t'
      using Suc.IH child_step [OF assms(1), of fuel i t'] Suc.prems that by (simp add: WId td_def)
    have opt: "\<exists>b. is_optional_type fuel rs t' = Inr b" if "t' \<in> set (child_types (td_kind td))" for t'
      using is_optional_type_total [OF assms(1)] child_step [OF assms(1), of fuel i t'] Suc.prems that by (simp add: WId td_def)
    have part: "\<exists>s. part_schema (wit_type_to_json_schema fuel rs) p = Inr s" if "set_option p \<subseteq> set (child_types (td_kind td))" for p
      using ih that by (cases p) (auto simp: part_schema_def)
    show ?thesis
    proof (cases "td_kind td")
      case (KRecord fs)
      have field: "t' \<in> set (child_types (td_kind td))" if "(n, t') \<in> set fs" for n t' using that by (force simp: KRecord)
      have "\<exists>ps. collect_res (map (\<lambda>(name, t). map_ok (Pair name) (wit_type_to_json_schema fuel rs t)) fs) = Inr ps"
        by (rule collect_res_total) (use ih field in \<open>fastforce simp: map_ok_def\<close>)
      moreover have "\<exists>ps. collect_res (map (\<lambda>(name, t). map_ok (Pair name) (is_optional_type fuel rs t)) fs) = Inr ps"
        by (rule collect_res_total) (use opt field in \<open>fastforce simp: map_ok_def\<close>)
      ultimately show ?thesis by (auto simp: WId get_type_def td KRecord)
    next
      case (KVariant cs)
      have payload: "t' \<in> set (child_types (td_kind td))" if "(n, Some t') \<in> set cs" for n t'
        using that by (force simp: KVariant map_filter_def)
      have "\<exists>ps. collect_res (map (\<lambda>(name, t). (case t of
           Some t \<Rightarrow> map_ok (\<lambda>payload. (name, Some payload)) (wit_type_to_json_schema fuel rs t)
         | None \<Rightarrow> Inr (name, None))) cs) = Inr ps"
        by (rule collect_res_total) (use ih payload in \<open>fastforce simp: map_ok_def split: option.split\<close>)
      then show ?thesis by (auto simp: WId get_type_def td KVariant)
    next
      case (KTuple ts)
      then have "\<exists>ss. collect_res (map (wit_type_to_json_schema fuel rs) ts) = Inr ss"
        by (intro collect_res_total) (use ih in auto)
      then show ?thesis by (auto simp: WId get_type_def td KTuple)
    next
      case (KResult ok err)
      then have "set_option ok \<subseteq> set (child_types (td_kind td))" "set_option err \<subseteq> set (child_types (td_kind td))"
        by (auto simp: map_filter_def)
      from part [OF this(1)] part [OF this(2)] show ?thesis by (auto simp: WId get_type_def td KResult)
    next
      case (KMap k v)
      then show ?thesis using ih [of k] ih [of v] by (auto simp: WId get_type_def td)
    qed (use ih known in \<open>auto simp: WId get_type_def td\<close>)
  qed simp_all
qed

text \<open>
  C17. Reading a type of a component terminates: in an arena ordered as wit-parser leaves it, with no
  unknown kinds, one step per type is enough to build its schema and to find whether a parameter of it
  may be left out; and it is called invokable exactly if nothing inside it, at any depth, is a handle,
  a resource, a stream, a future, a list of fixed length or an error context.
\<close>

theorem type_reading_terminates:
  assumes "ordered_types rs" and "KUnknown \<notin> td_kind ` set (rs_types rs)" and "in_arena rs t"
  shows "(\<exists>s. wit_type_to_json_schema (wit_fuel rs) rs t = Inr s) \<and> (\<exists>b. is_optional_type (wit_fuel rs) rs t = Inr b) \<and>
    is_invokable (wit_fuel rs) rs t = Inr (\<not> opaque_inside rs t)"
  using assms is_invokable_exact is_optional_type_total json_schema_total
  unfolding wit_fuel_def in_arena_def by blast

theorem type_reading_terminates_witness:
  "(\<exists>s. wit_type_to_json_schema 3 sample_resolve (WId 2) = Inr s) \<and> (\<exists>b. is_optional_type 3 sample_resolve (WId 2) = Inr b) \<and>
    is_invokable 3 sample_resolve (WId 2) = Inr (\<not> opaque_inside sample_resolve (WId 2))"
proof -
  have "KUnknown \<notin> td_kind ` set (rs_types sample_resolve)" by (simp add: sample_resolve_def)
  from type_reading_terminates [OF sample_ordered this, of "WId 2"] show ?thesis
    by (simp add: sample_size in_arena_def wit_fuel_def)
qed

theorem parsed_world_exact_witness:
  "case parse (\<lambda>b. Inr sample_resolve) ''component'' of
     Inr (metadata, imps, exps, fm) \<Rightarrow>
       imps = [''test:geometry/shapes@1.0.0''] \<and> exps = [''test:geometry/shapes@1.0.0''] \<and> distinct (map fst fm) \<and>
       map fst fm = [''shapes.norm'', ''origin'']
   | Inl e \<Rightarrow> False"
proof -
  obtain p where p: "parse (\<lambda>b. Inr sample_resolve) ''component'' = Inr p"
    and c: "case p of (metadata, imps, exps, fm) \<Rightarrow> imps = [''test:geometry/shapes@1.0.0''] \<and>
      exps = [''test:geometry/shapes@1.0.0''] \<and> map fst fm = [''shapes.norm'', ''origin'']"
  proof -
    have "case parse (\<lambda>b. Inr sample_resolve) ''component'' of
        Inr (metadata, imps, exps, fm) \<Rightarrow> imps = [''test:geometry/shapes@1.0.0''] \<and>
          exps = [''test:geometry/shapes@1.0.0''] \<and> map fst fm = [''shapes.norm'', ''origin'']
      | Inl e \<Rightarrow> False" by code_simp
    then show ?thesis using that by (auto split: sum.splits)
  qed
  obtain metadata imps exps fm where q: "p = (metadata, imps, exps, fm)" by (cases p)
  from parsed_world_exact [OF p [unfolded q]] have "distinct (map fst fm)" by blast
  with c show ?thesis by (simp add: p q)
qed

end
