(* ===== verification/Conversion.thy ===== *)
theory Conversion
  imports Json
begin

section \<open>JSON and component values (\<open>src/runtime/conversion.rs\<close>)\<close>

text \<open>
  The two directions of the conversion between JSON and the values of the component model.
  \<open>wit_type\<close> and \<open>val\<close> have the constructors of wasmtime's \<open>Type\<close> and \<open>Val\<close>; an integer value is a
  word of its width, a float its bits, a character the UTF-8 text of one character, a resource the
  number of its handle. Futures, streams and error contexts carry nothing here since no conversion
  looks into them.
  IEEE arithmetic and the text of floats are the parameter \<open>float_ops\<close>.
\<close>

datatype wit_type =
    TBool | TString | TChar
  | TU8 | TU16 | TU32 | TU64 | TS8 | TS16 | TS32 | TS64 | TFloat32 | TFloat64
  | TList wit_type
  | TMap wit_type wit_type
  | TTuple "wit_type list"
  | TRecord "(string \<times> wit_type) list"
  | TOption wit_type
  | TVariant "(string \<times> wit_type option) list"
  | TEnum "string list"
  | TResult "wit_type option" "wit_type option"
  | TFlags "string list"
  | TOwn | TBorrow | TFuture | TStream | TErrorContext

datatype val =
    VBool bool | VString string | VChar string
  | VU8 "8 word" | VU16 "16 word" | VU32 "32 word" | VU64 "64 word"
  | VS8 "8 word" | VS16 "16 word" | VS32 "32 word" | VS64 "64 word"
  | VFloat32 "32 word" | VFloat64 "64 word"
  | VList "val list"
  | VMap "(val \<times> val) list"
  | VTuple "val list"
  | VRecord "(string \<times> val) list"
  | VOption "val option"
  | VVariant string "val option"
  | VEnum string
  | VResult "val option + val option"
  | VFlags "string list"
  | VResource nat | VFuture | VStream | VErrorContext

record float_ops =
  fo_parse32 :: "string \<Rightarrow> 32 word option"
  fo_parse64 :: "string \<Rightarrow> 64 word option"
  fo_of_number :: "number \<Rightarrow> 64 word"
  fo_narrow :: "64 word \<Rightarrow> 32 word"
  fo_widen :: "32 word \<Rightarrow> 64 word"

datatype conversion_error =
    Mismatch json wit_type
  | NotOneCharacter string
  | InvalidText string string
  | InvalidNumber string number
  | AtItem nat conversion_error
  | AtTupleItem nat conversion_error
  | AtMapKey nat conversion_error
  | AtMapValue nat conversion_error
  | AtKey string conversion_error
  | StringKeysOnly
  | NotAPair nat
  | TupleLength nat nat
  | MissingField string
  | UnexpectedField string
  | VariantWithoutType
  | UnknownCase string
  | UnknownEnum string
  | NeitherOkNorError
  | FlagNotString json
  | UnknownFlag string
  | Unconvertible string

subsection \<open>Scalars\<close>

definition char_count :: "string \<Rightarrow> nat" where
  "char_count s = length (filter (\<lambda>c. \<not> (128 \<le> (of_char c :: nat) \<and> (of_char c :: nat) < 192)) s)"

text \<open>\<open>n.as_u64()? as uN\<close> and \<open>n.as_i64()? as iN\<close> truncate; text is parsed at the width.\<close>

definition unsigned_val ::
  "string \<Rightarrow> wit_type \<Rightarrow> nat \<Rightarrow> (nat \<Rightarrow> val) \<Rightarrow> (64 word \<Rightarrow> val) \<Rightarrow> json \<Rightarrow> conversion_error + val" where
  "unsigned_val name t limit of_text of_number j =
     (case j of
        JString s \<Rightarrow> map_ok of_text (ok_or (InvalidText name s) (parse_unsigned limit s))
      | JNumber n \<Rightarrow> map_ok of_number (ok_or (InvalidNumber name n) (as_u64 (JNumber n)))
      | _ \<Rightarrow> Inl (Mismatch j t))"

definition signed_val ::
  "string \<Rightarrow> wit_type \<Rightarrow> nat \<Rightarrow> (int \<Rightarrow> val) \<Rightarrow> (64 word \<Rightarrow> val) \<Rightarrow> json \<Rightarrow> conversion_error + val" where
  "signed_val name t half of_text of_number j =
     (case j of
        JString s \<Rightarrow> map_ok of_text (ok_or (InvalidText name s) (parse_signed half s))
      | JNumber n \<Rightarrow> map_ok of_number (ok_or (InvalidNumber name n) (as_i64 (JNumber n)))
      | _ \<Rightarrow> Inl (Mismatch j t))"

definition float_val ::
  "string \<Rightarrow> wit_type \<Rightarrow> (string \<Rightarrow> val option) \<Rightarrow> (number \<Rightarrow> val) \<Rightarrow> json \<Rightarrow> conversion_error + val" where
  "float_val name t of_text of_number j =
     (case j of
        JString s \<Rightarrow> ok_or (InvalidText name s) (of_text s)
      | JNumber n \<Rightarrow> Inr (of_number n)
      | _ \<Rightarrow> Inl (Mismatch j t))"

definition is_finite :: "64 word \<Rightarrow> bool" where
  "is_finite b \<longleftrightarrow> (unat b div 2 ^ 52) mod 2048 \<noteq> 2047"

text \<open>\<open>Number::from_f64(x).map(Value::Number).unwrap_or(Value::Null)\<close>.\<close>

definition float_json :: "64 word \<Rightarrow> json" where
  "float_json b = (if is_finite b then JNumber (Float b) else JNull)"

subsection \<open>From JSON\<close>

text \<open>The payload of a variant object: its \<open>value\<close>, or else its fields but those named \<open>variant\<close>.\<close>

definition variant_payload :: "json btmap \<Rightarrow> json" where
  "variant_payload obj =
     (case hm_get ''value'' obj of
        Some v \<Rightarrow> v
      | None \<Rightarrow> JObject (bt_extend [] (filter (\<lambda>(k, v). k \<noteq> ''variant'') obj)))"

definition missing_field :: "string \<Rightarrow> wit_type \<Rightarrow> conversion_error + string \<times> val" where
  "missing_field name t = (case t of TOption _ \<Rightarrow> Inr (name, VOption None) | _ \<Rightarrow> Inl (MissingField name))"

lemma size_field [termination_simp]: "(n, t) \<in> set fs \<Longrightarrow> size t < Suc (size_list (\<lambda>x. Suc (size (snd x))) fs)"
  by (induction fs) auto

lemma size_case: "(n, Some t) \<in> set cs \<Longrightarrow> size t < Suc (size_list (\<lambda>x. Suc (size_option size (snd x))) cs)"
  by (induction cs) auto

lemma enumerate_element: "(i, x) \<in> set (enumerate n xs) \<Longrightarrow> x \<in> set xs"
  by (induction xs arbitrary: n) auto

lemma size_tuple [termination_simp]: "(i, x, t) \<in> set (enumerate n (zip xs ts)) \<Longrightarrow> size t < Suc (size_list size ts)"
proof -
  assume "(i, x, t) \<in> set (enumerate n (zip xs ts))"
  then have "t \<in> set ts" by (blast dest: enumerate_element set_zip_rightD)
  then show "size t < Suc (size_list size ts)" by (induction ts) auto
qed

lemma size_found [termination_simp]:
  "ok_or e (find_first p cs) = Inr (n, Some t) \<Longrightarrow> size t < Suc (size_list (\<lambda>x. Suc (size_option size (snd x))) cs)"
  by (auto simp: ok_or_Inr_iff dest!: find_first_Some intro: size_case)

function json_to_val :: "float_ops \<Rightarrow> json \<Rightarrow> wit_type \<Rightarrow> conversion_error + val" where
  "json_to_val fo j TBool = (case j of JBool b \<Rightarrow> Inr (VBool b) | _ \<Rightarrow> Inl (Mismatch j TBool))"
| "json_to_val fo j TString = (case j of JString s \<Rightarrow> Inr (VString s) | _ \<Rightarrow> Inl (Mismatch j TString))"
| "json_to_val fo j TChar =
     (case j of
        JString s \<Rightarrow> if char_count s = 1 then Inr (VChar s) else Inl (NotOneCharacter s)
      | _ \<Rightarrow> Inl (Mismatch j TChar))"
| "json_to_val fo j TU8 = unsigned_val ''u8'' TU8 (2 ^ 8) (\<lambda>n. VU8 (of_nat n)) (\<lambda>w. VU8 (ucast w)) j"
| "json_to_val fo j TU16 = unsigned_val ''u16'' TU16 (2 ^ 16) (\<lambda>n. VU16 (of_nat n)) (\<lambda>w. VU16 (ucast w)) j"
| "json_to_val fo j TU32 = unsigned_val ''u32'' TU32 (2 ^ 32) (\<lambda>n. VU32 (of_nat n)) (\<lambda>w. VU32 (ucast w)) j"
| "json_to_val fo j TU64 = unsigned_val ''u64'' TU64 (2 ^ 64) (\<lambda>n. VU64 (of_nat n)) VU64 j"
| "json_to_val fo j TS8 = signed_val ''s8'' TS8 (2 ^ 7) (\<lambda>i. VS8 (of_int i)) (\<lambda>w. VS8 (ucast w)) j"
| "json_to_val fo j TS16 = signed_val ''s16'' TS16 (2 ^ 15) (\<lambda>i. VS16 (of_int i)) (\<lambda>w. VS16 (ucast w)) j"
| "json_to_val fo j TS32 = signed_val ''s32'' TS32 (2 ^ 31) (\<lambda>i. VS32 (of_int i)) (\<lambda>w. VS32 (ucast w)) j"
| "json_to_val fo j TS64 = signed_val ''s64'' TS64 (2 ^ 63) (\<lambda>i. VS64 (of_int i)) VS64 j"
| "json_to_val fo j TFloat32 =
     float_val ''f32'' TFloat32 (\<lambda>s. map_option VFloat32 (fo_parse32 fo s)) (\<lambda>n. VFloat32 (fo_narrow fo (fo_of_number fo n))) j"
| "json_to_val fo j TFloat64 =
     float_val ''f64'' TFloat64 (\<lambda>s. map_option VFloat64 (fo_parse64 fo s)) (\<lambda>n. VFloat64 (fo_of_number fo n)) j"
| "json_to_val fo j (TList t) =
     (case j of
        JArray xs \<Rightarrow>
          map_ok VList (collect_res (map (\<lambda>(i, x). map_err (AtItem i) (json_to_val fo x t)) (enumerate 0 xs)))
      | _ \<Rightarrow> Inl (Mismatch j (TList t)))"
| "json_to_val fo j (TMap kt vt) =
     (case j of
        JObject obj \<Rightarrow>
          if kt \<noteq> TString then Inl StringKeysOnly
          else map_ok VMap (collect_res (map (\<lambda>(k, v).
                 map_err (AtKey k) (map_ok (Pair (VString k)) (json_to_val fo v vt))) obj))
      | JArray xs \<Rightarrow>
          map_ok VMap (collect_res (map (\<lambda>(i, x).
            (case x of
               JArray [k, v] \<Rightarrow>
                 attempt (map_err (AtMapKey i) (json_to_val fo k kt)) (\<lambda>key.
                   map_ok (Pair key) (map_err (AtMapValue i) (json_to_val fo v vt)))
             | _ \<Rightarrow> Inl (NotAPair i))) (enumerate 0 xs)))
      | _ \<Rightarrow> Inl (Mismatch j (TMap kt vt)))"
| "json_to_val fo j (TTuple ts) =
     (case j of
        JArray xs \<Rightarrow>
          if length xs \<noteq> length ts then Inl (TupleLength (length ts) (length xs))
          else map_ok VTuple (collect_res (map (\<lambda>(i, x, t). map_err (AtTupleItem i) (json_to_val fo x t))
                 (enumerate 0 (zip xs ts))))
      | _ \<Rightarrow> Inl (Mismatch j (TTuple ts)))"
| "json_to_val fo j (TRecord fs) =
     (case j of
        JObject obj \<Rightarrow>
          attempt (collect_res (map (\<lambda>(name, t).
              (case hm_get name obj of
                 Some v \<Rightarrow> map_ok (Pair name) (json_to_val fo v t)
               | None \<Rightarrow> missing_field name t)) fs)) (\<lambda>fields.
          (case find_first (\<lambda>(k, v). \<not> list_ex (\<lambda>(n, t). n = k) fs) obj of
             Some (k, v) \<Rightarrow> Inl (UnexpectedField k)
           | None \<Rightarrow> Inr (VRecord fields)))
      | _ \<Rightarrow> Inl (Mismatch j (TRecord fs)))"
| "json_to_val fo j (TOption t) =
     (case j of JNull \<Rightarrow> Inr (VOption None) | _ \<Rightarrow> map_ok (\<lambda>v. VOption (Some v)) (json_to_val fo j t))"
| "json_to_val fo j (TVariant cs) =
     (case j of
        JObject obj \<Rightarrow>
          attempt (ok_or VariantWithoutType (and_then (hm_get ''type'' obj) as_str)) (\<lambda>case_name.
          attempt (ok_or (UnknownCase case_name) (find_first (\<lambda>(n, t). n = case_name) cs)) (\<lambda>(n, payload).
          (case payload of
             Some t \<Rightarrow> map_ok (\<lambda>v. VVariant case_name (Some v)) (json_to_val fo (variant_payload obj) t)
           | None \<Rightarrow> Inr (VVariant case_name None))))
      | _ \<Rightarrow> Inl (Mismatch j (TVariant cs)))"
| "json_to_val fo j (TEnum names) =
     (case j of
        JString s \<Rightarrow> if s \<in> set names then Inr (VEnum s) else Inl (UnknownEnum s)
      | _ \<Rightarrow> Inl (Mismatch j (TEnum names)))"
| "json_to_val fo j (TResult ok err) =
     (case j of
        JObject obj \<Rightarrow>
          (case hm_get ''ok'' obj of
             Some v \<Rightarrow>
               (case ok of
                  Some t \<Rightarrow> map_ok (\<lambda>x. VResult (Inl (Some x))) (json_to_val fo v t)
                | None \<Rightarrow> Inr (VResult (Inl None)))
           | None \<Rightarrow>
               (case hm_get ''error'' obj of
                  Some v \<Rightarrow>
                    (case err of
                       Some t \<Rightarrow> map_ok (\<lambda>x. VResult (Inr (Some x))) (json_to_val fo v t)
                     | None \<Rightarrow> Inr (VResult (Inr None)))
                | None \<Rightarrow> Inl NeitherOkNorError))
      | _ \<Rightarrow> Inl (Mismatch j (TResult ok err)))"
| "json_to_val fo j (TFlags names) =
     (case j of
        JArray xs \<Rightarrow>
          map_ok VFlags (collect_res (map (\<lambda>x.
            (case x of
               JString s \<Rightarrow> if s \<in> set names then Inr s else Inl (UnknownFlag s)
             | _ \<Rightarrow> Inl (FlagNotString x))) xs))
      | _ \<Rightarrow> Inl (Mismatch j (TFlags names)))"
| "json_to_val fo j TOwn = Inl (Unconvertible ''resource'')"
| "json_to_val fo j TBorrow = Inl (Unconvertible ''resource'')"
| "json_to_val fo j TFuture = Inl (Unconvertible ''future'')"
| "json_to_val fo j TStream = Inl (Unconvertible ''stream'')"
| "json_to_val fo j TErrorContext = Inl (Unconvertible ''error-context'')"
  by pat_completeness auto
termination
  by (relation "measure (\<lambda>(fo, j, t). size t)")
    (auto simp: termination_simp)

subsection \<open>To JSON\<close>

fun string_key :: "val \<Rightarrow> string option" where
  "string_key (VString s) = Some s"
| "string_key _ = None"

definition variant_object :: "string \<Rightarrow> json option \<Rightarrow> json" where
  "variant_object name payload =
     (let obj = bt_insert ''type'' (JString name) [] in
      JObject
        (case payload of
           None \<Rightarrow> obj
         | Some (JObject payload_obj) \<Rightarrow> bt_extend obj payload_obj
         | Some other \<Rightarrow> bt_insert ''value'' other obj))"

lemma size_entry [termination_simp]:
  "(k, v) \<in> set es \<Longrightarrow> size k < Suc (size_list (\<lambda>x. Suc (size (fst x) + size (snd x))) es)"
  "(k, v) \<in> set es \<Longrightarrow> size v < Suc (size_list (\<lambda>x. Suc (size (fst x) + size (snd x))) es)"
  by (induction es) auto

lemma size_val_field [termination_simp]: "(k, v) \<in> set es \<Longrightarrow> size v < Suc (size_list (\<lambda>x. Suc (size (snd x))) es)"
  by (induction es) auto

fun val_to_json :: "float_ops \<Rightarrow> val \<Rightarrow> string + json" where
  "val_to_json fo (VBool b) = Inr (JBool b)"
| "val_to_json fo (VString s) = Inr (JString s)"
| "val_to_json fo (VChar c) = Inr (JString c)"
| "val_to_json fo (VU8 n) = Inr (JNumber (num_of_u64 (ucast n)))"
| "val_to_json fo (VU16 n) = Inr (JNumber (num_of_u64 (ucast n)))"
| "val_to_json fo (VU32 n) = Inr (JNumber (num_of_u64 (ucast n)))"
| "val_to_json fo (VU64 n) = Inr (JNumber (num_of_u64 n))"
| "val_to_json fo (VS8 n) = Inr (JNumber (num_of_i64 (scast n)))"
| "val_to_json fo (VS16 n) = Inr (JNumber (num_of_i64 (scast n)))"
| "val_to_json fo (VS32 n) = Inr (JNumber (num_of_i64 (scast n)))"
| "val_to_json fo (VS64 n) = Inr (JNumber (num_of_i64 n))"
| "val_to_json fo (VFloat32 x) = Inr (float_json (fo_widen fo x))"
| "val_to_json fo (VFloat64 x) = Inr (float_json x)"
| "val_to_json fo (VList vs) = map_ok JArray (collect_res (map (val_to_json fo) vs))"
| "val_to_json fo (VMap es) =
     (if list_all (\<lambda>(k, v). string_key k \<noteq> None) es then
        map_ok (\<lambda>kvs. JObject (bt_extend [] kvs))
          (collect_res (map (\<lambda>(k, v). map_ok (Pair (unwrap_or (string_key k) [])) (val_to_json fo v)) es))
      else
        map_ok JArray
          (collect_res (map (\<lambda>(k, v).
             attempt (val_to_json fo k) (\<lambda>k'. map_ok (\<lambda>v'. JArray [k', v']) (val_to_json fo v))) es)))"
| "val_to_json fo (VRecord fs) =
     map_ok (\<lambda>kvs. JObject (bt_extend [] kvs))
       (collect_res (map (\<lambda>(k, v). map_ok (Pair k) (val_to_json fo v)) fs))"
| "val_to_json fo (VOption None) = Inr JNull"
| "val_to_json fo (VOption (Some v)) = val_to_json fo v"
| "val_to_json fo (VTuple vs) = map_ok JArray (collect_res (map (val_to_json fo) vs))"
| "val_to_json fo (VVariant name None) = Inr (variant_object name None)"
| "val_to_json fo (VVariant name (Some v)) = map_ok (\<lambda>j. variant_object name (Some j)) (val_to_json fo v)"
| "val_to_json fo (VEnum name) = Inr (JString name)"
| "val_to_json fo (VFlags names) = Inr (JArray (map JString names))"
| "val_to_json fo (VResult (Inl None)) = Inr (jobj [(''ok'', JNull)])"
| "val_to_json fo (VResult (Inl (Some v))) = map_ok (\<lambda>j. jobj [(''ok'', j)]) (val_to_json fo v)"
| "val_to_json fo (VResult (Inr None)) = Inr (jobj [(''error'', JNull)])"
| "val_to_json fo (VResult (Inr (Some v))) = map_ok (\<lambda>j. jobj [(''error'', j)]) (val_to_json fo v)"
| "val_to_json fo (VResource r) = Inl ''cannot convert a resource to JSON''"
| "val_to_json fo VFuture = Inl ''cannot convert a future to JSON''"
| "val_to_json fo VStream = Inl ''cannot convert a stream to JSON''"
| "val_to_json fo VErrorContext = Inl ''cannot convert an error-context to JSON''"

subsection \<open>Typing\<close>

definition pairwise :: "('a \<Rightarrow> 'b \<Rightarrow> bool) \<Rightarrow> 'a list \<Rightarrow> 'b list \<Rightarrow> bool" where
  "pairwise p xs ys \<longleftrightarrow> length xs = length ys \<and> list_all (\<lambda>(x, y). p x y) (zip xs ys)"

lemma pairwise_nth: "pairwise p xs ys \<longleftrightarrow> length xs = length ys \<and> (\<forall>i < length ys. p (xs ! i) (ys ! i))"
  by (auto simp: pairwise_def list_all_length)

lemma pairwise_cong [fundef_cong]:
  assumes "xs = xs'" and "ys = ys'" and "\<And>x y. (x, y) \<in> set (zip xs' ys') \<Longrightarrow> p x y = q x y"
  shows "pairwise p xs ys = pairwise q xs' ys'"
  using assms by (auto simp: pairwise_def list_all_iff)

lemma zip_sizes [termination_simp]:
  "(x, t) \<in> set (zip xs ts) \<Longrightarrow> size t < Suc (size_list size ts)"
  "(y, n, t) \<in> set (zip ys fs) \<Longrightarrow> size t < Suc (size_list (\<lambda>x. Suc (size (snd x))) fs)"
proof -
  show "size t < Suc (size_list size ts)" if "(x, t) \<in> set (zip xs ts)"
    using set_zip_rightD [OF that] by (induction ts) auto
  show "size t < Suc (size_list (\<lambda>x. Suc (size (snd x))) fs)" if "(y, n, t) \<in> set (zip ys fs)"
    using set_zip_rightD [OF that] by (rule size_field)
qed

lemma find_size [termination_simp]:
  "find_first p cs = Some (n, Some t) \<Longrightarrow> size t < Suc (size_list (\<lambda>x. Suc (size_option size (snd x))) cs)"
  by (drule find_first_Some) (auto intro: size_case)

text \<open>The values of a type, as wasmtime checks them before a call.\<close>

function has_type :: "val \<Rightarrow> wit_type \<Rightarrow> bool" where
  "has_type v TBool \<longleftrightarrow> (\<exists>b. v = VBool b)"
| "has_type v TString \<longleftrightarrow> (\<exists>s. v = VString s)"
| "has_type v TChar \<longleftrightarrow> (\<exists>c. v = VChar c \<and> char_count c = 1)"
| "has_type v TU8 \<longleftrightarrow> (\<exists>n. v = VU8 n)"
| "has_type v TU16 \<longleftrightarrow> (\<exists>n. v = VU16 n)"
| "has_type v TU32 \<longleftrightarrow> (\<exists>n. v = VU32 n)"
| "has_type v TU64 \<longleftrightarrow> (\<exists>n. v = VU64 n)"
| "has_type v TS8 \<longleftrightarrow> (\<exists>n. v = VS8 n)"
| "has_type v TS16 \<longleftrightarrow> (\<exists>n. v = VS16 n)"
| "has_type v TS32 \<longleftrightarrow> (\<exists>n. v = VS32 n)"
| "has_type v TS64 \<longleftrightarrow> (\<exists>n. v = VS64 n)"
| "has_type v TFloat32 \<longleftrightarrow> (\<exists>x. v = VFloat32 x)"
| "has_type v TFloat64 \<longleftrightarrow> (\<exists>x. v = VFloat64 x)"
| "has_type v (TList t) \<longleftrightarrow> (\<exists>vs. v = VList vs \<and> list_all (\<lambda>w. has_type w t) vs)"
| "has_type v (TMap kt vt) \<longleftrightarrow> (\<exists>es. v = VMap es \<and> list_all (\<lambda>(k, w). has_type k kt \<and> has_type w vt) es)"
| "has_type v (TTuple ts) \<longleftrightarrow> (\<exists>vs. v = VTuple vs \<and> pairwise (\<lambda>w t. has_type w t) vs ts)"
| "has_type v (TRecord fs) \<longleftrightarrow> (\<exists>vs. v = VRecord vs \<and> pairwise (\<lambda>w f. fst w = fst f \<and> has_type (snd w) (snd f)) vs fs)"
| "has_type v (TOption t) \<longleftrightarrow> v = VOption None \<or> (\<exists>w. v = VOption (Some w) \<and> has_type w t)"
| "has_type v (TVariant cs) \<longleftrightarrow>
     (\<exists>name payload. v = VVariant name payload \<and>
       (case find_first (\<lambda>(n, t). n = name) cs of
          None \<Rightarrow> False
        | Some (n, None) \<Rightarrow> payload = None
        | Some (n, Some t) \<Rightarrow> (\<exists>w. payload = Some w \<and> has_type w t)))"
| "has_type v (TEnum names) \<longleftrightarrow> (\<exists>n \<in> set names. v = VEnum n)"
| "has_type v (TResult ok err) \<longleftrightarrow>
     (case ok of None \<Rightarrow> v = VResult (Inl None) | Some t \<Rightarrow> (\<exists>w. v = VResult (Inl (Some w)) \<and> has_type w t)) \<or>
     (case err of None \<Rightarrow> v = VResult (Inr None) | Some t \<Rightarrow> (\<exists>w. v = VResult (Inr (Some w)) \<and> has_type w t))"
| "has_type v (TFlags names) \<longleftrightarrow> (\<exists>fs. v = VFlags fs \<and> set fs \<subseteq> set names)"
| "has_type v TOwn \<longleftrightarrow> (\<exists>r. v = VResource r)"
| "has_type v TBorrow \<longleftrightarrow> (\<exists>r. v = VResource r)"
| "has_type v TFuture \<longleftrightarrow> v = VFuture"
| "has_type v TStream \<longleftrightarrow> v = VStream"
| "has_type v TErrorContext \<longleftrightarrow> v = VErrorContext"
  by pat_completeness auto
termination
  by (relation "measure (\<lambda>(v, t). size t)") (auto simp: termination_simp)

subsection \<open>Conversion is well typed\<close>

lemma collect_pairwise:
  "collect_res (map f xs) = Inr ys \<Longrightarrow> (\<And>x y. x \<in> set xs \<Longrightarrow> f x = Inr y \<Longrightarrow> p y x) \<Longrightarrow> pairwise p ys xs"
  using collect_res_nth [of f xs ys] collect_res_length [of "map f xs" ys]
  by (auto simp: pairwise_def list_all_iff set_zip)

lemma json_to_val_typed: "json_to_val fo j t = Inr v \<Longrightarrow> has_type v t"
proof (induction fo j t arbitrary: v rule: json_to_val.induct)
  case (14 fo j t)
  show ?case
  proof (cases j)
    case (JArray xs)
    with "14.prems" obtain vs where vs: "v = VList vs"
      "collect_res (map (\<lambda>(i, x). map_err (AtItem i) (json_to_val fo x t)) (enumerate 0 xs)) = Inr vs"
      by (auto simp: map_ok_Inr_iff)
    have "has_type w t" if w: "w \<in> set vs" for w
    proof -
      from collect_res_mem [OF vs(2) w] obtain i x where m: "(i, x) \<in> set (enumerate 0 xs)" "json_to_val fo x t = Inr w"
        by (auto simp: map_err_Inr_iff)
      from "14.IH" [OF JArray m(1) refl m(2)] show ?thesis .
    qed
    with vs(1) show ?thesis by (auto simp: list_all_iff)
  qed (use 14 in auto)
next
  case (15 fo j kt vt)
  show ?case
  proof (cases j)
    case (JObject obj)
    obtain es where es: "v = VMap es" "kt = TString" "collect_res (map (\<lambda>(k, v).
        map_err (AtKey k) (map_ok (Pair (VString k)) (json_to_val fo v vt))) obj) = Inr es"
      using "15.prems" JObject by (auto simp: map_ok_Inr_iff split: if_splits)
    have "has_type k kt \<and> has_type w vt" if e: "(k, w) \<in> set es" for k w
    proof -
      from collect_res_mem [OF es(3) e] obtain key x where m: "(key, x) \<in> set obj" "json_to_val fo x vt = Inr w" "k = VString key"
        by (auto simp: map_ok_Inr_iff map_err_Inr_iff)
      from "15.IH"(3) [OF JObject _ m(1) refl m(2)] m(3) es(2) show ?thesis by simp
    qed
    with es(1) show ?thesis by (auto simp: list_all_iff)
  next
    case (JArray xs)
    obtain es where es: "v = VMap es" "collect_res (map (\<lambda>(i, x). case x of
        JArray [k, w] \<Rightarrow> attempt (map_err (AtMapKey i) (json_to_val fo k kt)) (\<lambda>key.
          map_ok (Pair key) (map_err (AtMapValue i) (json_to_val fo w vt)))
      | _ \<Rightarrow> Inl (NotAPair i)) (enumerate 0 xs)) = Inr es"
      using "15.prems" JArray by (auto simp: map_ok_Inr_iff)
    have "has_type k kt \<and> has_type w vt" if e: "(k, w) \<in> set es" for k w
    proof -
      from collect_res_mem [OF es(2) e] obtain i a b where m: "(i, JArray [a, b]) \<in> set (enumerate 0 xs)"
        and conv: "json_to_val fo a kt = Inr k" "json_to_val fo b vt = Inr w"
        by (auto simp: attempt_Inr_iff map_ok_Inr_iff map_err_Inr_iff split: json.splits list.splits)
      from "15.IH"(1) [OF JArray m refl refl refl refl refl conv(1)] "15.IH"(2) [OF JArray m refl refl refl refl refl _ conv(2)]
        conv(1) show ?thesis by simp
    qed
    with es(1) show ?thesis by (auto simp: list_all_iff)
  qed (use 15 in auto)
next
  case (16 fo j ts)
  show ?case
  proof (cases j)
    case (JArray xs)
    with "16.prems" obtain vs where vs: "v = VTuple vs" "length xs = length ts"
      "collect_res (map (\<lambda>(i, x, t). map_err (AtTupleItem i) (json_to_val fo x t)) (enumerate 0 (zip xs ts))) = Inr vs"
      by (auto simp: map_ok_Inr_iff split: if_splits)
    note len = collect_res_length [OF vs(3)]
    have "has_type (vs ! i) (ts ! i)" if i: "i < length ts" for i
    proof -
      have m: "(i, xs ! i, ts ! i) \<in> set (enumerate 0 (zip xs ts))"
        using i vs(2) by (auto simp: in_set_conv_nth nth_enumerate_eq)
      have "json_to_val fo (xs ! i) (ts ! i) = Inr (vs ! i)"
        using collect_res_nth [OF vs(3), of i] i vs(2) by (simp add: nth_enumerate_eq map_err_Inr_iff)
      with "16.IH" [OF JArray _ m refl refl] vs(2) show ?thesis by simp
    qed
    with vs len show ?thesis by (auto simp: pairwise_def list_all_iff set_zip)
  qed (use 16 in auto)
next
  case (17 fo j fs)
  show ?case
  proof (cases j)
    case (JObject obj)
    with "17.prems" obtain vs where vs: "v = VRecord vs"
      "collect_res (map (\<lambda>(name, t). case hm_get name obj of
          Some w \<Rightarrow> map_ok (Pair name) (json_to_val fo w t) | None \<Rightarrow> missing_field name t) fs) = Inr vs"
      by (auto simp: attempt_Inr_iff split: option.splits)
    have "pairwise (\<lambda>w f. fst w = fst f \<and> has_type (snd w) (snd f)) vs fs"
    proof (rule collect_pairwise [OF vs(2)])
      fix f w assume f: "f \<in> set fs" and w: "(case f of (name, t) \<Rightarrow> case hm_get name obj of
          Some w \<Rightarrow> map_ok (Pair name) (json_to_val fo w t) | None \<Rightarrow> missing_field name t) = Inr w"
      obtain name t where nt: "f = (name, t)" by force
      show "fst w = fst f \<and> has_type (snd w) (snd f)"
      proof (cases "hm_get name obj")
        case None
        with w show ?thesis by (auto simp: nt missing_field_def split: wit_type.splits)
      next
        case (Some x)
        with w "17.IH" [OF JObject f nt [symmetric] Some] show ?thesis by (auto simp: nt map_ok_Inr_iff)
      qed
    qed
    with vs show ?thesis by auto
  qed (use 17 in auto)
next
  case (18 fo j t)
  then show ?case by (auto simp: map_ok_Inr_iff split: json.splits)
next
  case (19 fo j cs)
  show ?case
  proof (cases j)
    case (JObject obj)
    with "19.prems" obtain name n payload where found: "ok_or VariantWithoutType (and_then (hm_get ''type'' obj) as_str) = Inr name"
      "ok_or (UnknownCase name) (find_first (\<lambda>(n, t). n = name) cs) = Inr (n, payload)"
      and res: "(case payload of Some t \<Rightarrow> map_ok (\<lambda>v. VVariant name (Some v)) (json_to_val fo (variant_payload obj) t)
           | None \<Rightarrow> Inr (VVariant name None)) = Inr v"
      by (auto simp: attempt_Inr_iff)
    show ?thesis
    proof (cases payload)
      case None
      with res found show ?thesis by (auto simp: ok_or_Inr_iff)
    next
      case (Some t)
      with res found "19.IH" [OF JObject found refl Some] show ?thesis by (auto simp: map_ok_Inr_iff ok_or_Inr_iff)
    qed
  qed (use 19 in auto)
next
  case (21 fo j ok err)
  then show ?case by (auto simp: map_ok_Inr_iff split: json.splits option.splits)
next
  case (22 fo j names)
  show ?case
  proof (cases j)
    case (JArray xs)
    with "22.prems" obtain fs where fs: "v = VFlags fs"
      "collect_res (map (\<lambda>x. case x of JString s \<Rightarrow> if s \<in> set names then Inr s else Inl (UnknownFlag s)
         | _ \<Rightarrow> Inl (FlagNotString x)) xs) = Inr fs"
      by (auto simp: map_ok_Inr_iff)
    have "s \<in> set names" if s: "s \<in> set fs" for s
    proof -
      obtain x where "(case x of JString s \<Rightarrow> if s \<in> set names then Inr s else Inl (UnknownFlag s)
         | _ \<Rightarrow> Inl (FlagNotString x)) = Inr s"
        using collect_res_mem [OF fs(2) s] by blast
      then show ?thesis by (cases x) (auto split: if_splits)
    qed
    with fs(1) show ?thesis by auto
  qed (use 22 in auto)
qed (auto simp: unsigned_val_def signed_val_def float_val_def map_ok_Inr_iff ok_or_Inr_iff
    split: json.splits if_splits)

text \<open>
  Conversion from JSON is type safe: whatever JSON a caller supplies, a conversion that succeeds
  yields a value of the requested type (widths, list and tuple elements, record fields in order, variant
  and enum cases, flags, map keys), so that a component is never called with an ill-typed argument.
\<close>

theorem conversion_well_typed:
  assumes "json_to_val fo j t = Inr v"
  shows "has_type v t"
  by (rule json_to_val_typed [OF assms])

subsection \<open>Round trip\<close>

text \<open>
  The values that JSON carries faithfully: well typed, floats finite, no optional value that is itself
  an absent option, string-keyed maps in ascending key order, other maps not empty, the field names of
  a record distinct, and no variant whose payload is written as a JSON object.
\<close>

fun object_json :: "val \<Rightarrow> bool" where
  "object_json (VRecord fs) = True"
| "object_json (VVariant name payload) = True"
| "object_json (VResult r) = True"
| "object_json (VMap es) = list_all (\<lambda>(k, v). string_key k \<noteq> None) es"
| "object_json (VOption (Some v)) = object_json v"
| "object_json _ = False"

definition string_keyed :: "(val \<times> val) list \<Rightarrow> bool" where
  "string_keyed es \<longleftrightarrow> list_all (\<lambda>(k, v). string_key k \<noteq> None) es \<and>
     sorted_wrt (<) (map (\<lambda>(k, v). unwrap_or (string_key k) []) es)"

function faithful :: "float_ops \<Rightarrow> val \<Rightarrow> wit_type \<Rightarrow> bool" where
  "faithful fo v TBool \<longleftrightarrow> has_type v TBool"
| "faithful fo v TString \<longleftrightarrow> has_type v TString"
| "faithful fo v TChar \<longleftrightarrow> has_type v TChar"
| "faithful fo v TU8 \<longleftrightarrow> has_type v TU8"
| "faithful fo v TU16 \<longleftrightarrow> has_type v TU16"
| "faithful fo v TU32 \<longleftrightarrow> has_type v TU32"
| "faithful fo v TU64 \<longleftrightarrow> has_type v TU64"
| "faithful fo v TS8 \<longleftrightarrow> has_type v TS8"
| "faithful fo v TS16 \<longleftrightarrow> has_type v TS16"
| "faithful fo v TS32 \<longleftrightarrow> has_type v TS32"
| "faithful fo v TS64 \<longleftrightarrow> has_type v TS64"
| "faithful fo v TFloat32 \<longleftrightarrow> (\<exists>x. v = VFloat32 x \<and> is_finite (fo_widen fo x))"
| "faithful fo v TFloat64 \<longleftrightarrow> (\<exists>x. v = VFloat64 x \<and> is_finite x)"
| "faithful fo v (TList t) \<longleftrightarrow> (\<exists>vs. v = VList vs \<and> list_all (\<lambda>w. faithful fo w t) vs)"
| "faithful fo v (TMap kt vt) \<longleftrightarrow>
     (\<exists>es. v = VMap es \<and> list_all (\<lambda>(k, w). faithful fo k kt \<and> faithful fo w vt) es \<and>
       (if kt = TString then string_keyed es else es \<noteq> []))"
| "faithful fo v (TTuple ts) \<longleftrightarrow> (\<exists>vs. v = VTuple vs \<and> pairwise (\<lambda>w t. faithful fo w t) vs ts)"
| "faithful fo v (TRecord fs) \<longleftrightarrow> distinct (map fst fs) \<and>
     (\<exists>vs. v = VRecord vs \<and> pairwise (\<lambda>w f. fst w = fst f \<and> faithful fo (snd w) (snd f)) vs fs)"
| "faithful fo v (TOption t) \<longleftrightarrow> v = VOption None \<or> (\<exists>w. v = VOption (Some w) \<and> faithful fo w t \<and> w \<noteq> VOption None)"
| "faithful fo v (TVariant cs) \<longleftrightarrow>
     (\<exists>name payload. v = VVariant name payload \<and>
       (case find_first (\<lambda>(n, t). n = name) cs of
          None \<Rightarrow> False
        | Some (n, None) \<Rightarrow> payload = None
        | Some (n, Some t) \<Rightarrow> (\<exists>w. payload = Some w \<and> faithful fo w t \<and> \<not> object_json w)))"
| "faithful fo v (TEnum names) \<longleftrightarrow> has_type v (TEnum names)"
| "faithful fo v (TResult ok err) \<longleftrightarrow>
     (case ok of None \<Rightarrow> v = VResult (Inl None) | Some t \<Rightarrow> (\<exists>w. v = VResult (Inl (Some w)) \<and> faithful fo w t)) \<or>
     (case err of None \<Rightarrow> v = VResult (Inr None) | Some t \<Rightarrow> (\<exists>w. v = VResult (Inr (Some w)) \<and> faithful fo w t))"
| "faithful fo v (TFlags names) \<longleftrightarrow> has_type v (TFlags names)"
| "faithful fo v TOwn \<longleftrightarrow> False"
| "faithful fo v TBorrow \<longleftrightarrow> False"
| "faithful fo v TFuture \<longleftrightarrow> False"
| "faithful fo v TStream \<longleftrightarrow> False"
| "faithful fo v TErrorContext \<longleftrightarrow> False"
  by pat_completeness auto
termination
  by (relation "measure (\<lambda>(fo, v, t). size t)") (auto simp: termination_simp)

text \<open>What IEEE arithmetic guarantees of the conversions used.\<close>

definition float_laws :: "float_ops \<Rightarrow> bool" where
  "float_laws fo \<longleftrightarrow> (\<forall>b. fo_of_number fo (Float b) = b) \<and>
     (\<forall>x. is_finite (fo_widen fo x) \<longrightarrow> fo_narrow fo (fo_widen fo x) = x)"

lemma narrow_cast [simp]:
  "(ucast (ucast (a :: 8 word) :: 64 word) :: 8 word) = a" "(ucast (ucast (b :: 16 word) :: 64 word) :: 16 word) = b"
  "(ucast (ucast (c :: 32 word) :: 64 word) :: 32 word) = c"
  "(ucast (scast (a :: 8 word) :: 64 word) :: 8 word) = a" "(ucast (scast (b :: 16 word) :: 64 word) :: 16 word) = b"
  "(ucast (scast (c :: 32 word) :: 64 word) :: 32 word) = c"
  by (rule bit_word_eqI; simp add: bit_simps)+

lemma object_json_iff: "val_to_json fo v = Inr j \<Longrightarrow> (\<exists>obj. j = JObject obj) \<longleftrightarrow> object_json v"
  by (induction fo v arbitrary: j rule: val_to_json.induct)
    (auto simp: map_ok_Inr_iff float_json_def variant_object_def Let_def jobj_def split: if_splits)

lemma null_json: "val_to_json fo v = Inr JNull \<Longrightarrow> faithful fo v t \<Longrightarrow> v = VOption None"
proof (induction fo v arbitrary: t rule: val_to_json.induct)
  case (18 fo v)
  then show ?case by (cases t) (auto split: option.splits)
qed (auto simp: map_ok_Inr_iff float_json_def variant_object_def Let_def jobj_def split: if_splits,
    (case_tac t; auto split: option.splits)+)

lemma bt_insert_last: "\<forall>k' \<in> set (map fst m). k' < k \<Longrightarrow> bt_insert k v m = m @ [(k, v)]"
  by (induction m) auto

lemma bt_extend_ascending: "sorted_wrt (<) (map fst (m @ kvs)) \<Longrightarrow> bt_extend m kvs = m @ kvs"
proof (induction kvs arbitrary: m)
  case (Cons kv kvs)
  obtain k v where kv: "kv = (k, v)" by force
  have "bt_insert k v m = m @ [(k, v)]"
    using Cons.prems by (intro bt_insert_last) (auto simp: kv sorted_wrt_append)
  with Cons.IH [of "m @ [(k, v)]"] Cons.prems show ?case by (simp add: kv bt_extend_def)
qed (simp add: bt_extend_def)

lemma no_string_key: "has_type k kt \<Longrightarrow> kt \<noteq> TString \<Longrightarrow> string_key k = None"
  by (cases kt; cases k) (auto split: option.splits prod.splits)

lemma collect_choose:
  "(\<And>x. x \<in> set xs \<Longrightarrow> \<exists>y. f x = Inr y \<and> p x y) \<Longrightarrow> \<exists>ys. collect_res (map f xs) = Inr ys \<and> list_all2 p xs ys"
proof (induction xs)
  case (Cons x xs)
  then obtain y ys where "f x = Inr y" "p x y" "collect_res (map f xs) = Inr ys" "list_all2 p xs ys"
    by (metis list.set_intros)
  then show ?case by (intro exI [of _ "y # ys"]) simp
qed simp

lemma collect_enumerate:
  "list_all2 (\<lambda>x y. g y = Inr x) xs ys \<Longrightarrow> collect_res (map (\<lambda>(i, y). map_err (e i) (g y)) (enumerate n ys)) = Inr xs"
  by (induction xs ys arbitrary: n rule: list_all2_induct) auto

lemma faithful_typed: "faithful fo v t \<Longrightarrow> has_type v t"
proof (induction fo v t rule: faithful.induct)
  case (15 fo v kt vt)
  then show ?case by (fastforce simp: list_all_iff)
next
  case (16 fo v ts)
  then show ?case by (fastforce simp: pairwise_def list_all_iff)
next
  case (17 fo v fs)
  then show ?case by (fastforce simp: pairwise_def list_all_iff)
next
  case (19 fo v cs)
  then obtain name payload where v: "v = VVariant name payload" and
    p: "case find_first (\<lambda>(n, t). n = name) cs of None \<Rightarrow> False | Some (n, None) \<Rightarrow> payload = None
        | Some (n, Some t) \<Rightarrow> (\<exists>w. payload = Some w \<and> faithful fo w t \<and> \<not> object_json w)" by auto
  show ?case
  proof (cases "find_first (\<lambda>(n, t). n = name) cs")
    case (Some nt)
    then show ?thesis using v p 19(1) by (cases nt; cases "snd nt") auto
  qed (use p in simp)
next
  case (21 fo v ok err)
  then show ?case by (auto split: option.splits)
qed (auto simp: list_all_iff)

lemma list_round_trip:
  assumes "\<And>w. w \<in> set vs \<Longrightarrow> \<exists>j. val_to_json fo w = Inr j \<and> json_to_val fo j t = Inr w"
  shows "\<exists>j. val_to_json fo (VList vs) = Inr j \<and> json_to_val fo j (TList t) = Inr (VList vs)"
proof -
  obtain js where js: "collect_res (map (val_to_json fo) vs) = Inr js"
    "list_all2 (\<lambda>w j. json_to_val fo j t = Inr w) vs js"
    using collect_choose [of vs "val_to_json fo" "\<lambda>w j. json_to_val fo j t = Inr w"] assms by blast
  from js(1) collect_enumerate [OF js(2), of AtItem 0] show ?thesis by simp
qed

lemma tuple_round_trip:
  assumes "length vs = length ts"
    and "\<And>i. i < length ts \<Longrightarrow> \<exists>j. val_to_json fo (vs ! i) = Inr j \<and> json_to_val fo j (ts ! i) = Inr (vs ! i)"
  shows "\<exists>j. val_to_json fo (VTuple vs) = Inr j \<and> json_to_val fo j (TTuple ts) = Inr (VTuple vs)"
proof -
  have all: "\<exists>js. collect_res (map (val_to_json fo) vs) = Inr js \<and> length js = length ts \<and>
      (\<forall>n. collect_res (map (\<lambda>(i, x, t). map_err (AtTupleItem i) (json_to_val fo x t)) (enumerate n (zip js ts))) = Inr vs)"
    using assms
  proof (induction vs ts rule: list_induct2)
    case (Cons v vs t ts)
    from Cons.prems [of 0] obtain j where j: "val_to_json fo v = Inr j" "json_to_val fo j t = Inr v" by auto
    have "\<exists>j. val_to_json fo (vs ! i) = Inr j \<and> json_to_val fo j (ts ! i) = Inr (vs ! i)" if "i < length ts" for i
      using Cons.prems [of "Suc i"] that by simp
    from Cons.IH [OF this] obtain js where "collect_res (map (val_to_json fo) vs) = Inr js" "length js = length ts"
      "\<forall>n. collect_res (map (\<lambda>(i, x, t). map_err (AtTupleItem i) (json_to_val fo x t)) (enumerate n (zip js ts))) = Inr vs"
      by blast
    with j show ?case by (intro exI [of _ "j # js"]) simp
  qed simp
  then obtain js where "collect_res (map (val_to_json fo) vs) = Inr js" "length js = length ts"
    "collect_res (map (\<lambda>(i, x, t). map_err (AtTupleItem i) (json_to_val fo x t)) (enumerate 0 (zip js ts))) = Inr vs"
    by blast
  then show ?thesis by simp
qed

lemma fields_to_json:
  assumes "\<And>k w. (k, w) \<in> set vs \<Longrightarrow> \<exists>j. val_to_json fo w = Inr j \<and> q k w j"
  shows "\<exists>js. collect_res (map (\<lambda>(k, w). map_ok (Pair k) (val_to_json fo w)) vs) = Inr js \<and>
    list_all2 (\<lambda>(k, w) (k', j). k' = k \<and> q k w j) vs js"
  by (rule collect_choose) (use assms in \<open>fastforce simp: map_ok_Inr_iff\<close>)

lemma record_round_trip:
  assumes "distinct (map fst fs)" and "map fst vs = map fst fs"
    and "\<And>i. i < length fs \<Longrightarrow> \<exists>j. val_to_json fo (snd (vs ! i)) = Inr j \<and> json_to_val fo j (snd (fs ! i)) = Inr (snd (vs ! i))"
  shows "\<exists>j. val_to_json fo (VRecord vs) = Inr j \<and> json_to_val fo j (TRecord fs) = Inr (VRecord vs)"
proof -
  have len: "length vs = length fs" using assms(2) by (metis length_map)
  have "\<exists>js. length js = length fs \<and> (\<forall>i < length fs. val_to_json fo (snd (vs ! i)) = Inr (js ! i) \<and>
      json_to_val fo (js ! i) (snd (fs ! i)) = Inr (snd (vs ! i)))"
    using assms(3) Skolem_list_nth [of "length fs" "\<lambda>i j. val_to_json fo (snd (vs ! i)) = Inr j \<and>
      json_to_val fo j (snd (fs ! i)) = Inr (snd (vs ! i))"] by blast
  then obtain js where js: "length js = length fs"
    "\<And>i. i < length fs \<Longrightarrow> val_to_json fo (snd (vs ! i)) = Inr (js ! i)"
    "\<And>i. i < length fs \<Longrightarrow> json_to_val fo (js ! i) (snd (fs ! i)) = Inr (snd (vs ! i))" by blast
  let ?kvs = "zip (map fst fs) js" and ?obj = "bt_extend [] (zip (map fst fs) js)"
  have name: "fst (vs ! i) = fst (fs ! i)" if "i < length fs" for i
    using assms(2) that len by (metis nth_map)
  have "collect_res (map (\<lambda>(k, w). map_ok (Pair k) (val_to_json fo w)) vs) = Inr ?kvs"
    unfolding collect_res_Inr_iff by (rule nth_equalityI) (use js len name in \<open>auto simp: case_prod_beta\<close>)
  then have out: "val_to_json fo (VRecord vs) = Inr (JObject ?obj)" by simp
  have get: "hm_get (fst (fs ! i)) ?obj = Some (js ! i)" if "i < length fs" for i
  proof -
    have "distinct (map fst ?kvs)" using assms(1) js(1) by simp
    moreover have "(fst (fs ! i), js ! i) \<in> set ?kvs" using that js(1) by (auto simp: set_zip intro!: exI [of _ i])
    ultimately show ?thesis by (simp add: bt_get_extend map_of_rev_distinct_keys)
  qed
  have "collect_res (map (\<lambda>(name, t). case hm_get name ?obj of Some v \<Rightarrow> map_ok (Pair name) (json_to_val fo v t)
      | None \<Rightarrow> missing_field name t) fs) = Inr vs"
    unfolding collect_res_Inr_iff
    by (rule nth_equalityI) (use js len name get in \<open>auto simp: case_prod_beta prod_eq_iff\<close>)
  moreover have "find_first (\<lambda>(k, v). \<not> list_ex (\<lambda>(n, t). n = k) fs) ?obj = None"
  proof -
    have "k \<in> fst ` set fs" if "(k, v) \<in> set ?obj" for k v
    proof -
      have "hm_get k ?obj \<noteq> None" using that by (metis map_of_eq_None_iff fst_conv image_eqI)
      then have "hm_get k (rev ?kvs) \<noteq> None" by (simp add: bt_get_extend)
      then show ?thesis by (auto simp: map_of_eq_None_iff dest!: set_zip_leftD)
    qed
    then show ?thesis by (force simp: find_first_None_iff list_ex_iff)
  qed
  ultimately show ?thesis using out by simp
qed

lemma string_map_round_trip:
  assumes "string_keyed es" and "\<And>k w. (k, w) \<in> set es \<Longrightarrow> \<exists>j. val_to_json fo w = Inr j \<and> json_to_val fo j vt = Inr w"
  shows "\<exists>j. val_to_json fo (VMap es) = Inr j \<and> json_to_val fo j (TMap TString vt) = Inr (VMap es)"
proof -
  let ?key = "\<lambda>k. unwrap_or (string_key k) []"
  have keys: "string_key k = Some (?key k)" "k = VString (?key k)" if "(k, w) \<in> set es" for k w
    using assms(1) that by (cases k; auto simp: string_keyed_def list_all_iff)+
  have "\<exists>kvs. collect_res (map (\<lambda>(k, v). map_ok (Pair (?key k)) (val_to_json fo v)) es) = Inr kvs \<and>
      list_all2 (\<lambda>(k, w) (k', j). k = VString k' \<and> json_to_val fo j vt = Inr w) es kvs"
    by (rule collect_choose) (use assms(2) keys(2) in \<open>fastforce simp: map_ok_Inr_iff\<close>)
  then obtain kvs where kvs: "collect_res (map (\<lambda>(k, v). map_ok (Pair (?key k)) (val_to_json fo v)) es) = Inr kvs"
    "list_all2 (\<lambda>(k, w) (k', j). k = VString k' \<and> json_to_val fo j vt = Inr w) es kvs" by blast
  have "map fst kvs = map (\<lambda>(k, v). ?key k) es"
    using kvs(2) by (induction rule: list_all2_induct) auto
  then have "bt_extend [] kvs = kvs"
    using bt_extend_ascending [of "[]" kvs] assms(1) by (simp add: string_keyed_def)
  moreover have "collect_res (map (\<lambda>(k, v). map_err (AtKey k) (map_ok (Pair (VString k)) (json_to_val fo v vt))) kvs) = Inr es"
    using kvs(2) by (induction rule: list_all2_induct) auto
  ultimately show ?thesis using kvs(1) assms(1) by (simp add: string_keyed_def)
qed

lemma pair_map_round_trip:
  assumes "es \<noteq> []" and "\<And>k w. (k, w) \<in> set es \<Longrightarrow> string_key k = None"
    and "\<And>k w. (k, w) \<in> set es \<Longrightarrow> (\<exists>j. val_to_json fo k = Inr j \<and> json_to_val fo j kt = Inr k) \<and>
      (\<exists>j. val_to_json fo w = Inr j \<and> json_to_val fo j vt = Inr w)"
  shows "\<exists>j. val_to_json fo (VMap es) = Inr j \<and> json_to_val fo j (TMap kt vt) = Inr (VMap es)"
proof -
  let ?read = "\<lambda>n js. collect_res (map (\<lambda>(i, x). (case x of
               JArray [k, v] \<Rightarrow>
                 attempt (map_err (AtMapKey i) (json_to_val fo k kt)) (\<lambda>key.
                   map_ok (Pair key) (map_err (AtMapValue i) (json_to_val fo v vt)))
             | _ \<Rightarrow> Inl (NotAPair i))) (enumerate n js))"
  let ?entry = "\<lambda>(k, v). attempt (val_to_json fo k) (\<lambda>k'. map_ok (\<lambda>v'. JArray [k', v']) (val_to_json fo v))"
  have "\<exists>js. collect_res (map ?entry es) = Inr js \<and>
      list_all2 (\<lambda>(k, w) x. \<exists>k' w'. x = JArray [k', w'] \<and> json_to_val fo k' kt = Inr k \<and> json_to_val fo w' vt = Inr w) es js"
    by (rule collect_choose) (use assms(3) in fastforce)
  then obtain js where js: "collect_res (map ?entry es) = Inr js"
    "list_all2 (\<lambda>(k, w) x. \<exists>k' w'. x = JArray [k', w'] \<and> json_to_val fo k' kt = Inr k \<and> json_to_val fo w' vt = Inr w) es js"
    by blast
  have "?read n js = Inr es" for n
    using js(2) by (induction arbitrary: n rule: list_all2_induct) auto
  moreover have "\<not> list_all (\<lambda>(k, v). string_key k \<noteq> None) es"
    using assms(1) assms(2) [of "fst (hd es)" "snd (hd es)"] by (cases es) auto
  ultimately show ?thesis using js(1) by simp
qed

lemma variant_round_trip:
  assumes "find_first (\<lambda>(n, t). n = name) cs = Some (n, Some t)" and "\<not> object_json w"
    and "val_to_json fo w = Inr j" and "json_to_val fo j t = Inr w"
  shows "json_to_val fo (variant_object name (Some j)) (TVariant cs) = Inr (VVariant name (Some w))"
proof -
  have "variant_object name (Some j) = JObject [(''type'', JString name), (''value'', j)]"
    using object_json_iff [OF assms(3)] assms(2)
    by (cases j) (auto simp: variant_object_def Let_def list_less_def less_char_def)
  with assms(1,4) show ?thesis by (simp add: variant_payload_def)
qed

lemma number_round_trip:
  "json_to_val fo (JNumber (num_of_i64 n)) TS64 = Inr (VS64 n)"
  "json_to_val fo (JNumber (num_of_i64 (scast a))) TS8 = Inr (VS8 a)"
  "json_to_val fo (JNumber (num_of_i64 (scast b))) TS16 = Inr (VS16 b)"
  "json_to_val fo (JNumber (num_of_i64 (scast c))) TS32 = Inr (VS32 c)"
  by (simp_all add: signed_val_def as_i64_num_of_i64)

lemma value_round_trip:
  "faithful fo v t \<Longrightarrow> float_laws fo \<Longrightarrow> \<exists>j. val_to_json fo v = Inr j \<and> json_to_val fo j t = Inr v"
proof (induction fo v t rule: faithful.induct)
  case (12 fo v)
  then show ?case by (auto simp: float_json_def float_val_def float_laws_def)
next
  case (13 fo v)
  then show ?case by (auto simp: float_json_def float_val_def float_laws_def)
next
  case (14 fo v t)
  then obtain vs where vs: "v = VList vs" "\<And>w. w \<in> set vs \<Longrightarrow> faithful fo w t" by (auto simp: list_all_iff)
  with "14.IH" "14.prems"(2) show ?case using list_round_trip [of vs fo t] by blast
next
  case (15 fo v kt vt)
  from "15.prems"(1) obtain es where es: "v = VMap es" "\<And>k w. (k, w) \<in> set es \<Longrightarrow> faithful fo k kt \<and> faithful fo w vt"
    "if kt = TString then string_keyed es else es \<noteq> []" by (auto simp: list_all_iff)
  have kv: "(\<exists>j. val_to_json fo k = Inr j \<and> json_to_val fo j kt = Inr k) \<and>
      (\<exists>j. val_to_json fo w = Inr j \<and> json_to_val fo j vt = Inr w)" if "(k, w) \<in> set es" for k w
    using "15.IH" (1) [OF that refl] "15.IH" (2) [OF that refl] es(2) [OF that] "15.prems"(2) by simp
  show ?case
  proof (cases "kt = TString")
    case True
    with es kv show ?thesis using string_map_round_trip [of es fo vt] by auto
  next
    case False
    with es(2) have "string_key k = None" if "(k, w) \<in> set es" for k w
      using that by (blast intro: no_string_key faithful_typed)
    with False es(1,3) kv show ?thesis using pair_map_round_trip [of es fo kt vt] by auto
  qed
next
  case (16 fo v ts)
  from "16.prems"(1) obtain vs where vs: "v = VTuple vs" "length vs = length ts"
    "\<And>i. i < length ts \<Longrightarrow> faithful fo (vs ! i) (ts ! i)"
    by (auto simp: pairwise_nth)
  have "\<exists>j. val_to_json fo (vs ! i) = Inr j \<and> json_to_val fo j (ts ! i) = Inr (vs ! i)" if "i < length ts" for i
    using "16.IH" [of "vs ! i" "ts ! i" vs] vs(2,3) that "16.prems"(2) by (auto simp: set_zip)
  with vs tuple_round_trip show ?case by blast
next
  case (17 fo v fs)
  from "17.prems"(1) obtain vs where vs: "v = VRecord vs" "length vs = length fs" "distinct (map fst fs)"
    "\<And>i. i < length fs \<Longrightarrow> fst (vs ! i) = fst (fs ! i) \<and> faithful fo (snd (vs ! i)) (snd (fs ! i))"
    by (auto simp: pairwise_nth)
  have "\<exists>j. val_to_json fo (snd (vs ! i)) = Inr j \<and> json_to_val fo j (snd (fs ! i)) = Inr (snd (vs ! i))" if "i < length fs" for i
    using "17.IH" [of "vs ! i" "fs ! i" vs] vs(2,4) that "17.prems"(2) by (auto simp: set_zip)
  moreover have "map fst vs = map fst fs" using vs(2,4) by (simp add: list_eq_iff_nth_eq)
  ultimately show ?case using vs(1,3) record_round_trip by blast
next
  case (18 fo v t)
  show ?case
  proof (cases "v = VOption None")
    case False
    with "18.prems"(1) obtain w where w: "v = VOption (Some w)" "faithful fo w t" "w \<noteq> VOption None" by auto
    then obtain j where j: "val_to_json fo w = Inr j" "json_to_val fo j t = Inr w"
      using "18.IH" "18.prems"(2) by blast
    moreover have "j \<noteq> JNull" using null_json w(2,3) j(1) by blast
    ultimately show ?thesis using w(1) by (cases j) auto
  qed simp
next
  case (19 fo v cs)
  from "19.prems"(1) obtain name payload where v: "v = VVariant name payload" and
    p: "case find_first (\<lambda>(n, t). n = name) cs of None \<Rightarrow> False | Some (n, None) \<Rightarrow> payload = None
        | Some (n, Some t) \<Rightarrow> (\<exists>w. payload = Some w \<and> faithful fo w t \<and> \<not> object_json w)" by auto
  from p obtain n ty where f: "find_first (\<lambda>(n, t). n = name) cs = Some (n, ty)"
    by (auto split: option.splits)
  show ?case
  proof (cases ty)
    case None
    with f p v show ?thesis by (auto simp: variant_object_def Let_def)
  next
    case (Some t)
    with f p obtain w where w: "payload = Some w" "faithful fo w t" "\<not> object_json w" by auto
    with "19.IH" v f Some "19.prems"(2) obtain j where "val_to_json fo w = Inr j" "json_to_val fo j t = Inr w" by blast
    with v w f Some show ?thesis using variant_round_trip [of name cs n t w fo j] by auto
  qed
next
  case (21 fo v ok err)
  from "21.prems" (1) consider "ok = None" "v = VResult (Inl None)" | "err = None" "v = VResult (Inr None)"
    | t w where "ok = Some t" "v = VResult (Inl (Some w))" "faithful fo w t"
    | t w where "err = Some t" "v = VResult (Inr (Some w))" "faithful fo w t"
    by (auto split: option.splits)
  then show ?case
  proof cases
    case (3 t w)
    with "21.IH" "21.prems" (2) obtain j where "val_to_json fo w = Inr j" "json_to_val fo j t = Inr w" by blast
    with 3 show ?thesis by (simp add: jobj_def bt_extend_def)
  next
    case (4 t w)
    with "21.IH" "21.prems" (2) obtain j where "val_to_json fo w = Inr j" "json_to_val fo j t = Inr w" by blast
    with 4 show ?thesis by (simp add: jobj_def bt_extend_def)
  qed (simp_all add: jobj_def bt_extend_def)
next
  case (22 fo v names)
  then obtain fs where fs: "v = VFlags fs" "set fs \<subseteq> set names" by auto
  then have "collect_res (map (\<lambda>x. case x of JString s \<Rightarrow> if s \<in> set names then Inr s else Inl (UnknownFlag s)
      | _ \<Rightarrow> Inl (FlagNotString x)) (map JString fs)) = Inr fs"
    by (induction fs arbitrary: v) auto
  with fs(1) show ?case by simp
qed (auto simp: number_round_trip unsigned_val_def simp del: json_to_val.simps(8-11))

text \<open>
  C26. Round trip: every value that JSON carries faithfully is written without error, and reading the
  JSON back at the value's type gives the value itself, at every nesting of lists, tuples, records,
  maps, options, variants and results.
\<close>

theorem conversion_roundtrip:
  assumes "float_laws fo" and "faithful fo v t"
  shows "\<exists>j. val_to_json fo v = Inr j \<and> json_to_val fo j t = Inr v"
  by (rule value_round_trip [OF assms(2,1)])

definition bit_floats :: float_ops where
  "bit_floats = \<lparr>fo_parse32 = (\<lambda>s. None), fo_parse64 = (\<lambda>s. None),
     fo_of_number = (\<lambda>n. case n of Float b \<Rightarrow> b | PosInt k \<Rightarrow> k | NegInt k \<Rightarrow> k),
     fo_narrow = ucast, fo_widen = ucast\<rparr>"

lemma bit_floats_laws: "float_laws bit_floats"
  by (simp add: float_laws_def bit_floats_def)

theorem conversion_well_typed_witness:
  "has_type (VRecord [(''id'', VU8 7), (''tag'', VOption None)]) (TRecord [(''id'', TU8), (''tag'', TOption TString)])"
  by (rule conversion_well_typed [of bit_floats "JObject [(''id'', JNumber (PosInt 7))]"]) code_simp

theorem conversion_roundtrip_witness:
  "\<exists>j. val_to_json bit_floats (VRecord [(''ids'', VList [VS8 (- 1), VS8 5]), (''out'', VVariant ''err'' (Some (VString ''no'')))]) = Inr j \<and>
     json_to_val bit_floats j (TRecord [(''ids'', TList TS8), (''out'', TVariant [(''ok'', None), (''err'', Some TString)])]) =
       Inr (VRecord [(''ids'', VList [VS8 (- 1), VS8 5]), (''out'', VVariant ''err'' (Some (VString ''no'')))])"
  by (rule conversion_roundtrip [OF bit_floats_laws]) (simp add: pairwise_def)

subsection \<open>What is lost\<close>

lemma narrow_word:
  "(ucast (n :: 64 word) :: 8 word) = of_nat (unat n mod 256)"
  "(ucast n :: 16 word) = of_nat (unat n mod 65536)" "(ucast n :: 32 word) = of_nat (unat n mod 4294967296)"
  by (simp_all add: word_unat_eq_iff unsigned_ucast_eq unsigned_of_nat take_bit_eq_mod)

lemma collect_fields_keys:
  "collect_res (map (\<lambda>(k, v). map_ok (Pair k) (f v)) xs) = Inr kvs \<Longrightarrow> map fst kvs = map fst xs"
  by (induction xs arbitrary: kvs) (auto simp: map_ok_Inr_iff attempt_Inr_iff)

lemma map_of_rev_None: "map_of m k = None \<Longrightarrow> map_of (rev m) k = None"
  by (simp add: map_of_eq_None_iff)

lemma extra_field_rejected:
  assumes "(k, x) \<in> set obj" and "k \<notin> fst ` set fs"
  shows "\<exists>e. json_to_val fo (JObject obj) (TRecord fs) = Inl e"
proof -
  have "find_first (\<lambda>(k, v). \<not> list_ex (\<lambda>(n, t). n = k) fs) obj \<noteq> None"
    using assms unfolding find_first_None_iff by (force simp: list_ex_iff)
  then show ?thesis by (auto simp: attempt_def split: sum.splits)
qed

text \<open>The integer types: name, signedness and width; the integer that a value stands for; and the
  integer that a JSON number stands for, when it is not written with a fraction or an exponent.\<close>

fun int_type :: "wit_type \<Rightarrow> (string \<times> bool \<times> nat) option" where
  "int_type TU8 = Some (''u8'', False, 8)"
| "int_type TU16 = Some (''u16'', False, 16)"
| "int_type TU32 = Some (''u32'', False, 32)"
| "int_type TU64 = Some (''u64'', False, 64)"
| "int_type TS8 = Some (''s8'', True, 8)"
| "int_type TS16 = Some (''s16'', True, 16)"
| "int_type TS32 = Some (''s32'', True, 32)"
| "int_type TS64 = Some (''s64'', True, 64)"
| "int_type T = None"

fun int_of_val :: "val \<Rightarrow> int" where
  "int_of_val (VU8 n) = uint n"
| "int_of_val (VU16 n) = uint n"
| "int_of_val (VU32 n) = uint n"
| "int_of_val (VU64 n) = uint n"
| "int_of_val (VS8 n) = sint n"
| "int_of_val (VS16 n) = sint n"
| "int_of_val (VS32 n) = sint n"
| "int_of_val (VS64 n) = sint n"
| "int_of_val v = 0"

fun int_of_number :: "number \<Rightarrow> int option" where
  "int_of_number (PosInt n) = Some (uint n)"
| "int_of_number (NegInt n) = Some (sint n)"
| "int_of_number (Float b) = None"

definition in_range :: "bool \<Rightarrow> nat \<Rightarrow> int \<Rightarrow> bool" where
  "in_range has_sign w k \<longleftrightarrow>
     (if has_sign then - (2 ^ (w - 1)) \<le> k \<and> k < 2 ^ (w - 1) else 0 \<le> k \<and> k < 2 ^ w)"

lemma parse_unsigned_int:
  "parse_unsigned limit (show_int k) = (if 0 \<le> k \<and> k < int limit then Some (nat k) else None)"
proof (cases "k < 0")
  case True
  then show ?thesis by (simp add: show_int_def parse_unsigned_def parse_nat_def)
next
  case False
  then show ?thesis by (auto simp: show_int_def parse_unsigned_def)
qed

lemma parse_signed_int:
  "parse_signed half (show_int k) = (if - int half \<le> k \<and> k < int half then Some k else None)"
proof (cases "- int half \<le> k \<and> k < int half")
  case True
  then show ?thesis using parse_signed_show by simp
next
  case False
  show ?thesis
  proof (cases "k < 0")
    case True
    then show ?thesis using False digits_value_show [of "nat (- k)"] by (auto simp: show_int_def parse_signed_def)
  next
    case nonneg: False
    then obtain c cs where c: "show_nat (nat k) = c # cs" by (cases "show_nat (nat k)") auto
    with show_nat_hd(2) [OF c] False nonneg parse_nat_show [of "nat k"] show ?thesis
      by (auto simp: show_int_def parse_signed_def)
  qed
qed

lemma narrow_congruent:
  fixes n :: "64 word"
  shows "2 ^ 8 dvd uint (ucast n :: 8 word) - uint n" "2 ^ 16 dvd uint (ucast n :: 16 word) - uint n"
    "2 ^ 32 dvd uint (ucast n :: 32 word) - uint n"
    "2 ^ 8 dvd sint (ucast n :: 8 word) - sint n" "2 ^ 16 dvd sint (ucast n :: 16 word) - sint n"
    "2 ^ 32 dvd sint (ucast n :: 32 word) - sint n"
proof -
  have u: "2 ^ m dvd take_bit m x - x" for m and x :: int
    by (simp add: take_bit_eq_mod mod_eq_dvd_iff [symmetric])
  have s: "2 ^ Suc m dvd signed_take_bit m x - x" for m and x :: int
  proof -
    have e: "signed_take_bit m x - x = take_bit (Suc m) (x + 2 ^ m) - (x + 2 ^ m)"
      by (simp add: signed_take_bit_eq_take_bit_shift)
    show ?thesis unfolding e by (rule u)
  qed
  show "2 ^ 8 dvd uint (ucast n :: 8 word) - uint n" "2 ^ 16 dvd uint (ucast n :: 16 word) - uint n"
    "2 ^ 32 dvd uint (ucast n :: 32 word) - uint n"
    using u [of 8] u [of 16] u [of 32] by (simp_all add: unsigned_ucast_eq)
  have "sint (ucast n :: 8 word) = signed_take_bit 7 (sint n)"
    "sint (ucast n :: 16 word) = signed_take_bit 15 (sint n)" "sint (ucast n :: 32 word) = signed_take_bit 31 (sint n)"
    by (simp_all add: signed_ucast_eq sint_uint [of n])
  with s [of 7 "sint n"] s [of 15 "sint n"] s [of 31 "sint n"]
  show "2 ^ 8 dvd sint (ucast n :: 8 word) - sint n" "2 ^ 16 dvd sint (ucast n :: 16 word) - sint n"
    "2 ^ 32 dvd sint (ucast n :: 32 word) - sint n" by simp_all
qed

lemma word_range: "in_range False LENGTH('a) (uint (x :: 'a :: len word))" "in_range True LENGTH('a) (sint (x :: 'a :: len word))"
  using sint_greater_eq [of x] sint_less [of x] by (simp_all add: in_range_def)

lemmas word_ranges =
  word_range [where 'a = 8, simplified] word_range [where 'a = 16, simplified]
  word_range [where 'a = 32, simplified] word_range [where 'a = 64, simplified]

lemma value_in_range:
  "int_type T = Some (name, has_sign, w) \<Longrightarrow> has_type v T \<Longrightarrow> in_range has_sign w (int_of_val v)"
  by (cases T) (auto simp: word_ranges)

lemma integer_text:
  assumes "int_type T = Some (name, has_sign, w)"
  shows "if in_range has_sign w k
    then \<exists>v. json_to_val fo (JString (show_int k)) T = Inr v \<and> has_type v T \<and> int_of_val v = k
    else json_to_val fo (JString (show_int k)) T = Inl (InvalidText name (show_int k))"
  using assms
  by (cases T) (auto simp: in_range_def unsigned_val_def signed_val_def parse_unsigned_int parse_signed_int
      unsigned_of_int signed_of_int take_bit_int_eq_self signed_take_bit_int_eq_self)

lemma integer_number:
  assumes "int_type T = Some (name, has_sign, w)" and "\<And>x. n = NegInt x \<Longrightarrow> sint x < 0"
  shows "if \<exists>m. int_of_number n = Some m \<and> in_range has_sign 64 m
    then \<exists>v m. json_to_val fo (JNumber n) T = Inr v \<and> has_type v T \<and> int_of_number n = Some m \<and> 2 ^ w dvd int_of_val v - m
    else json_to_val fo (JNumber n) T = Inl (InvalidNumber name n)"
proof (cases n)
  case (PosInt x)
  have s: "unat x < 2 ^ 63 \<longleftrightarrow> uint x < 2 ^ 63" 
    using int_eq_iff [of "unat x"] of_nat_less_iff [of "unat x" "2 ^ 63", where 'a = int] by simp
  have r: "- (2 ^ 63) \<le> uint x" "uint x < 2 ^ 64"
    using uint_lt2p [of x] by (auto intro: order_trans [of _ 0])
  have "sint x = uint x" if "uint x < 2 ^ 63"
    using that r(1) signed_take_bit_int_eq_self [of 63 "uint x"] by (simp add: sint_uint [of x])
  with narrow_congruent [of x] s r show ?thesis
    using assms(1) PosInt by (cases T) (auto simp: in_range_def unsigned_val_def signed_val_def)
next
  case (NegInt x)
  then have neg: "sint x < 0" by (rule assms(2))
  moreover have "- (2 ^ 63) \<le> sint x" using sint_greater_eq [of x] by simp
  ultimately show ?thesis
    using narrow_congruent [of x] assms(1) NegInt by (cases T) (auto simp: in_range_def unsigned_val_def signed_val_def)
next
  case (Float b)
  then show ?thesis using assms(1) by (cases T) (auto simp: unsigned_val_def signed_val_def)
qed

text \<open>
  C30. The two spellings of an integer argument differ, for all eight integer types. An integer written
  as text is accepted exactly if it is in the range of the type, and then converted to itself. An
  integer written as a JSON number is accepted if it is in the range of the 64-bit type of the same
  signedness, and converted to the number of the type that is congruent to it modulo the width: there
  is no range check (\<open>300\<close> for a \<open>u8\<close> is \<open>44\<close>). Numbers outside the 64-bit range, negative ones for
  unsigned types, and those written with a fraction or an exponent are rejected.
\<close>

theorem integer_argument_range:
  assumes "int_type T = Some (name, has_sign, w)" and "\<And>x. n = NegInt x \<Longrightarrow> sint x < 0"
  shows "(if in_range has_sign w k
      then \<exists>v. json_to_val fo (JString (show_int k)) T = Inr v \<and> has_type v T \<and> int_of_val v = k
      else json_to_val fo (JString (show_int k)) T = Inl (InvalidText name (show_int k))) \<and>
    (if \<exists>m. int_of_number n = Some m \<and> in_range has_sign 64 m
      then \<exists>v m. json_to_val fo (JNumber n) T = Inr v \<and> has_type v T \<and> int_of_number n = Some m \<and>
        in_range has_sign w (int_of_val v) \<and> 2 ^ w dvd int_of_val v - m
      else json_to_val fo (JNumber n) T = Inl (InvalidNumber name n))"
proof -
  note n = integer_number [OF assms, where fo = fo]
  have "in_range has_sign w (int_of_val v)" if "has_type v T" for v by (rule value_in_range [OF assms(1) that])
  with n have "if \<exists>m. int_of_number n = Some m \<and> in_range has_sign 64 m
      then \<exists>v m. json_to_val fo (JNumber n) T = Inr v \<and> has_type v T \<and> int_of_number n = Some m \<and>
        in_range has_sign w (int_of_val v) \<and> 2 ^ w dvd int_of_val v - m
      else json_to_val fo (JNumber n) T = Inl (InvalidNumber name n)"
    by (meson)
  with integer_text [OF assms(1), where k = k and fo = fo] show ?thesis by blast
qed

theorem integer_argument_range_witness:
  "json_to_val bit_floats (JString ''300'') TU8 = Inl (InvalidText ''u8'' ''300'') \<and>
   (\<exists>v. json_to_val bit_floats (JNumber (PosInt 300)) TU8 = Inr v \<and> 256 dvd int_of_val v - 300)"
proof -
  have s: "show_int 300 = ''300''" by code_simp
  show ?thesis
    using integer_argument_range [where T = TU8 and name = "''u8''" and has_sign = False and w = 8 and n = "PosInt 300" and k = 300 and fo = bit_floats] by (auto simp: in_range_def s)
qed

text \<open>
  A variant case whose payload is a record is written flat, the case name beside the fields, and
  that text is not accepted back: the reader leaves out a field named \<open>variant\<close> and keeps \<open>type\<close>,
  which the record does not have.
\<close>

theorem record_payload_rejected:
  assumes "find_first (\<lambda>(n, t). n = name) cs = Some (n, Some (TRecord fs))"
    and "has_type (VRecord vs) (TRecord fs)" and "''type'' \<notin> fst ` set fs" and "''value'' \<notin> fst ` set fs"
    and "val_to_json fo (VVariant name (Some (VRecord vs))) = Inr j"
  shows "\<exists>e. json_to_val fo j (TVariant cs) = Inl e"
proof -
  from assms(5) obtain kvs where kvs:
    "collect_res (map (\<lambda>(k, v). map_ok (Pair k) (val_to_json fo v)) vs) = Inr kvs"
    "j = variant_object name (Some (JObject (bt_extend [] kvs)))" by (auto simp: map_ok_Inr_iff)
  have "map fst kvs = map fst vs" using kvs(1) by (rule collect_fields_keys)
  moreover have "map fst vs = map fst fs"
    using assms(2) by (auto simp: pairwise_nth list_eq_iff_nth_eq)
  ultimately have "''type'' \<notin> fst ` set kvs" "''value'' \<notin> fst ` set kvs"
    using assms(3,4) by (metis list.set_map)+
  then have none: "map_of (bt_extend [] kvs) ''type'' = None" "map_of (bt_extend [] kvs) ''value'' = None"
    by (simp_all add: bt_get_extend map_of_eq_None_iff)
  define obj where "obj = bt_extend (bt_insert ''type'' (JString name) []) (bt_extend [] kvs)"
  have j: "j = JObject obj" by (simp add: kvs(2) obj_def variant_object_def Let_def)
  have get: "hm_get ''type'' obj = Some (JString name)" "hm_get ''value'' obj = None"
    using none [THEN map_of_rev_None] by (simp_all add: obj_def bt_get_extend [of _ "bt_extend [] kvs"] map_add_def)
  define payload where "payload = bt_extend [] (filter (\<lambda>(k, v). k \<noteq> ''variant'') obj)"
  have "hm_get ''type'' payload \<noteq> None"
  proof -
    have "(''type'', JString name) \<in> set (rev (filter (\<lambda>(k, v). k \<noteq> ''variant'') obj))"
      using map_of_SomeD [OF get(1)] by simp
    from weak_map_of_SomeI [OF this] show ?thesis by (auto simp: payload_def bt_get_extend simp del: set_rev)
  qed
  then obtain x where "(''type'', x) \<in> set payload" by (auto dest: map_of_SomeD)
  then obtain e where "json_to_val fo (JObject payload) (TRecord fs) = Inl e"
    using extra_field_rejected [OF _ assms(3)] by blast
  then show ?thesis
    using assms(1) get by (simp add: j variant_payload_def payload_def [symmetric] del: json_to_val.simps(17))
qed

theorem record_payload_rejected_witness:
  "\<exists>e. json_to_val bit_floats (JObject [(''id'', JNumber (PosInt 7)), (''type'', JString ''found'')])
     (TVariant [(''found'', Some (TRecord [(''id'', TU8)]))]) = Inl e"
  by (rule record_payload_rejected [where name = "''found''" and fs = "[(''id'', TU8)]" and vs = "[(''id'', VU8 7)]" and n = "''found''"])
    (simp_all add: pairwise_def variant_object_def num_of_u64_def Let_def list_less_def less_char_def bt_extend_def)

end
