(* ===== verification/Wit_Conformance.thy ===== *)
theory Wit_Conformance
  imports Complex_Main Wit_Parser Conversion
begin

section \<open>Schemas and conversion agree\<close>

text \<open>
  The JSON schemas that \<open>composition/wit.rs\<close> derives from WIT types, against the conversion of
  \<open>runtime/conversion.rs\<close> for the component types that stand for the same WIT types. \<open>conforms\<close> is the
  validity of JSON Schema (draft 2020-12) for the keywords that occur in derived schemas, with
  numbers compared exactly; \<open>component_type\<close> is the component type of a WIT type, in which names of
  types are resolved. Neither is code of the repository: they are what the theorems compare with.
\<close>

subsection \<open>Validity\<close>

text \<open>The value of an IEEE double, from its sign, exponent and fraction.\<close>

definition double_value :: "64 word \<Rightarrow> rat" where
  "double_value b =
     (let e = unat b div 2 ^ 52 mod 2048; m = unat b mod 2 ^ 52 in
      (if 2 ^ 63 \<le> unat b then -1 else 1) *
      (if e = 0 then of_nat m / 2 ^ 1074 else of_nat (2 ^ 52 + m) * 2 ^ e / 2 ^ 1075))"

fun number_value :: "number \<Rightarrow> rat" where
  "number_value (PosInt n) = of_nat (unat n)"
| "number_value (NegInt n) = of_int (sint n)"
| "number_value (Float b) = double_value b"

fun has_json_type :: "string \<Rightarrow> json \<Rightarrow> bool" where
  "has_json_type t JNull \<longleftrightarrow> t = ''null''"
| "has_json_type t (JBool b) \<longleftrightarrow> t = ''boolean''"
| "has_json_type t (JNumber n) \<longleftrightarrow> t = ''number''"
| "has_json_type t (JString s) \<longleftrightarrow> t = ''string''"
| "has_json_type t (JArray xs) \<longleftrightarrow> t = ''array''"
| "has_json_type t (JObject m) \<longleftrightarrow> t = ''object''"

definition at_least :: "json btmap \<Rightarrow> string \<Rightarrow> rat \<Rightarrow> bool" where
  "at_least m k x = (case map_of m k of Some (JNumber n) \<Rightarrow> number_value n \<le> x | _ \<Rightarrow> True)"

definition at_most :: "json btmap \<Rightarrow> string \<Rightarrow> rat \<Rightarrow> bool" where
  "at_most m k x = (case map_of m k of Some (JNumber n) \<Rightarrow> x \<le> number_value n | _ \<Rightarrow> True)"

definition has_required :: "json btmap \<Rightarrow> json btmap \<Rightarrow> bool" where
  "has_required m obj =
     (case map_of m ''required'' of
        Some (JArray names) \<Rightarrow> list_all (\<lambda>n. case n of JString s \<Rightarrow> hm_has s obj | _ \<Rightarrow> True) names
      | _ \<Rightarrow> True)"

definition assertions :: "json btmap \<Rightarrow> json \<Rightarrow> bool" where
  "assertions m v \<longleftrightarrow>
     (case map_of m ''type'' of Some (JString t) \<Rightarrow> has_json_type t v | _ \<Rightarrow> True) \<and>
     (case map_of m ''const'' of Some c \<Rightarrow> v = c | None \<Rightarrow> True) \<and>
     (case map_of m ''enum'' of Some (JArray cs) \<Rightarrow> v \<in> set cs | _ \<Rightarrow> True) \<and>
     (case v of
        JNumber n \<Rightarrow> at_least m ''minimum'' (number_value n) \<and> at_most m ''maximum'' (number_value n)
      | JString s \<Rightarrow> at_least m ''minLength'' (of_nat (char_count s)) \<and> at_most m ''maxLength'' (of_nat (char_count s))
      | JArray xs \<Rightarrow> at_least m ''minItems'' (of_nat (length xs)) \<and> at_most m ''maxItems'' (of_nat (length xs)) \<and>
          (map_of m ''uniqueItems'' = Some (JBool True) \<longrightarrow> distinct xs)
      | JObject obj \<Rightarrow> has_required m obj
      | _ \<Rightarrow> True)"

definition declared :: "json btmap \<Rightarrow> string \<Rightarrow> bool" where
  "declared m n = (case map_of m ''properties'' of Some (JObject ps) \<Rightarrow> hm_has n ps | _ \<Rightarrow> False)"

definition prefix_length :: "json btmap \<Rightarrow> nat" where
  "prefix_length m = (case map_of m ''prefixItems'' of Some (JArray ss) \<Rightarrow> length ss | _ \<Rightarrow> 0)"

lemma subschema_size:
  "map_of m k = Some s \<Longrightarrow> json_size s < Suc (members_size m)"
  "map_of m k = Some (JArray ss) \<Longrightarrow> x \<in> set ss \<Longrightarrow> json_size x < Suc (members_size m)"
  "map_of m k = Some (JObject ps) \<Longrightarrow> (n, x) \<in> set ps \<Longrightarrow> json_size x < Suc (members_size m)"
proof -
  assume s: "map_of m k = Some (JArray ss)" and x: "x \<in> set ss"
  from element_size [OF x] member_size [OF map_of_SomeD [OF s]] show "json_size x < Suc (members_size m)" by simp
next
  assume s: "map_of m k = Some (JObject ps)" and x: "(n, x) \<in> set ps"
  from member_size [OF x] member_size [OF map_of_SomeD [OF s]] show "json_size x < Suc (members_size m)" by simp
qed (auto dest!: map_of_SomeD member_size)

function conforms :: "json \<Rightarrow> json \<Rightarrow> bool" where
  "conforms (JObject m) v \<longleftrightarrow>
     assertions m v \<and>
     (case map_of m ''oneOf'' of Some (JArray ss) \<Rightarrow> length (filter (\<lambda>s. conforms s v) ss) = 1 | _ \<Rightarrow> True) \<and>
     (case v of
        JObject obj \<Rightarrow>
          (case map_of m ''properties'' of
             Some (JObject ps) \<Rightarrow> list_all (\<lambda>(n, s). case map_of obj n of Some w \<Rightarrow> conforms s w | None \<Rightarrow> True) ps
           | _ \<Rightarrow> True) \<and>
          (case map_of m ''additionalProperties'' of
             Some s \<Rightarrow> list_all (\<lambda>(n, w). declared m n \<or> conforms s w) obj
           | None \<Rightarrow> True)
      | JArray xs \<Rightarrow>
          (case map_of m ''prefixItems'' of Some (JArray ss) \<Rightarrow> list_all (\<lambda>(s, x). conforms s x) (zip ss xs) | _ \<Rightarrow> True) \<and>
          (case map_of m ''items'' of Some s \<Rightarrow> list_all (conforms s) (drop (prefix_length m) xs) | None \<Rightarrow> True)
      | _ \<Rightarrow> True)"
| "conforms (JBool b) v \<longleftrightarrow> b"
| "conforms JNull v \<longleftrightarrow> False"
| "conforms (JNumber n) v \<longleftrightarrow> False"
| "conforms (JString s) v \<longleftrightarrow> False"
| "conforms (JArray xs) v \<longleftrightarrow> False"
  by pat_completeness auto
termination
  by (relation "measure (\<lambda>(s, v). json_size s)") (auto dest: subschema_size set_zip_leftD)

subsection \<open>The derived schemas\<close>

lemma jobj_conforms: "jobj kvs = JObject (bt_extend [] kvs)"
  by (simp add: jobj_def)

lemma jint_value: "- (2 ^ 63) \<le> n \<Longrightarrow> n < 2 ^ 63 \<Longrightarrow> \<exists>k. jint n = JNumber k \<and> number_value k = of_int n"
proof -
  assume n: "- (2 ^ 63) \<le> n" "n < 2 ^ 63"
  then have s: "sint (of_int n :: 64 word) = n" by (simp add: signed_of_int signed_take_bit_int_eq_self)
  show ?thesis
  proof (cases "n < 0")
    case False
    then have "unat (of_int n :: 64 word) = nat n"
      using n(2) by (simp add: unsigned_of_int take_bit_int_eq_self flip: nat_uint_eq)
    with False s show ?thesis by (auto simp: jint_def num_of_i64_def)
  qed (simp add: jint_def num_of_i64_def s)
qed

lemmas keyword_simps = typed_def jobj_conforms assertions_def bt_get_extend at_least_def at_most_def has_required_def
  declared_def prefix_length_def

lemma conforms_scalar:
  "conforms (typed ''boolean'' []) v \<longleftrightarrow> (\<exists>b. v = JBool b)"
  "conforms (typed ''number'' []) v \<longleftrightarrow> (\<exists>n. v = JNumber n)"
  "conforms (typed ''string'' []) v \<longleftrightarrow> (\<exists>s. v = JString s)"
  "conforms null_schema v \<longleftrightarrow> v = JNull"
  by (cases v; simp add: keyword_simps null_schema_def)+

lemma conforms_bounded:
  assumes "- (2 ^ 63) \<le> lo" and "lo < 2 ^ 63" and "- (2 ^ 63) \<le> hi" and "hi < 2 ^ 63"
  shows "conforms (bounded lo hi) v \<longleftrightarrow> (\<exists>n. v = JNumber n \<and> of_int lo \<le> number_value n \<and> number_value n \<le> of_int hi)"
  using jint_value [OF assms(1,2)] jint_value [OF assms(3,4)]
  by (cases v) (auto simp: bounded_def keyword_simps)

lemma conforms_minimum:
  "conforms (typed ''number'' [(''minimum'', jint 0)]) v \<longleftrightarrow> (\<exists>n. v = JNumber n \<and> 0 \<le> number_value n)"
  using jint_value [of 0] by (cases v) (auto simp: keyword_simps)

lemma conforms_char:
  "conforms (typed ''string'' [(''minLength'', jint 1), (''maxLength'', jint 1)]) v \<longleftrightarrow> (\<exists>s. v = JString s \<and> char_count s = 1)"
  using jint_value [of 1] by (cases v) (auto simp: keyword_simps)

lemma conforms_enum:
  "conforms (typed ''string'' [(''enum'', JArray (map JString names))]) v \<longleftrightarrow> (\<exists>s \<in> set names. v = JString s)"
  by (cases v) (auto simp: keyword_simps)

lemma conforms_list:
  "conforms (typed ''array'' [(''items'', s)]) v \<longleftrightarrow> (\<exists>xs. v = JArray xs \<and> (\<forall>x \<in> set xs. conforms s x))"
  by (cases v) (auto simp: keyword_simps list_all_iff)

lemma conforms_values:
  "conforms (typed ''object'' [(''additionalProperties'', s)]) v \<longleftrightarrow> (\<exists>obj. v = JObject obj \<and> (\<forall>(k, w) \<in> set obj. conforms s w))"
  by (cases v) (auto simp: keyword_simps list_all_iff)

lemma conforms_one_of: "conforms (one_of ss) v \<longleftrightarrow> length (filter (\<lambda>s. conforms s v) ss) = 1"
  by (cases v) (auto simp: keyword_simps one_of_def)

lemma distinct_strings: "(\<forall>x \<in> set xs. \<exists>s \<in> set names. x = JString s) \<Longrightarrow> \<exists>ss. xs = map JString ss \<and> set ss \<subseteq> set names"
proof (induction xs)
  case (Cons x xs)
  then obtain s ss where "x = JString s" "s \<in> set names" "xs = map JString ss" "set ss \<subseteq> set names" by auto
  then show ?case by (intro exI [of _ "s # ss"]) simp
qed simp

lemma conforms_flags:
  "conforms (typed ''array'' [(''items'', typed ''string'' [(''enum'', JArray (map JString names))]), (''uniqueItems'', JBool True)]) v \<longleftrightarrow>
     (\<exists>ss. v = JArray (map JString ss) \<and> set ss \<subseteq> set names \<and> distinct ss)"
proof -
  let ?item = "typed ''string'' [(''enum'', JArray (map JString names))]"
  define m where "m = bt_extend [] [(''type'', JString ''array''), (''items'', ?item), (''uniqueItems'', JBool True)]"
  have m: "typed ''array'' [(''items'', ?item), (''uniqueItems'', JBool True)] = JObject m"
    by (simp add: typed_def jobj_conforms m_def)
  have l: "map_of m ''type'' = Some (JString ''array'')" "map_of m ''items'' = Some ?item" "map_of m ''uniqueItems'' = Some (JBool True)"
    "map_of m ''const'' = None" "map_of m ''enum'' = None" "map_of m ''oneOf'' = None" "map_of m ''prefixItems'' = None"
    "map_of m ''minItems'' = None" "map_of m ''maxItems'' = None"
    by (auto simp: m_def bt_get_extend)
  have "conforms (JObject m) v \<longleftrightarrow> (\<exists>xs. v = JArray xs \<and> distinct xs \<and> (\<forall>x \<in> set xs. \<exists>s \<in> set names. x = JString s))"
    unfolding conforms.simps assertions_def l at_least_def at_most_def prefix_length_def
    by (cases v) (auto simp: list_all_iff conforms_enum)
  also have "\<dots> \<longleftrightarrow> (\<exists>ss. v = JArray (map JString ss) \<and> set ss \<subseteq> set names \<and> distinct ss)"
    using distinct_strings [of _ names] by (auto simp: distinct_map inj_on_def) (metis distinct_map)
  finally show ?thesis unfolding m .
qed

lemma conforms_sized:
  assumes "length ss < 2 ^ 63"
  shows "conforms (sized_array [(''prefixItems'', JArray ss)] (length ss)) v \<longleftrightarrow> (\<exists>xs. v = JArray xs \<and> list_all2 conforms ss xs)"
proof -
  have "int (length ss) < 2 ^ 63" using assms by simp
  then obtain k where k: "jint (int (length ss)) = JNumber k" "number_value k = of_nat (length ss)"
    using jint_value [of "int (length ss)"] by fastforce
  show ?thesis
    by (cases v) (auto simp: sized_array_def keyword_simps k list_all2_iff list_all_iff)
qed

lemma conforms_pairs:
  "conforms (typed ''array'' [(''items'', sized_array [(''prefixItems'', JArray [key_schema, value_schema])] 2)]) v \<longleftrightarrow>
     (\<exists>xs. v = JArray xs \<and> (\<forall>x \<in> set xs. \<exists>k w. x = JArray [k, w] \<and> conforms key_schema k \<and> conforms value_schema w))"
proof -
  have "conforms (sized_array [(''prefixItems'', JArray [key_schema, value_schema])] 2) x \<longleftrightarrow>
      (\<exists>k w. x = JArray [k, w] \<and> conforms key_schema k \<and> conforms value_schema w)" for x
  proof -
    have "conforms (sized_array [(''prefixItems'', JArray [key_schema, value_schema])] (length [key_schema, value_schema])) x \<longleftrightarrow>
        (\<exists>xs. x = JArray xs \<and> list_all2 conforms [key_schema, value_schema] xs)"
      by (rule conforms_sized) simp
    then show ?thesis by (auto simp: list_all2_Cons1 numeral_2_eq_2)
  qed
  then show ?thesis by (simp add: conforms_list)
qed

lemma properties_lookup:
  assumes "distinct (map fst kvs)"
  shows "(n, s) \<in> set (bt_extend [] kvs) \<longleftrightarrow> (n, s) \<in> set kvs" "hm_has n (bt_extend [] kvs) \<longleftrightarrow> n \<in> fst ` set kvs"
proof -
  have d: "distinct (map fst (bt_extend [] kvs))" by (rule bt_wf_distinct) (simp add: bt_wf_extend)
  have m: "map_of (bt_extend [] kvs) = map_of kvs"
    using assms by (simp add: bt_get_extend map_of_rev_distinct_keys)
  then show "(n, s) \<in> set (bt_extend [] kvs) \<longleftrightarrow> (n, s) \<in> set kvs"
    using map_of_eq_Some_iff [OF d] map_of_eq_Some_iff [OF assms] by metis
  show "hm_has n (bt_extend [] kvs) \<longleftrightarrow> n \<in> fst ` set kvs"
    using m map_of_eq_None_iff [of kvs n] by (auto simp: hm_has_iff)
qed

lemma conforms_closed:
  assumes "distinct (map fst properties)" and "extra = [] \<or> (\<exists>t. extra = [(''title'', t)])"
  shows "conforms (typed ''object'' (closed_object properties required @ extra)) v \<longleftrightarrow>
    (\<exists>obj. v = JObject obj \<and> (\<forall>(n, s) \<in> set properties. \<forall>w. map_of obj n = Some w \<longrightarrow> conforms s w) \<and>
       (\<forall>n \<in> set required. hm_has n obj) \<and> fst ` set obj \<subseteq> fst ` set properties)"
proof -
  define m where "m = bt_extend [] ((''type'', JString ''object'') # closed_object properties required @ extra)"
  have m: "typed ''object'' (closed_object properties required @ extra) = JObject m" by (simp add: typed_def jobj_conforms m_def)
  have l: "map_of m ''type'' = Some (JString ''object'')" "map_of m ''properties'' = Some (JObject (bt_extend [] properties))"
    "map_of m ''required'' = Some (JArray (map JString required))" "map_of m ''additionalProperties'' = Some (JBool False)"
    "map_of m ''const'' = None" "map_of m ''enum'' = None" "map_of m ''oneOf'' = None"
    using assms(2) by (auto simp: m_def bt_get_extend closed_object_def jobj_conforms)
  have a: "assertions m v \<longleftrightarrow> (\<exists>obj. v = JObject obj \<and> (\<forall>n \<in> set required. hm_has n obj))"
    by (cases v) (simp_all add: assertions_def l has_required_def list_all_iff)
  have props: "list_all P (bt_extend [] properties) \<longleftrightarrow> (\<forall>(n, s) \<in> set properties. P (n, s))" for P
    using properties_lookup(1) [OF assms(1)] by (auto simp: list_all_iff)
  have d: "declared m n \<longleftrightarrow> n \<in> fst ` set properties" for n
    by (simp add: declared_def l properties_lookup(2) [OF assms(1)])
  have e: "list_all (\<lambda>(n, w). declared m n \<or> conforms (JBool False) w) obj \<longleftrightarrow> fst ` set obj \<subseteq> fst ` set properties" for obj
    by (simp add: d list_all_iff image_subset_iff case_prod_beta')
  show ?thesis
    unfolding m conforms.simps(1) a l props option.case json.case e
    by (cases v) (auto split: option.splits)
qed

subsection \<open>Arguments that conform are converted\<close>

fun root_cause :: "conversion_error \<Rightarrow> conversion_error" where
  "root_cause (AtItem i e) = root_cause e"
| "root_cause (AtTupleItem i e) = root_cause e"
| "root_cause (AtMapKey i e) = root_cause e"
| "root_cause (AtMapValue i e) = root_cause e"
| "root_cause (AtKey k e) = root_cause e"
| "root_cause e = e"

text \<open>Numbers that are not written as integers, and those above the largest 64-bit signed integer.\<close>

fun is_integer :: "number \<Rightarrow> bool" where
  "is_integer (PosInt n) \<longleftrightarrow> True"
| "is_integer (NegInt n) \<longleftrightarrow> sint n < 0"
| "is_integer (Float b) \<longleftrightarrow> False"

definition number_error :: "conversion_error \<Rightarrow> bool" where
  "number_error e \<longleftrightarrow>
     (\<exists>name n. root_cause e = InvalidNumber name n \<and>
       (\<not> is_integer n \<or> name = ''s64'' \<and> (\<exists>w. n = PosInt w \<and> 2 ^ 63 \<le> unat w)))"

definition fits :: "conversion_error + 'a \<Rightarrow> bool" where
  "fits r \<longleftrightarrow> (case r of Inr v \<Rightarrow> True | Inl e \<Rightarrow> number_error e)"

definition accepts :: "float_ops \<Rightarrow> json \<Rightarrow> wit_type \<Rightarrow> bool" where
  "accepts fo s T \<longleftrightarrow> (\<forall>j. conforms s j \<longrightarrow> fits (json_to_val fo j T))"

lemma fits_simps [simp]:
  "fits (Inr x)" "fits (map_ok f r) = fits r" "fits (map_err (AtItem i) r) = fits r" "fits (map_err (AtTupleItem i) r) = fits r"
  "fits (map_err (AtMapKey i) r) = fits r" "fits (map_err (AtMapValue i) r) = fits r" "fits (map_err (AtKey k) r) = fits r"
  by (cases r; simp add: fits_def number_error_def)+

lemma fits_attempt: "fits r \<Longrightarrow> (\<And>x. r = Inr x \<Longrightarrow> fits (f x)) \<Longrightarrow> fits (attempt r f)"
  by (cases r) (auto simp: fits_def)

lemma fits_collect: "(\<And>r. r \<in> set rs \<Longrightarrow> fits r) \<Longrightarrow> fits (collect_res rs)"
  by (induction rs) (auto intro!: fits_attempt)

lemma fits_unsigned:
  assumes "0 \<le> number_value n"
  shows "fits (unsigned_val name T limit of_text of_number (JNumber n))"
  using assms by (cases n) (auto simp: unsigned_val_def fits_def number_error_def simp del: of_int_sint)

lemma fits_signed:
  assumes "number_value n \<le> of_int hi" and "hi < 2 ^ 63"
  shows "fits (signed_val name T half of_text of_number (JNumber n))"
proof (cases n)
  case (PosInt w)
  then have "of_nat (unat w) \<le> (of_int hi :: rat)" using assms(1) by simp
  then have "(of_int (int (unat w)) :: rat) \<le> of_int hi" by simp
  then have "int (unat w) \<le> hi" by (simp only: of_int_le_iff)
  then have "int (unat w) < int (2 ^ 63)" using assms(2) by simp
  then have "unat w < 2 ^ 63" by (simp only: of_nat_less_iff)
  then show ?thesis by (simp add: PosInt signed_val_def fits_def)
qed (auto simp: signed_val_def fits_def number_error_def)

lemma accepts_bounded_unsigned:
  assumes "\<And>n. json_to_val fo (JNumber n) T = unsigned_val name T limit of_text of_number (JNumber n)" and "0 \<le> hi" and "hi < 2 ^ 63"
  shows "accepts fo (bounded 0 hi) T"
  using assms(2,3) by (auto simp: accepts_def conforms_bounded assms(1) intro: fits_unsigned)

lemma accepts_bounded_signed:
  assumes "\<And>n. json_to_val fo (JNumber n) T = signed_val name T half of_text of_number (JNumber n)"
    and "- (2 ^ 63) \<le> lo" and "lo < 2 ^ 63" and "- (2 ^ 63) \<le> hi" and "hi < 2 ^ 63"
  shows "accepts fo (bounded lo hi) T"
  by (auto simp: accepts_def conforms_bounded [OF assms(2-5)] assms(1) intro: fits_signed [OF _ assms(5)])

lemma accepts_scalar:
  "accepts fo (typed ''boolean'' []) TBool"
  "accepts fo (bounded 0 255) TU8" "accepts fo (bounded 0 65535) TU16" "accepts fo (bounded 0 4294967295) TU32"
  "accepts fo (typed ''number'' [(''minimum'', jint 0)]) TU64"
  "accepts fo (bounded (- 128) 127) TS8" "accepts fo (bounded (- 32768) 32767) TS16"
  "accepts fo (bounded (- 2147483648) 2147483647) TS32"
  "accepts fo (typed ''number'' []) TS64"
  "accepts fo (typed ''number'' []) TFloat32" "accepts fo (typed ''number'' []) TFloat64"
  "accepts fo (typed ''string'' [(''minLength'', jint 1), (''maxLength'', jint 1)]) TChar"
  "accepts fo (typed ''string'' []) TString"
proof -
  show "accepts fo (typed ''number'' []) TS64"
  proof -
    have "fits (json_to_val fo (JNumber n) TS64)" for n
      by (cases n) (auto simp: signed_val_def fits_def number_error_def not_less)
    then show ?thesis by (auto simp: accepts_def conforms_scalar)
  qed
  show "accepts fo (typed ''number'' [(''minimum'', jint 0)]) TU64"
    by (auto simp: accepts_def conforms_minimum intro: fits_unsigned)
qed (simp_all add: accepts_bounded_unsigned accepts_bounded_signed, auto simp: accepts_def conforms_scalar conforms_char float_val_def)

lemma accepts_enum: "accepts fo (typed ''string'' [(''enum'', JArray (map JString names))]) (TEnum names)"
  by (auto simp: accepts_def conforms_enum)

lemma accepts_flags:
  "accepts fo (typed ''array'' [(''items'', typed ''string'' [(''enum'', JArray (map JString names))]), (''uniqueItems'', JBool True)])
     (TFlags names)"
  by (auto simp: accepts_def conforms_flags subset_iff intro!: fits_collect)

lemma accepts_list: "accepts fo s T \<Longrightarrow> accepts fo (typed ''array'' [(''items'', s)]) (TList T)"
  by (auto simp: accepts_def conforms_list intro!: fits_collect dest!: enumerate_element)

lemma accepts_option: "accepts fo s T \<Longrightarrow> accepts fo (one_of [s, null_schema]) (TOption T)"
  by (auto simp: accepts_def conforms_one_of conforms_scalar split: json.split if_splits)

lemma accepts_tuple:
  assumes "list_all2 (accepts fo) ss Ts" and "length ss < 2 ^ 63"
  shows "accepts fo (sized_array [(''prefixItems'', JArray ss)] (length ss)) (TTuple Ts)"
proof -
  have "fits (json_to_val fo (JArray xs) (TTuple Ts))" if c: "list_all2 conforms ss xs" for xs
  proof -
    have l: "length xs = length Ts" using c assms(1) by (metis list_all2_lengthD)
    have "fits (json_to_val fo x T)" if "(x, T) \<in> set (zip xs Ts)" for x T
      using that c assms(1) by (auto simp: set_zip list_all2_conv_all_nth accepts_def)
    with l show ?thesis by (auto intro!: fits_collect dest!: enumerate_element)
  qed
  then show ?thesis by (auto simp: accepts_def conforms_sized [OF assms(2)])
qed

lemma accepts_values: "accepts fo s T \<Longrightarrow> accepts fo (typed ''object'' [(''additionalProperties'', s)]) (TMap TString T)"
  by (auto simp: accepts_def conforms_values intro!: fits_collect) fastforce

lemma accepts_pairs:
  assumes "accepts fo ks K" and "accepts fo vs V"
  shows "accepts fo (typed ''array'' [(''items'', sized_array [(''prefixItems'', JArray [ks, vs])] 2)]) (TMap K V)"
proof -
  have "fits (json_to_val fo (JArray xs) (TMap K V))"
    if "\<forall>x \<in> set xs. \<exists>k w. x = JArray [k, w] \<and> conforms ks k \<and> conforms vs w" for xs
    using that assms
    by (auto simp: accepts_def intro!: fits_collect dest!: enumerate_element) (drule (1) bspec, auto intro!: fits_attempt)
  then show ?thesis by (auto simp: accepts_def conforms_pairs)
qed

text \<open>Fields, with the schema of each, its type, and whether it may be left out.\<close>

definition fields_match :: "(json \<Rightarrow> wit_type \<Rightarrow> bool) \<Rightarrow> (string \<times> json) list \<Rightarrow> string list \<Rightarrow> (string \<times> wit_type) list \<Rightarrow> bool" where
  "fields_match p ps req Fs \<longleftrightarrow> distinct (map fst ps) \<and> set req \<subseteq> fst ` set ps \<and>
     list_all2 (\<lambda>(n, s) (m, T). n = m \<and> p s T \<and> (n \<notin> set req \<longleftrightarrow> (\<exists>T'. T = TOption T'))) ps Fs"

lemma list_all2_member: "list_all2 p xs ys \<Longrightarrow> x \<in> set xs \<Longrightarrow> \<exists>y \<in> set ys. p x y"
  by (induction rule: list_all2_induct) auto

lemma same_keys: "list_all2 (\<lambda>(n, s) (m, T). n = m \<and> p n s T) ps Fs \<Longrightarrow> map fst Fs = map fst ps"
  by (induction rule: list_all2_induct) auto

lemma fields_match_keys: "fields_match p ps req Fs \<Longrightarrow> map fst Fs = map fst ps"
  by (auto simp: fields_match_def dest!: same_keys [of "\<lambda>n s T. p s T \<and> (n \<notin> set req \<longleftrightarrow> (\<exists>T'. T = TOption T'))"])

lemma fields_match_field:
  assumes "fields_match p ps req Fs" and "(n, T) \<in> set Fs"
  shows "\<exists>s. (n, s) \<in> set ps \<and> p s T \<and> (n \<notin> set req \<longleftrightarrow> (\<exists>T'. T = TOption T'))"
proof -
  have "list_all2 (\<lambda>(m, T) (n, s). n = m \<and> p s T \<and> (n \<notin> set req \<longleftrightarrow> (\<exists>T'. T = TOption T'))) Fs ps"
    using assms(1) unfolding fields_match_def by (auto simp: list_all2_conv_all_nth split: prod.splits)
  from list_all2_member [OF this assms(2)] show ?thesis by (auto split: prod.splits)
qed

lemma conforms_record:
  assumes "distinct (map fst ps)"
  shows "conforms (record_schema title ps req) v \<longleftrightarrow>
    (\<exists>obj. v = JObject obj \<and> (\<forall>(n, s) \<in> set ps. \<forall>w. map_of obj n = Some w \<longrightarrow> conforms s w) \<and>
       (\<forall>n \<in> set req. hm_has n obj) \<and> fst ` set obj \<subseteq> fst ` set ps)"
  unfolding record_schema_def by (rule conforms_closed [OF assms]) (cases title; simp)

lemma accepts_record:
  assumes "fields_match (accepts fo) ps req Fs"
  shows "accepts fo (record_schema title ps req) (TRecord Fs)"
  unfolding accepts_def
proof (intro allI impI)
  fix j assume "conforms (record_schema title ps req) j"
  then obtain obj where j: "j = JObject obj" and w: "\<forall>(n, s) \<in> set ps. \<forall>w. map_of obj n = Some w \<longrightarrow> conforms s w"
    and r: "\<forall>n \<in> set req. hm_has n obj" and keys: "fst ` set obj \<subseteq> fst ` set ps"
    using conforms_record [of ps title req j] assms unfolding fields_match_def by blast
  have "fits (case hm_get n obj of Some v \<Rightarrow> map_ok (Pair n) (json_to_val fo v T) | None \<Rightarrow> missing_field n T)"
    if field: "(n, T) \<in> set Fs" for n T
  proof -
    obtain s where s: "(n, s) \<in> set ps" "accepts fo s T" "n \<notin> set req \<longleftrightarrow> (\<exists>T'. T = TOption T')"
      using fields_match_field [OF assms field] by blast
    show ?thesis
    proof (cases "map_of obj n")
      case None
      then have "n \<notin> set req" using r by (auto simp: hm_has_iff)
      with s(3) None show ?thesis by (auto simp: missing_field_def)
    next
      case (Some v)
      with w s(1) have "conforms s v" by blast
      with s(2) Some show ?thesis by (simp add: accepts_def)
    qed
  qed
  moreover have "find_first (\<lambda>(k, v). \<not> list_ex (\<lambda>(n, t). n = k) Fs) obj = None"
  proof -
    have eq: "fst ` set Fs = fst ` set ps" using fields_match_keys [OF assms] by (metis set_map)
    have "k \<in> fst ` set Fs" if "(k, v) \<in> set obj" for k v
      unfolding eq using keys that by (metis fst_conv image_eqI subsetD)
    then have "list_ex (\<lambda>(n, t). n = k) Fs" if "(k, v) \<in> set obj" for k v using that by (force simp: list_ex_iff)
    then show ?thesis unfolding find_first_None_iff by blast
  qed
  ultimately show "fits (json_to_val fo j (TRecord Fs))"
    by (auto simp: j intro!: fits_attempt fits_collect)
qed

lemma one_of_member: "conforms (one_of ss) v \<Longrightarrow> \<exists>s \<in> set ss. conforms s v"
  by (auto simp: conforms_one_of filter_eq_Cons_iff length_Suc_conv)

lemma conforms_const: "conforms (jobj [(''const'', c)]) v \<longleftrightarrow> v = c"
  by (cases v) (auto simp: keyword_simps)

lemma conforms_case:
  "conforms (case_schema (name, payload)) v \<longleftrightarrow>
     (\<exists>obj. v = JObject obj \<and> map_of obj ''type'' = Some (JString name) \<and> fst ` set obj \<subseteq> {''type'', ''value''} \<and>
        (case payload of Some s \<Rightarrow> (\<exists>w. map_of obj ''value'' = Some w \<and> conforms s w) | None \<Rightarrow> fst ` set obj \<subseteq> {''type''}))"
proof (cases payload)
  case None
  show ?thesis
    using conforms_closed [of "[(''type'', jobj [(''const'', JString name)])]" "[]" "[''type'']" v]
    by (auto simp: None conforms_const hm_has_iff)
next
  case (Some s)
  show ?thesis
    using conforms_closed [of "[(''type'', jobj [(''const'', JString name)]), (''value'', s)]" "[]" "[''type'', ''value'']" v]
    by (auto simp: Some conforms_const hm_has_iff)
qed

lemma conforms_arm:
  "conforms (arm_schema key s) v \<longleftrightarrow> (\<exists>obj w. v = JObject obj \<and> map_of obj key = Some w \<and> conforms s w \<and> fst ` set obj \<subseteq> {key})"
  using conforms_closed [of "[(key, s)]" "[]" "[key]" v] by (auto simp: arm_schema_def hm_has_iff)

text \<open>The cases of a variant, with the schema and the type of each payload.\<close>

definition cases_match :: "(json \<Rightarrow> wit_type \<Rightarrow> bool) \<Rightarrow> (string \<times> json option) list \<Rightarrow> (string \<times> wit_type option) list \<Rightarrow> bool" where
  "cases_match p ss Cs \<longleftrightarrow> distinct (map fst Cs) \<and> list_all2 (\<lambda>(n, s) (m, T). n = m \<and> rel_option p s T) ss Cs"

lemma cases_match_find:
  assumes "cases_match p ss Cs" and "(n, s) \<in> set ss"
  shows "\<exists>T. find_first (\<lambda>(m, t). m = n) Cs = Some (n, T) \<and> rel_option p s T"
proof -
  obtain T where "(n, T) \<in> set Cs" "rel_option p s T"
    using list_all2_member [OF _ assms(2)] assms(1) unfolding cases_match_def by fastforce
  moreover have "find_first (\<lambda>(m, t). m = n) Cs = Some (n, T)" if "(n, T) \<in> set Cs" "distinct (map fst Cs)"
    using that by (induction Cs) force+
  ultimately show ?thesis using assms(1) by (auto simp: cases_match_def)
qed

lemma accepts_variant:
  assumes "cases_match (accepts fo) ss Cs"
  shows "accepts fo (one_of (map case_schema ss)) (TVariant Cs)"
  unfolding accepts_def
proof (intro allI impI)
  fix j assume "conforms (one_of (map case_schema ss)) j"
  then obtain n s where s: "(n, s) \<in> set ss" "conforms (case_schema (n, s)) j" by (auto dest!: one_of_member)
  from cases_match_find [OF assms s(1)] obtain T where T: "find_first (\<lambda>(m, t). m = n) Cs = Some (n, T)" "rel_option (accepts fo) s T"
    by blast
  from s(2) obtain obj where j: "j = JObject obj" "map_of obj ''type'' = Some (JString n)"
    "case s of Some s \<Rightarrow> (\<exists>w. map_of obj ''value'' = Some w \<and> conforms s w) | None \<Rightarrow> True"
    by (auto simp: conforms_case split: option.splits)
  with T show "fits (json_to_val fo j (TVariant Cs))"
    by (cases s; cases T) (auto simp: accepts_def variant_payload_def and_then_def)
qed

lemma accepts_result:
  assumes "case ok of Some T \<Rightarrow> accepts fo ok_schema T | None \<Rightarrow> True" and "case err of Some T \<Rightarrow> accepts fo err_schema T | None \<Rightarrow> True"
  shows "accepts fo (one_of [arm_schema ''ok'' ok_schema, arm_schema ''error'' err_schema]) (TResult ok err)"
  unfolding accepts_def
proof (intro allI impI)
  fix j assume "conforms (one_of [arm_schema ''ok'' ok_schema, arm_schema ''error'' err_schema]) j"
  then consider "conforms (arm_schema ''ok'' ok_schema) j" | "conforms (arm_schema ''error'' err_schema) j"
    by (auto dest!: one_of_member)
  then show "fits (json_to_val fo j (TResult ok err))"
  proof cases
    case 2
    then obtain obj w where j: "j = JObject obj" "map_of obj ''error'' = Some w" "conforms err_schema w" "fst ` set obj \<subseteq> {''error''}"
      by (auto simp: conforms_arm)
    from j(4) have "map_of obj ''ok'' = None" by (auto simp: map_of_eq_None_iff)
    with j assms(2) show ?thesis by (auto simp: accepts_def split: option.splits)
  qed (use assms(1) in \<open>auto simp: conforms_arm accepts_def split: option.splits\<close>)
qed

subsection \<open>The component type of a WIT type\<close>

definition part_type :: "(wtype \<Rightarrow> wit_error + wit_type) \<Rightarrow> wtype option \<Rightarrow> wit_error + wit_type option" where
  "part_type f part = (case part of Some t \<Rightarrow> map_ok Some (f t) | None \<Rightarrow> Inr None)"

lemma part_type_cong [fundef_cong]:
  "part = part' \<Longrightarrow> (\<And>t. part' = Some t \<Longrightarrow> f t = g t) \<Longrightarrow> part_type f part = part_type g part'"
  by (auto simp: part_type_def split: option.split)

fun component_type :: "nat \<Rightarrow> resolve \<Rightarrow> wtype \<Rightarrow> wit_error + wit_type" where
  "component_type fuel rs WBool = Inr TBool"
| "component_type fuel rs WU8 = Inr TU8"
| "component_type fuel rs WU16 = Inr TU16"
| "component_type fuel rs WU32 = Inr TU32"
| "component_type fuel rs WU64 = Inr TU64"
| "component_type fuel rs WS8 = Inr TS8"
| "component_type fuel rs WS16 = Inr TS16"
| "component_type fuel rs WS32 = Inr TS32"
| "component_type fuel rs WS64 = Inr TS64"
| "component_type fuel rs WF32 = Inr TFloat32"
| "component_type fuel rs WF64 = Inr TFloat64"
| "component_type fuel rs WChar = Inr TChar"
| "component_type fuel rs WString = Inr TString"
| "component_type fuel rs WErrorContext = Inr TErrorContext"
| "component_type 0 rs (WId i) = Inl OutOfFuel"
| "component_type (Suc fuel) rs (WId i) =
     attempt (get_type rs i) (\<lambda>td.
       (case td_kind td of
          KType t \<Rightarrow> component_type fuel rs t
        | KRecord fs \<Rightarrow> map_ok TRecord (collect_res (map (\<lambda>(name, t). map_ok (Pair name) (component_type fuel rs t)) fs))
        | KVariant cs \<Rightarrow>
            map_ok TVariant (collect_res (map (\<lambda>(name, t). map_ok (Pair name) (part_type (component_type fuel rs) t)) cs))
        | KEnum names \<Rightarrow> Inr (TEnum names)
        | KFlags names \<Rightarrow> Inr (TFlags names)
        | KOption t \<Rightarrow> map_ok TOption (component_type fuel rs t)
        | KResult ok err \<Rightarrow>
            attempt (part_type (component_type fuel rs) ok) (\<lambda>ok'.
              map_ok (TResult ok') (part_type (component_type fuel rs) err))
        | KList t \<Rightarrow> map_ok TList (component_type fuel rs t)
        | KMap k v \<Rightarrow> attempt (component_type fuel rs k) (\<lambda>k'. map_ok (TMap k') (component_type fuel rs v))
        | KTuple ts \<Rightarrow> map_ok TTuple (collect_res (map (component_type fuel rs) ts))
        | KHandle (HOwn r) \<Rightarrow> Inr TOwn
        | KHandle (HBorrow r) \<Rightarrow> Inr TBorrow
        | KFuture t \<Rightarrow> Inr TFuture
        | KStream t \<Rightarrow> Inr TStream
        | _ \<Rightarrow> Inl UnknownKindPanic))"

text \<open>What wit-parser guarantees of a kind: distinct names, and tuples of a length that a \<open>usize\<close> holds.\<close>

fun kind_ok :: "type_kind \<Rightarrow> bool" where
  "kind_ok (KRecord fs) \<longleftrightarrow> distinct (map fst fs)"
| "kind_ok (KVariant cs) \<longleftrightarrow> distinct (map fst cs)"
| "kind_ok (KTuple ts) \<longleftrightarrow> length ts < 2 ^ 63"
| "kind_ok k \<longleftrightarrow> True"

definition kinds_ok :: "resolve \<Rightarrow> bool" where
  "kinds_ok rs \<longleftrightarrow> (\<forall>td \<in> set (rs_types rs). kind_ok (td_kind td))"

lemma optional_iff:
  "is_optional_type fuel rs t = Inr b \<Longrightarrow> component_type fuel rs t = Inr T \<Longrightarrow> b \<longleftrightarrow> (\<exists>T'. T = TOption T')"
proof (induction fuel arbitrary: t T)
  case 0
  then show ?case by (cases t) auto
next
  case (Suc fuel)
  show ?case
  proof (cases t)
    case (WId i)
    with Suc.prems obtain td where td: "get_type rs i = Inr td" by (auto simp: attempt_Inr_iff)
    show ?thesis
      using Suc td by (cases "td_kind td") (auto simp: WId attempt_Inr_iff map_ok_Inr_iff split: handle.splits)
  qed (use Suc.prems in auto)
qed

lemma list_all2_two:
  assumes "list_all2 (\<lambda>x y. f x = Inr y) xs ys" and "list_all2 (\<lambda>x z. g x = Inr z) xs zs"
    and "\<And>x y z. x \<in> set xs \<Longrightarrow> f x = Inr y \<Longrightarrow> g x = Inr z \<Longrightarrow> p y z"
  shows "list_all2 p ys zs"
proof -
  have "p (ys ! i) (zs ! i)" if "i < length xs" for i
    by (rule assms(3) [of "xs ! i"]) (use assms(1,2) that in \<open>auto simp: list_all2_conv_all_nth\<close>)
  then show ?thesis using assms(1,2) by (auto simp: list_all2_conv_all_nth)
qed

lemma collected_keys:
  assumes "list_all2 (\<lambda>(n, t) y. map_ok (Pair n) (f t) = Inr y) xs ys"
  shows "map fst ys = map fst xs"
  using assms by (induction rule: list_all2_induct) (auto simp: map_ok_Inr_iff)

lemma required_names:
  assumes "list_all2 (\<lambda>(n, t) y. map_ok (Pair n) (f t) = Inr y) xs ys" and "distinct (map fst xs)" and "(n, t) \<in> set xs" and "f t = Inr b"
  shows "n \<in> set (map fst (filter (\<lambda>(name, opt). \<not> opt) ys)) \<longleftrightarrow> \<not> b"
proof -
  have d: "distinct (map fst ys)" using assms(2) by (simp add: collected_keys [OF assms(1)])
  have y: "(n, b) \<in> set ys"
    using list_all2_member [OF assms(1,3)] assms(4) by (auto simp: map_ok_Inr_iff)
  then have "b' = b" if "(n, b') \<in> set ys" for b' using d that by (metis eq_key_imp_eq_value)
  moreover have "n \<in> set (map fst (filter (\<lambda>(name, opt). \<not> opt) ys)) \<longleftrightarrow> (\<exists>b'. (n, b') \<in> set ys \<and> \<not> b')" by force
  ultimately show ?thesis using y by blast
qed

lemma fields_matched:
  assumes "kind_ok (KRecord fs)"
    and "collect_res (map (\<lambda>(name, t). map_ok (Pair name) (wit_type_to_json_schema fuel rs t)) fs) = Inr ps"
    and "collect_res (map (\<lambda>(name, t). map_ok (Pair name) (is_optional_type fuel rs t)) fs) = Inr opts"
    and "collect_res (map (\<lambda>(name, t). map_ok (Pair name) (component_type fuel rs t)) fs) = Inr Fs"
    and "\<And>t s T. t \<in> snd ` set fs \<Longrightarrow> wit_type_to_json_schema fuel rs t = Inr s \<Longrightarrow> component_type fuel rs t = Inr T \<Longrightarrow> p s T"
  shows "fields_match p ps (map fst (filter (\<lambda>(name, opt). \<not> opt) opts)) Fs"
proof -
  let ?req = "map fst (filter (\<lambda>(name, opt). \<not> opt) opts)"
  have ps: "list_all2 (\<lambda>(n, t) y. map_ok (Pair n) (wit_type_to_json_schema fuel rs t) = Inr y) fs ps"
    and opts: "list_all2 (\<lambda>(n, t) y. map_ok (Pair n) (is_optional_type fuel rs t) = Inr y) fs opts"
    and Fs: "list_all2 (\<lambda>(n, t) y. map_ok (Pair n) (component_type fuel rs t) = Inr y) fs Fs"
    using assms(2-4) by (simp_all add: collect_res_list_all2 case_prod_beta')
  have d: "distinct (map fst fs)" using assms(1) by simp
  have "list_all2 (\<lambda>(n, s) (m, T). n = m \<and> p s T \<and> (n \<notin> set ?req \<longleftrightarrow> (\<exists>T'. T = TOption T'))) ps Fs"
  proof (rule list_all2_two [OF assms(2,4) [unfolded collect_res_list_all2]])
    fix x y z
    assume x: "x \<in> set fs" and y: "(case x of (n, t) \<Rightarrow> map_ok (Pair n) (wit_type_to_json_schema fuel rs t)) = Inr y"
      and z: "(case x of (n, t) \<Rightarrow> map_ok (Pair n) (component_type fuel rs t)) = Inr z"
    obtain n t where nt: "x = (n, t)" by (cases x)
    with y z obtain s T where y': "y = (n, s)" "wit_type_to_json_schema fuel rs t = Inr s"
      and z': "z = (n, T)" "component_type fuel rs t = Inr T" by (auto simp: map_ok_Inr_iff)
    have "p s T" using assms(5) [OF _ y'(2) z'(2)] x nt by force
    moreover obtain b where b: "is_optional_type fuel rs t = Inr b"
      using list_all2_member [OF opts x] by (auto simp: nt map_ok_Inr_iff)
    moreover have "n \<notin> set ?req \<longleftrightarrow> b" using required_names [OF opts d x [unfolded nt] b] by blast
    ultimately show "(\<lambda>(n, s) (m, T). n = m \<and> p s T \<and> (n \<notin> set ?req \<longleftrightarrow> (\<exists>T'. T = TOption T'))) y z"
      using optional_iff [OF b z'(2)] y' z' by simp
  qed
  moreover have "distinct (map fst ps)" using d by (simp add: collected_keys [OF ps])
  moreover have "set ?req \<subseteq> fst ` set ps"
  proof -
    have "fst ` set opts = fst ` set ps" using collected_keys [OF ps] collected_keys [OF opts] by (metis list.set_map)
    then show ?thesis by auto
  qed
  ultimately show ?thesis by (simp add: fields_match_def)
qed

subsection \<open>Relations between derived schemas and component types\<close>

text \<open>
  Schema and component type are derived by the same recursion. A relation between the two that every
  constructor preserves therefore holds of what is derived from any invokable type. \<open>option_ok\<close> and
  \<open>key_ok\<close> are conditions under which it is preserved by options and by maps written as pairs.
\<close>

locale schema_relation =
  fixes p :: "json \<Rightarrow> wit_type \<Rightarrow> bool" and option_ok :: "wit_type \<Rightarrow> bool" and key_ok :: "wit_type \<Rightarrow> bool"
  assumes bool: "p (typed ''boolean'' []) TBool"
    and unsigned: "p (bounded 0 255) TU8" "p (bounded 0 65535) TU16" "p (bounded 0 4294967295) TU32"
      "p (typed ''number'' [(''minimum'', jint 0)]) TU64"
    and signed: "p (bounded (- 128) 127) TS8" "p (bounded (- 32768) 32767) TS16" "p (bounded (- 2147483648) 2147483647) TS32"
      "p (typed ''number'' []) TS64"
    and float: "p (typed ''number'' []) TFloat32" "p (typed ''number'' []) TFloat64"
    and chars: "p (typed ''string'' [(''minLength'', jint 1), (''maxLength'', jint 1)]) TChar" "p (typed ''string'' []) TString"
    and enum: "p (typed ''string'' [(''enum'', JArray (map JString names))]) (TEnum names)"
    and flags: "p (typed ''array'' [(''items'', typed ''string'' [(''enum'', JArray (map JString names))]), (''uniqueItems'', JBool True)])
      (TFlags names)"
    and list: "p s T \<Longrightarrow> p (typed ''array'' [(''items'', s)]) (TList T)"
    and optional: "p s T \<Longrightarrow> option_ok T \<Longrightarrow> p (one_of [s, null_schema]) (TOption T)"
    and tuple: "list_all2 p ss Ts \<Longrightarrow> length ss < 2 ^ 63 \<Longrightarrow> p (sized_array [(''prefixItems'', JArray ss)] (length ss)) (TTuple Ts)"
    and string_map: "p s T \<Longrightarrow> p (typed ''object'' [(''additionalProperties'', s)]) (TMap TString T)"
    and pair_map: "p ks K \<Longrightarrow> p s T \<Longrightarrow> key_ok K \<Longrightarrow>
      p (typed ''array'' [(''items'', sized_array [(''prefixItems'', JArray [ks, s])] 2)]) (TMap K T)"
    and fields_of: "fields_match p ps req Fs \<Longrightarrow> p (record_schema title ps req) (TRecord Fs)"
    and variant: "cases_match p cs Cs \<Longrightarrow> p (one_of (map case_schema cs)) (TVariant Cs)"
    and result: "(case ok of Some T \<Rightarrow> p ok_schema T | None \<Rightarrow> ok_schema = null_schema) \<Longrightarrow>
      (case err of Some T \<Rightarrow> p err_schema T | None \<Rightarrow> err_schema = null_schema) \<Longrightarrow>
      p (one_of [arm_schema ''ok'' ok_schema, arm_schema ''error'' err_schema]) (TResult ok err)"

fun kind_parts :: "type_kind \<Rightarrow> wtype list" where
  "kind_parts (KType t) = [t]"
| "kind_parts (KRecord fs) = map snd fs"
| "kind_parts (KVariant cs) = concat (map (\<lambda>(n, t). case t of Some t \<Rightarrow> [t] | None \<Rightarrow> []) cs)"
| "kind_parts (KOption t) = [t]"
| "kind_parts (KResult ok err) =
     (case ok of Some t \<Rightarrow> [t] | None \<Rightarrow> []) @ (case err of Some t \<Rightarrow> [t] | None \<Rightarrow> [])"
| "kind_parts (KList t) = [t]"
| "kind_parts (KMap k v) = [k, v]"
| "kind_parts (KTuple ts) = ts"
| "kind_parts k = []"

fun kind_allowed :: "(wit_type \<Rightarrow> bool) \<Rightarrow> (wit_type \<Rightarrow> bool) \<Rightarrow> (wtype \<Rightarrow> wit_error + wit_type) \<Rightarrow> type_kind \<Rightarrow> bool" where
  "kind_allowed option_ok key_ok f (KOption t) = (case f t of Inr T \<Rightarrow> option_ok T | Inl e \<Rightarrow> True)"
| "kind_allowed option_ok key_ok f (KMap k v) = (k = WString \<or> (case f k of Inr K \<Rightarrow> key_ok K | Inl e \<Rightarrow> True))"
| "kind_allowed option_ok key_ok f k = True"

text \<open>The conditions at every option and map that a type is made of, down to its scalars.\<close>

fun type_allowed :: "(wit_type \<Rightarrow> bool) \<Rightarrow> (wit_type \<Rightarrow> bool) \<Rightarrow> nat \<Rightarrow> resolve \<Rightarrow> wtype \<Rightarrow> bool" where
  "type_allowed option_ok key_ok (Suc fuel) rs (WId i) =
     (case get_type rs i of
        Inr td \<Rightarrow> kind_allowed option_ok key_ok (component_type fuel rs) (td_kind td) \<and>
          list_all (type_allowed option_ok key_ok fuel rs) (kind_parts (td_kind td))
      | Inl e \<Rightarrow> True)"
| "type_allowed option_ok key_ok fuel rs t = True"

lemma always_allowed: "type_allowed (\<lambda>T. True) (\<lambda>K. True) fuel rs t"
proof (induction fuel arbitrary: t)
  case 0
  show ?case by (cases t) simp_all
next
  case (Suc fuel)
  have "kind_allowed (\<lambda>T. True) (\<lambda>K. True) f k" for f k by (cases k) (auto split: sum.split)
  with Suc.IH show ?case by (cases t) (auto simp: list_all_iff split: sum.split)
qed

lemma all_res_True: "all_res p xs = Inr True \<longleftrightarrow> (\<forall>x \<in> set xs. p x = Inr True)"
  by (induction xs) (auto simp: attempt_Inr_iff)

lemma cases_matched:
  assumes "kind_ok (KVariant cs)"
    and "collect_res (map (\<lambda>(name, t). (case t of
           Some t \<Rightarrow> map_ok (\<lambda>payload. (name, Some payload)) (wit_type_to_json_schema fuel rs t)
         | None \<Rightarrow> Inr (name, None))) cs) = Inr ss"
    and "collect_res (map (\<lambda>(name, t). map_ok (Pair name) (part_type (component_type fuel rs) t)) cs) = Inr Cs"
    and "\<And>n t s T. (n, Some t) \<in> set cs \<Longrightarrow> wit_type_to_json_schema fuel rs t = Inr s \<Longrightarrow> component_type fuel rs t = Inr T \<Longrightarrow> p s T"
  shows "cases_match p ss Cs"
proof -
  have "list_all2 (\<lambda>(n, s) (m, T). n = m \<and> rel_option p s T) ss Cs"
    by (rule list_all2_two [OF assms(2,3) [unfolded collect_res_list_all2]])
      (auto simp: part_type_def map_ok_Inr_iff split: option.splits, rule assms(4))
  moreover have "map fst Cs = map fst cs"
    using assms(3) by (intro collected_keys [of "part_type (component_type fuel rs)"]) (simp add: collect_res_list_all2 case_prod_beta')
  ultimately show ?thesis using assms(1) by (simp add: cases_match_def)
qed

context schema_relation
begin

lemma derived:
  assumes "kinds_ok rs"
  shows "wit_type_to_json_schema fuel rs t = Inr s \<Longrightarrow> component_type fuel rs t = Inr T \<Longrightarrow> is_invokable fuel rs t = Inr True \<Longrightarrow>
    type_allowed option_ok key_ok fuel rs t \<Longrightarrow> p s T"
proof (induction fuel arbitrary: t s T)
  case 0
  then show ?case by (cases t) (auto intro: bool unsigned signed float chars)
next
  case (Suc fuel)
  show ?case
  proof (cases t)
    case (WId i)
    with Suc.prems obtain td where td: "get_type rs i = Inr td" by (auto simp: attempt_Inr_iff)
    then have mem: "td \<in> set (rs_types rs)" by (auto simp: get_type_def type_at_def ok_or_Inr_iff split: if_splits)
    have ok: "kind_ok (td_kind td)" using assms mem by (simp add: kinds_ok_def)
    note prems = Suc.prems(1-3) [unfolded WId wit_type_to_json_schema.simps component_type.simps is_invokable.simps td attempt_simps]
    have here: "kind_allowed option_ok key_ok (component_type fuel rs) (td_kind td)"
      and parts: "\<And>t'. t' \<in> set (kind_parts (td_kind td)) \<Longrightarrow> type_allowed option_ok key_ok fuel rs t'"
      using Suc.prems(4) by (simp_all add: WId td list_all_iff)
    note IH = Suc.IH [OF _ _ _ parts]
    show ?thesis
    proof (cases "td_kind td")
      case (KRecord fs)
      with prems obtain ps opts Fs where
        c: "collect_res (map (\<lambda>(name, t). map_ok (Pair name) (wit_type_to_json_schema fuel rs t)) fs) = Inr ps"
          "collect_res (map (\<lambda>(name, t). map_ok (Pair name) (is_optional_type fuel rs t)) fs) = Inr opts"
          "collect_res (map (\<lambda>(name, t). map_ok (Pair name) (component_type fuel rs t)) fs) = Inr Fs"
        and e: "s = record_schema (td_name td) ps (map fst (filter (\<lambda>(name, opt). \<not> opt) opts))" "T = TRecord Fs"
        by (auto simp: attempt_Inr_iff map_ok_Inr_iff)
      show ?thesis
        unfolding e
        by (rule fields_of, rule fields_matched [OF _ c]) (use ok KRecord prems(3) IH in \<open>force simp: all_res_True\<close>)+
    next
      case (KVariant cs)
      with prems obtain ss Cs where
        c: "collect_res (map (\<lambda>(name, t). (case t of
             Some t \<Rightarrow> map_ok (\<lambda>payload. (name, Some payload)) (wit_type_to_json_schema fuel rs t)
           | None \<Rightarrow> Inr (name, None))) cs) = Inr ss"
          "collect_res (map (\<lambda>(name, t). map_ok (Pair name) (part_type (component_type fuel rs) t)) cs) = Inr Cs"
        and e: "s = one_of (map case_schema ss)" "T = TVariant Cs"
        by (auto simp: map_ok_Inr_iff)
      have "is_invokable fuel rs t' = Inr True" if "(n, Some t') \<in> set cs" for n t'
        using prems(3) that by (force simp: KVariant all_res_True map_filter_def)
      then show ?thesis
        unfolding e by (intro variant cases_matched [OF _ c]) (use ok KVariant IH in force)+
    next
      case (KTuple ts)
      with prems obtain ss Ts where c: "collect_res (map (wit_type_to_json_schema fuel rs) ts) = Inr ss"
          "collect_res (map (component_type fuel rs) ts) = Inr Ts"
        and e: "s = sized_array [(''prefixItems'', JArray ss)] (length ss)" "T = TTuple Ts"
        by (auto simp: map_ok_Inr_iff)
      have "list_all2 p ss Ts"
        by (rule list_all2_two [OF c [unfolded collect_res_list_all2]]) (use IH prems(3) KTuple in \<open>auto simp: all_res_True\<close>)
      then show ?thesis
        unfolding e by (rule tuple) (use ok KTuple collect_res_length [OF c(1)] in auto)
    next
      case (KOption t')
      with here have "component_type fuel rs t' = Inr T' \<Longrightarrow> option_ok T'" for T' by simp
      with KOption show ?thesis using prems IH by (auto simp: map_ok_Inr_iff intro!: optional)
    next
      case (KMap k v)
      with here have "k \<noteq> WString \<Longrightarrow> component_type fuel rs k = Inr K \<Longrightarrow> key_ok K" for K by simp
      with KMap show ?thesis
        using prems IH
        by (cases "k = WString") (auto simp: attempt_Inr_iff map_ok_Inr_iff all_res_True split: if_splits intro!: string_map pair_map)
    next
      case (KResult ok' err')
      have "case T' of Some T \<Rightarrow> p s' T | None \<Rightarrow> s' = null_schema"
        if "part_schema (wit_type_to_json_schema fuel rs) part = Inr s'" "part_type (component_type fuel rs) part = Inr T'"
          "set_option part \<subseteq> set_option ok' \<union> set_option err'" for part s' T'
      proof (cases part)
        case (Some t')
        then have "is_invokable fuel rs t' = Inr True"
          using prems(3) that(3) by (auto simp: KResult all_res_True map_filter_def split: option.splits if_splits)
        then show ?thesis using that IH by (auto simp: Some KResult part_schema_def part_type_def map_ok_Inr_iff)
      qed (use that in \<open>auto simp: part_schema_def part_type_def\<close>)
      with KResult show ?thesis
        using prems(1,2) by (auto simp: attempt_Inr_iff map_ok_Inr_iff intro!: result)
    next
      case (KList t')
      then show ?thesis using prems IH by (auto simp: map_ok_Inr_iff intro!: list)
    next
      case (KType t')
      then show ?thesis using prems IH by auto
    qed (use prems in \<open>auto intro: enum flags\<close>)
  qed (use Suc.prems in \<open>auto intro: bool unsigned signed float chars\<close>)
qed

end

interpretation arguments: schema_relation "accepts fo" "\<lambda>T. True" "\<lambda>K. True" for fo
  by unfold_locales (auto intro: accepts_scalar accepts_enum accepts_flags accepts_list accepts_option accepts_tuple accepts_values
      accepts_pairs accepts_record accepts_variant accepts_result split: option.splits)

text \<open>
  What the derived schema admits, the runtime accepts: if a JSON argument is valid for the schema
  derived from an invokable parameter type, then the conversion to that type succeeds with a value of
  it, except for numbers only. Integer types are described as \<open>number\<close>, so a number with a fraction or
  exponent is admitted and then refused, as is an \<open>s64\<close> above the largest 64-bit signed integer, for
  which the schema has no bound. No other conversion error remains.
\<close>

theorem admitted_argument_converted:
  assumes "kinds_ok rs" and "wit_type_to_json_schema fuel rs t = Inr s" and "component_type fuel rs t = Inr T"
    and "is_invokable fuel rs t = Inr True" and "conforms s j"
  shows "case json_to_val fo j T of
      Inr v \<Rightarrow> has_type v T
    | Inl e \<Rightarrow> \<exists>name n. root_cause e = InvalidNumber name n \<and>
        (\<not> is_integer n \<or> name = ''s64'' \<and> (\<exists>w. n = PosInt w \<and> 2 ^ 63 \<le> unat w))"
proof -
  have "accepts fo s T"
    by (rule arguments.derived [OF assms(1-4) always_allowed])
  then have "fits (json_to_val fo j T)" using assms(5) by (simp add: accepts_def)
  then show ?thesis by (auto simp: fits_def number_error_def json_to_val_typed split: sum.splits)
qed

subsection \<open>Results conform\<close>

text \<open>A set of flags holds no flag twice, at any depth of a value.\<close>

fun flags_distinct :: "val \<Rightarrow> bool" where
  "flags_distinct (VFlags fs) = distinct fs"
| "flags_distinct (VList vs) = list_all flags_distinct vs"
| "flags_distinct (VTuple vs) = list_all flags_distinct vs"
| "flags_distinct (VMap es) = list_all (\<lambda>(k, v). flags_distinct k \<and> flags_distinct v) es"
| "flags_distinct (VRecord fs) = list_all (\<lambda>(n, v). flags_distinct v) fs"
| "flags_distinct (VOption (Some v)) = flags_distinct v"
| "flags_distinct (VVariant n (Some v)) = flags_distinct v"
| "flags_distinct (VResult (Inl (Some v))) = flags_distinct v"
| "flags_distinct (VResult (Inr (Some v))) = flags_distinct v"
| "flags_distinct v = True"

definition emits :: "float_ops \<Rightarrow> json \<Rightarrow> wit_type \<Rightarrow> bool" where
  "emits fo s T \<longleftrightarrow>
     (\<forall>v j. faithful fo v T \<and> flags_distinct v \<and> val_to_json fo v = Inr j \<longrightarrow> conforms s j) \<and>
     ((\<forall>T'. T \<noteq> TOption T') \<longrightarrow> \<not> conforms s JNull)"

lemma emitsI:
  assumes "\<And>v j. faithful fo v T \<Longrightarrow> flags_distinct v \<Longrightarrow> val_to_json fo v = Inr j \<Longrightarrow> conforms s j"
    and "\<not> conforms s JNull"
  shows "emits fo s T"
  using assms unfolding emits_def by blast

lemma emitsD: "emits fo s T \<Longrightarrow> faithful fo v T \<Longrightarrow> flags_distinct v \<Longrightarrow> val_to_json fo v = Inr j \<Longrightarrow> conforms s j"
  by (simp add: emits_def)

lemma value_of_i64: "number_value (num_of_i64 w) = of_int (sint w)"
proof (cases "sint w < 0")
  case False
  have "sint w < 2 ^ 63" using sint_lt [of w] by simp
  with False have "uint w = sint w" by (simp add: uint_sint take_bit_eq_mod)
  then have "int (unat w) = sint w" by (simp only: uint_nat)
  then have "(of_int (int (unat w)) :: rat) = of_int (sint w)" by (simp only:)
  with False show ?thesis by (simp add: num_of_i64_def del: of_int_sint)
qed (simp add: num_of_i64_def del: of_int_sint)

lemma narrow_ranges:
  fixes a :: "8 word" and b :: "16 word" and c :: "32 word" and d :: "8 word" and e :: "16 word" and f :: "32 word"
  shows "unat a \<le> 255" "unat b \<le> 65535" "unat c \<le> 4294967295"
    "-128 \<le> sint d" "sint d \<le> 127" "-32768 \<le> sint e" "sint e \<le> 32767"
    "-2147483648 \<le> sint f" "sint f \<le> 2147483647"
proof -
  have "unat a < 2 ^ 8" "unat b < 2 ^ 16" "unat c < 2 ^ 32"
    using unsigned_less [where w = a] unsigned_less [where w = b] unsigned_less [where w = c] by simp_all
  then show "unat a \<le> 255" "unat b \<le> 65535" "unat c \<le> 4294967295" by simp_all
  show "-128 \<le> sint d" "sint d \<le> 127" "-32768 \<le> sint e" "sint e \<le> 32767" "-2147483648 \<le> sint f" "sint f \<le> 2147483647"
    using sint_ge [of d] sint_lt [of d] sint_ge [of e] sint_lt [of e] sint_ge [of f] sint_lt [of f] by simp_all
qed

lemma narrow_values:
  fixes a :: "8 word" and b :: "16 word" and c :: "32 word" and d :: "8 word" and e :: "16 word" and f :: "32 word"
  shows "number_value (num_of_u64 (ucast a)) = of_nat (unat a)" "number_value (num_of_u64 (ucast b)) = of_nat (unat b)"
    "number_value (num_of_u64 (ucast c)) = of_nat (unat c)" "number_value (num_of_i64 (scast d)) = of_int (sint d)"
    "number_value (num_of_i64 (scast e)) = of_int (sint e)" "number_value (num_of_i64 (scast f)) = of_int (sint f)"
proof -
  have "take_bit 64 (unat a) = unat a" "take_bit 64 (unat b) = unat b" "take_bit 64 (unat c) = unat c"
    using narrow_ranges(1) [of a] narrow_ranges(2) [of b] narrow_ranges(3) [of c] by (simp_all add: take_bit_nat_eq_self_iff)
  then have "unat (ucast a :: 64 word) = unat a" "unat (ucast b :: 64 word) = unat b" "unat (ucast c :: 64 word) = unat c"
    by (simp_all add: unsigned_ucast_eq)
  then show "number_value (num_of_u64 (ucast a)) = of_nat (unat a)" "number_value (num_of_u64 (ucast b)) = of_nat (unat b)"
    "number_value (num_of_u64 (ucast c)) = of_nat (unat c)"
    by (simp_all only: num_of_u64_def number_value.simps)
  have "signed_take_bit 63 (sint d) = sint d" "signed_take_bit 63 (sint e) = sint e" "signed_take_bit 63 (sint f) = sint f"
    using narrow_ranges(4,5) [of d] narrow_ranges(6,7) [of e] narrow_ranges(8,9) [of f]
    by (simp_all add: signed_take_bit_int_eq_self)
  then have "sint (scast d :: 64 word) = sint d" "sint (scast e :: 64 word) = sint e" "sint (scast f :: 64 word) = sint f"
    by (simp_all add: signed_scast_eq)
  then show "number_value (num_of_i64 (scast d)) = of_int (sint d)"
    "number_value (num_of_i64 (scast e)) = of_int (sint e)" "number_value (num_of_i64 (scast f)) = of_int (sint f)"
    by (simp_all only: value_of_i64)
qed

lemma rat_bounds:
  "(n :: nat) \<le> m \<Longrightarrow> (of_nat n :: rat) \<le> of_int (int m)" "(i :: int) \<le> k \<Longrightarrow> (of_int i :: rat) \<le> of_int k"
  by simp_all

lemma emits_unsigned:
  "emits fo (bounded 0 255) TU8" "emits fo (bounded 0 65535) TU16" "emits fo (bounded 0 4294967295) TU32"
  "emits fo (typed ''number'' [(''minimum'', jint 0)]) TU64"
proof -
  show "emits fo (bounded 0 255) TU8"
    using narrow_ranges(1) rat_bounds(1) [of _ 255] by (intro emitsI) (auto simp: conforms_bounded narrow_values simp del: of_nat_unat)
  show "emits fo (bounded 0 65535) TU16"
    using narrow_ranges(2) rat_bounds(1) [of _ 65535] by (intro emitsI) (auto simp: conforms_bounded narrow_values simp del: of_nat_unat)
  show "emits fo (bounded 0 4294967295) TU32"
    using narrow_ranges(3) rat_bounds(1) [of _ 4294967295] by (intro emitsI) (auto simp: conforms_bounded narrow_values simp del: of_nat_unat)
  show "emits fo (typed ''number'' [(''minimum'', jint 0)]) TU64"
    by (intro emitsI) (auto simp: conforms_minimum num_of_u64_def simp del: of_nat_unat)
qed

lemma emits_signed:
  "emits fo (bounded (- 128) 127) TS8" "emits fo (bounded (- 32768) 32767) TS16"
  "emits fo (bounded (- 2147483648) 2147483647) TS32" "emits fo (typed ''number'' []) TS64"
proof -
  show "emits fo (bounded (- 128) 127) TS8"
    using rat_bounds(2) [OF narrow_ranges(4)] rat_bounds(2) [OF narrow_ranges(5)]
    by (intro emitsI) (auto simp: conforms_bounded narrow_values simp del: of_int_sint)
  show "emits fo (bounded (- 32768) 32767) TS16"
    using rat_bounds(2) [OF narrow_ranges(6)] rat_bounds(2) [OF narrow_ranges(7)]
    by (intro emitsI) (auto simp: conforms_bounded narrow_values simp del: of_int_sint)
  show "emits fo (bounded (- 2147483648) 2147483647) TS32"
    using rat_bounds(2) [OF narrow_ranges(8)] rat_bounds(2) [OF narrow_ranges(9)]
    by (intro emitsI) (auto simp: conforms_bounded narrow_values simp del: of_int_sint)
  show "emits fo (typed ''number'' []) TS64"
    by (intro emitsI) (auto simp: conforms_scalar)
qed

lemma emits_scalar:
  "emits fo (typed ''boolean'' []) TBool" "emits fo (typed ''number'' []) TFloat32" "emits fo (typed ''number'' []) TFloat64"
  "emits fo (typed ''string'' [(''minLength'', jint 1), (''maxLength'', jint 1)]) TChar" "emits fo (typed ''string'' []) TString"
  "emits fo (typed ''string'' [(''enum'', JArray (map JString names))]) (TEnum names)"
  "emits fo (typed ''array'' [(''items'', typed ''string'' [(''enum'', JArray (map JString names))]), (''uniqueItems'', JBool True)]) (TFlags names)"
  by (intro emitsI; auto simp: conforms_scalar conforms_char conforms_enum conforms_flags float_json_def)+

lemma emits_list: "emits fo s T \<Longrightarrow> emits fo (typed ''array'' [(''items'', s)]) (TList T)"
proof (rule emitsI)
  fix v j assume s: "emits fo s T" and v: "faithful fo v (TList T)" "flags_distinct v" "val_to_json fo v = Inr j"
  then obtain vs js where vs: "v = VList vs" "\<forall>w \<in> set vs. faithful fo w T" "j = JArray js" "collect_res (map (val_to_json fo) vs) = Inr js"
    by (auto simp: map_ok_Inr_iff list_all_iff)
  have "conforms s x" if member: "x \<in> set js" for x
    using collect_res_mem [OF vs(4) member] vs(2) v(2) by (auto simp: vs(1) list_all_iff intro: emitsD [OF s])
  then show "conforms (typed ''array'' [(''items'', s)]) j" by (simp add: conforms_list vs(3))
qed (simp add: conforms_list)

lemma emits_option:
  assumes "emits fo s T" and "\<forall>T'. T \<noteq> TOption T'"
  shows "emits fo (one_of [s, null_schema]) (TOption T)"
proof -
  have n: "\<not> conforms s JNull" using assms by (simp add: emits_def)
  have "conforms (one_of [s, null_schema]) j"
    if v: "faithful fo v (TOption T)" "flags_distinct v" "val_to_json fo v = Inr j" for v j
  proof (cases "v = VOption None")
    case True
    with v(3) n show ?thesis by (auto simp: conforms_one_of conforms_scalar)
  next
    case False
    then obtain w where w: "v = VOption (Some w)" "faithful fo w T" "w \<noteq> VOption None" using v(1) by auto
    then have "j \<noteq> JNull" using v(3) null_json [of fo w T] by auto
    moreover have "conforms s j" using assms(1) w v by (auto intro: emitsD)
    ultimately show ?thesis by (simp add: conforms_one_of conforms_scalar)
  qed
  then show ?thesis unfolding emits_def by blast
qed

lemma emits_tuple:
  assumes "list_all2 (emits fo) ss Ts" and "length ss < 2 ^ 63"
  shows "emits fo (sized_array [(''prefixItems'', JArray ss)] (length ss)) (TTuple Ts)"
proof (rule emitsI)
  fix v j assume v: "faithful fo v (TTuple Ts)" "flags_distinct v" "val_to_json fo v = Inr j"
  then obtain vs js where vs: "v = VTuple vs" "pairwise (\<lambda>w t. faithful fo w t) vs Ts" "j = JArray js"
    "collect_res (map (val_to_json fo) vs) = Inr js"
    by (auto simp: map_ok_Inr_iff)
  have "length js = length vs" using collect_res_length [OF vs(4)] by simp
  then have "list_all2 conforms ss js"
    using assms(1) vs(2) v(2) collect_res_nth [OF vs(4)]
    by (auto simp: list_all2_conv_all_nth pairwise_nth vs(1) list_all_length intro!: emitsD)
  then show "conforms (sized_array [(''prefixItems'', JArray ss)] (length ss)) j" by (simp add: conforms_sized [OF assms(2)] vs(3))
qed (simp add: conforms_sized [OF assms(2)])

lemma extend_member: "(k, w) \<in> set (bt_extend m kvs) \<Longrightarrow> (k, w) \<in> set kvs \<or> (k, w) \<in> set m"
proof (induction kvs arbitrary: m)
  case (Cons kv kvs)
  have "(k, w) \<in> set (bt_insert a b m) \<Longrightarrow> (k, w) = (a, b) \<or> (k, w) \<in> set m" for a b m
    by (induction a b m rule: bt_insert.induct) (auto split: if_splits)
  with Cons show ?case by (cases kv) (fastforce simp: bt_extend_def)
qed (simp add: bt_extend_def)

lemma emits_values:
  assumes "emits fo s T"
  shows "emits fo (typed ''object'' [(''additionalProperties'', s)]) (TMap TString T)"
proof (rule emitsI)
  fix v j assume v: "faithful fo v (TMap TString T)" "flags_distinct v" "val_to_json fo v = Inr j"
  then obtain es where es: "v = VMap es" "\<forall>(k, w) \<in> set es. faithful fo w T" "string_keyed es" by (auto simp: list_all_iff)
  then obtain kvs where kvs: "j = JObject (bt_extend [] kvs)"
    "collect_res (map (\<lambda>(k, v). map_ok (Pair (unwrap_or (string_key k) [])) (val_to_json fo v)) es) = Inr kvs"
    using v(3) by (auto simp: string_keyed_def map_ok_Inr_iff)
  have "conforms s w" if member: "(k, w) \<in> set (bt_extend [] kvs)" for k w
  proof -
    have "(k, w) \<in> set kvs" using extend_member [OF member] by simp
    from collect_res_mem [OF kvs(2) this] obtain k' w' where "(k', w') \<in> set es" "val_to_json fo w' = Inr w"
      by (auto simp: map_ok_Inr_iff)
    with es(2) v(2) show ?thesis by (intro emitsD [OF assms, of w']) (auto simp: es(1) list_all_iff)
  qed
  then show "conforms (typed ''object'' [(''additionalProperties'', s)]) j" by (auto simp: conforms_values kvs(1))
qed (simp add: conforms_values)

lemma emits_pairs:
  assumes "emits fo ks K" and "emits fo s T" and "K \<noteq> TString"
  shows "emits fo (typed ''array'' [(''items'', sized_array [(''prefixItems'', JArray [ks, s])] 2)]) (TMap K T)"
proof (rule emitsI)
  fix v j assume v: "faithful fo v (TMap K T)" "flags_distinct v" "val_to_json fo v = Inr j"
  then obtain es where es: "v = VMap es" "\<forall>(k, w) \<in> set es. faithful fo k K \<and> faithful fo w T" "es \<noteq> []"
    using assms(3) by (auto simp: list_all_iff)
  have "\<exists>(k, w) \<in> set es. string_key k = None"
    using es(2,3) no_string_key [OF faithful_typed assms(3)] by (cases es) auto
  then obtain js where js: "j = JArray js"
    "collect_res (map (\<lambda>(k, v). attempt (val_to_json fo k) (\<lambda>k'. map_ok (\<lambda>v'. JArray [k', v']) (val_to_json fo v))) es) = Inr js"
    using v(3) by (auto simp: es(1) map_ok_Inr_iff list_all_iff split: if_splits)
  have "\<exists>k w. x = JArray [k, w] \<and> conforms ks k \<and> conforms s w" if member: "x \<in> set js" for x
  proof -
    from collect_res_mem [OF js(2) member] obtain k w k' w' where "(k, w) \<in> set es" "val_to_json fo k = Inr k'"
      "val_to_json fo w = Inr w'" "x = JArray [k', w']"
      by (auto simp: attempt_Inr_iff map_ok_Inr_iff)
    with es(2) v(2) show ?thesis by (auto simp: es(1) list_all_iff intro!: emitsD [OF assms(1)] emitsD [OF assms(2)])
  qed
  then show "conforms (typed ''array'' [(''items'', sized_array [(''prefixItems'', JArray [ks, s])] 2)]) j"
    by (auto simp: conforms_pairs js(1))
qed (simp add: conforms_pairs)

lemma emits_record:
  assumes "fields_match (emits fo) ps req Fs"
  shows "emits fo (record_schema title ps req) (TRecord Fs)"
proof -
  have d: "distinct (map fst ps)" using assms by (simp add: fields_match_def)
  have keys: "map fst Fs = map fst ps" by (rule fields_match_keys [OF assms])
  show ?thesis
  proof (rule emitsI)
    fix v j assume v: "faithful fo v (TRecord Fs)" "flags_distinct v" "val_to_json fo v = Inr j"
    then obtain vs kvs where vs: "v = VRecord vs" "pairwise (\<lambda>w f. fst w = fst f \<and> faithful fo (snd w) (snd f)) vs Fs"
      "j = JObject (bt_extend [] kvs)" "collect_res (map (\<lambda>(k, v). map_ok (Pair k) (val_to_json fo v)) vs) = Inr kvs"
      by (auto simp: map_ok_Inr_iff)
    have field: "fst (vs ! i) = fst (Fs ! i)" "faithful fo (snd (vs ! i)) (snd (Fs ! i))" "fst (kvs ! i) = fst (vs ! i)"
      "val_to_json fo (snd (vs ! i)) = Inr (snd (kvs ! i))" if "i < length vs" for i
      using vs(2) collect_res_nth [OF vs(4) that] that
      by (auto simp: pairwise_nth map_ok_Inr_iff case_prod_beta' split: prod.splits)
    have l: "length vs = length Fs" "length kvs = length Fs"
      using vs(2) collect_res_length [OF vs(4)] by (auto simp: pairwise_nth)
    have kkeys: "map fst kvs = map fst ps"
      unfolding keys [symmetric] by (rule nth_equalityI) (use field(1,3) l in simp_all)
    then have dk: "distinct (map fst kvs)" using d by simp
    have A: "conforms s w" if s: "(n, s) \<in> set ps" and w: "map_of (bt_extend [] kvs) n = Some w" for n s w
    proof -
      have "(n, w) \<in> set kvs" using w properties_lookup(1) [OF dk] by (blast dest: map_of_SomeD)
      then obtain i where i: "i < length kvs" "kvs ! i = (n, w)" by (auto simp: in_set_conv_nth)
      with l field(1,3) [of i] have "(n, snd (Fs ! i)) \<in> set Fs" by (metis fst_conv nth_mem prod.collapse)
      from fields_match_field [OF assms this] obtain s' where s': "(n, s') \<in> set ps" "emits fo s' (snd (Fs ! i))" by blast
      with s d have "s' = s" by (metis eq_key_imp_eq_value)
      then show ?thesis
        using s'(2) field [of i] i l v(2) by (intro emitsD [of fo s "snd (Fs ! i)" "snd (vs ! i)"]) (auto simp: vs(1) list_all_length case_prod_beta')
    qed
    have eq: "fst ` set kvs = fst ` set ps" using kkeys by (metis list.set_map)
    have B: "hm_has n (bt_extend [] kvs)" if "n \<in> set req" for n
    proof -
      have "n \<in> fst ` set ps" using that assms by (meson fields_match_def subsetD)
      then show ?thesis by (simp only: properties_lookup(2) [OF dk] eq)
    qed
    have C: "fst ` set (bt_extend [] kvs) \<subseteq> fst ` set kvs"
    proof
      fix k assume "k \<in> fst ` set (bt_extend [] kvs)"
      then obtain w where "(k, w) \<in> set (bt_extend [] kvs)" by auto
      then show "k \<in> fst ` set kvs" using properties_lookup(1) [OF dk] by (metis fst_conv image_eqI)
    qed
    show "conforms (record_schema title ps req) j"
      unfolding conforms_record [OF d] vs(3) using C by (intro exI [of _ "bt_extend [] kvs"] conjI ballI) (auto simp: A B eq)
  qed (simp add: conforms_record [OF d])
qed

lemma one_case:
  assumes "distinct (map fst ss)" and "(n, s) \<in> set ss" and "\<And>m s'. (m, s') \<in> set ss \<Longrightarrow> conforms (case_schema (m, s')) j \<longleftrightarrow> m = n"
  shows "conforms (one_of (map case_schema ss)) j"
proof -
  have "length (filter (\<lambda>(m, s). m = n) ss) = 1"
    using assms(1,2)
  proof (induction ss)
    case (Cons x ss)
    obtain m s' where x: "x = (m, s')" by (cases x)
    show ?case
    proof (cases "m = n")
      case True
      then have "(k, t) \<in> set ss \<Longrightarrow> k \<noteq> n" for k t using Cons.prems(1) x by (metis distinct.simps(2) fst_conv image_eqI list.set_map list.simps(9))
      then have "filter (\<lambda>(m, s). m = n) ss = []" by (auto simp: filter_empty_conv)
      then show ?thesis by (simp add: x True)
    qed (use Cons x in auto)
  qed simp
  moreover have "filter (\<lambda>x. conforms (case_schema x) j) ss = filter (\<lambda>(m, s). m = n) ss"
    by (rule filter_cong) (use assms(3) in auto)
  ultimately show ?thesis by (simp add: conforms_one_of filter_map comp_def)
qed

lemma emits_variant:
  assumes "cases_match (emits fo) ss Cs"
  shows "emits fo (one_of (map case_schema ss)) (TVariant Cs)"
proof (rule emitsI)
  have keys: "map fst Cs = map fst ss"
    using assms by (auto simp: cases_match_def dest!: same_keys [of "\<lambda>n s T. rel_option (emits fo) s T"])
  then have d: "distinct (map fst ss)" using assms by (metis cases_match_def)
  fix v j assume v: "faithful fo v (TVariant Cs)" "flags_distinct v" "val_to_json fo v = Inr j"
  then obtain n payload where p: "v = VVariant n payload"
    "case find_first (\<lambda>(m, t). m = n) Cs of None \<Rightarrow> False | Some (m, None) \<Rightarrow> payload = None
     | Some (m, Some t) \<Rightarrow> (\<exists>w. payload = Some w \<and> faithful fo w t \<and> \<not> object_json w)" by auto
  then obtain m T where f: "find_first (\<lambda>(m, t). m = n) Cs = Some (m, T)" by (auto split: option.splits)
  then have "m = n" by (auto dest: find_first_Some)
  with p f have n: "v = VVariant n payload" "find_first (\<lambda>(m, t). m = n) Cs = Some (n, T)"
    "case T of None \<Rightarrow> payload = None | Some T \<Rightarrow> (\<exists>w. payload = Some w \<and> faithful fo w T \<and> \<not> object_json w)"
    by (auto split: option.splits)
  from n(2) have "n \<in> fst ` set Cs" by (force dest: find_first_Some)
  then have "n \<in> fst ` set ss" using keys by (metis list.set_map)
  then obtain s where s: "(n, s) \<in> set ss" by force
  from cases_match_find [OF assms s] n(2) have r: "rel_option (emits fo) s T" by auto
  have uniq: "s' = s" if "(n, s') \<in> set ss" for s' using d s that by (metis eq_key_imp_eq_value)
  have "conforms (case_schema (m, s')) j \<longleftrightarrow> m = n" if "(m, s') \<in> set ss" for m s'
  proof (cases T)
    case None
    with r n(3) v(3) have "s = None" "j = JObject [(''type'', JString n)]"
      by (auto simp: n(1) variant_object_def)
    with uniq [of s'] that show ?thesis by (auto simp: conforms_case split: option.split)
  next
    case (Some T')
    obtain s0 where s0: "s = Some s0" "emits fo s0 T'" using r Some by (cases s) auto
    with Some obtain w k where w: "payload = Some w" "faithful fo w T'" "\<not> object_json w" "s = Some s0" "emits fo s0 T'"
      "val_to_json fo w = Inr k" "j = variant_object n (Some k)"
      using n(3) v(3) by (auto simp: n(1) map_ok_Inr_iff)
    have "\<not> (\<exists>obj. k = JObject obj)" using object_json_iff [OF w(6)] w(3) by blast
    then have "j = JObject (bt_insert ''value'' k (bt_insert ''type'' (JString n) []))"
      using w(7) by (cases k) (auto simp: variant_object_def Let_def)
    moreover have "fst ` set (bt_insert ''value'' k (bt_insert ''type'' (JString n) [])) = {''type'', ''value''}"
      by (metis (no_types, lifting) bt_insert_keys insert_commute list.set_map list.simps(8) list.set(1))
    moreover have "conforms s0 k" using w v(2) by (intro emitsD [OF w(5)]) (auto simp: n(1))
    ultimately show ?thesis
      using uniq [of s'] that w(4) by (auto simp: conforms_case split: option.splits)
  qed
  then show "conforms (one_of (map case_schema ss)) j" by (rule one_case [OF d s])
qed (auto simp: conforms_case dest!: one_of_member)

lemma emits_result:
  assumes "case ok of Some T \<Rightarrow> emits fo ok_schema T | None \<Rightarrow> ok_schema = null_schema"
    and "case err of Some T \<Rightarrow> emits fo err_schema T | None \<Rightarrow> err_schema = null_schema"
  shows "emits fo (one_of [arm_schema ''ok'' ok_schema, arm_schema ''error'' err_schema]) (TResult ok err)"
proof (rule emitsI)
  fix v j assume v: "faithful fo v (TResult ok err)" "flags_distinct v" "val_to_json fo v = Inr j"
  have ok: "conforms ok_schema k" if "v = VResult (Inl w)" "case w of None \<Rightarrow> k = JNull | Some w \<Rightarrow> val_to_json fo w = Inr k" for w k
    using assms(1) v(1,2) that by (auto simp: conforms_scalar intro: emitsD split: option.splits)
  have err: "conforms err_schema k" if "v = VResult (Inr w)" "case w of None \<Rightarrow> k = JNull | Some w \<Rightarrow> val_to_json fo w = Inr k" for w k
    using assms(2) v(1,2) that by (auto simp: conforms_scalar intro: emitsD split: option.splits)
  obtain r where r: "v = VResult r" using v(1) by (auto split: option.splits)
  show "conforms (one_of [arm_schema ''ok'' ok_schema, arm_schema ''error'' err_schema]) j"
  proof (cases r)
    case (Inl w)
    then obtain k where "j = jobj [(''ok'', k)]" "case w of None \<Rightarrow> k = JNull | Some w \<Rightarrow> val_to_json fo w = Inr k"
      using v(3) r by (cases w) (auto simp: map_ok_Inr_iff)
    with ok [of w k] r Inl show ?thesis
      by (auto simp: conforms_one_of conforms_arm jobj_conforms bt_extend_def)
  next
    case (Inr w)
    then obtain k where "j = jobj [(''error'', k)]" "case w of None \<Rightarrow> k = JNull | Some w \<Rightarrow> val_to_json fo w = Inr k"
      using v(3) r by (cases w) (auto simp: map_ok_Inr_iff)
    with err [of w k] r Inr show ?thesis
      by (auto simp: conforms_one_of conforms_arm jobj_conforms bt_extend_def)
  qed
qed (simp add: conforms_one_of conforms_arm)

interpretation results: schema_relation "emits fo" "\<lambda>T. \<forall>T'. T \<noteq> TOption T'" "\<lambda>K. K \<noteq> TString" for fo
  by unfold_locales (blast intro: emits_scalar emits_unsigned emits_signed emits_list emits_option emits_tuple emits_values
      emits_pairs emits_record emits_variant emits_result)+


subsection \<open>Where schema and conversion part\<close>

fun option_layers :: "wit_type \<Rightarrow> nat" where
  "option_layers (TOption T) = Suc (option_layers T)"
| "option_layers T = 0"

definition limits :: "json \<Rightarrow> wit_type \<Rightarrow> bool" where
  "limits s T \<longleftrightarrow>
     (conforms s JNull \<longleftrightarrow> odd (option_layers T)) \<and>
     (\<forall>K V obj. T = TMap K V \<and> K \<noteq> TString \<longrightarrow> \<not> conforms s (JObject obj)) \<and>
     (\<forall>Cs n P obj. T = TVariant Cs \<and> find_first (\<lambda>(m, t). m = n) Cs = Some (n, Some P) \<and>
        map_of obj ''type'' = Some (JString n) \<and> map_of obj ''value'' = None \<longrightarrow> \<not> conforms s (JObject obj))"

lemma limits_variant:
  assumes "cases_match limits ss Cs"
  shows "limits (one_of (map case_schema ss)) (TVariant Cs)"
proof -
  have "\<not> conforms (one_of (map case_schema ss)) (JObject obj)"
    if n: "find_first (\<lambda>(m, t). m = n) Cs = Some (n, Some P)" and t: "map_of obj ''type'' = Some (JString n)" "map_of obj ''value'' = None"
    for n P obj
  proof
    assume "conforms (one_of (map case_schema ss)) (JObject obj)"
    then obtain m s where m: "(m, s) \<in> set ss" "conforms (case_schema (m, s)) (JObject obj)" by (auto dest!: one_of_member)
    with t have "m = n" "s = None" by (auto simp: conforms_case split: option.splits)
    with cases_match_find [OF assms m(1)] n show False by auto
  qed
  moreover have "\<not> conforms (one_of (map case_schema ss)) JNull" by (auto simp: conforms_case dest!: one_of_member)
  ultimately show ?thesis by (simp add: limits_def) blast
qed

interpretation limits: schema_relation limits "\<lambda>T. True" "\<lambda>K. True"
proof unfold_locales
  show "limits (record_schema title ps req) (TRecord Fs)" if "fields_match limits ps req Fs" for title ps req Fs
    using that by (auto simp: limits_def conforms_record fields_match_def)
next
  show "limits (one_of (map case_schema ss)) (TVariant Cs)" if "cases_match limits ss Cs" for ss Cs
    by (rule limits_variant [OF that])
qed (auto simp: limits_def conforms_scalar conforms_bounded conforms_minimum conforms_char conforms_enum conforms_flags conforms_list
    conforms_sized conforms_values conforms_pairs conforms_one_of conforms_arm)

text \<open>
  Where the derived schema and the conversion of results disagree. \<open>null\<close> is valid for the schema
  of a type exactly if its number of nested options is odd, since two alternatives admit it otherwise,
  while an absent option is always written as \<open>null\<close>; an empty map whose keys are not strings is
  written as an object where the schema asks for an array; and a variant whose payload is written as
  an object is merged with it, where the schema requires a member \<open>value\<close>.
\<close>

theorem result_not_described:
  assumes "kinds_ok rs" and "wit_type_to_json_schema fuel rs t = Inr s" and "component_type fuel rs t = Inr T"
    and "is_invokable fuel rs t = Inr True"
  shows "(\<exists>j. val_to_json fo (VOption None) = Inr j \<and> (conforms s j \<longleftrightarrow> odd (option_layers T))) \<and>
    (\<forall>K V. T = TMap K V \<and> K \<noteq> TString \<longrightarrow> (\<exists>j. val_to_json fo (VMap []) = Inr j \<and> \<not> conforms s j)) \<and>
    (\<forall>Cs n P w obj. T = TVariant Cs \<and> find_first (\<lambda>(m, t). m = n) Cs = Some (n, Some P) \<and>
       val_to_json fo w = Inr (JObject obj) \<and> map_of obj ''type'' = None \<and> map_of obj ''value'' = None \<longrightarrow>
       (\<exists>j. val_to_json fo (VVariant n (Some w)) = Inr j \<and> \<not> conforms s j))"
proof -
  have l: "limits s T"
    by (rule limits.derived [OF assms(1-4) always_allowed])
  have "\<not> conforms s (variant_object n (Some (JObject obj)))"
    if "T = TVariant Cs" "find_first (\<lambda>(m, t). m = n) Cs = Some (n, Some P)" "map_of obj ''type'' = None" "map_of obj ''value'' = None"
    for Cs n P obj
  proof -
    have "map_of (bt_extend (bt_insert ''type'' (JString n) []) obj) ''type'' = Some (JString n)"
      "map_of (bt_extend (bt_insert ''type'' (JString n) []) obj) ''value'' = None"
      using that(3,4) [THEN map_of_rev_None] by (simp_all add: bt_get_extend map_add_def)
    with l that(1,2) show ?thesis unfolding limits_def by (simp add: variant_object_def Let_def)
  qed
  with l show ?thesis by (auto simp: limits_def bt_extend_def)
qed

subsection \<open>Examples\<close>

definition point_schema :: json where
  "point_schema = record_schema (Some ''point'') [(''x'', typed ''number'' []), (''y'', typed ''number'' [])] [''x'', ''y'']"

definition point_json :: json where
  "point_json = JObject [(''x'', JNumber (Float 0)), (''y'', JNumber (Float 1))]"

lemma sample_derived:
  "wit_type_to_json_schema 3 sample_resolve (WId 1) = Inr (one_of [point_schema, null_schema])"
  "component_type 3 sample_resolve (WId 1) = Inr (TOption (TRecord [(''x'', TFloat64), (''y'', TFloat64)]))"
  "is_invokable 3 sample_resolve (WId 1) = Inr True"
  by code_simp+

lemma sample_kinds: "kinds_ok sample_resolve"
  by (simp add: kinds_ok_def sample_resolve_def)

lemma sample_allowed: "type_allowed (\<lambda>T. \<forall>T'. T \<noteq> TOption T') (\<lambda>K. K \<noteq> TString) 3 sample_resolve (WId 1)"
  by (simp add: eval_nat_numeral get_type_def type_at_def sample_resolve_def)

lemma point_conforms: "conforms (one_of [point_schema, null_schema]) point_json"
  by (simp add: conforms_one_of point_schema_def conforms_record point_json_def conforms_scalar hm_has_iff)

theorem admitted_argument_converted_witness:
  "case json_to_val bit_floats point_json (TOption (TRecord [(''x'', TFloat64), (''y'', TFloat64)])) of
      Inr v \<Rightarrow> has_type v (TOption (TRecord [(''x'', TFloat64), (''y'', TFloat64)]))
    | Inl e \<Rightarrow> \<exists>name n. root_cause e = InvalidNumber name n \<and>
        (\<not> is_integer n \<or> name = ''s64'' \<and> (\<exists>w. n = PosInt w \<and> 2 ^ 63 \<le> unat w))"
  by (rule admitted_argument_converted [OF sample_kinds sample_derived point_conforms])


theorem result_not_described_witness:
  "\<exists>j. val_to_json bit_floats (VOption None) = Inr j \<and>
    (conforms (one_of [point_schema, null_schema]) j \<longleftrightarrow> odd (option_layers (TOption (TRecord [(''x'', TFloat64), (''y'', TFloat64)]))))"
  using result_not_described [OF sample_kinds sample_derived] by blast

end
