(* ===== verification/Component_Instance.thy ===== *)
theory Component_Instance
  imports Core_Types Conversion
begin

section \<open>Component instances (\<open>src/runtime/component.rs\<close>)\<close>

text \<open>
  The call of an exported function on an instance: finding the export, converting the arguments to the
  declared parameter types, running the guest, and turning its results into values or an error. The
  store and the instance of wasmtime are a state of type \<open>'st\<close>; what the code asks of them is the
  record \<open>instance_ops\<close>: export indices, the type of a function, and the run of a guest, which may
  change the state, ends with results or fails, by a trap or by \<open>wasi:cli/exit\<close>. A resource handle is
  the number that \<open>VResource\<close> carries.
\<close>

datatype call_val = CallJson json | CallResource nat

fun as_json :: "call_val \<Rightarrow> json option" where
  "as_json (CallJson v) = Some v"
| "as_json (CallResource r) = None"

fun as_resource :: "call_val \<Rightarrow> nat option" where
  "as_resource (CallResource r) = Some r"
| "as_resource (CallJson v) = None"

datatype call_failure = I32Exit int | Trap string

record ('st, 'e, 'f) instance_ops =
  io_get_export :: "'st \<Rightarrow> 'e option \<Rightarrow> string \<Rightarrow> 'e option"
  io_get_func :: "'st \<Rightarrow> 'e \<Rightarrow> 'f option"
  io_param_types :: "'st \<Rightarrow> 'f \<Rightarrow> wit_type list"
  io_call :: "'f \<Rightarrow> val list \<Rightarrow> 'st \<Rightarrow> 'st \<times> (call_failure + val list)"

datatype call_error =
    InterfaceNotFound string
  | FunctionNotInInterface string string
  | FunctionNotExported string
  | FunctionHandleInvalid string
  | WrongArgCount string nat nat
  | ParameterConversion nat conversion_error
  | CallTrapped string
  | ComponentExited int
  | TooManyResults nat
  | ReturnedError "string + json"
  | ReturnedErrorWithoutValue
  | ResultConversion string

definition resolve_function :: "('st, 'e, 'f) instance_ops \<Rightarrow> 'st \<Rightarrow> function_spec \<Rightarrow> call_error + 'e" where
  "resolve_function ops st f =
     (case fn_interface f of
        Some interface \<Rightarrow>
          attempt (ok_or (InterfaceNotFound (interface_display interface))
                     (io_get_export ops st None (interface_display interface))) (\<lambda>interface_export.
            ok_or (FunctionNotInInterface (fn_name f) (interface_display interface))
              (io_get_export ops st (Some interface_export) (fn_name f)))
      | None \<Rightarrow> ok_or (FunctionNotExported (fn_name f)) (io_get_export ops st None (fn_name f)))"

fun convert_arg :: "float_ops \<Rightarrow> nat \<times> call_val \<times> wit_type \<Rightarrow> call_error + val" where
  "convert_arg fo (index, CallResource r, t) = Inr (VResource r)"
| "convert_arg fo (index, CallJson j, t) = map_err (ParameterConversion index) (json_to_val fo j t)"

text \<open>What remains of a run: an exit with code 0 is a success without results.\<close>

fun call_outcome :: "call_failure + val list \<Rightarrow> call_error + val list" where
  "call_outcome (Inr results) = Inr results"
| "call_outcome (Inl (I32Exit code)) = (if code = 0 then Inr [] else Inl (ComponentExited code))"
| "call_outcome (Inl (Trap e)) = Inl (CallTrapped e)"

definition call_export ::
  "float_ops \<Rightarrow> ('st, 'e, 'f) instance_ops \<Rightarrow> 'e \<Rightarrow> call_val list \<Rightarrow> string \<Rightarrow> 'st \<Rightarrow> 'st \<times> (call_error + val list)" where
  "call_export fo ops export args name st =
     (case io_get_func ops st export of
        None \<Rightarrow> (st, Inl (FunctionHandleInvalid name))
      | Some func \<Rightarrow>
          (let params = io_param_types ops st func in
           if length args \<noteq> length params then (st, Inl (WrongArgCount name (length params) (length args)))
           else
             (case collect_res (map (convert_arg fo) (enumerate 0 (zip args params))) of
                Inl e \<Rightarrow> (st, Inl e)
              | Inr arg_vals \<Rightarrow> map_prod (\<lambda>st. st) call_outcome (io_call ops func arg_vals st))))"

fun convert_value :: "float_ops \<Rightarrow> val \<Rightarrow> call_error + call_val" where
  "convert_value fo (VResource r) = Inr (CallResource r)"
| "convert_value fo v = map_err ResultConversion (map_ok CallJson (val_to_json fo v))"

definition convert_results :: "float_ops \<Rightarrow> val list \<Rightarrow> call_error + call_val option" where
  "convert_results fo results =
     (if 1 < length results then Inl (TooManyResults (length results))
      else
        (case results of
           [] \<Rightarrow> Inr None
         | result # _ \<Rightarrow>
             (case result of
                VResult (Inl (Some ok_val)) \<Rightarrow> map_ok Some (convert_value fo ok_val)
              | VResult (Inl None) \<Rightarrow> Inr None
              | VResult (Inr (Some error_val)) \<Rightarrow> Inl (ReturnedError (val_to_json fo error_val))
              | VResult (Inr None) \<Rightarrow> Inl ReturnedErrorWithoutValue
              | v \<Rightarrow> map_ok Some (convert_value fo v))))"

definition call ::
  "float_ops \<Rightarrow> ('st, 'e, 'f) instance_ops \<Rightarrow> function_spec \<Rightarrow> call_val list \<Rightarrow> 'st \<Rightarrow> 'st \<times> (call_error + call_val option)" where
  "call fo ops f args st =
     (case resolve_function ops st f of
        Inl e \<Rightarrow> (st, Inl e)
      | Inr export \<Rightarrow>
          (case call_export fo ops export args (fn_name f) st of
             (st', Inl e) \<Rightarrow> (st', Inl e)
           | (st', Inr results) \<Rightarrow> (st', convert_results fo results)))"

subsection \<open>Calls are well typed\<close>

lemma convert_arg_typed:
  "convert_arg fo (i, a, t) = Inr v \<Longrightarrow> (\<exists>r. a = CallResource r \<and> v = VResource r) \<or> has_type v t"
  by (cases a) (auto simp: map_err_Inr_iff json_to_val_typed)

definition arg_passed :: "float_ops \<Rightarrow> call_val \<Rightarrow> wit_type \<Rightarrow> val \<Rightarrow> bool" where
  "arg_passed fo a t v \<longleftrightarrow>
     (case a of CallResource r \<Rightarrow> v = VResource r | CallJson j \<Rightarrow> json_to_val fo j t = Inr v \<and> has_type v t)"

lemma args_converted:
  assumes "collect_res (map (convert_arg fo) (enumerate n (zip args params))) = Inr vs" and "length args = length params"
  shows "list_all2 (\<lambda>(a, t) v. arg_passed fo a t v) (zip args params) vs"
  using assms
proof (induction args params arbitrary: n vs rule: list_induct2')
  case (4 a args t params)
  then obtain w ws where v: "vs = w # ws" "convert_arg fo (n, a, t) = Inr w"
    "collect_res (map (convert_arg fo) (enumerate (Suc n) (zip args params))) = Inr ws"
    by (auto simp: attempt_Inr_iff)
  from v(2) have "arg_passed fo a t w" by (cases a) (auto simp: arg_passed_def map_err_Inr_iff json_to_val_typed)
  with v 4 show ?case by simp
qed auto

text \<open>
  A guest runs only on well-typed arguments. A call either ends with an error before the guest runs,
  which leaves the instance as it was, or it runs the exported function of the given name once, on one
  value per declared parameter: the handle of a resource as it is, and JSON converted to a value of
  the declared type; and what it answers is decided by the outcome of that run alone.
\<close>

lemma call_runs_typed:
  assumes "call fo ops f args st = (st', r)"
  shows "(st' = st \<and> (\<exists>e. r = Inl e)) \<or>
    (\<exists>export func vs. resolve_function ops st f = Inr export \<and> io_get_func ops st export = Some func \<and>
       length args = length (io_param_types ops st func) \<and>
       list_all2 (\<lambda>(a, t) v. arg_passed fo a t v) (zip args (io_param_types ops st func)) vs \<and>
       st' = fst (io_call ops func vs st) \<and>
       r = attempt (call_outcome (snd (io_call ops func vs st))) (convert_results fo))"
proof (cases "resolve_function ops st f")
  case (Inl e)
  with assms show ?thesis by (auto simp: call_def)
next
  case (Inr export)
  show ?thesis
  proof (cases "io_get_func ops st export")
    case None
    with assms Inr show ?thesis by (auto simp: call_def call_export_def)
  next
    case (Some func)
    let ?params = "io_param_types ops st func"
    show ?thesis
    proof (cases "length args = length ?params \<and> (\<exists>vs. collect_res (map (convert_arg fo) (enumerate 0 (zip args ?params))) = Inr vs)")
      case False
      with assms Inr Some show ?thesis by (auto simp: call_def call_export_def Let_def split: sum.splits if_splits)
    next
      case True
      then obtain vs where vs: "collect_res (map (convert_arg fo) (enumerate 0 (zip args ?params))) = Inr vs" by blast
      have "st' = fst (io_call ops func vs st) \<and> r = attempt (call_outcome (snd (io_call ops func vs st))) (convert_results fo)"
        using assms Inr Some True vs
        by (cases "io_call ops func vs st"; cases "call_outcome (snd (io_call ops func vs st))")
          (auto simp: call_def call_export_def)
      with Inr Some True args_converted [OF vs] show ?thesis by blast
    qed
  qed
qed

text \<open>Only a value of a \<open>result\<close> type can turn a call into an error.\<close>

lemma convert_results_plain: "(\<And>r. v \<noteq> VResult r) \<Longrightarrow> convert_results fo [v] = map_ok Some (convert_value fo v)"
  by (cases v) (auto simp: convert_results_def)

lemma convert_value_json: "(\<And>r. v \<noteq> VResource r) \<Longrightarrow> convert_value fo v = map_err ResultConversion (map_ok CallJson (val_to_json fo v))"
  by (cases v) auto

end
