(* ===== verification/Typed_Calls.thy ===== *)
theory Typed_Calls
  imports Wit_Conformance Component_Instance
begin

section \<open>Calls with valid arguments\<close>

text \<open>
  The composition of the parser, which describes the parameters of a function by JSON schemas, and the
  instance, which converts arguments to the parameter types that wasmtime reports: what is valid for
  the schemas reaches the guest. That wasmtime reports the component types of the function's WIT is the hypothesis
  \<open>reported\<close>.
\<close>

definition reported :: "resolve \<Rightarrow> wit_function \<Rightarrow> wit_type list \<Rightarrow> bool" where
  "reported rs func Ts \<longleftrightarrow> list_all2 (\<lambda>(name, t) T. component_type (wit_fuel rs) rs t = Inr T) (wf_params func) Ts"

lemma parsed_function_params:
  assumes "parse_function rs func interface = Inr f" and "fn_is_invokable f"
  shows "list_all2 (\<lambda>(name, t) p. wit_type_to_json_schema (wit_fuel rs) rs t = Inr (fp_json_schema p) \<and>
      is_invokable (wit_fuel rs) rs t = Inr True) (wf_params func) (fn_params f)"
proof -
  obtain params where p: "collect_res (map (parse_param rs) (wf_params func)) = Inr params" "fn_params f = params"
    and i: "all_res (is_invokable (wit_fuel rs) rs) (map snd (wf_params func) @ (case wf_result func of Some t \<Rightarrow> [t] | None \<Rightarrow> [])) =
      Inr (fn_is_invokable f)"
    using assms(1) by (auto simp: parse_function_def attempt_Inr_iff function_new_def)
  have inv: "is_invokable (wit_fuel rs) rs t = Inr True" if "(name, t) \<in> set (wf_params func)" for name t
    using i assms(2) that by (force simp: all_res_True)
  have "list_all2 (\<lambda>x p. parse_param rs x = Inr p) (wf_params func) params"
    using p(1) by (simp add: collect_res_list_all2)
  then show ?thesis
    unfolding p(2) by (rule list.rel_mono_strong) (auto simp: parse_param_def attempt_Inr_iff map_ok_Inr_iff dest: inv)
qed

lemma converted_arguments:
  assumes "list_all2 (\<lambda>j T. fits (json_to_val fo j T)) args Ts"
  shows "case collect_res (map (convert_arg fo) (enumerate n (zip (map CallJson args) Ts))) of
      Inr vs \<Rightarrow> list_all2 (\<lambda>(j, T) v. json_to_val fo j T = Inr v \<and> has_type v T) (zip args Ts) vs
    | Inl e \<Rightarrow> \<exists>index d. e = ParameterConversion index d \<and> number_error d"
  using assms
proof (induction args Ts arbitrary: n rule: list_all2_induct)
  case (Cons j js T Ts)
  show ?case
  proof (cases "json_to_val fo j T")
    case (Inl d)
    with Cons.hyps(1) show ?thesis by (simp add: fits_def)
  next
    case (Inr v)
    with Cons.IH [of "Suc n"] json_to_val_typed [OF Inr] show ?thesis
      by (cases "collect_res (map (convert_arg fo) (enumerate (Suc n) (zip (map CallJson js) Ts)))") auto
  qed
qed simp

lemma valid_arguments_fit:
  assumes "kinds_ok rs" and "parse_function rs func interface = Inr f" and "fn_is_invokable f"
    and "reported rs func Ts" and "list_all2 (\<lambda>p j. conforms (fp_json_schema p) j) (fn_params f) args"
  shows "list_all2 (\<lambda>j T. fits (json_to_val fo j T)) args Ts"
proof -
  note p = parsed_function_params [OF assms(2,3)]
  have fit: "fits (json_to_val fo j T)"
    if "wit_type_to_json_schema (wit_fuel rs) rs t = Inr s" "is_invokable (wit_fuel rs) rs t = Inr True"
      "component_type (wit_fuel rs) rs t = Inr T" "conforms s j" for t s T j
    using arguments.derived [OF assms(1) that(1,3,2) always_allowed, of fo] that(4) by (simp add: accepts_def)
  have len: "length (fn_params f) = length (wf_params func)" "length Ts = length (wf_params func)" "length args = length (wf_params func)"
    using list_all2_lengthD [OF p] list_all2_lengthD [OF assms(4) [unfolded reported_def]] list_all2_lengthD [OF assms(5)] by simp_all
  show ?thesis
  proof (rule list_all2_all_nthI)
    fix i assume i: "i < length args"
    with len have "i < length (wf_params func)" "i < length (fn_params f)" "i < length Ts" by simp_all
    with list_all2_nthD [OF p, of i] list_all2_nthD [OF assms(4) [unfolded reported_def], of i] list_all2_nthD2 [OF assms(5) i]
    show "fits (json_to_val fo (args ! i) (Ts ! i))" by (auto split: prod.splits intro: fit)
  qed (simp add: len)
qed

text \<open>
  C10. A call with valid arguments reaches the guest. If a function is parsed from WIT and marked
  invokable, and the JSON arguments are valid for the schemas of its parameters, then calling its export runs the guest once,
  on the values to which the arguments convert, each of the declared type; no count of arguments and no conversion is at
  fault, but for a number with a fraction or exponent, or an \<open>s64\<close> above the largest signed 64-bit
  integer, which the schemas let through.
\<close>

theorem valid_call_reaches_guest:
  assumes "kinds_ok rs" and "parse_function rs func interface = Inr f" and "fn_is_invokable f"
    and "resolve_function ops st f = Inr export" and "io_get_func ops st export = Some g"
    and "reported rs func (io_param_types ops st g)"
    and "list_all2 (\<lambda>p j. conforms (fp_json_schema p) j) (fn_params f) args"
    and "call fo ops f (map CallJson args) st = (st', r)"
  shows "(\<exists>vs. list_all2 (\<lambda>(j, T) v. json_to_val fo j T = Inr v \<and> has_type v T) (zip args (io_param_types ops st g)) vs \<and>
      st' = fst (io_call ops g vs st) \<and> r = attempt (call_outcome (snd (io_call ops g vs st))) (convert_results fo)) \<or>
    (\<exists>index d name n. st' = st \<and> r = Inl (ParameterConversion index d) \<and> root_cause d = InvalidNumber name n \<and>
      (\<not> is_integer n \<or> name = ''s64'' \<and> (\<exists>w. n = PosInt w \<and> 2 ^ 63 \<le> unat w)))"
proof -
  let ?Ts = "io_param_types ops st g"
  let ?conv = "collect_res (map (convert_arg fo) (enumerate 0 (zip (map CallJson args) ?Ts)))"
  have fit: "list_all2 (\<lambda>j T. fits (json_to_val fo j T)) args ?Ts"
    by (rule valid_arguments_fit [OF assms(1-3,6,7)])
  note conv = converted_arguments [OF fit, of 0]
  have len: "length (map CallJson args) = length ?Ts" using list_all2_lengthD [OF fit] by simp
  show ?thesis
  proof (cases ?conv)
    case (Inl e)
    with assms(4,5,8) len have "st' = st" "r = Inl e" by (auto simp: call_def call_export_def)
    with conv Inl show ?thesis by (auto simp: number_error_def)
  next
    case (Inr vs)
    have "st' = fst (io_call ops g vs st) \<and> r = attempt (call_outcome (snd (io_call ops g vs st))) (convert_results fo)"
      using assms(4,5,8) len Inr
      by (cases "io_call ops g vs st"; cases "call_outcome (snd (io_call ops g vs st))") (auto simp: call_def call_export_def)
    with conv Inr show ?thesis by auto
  qed
qed

subsection \<open>Example\<close>

definition locate :: wit_function where
  "locate = \<lparr> wf_name = ''locate'', wf_params = [(''at'', WId 1)], wf_result = None, wf_docs = None \<rparr>"

definition locate_spec :: function_spec where
  "locate_spec = function_new None ''locate'' []
     [\<lparr> fp_name = ''at'', fp_is_optional = True, fp_json_schema = one_of [point_schema, null_schema] \<rparr>] None True"

definition locate_ops :: "(val list, string, string) instance_ops" where
  "locate_ops =
     \<lparr> io_get_export = (\<lambda>st parent n. Some n), io_get_func = (\<lambda>st e. Some e),
       io_param_types = (\<lambda>st f. [TOption (TRecord [(''x'', TFloat64), (''y'', TFloat64)])]),
       io_call = (\<lambda>f vs st. (vs, Inr [])) \<rparr>"

theorem valid_call_reaches_guest_witness:
  "\<exists>st' r. call bit_floats locate_ops locate_spec (map CallJson [point_json]) [] = (st', r) \<and> length st' \<le> 1"
proof -
  obtain st' r where run: "call bit_floats locate_ops locate_spec (map CallJson [point_json]) [] = (st', r)" by force
  have spec: "parse_function sample_resolve locate None = Inr locate_spec" by code_simp
  have inv: "fn_is_invokable locate_spec" by (simp add: locate_spec_def function_new_def)
  have export: "resolve_function locate_ops [] locate_spec = Inr ''locate''" by code_simp
  have g: "io_get_func locate_ops [] ''locate'' = Some ''locate''" by (simp add: locate_ops_def)
  have types: "reported sample_resolve locate (io_param_types locate_ops [] ''locate'')" by code_simp
  have valid: "list_all2 (\<lambda>p j. conforms (fp_json_schema p) j) (fn_params locate_spec) [point_json]"
    using point_conforms by (simp add: locate_spec_def function_new_def)
  from valid_call_reaches_guest [OF sample_kinds spec inv export g types valid run] have "length st' \<le> 1"
    by (auto simp: locate_ops_def dest: list_all2_lengthD)
  with run show ?thesis by blast
qed

end
