(* ===== verification/Runtime_Host.thy ===== *)
theory Runtime_Host
  imports Registry Selector Message Component_Instance
begin

section \<open>The component host (\<open>src/runtime/host.rs\<close>)\<close>

text \<open>
  The host knows the components of the registries, decides what an instance may reach (the interfaces
  linked into it, its WASI context, its HTTP context and hooks, the states of its host capabilities),
  and invokes functions on fresh instances. wasmtime is a parameter: adding interfaces to a linker,
  opening a host directory, making the state of a host capability, and instantiating a binary. A guest
  acts on a world of type \<open>'s\<close>, which the state of its instance includes.
\<close>

datatype host_error =
    UnknownComponent string
  | UnknownFunction string string
  | UnknownCapability string
  | CapabilityWithoutInstance string
  | LinkFailed string
  | PreopensNotArray string
  | PreopenField string nat string
  | PreopenPerms string nat string
  | PreopenUnavailable string nat string
  | CapabilityStateFailed string
  | DuplicateState string
  | InstantiationFailed string
  | CallFailed call_error
  | ReturnedResource string

record ('b, 'c) component_host =
  ho_components :: "component hmap"
  ho_component_registry :: "'b component_registry"
  ho_capability_registry :: "'c capability_registry"

definition component_of_spec :: "'b component_spec \<Rightarrow> component" where
  "component_of_spec spec =
     \<lparr> c_metadata = \<lparr> md_name = sp_name spec, md_namespace = sp_namespace spec, md_package = sp_package spec,
         md_labels = sp_labels spec, md_dependents = Some (sp_dependents spec), md_exports = sp_exports spec \<rparr>,
       c_functions = sp_functions spec \<rparr>"

definition component_host_new :: "'b component_registry \<Rightarrow> 'c capability_registry \<Rightarrow> ('b, 'c) component_host" where
  "component_host_new component_registry capability_registry =
     \<lparr> ho_components = hm_extend [] (map (\<lambda>spec. (sp_name spec, component_of_spec spec)) (get_components component_registry)),
       ho_component_registry = component_registry, ho_capability_registry = capability_registry \<rparr>"

definition host_get_component :: "('b, 'c) component_host \<Rightarrow> string \<Rightarrow> component option" where
  "host_get_component host name = hm_get name (ho_components host)"

definition host_list_components :: "('b, 'c) component_host \<Rightarrow> selector option \<Rightarrow> component list" where
  "host_list_components host sel =
     (case sel of
        Some sel \<Rightarrow> filter (\<lambda>c. selector_matches sel (to_selectable (c_metadata c))) (map snd (ho_components host))
      | None \<Rightarrow> map snd (ho_components host))"

subsection \<open>Linking\<close>

text \<open>What the code adds to a linker: the P2 bundle, a P3 package, one P2 interface, the HTTP
  interfaces of P2, \<open>wasi:io\<close>, or the interfaces of a host capability.\<close>

datatype 'c link_item = LinkBundleP2 | LinkP3 string | LinkP2 string | LinkHttpP2 | LinkIo | LinkHost 'c

definition wasi_links :: "string \<Rightarrow> wasi_version \<Rightarrow> 'c link_item list option" where
  "wasi_links base version =
    (if base = ''wasi:cli'' \<and> version = P3 then Some [LinkP3 ''cli'']
     else if base = ''wasi:cli'' \<and> version = P2 then
       Some [LinkP2 ''cli/stdin'', LinkP2 ''cli/stdout'', LinkP2 ''cli/stderr'', LinkP2 ''cli/environment'']
     else if base = ''wasi:clocks'' \<and> version = P3 then Some [LinkP3 ''clocks'']
     else if base = ''wasi:clocks'' \<and> version = P2 then Some [LinkP2 ''clocks/wall-clock'', LinkP2 ''clocks/monotonic-clock'']
     else if base = ''wasi:filesystem'' \<and> version = P3 then Some [LinkP3 ''filesystem'']
     else if base = ''wasi:filesystem'' \<and> version = P2 then
       Some [LinkP2 ''filesystem/types'', LinkP2 ''filesystem/preopens'', LinkIo]
     else if base = ''wasi:http'' \<and> version = P3 then Some [LinkP3 ''http'']
     else if base = ''wasi:http'' \<and> version = P2 then Some [LinkHttpP2, LinkIo]
     else if base = ''wasi:io'' \<and> version = P2 then Some [LinkIo]
     else if base = ''wasi:random'' \<and> version = P3 then Some [LinkP3 ''random'']
     else if base = ''wasi:random'' \<and> version = P2 then
       Some [LinkP2 ''random/random'', LinkP2 ''random/insecure'', LinkP2 ''random/insecure-seed'']
     else if base = ''wasi:sockets'' \<and> version = P3 then Some [LinkP3 ''sockets'']
     else if base = ''wasi:sockets'' \<and> version = P2 then
       Some [LinkP2 ''sockets/tcp'', LinkP2 ''sockets/udp'', LinkP2 ''sockets/network'', LinkP2 ''sockets/instance-network'',
         LinkP2 ''sockets/ip-name-lookup'', LinkP2 ''sockets/tcp-create-socket'', LinkP2 ''sockets/udp-create-socket'']
     else None)"

record ('l, 'c) linker_ops =
  lk_new :: 'l
  lk_add :: "'c link_item \<Rightarrow> 'l \<Rightarrow> string + 'l"

text \<open>The items that a capability stands for; one that is not registered is passed over.\<close>

definition capability_links :: "'c capability_registry \<Rightarrow> string \<Rightarrow> host_error + 'c link_item list" where
  "capability_links reg name =
     (case get_capability name reg of
        None \<Rightarrow> Inr []
      | Some cap \<Rightarrow>
          if starts_with (ca_kind cap) ''wasi:'' then
            if ca_kind cap = ''wasi:p2'' then Inr [LinkBundleP2]
            else (let (base, version) = split_wasi_kind (ca_kind cap) in ok_or (UnknownCapability (ca_kind cap)) (wasi_links base version))
          else ok_or (CapabilityWithoutInstance name) (map_option (\<lambda>inst. [LinkHost inst]) (ca_instance cap)))"

definition create_linker ::
  "('l, 'c) linker_ops \<Rightarrow> 'c capability_registry \<Rightarrow> string list \<Rightarrow> host_error + 'l" where
  "create_linker lops reg caps =
     fold_res (\<lambda>linker name. attempt (capability_links reg name) (\<lambda>items.
       fold_res (\<lambda>linker item. map_err LinkFailed (lk_add lops item linker)) linker items)) (lk_new lops) caps"

subsection \<open>The WASI context\<close>

datatype dir_perm = DirRead | DirMutate
datatype file_perm = FileRead | FileWrite

record preopen =
  po_host :: string
  po_guest :: string
  po_dir_perms :: "dir_perm list"
  po_file_perms :: "file_perm list"

record wasi_config =
  wc_envs :: "(string \<times> string) list"
  wc_stdin :: bool
  wc_stdout :: bool
  wc_stderr :: bool
  wc_network :: bool
  wc_ip_name_lookup :: bool
  wc_preopens :: "preopen list"

definition wasi_config_new :: wasi_config where
  "wasi_config_new = \<lparr> wc_envs = [], wc_stdin = False, wc_stdout = False, wc_stderr = False, wc_network = False,
     wc_ip_name_lookup = False, wc_preopens = [] \<rparr>"

definition inherit_stdio :: "wasi_config \<Rightarrow> wasi_config" where
  "inherit_stdio wc = wc \<lparr> wc_stdin := True, wc_stdout := True, wc_stderr := True \<rparr>"

definition preopen_field :: "string \<Rightarrow> nat \<Rightarrow> json \<Rightarrow> string \<Rightarrow> host_error + string" where
  "preopen_field capability_name index entry name =
     ok_or (PreopenField capability_name index name) (and_then (json_get name entry) as_str)"

definition preopen_perms :: "string \<Rightarrow> nat \<Rightarrow> string \<Rightarrow> host_error + dir_perm list \<times> file_perm list" where
  "preopen_perms capability_name index perms =
     (if perms = ''read-only'' then Inr ([DirRead], [FileRead])
      else if perms = ''read-write'' then Inr ([DirRead, DirMutate], [FileRead, FileWrite])
      else Inl (PreopenPerms capability_name index perms))"

definition add_preopen ::
  "(string \<Rightarrow> bool) \<Rightarrow> string \<Rightarrow> wasi_config \<Rightarrow> nat \<times> json \<Rightarrow> host_error + wasi_config" where
  "add_preopen can_open capability_name wc ie =
     (let (index, entry) = ie in
      attempt (preopen_field capability_name index entry ''host'') (\<lambda>host.
      attempt (preopen_field capability_name index entry ''guest'') (\<lambda>guest.
      attempt (preopen_field capability_name index entry ''perms'') (\<lambda>perms.
      attempt (preopen_perms capability_name index perms) (\<lambda>(dir_perms, file_perms).
        if can_open host then
          Inr (wc \<lparr> wc_preopens := wc_preopens wc @
            [\<lparr> po_host = host, po_guest = guest, po_dir_perms = dir_perms, po_file_perms = file_perms \<rparr>] \<rparr>)
        else Inl (PreopenUnavailable capability_name index host))))))"

definition add_preopens ::
  "(string \<Rightarrow> bool) \<Rightarrow> string \<Rightarrow> json hmap \<Rightarrow> wasi_config \<Rightarrow> host_error + wasi_config" where
  "add_preopens can_open capability_name props wc =
     (case hm_get ''preopens'' props of
        None \<Rightarrow> Inr wc
      | Some v \<Rightarrow>
          attempt (ok_or (PreopensNotArray capability_name) (as_array v)) (\<lambda>entries.
            fold_res (add_preopen can_open capability_name) wc (enumerate 0 entries)))"

definition prop_true :: "string \<Rightarrow> json hmap \<Rightarrow> bool" where
  "prop_true key props \<longleftrightarrow> and_then (hm_get key props) as_bool = Some True"

definition configure_capability ::
  "(string \<Rightarrow> bool) \<Rightarrow> 'c capability_registry \<Rightarrow> wasi_config \<Rightarrow> string \<Rightarrow> host_error + wasi_config" where
  "configure_capability can_open reg wc name =
     (case get_capability name reg of
        None \<Rightarrow> Inr wc
      | Some cap \<Rightarrow>
          (let props = ca_properties cap; base = fst (split_wasi_kind (ca_kind cap)) in
           if base = ''wasi:p2'' then
             add_preopens can_open name props ((inherit_stdio wc) \<lparr> wc_network := True, wc_ip_name_lookup := True \<rparr>)
           else if base = ''wasi:cli'' then
             Inr (if prop_true ''inherit-stdio'' props then inherit_stdio wc
                  else wc \<lparr> wc_stdin := wc_stdin wc \<or> prop_true ''inherit-stdin'' props,
                            wc_stdout := wc_stdout wc \<or> prop_true ''inherit-stdout'' props,
                            wc_stderr := wc_stderr wc \<or> prop_true ''inherit-stderr'' props \<rparr>)
           else if base = ''wasi:filesystem'' then add_preopens can_open name props wc
           else if base = ''wasi:sockets'' then
             Inr (wc \<lparr> wc_network := wc_network wc \<or> prop_true ''inherit-network'' props,
                       wc_ip_name_lookup := wc_ip_name_lookup wc \<or> prop_true ''allow-ip-name-lookup'' props \<rparr>)
           else Inr wc))"

definition build_wasi ::
  "(string \<Rightarrow> bool) \<Rightarrow> 'c capability_registry \<Rightarrow> string list \<Rightarrow> (string \<times> string) list \<Rightarrow> host_error + wasi_config" where
  "build_wasi can_open reg caps env_vars =
     fold_res (configure_capability can_open reg)
       (if env_vars \<noteq> [] then wasi_config_new \<lparr> wc_envs := env_vars \<rparr> else wasi_config_new) caps"

subsection \<open>HTTP and host state\<close>

definition find_http_capability :: "'c capability_registry \<Rightarrow> string list \<Rightarrow> 'c capability option" where
  "find_http_capability reg caps =
     and_then (find_first (\<lambda>name. is_some_and (get_capability name reg) (\<lambda>cap. fst (split_wasi_kind (ca_kind cap)) = ''wasi:http'')) caps)
       (\<lambda>name. get_capability name reg)"

definition http_hooks_default :: http_hooks where
  "http_hooks_default = \<lparr> h2c_for_grpc = False \<rparr>"

text \<open>\<open>create_state_boxed\<close>: the type and the value of the state of a host capability, if it has one.\<close>

definition add_extension ::
  "('c \<Rightarrow> string + ('t \<times> 'x) option) \<Rightarrow> 'c capability_registry \<Rightarrow> ('t \<times> 'x) list \<Rightarrow> string \<Rightarrow> host_error + ('t \<times> 'x) list" where
  "add_extension create_state reg extensions name =
     (case get_capability name reg of
        None \<Rightarrow> Inr extensions
      | Some cap \<Rightarrow>
          if starts_with (ca_kind cap) ''wasi:'' then Inr extensions
          else
            (case ca_instance cap of
               None \<Rightarrow> Inr extensions
             | Some inst \<Rightarrow>
                 attempt (map_err CapabilityStateFailed (create_state inst)) (\<lambda>state.
                   (case state of
                      None \<Rightarrow> Inr extensions
                    | Some (type_id, boxed) \<Rightarrow>
                        if map_of extensions type_id = None then Inr (set_extension type_id boxed extensions)
                        else Inl (DuplicateState name)))))"

record ('t, 'x) component_state =
  cs_wasi :: wasi_config
  cs_http :: bool
  cs_http_hooks :: http_hooks
  cs_extensions :: "('t \<times> 'x) list"

subsection \<open>Instantiation and invocation\<close>

record ('b, 'c, 'l, 't, 'x, 'i, 's) host_ops =
  hp_linker :: "('l, 'c) linker_ops"
  hp_can_open :: "string \<Rightarrow> bool"
  hp_create_state :: "'c \<Rightarrow> string + ('t \<times> 'x) option"
  hp_instantiate :: "'b \<Rightarrow> 'l \<Rightarrow> ('t, 'x) component_state \<Rightarrow> 's \<Rightarrow> 's \<times> (string + 'i)"

definition instance_state ::
  "('b, 'c, 'l, 't, 'x, 'i, 's) host_ops \<Rightarrow> 'c capability_registry \<Rightarrow> string list \<Rightarrow> (string \<times> string) list \<Rightarrow>
   host_error + ('t, 'x) component_state" where
  "instance_state ops reg caps env_vars =
     attempt (build_wasi (hp_can_open ops) reg caps env_vars) (\<lambda>wasi.
     attempt (fold_res (add_extension (hp_create_state ops) reg) [] caps) (\<lambda>extensions.
       Inr \<lparr> cs_wasi = wasi, cs_http = (find_http_capability reg caps \<noteq> None),
             cs_http_hooks = (case find_http_capability reg caps of
                Some cap \<Rightarrow> http_hooks_from_properties (ca_properties cap)
              | None \<Rightarrow> http_hooks_default),
             cs_extensions = extensions \<rparr>))"

definition instantiate_from_bytes ::
  "('b, 'c, 'l, 't, 'x, 'i, 's) host_ops \<Rightarrow> 'b \<Rightarrow> string list \<Rightarrow> 'c capability_registry \<Rightarrow> (string \<times> string) list \<Rightarrow>
   's \<Rightarrow> 's \<times> (host_error + 'i)" where
  "instantiate_from_bytes ops component_bytes caps reg env_vars s =
     (case create_linker (hp_linker ops) reg caps of
        Inl e \<Rightarrow> (s, Inl e)
      | Inr linker \<Rightarrow>
          (case instance_state ops reg caps env_vars of
             Inl e \<Rightarrow> (s, Inl e)
           | Inr state \<Rightarrow> map_prod (\<lambda>s. s) (map_err InstantiationFailed) (hp_instantiate ops component_bytes linker state s)))"

fun result_json :: "string \<Rightarrow> call_val option \<Rightarrow> host_error + json" where
  "result_json name None = Inr JNull"
| "result_json name (Some (CallJson v)) = Inr v"
| "result_json name (Some (CallResource r)) = Inl (ReturnedResource name)"

definition invoker_invoke ::
  "float_ops \<Rightarrow> ('b, 'c, 'l, 't, 'x, 'i, 's) host_ops \<Rightarrow> ('i \<times> 's, 'e, 'f) instance_ops \<Rightarrow> 'b \<Rightarrow> string list \<Rightarrow>
   'c capability_registry \<Rightarrow> function_spec \<Rightarrow> json list \<Rightarrow> (string \<times> string) list \<Rightarrow> 's \<Rightarrow> 's \<times> (host_error + json)" where
  "invoker_invoke fo ops iops component_bytes caps reg f args env_vars s =
     (case instantiate_from_bytes ops component_bytes caps reg env_vars s of
        (s', Inl e) \<Rightarrow> (s', Inl e)
      | (s', Inr inst) \<Rightarrow>
          (case call fo iops f (map CallJson args) (inst, s') of
             (st, r) \<Rightarrow> (snd st, attempt (map_err CallFailed r) (result_json (fn_name f)))))"

definition host_invoke ::
  "float_ops \<Rightarrow> ('b, 'c, 'l, 't, 'x, 'i, 's) host_ops \<Rightarrow> ('i \<times> 's, 'e, 'f) instance_ops \<Rightarrow> ('b, 'c) component_host \<Rightarrow>
   string \<Rightarrow> string \<Rightarrow> json list \<Rightarrow> (string \<times> string) list \<Rightarrow> 's \<Rightarrow> 's \<times> (host_error + json)" where
  "host_invoke fo ops iops host component_name function_name args env_vars s =
     (case get_component component_name (ho_component_registry host) of
        None \<Rightarrow> (s, Inl (UnknownComponent component_name))
      | Some spec \<Rightarrow>
          (case hm_get function_name (sp_functions spec) of
             None \<Rightarrow> (s, Inl (UnknownFunction function_name component_name))
           | Some f \<Rightarrow>
               invoker_invoke fo ops iops (sp_bytes spec) (sp_capabilities spec) (ho_capability_registry host) f args env_vars s))"

definition host_instantiate ::
  "('b, 'c, 'l, 't, 'x, 'i, 's) host_ops \<Rightarrow> ('b, 'c) component_host \<Rightarrow> string \<Rightarrow> (string \<times> string) list \<Rightarrow> 's \<Rightarrow> 's \<times> (host_error + 'i)" where
  "host_instantiate ops host component_name env_vars s =
     (case get_component component_name (ho_component_registry host) of
        None \<Rightarrow> (s, Inl (UnknownComponent component_name))
      | Some spec \<Rightarrow> instantiate_from_bytes ops (sp_bytes spec) (sp_capabilities spec) (ho_capability_registry host) env_vars s)"

subsection \<open>Outgoing requests\<close>

record out_request =
  or_headers :: "(string \<times> string) list"
  or_scheme :: "string option"

text \<open>\<open>HeaderMap::insert\<close>: the value replaces all of the name. A header value may hold any byte but
  control characters; \<open>to_str\<close> reads one of visible ASCII.\<close>

definition header_value_ok :: "string \<Rightarrow> bool" where
  "header_value_ok v = list_all (\<lambda>c. of_char c = (9 :: nat) \<or> (32 \<le> (of_char c :: nat) \<and> (of_char c :: nat) \<noteq> 127)) v"

definition header_text :: "string \<Rightarrow> string option" where
  "header_text v = (if list_all (\<lambda>c. of_char c = (9 :: nat) \<or> (32 \<le> (of_char c :: nat) \<and> (of_char c :: nat) < 127)) v then Some v else None)"

fun header_insert :: "string \<Rightarrow> string \<Rightarrow> (string \<times> string) list \<Rightarrow> (string \<times> string) list" where
  "header_insert k v [] = [(k, v)]"
| "header_insert k v ((k', v') # hs) =
     (if k' = k then (k, v) # filter (\<lambda>(n, _). n \<noteq> k) hs else (k', v') # header_insert k v hs)"

definition propagate_headers :: "propagation_context option \<Rightarrow> out_request \<Rightarrow> out_request" where
  "propagate_headers ctx request =
     (case ctx of
        None \<Rightarrow> request
      | Some c \<Rightarrow>
          request \<lparr> or_headers := fold (\<lambda>key hs.
            (case hm_get key (pc_entries c) of
               Some v \<Rightarrow> if header_value_ok v then header_insert key v hs else hs
             | None \<Rightarrow> hs)) propagated_headers (or_headers request) \<rparr>)"

definition is_grpc :: "out_request \<Rightarrow> bool" where
  "is_grpc request =
     is_some_and (and_then (hm_get ''content-type'' (or_headers request)) header_text)
       (\<lambda>ct. starts_with ct ''application/grpc'')"

datatype sending = HttpProtocolError | SendGrpc out_request | SendDefault out_request

definition send_request :: "http_hooks \<Rightarrow> propagation_context option \<Rightarrow> out_request \<Rightarrow> sending" where
  "send_request hooks ctx request =
     (let request = propagate_headers ctx request in
      if h2c_for_grpc hooks \<and> is_grpc request then
        if or_scheme request = Some ''https'' then HttpProtocolError else SendGrpc request
      else SendDefault request)"

subsection \<open>Access is what the capabilities grant\<close>

definition describes_preopen :: "json \<Rightarrow> preopen \<Rightarrow> bool" where
  "describes_preopen entry po \<longleftrightarrow>
     json_get ''host'' entry = Some (JString (po_host po)) \<and> json_get ''guest'' entry = Some (JString (po_guest po)) \<and>
     (json_get ''perms'' entry = Some (JString ''read-only'') \<and> po_dir_perms po = [DirRead] \<and> po_file_perms po = [FileRead] \<or>
      json_get ''perms'' entry = Some (JString ''read-write'') \<and> po_dir_perms po = [DirRead, DirMutate] \<and>
        po_file_perms po = [FileRead, FileWrite])"

lemma as_str_Some_iff: "as_str v = Some s \<longleftrightarrow> v = JString s"
  by (cases v) auto

lemma as_array_Some_iff: "as_array v = Some xs \<longleftrightarrow> v = JArray xs"
  by (cases v) auto

lemma preopen_field_Inr: "preopen_field c i entry name = Inr s \<longleftrightarrow> json_get name entry = Some (JString s)"
  by (cases "json_get name entry") (auto simp: preopen_field_def ok_or_Inr_iff as_str_Some_iff)

lemma add_preopen_Inr:
  "add_preopen can_open c wc (i, entry) = Inr wc' \<Longrightarrow>
     \<exists>po. describes_preopen entry po \<and> can_open (po_host po) \<and> wc' = wc \<lparr> wc_preopens := wc_preopens wc @ [po] \<rparr>"
proof -
  assume a: "add_preopen can_open c wc (i, entry) = Inr wc'"
  then obtain host guest perms dp fp where
    h: "json_get ''host'' entry = Some (JString host)" "json_get ''guest'' entry = Some (JString guest)"
      "json_get ''perms'' entry = Some (JString perms)"
    and p: "preopen_perms c i perms = Inr (dp, fp)" and o: "can_open host"
    and wc': "wc' = wc \<lparr> wc_preopens := wc_preopens wc @
      [\<lparr> po_host = host, po_guest = guest, po_dir_perms = dp, po_file_perms = fp \<rparr>] \<rparr>"
    by (auto simp: add_preopen_def attempt_Inr_iff preopen_field_Inr split: if_splits)
  let ?po = "\<lparr> po_host = host, po_guest = guest, po_dir_perms = dp, po_file_perms = fp \<rparr>"
  have "describes_preopen entry ?po"
    using h p by (auto simp: describes_preopen_def preopen_perms_def split: if_splits)
  with o wc' show ?thesis by (intro exI [of _ ?po]) simp
qed

lemma add_preopen_entries:
  "fold_res (add_preopen can_open c) wc (enumerate n entries) = Inr wc' \<Longrightarrow>
     \<exists>pos. list_all2 (\<lambda>e po. describes_preopen e po \<and> can_open (po_host po)) entries pos \<and>
       wc' = wc \<lparr> wc_preopens := wc_preopens wc @ pos \<rparr>"
proof (induction entries arbitrary: wc n)
  case (Cons e entries)
  then obtain wc1 where one: "add_preopen can_open c wc (n, e) = Inr wc1"
    and rest: "fold_res (add_preopen can_open c) wc1 (enumerate (Suc n) entries) = Inr wc'"
    by (auto simp: attempt_Inr_iff)
  from add_preopen_Inr [OF one] obtain po where po: "describes_preopen e po" "can_open (po_host po)"
    "wc1 = wc \<lparr> wc_preopens := wc_preopens wc @ [po] \<rparr>" by blast
  from Cons.IH [OF rest] obtain pos where "list_all2 (\<lambda>e po. describes_preopen e po \<and> can_open (po_host po)) entries pos"
    "wc' = wc1 \<lparr> wc_preopens := wc_preopens wc1 @ pos \<rparr>" by blast
  with po show ?case by (intro exI [of _ "po # pos"]) simp
qed simp

text \<open>The preopens that the properties of a capability describe.\<close>

definition described_preopens :: "json hmap \<Rightarrow> preopen set" where
  "described_preopens props = {po. \<exists>entries. hm_get ''preopens'' props = Some (JArray entries) \<and> (\<exists>e \<in> set entries. describes_preopen e po)}"

lemma describes_preopen_unique: "describes_preopen e po \<Longrightarrow> describes_preopen e po' \<Longrightarrow> po = po'"
  by (cases po; cases po') (auto simp: describes_preopen_def)

lemma list_all2_origin: "list_all2 p xs ys \<Longrightarrow> y \<in> set ys \<Longrightarrow> \<exists>x \<in> set xs. p x y"
  by (induction rule: list_all2_induct) auto

lemma add_preopens_Inr:
  assumes "add_preopens can_open c props wc = Inr wc'"
  shows "\<exists>pos. set pos = described_preopens props \<and> (\<forall>po \<in> set pos. can_open (po_host po)) \<and>
    wc' = wc \<lparr> wc_preopens := wc_preopens wc @ pos \<rparr>"
proof (cases "hm_get ''preopens'' props")
  case None
  with assms show ?thesis by (auto simp: add_preopens_def described_preopens_def)
next
  case (Some v)
  with assms obtain entries where v: "v = JArray entries"
    "fold_res (add_preopen can_open c) wc (enumerate 0 entries) = Inr wc'"
    by (auto simp: add_preopens_def attempt_Inr_iff ok_or_Inr_iff as_array_Some_iff)
  from add_preopen_entries [OF v(2)] obtain pos where
    pos: "list_all2 (\<lambda>e po. describes_preopen e po \<and> can_open (po_host po)) entries pos"
      "wc' = wc \<lparr> wc_preopens := wc_preopens wc @ pos \<rparr>" by blast
  have opened: "\<forall>po \<in> set pos. can_open (po_host po)" using list_all2_origin [OF pos(1)] by blast
  have "set pos = described_preopens props"
  proof
    show "set pos \<subseteq> described_preopens props"
      using list_all2_origin [OF pos(1)] by (auto simp: described_preopens_def Some v(1))
    show "described_preopens props \<subseteq> set pos"
    proof
      fix po assume "po \<in> described_preopens props"
      then obtain e where e: "e \<in> set entries" "describes_preopen e po" by (auto simp: described_preopens_def Some v(1))
      then obtain i where "i < length entries" "entries ! i = e" by (auto simp: in_set_conv_nth)
      with pos(1) have "describes_preopen e (pos ! i)" "i < length pos" by (auto simp: list_all2_conv_all_nth)
      with describes_preopen_unique [OF e(2)] show "po \<in> set pos" by auto
    qed
  qed
  with opened pos(2) show ?thesis by blast
qed

text \<open>A component has a capability that satisfies a condition on its kind, without version, and its properties.\<close>

definition granted :: "'c capability_registry \<Rightarrow> string list \<Rightarrow> (string \<Rightarrow> json hmap \<Rightarrow> bool) \<Rightarrow> bool" where
  "granted reg caps p \<longleftrightarrow>
     (\<exists>name \<in> set caps. \<exists>cap. get_capability name reg = Some cap \<and> p (fst (split_wasi_kind (ca_kind cap))) (ca_properties cap))"

definition stdio_granted :: "string \<Rightarrow> string \<Rightarrow> json hmap \<Rightarrow> bool" where
  "stdio_granted key base props \<longleftrightarrow>
     base = ''wasi:p2'' \<or> base = ''wasi:cli'' \<and> (prop_true ''inherit-stdio'' props \<or> prop_true key props)"

definition sockets_granted :: "string \<Rightarrow> string \<Rightarrow> json hmap \<Rightarrow> bool" where
  "sockets_granted key base props \<longleftrightarrow> base = ''wasi:p2'' \<or> base = ''wasi:sockets'' \<and> prop_true key props"

definition preopen_granted :: "preopen \<Rightarrow> string \<Rightarrow> json hmap \<Rightarrow> bool" where
  "preopen_granted po base props \<longleftrightarrow> base \<in> {''wasi:p2'', ''wasi:filesystem''} \<and> po \<in> described_preopens props"

text \<open>What a list of capabilities adds to a context: exactly what it grants.\<close>

definition extends_by :: "'c capability_registry \<Rightarrow> string list \<Rightarrow> wasi_config \<Rightarrow> wasi_config \<Rightarrow> bool" where
  "extends_by reg caps wc wc' \<longleftrightarrow>
     (wc_stdin wc' \<longleftrightarrow> wc_stdin wc \<or> granted reg caps (stdio_granted ''inherit-stdin'')) \<and>
     (wc_stdout wc' \<longleftrightarrow> wc_stdout wc \<or> granted reg caps (stdio_granted ''inherit-stdout'')) \<and>
     (wc_stderr wc' \<longleftrightarrow> wc_stderr wc \<or> granted reg caps (stdio_granted ''inherit-stderr'')) \<and>
     (wc_network wc' \<longleftrightarrow> wc_network wc \<or> granted reg caps (sockets_granted ''inherit-network'')) \<and>
     (wc_ip_name_lookup wc' \<longleftrightarrow> wc_ip_name_lookup wc \<or> granted reg caps (sockets_granted ''allow-ip-name-lookup'')) \<and>
     (\<forall>po. po \<in> set (wc_preopens wc') \<longleftrightarrow> po \<in> set (wc_preopens wc) \<or> granted reg caps (preopen_granted po)) \<and>
     wc_envs wc' = wc_envs wc"

lemma granted_simps:
  "granted reg [] p = False" "granted reg (name # caps) p \<longleftrightarrow> granted reg [name] p \<or> granted reg caps p"
  by (auto simp: granted_def)

lemma extends_by_trans: "extends_by reg [name] a b \<Longrightarrow> extends_by reg caps b c \<Longrightarrow> extends_by reg (name # caps) a c"
  unfolding extends_by_def granted_simps(2) [of reg name caps] by auto

lemma granted_one: "get_capability name reg = Some cap \<Longrightarrow> granted reg [name] p \<longleftrightarrow> p (fst (split_wasi_kind (ca_kind cap))) (ca_properties cap)"
  by (simp add: granted_def)

lemma configure_step:
  assumes "configure_capability can_open reg wc name = Inr wc'"
  shows "extends_by reg [name] wc wc'"
proof (cases "get_capability name reg")
  case None
  with assms show ?thesis by (auto simp: configure_capability_def granted_def extends_by_def)
next
  case (Some cap)
  define base where "base = fst (split_wasi_kind (ca_kind cap))"
  note c = assms [unfolded configure_capability_def Some option.case Let_def, folded base_def]
  note g = granted_one [OF Some, folded base_def]
  consider "base = ''wasi:p2''" | "base = ''wasi:cli''" | "base = ''wasi:filesystem''" | "base = ''wasi:sockets''"
    | "base \<notin> {''wasi:p2'', ''wasi:cli'', ''wasi:filesystem'', ''wasi:sockets''}" by blast
  then show ?thesis
  proof cases
    case 1
    with c add_preopens_Inr [of can_open name "ca_properties cap"] show ?thesis
      by (fastforce simp: extends_by_def g stdio_granted_def sockets_granted_def preopen_granted_def inherit_stdio_def)
  next
    case 3
    with c add_preopens_Inr [of can_open name "ca_properties cap"] show ?thesis
      by (fastforce simp: extends_by_def g stdio_granted_def sockets_granted_def preopen_granted_def)
  qed (use c in \<open>auto simp: extends_by_def g stdio_granted_def sockets_granted_def preopen_granted_def inherit_stdio_def split: if_splits\<close>)
qed

lemma configure_all: "fold_res (configure_capability can_open reg) wc caps = Inr wc' \<Longrightarrow> extends_by reg caps wc wc'"
proof (induction caps arbitrary: wc)
  case (Cons name caps)
  then show ?case by (auto simp: attempt_Inr_iff intro: extends_by_trans dest: configure_step)
qed (simp add: extends_by_def granted_simps)

lemma http_granted: "find_http_capability reg caps \<noteq> None \<longleftrightarrow> granted reg caps (\<lambda>base props. base = ''wasi:http'')"
  by (auto simp: find_http_capability_def granted_def is_some_and_iff find_first_None_iff and_then_def
      split: option.splits dest!: find_first_Some)

text \<open>
  C3. A guest reaches exactly what its capabilities grant. The context of an instance inherits each of
  the three standard streams, the network and name lookup, and opens a host directory under a guest
  path, if and only if one of the component's capabilities says so in its properties (or is the
  \<open>wasi:p2\<close> bundle); a directory is writable only where the entry says \<open>read-write\<close>; there is an HTTP context
  exactly for a \<open>wasi:http\<close> capability; and the environment is the one passed.
\<close>

theorem access_is_granted:
  assumes "instance_state ops reg caps env_vars = Inr state"
  shows "(wc_stdin (cs_wasi state) \<longleftrightarrow> granted reg caps (stdio_granted ''inherit-stdin'')) \<and>
    (wc_stdout (cs_wasi state) \<longleftrightarrow> granted reg caps (stdio_granted ''inherit-stdout'')) \<and>
    (wc_stderr (cs_wasi state) \<longleftrightarrow> granted reg caps (stdio_granted ''inherit-stderr'')) \<and>
    (wc_network (cs_wasi state) \<longleftrightarrow> granted reg caps (sockets_granted ''inherit-network'')) \<and>
    (wc_ip_name_lookup (cs_wasi state) \<longleftrightarrow> granted reg caps (sockets_granted ''allow-ip-name-lookup'')) \<and>
    (\<forall>po. po \<in> set (wc_preopens (cs_wasi state)) \<longleftrightarrow> granted reg caps (preopen_granted po)) \<and>
    (cs_http state \<longleftrightarrow> granted reg caps (\<lambda>base props. base = ''wasi:http'')) \<and>
    wc_envs (cs_wasi state) = env_vars"
proof -
  from assms obtain wc where "build_wasi (hp_can_open ops) reg caps env_vars = Inr wc" "cs_wasi state = wc"
    "cs_http state \<longleftrightarrow> find_http_capability reg caps \<noteq> None"
    by (auto simp: instance_state_def attempt_Inr_iff)
  then show ?thesis
    unfolding http_granted
    by (auto simp: build_wasi_def wasi_config_new_def extends_by_def split: if_splits dest!: configure_all)
qed

subsection \<open>What is registered can be linked\<close>

lemma known_kinds:
  "get_interfaces_for_capability kind \<noteq> [] \<longleftrightarrow>
     kind = ''wasi:p2'' \<or> (case split_wasi_kind kind of (base, version) \<Rightarrow> (wasi_links base version :: 'c link_item list option) \<noteq> None)"
proof (cases "kind = ''wasi:p2''")
  case True
  then show ?thesis by (simp add: get_interfaces_for_capability_def wasi_p2_bundle_def)
next
  case False
  obtain base version where bv: "split_wasi_kind kind = (base, version)" by force
  show ?thesis
    unfolding get_interfaces_for_capability_def bv prod.case if_not_P [OF False]
    by (cases version) (simp_all add: wasi_links_def False)
qed

text \<open>The interfaces that an item brings into a linker, without their versions.\<close>

fun link_names :: "'c link_item \<Rightarrow> string list" where
  "link_names (LinkP2 n) = [''wasi:'' @ n]"
| "link_names LinkIo = [''wasi:io/error'', ''wasi:io/poll'', ''wasi:io/streams'']"
| "link_names LinkHttpP2 = [''wasi:http/types'', ''wasi:http/outgoing-handler'']"
| "link_names _ = []"

definition interface_base :: "string \<Rightarrow> string" where
  "interface_base s = (case rsplit_once s ''@'' of Some (name, version) \<Rightarrow> name | None \<Rightarrow> s)"

definition p2_links :: "(string \<times> 'c link_item list) list" where
  "p2_links =
     [(''wasi:cli'', [LinkP2 ''cli/stdin'', LinkP2 ''cli/stdout'', LinkP2 ''cli/stderr'', LinkP2 ''cli/environment'']),
      (''wasi:clocks'', [LinkP2 ''clocks/wall-clock'', LinkP2 ''clocks/monotonic-clock'']),
      (''wasi:filesystem'', [LinkP2 ''filesystem/types'', LinkP2 ''filesystem/preopens'', LinkIo]),
      (''wasi:http'', [LinkHttpP2, LinkIo]),
      (''wasi:io'', [LinkIo]),
      (''wasi:random'', [LinkP2 ''random/random'', LinkP2 ''random/insecure'', LinkP2 ''random/insecure-seed'']),
      (''wasi:sockets'', [LinkP2 ''sockets/tcp'', LinkP2 ''sockets/udp'', LinkP2 ''sockets/network'', LinkP2 ''sockets/instance-network'', LinkP2 ''sockets/ip-name-lookup'', LinkP2 ''sockets/tcp-create-socket'', LinkP2 ''sockets/udp-create-socket''])]"

lemma p2_links: "wasi_links base P2 = Some items \<Longrightarrow> (base, items) \<in> set p2_links"
  by (simp add: wasi_links_def p2_links_def split: if_splits)

lemma promised_interfaces_linked:
  assumes "wasi_links base P2 = Some items"
  shows "set (map interface_base (get_interfaces_for_capability (base @ ''-p2''))) = set (concat (map link_names items))"
proof -
  have "list_all (\<lambda>(base, items). set (map interface_base (get_interfaces_for_capability (base @ ''-p2''))) =
      set (concat (map link_names items))) p2_links"
    by code_simp
  with p2_links [OF assms] show ?thesis by (auto simp only: list_all_iff)
qed

definition linkable :: "'c capability \<Rightarrow> bool" where
  "linkable cap \<longleftrightarrow>
     (if starts_with (ca_kind cap) ''wasi:'' then get_interfaces_for_capability (ca_kind cap) \<noteq> [] else ca_instance cap \<noteq> None)"

lemma created_linkable: "create_capability hosts d = Inr cap \<Longrightarrow> linkable cap"
  by (auto simp: create_capability_def linkable_def attempt_Inr_iff Let_def split: if_splits)

lemma registry_linkable:
  assumes "create_capability_registry hosts defs = Inr reg" and "get_capability name reg = Some cap"
  shows "linkable cap"
proof -
  have "\<forall>n c. hm_get n reg = Some c \<longrightarrow> linkable c"
    using assms(1) unfolding create_capability_registry_def
    by (rule fold_res_invariant [where I = "\<lambda>reg. \<forall>n c. hm_get n reg = Some c \<longrightarrow> linkable c"])
      (auto simp: attempt_Inr_iff split: if_splits dest: created_linkable)
  with assms(2) show ?thesis by (simp add: get_capability_def)
qed

lemma linkable_links:
  assumes "\<And>cap. get_capability name reg = Some cap \<Longrightarrow> linkable cap"
  shows "\<exists>items. capability_links reg name = Inr items"
proof (cases "get_capability name reg")
  case (Some cap)
  with assms have l: "linkable cap" by simp
  obtain base version where bv: "split_wasi_kind (ca_kind cap) = (base, version)" by force
  show ?thesis
    using l known_kinds [of "ca_kind cap", where 'c = 'a]
    by (cases "starts_with (ca_kind cap) ''wasi:''")
      (auto simp: capability_links_def Some linkable_def bv ok_or_def split: option.split)
qed (simp add: capability_links_def)

text \<open>
  C18. Registry and host agree on the capabilities: if the capability registry was built, then linking a
  component fails only where wasmtime refuses an interface. The host never finds a capability of a
  kind that it does not know, nor a host capability without an instance: both were refused when the
  registry was built.
\<close>

theorem registered_capabilities_link:
  assumes "create_capability_registry hosts defs = Inr reg" and "create_linker lops reg caps = Inl e"
  shows "\<exists>msg. e = LinkFailed msg"
  using assms(2) unfolding create_linker_def
proof (induction caps arbitrary: lops rule: rev_induct)
  case (snoc name caps)
  obtain items where items: "capability_links reg name = Inr items"
    using linkable_links registry_linkable [OF assms(1)] by metis
  have add: "fold_res (\<lambda>linker item. map_err LinkFailed (lk_add lops item linker)) l xs = Inl e \<Longrightarrow> \<exists>msg. e = LinkFailed msg" for l xs
    by (induction xs arbitrary: l) (auto simp: attempt_Inl_iff map_err_Inl_iff)
  from snoc show ?case by (auto simp: fold_res_append attempt_Inl_iff items add)
qed simp

subsection \<open>Invocation\<close>

lemma host_lookup: "host_get_component (component_host_new creg reg) name = Some c \<Longrightarrow>
    \<exists>spec \<in> set (get_components creg). c = component_of_spec spec \<and> sp_name spec = name"
  by (auto simp: host_get_component_def component_host_new_def hm_get_extend dest!: map_of_SomeD)

lemma json_args_passed:
  assumes "list_all2 (\<lambda>(a, t) v. arg_passed fo a t v) (zip (map CallJson args) ts) vs" and "length args = length ts"
  shows "list_all2 (\<lambda>(j, t) v. json_to_val fo j t = Inr v \<and> has_type v t) (zip args ts) vs"
  using assms by (auto simp: list_all2_conv_all_nth arg_passed_def)

text \<open>
  What a successful invocation did: the component is registered under the given name, which is not
  an internal one, and has the function under the given key; a fresh instance was made of its binary
  with the linker and the state of its own capabilities; that instance's export was run once, on one
  well-typed value per declared parameter, each the conversion of the argument in its place; and the
  answer is the run's result as JSON, \<open>null\<close> if there is none.
\<close>

theorem invocation_runs_component:
  assumes "host_invoke fo ops iops host name key args env_vars s = (s', Inr j)"
  shows "\<exists>spec f linker state s1 inst export func vs inst' run r.
    \<not> starts_with name ''_'' \<and> hm_get name (ho_component_registry host) = Some spec \<and> hm_get key (sp_functions spec) = Some f \<and>
    create_linker (hp_linker ops) (ho_capability_registry host) (sp_capabilities spec) = Inr linker \<and>
    instance_state ops (ho_capability_registry host) (sp_capabilities spec) env_vars = Inr state \<and>
    hp_instantiate ops (sp_bytes spec) linker state s = (s1, Inr inst) \<and>
    resolve_function iops (inst, s1) f = Inr export \<and> io_get_func iops (inst, s1) export = Some func \<and>
    length args = length (io_param_types iops (inst, s1) func) \<and>
    list_all2 (\<lambda>(j, t) v. json_to_val fo j t = Inr v \<and> has_type v t) (zip args (io_param_types iops (inst, s1) func)) vs \<and>
    io_call iops func vs (inst, s1) = ((inst', s'), run) \<and>
    attempt (call_outcome run) (convert_results fo) = Inr r \<and> result_json (fn_name f) r = Inr j"
proof -
  obtain spec f where spec: "get_component name (ho_component_registry host) = Some spec" and f: "hm_get key (sp_functions spec) = Some f"
    and i: "invoker_invoke fo ops iops (sp_bytes spec) (sp_capabilities spec) (ho_capability_registry host) f args env_vars s = (s', Inr j)"
    using assms by (auto simp: host_invoke_def split: option.splits)
  from i obtain s1 inst where m: "instantiate_from_bytes ops (sp_bytes spec) (sp_capabilities spec) (ho_capability_registry host) env_vars s = (s1, Inr inst)"
    and c: "(case call fo iops f (map CallJson args) (inst, s1) of
       (st, r) \<Rightarrow> (snd st, attempt (map_err CallFailed r) (result_json (fn_name f)))) = (s', Inr j)"
    by (auto simp: invoker_invoke_def split: prod.splits sum.splits)
  obtain linker state where l: "create_linker (hp_linker ops) (ho_capability_registry host) (sp_capabilities spec) = Inr linker"
    "instance_state ops (ho_capability_registry host) (sp_capabilities spec) env_vars = Inr state"
    "hp_instantiate ops (sp_bytes spec) linker state s = (s1, Inr inst)"
    using m by (auto simp: instantiate_from_bytes_def map_prod_def map_err_Inr_iff split: sum.splits prod.splits)
  obtain st r where r: "call fo iops f (map CallJson args) (inst, s1) = (st, Inr r)" "snd st = s'" "result_json (fn_name f) r = Inr j"
    using c by (auto simp: attempt_Inr_iff map_err_Inr_iff split: prod.splits)
  from call_runs_typed [OF r(1)] obtain export func vs where
    e: "resolve_function iops (inst, s1) f = Inr export" "io_get_func iops (inst, s1) export = Some func"
      "length args = length (io_param_types iops (inst, s1) func)"
      "list_all2 (\<lambda>(a, t) v. arg_passed fo a t v) (zip (map CallJson args) (io_param_types iops (inst, s1) func)) vs"
      "st = fst (io_call iops func vs (inst, s1))"
      "Inr r = attempt (call_outcome (snd (io_call iops func vs (inst, s1)))) (convert_results fo)"
    by auto
  have n: "\<not> starts_with name ''_''" "hm_get name (ho_component_registry host) = Some spec"
    using spec by (auto simp: get_component_def split: if_splits)
  have run: "io_call iops func vs (inst, s1) = ((fst st, s'), snd (io_call iops func vs (inst, s1)))"
    using e(5) r(2) by (metis prod.collapse)
  show ?thesis
    using n f l e(1-3) json_args_passed [OF e(4,3)] run e(6) [symmetric] r(3) by blast
qed

subsection \<open>Outgoing requests carry the context\<close>

lemma map_of_filter_other: "n \<noteq> k \<Longrightarrow> map_of (filter (\<lambda>(m, _). m \<noteq> k) hs) n = map_of hs n"
  by (induction hs) auto

lemma header_insert_get: "map_of (header_insert k v hs) n = (if n = k then Some v else map_of hs n)"
  by (induction k v hs rule: header_insert.induct) (auto simp: map_of_filter_other)

lemma propagated_get:
  assumes "distinct keys"
  shows "map_of (fold (\<lambda>key hs. (case hm_get key entries of
      Some v \<Rightarrow> if header_value_ok v then header_insert key v hs else hs
    | None \<Rightarrow> hs)) keys hs) n =
    (case hm_get n entries of
       Some v \<Rightarrow> if n \<in> set keys \<and> header_value_ok v then Some v else map_of hs n
     | None \<Rightarrow> map_of hs n)"
  using assms
  by (induction keys arbitrary: hs) (auto simp: header_insert_get split: option.splits)

text \<open>
  An outgoing request carries the propagation context of the invocation: each propagated header of the
  context replaces the guest's own, all other headers are the guest's. Only with the gRPC option can a
  request leave the default path, and then never over TLS.
\<close>

lemma send_request_headers:
  assumes "send_request hooks (Some c) request = SendGrpc r \<or> send_request hooks (Some c) request = SendDefault r"
  shows "map_of (or_headers r) n =
      (case hm_get n (pc_entries c) of
         Some v \<Rightarrow> if n \<in> set propagated_headers \<and> header_value_ok v then Some v else map_of (or_headers request) n
       | None \<Rightarrow> map_of (or_headers request) n)"
    and "send_request hooks (Some c) request = SendGrpc r \<Longrightarrow> h2c_for_grpc hooks \<and> or_scheme r \<noteq> Some ''https''"
proof -
  have r: "r = propagate_headers (Some c) request"
    using assms by (auto simp: send_request_def Let_def split: if_splits)
  have "distinct propagated_headers" by code_simp
  from propagated_get [OF this] show "map_of (or_headers r) n =
      (case hm_get n (pc_entries c) of
         Some v \<Rightarrow> if n \<in> set propagated_headers \<and> header_value_ok v then Some v else map_of (or_headers request) n
       | None \<Rightarrow> map_of (or_headers request) n)"
    by (simp add: r propagate_headers_def)
  show "send_request hooks (Some c) request = SendGrpc r \<Longrightarrow> h2c_for_grpc hooks \<and> or_scheme r \<noteq> Some ''https''"
    by (auto simp: send_request_def Let_def propagate_headers_def split: if_splits)
qed

subsection \<open>Examples\<close>

definition sample_capabilities :: "unit capability_registry" where
  "sample_capabilities =
     [(''data'', \<lparr> ca_kind = ''wasi:filesystem'', ca_scope = ''any'', ca_interfaces = [],
        ca_properties = [(''preopens'', JArray [JObject [(''guest'', JString ''/data''), (''host'', JString ''./data''), (''perms'', JString ''read-only'')]])],
        ca_instance = None \<rparr>),
      (''net'', \<lparr> ca_kind = ''wasi:sockets-p2'', ca_scope = ''any'', ca_interfaces = [],
        ca_properties = [(''inherit-network'', JBool True)], ca_instance = None \<rparr>)]"

definition sample_host_ops :: "(string, unit, nat, unit, unit, string, string list) host_ops" where
  "sample_host_ops =
     \<lparr> hp_linker = \<lparr> lk_new = 0, lk_add = (\<lambda>item n. Inr (Suc n)) \<rparr>, hp_can_open = (\<lambda>path. True), hp_create_state = (\<lambda>c. Inr None),
       hp_instantiate = (\<lambda>b l state s. (s, Inr b)) \<rparr>"

definition sample_instance_ops :: "(string \<times> string list, string, string) instance_ops" where
  "sample_instance_ops =
     \<lparr> io_get_export = (\<lambda>st parent n. Some n), io_get_func = (\<lambda>st e. Some e), io_param_types = (\<lambda>st f. [TBool]),
       io_call = (\<lambda>f vs st. ((fst st, f # snd st), Inr vs)) \<rparr>"

definition sample_host :: "(string, unit) component_host" where
  "sample_host = component_host_new
     [(''echo'', \<lparr> sp_name = ''echo'', sp_namespace = None, sp_package = None, sp_labels = [], sp_bytes = ''bytes'', sp_imports = [],
        sp_exports = [], sp_capabilities = [''data'', ''net''], sp_dependents = [],
        sp_functions = [(''run'', function_new None ''run'' [] [] None True)] \<rparr>)] sample_capabilities"

definition sample_state :: "(unit, unit) component_state" where
  "sample_state =
     \<lparr> cs_wasi = \<lparr> wc_envs = [], wc_stdin = False, wc_stdout = False, wc_stderr = False, wc_network = True, wc_ip_name_lookup = False,
         wc_preopens = [\<lparr> po_host = ''./data'', po_guest = ''/data'', po_dir_perms = [DirRead], po_file_perms = [FileRead] \<rparr>] \<rparr>,
       cs_http = False, cs_http_hooks = http_hooks_default, cs_extensions = [] \<rparr>"

lemma sample_instance_state: "instance_state sample_host_ops sample_capabilities [''data'', ''net''] [] = Inr sample_state"
  by code_simp

theorem access_is_granted_witness:
  "granted sample_capabilities [''data'', ''net''] (sockets_granted ''inherit-network'') \<and>
   \<not> granted sample_capabilities [''data'', ''net''] (sockets_granted ''allow-ip-name-lookup'') \<and>
   granted sample_capabilities [''data'', ''net'']
     (preopen_granted \<lparr> po_host = ''./data'', po_guest = ''/data'', po_dir_perms = [DirRead], po_file_perms = [FileRead] \<rparr>)"
proof (intro conjI)
  note a = access_is_granted [OF sample_instance_state]
  show "granted sample_capabilities [''data'', ''net''] (sockets_granted ''inherit-network'')"
    using a by (simp add: sample_state_def)
  show "\<not> granted sample_capabilities [''data'', ''net''] (sockets_granted ''allow-ip-name-lookup'')"
    using a by (simp add: sample_state_def)
  from a have "\<And>po. po \<in> set (wc_preopens (cs_wasi sample_state)) \<longleftrightarrow>
      granted sample_capabilities [''data'', ''net''] (preopen_granted po)"
    by blast
  then show "granted sample_capabilities [''data'', ''net'']
     (preopen_granted \<lparr> po_host = ''./data'', po_guest = ''/data'', po_dir_perms = [DirRead], po_file_perms = [FileRead] \<rparr>)"
    by (auto simp: sample_state_def)
qed

theorem registered_capabilities_link_witness:
  "\<exists>msg. LinkFailed ''no stdin'' = LinkFailed msg"
proof (rule registered_capabilities_link)
  show "create_capability_registry \<lparr> hc_interfaces = (\<lambda>c :: unit. []), hc_factories = [] \<rparr>
    [\<lparr> cap_name = ''cli'', cap_kind = ''wasi:cli-p2'', cap_scope = ''any'', cap_properties = [] \<rparr>] =
    Inr [(''cli'', \<lparr> ca_kind = ''wasi:cli-p2'', ca_scope = ''any'', ca_interfaces = get_interfaces_for_capability ''wasi:cli-p2'',
      ca_properties = [], ca_instance = None \<rparr>)]"
    by code_simp
  show "create_linker \<lparr> lk_new = (), lk_add = (\<lambda>item l. Inl ''no stdin'') \<rparr>
    [(''cli'', \<lparr> ca_kind = ''wasi:cli-p2'', ca_scope = ''any'', ca_interfaces = get_interfaces_for_capability ''wasi:cli-p2'',
      ca_properties = [], ca_instance = (None :: unit option) \<rparr>)] [''cli''] = Inl (LinkFailed ''no stdin'')"
    by code_simp
qed

theorem invocation_runs_component_witness:
  "host_invoke bit_floats sample_host_ops sample_instance_ops sample_host ''echo'' ''run'' [JBool True] [] [] =
     ([''run''], Inr (JBool True)) \<and>
   \<not> starts_with ''echo'' ''_''"
proof
  show h: "host_invoke bit_floats sample_host_ops sample_instance_ops sample_host ''echo'' ''run'' [JBool True] [] [] =
     ([''run''], Inr (JBool True))"
    by code_simp
  from invocation_runs_component [OF h] show "\<not> starts_with ''echo'' ''_''" by blast
qed

end
