(* ===== verification/Runtime.thy ===== *)
theory Runtime
  imports Runtime_Host Messaging_Service Http_Service
begin

section \<open>The runtime (\<open>src/runtime/mod.rs\<close>, \<open>src/service.rs\<close>)\<close>

text \<open>
  The builder, which loads the definitions through the handlers of all services, builds graph, registries
  and component host, and adds the messaging service; and the life of the runtime, which injects
  invoker and publisher, starts the services in order and shuts them down in reverse. The trait
  \<open>Service\<close> is the record \<open>service_ops\<close>; a boxed service is the messaging service, the HTTP service or
  a registered one. A service shares its parsed configuration with its handler: \<open>so_configured\<close> puts
  what the handler has collected into the service. Errors of the services keep their own types.
\<close>

record ('sv, 'x, 'c, 'i, 'p, 's, 'e) service_ops =
  so_config_handler :: "'sv \<Rightarrow> 'x option"
  so_configured :: "'x \<Rightarrow> 'sv \<Rightarrow> 'sv"
  so_capabilities :: "'sv \<Rightarrow> (string \<times> (json \<Rightarrow> registry_error + 'c)) list"
  so_set_invoker :: "'i \<Rightarrow> 'sv \<Rightarrow> 'sv"
  so_set_publisher :: "'p \<Rightarrow> 'sv \<Rightarrow> 'sv"
  so_start :: "'sv \<Rightarrow> 's \<Rightarrow> ('sv \<times> 's) \<times> ('e + unit)"
  so_shutdown :: "'sv \<Rightarrow> 's \<Rightarrow> 'sv \<times> 's"

text \<open>The trait's default methods.\<close>

definition default_service_ops :: "('sv, 'x, 'c, 'i, 'p, 's, 'e) service_ops" where
  "default_service_ops =
     \<lparr> so_config_handler = (\<lambda>sv. None), so_configured = (\<lambda>h sv. sv), so_capabilities = (\<lambda>sv. []),
       so_set_invoker = (\<lambda>i sv. sv), so_set_publisher = (\<lambda>p sv. sv), so_start = (\<lambda>sv s. ((sv, s), Inr ())),
       so_shutdown = (\<lambda>sv s. (sv, s)) \<rparr>"

text \<open>\<open>timed_out\<close> says whether the dispatchers outlast the wait of the shutdown.\<close>

definition messaging_service_ops ::
  "('q, message) mpsc_ops \<Rightarrow> ('b, message) broadcast_ops \<Rightarrow> ('i, ('q, 'b, 'w) messaging_scheme) invoker_ops \<Rightarrow>
   ('i bus \<Rightarrow> bool) \<Rightarrow> ('i messaging_service, messaging_handler, 'c, 'i, 'p, ('q, 'b, 'w) messaging_scheme, start_error) service_ops" where
  "messaging_service_ops mp bo ops timed_out = default_service_ops
     \<lparr> so_config_handler := (\<lambda>svc. Some (svc_handler svc)),
       so_configured := (\<lambda>h svc. svc \<lparr> svc_handler := h \<rparr>),
       so_set_invoker := service_set_invoker,
       so_start := (\<lambda>svc s. service_start mp bo ops (svc, s)),
       so_shutdown := (\<lambda>svc s.
         (svc \<lparr> svc_bus := bus_shutdown_wait (timed_out (svc_bus svc)) (svc_bus svc) \<rparr>, service_shutdown s)) \<rparr>"

definition http_service_ops ::
  "(string \<Rightarrow> bool) \<Rightarrow> 'v server_env \<Rightarrow> ('i, 'st) invoker_ops \<Rightarrow> (string \<Rightarrow> string \<Rightarrow> string \<Rightarrow> (string hmap \<Rightarrow> string) option) \<Rightarrow>
   (('i, 'v, 'h, 'st) http_service, http_handler, 'c, 'i, ('h, 'st) publisher_ops, 'st, service_error) service_ops" where
  "http_service_ops vm env ops bt = default_service_ops
     \<lparr> so_config_handler := (\<lambda>svc. Some (hs_handler svc)),
       so_configured := (\<lambda>h svc. svc \<lparr> hs_handler := h \<rparr>),
       so_set_invoker := http_set_invoker,
       so_set_publisher := http_set_publisher,
       so_start := (\<lambda>svc s. case http_service_start vm env ops bt svc of (svc', r) \<Rightarrow> ((svc', s), r)),
       so_shutdown := (\<lambda>svc s. (fst (http_service_shutdown svc), s)) \<rparr>"

subsection \<open>Boxed services and handlers\<close>

datatype ('i, 'v, 'h, 'st, 'z) service =
    MessagingS "'i messaging_service"
  | HttpS "('i, 'v, 'h, 'st) http_service"
  | UserS 'z

datatype 'x registered_handler = MessagingH messaging_handler | HttpH http_handler | UserH 'x

datatype 'e service_failure = MessagingFailed start_error | HttpFailed service_error | UserFailed 'e

definition registered_ops :: "(string \<Rightarrow> bool) \<Rightarrow> 'x handler_ops \<Rightarrow> 'x registered_handler handler_ops" where
  "registered_ops hn ext =
     \<lparr> ho_claimed_categories = (\<lambda>h. case h of
          MessagingH m \<Rightarrow> ho_claimed_categories messaging_ops m
        | HttpH m \<Rightarrow> ho_claimed_categories (http_ops hn) m
        | UserH x \<Rightarrow> ho_claimed_categories ext x),
       ho_claimed_properties = (\<lambda>h. case h of
          MessagingH m \<Rightarrow> ho_claimed_properties messaging_ops m
        | HttpH m \<Rightarrow> ho_claimed_properties (http_ops hn) m
        | UserH x \<Rightarrow> ho_claimed_properties ext x),
       ho_accepts_unclaimed = (\<lambda>h cat. case h of
          MessagingH m \<Rightarrow> ho_accepts_unclaimed messaging_ops m cat
        | HttpH m \<Rightarrow> ho_accepts_unclaimed (http_ops hn) m cat
        | UserH x \<Rightarrow> ho_accepts_unclaimed ext x cat),
       ho_handle_category = (\<lambda>h cat n p. case h of
          MessagingH m \<Rightarrow> map_ok MessagingH (ho_handle_category messaging_ops m cat n p)
        | HttpH m \<Rightarrow> map_ok HttpH (ho_handle_category (http_ops hn) m cat n p)
        | UserH x \<Rightarrow> map_ok UserH (ho_handle_category ext x cat n p)),
       ho_handle_properties = (\<lambda>h cat n p. case h of
          MessagingH m \<Rightarrow> map_ok MessagingH (ho_handle_properties messaging_ops m cat n p)
        | HttpH m \<Rightarrow> map_ok HttpH (ho_handle_properties (http_ops hn) m cat n p)
        | UserH x \<Rightarrow> map_ok UserH (ho_handle_properties ext x cat n p)),
       ho_generated_components = (\<lambda>h. case h of
          MessagingH m \<Rightarrow> map_prod id MessagingH (ho_generated_components messaging_ops m)
        | HttpH m \<Rightarrow> map_prod id HttpH (ho_generated_components (http_ops hn) m)
        | UserH x \<Rightarrow> map_prod id UserH (ho_generated_components ext x)),
       ho_generated_capabilities = (\<lambda>h. case h of
          MessagingH m \<Rightarrow> map_prod id MessagingH (ho_generated_capabilities messaging_ops m)
        | HttpH m \<Rightarrow> map_prod id HttpH (ho_generated_capabilities (http_ops hn) m)
        | UserH x \<Rightarrow> map_prod id UserH (ho_generated_capabilities ext x)) \<rparr>"

definition boxed_services ::
  "('i messaging_service, messaging_handler, 'c, 'i, 'p, 's, start_error) service_ops \<Rightarrow>
   (('i, 'v, 'h, 'st) http_service, http_handler, 'c, 'i, 'p, 's, service_error) service_ops \<Rightarrow>
   ('z, 'x, 'c, 'i, 'p, 's, 'e) service_ops \<Rightarrow>
   (('i, 'v, 'h, 'st, 'z) service, 'x registered_handler, 'c, 'i, 'p, 's, 'e service_failure) service_ops" where
  "boxed_services ms hs us =
     \<lparr> so_config_handler = (\<lambda>sv. case sv of
          MessagingS m \<Rightarrow> map_option MessagingH (so_config_handler ms m)
        | HttpS h \<Rightarrow> map_option HttpH (so_config_handler hs h)
        | UserS z \<Rightarrow> map_option UserH (so_config_handler us z)),
       so_configured = (\<lambda>h sv. case (h, sv) of
          (MessagingH h, MessagingS m) \<Rightarrow> MessagingS (so_configured ms h m)
        | (HttpH h, HttpS m) \<Rightarrow> HttpS (so_configured hs h m)
        | (UserH h, UserS z) \<Rightarrow> UserS (so_configured us h z)
        | (_, sv) \<Rightarrow> sv),
       so_capabilities = (\<lambda>sv. case sv of
          MessagingS m \<Rightarrow> so_capabilities ms m | HttpS h \<Rightarrow> so_capabilities hs h | UserS z \<Rightarrow> so_capabilities us z),
       so_set_invoker = (\<lambda>i sv. case sv of
          MessagingS m \<Rightarrow> MessagingS (so_set_invoker ms i m)
        | HttpS h \<Rightarrow> HttpS (so_set_invoker hs i h)
        | UserS z \<Rightarrow> UserS (so_set_invoker us i z)),
       so_set_publisher = (\<lambda>p sv. case sv of
          MessagingS m \<Rightarrow> MessagingS (so_set_publisher ms p m)
        | HttpS h \<Rightarrow> HttpS (so_set_publisher hs p h)
        | UserS z \<Rightarrow> UserS (so_set_publisher us p z)),
       so_start = (\<lambda>sv s. case sv of
          MessagingS m \<Rightarrow> map_prod (map_prod MessagingS id) (map_err MessagingFailed) (so_start ms m s)
        | HttpS h \<Rightarrow> map_prod (map_prod HttpS id) (map_err HttpFailed) (so_start hs h s)
        | UserS z \<Rightarrow> map_prod (map_prod UserS id) (map_err UserFailed) (so_start us z s)),
       so_shutdown = (\<lambda>sv s. case sv of
          MessagingS m \<Rightarrow> map_prod MessagingS id (so_shutdown ms m s)
        | HttpS h \<Rightarrow> map_prod HttpS id (so_shutdown hs h s)
        | UserS z \<Rightarrow> map_prod UserS id (so_shutdown us z s)) \<rparr>"

subsection \<open>The builder\<close>

record ('l, 'x, 'sv, 'c) runtime_builder =
  rb_paths :: "string list"
  rb_loaders :: "'l list"
  rb_handlers :: "'x list"
  rb_services :: "'sv list"
  rb_factories :: "(json \<Rightarrow> registry_error + 'c) hmap"
  rb_use_default_loaders :: bool

definition runtime_builder_new :: "('l, 'x, 'sv, 'c) runtime_builder" where
  "runtime_builder_new =
     \<lparr> rb_paths = [], rb_loaders = [], rb_handlers = [], rb_services = [], rb_factories = [], rb_use_default_loaders = True \<rparr>"

definition from_path :: "string \<Rightarrow> ('l, 'x, 'sv, 'c) runtime_builder \<Rightarrow> ('l, 'x, 'sv, 'c) runtime_builder" where
  "from_path path b = b \<lparr> rb_paths := rb_paths b @ [path] \<rparr>"

definition from_paths :: "string list \<Rightarrow> ('l, 'x, 'sv, 'c) runtime_builder \<Rightarrow> ('l, 'x, 'sv, 'c) runtime_builder" where
  "from_paths paths b = b \<lparr> rb_paths := rb_paths b @ paths \<rparr>"

definition with_definition_loader :: "'l \<Rightarrow> ('l, 'x, 'sv, 'c) runtime_builder \<Rightarrow> ('l, 'x, 'sv, 'c) runtime_builder" where
  "with_definition_loader l b = b \<lparr> rb_loaders := rb_loaders b @ [l] \<rparr>"

definition with_config_handler :: "'x \<Rightarrow> ('l, 'x, 'sv, 'c) runtime_builder \<Rightarrow> ('l, 'x, 'sv, 'c) runtime_builder" where
  "with_config_handler h b = b \<lparr> rb_handlers := rb_handlers b @ [h] \<rparr>"

definition no_default_loaders :: "('l, 'x, 'sv, 'c) runtime_builder \<Rightarrow> ('l, 'x, 'sv, 'c) runtime_builder" where
  "no_default_loaders b = b \<lparr> rb_use_default_loaders := False \<rparr>"

text \<open>\<open>T::default()\<close> is an argument.\<close>

definition with_service :: "'sv \<Rightarrow> ('l, 'x, 'sv, 'c) runtime_builder \<Rightarrow> ('l, 'x, 'sv, 'c) runtime_builder" where
  "with_service sv b = b \<lparr> rb_services := rb_services b @ [sv] \<rparr>"

text \<open>The factory of a capability: \<open>de\<close> reads an instance from its configuration, and \<open>dflt\<close> stands in
  for an empty configuration that cannot be read.\<close>

definition capability_factory :: "(json \<Rightarrow> string + 'c) \<Rightarrow> 'c \<Rightarrow> json \<Rightarrow> registry_error + 'c" where
  "capability_factory de dflt config =
     (case de config of
        Inr inst \<Rightarrow> Inr inst
      | Inl e \<Rightarrow> if config = JObject [] then Inr dflt else Inl (ToolFailed e))"

definition with_capability ::
  "string \<Rightarrow> (json \<Rightarrow> string + 'c) \<Rightarrow> 'c \<Rightarrow> ('l, 'x, 'sv, 'c) runtime_builder \<Rightarrow> ('l, 'x, 'sv, 'c) runtime_builder" where
  "with_capability name de dflt b = b \<lparr> rb_factories := hm_insert name (capability_factory de dflt) (rb_factories b) \<rparr>"

record ('b, 'c, 'sv) runtime =
  rt_host :: "('b, 'c) component_host"
  rt_services :: "'sv list"

datatype runtime_error = GraphFailed graph_error | RegistriesFailed registry_error

definition service_handlers :: "('sv, 'x, 'c, 'i, 'p, 's, 'e) service_ops \<Rightarrow> 'sv list \<Rightarrow> 'x list" where
  "service_handlers so services = concat (map (\<lambda>sv. case so_config_handler so sv of Some h \<Rightarrow> [h] | None \<Rightarrow> []) services)"

definition graph_builder_of ::
  "('sv, 'x, 'c, 'i, 'p, 's, 'e) service_ops \<Rightarrow> ('l, 'x, 'sv, 'c) runtime_builder \<Rightarrow> 'sv list \<Rightarrow> ('l, 'x) graph_builder" where
  "graph_builder_of so b services =
     (let g = builder_from_paths (rb_paths b) graph_builder_new;
          g = (if rb_use_default_loaders b then g else builder_no_default_loaders g);
          g = fold builder_add_loader (rb_loaders b) g;
          g = fold builder_add_handler (rb_handlers b) g
      in fold builder_add_handler (service_handlers so services) g)"

text \<open>
  The handlers at the end of the configuration's processing. They are dropped by the code; what they
  share with their services is what \<open>absorb\<close> puts into the services.
\<close>

definition configured_handlers ::
  "(64 word \<Rightarrow> string) \<Rightarrow> 'l loader_ops \<Rightarrow> 'l list \<Rightarrow> 'x handler_ops \<Rightarrow> 'x list \<Rightarrow> string list \<Rightarrow> config_error + 'x list" where
  "configured_handlers sf lops loaders ext handlers paths =
     attempt (fold_res (route_path lops) loaders paths) (\<lambda>loaders.
     attempt (load_all lops loaders) (\<lambda>definitions.
     map_ok (\<lambda>hs. concat (map (\<lambda>h. case h of ExtH x \<Rightarrow> [x] | _ \<Rightarrow> []) hs))
       (dispatch sf (boxed_ops sf ext) definitions (CompH component_handler_new # CapH capability_handler_new # map ExtH handlers))))"

fun absorb :: "('sv, 'x, 'c, 'i, 'p, 's, 'e) service_ops \<Rightarrow> 'x list \<Rightarrow> 'sv list \<Rightarrow> 'sv list" where
  "absorb so hs [] = []"
| "absorb so hs (sv # svs) =
     (case (so_config_handler so sv, hs) of
        (Some _, h # hs) \<Rightarrow> so_configured so h sv # absorb so hs svs
      | _ \<Rightarrow> sv # absorb so hs svs)"

definition all_factories ::
  "('sv, 'x, 'c, 'i, 'p, 's, 'e) service_ops \<Rightarrow> 'sv list \<Rightarrow> (json \<Rightarrow> registry_error + 'c) hmap \<Rightarrow> (json \<Rightarrow> registry_error + 'c) hmap" where
  "all_factories so services factories =
     fold (\<lambda>sv fs. fold (\<lambda>(name, factory) fs. hm_insert name factory fs) (so_capabilities so sv) fs) services factories"

text \<open>\<open>mess\<close> is the messaging service that every runtime has.\<close>

definition runtime_build ::
  "(64 word \<Rightarrow> string) \<Rightarrow> (string \<Rightarrow> string option) \<Rightarrow> (string \<Rightarrow> config_error + toml) \<Rightarrow>
   (node list \<Rightarrow> (nat \<times> nat \<times> edge) list \<Rightarrow> nat + nat list) \<Rightarrow> 'b wasm_tools \<Rightarrow> ('c \<Rightarrow> string list) \<Rightarrow> 'l loader_ops \<Rightarrow>
   'x handler_ops \<Rightarrow> ('sv, 'x, 'c, 'i, 'p, 's, 'e) service_ops \<Rightarrow> 'sv \<Rightarrow> ('l, 'x, 'sv, 'c) runtime_builder \<Rightarrow>
   runtime_error + ('b, 'c, 'sv) runtime" where
  "runtime_build sf env read_toml topo tools interfaces lext hext so mess b =
     (let services = rb_services b @ [mess];
          gb = graph_builder_of so b services;
          loaders = (if gb_use_default_loaders gb then default_loaders else []) @ map ExtL (gb_loaders gb)
      in
      attempt (map_err GraphFailed (builder_build sf env read_toml topo lext hext gb)) (\<lambda>graph.
      attempt (map_err (\<lambda>e. GraphFailed (ConfigFailed e))
          (configured_handlers sf (boxed_loader_ops read_toml lext) loaders hext (gb_handlers gb) (gb_paths gb))) (\<lambda>hs.
      let services = absorb so (drop (length (rb_handlers b)) hs) services;
          factories = all_factories so services (rb_factories b)
      in
      attempt (map_err RegistriesFailed
          (build_registries sf tools topo \<lparr> hc_interfaces = interfaces, hc_factories = factories \<rparr> graph)) (\<lambda>(components, capabilities).
      Inr \<lparr> rt_host = component_host_new components capabilities, rt_services = services \<rparr>))))"

subsection \<open>The life of a runtime\<close>

fun start_services ::
  "('sv, 'x, 'c, 'i, 'p, 's, 'e) service_ops \<Rightarrow> 'i \<Rightarrow> 'p \<Rightarrow> 'sv list \<Rightarrow> 's \<Rightarrow> ('sv list \<times> 's) \<times> ('e + unit)" where
  "start_services so i p [] s = (([], s), Inr ())"
| "start_services so i p (sv # svs) s =
     (case so_start so (so_set_publisher so p (so_set_invoker so i sv)) s of
        ((sv, s), Inl e) \<Rightarrow> ((sv # svs, s), Inl e)
      | ((sv, s), Inr u) \<Rightarrow> (case start_services so i p svs s of ((svs, s), r) \<Rightarrow> ((sv # svs, s), r)))"

definition runtime_start ::
  "('sv, 'x, 'c, ('b, 'c) component_host, 'p, 's, 'e) service_ops \<Rightarrow> 'p \<Rightarrow> ('b, 'c, 'sv) runtime \<Rightarrow> 's \<Rightarrow>
   (('b, 'c, 'sv) runtime \<times> 's) \<times> ('e + unit)" where
  "runtime_start so p rt s =
     (case start_services so (rt_host rt) p (rt_services rt) s of
        ((svs, s), r) \<Rightarrow> ((rt \<lparr> rt_services := svs \<rparr>, s), r))"

definition runtime_shutdown ::
  "('sv, 'x, 'c, 'i, 'p, 's, 'e) service_ops \<Rightarrow> ('b, 'c, 'sv) runtime \<Rightarrow> 's \<Rightarrow> ('b, 'c, 'sv) runtime \<times> 's" where
  "runtime_shutdown so rt s =
     (case fold (\<lambda>sv (stopped, s). case so_shutdown so sv s of (sv, s) \<Rightarrow> (sv # stopped, s)) (rev (rt_services rt)) ([], s) of
        (svs, s) \<Rightarrow> (rt \<lparr> rt_services := svs \<rparr>, s))"

text \<open>\<open>run\<close>: between start and signal the services run, which \<open>serve\<close> stands for; it also says
  whether waiting for the signal failed.\<close>

definition runtime_run ::
  "('sv, 'x, 'c, ('b, 'c) component_host, 'p, 's, 'e) service_ops \<Rightarrow> 'p \<Rightarrow>
   (('b, 'c, 'sv) runtime \<times> 's \<Rightarrow> (('b, 'c, 'sv) runtime \<times> 's) \<times> (string + unit)) \<Rightarrow> ('b, 'c, 'sv) runtime \<Rightarrow> 's \<Rightarrow>
   (('b, 'c, 'sv) runtime \<times> 's) \<times> (('e + string) + unit)" where
  "runtime_run so p serve rt s =
     (case runtime_start so p rt s of
        (st, Inl e) \<Rightarrow> (st, Inl (Inl e))
      | (st, Inr u) \<Rightarrow>
          (case serve st of
             (st, Inl e) \<Rightarrow> (st, Inl (Inr e))
           | ((rt, s), Inr u) \<Rightarrow> (runtime_shutdown so rt s, Inr ())))"

definition runtime_list_components :: "('b, 'c, 'sv) runtime \<Rightarrow> selector option \<Rightarrow> component list" where
  "runtime_list_components rt sel = host_list_components (rt_host rt) sel"

definition runtime_get_component :: "('b, 'c, 'sv) runtime \<Rightarrow> string \<Rightarrow> component option" where
  "runtime_get_component rt name = host_get_component (rt_host rt) name"

definition runtime_instantiate ::
  "('b, 'c, 'l, 't, 'y, 'j, 's) host_ops \<Rightarrow> ('b, 'c, 'sv) runtime \<Rightarrow> string \<Rightarrow> (string hmap) option \<Rightarrow> 's \<Rightarrow> 's \<times> (host_error + 'j)" where
  "runtime_instantiate ops rt name env_vars s = host_instantiate ops (rt_host rt) name (unwrap_or env_vars []) s"

text \<open>\<open>ComponentInvoker\<close> for the host. The propagation context is task-local: a run under a context
  is the run of the operations that the context determines. \<open>et\<close> is the text of an error.\<close>

definition host_invoker ::
  "(host_error \<Rightarrow> string) \<Rightarrow> float_ops \<Rightarrow> ('b, 'c, 'l, 't, 'y, 'j, 's) host_ops \<Rightarrow>
   (propagation_context option \<Rightarrow> ('j \<times> 's, 'e, 'f) instance_ops) \<Rightarrow> (('b, 'c) component_host, 's) invoker_ops" where
  "host_invoker et fo ops iops =
     \<lparr> iv_get_component = host_get_component,
       iv_invoke = (\<lambda>host name key args ctx s. case host_invoke fo ops (iops ctx) host name key args [] s of
          (s, r) \<Rightarrow> (s, map_err et r)) \<rparr>"

subsection \<open>Order of the life cycle\<close>

definition injected :: "('sv, 'x, 'c, 'i, 'p, 's, 'e) service_ops \<Rightarrow> 'i \<Rightarrow> 'p \<Rightarrow> 'sv \<Rightarrow> 'sv" where
  "injected so i p sv = so_set_publisher so p (so_set_invoker so i sv)"

text \<open>The services \<open>svs\<close> start one after the other from the world \<open>s\<close>, which leaves them as \<open>svs'\<close>.\<close>

inductive started_in_order ::
  "('sv, 'x, 'c, 'i, 'p, 's, 'e) service_ops \<Rightarrow> 'i \<Rightarrow> 'p \<Rightarrow> 'sv list \<Rightarrow> 's \<Rightarrow> 'sv list \<Rightarrow> 's \<Rightarrow> bool"
  for so i p where
    none_started: "started_in_order so i p [] s [] s"
  | next_started: "so_start so (injected so i p sv) s = ((sv', s'), Inr ()) \<Longrightarrow> started_in_order so i p svs s' svs' s'' \<Longrightarrow>
      started_in_order so i p (sv # svs) s (sv' # svs') s''"

inductive_cases started_ConsE: "started_in_order so i p (sv # svs) s svs' s'"
inductive_simps started_Nil: "started_in_order so i p [] s svs' s'"

lemma start_services_ok:
  "start_services so i p svs s = ((svs', s'), Inr ()) \<Longrightarrow> started_in_order so i p svs s svs' s'"
proof (induction svs arbitrary: s svs')
  case Nil
  then show ?case by (simp add: none_started)
next
  case (Cons sv svs)
  obtain sv1 s1 r where st: "so_start so (injected so i p sv) s = ((sv1, s1), r)" by (metis prod.collapse)
  with Cons.prems obtain svs1 where "r = Inr ()" "start_services so i p svs s1 = ((svs1, s'), Inr ())" "svs' = sv1 # svs1"
    by (auto simp: injected_def split: sum.splits prod.splits)
  with Cons.IH st show ?case by (auto intro: next_started)
qed

lemma start_services_failed:
  "start_services so i p svs s = ((svs', s'), Inl e) \<Longrightarrow>
    \<exists>before sv rest before' s1 sv'. svs = before @ sv # rest \<and> started_in_order so i p before s before' s1 \<and>
      so_start so (injected so i p sv) s1 = ((sv', s'), Inl e) \<and> svs' = before' @ sv' # rest"
proof (induction svs arbitrary: s svs')
  case (Cons sv svs)
  obtain sv1 s1 r where st: "so_start so (injected so i p sv) s = ((sv1, s1), r)" by (metis prod.collapse)
  show ?case
  proof (cases r)
    case (Inl e')
    with st Cons.prems have "e' = e" "s1 = s'" "svs' = sv1 # svs" by (auto simp: injected_def)
    with st Inl none_started [of so i p s] show ?thesis
      by (intro exI [of _ "[]"] exI [of _ sv] exI [of _ svs] exI [of _ s] exI [of _ sv1]) simp
  next
    case (Inr u)
    with st Cons.prems obtain svs1 where "start_services so i p svs s1 = ((svs1, s'), Inl e)" and svs': "svs' = sv1 # svs1"
      by (auto simp: injected_def split: prod.splits)
    from Cons.IH [OF this(1)] obtain before sv2 rest before' s2 sv' where
      "svs = before @ sv2 # rest" "started_in_order so i p before s1 before' s2"
      "so_start so (injected so i p sv2) s2 = ((sv', s'), Inl e)" "svs1 = before' @ sv' # rest" by blast
    with st Inr svs' next_started [of so i p sv s sv1 s1 before before' s2] show ?thesis
      by (intro exI [of _ "sv # before"] exI [of _ sv2] exI [of _ rest] exI [of _ "sv1 # before'"] exI [of _ s2] exI [of _ sv']) simp
  qed
qed simp

text \<open>The services stop one after the other.\<close>

inductive stopped_in_order ::
  "('sv, 'x, 'c, 'i, 'p, 's, 'e) service_ops \<Rightarrow> 'sv list \<Rightarrow> 's \<Rightarrow> 'sv list \<Rightarrow> 's \<Rightarrow> bool"
  for so where
    none_stopped: "stopped_in_order so [] s [] s"
  | next_stopped: "so_shutdown so sv s = (sv', s') \<Longrightarrow> stopped_in_order so svs s' svs' s'' \<Longrightarrow>
      stopped_in_order so (sv # svs) s (sv' # svs') s''"

lemma shutdown_fold:
  "\<exists>svs' s'. fold (\<lambda>sv (stopped, s). case so_shutdown so sv s of (sv, s) \<Rightarrow> (sv # stopped, s)) svs (acc, s) = (rev svs' @ acc, s') \<and>
     stopped_in_order so svs s svs' s'"
proof (induction svs arbitrary: acc s)
  case Nil
  show ?case by (intro exI [of _ "[]"] exI [of _ s]) (simp add: none_stopped)
next
  case (Cons sv svs)
  obtain sv1 s1 where st: "so_shutdown so sv s = (sv1, s1)" by force
  from Cons [of "sv1 # acc" s1] obtain svs' s' where
    "fold (\<lambda>sv (stopped, s). case so_shutdown so sv s of (sv, s) \<Rightarrow> (sv # stopped, s)) svs (sv1 # acc, s1) = (rev svs' @ sv1 # acc, s')"
    "stopped_in_order so svs s1 svs' s'" by blast
  with st next_stopped [OF st] show ?case by (intro exI [of _ "sv1 # svs'"] exI [of _ s']) auto
qed

lemma runtime_shutdown_reverse:
  assumes "runtime_shutdown so rt s = (rt', s')"
  shows "rt_host rt' = rt_host rt \<and> stopped_in_order so (rev (rt_services rt)) s (rev (rt_services rt')) s'"
proof -
  obtain svs' s1 where "fold (\<lambda>sv (stopped, s). case so_shutdown so sv s of (sv, s) \<Rightarrow> (sv # stopped, s)) (rev (rt_services rt)) ([], s) =
      (rev svs' @ [], s1)" "stopped_in_order so (rev (rt_services rt)) s svs' s1"
    using shutdown_fold by metis
  with assms show ?thesis by (auto simp: runtime_shutdown_def)
qed

text \<open>
  C16. The services live in order. A run of the runtime starts them in the order of their registration, each
  with the invoker and the publisher injected first. If all start and the signal comes, each is shut
  down once, in the reverse order; if one fails to start, the run ends with its error at once: the
  services before it have started and are not shut down, and those after it were not touched.
\<close>

theorem services_run_in_order:
  assumes "runtime_run so p serve rt s = ((rt', s'), r)"
  shows "(\<exists>rt1 s1 rt2 s2. r = Inr () \<and> started_in_order so (rt_host rt) p (rt_services rt) s (rt_services rt1) s1 \<and>
       serve (rt1, s1) = ((rt2, s2), Inr ()) \<and> stopped_in_order so (rev (rt_services rt2)) s2 (rev (rt_services rt')) s') \<or>
    (\<exists>e rt1 s1. r = Inl (Inr e) \<and> started_in_order so (rt_host rt) p (rt_services rt) s (rt_services rt1) s1 \<and>
       serve (rt1, s1) = ((rt', s'), Inl e)) \<or>
    (\<exists>e before sv rest before' s1 sv'. r = Inl (Inl e) \<and> rt_services rt = before @ sv # rest \<and>
       started_in_order so (rt_host rt) p before s before' s1 \<and>
       so_start so (injected so (rt_host rt) p sv) s1 = ((sv', s'), Inl e) \<and> rt_services rt' = before' @ sv' # rest)"
proof -
  obtain svs1 s1 r1 where st: "start_services so (rt_host rt) p (rt_services rt) s = ((svs1, s1), r1)" by (metis prod.collapse)
  show ?thesis
  proof (cases r1)
    case (Inl e)
    with st assms have "r = Inl (Inl e)" "s1 = s'" "svs1 = rt_services rt'"
      by (auto simp: runtime_run_def runtime_start_def)
    with start_services_failed [OF st [unfolded Inl]] show ?thesis by (intro disjI2) simp
  next
    case (Inr u)
    let ?rt1 = "rt \<lparr> rt_services := svs1 \<rparr>"
    have ord: "started_in_order so (rt_host rt) p (rt_services rt) s (rt_services ?rt1) s1"
      using start_services_ok st Inr by auto
    obtain rt2 s2 r2 where serve: "serve (?rt1, s1) = ((rt2, s2), r2)" by (metis prod.collapse)
    show ?thesis
    proof (cases r2)
      case (Inl e)
      with st serve Inr assms have "r = Inl (Inr e)" "rt2 = rt'" "s2 = s'"
        by (auto simp: runtime_run_def runtime_start_def)
      with ord serve Inl show ?thesis by blast
    next
      case (Inr v)
      with st serve \<open>r1 = Inr u\<close> assms have r: "r = Inr ()" and "runtime_shutdown so rt2 s2 = (rt', s')"
        by (auto simp: runtime_run_def runtime_start_def)
      from runtime_shutdown_reverse [OF this(2)] ord serve Inr r show ?thesis
        by (intro disjI1 exI [of _ ?rt1] exI [of _ s1] exI [of _ rt2] exI [of _ s2]) simp
    qed
  qed
qed

subsection \<open>What was built\<close>

lemma absorb_length: "length (absorb so hs svs) = length svs"
  by (induction so hs svs rule: absorb.induct) (auto split: option.splits list.splits)

lemma absorb_nth:
  assumes "j < length svs"
  shows "absorb so hs svs ! j = svs ! j \<or> (\<exists>h \<in> set hs. absorb so hs svs ! j = so_configured so h (svs ! j))"
  using assms
proof (induction so hs svs arbitrary: j rule: absorb.induct)
  case (2 so hs sv svs)
  then show ?case
    by (cases j; cases hs; cases "so_config_handler so sv") auto
qed simp

lemma fold_insert_get:
  "hm_get k (fold (\<lambda>(name, x) m. hm_insert name x m) kvs m) =
     (case map_of (rev kvs) k of Some x \<Rightarrow> Some x | None \<Rightarrow> hm_get k m)"
  by (induction kvs arbitrary: m) (auto split: option.splits simp: map_add_def)

lemma all_factories_get:
  "hm_get kind (all_factories so services factories) =
     (case map_of (rev (concat (map (so_capabilities so) services))) kind of Some f \<Rightarrow> Some f | None \<Rightarrow> hm_get kind factories)"
  unfolding all_factories_def
  by (induction services arbitrary: factories) (auto simp: fold_insert_get map_add_def split: option.splits)

lemma runtime_build_cases:
  assumes "runtime_build sf env read_toml topo tools interfaces lext hext so mess b = Inr rt"
  obtains graph hs services components capabilities where
    "builder_build sf env read_toml topo lext hext (graph_builder_of so b (rb_services b @ [mess])) = Inr graph"
    "services = absorb so hs (rb_services b @ [mess])"
    "build_registries sf tools topo \<lparr> hc_interfaces = interfaces, hc_factories = all_factories so services (rb_factories b) \<rparr> graph =
       Inr (components, capabilities)"
    "rt_host rt = component_host_new components capabilities" "rt_services rt = services"
  using assms that by (fastforce simp: runtime_build_def Let_def attempt_Inr_iff map_err_Inr_iff)

lemma runtime_build_services:
  assumes "runtime_build sf env read_toml topo tools interfaces lext hext so mess b = Inr rt"
  shows "\<exists>hs. rt_services rt = absorb so hs (rb_services b @ [mess])"
  by (rule runtime_build_cases [OF assms]) blast

subsection \<open>The host as invoker\<close>

lemma host_component_iff:
  assumes "build_registries sf tools topo hosts graph = Inr (creg, kreg)"
  shows "host_get_component (component_host_new creg kreg) name = map_option component_of_spec (get_component name creg)"
proof (cases "get_component name creg")
  case None
  have "host_get_component (component_host_new creg kreg) name \<noteq> Some c" for c
  proof
    assume "host_get_component (component_host_new creg kreg) name = Some c"
    from host_lookup [OF this] obtain spec where "spec \<in> set (get_components creg)" "sp_name spec = name" by blast
    then have "get_component name creg = Some spec" using public_components_view [OF assms] by blast
    with None show False by simp
  qed
  with None show ?thesis by (metis not_Some_eq option.map(1))
next
  case (Some spec)
  then have "spec \<in> set (get_components creg)" "sp_name spec = name"
    using public_components_view [OF assms] by blast+
  then have "host_get_component (component_host_new creg kreg) name \<noteq> None"
    by (auto simp: host_get_component_def component_host_new_def hm_get_extend map_add_def map_of_eq_None_iff image_iff split: option.split)
  then obtain c where c: "host_get_component (component_host_new creg kreg) name = Some c" by blast
  from host_lookup [OF this] obtain spec' where "spec' \<in> set (get_components creg)" "c = component_of_spec spec'" "sp_name spec' = name"
    by blast
  then have "get_component name creg = Some spec'" using public_components_view [OF assms] by blast
  with Some c \<open>c = component_of_spec spec'\<close> show ?thesis by simp
qed

lemma to_invocation_shape:
  assumes "to_invocation sj pj mm msg = Inr iv"
  shows "inv_function_key iv = mm_function_key mm \<and> length (inv_args iv) = length (mm_params mm)"
proof (cases "mm_params mm = []")
  case True
  with assms show ?thesis by (auto simp: to_invocation_def)
next
  case False
  show ?thesis by (rule to_invocation_cases [OF assms False]) simp
qed

lemma from_component_function:
  "from_component c key config = Inr mm \<Longrightarrow>
     \<exists>f. hm_get (mm_function_key mm) (c_functions c) = Some f \<and> mm_params mm = fn_params f"
  by (auto simp: from_component_def attempt_Inr_iff ok_or_Inr_iff)

lemma activator_new_cases:
  assumes "activator_new ops invoker name key config pub = Inr act"
  obtains c where "iv_get_component ops invoker name = Some c" "act_invoker act = invoker" "act_component_name act = name"
    "act_mode act = Direct \<and> exports_handler_interface c \<or> (\<exists>mm. act_mode act = Mapped mm \<and> from_component c key config = Inr mm)"
  using assms that by (fastforce simp: activator_new_def attempt_Inr_iff ok_or_Inr_iff map_err_Inr_iff map_ok_Inr_iff split: if_splits)


subsection \<open>A started runtime serves its configuration\<close>

definition subscription_served ::
  "('i, ('q, 'b, 'w) messaging_scheme) invoker_ops \<Rightarrow> 'i \<Rightarrow> reply_publisher \<Rightarrow> subscription_config \<Rightarrow>
   'i bus \<times> ('q, 'b, 'w) messaging_scheme \<Rightarrow> bool" where
  "subscription_served ops invoker publisher sub s \<longleftrightarrow>
     (\<exists>d \<in> set (bus_dispatchers (fst s)). dr_group d = sc_component_name sub \<and>
        hm_get (sc_channel_name sub) (ms_managed (snd s)) = Some (dr_channel d) \<and>
        activator_new ops invoker (sc_component_name sub) (sc_function_key sub) (sc_mapping sub) (Some publisher) = Inr (dr_handler d))"

lemma served_extends: "subscription_served ops i p sub s \<Longrightarrow> extends s s' \<Longrightarrow> subscription_served ops i p sub s'"
  unfolding subscription_served_def extends_def by blast

lemma start_subscription_served:
  assumes "bus_inv mp bo s" and "start_subscription mp bo ops i p sub s = (s', Inr ())"
  shows "subscription_served ops i p sub s'"
proof -
  obtain b st where s: "s = (b, st)" by force
  obtain ref st1 where ch: "subscription_channel bo (sc_channel_name sub) st = (ref, st1)" by force
  note one = subscription_channel_props [OF assms(1) [unfolded s] ch]
  obtain act where act: "activator_new ops i (sc_component_name sub) (sc_function_key sub) (sc_mapping sub) (Some p) = Inr act"
    using assms(2) by (auto simp: start_subscription_def s ch Let_def split: sum.splits)
  with assms(2) one(2) show ?thesis
    by (auto simp: start_subscription_def s ch Let_def subscription_served_def)
qed

lemma start_subscriptions_served:
  assumes "bus_inv mp bo s" and "start_subscriptions mp bo ops i p subs s = (s', Inr ())" and "sub \<in> set subs"
  shows "subscription_served ops i p sub s'"
  using assms
proof (induction subs arbitrary: s)
  case (Cons sub' subs)
  obtain s1 where s1: "start_subscription mp bo ops i p sub' s = (s1, Inr ())"
    and rest: "start_subscriptions mp bo ops i p subs s1 = (s', Inr ())"
    using Cons.prems(2) by (auto split: prod.splits sum.splits)
  have inv: "bus_inv mp bo s1" using start_subscription_props [OF Cons.prems(1) s1] by blast
  show ?case
  proof (cases "sub = sub'")
    case True
    have "extends s1 s'" using start_subscriptions_props [OF inv rest] by blast
    with True start_subscription_served [OF Cons.prems(1) s1] show ?thesis by (blast intro: served_extends)
  next
    case False
    with Cons.IH [OF inv rest] Cons.prems(3) show ?thesis by simp
  qed
qed simp

lemma add_subscriptions_fields:
  "bus_subscriptions (fold add_subscription subs b) = bus_subscriptions b @ subs"
  "bus_invoker (fold add_subscription subs b) = bus_invoker b"
  "bus_shared_publisher (fold add_subscription subs b) = bus_shared_publisher b"
  by (induction subs arbitrary: b) (simp_all add: add_subscription_def)

lemma service_start_served:
  assumes "bus_inv mp bo (svc_bus svc, st)" and "service_start mp bo ops (svc, st) = ((svc', st'), Inr ())"
    and "bus_invoker (svc_bus svc) = Some i"
  shows "bus_inv mp bo (svc_bus svc', st') \<and>
    (\<forall>sub \<in> set (mh_subscriptions (svc_handler svc)). subscription_served ops i service_publisher sub (svc_bus svc', st'))"
proof -
  let ?b = "set_reply_publisher (RegistryPublisher Ephemeral) (fold add_subscription (mh_subscriptions (svc_handler svc)) (svc_bus svc))"
  have b: "bus_invoker ?b = Some i" "bus_subscriptions ?b = bus_subscriptions (svc_bus svc) @ mh_subscriptions (svc_handler svc)"
    "bus_reply_publisher ?b = service_publisher" "bus_dispatchers ?b = bus_dispatchers (svc_bus svc)"
    using assms(3) by (simp_all add: set_reply_publisher_def add_subscriptions_fields add_subscriptions_dispatchers
        bus_reply_publisher_def service_publisher_def)
  have inv: "bus_inv mp bo (?b \<lparr> bus_subscriptions := [] \<rparr>, st)" using assms(1) b(4) by (simp add: bus_inv_def)
  have start: "start_subscriptions mp bo ops i service_publisher (bus_subscriptions ?b) (?b \<lparr> bus_subscriptions := [] \<rparr>, st) =
      ((svc_bus svc', st'), Inr ())"
    using assms(2) by (auto simp: service_start_def Let_def bus_start_def b(1,3) split: prod.splits)
  from start_subscriptions_props [OF inv start] start_subscriptions_served [OF inv start] b(2)
  show ?thesis by auto
qed

lemma started_each:
  assumes "started_in_order so i p svs s svs' s'" and "P s"
    and "\<And>sv s sv' s'. sv \<in> set svs \<Longrightarrow> so_start so (injected so i p sv) s = ((sv', s'), Inr ()) \<Longrightarrow> P s \<Longrightarrow> P s'"
  shows "P s' \<and> length svs' = length svs \<and>
    (\<forall>j < length svs. \<exists>s1 s2. P s1 \<and> so_start so (injected so i p (svs ! j)) s1 = ((svs' ! j, s2), Inr ()))"
  using assms
proof (induction rule: started_in_order.induct)
  case (next_started sv s sv' s' svs svs' s'')
  have p: "P s'" by (rule next_started.prems(2) [OF _ next_started.hyps(1) next_started.prems(1)]) simp
  have ih: "P s'' \<and> length svs' = length svs \<and>
    (\<forall>j < length svs. \<exists>s1 s2. P s1 \<and> so_start so (injected so i p (svs ! j)) s1 = ((svs' ! j, s2), Inr ()))"
    by (rule next_started.IH [OF p]) (rule next_started.prems(2), rule list.set_intros(2), assumption+)
  have "\<exists>s1 s2. P s1 \<and> so_start so (injected so i p ((sv # svs) ! j)) s1 = (((sv' # svs') ! j, s2), Inr ())"
    if "j < Suc (length svs)" for j
    using that ih next_started.hyps(1) next_started.prems(1) by (cases j) auto
  with ih show ?case by simp
qed simp

lemma started_snoc:
  assumes "started_in_order so i p (svs @ [sv]) s svs' s'"
  obtains svs1 s1 sv' where "started_in_order so i p svs s svs1 s1" "so_start so (injected so i p sv) s1 = ((sv', s'), Inr ())"
    "svs' = svs1 @ [sv']"
proof -
  have "\<exists>svs1 s1 sv'. started_in_order so i p svs s svs1 s1 \<and> so_start so (injected so i p sv) s1 = ((sv', s'), Inr ()) \<and>
      svs' = svs1 @ [sv']"
    using assms
  proof (induction svs arbitrary: s svs')
    case Nil
    then show ?case by (auto elim!: started_ConsE simp: started_Nil)
  next
    case (Cons x svs)
    then obtain x' s2 svs2 where x: "so_start so (injected so i p x) s = ((x', s2), Inr ())"
      "started_in_order so i p (svs @ [sv]) s2 svs2 s'" "svs' = x' # svs2"
      by (auto elim!: started_ConsE)
    from Cons.IH [OF x(2)] obtain svs1 s1 sv' where "started_in_order so i p svs s2 svs1 s1"
      "so_start so (injected so i p sv) s1 = ((sv', s'), Inr ())" "svs2 = svs1 @ [sv']" by blast
    with x(3) next_started [OF x(1) this(1)] show ?case
      by (intro exI [of _ "x' # svs1"] exI [of _ s1] exI [of _ sv']) simp
  qed
  with that show thesis by blast
qed

lemma start_messaging:
  assumes "so_start (boxed_services (messaging_service_ops mp bo ops tmo) hs us)
      (injected (boxed_services (messaging_service_ops mp bo ops tmo) hs us) i p (MessagingS m)) s = ((sv', s'), Inr ())"
  obtains m' where "sv' = MessagingS m'" "service_start mp bo ops (service_set_invoker i m, s) = ((m', s'), Inr ())"
  using assms that
  by (auto simp: boxed_services_def injected_def messaging_service_ops_def default_service_ops_def map_err_Inr_iff
      map_prod_def split: prod.splits)

lemma start_http:
  assumes "so_start (boxed_services ms (http_service_ops vm env ops bt) us)
      (injected (boxed_services ms (http_service_ops vm env ops bt) us) i p (HttpS h)) s = ((sv', s'), Inr ())"
  obtains h' where "sv' = HttpS h'" "s' = s"
    "http_service_start vm env ops bt (http_set_publisher p (http_set_invoker i h)) = (h', Inr ())"
  using assms that
  by (auto simp: boxed_services_def injected_def http_service_ops_def default_service_ops_def map_err_Inr_iff
      map_prod_def split: prod.splits)

lemma start_user:
  assumes "so_start (boxed_services ms hs us) (injected (boxed_services ms hs us) i p (UserS z)) s = ((sv', s'), Inr ())"
  obtains z' where "sv' = UserS z'" "so_start us (injected us i p z) s = ((z', s'), Inr ())"
  using assms that by (auto simp: boxed_services_def injected_def map_err_Inr_iff map_prod_def split: prod.splits)

text \<open>The services of a builder: HTTP services as they are by default, and services of the user.\<close>

definition fresh_service :: "('i, 'v, 'h, 'st, 'z) service \<Rightarrow> bool" where
  "fresh_service sv = (case sv of MessagingS m \<Rightarrow> False | HttpS h \<Rightarrow> h = http_service_default | UserS z \<Rightarrow> True)"

definition idle :: "('i, 'v, 'h, 'st, 'z) service \<Rightarrow> bool" where
  "idle sv = (case sv of MessagingS m \<Rightarrow> svc_bus m = bus_new | HttpS h \<Rightarrow> hs_tasks h = [] | UserS z \<Rightarrow> True)"

text \<open>The services of the user, when they start, leave the channels of the messaging state in order.\<close>

definition keeps_messaging ::
  "('q, message) mpsc_ops \<Rightarrow> ('b, message) broadcast_ops \<Rightarrow> 'i bus \<Rightarrow>
   ('z, 'x, 'c, 'j, 'p, ('q, 'b, 'w) messaging_scheme, 'e) service_ops \<Rightarrow> bool" where
  "keeps_messaging mp bo b us \<longleftrightarrow>
     (\<forall>z s z' s'. so_start us z s = ((z', s'), Inr ()) \<longrightarrow> bus_inv mp bo (b, s) \<longrightarrow> bus_inv mp bo (b, s'))"

lemma built_services:
  fixes ms hs us
  assumes "runtime_build sf env read_toml topo tools interfaces lext hext
      (boxed_services (messaging_service_ops mp bo ops tmo) (http_service_ops vm env' ops bt) us) (MessagingS messaging_service_new) b = Inr rt"
    and "list_all fresh_service (rb_services b)"
  obtains svs m where "rt_services rt = svs @ [MessagingS m]" "svc_bus m = bus_new" "length svs = length (rb_services b)"
    "list_all (\<lambda>sv. (\<forall>m. sv \<noteq> MessagingS m) \<and> idle sv) svs"
proof -
  let ?so = "boxed_services (messaging_service_ops mp bo ops tmo) (http_service_ops vm env' ops bt) us"
  let ?init = "rb_services b @ [MessagingS messaging_service_new]"
  from runtime_build_services [OF assms(1)] obtain hs where s: "rt_services rt = absorb ?so hs ?init" by blast
  have len: "length (rt_services rt) = Suc (length (rb_services b))" by (simp add: s absorb_length)
  have kept: "(\<forall>m. so_configured ?so h sv \<noteq> MessagingS m) \<and> idle (so_configured ?so h sv)" if "fresh_service sv" for h sv
    using that by (cases sv; cases h)
      (auto simp: fresh_service_def idle_def boxed_services_def http_service_ops_def default_service_ops_def http_service_default_def)
  have "(\<forall>m. rt_services rt ! j \<noteq> MessagingS m) \<and> idle (rt_services rt ! j)" if "j < length (rb_services b)" for j
  proof -
    have f: "fresh_service (?init ! j)" using assms(2) that by (simp add: list_all_length nth_append)
    then have "(\<forall>m. ?init ! j \<noteq> MessagingS m) \<and> idle (?init ! j)"
      by (auto simp: fresh_service_def idle_def http_service_default_def split: service.splits)
    moreover have "absorb ?so hs ?init ! j = ?init ! j \<or> (\<exists>h \<in> set hs. absorb ?so hs ?init ! j = so_configured ?so h (?init ! j))"
      by (rule absorb_nth) (use that in simp)
    ultimately show ?thesis unfolding s using kept [OF f] by metis
  qed
  then have l: "list_all (\<lambda>sv. (\<forall>m. sv \<noteq> MessagingS m) \<and> idle sv) (butlast (rt_services rt))"
    using len by (simp add: list_all_length nth_butlast)
  have conf: "\<exists>m. so_configured ?so h (MessagingS messaging_service_new) = MessagingS m \<and> svc_bus m = bus_new" for h
    by (cases h) (auto simp: boxed_services_def messaging_service_ops_def default_service_ops_def messaging_service_new_def)
  have "absorb ?so hs ?init ! length (rb_services b) = ?init ! length (rb_services b) \<or>
      (\<exists>h \<in> set hs. absorb ?so hs ?init ! length (rb_services b) = so_configured ?so h (?init ! length (rb_services b)))"
    by (rule absorb_nth) simp
  then have "\<exists>m. rt_services rt ! length (rb_services b) = MessagingS m \<and> svc_bus m = bus_new"
    unfolding s nth_append_length using conf by (metis messaging_service.select_convs(2) messaging_service_new_def)
  then obtain m where m: "last (rt_services rt) = MessagingS m" "svc_bus m = bus_new"
    using len by (cases "rt_services rt" rule: rev_cases) (auto simp: nth_append)
  have split: "rt_services rt = butlast (rt_services rt) @ [MessagingS m]"
    using len m(1) by (cases "rt_services rt" rule: rev_cases) simp_all
  have "length (butlast (rt_services rt)) = length (rb_services b)" using len by simp
  from that [OF split m(2) this l] show thesis .
qed

text \<open>
  C2. A started runtime serves its whole configuration. The messaging service is the last of its services;
  after a successful start, each of its subscriptions has a dispatcher on the subscription's own channel, with
  the subscription's component as group and an activator made for its component, function and mapping
  on this runtime's host; and each HTTP service runs one server per configured server, in order,
  with a router compiled from its configuration on this host and the runtime's publisher. Services of
  the user only have to leave the messaging state in order.
\<close>

theorem runtime_serves:
  assumes "runtime_build sf env read_toml topo tools interfaces lext hext
      (boxed_services (messaging_service_ops mp bo ops tmo) (http_service_ops vm env' ops bt) us) (MessagingS messaging_service_new) b = Inr rt"
    and "list_all fresh_service (rb_services b)"
    and "keeps_messaging mp bo (bus_new :: ('b, 'c) component_host bus) us"
    and "bus_inv mp bo (bus_new :: ('b, 'c) component_host bus, st)"
    and "runtime_start (boxed_services (messaging_service_ops mp bo ops tmo) (http_service_ops vm env' ops bt) us) p rt st =
      ((rt', st'), Inr ())"
  shows "(\<exists>m m'. last (rt_services rt) = MessagingS m \<and> last (rt_services rt') = MessagingS m' \<and> bus_inv mp bo (svc_bus m', st') \<and>
      (\<forall>sub \<in> set (mh_subscriptions (svc_handler m)).
         subscription_served ops (rt_host rt) service_publisher sub (svc_bus m', st'))) \<and>
    length (rt_services rt') = Suc (length (rb_services b)) \<and>
    (\<forall>j h. j < length (rb_services b) \<and> rt_services rt ! j = HttpS h \<longrightarrow>
       (\<exists>h'. rt_services rt' ! j = HttpS h' \<and> map ht_name (hs_tasks h') = map sv_name (hh_servers (hs_handler h)) \<and>
          (\<forall>k < length (hs_tasks h'). http_server_new vm env' ops bt (hh_servers (hs_handler h) ! k) (rt_host rt) (Some p) =
             Inr (ht_router (hs_tasks h' ! k)))))"
proof -
  let ?so = "boxed_services (messaging_service_ops mp bo ops tmo) (http_service_ops vm env' ops bt) us"
  let ?P = "\<lambda>s. bus_inv mp bo (bus_new :: ('b, 'c) component_host bus, s)"
  from assms(1,2) obtain svs m where svs: "rt_services rt = svs @ [MessagingS m]" and bus: "svc_bus m = bus_new"
    and len: "length svs = length (rb_services b)" and l: "list_all (\<lambda>sv. (\<forall>m. sv \<noteq> MessagingS m) \<and> idle sv) svs"
    by (rule built_services)
  have run: "started_in_order ?so (rt_host rt) p (svs @ [MessagingS m]) st (rt_services rt') st'"
    using start_services_ok assms(5) svs by (auto simp: runtime_start_def split: prod.splits)
  from run obtain svs1 s1 sv' where one: "started_in_order ?so (rt_host rt) p svs st svs1 s1"
    and last: "so_start ?so (injected ?so (rt_host rt) p (MessagingS m)) s1 = ((sv', st'), Inr ())"
    and svs': "rt_services rt' = svs1 @ [sv']" by (rule started_snoc)
  have keeps: "?P s'" if "sv \<in> set svs" "so_start ?so (injected ?so (rt_host rt) p sv) s = ((sv', s'), Inr ())" "?P s" for sv s sv' s'
  proof (cases sv)
    case (MessagingS m)
    with that(1) l show ?thesis by (auto simp: list_all_iff)
  next
    case (HttpS h)
    from that(2) [unfolded HttpS] obtain h' where "s' = s" by (rule start_http)
    with that(3) show ?thesis by simp
  next
    case (UserS z)
    from that(2) [unfolded UserS] obtain z' where "so_start us (injected us (rt_host rt) p z) s = ((z', s'), Inr ())"
      by (rule start_user)
    with assms(3) that(3) show ?thesis unfolding keeps_messaging_def by blast
  qed
  have "?P s1 \<and> length svs1 = length svs \<and>
    (\<forall>j < length svs. \<exists>s1 s2. ?P s1 \<and> so_start ?so (injected ?so (rt_host rt) p (svs ! j)) s1 = ((svs1 ! j, s2), Inr ()))"
    by (rule started_each [where P = ?P, OF one assms(4)]) (rule keeps, assumption+)
  then have each: "?P s1" "length svs1 = length svs"
    "\<And>j. j < length svs \<Longrightarrow> \<exists>s2 s3. ?P s2 \<and> so_start ?so (injected ?so (rt_host rt) p (svs ! j)) s2 = ((svs1 ! j, s3), Inr ())"
    by blast+
  from last obtain m' where m': "sv' = MessagingS m'" "service_start mp bo ops (service_set_invoker (rt_host rt) m, s1) = ((m', st'), Inr ())"
    by (rule start_messaging)
  have inv: "bus_inv mp bo (svc_bus (service_set_invoker (rt_host rt) m), s1)"
    "bus_invoker (svc_bus (service_set_invoker (rt_host rt) m)) = Some (rt_host rt)"
    using each(1) bus by (simp_all add: bus_inv_def service_set_invoker_def set_invoker_def bus_new_def)
  from service_start_served [OF inv(1) m'(2) inv(2)]
  have mess: "bus_inv mp bo (svc_bus m', st')"
    "\<forall>sub \<in> set (mh_subscriptions (svc_handler m)). subscription_served ops (rt_host rt) service_publisher sub (svc_bus m', st')"
    by (simp_all add: service_set_invoker_def)
  have http: "\<exists>h'. rt_services rt' ! j = HttpS h' \<and> map ht_name (hs_tasks h') = map sv_name (hh_servers (hs_handler h)) \<and>
      (\<forall>k < length (hs_tasks h'). http_server_new vm env' ops bt (hh_servers (hs_handler h) ! k) (rt_host rt) (Some p) =
         Inr (ht_router (hs_tasks h' ! k)))"
    if j: "j < length svs" and h: "svs ! j = HttpS h" for j h
  proof -
    from each(3) [OF j] obtain s2 s3 where
      "so_start ?so (injected ?so (rt_host rt) p (HttpS h)) s2 = ((svs1 ! j, s3), Inr ())" by (auto simp: h)
    then obtain h' where h': "svs1 ! j = HttpS h'"
      "http_service_start vm env' ops bt (http_set_publisher p (http_set_invoker (rt_host rt) h)) = (h', Inr ())"
      by (rule start_http)
    have "hs_tasks (http_set_publisher p (http_set_invoker (rt_host rt) h)) = []"
      using l j h by (auto simp: list_all_length idle_def http_set_publisher_def http_set_invoker_def)
    from started_service [OF h'(2) this] h'(1) j each(2) show ?thesis
      by (simp add: svs' nth_append http_set_publisher_def http_set_invoker_def)
  qed
  show ?thesis
    using mess http m'(1) svs svs' len each(2) by (auto simp: nth_append)
qed

subsection \<open>Examples\<close>

type_synonym demo_world = "(message list \<times> nat, message list_broadcast) messaging"

type_synonym demo_services = "((string, unit) component_host, unit, channel_return_address, demo_world, unit) service"

definition demo_host_ops :: "(string, unit, nat, unit, unit, string, demo_world) host_ops" where
  "demo_host_ops =
     \<lparr> hp_linker = \<lparr> lk_new = 0, lk_add = (\<lambda>item n. Inr (Suc n)) \<rparr>, hp_can_open = (\<lambda>path. True), hp_create_state = (\<lambda>c. Inr None),
       hp_instantiate = (\<lambda>b l state s. (s, Inr b)) \<rparr>"

definition demo_guest :: "(string \<times> demo_world, string, string) instance_ops" where
  "demo_guest =
     \<lparr> io_get_export = (\<lambda>st parent n. Some n), io_get_func = (\<lambda>st e. Some e), io_param_types = (\<lambda>st f. [TString]),
       io_call = (\<lambda>f vs st. (st, Inr vs)) \<rparr>"

definition demo_invoker :: "((string, unit) component_host, demo_world) invoker_ops" where
  "demo_invoker = host_invoker (\<lambda>_. ''failed'') bit_floats demo_host_ops (\<lambda>ctx. demo_guest)"

definition echo_function :: function_spec where
  "echo_function = function_new None ''run'' []
     [\<lparr> fp_name = ''text'', fp_is_optional = False, fp_json_schema = jtype ''string'' \<rparr>] None True"

definition demo_tools :: "string wasm_tools" where
  "demo_tools =
     \<lparr> wt_pull_oci = (\<lambda>_. Inr ''binary''), wt_read_file = (\<lambda>_. Inr ''binary''),
       wt_parse = (\<lambda>_. Inr (\<lparr> pm_namespace = None, pm_name = None \<rparr>, [], [], [(''run'', echo_function)])),
       wt_plug = (\<lambda>_ b. Inr b), wt_static_config = (\<lambda>_. Inr ''config''), wt_wrapper = (\<lambda>b. Inr b) \<rparr>"

definition claiming_loader :: "generic_definition list loader_ops" where
  "claiming_loader = \<lparr> lo_claim = (\<lambda>l path. (True, l)), lo_load = (\<lambda>l. Inr l) \<rparr>"

definition demo_service_ops ::
  "(demo_services, unit registered_handler, unit, (string, unit) component_host,
    (channel_return_address, demo_world) publisher_ops, demo_world, unit service_failure) service_ops" where
  "demo_service_ops =
     boxed_services (messaging_service_ops list_mpsc list_broadcast_ops demo_invoker (\<lambda>b. False))
       (http_service_ops (\<lambda>_. True) demo_env demo_invoker (\<lambda>_ _ _. None)) default_service_ops"

definition demo_builder :: "(generic_definition list, unit registered_handler, demo_services, unit) runtime_builder" where
  "demo_builder = no_default_loaders (with_service (HttpS http_service_default) (from_path ''demo''
     (with_definition_loader
       [\<lparr> gd_category = ''component'', gd_name = ''echo'', gd_properties = [(''uri'', JString ''echo.wasm'')] \<rparr>,
        \<lparr> gd_category = ''subscription'', gd_name = ''orders'', gd_properties = [(''component'', JString ''echo'')] \<rparr>]
       runtime_builder_new)))"

definition demo_built :: "runtime_error + (string, unit, demo_services) runtime" where
  "demo_built = runtime_build (\<lambda>_. []) (\<lambda>_. None) (\<lambda>_. Inl (NoLoader [])) listed_order demo_tools (\<lambda>c. []) claiming_loader
     (registered_ops (\<lambda>_. True) default_handler_ops) demo_service_ops (MessagingS messaging_service_new) demo_builder"

definition demo_runtime :: "(string, unit, demo_services) runtime" where
  "demo_runtime = (case demo_built of Inr rt \<Rightarrow> rt | Inl e \<Rightarrow> \<lparr> rt_host = component_host_new [] [], rt_services = [] \<rparr>)"

definition demo_publisher :: "(channel_return_address, demo_world) publisher_ops" where
  "demo_publisher = bus_publisher list_mpsc list_broadcast_ops (\<lambda>s. s) ''1'' ''u'' 0 None"

lemma demo_built_ok: "demo_built = Inr demo_runtime"
proof (cases demo_built)
  case (Inl e)
  have "is_ok demo_built" by code_simp
  then show ?thesis unfolding Inl by simp
next
  case (Inr rt)
  show ?thesis unfolding demo_runtime_def Inr sum.case by (rule refl)
qed

definition demo_started :: "((string, unit, demo_services) runtime \<times> demo_world) \<times> (unit service_failure + unit)" where
  "demo_started = runtime_start demo_service_ops demo_publisher demo_runtime messaging_new"

lemma demo_started_ok: "demo_started = (fst demo_started, Inr ())"
proof -
  have "snd demo_started = Inr ()" by code_simp
  then show ?thesis by (metis prod.collapse)
qed

theorem runtime_serves_witness:
  "\<exists>m d. last (rt_services (fst (fst demo_started))) = MessagingS m \<and> d \<in> set (bus_dispatchers (svc_bus m)) \<and> dr_group d = ''echo''"
proof -
  have fresh: "list_all fresh_service (rb_services demo_builder)"
    by (simp add: demo_builder_def no_default_loaders_def with_service_def from_path_def with_definition_loader_def runtime_builder_new_def
        fresh_service_def)
  have bus: "bus_inv list_mpsc list_broadcast_ops (bus_new :: (string, unit) component_host bus, messaging_new :: demo_world)"
    by (rule bus_inv_new [OF list_mpsc_spec list_broadcast_spec])
  obtain rt' st' where started: "fst demo_started = (rt', st')" by force
  have start: "runtime_start demo_service_ops demo_publisher demo_runtime messaging_new = ((rt', st'), Inr ())"
    using demo_started_ok by (simp add: demo_started_def [symmetric] started)
  have user: "keeps_messaging list_mpsc list_broadcast_ops (bus_new :: (string, unit) component_host bus)
      (default_service_ops :: (unit, unit, unit, (string, unit) component_host, (channel_return_address, demo_world) publisher_ops, demo_world, unit) service_ops)"
    by (simp add: keeps_messaging_def default_service_ops_def)
  from runtime_serves [OF demo_built_ok [unfolded demo_built_def demo_service_ops_def] fresh user bus start [unfolded demo_service_ops_def]]
  obtain m m' where m: "last (rt_services demo_runtime) = MessagingS m" "last (rt_services rt') = MessagingS m'"
    "\<forall>sub \<in> set (mh_subscriptions (svc_handler m)).
       subscription_served demo_invoker (rt_host demo_runtime) service_publisher sub (svc_bus m', st')" by blast
  have "(case last (rt_services demo_runtime) of MessagingS m \<Rightarrow> map sc_component_name (mh_subscriptions (svc_handler m)) | _ \<Rightarrow> []) = [''echo'']"
    by code_simp
  then obtain sub where "sub \<in> set (mh_subscriptions (svc_handler m))" "sc_component_name sub = ''echo''"
    using m(1) by auto
  with m(2,3) show ?thesis by (fastforce simp: started subscription_served_def)
qed

theorem services_run_in_order_witness:
  "\<exists>svs s. started_in_order demo_service_ops (rt_host demo_runtime) demo_publisher (rt_services demo_runtime) messaging_new svs s"
proof -
  let ?run = "runtime_run demo_service_ops demo_publisher (\<lambda>st. (st, Inr ())) demo_runtime messaging_new"
  obtain rt' s' r where run: "?run = ((rt', s'), r)" by (metis prod.collapse)
  have "snd ?run = Inr ()" by code_simp
  with run have "r = Inr ()" by simp
  with services_run_in_order [OF run] show ?thesis by auto
qed

definition demo_graph :: component_graph where
  "demo_graph = \<lparr> cg_nodes = [NComponent (plain_component ''echo'' [] [])], cg_edges = [], cg_node_map = [(''echo'', 0)] \<rparr>"

definition demo_registries :: "string component_registry \<times> unit capability_registry" where
  "demo_registries =
     (case build_registries (\<lambda>_. []) demo_tools listed_order \<lparr> hc_interfaces = (\<lambda>c. []), hc_factories = [] \<rparr> demo_graph of
        Inr r \<Rightarrow> r | Inl _ \<Rightarrow> ([], []))"

definition demo_act :: "(string, unit) component_host activator" where
  "demo_act =
     (case activator_new demo_invoker (component_host_new (fst demo_registries) (snd demo_registries)) ''echo'' None
        \<lparr> mc_param_mapping = None, mc_param_encoding = None, mc_result_decoding = None, mc_result_mapping = None \<rparr> None of
        Inr act \<Rightarrow> act
      | Inl e \<Rightarrow> \<lparr> act_invoker = component_host_new [] [], act_component_name = [], act_mode = Direct, act_reply_publisher = None \<rparr>)"

definition demo_text :: message where
  "demo_text = message_build ''u'' 0 None (builder_header CONTENT_TYPE (HString ''text/plain'') (builder_new ''hello''))"


end
