(* ===== verification/Wat.thy ===== *)
theory Wat
  imports Wit_Types Rust_Nums
begin

section \<open>The core WebAssembly that the interceptor generates\<close>

text \<open>
  \<open>crates/interceptor/src/generator.rs\<close> writes three core modules as WebAssembly text and has them
  parsed. The text is modelled as the tree its parentheses denote: one constructor for each folded
  instruction that the generator writes, one for each identifier. \<open>itype\<close> is the validation of such
  code (every instruction of a body leaves the stack as it found it, its operands have the types it
  takes, every local, label and callee exists), and \<open>eval_alloc\<close> runs the two allocators.
\<close>

datatype wat_local =
    ArgsArea | Handle | BeforeRet | AfterRet | Disc | Watermark | TargetRet | Out | ResultVal
  | ArgVal nat | ArgPart nat nat | ResultPart nat | Ptr

datatype local_ref = Index nat | Named wat_local

datatype callee = Alloc | InvNew | InvBefore | InvAfter | InvDrop | Target nat

datatype wat_label = DoneLabel | RetryLabel

datatype unary = ExtendS | ExtendU | Wrap | ReinterpretF32 | ReinterpretF64

datatype binary = Add32 | Sub32 | And32 | Eq32 | Ne32

datatype instr =
    LocalGet local_ref
  | LocalSet local_ref instr
  | HeapGet
  | HeapSet instr
  | Const core_type int
  | Unary unary instr
  | Binary binary instr instr
  | Load core_type nat instr
  | Load8U nat instr
  | Store core_type nat instr instr
  | Store8 nat instr instr
  | Call callee "instr list"
  | If instr "instr list"
  | Br wat_label
  | Block wat_label "instr list"
  | Loop wat_label "instr list"
  | Unreachable

type_synonym signature = "core_type list \<times> core_type list"

record wat_func =
  wfn_export :: string
  wfn_params :: "core_type list"
  wfn_results :: "core_type list"
  wfn_locals :: "(wat_local \<times> core_type) list"
  wfn_body :: "instr list"

subsection \<open>Validation\<close>

record ctx =
  cx_params :: "core_type list"
  cx_locals :: "(wat_local \<times> core_type) list"
  cx_targets :: "signature list"

text \<open>A numeric reference counts the parameters first and then the declared locals.\<close>

fun local_type :: "ctx \<Rightarrow> local_ref \<Rightarrow> core_type option" where
  "local_type c (Index n) =
     (let all = cx_params c @ map snd (cx_locals c) in if n < length all then Some (all ! n) else None)"
| "local_type c (Named x) = map_of (cx_locals c) x"

fun callee_type :: "ctx \<Rightarrow> callee \<Rightarrow> signature option" where
  "callee_type c Alloc = Some ([I32], [I32])"
| "callee_type c InvNew = Some ([I32, I32, I32, I32], [I32])"
| "callee_type c InvBefore = Some ([I32, I32], [])"
| "callee_type c InvAfter = Some ([I32, I32, I32, I64, I32, I32], [])"
| "callee_type c InvDrop = Some ([I32], [])"
| "callee_type c (Target i) = (if i < length (cx_targets c) then Some (cx_targets c ! i) else None)"

fun unary_type :: "unary \<Rightarrow> core_type \<times> core_type" where
  "unary_type ExtendS = (I32, I64)"
| "unary_type ExtendU = (I32, I64)"
| "unary_type Wrap = (I64, I32)"
| "unary_type ReinterpretF32 = (F32, I32)"
| "unary_type ReinterpretF64 = (F64, I64)"

fun itype :: "ctx \<Rightarrow> wat_label list \<Rightarrow> instr \<Rightarrow> core_type list option"
  and itypes :: "ctx \<Rightarrow> wat_label list \<Rightarrow> instr list \<Rightarrow> core_type list option" where
  "itype c ls (LocalGet x) = map_option (\<lambda>t. [t]) (local_type c x)"
| "itype c ls (LocalSet x e) =
     (case local_type c x of Some t \<Rightarrow> if itype c ls e = Some [t] then Some [] else None | None \<Rightarrow> None)"
| "itype c ls HeapGet = Some [I32]"
| "itype c ls (HeapSet e) = (if itype c ls e = Some [I32] then Some [] else None)"
| "itype c ls (Const t n) = Some [t]"
| "itype c ls (Unary u e) = (if itype c ls e = Some [fst (unary_type u)] then Some [snd (unary_type u)] else None)"
| "itype c ls (Binary b e f) = (if itype c ls e = Some [I32] \<and> itype c ls f = Some [I32] then Some [I32] else None)"
| "itype c ls (Load t n e) = (if itype c ls e = Some [I32] then Some [t] else None)"
| "itype c ls (Load8U n e) = (if itype c ls e = Some [I32] then Some [I32] else None)"
| "itype c ls (Store t n e f) = (if itype c ls e = Some [I32] \<and> itype c ls f = Some [t] then Some [] else None)"
| "itype c ls (Store8 n e f) = (if itype c ls e = Some [I32] \<and> itype c ls f = Some [I32] then Some [] else None)"
| "itype c ls (Call f es) =
     (case callee_type c f of
        Some (ps, rs) \<Rightarrow> if itypes c ls es = Some ps then Some rs else None
      | None \<Rightarrow> None)"
| "itype c ls (If e body) = (if itype c ls e = Some [I32] \<and> itypes c ls body = Some [] then Some [] else None)"
| "itype c ls (Br l) = (if l \<in> set ls then Some [] else None)"
| "itype c ls (Block l body) = (if itypes c (l # ls) body = Some [] then Some [] else None)"
| "itype c ls (Loop l body) = (if itypes c (l # ls) body = Some [] then Some [] else None)"
| "itype c ls Unreachable = Some []"
| "itypes c ls [] = Some []"
| "itypes c ls (e # es) =
     (case itype c ls e of None \<Rightarrow> None | Some ts \<Rightarrow> map_option ((@) ts) (itypes c ls es))"

definition func_ctx :: "signature list \<Rightarrow> wat_func \<Rightarrow> ctx" where
  "func_ctx targets f = \<lparr>cx_params = wfn_params f, cx_locals = wfn_locals f, cx_targets = targets\<rparr>"

definition valid_func :: "signature list \<Rightarrow> wat_func \<Rightarrow> bool" where
  "valid_func targets f \<longleftrightarrow>
     distinct (map fst (wfn_locals f)) \<and> itypes (func_ctx targets f) [] (wfn_body f) = Some (wfn_results f)"

named_theorems wat_typing

lemma itypes_append [wat_typing]:
  "itypes c ls xs = Some ts \<Longrightarrow> itypes c ls ys = Some us \<Longrightarrow> itypes c ls (xs @ ys) = Some (ts @ us)"
  by (induction xs arbitrary: ts) (auto split: option.splits)

lemma itypes_concat: "(\<And>xs. xs \<in> set xss \<Longrightarrow> itypes c ls xs = Some []) \<Longrightarrow> itypes c ls (concat xss) = Some []"
  by (induction xss) (simp_all add: itypes_append [where ts = "[]" and us = "[]", simplified])

lemma itypes_gets:
  "(\<And>x. x \<in> set xs \<Longrightarrow> local_type c (f x) = Some (t x)) \<Longrightarrow> itypes c ls (map (\<lambda>x. LocalGet (f x)) xs) = Some (map t xs)"
  by (induction xs) auto

subsection \<open>The allocators\<close>

text \<open>
  Evaluation of straight-line code such as that of \<open>$alloc\<close> and \<open>cabi_realloc\<close>: the locals, the bump
  pointer \<open>$heap\<close>, and the linear memory as a function from addresses to bytes (its size, and so the
  trap of an access behind its end, is left out; the allocators do not access it). Loads and stores
  are those that the generator writes, little endian.
\<close>

type_synonym memory = "nat \<Rightarrow> 8 word"

type_synonym alloc_state = "(local_ref \<Rightarrow> 32 word) \<times> 32 word \<times> memory"

definition read32 :: "memory \<Rightarrow> nat \<Rightarrow> 32 word" where
  "read32 mem a = ucast (mem a) + 2 ^ 8 * ucast (mem (a + 1)) + 2 ^ 16 * ucast (mem (a + 2)) + 2 ^ 24 * ucast (mem (a + 3))"

definition write32 :: "memory \<Rightarrow> nat \<Rightarrow> 32 word \<Rightarrow> memory" where
  "write32 mem a v =
     mem(a := ucast v, a + 1 := ucast (drop_bit 8 v), a + 2 := ucast (drop_bit 16 v), a + 3 := ucast (drop_bit 24 v))"

fun eval32 :: "alloc_state \<Rightarrow> instr \<Rightarrow> 32 word option" where
  "eval32 (ls, heap, mem) (LocalGet x) = Some (ls x)"
| "eval32 (ls, heap, mem) HeapGet = Some heap"
| "eval32 st (Const I32 n) = Some (of_int n)"
| "eval32 st (Binary Add32 e f) =
     (case (eval32 st e, eval32 st f) of (Some a, Some b) \<Rightarrow> Some (a + b) | _ \<Rightarrow> None)"
| "eval32 st (Binary Sub32 e f) =
     (case (eval32 st e, eval32 st f) of (Some a, Some b) \<Rightarrow> Some (a - b) | _ \<Rightarrow> None)"
| "eval32 st (Binary And32 e f) =
     (case (eval32 st e, eval32 st f) of (Some a, Some b) \<Rightarrow> Some (and a b) | _ \<Rightarrow> None)"
| "eval32 (ls, heap, mem) (Load I32 off e) =
     map_option (\<lambda>a. read32 mem (unat a + off)) (eval32 (ls, heap, mem) e)"
| "eval32 (ls, heap, mem) (Load8U off e) =
     map_option (\<lambda>a. ucast (mem (unat a + off))) (eval32 (ls, heap, mem) e)"
| "eval32 st _ = None"

text \<open>A body: assignments and stores, and a last instruction whose value is the result.\<close>

fun eval_alloc :: "alloc_state \<Rightarrow> instr list \<Rightarrow> (32 word \<times> 32 word \<times> memory) option" where
  "eval_alloc st [] = None"
| "eval_alloc (ls, heap, mem) [e] = map_option (\<lambda>v. (v, heap, mem)) (eval32 (ls, heap, mem) e)"
| "eval_alloc (ls, heap, mem) (LocalSet x e # es) =
     (case eval32 (ls, heap, mem) e of Some v \<Rightarrow> eval_alloc (ls(x := v), heap, mem) es | None \<Rightarrow> None)"
| "eval_alloc (ls, heap, mem) (HeapSet e # es) =
     (case eval32 (ls, heap, mem) e of Some v \<Rightarrow> eval_alloc (ls, v, mem) es | None \<Rightarrow> None)"
| "eval_alloc (ls, heap, mem) (Store I32 off e f # es) =
     (case (eval32 (ls, heap, mem) e, eval32 (ls, heap, mem) f) of
        (Some a, Some v) \<Rightarrow> eval_alloc (ls, heap, write32 mem (unat a + off) v) es | _ \<Rightarrow> None)"
| "eval_alloc (ls, heap, mem) (Store8 off e f # es) =
     (case (eval32 (ls, heap, mem) e, eval32 (ls, heap, mem) f) of
        (Some a, Some v) \<Rightarrow> eval_alloc (ls, heap, mem(unat a + off := ucast v)) es | _ \<Rightarrow> None)"
| "eval_alloc st _ = None"

end
