(* ===== verification/Generator.thy ===== *)
theory Generator
  imports Wat
begin

section \<open>Core modules of the interceptor (\<open>crates/interceptor/src/generator.rs\<close>)\<close>

text \<open>
  \<open>collect_intercepted\<close> computes, for every intercepted function, the core signatures of the canonical
  ABI and the discriminants of the advice protocol; \<open>generate_modules\<close> builds the main, shim and fixup
  modules. Offsets and sizes, \<open>u32\<close> in the source, are natural numbers: they count the bytes of names
  and of at most 64 flat values. A failed \<open>?\<close>, an index out of range and \<open>unreachable!\<close> are errors.
\<close>

definition max_flat_params :: nat where "max_flat_params = 16"
definition max_flat_results :: nat where "max_flat_results = 1"

abbreviation (input) disc_string :: nat where "disc_string \<equiv> 0"
abbreviation (input) disc_signed :: nat where "disc_signed \<equiv> 1"
abbreviation (input) disc_unsigned :: nat where "disc_unsigned \<equiv> 2"
abbreviation (input) disc_f32 :: nat where "disc_f32 \<equiv> 3"
abbreviation (input) disc_f64 :: nat where "disc_f64 \<equiv> 4"
abbreviation (input) disc_bool :: nat where "disc_bool \<equiv> 5"
abbreviation (input) disc_complex :: nat where "disc_complex \<equiv> 6"

datatype gen_error = Extraction intercept_error | NoResultDiscriminant | GenPanic

subsection \<open>Intercepted functions\<close>

record intercepted_function =
  if_export_name :: string
  if_import_module :: string
  if_func_name :: string
  if_params :: "(string \<times> wtype) list"
  if_result :: "wtype option"
  if_core_params_lower :: "core_type list"
  if_core_results_lower :: "core_type list"
  if_core_params_lift :: "core_type list"
  if_core_results_lift :: "core_type list"
  if_param_flat_types :: "core_type list list"
  if_result_flat_types :: "core_type list"
  if_uses_retarea :: bool
  if_param_discriminants :: "nat list"
  if_result_discriminant :: "nat option"
  if_needs_memory :: bool

type_synonym flattening = "resolve \<Rightarrow> wtype \<Rightarrow> wasm_type list option"

definition type_fuel :: "resolve \<Rightarrow> nat" where
  "type_fuel rs = length (rs_types rs)"

definition within_arena :: "'a option \<Rightarrow> gen_error + 'a" where
  "within_arena x = ok_or (Extraction OutsideArena) x"

definition optional_result :: "('a \<Rightarrow> 'e + 'b) \<Rightarrow> 'a option \<Rightarrow> 'e + 'b option" where
  "optional_result f x = (case x of None \<Rightarrow> Inr None | Some y \<Rightarrow> map_ok Some (f y))"

definition derive_intercepted_function ::
  "flattening \<Rightarrow> resolve \<Rightarrow> string \<Rightarrow> string \<Rightarrow> wit_function \<Rightarrow> gen_error + intercepted_function" where
  "derive_intercepted_function pf rs export_name import_module ifn =
     attempt (map_err Extraction (collect_res (map (\<lambda>(_, t). flat_types pf rs t) (wf_params ifn)))) (\<lambda>param_flat_types.
     attempt (map_err Extraction (optional_result (flat_types pf rs) (wf_result ifn))) (\<lambda>result_flats.
       let result_flat_types = (case result_flats of Some ts \<Rightarrow> ts | None \<Rightarrow> []);
           uses_retarea = length result_flat_types > max_flat_results;
           core_params_lower = concat param_flat_types @ (if uses_retarea then [I32] else []);
           core_results_lower = (if uses_retarea then [] else result_flat_types);
           all_param_flats = concat param_flat_types;
           core_params_lift = (if length all_param_flats > max_flat_params then [I32] else all_param_flats);
           core_results_lift = (if uses_retarea then [I32] else result_flat_types) in
       attempt (within_arena (those (map (\<lambda>(_, t). value_discriminant (type_fuel rs) rs t) (wf_params ifn)))) (\<lambda>param_discriminants.
       attempt (optional_result (\<lambda>t. within_arena (value_discriminant (type_fuel rs) rs t)) (wf_result ifn)) (\<lambda>result_discriminant.
       attempt (within_arena (func_needs_memory (type_fuel rs) rs ifn)) (\<lambda>needs_memory.
         Inr \<lparr>if_export_name = export_name, if_import_module = import_module, if_func_name = wf_name ifn,
           if_params = wf_params ifn, if_result = wf_result ifn,
           if_core_params_lower = core_params_lower, if_core_results_lower = core_results_lower,
           if_core_params_lift = core_params_lift, if_core_results_lift = core_results_lift,
           if_param_flat_types = param_flat_types, if_result_flat_types = result_flat_types,
           if_uses_retarea = uses_retarea, if_param_discriminants = param_discriminants,
           if_result_discriminant = result_discriminant, if_needs_memory = needs_memory\<rparr>)))))"

fun collect_functions ::
  "flattening \<Rightarrow> resolve \<Rightarrow> string \<Rightarrow> nat \<Rightarrow> function_export list \<Rightarrow> gen_error + intercepted_function list" where
  "collect_functions pf rs full_name iface_idx [] = Inr []"
| "collect_functions pf rs full_name iface_idx (Bypassed f # fes) = collect_functions pf rs full_name iface_idx fes"
| "collect_functions pf rs full_name iface_idx (Intercepted f # fes) =
     attempt (derive_intercepted_function pf rs (full_name @ ''#'' @ wf_name f) (''target-'' @ show_nat iface_idx) f) (\<lambda>ifunc.
     map_ok ((#) ifunc) (collect_functions pf rs full_name iface_idx fes))"

fun collect_exports :: "flattening \<Rightarrow> resolve \<Rightarrow> nat \<Rightarrow> world_export list \<Rightarrow> gen_error + intercepted_function list" where
  "collect_exports pf rs iface_idx [] = Inr []"
| "collect_exports pf rs iface_idx (ExportInterface ie # wes) =
     attempt (collect_functions pf rs (ie_full_name ie) iface_idx (ie_functions ie)) (\<lambda>ifuncs.
     map_ok ((@) ifuncs) (collect_exports pf rs (Suc iface_idx) wes))"
| "collect_exports pf rs iface_idx (ExportFunction (Intercepted f) # wes) =
     attempt (derive_intercepted_function pf rs (wf_name f) ''target-func'' f) (\<lambda>ifunc.
     map_ok ((#) ifunc) (collect_exports pf rs iface_idx wes))"
| "collect_exports pf rs iface_idx (ExportFunction (Bypassed f) # wes) = collect_exports pf rs iface_idx wes"

definition collect_intercepted :: "flattening \<Rightarrow> target_world \<Rightarrow> gen_error + intercepted_function list" where
  "collect_intercepted pf target = collect_exports pf (tw_resolve target) 0 (tw_exports target)"

subsection \<open>Shim and fixup\<close>

text \<open>
  A shim function passes its parameters on through the table: the type of its \<open>call_indirect\<close>, the
  parameters it reads and the table entry.
\<close>

record shim_func =
  sf_export :: string
  sf_type :: nat
  sf_args :: "nat list"
  sf_entry :: nat

record shim_module =
  sm_types :: "signature list"
  sm_table :: nat
  sm_funcs :: "shim_func list"

record fixup_module =
  fm_types :: "signature list"
  fm_imports :: "(string \<times> nat) list"
  fm_table :: nat
  fm_elems :: "nat list"

definition advice_types :: "signature list" where
  "advice_types = [([I32, I32, I32, I32], [I32]), ([I32, I32], []), ([I32, I32, I32, I64, I32, I32], [])]"

definition lower_signature :: "intercepted_function \<Rightarrow> signature" where
  "lower_signature ifunc = (if_core_params_lower ifunc, if_core_results_lower ifunc)"

definition generate_shim_module :: "intercepted_function list \<Rightarrow> shim_module" where
  "generate_shim_module intercepted =
     \<lparr>sm_types = advice_types @ map lower_signature intercepted,
      sm_table = 3 + length intercepted,
      sm_funcs =
        [\<lparr>sf_export = ''0'', sf_type = 0, sf_args = [0, 1, 2, 3], sf_entry = 0\<rparr>,
         \<lparr>sf_export = ''1'', sf_type = 1, sf_args = [0, 1], sf_entry = 1\<rparr>,
         \<lparr>sf_export = ''2'', sf_type = 2, sf_args = [0, 1, 2, 3, 4, 5], sf_entry = 2\<rparr>] @
        map (\<lambda>(idx, ifunc). \<lparr>sf_export = show_nat (3 + idx), sf_type = 3 + idx,
               sf_args = [0..<length (if_core_params_lower ifunc)], sf_entry = 3 + idx\<rparr>) (enumerate 0 intercepted)\<rparr>"

definition generate_fixup_module :: "intercepted_function list \<Rightarrow> fixup_module" where
  "generate_fixup_module intercepted =
     (let total = 3 + length intercepted in
      \<lparr>fm_types = advice_types @ map lower_signature intercepted,
       fm_imports = [(''0'', 0), (''1'', 1), (''2'', 2)] @
         map (\<lambda>i. (show_nat (3 + i), 3 + i)) [0..<length intercepted],
       fm_table = total,
       fm_elems = [0..<total]\<rparr>)"

subsection \<open>Strings\<close>

text \<open>The text collected so far and its length, and the pieces appended with their offsets.\<close>

type_synonym string_table = "string \<times> nat"

definition push_string :: "string_table \<Rightarrow> string \<Rightarrow> string_table \<times> nat \<times> nat" where
  "push_string st s = (let (all_strings, str_offset) = st in
     ((all_strings @ s, str_offset + length s), (str_offset, length s)))"

fun push_names :: "string_table \<Rightarrow> string list \<Rightarrow> string_table \<times> (nat \<times> nat) list" where
  "push_names st [] = (st, [])"
| "push_names st (s # ss) =
     (let (st, e) = push_string st s; (st, es) = push_names st ss in (st, e # es))"

type_synonym param_strings = "(nat \<times> nat \<times> nat \<times> nat) list"

fun push_params :: "resolve \<Rightarrow> string_table \<Rightarrow> (string \<times> wtype) list \<Rightarrow> gen_error + string_table \<times> param_strings" where
  "push_params rs st [] = Inr (st, [])"
| "push_params rs st ((name, t) # ps) =
     (let (st, (name_off, name_len)) = push_string st name in
      attempt (within_arena (type_name_str (type_fuel rs) rs t)) (\<lambda>tn.
      let (st, (type_off, type_len)) = push_string st tn in
      map_ok (apsnd ((#) (name_off, name_len, type_off, type_len))) (push_params rs st ps)))"

fun push_all_params :: "resolve \<Rightarrow> string_table \<Rightarrow> intercepted_function list \<Rightarrow> gen_error + string_table \<times> param_strings list" where
  "push_all_params rs st [] = Inr (st, [])"
| "push_all_params rs st (f # fs) =
     attempt (push_params rs st (if_params f)) (\<lambda>(st, entries).
     map_ok (apsnd ((#) entries)) (push_all_params rs st fs))"

definition hex_digit :: "nat \<Rightarrow> char" where
  "hex_digit n = (if n < 10 then char_of (48 + n) else char_of (87 + n))"

text \<open>\<open>escape_wat_string\<close>, byte by byte: a character beyond ASCII is escaped by its UTF-8 bytes.\<close>

definition escape_byte :: "char \<Rightarrow> string" where
  "escape_byte c =
     (if c = CHR 0x22 then [CHR 0x5C, CHR 0x22]
      else if c = CHR 0x5C then [CHR 0x5C, CHR 0x5C]
      else if c = CHR 0x0A then [CHR 0x5C, CHR ''n'']
      else if c = CHR 0x0D then [CHR 0x5C, CHR ''r'']
      else if c = CHR 0x09 then [CHR 0x5C, CHR ''t'']
      else if 32 \<le> (of_char c :: nat) \<and> (of_char c :: nat) \<le> 126 then [c]
      else [CHR 0x5C, hex_digit (of_char c div 16), hex_digit (of_char c mod 16)])"

definition escape_wat_string :: "string \<Rightarrow> string" where
  "escape_wat_string s = concat (map escape_byte s)"

subsection \<open>The allocators\<close>

definition alloc_body :: "instr list" where
  "alloc_body =
     [LocalSet (Named Ptr) HeapGet,
      LocalSet (Named Ptr) (Binary And32 (Binary Add32 (LocalGet (Named Ptr)) (Const I32 7)) (Const I32 (- 8))),
      HeapSet (Binary Add32 (LocalGet (Named Ptr)) (LocalGet (Index 0))),
      LocalGet (Named Ptr)]"

text \<open>\<open>cabi_realloc\<close>: old pointer, old length, alignment and new length are the parameters 0 to 3.\<close>

definition realloc_body :: "instr list" where
  "realloc_body =
     [LocalSet (Named Ptr) HeapGet,
      LocalSet (Named Ptr) (Binary And32
        (Binary Add32 (LocalGet (Named Ptr)) (Binary Sub32 (LocalGet (Index 2)) (Const I32 1)))
        (Binary Sub32 (Const I32 0) (LocalGet (Index 2)))),
      HeapSet (Binary Add32 (LocalGet (Named Ptr)) (LocalGet (Index 3))),
      LocalGet (Named Ptr)]"

subsection \<open>The interceptor of one function\<close>

definition first_flat :: "core_type list \<Rightarrow> gen_error + core_type" where
  "first_flat flats = (case flats of t # _ \<Rightarrow> Inr t | [] \<Rightarrow> Inl GenPanic)"

abbreviation i32_const :: "nat \<Rightarrow> instr" where "i32_const n \<equiv> Const I32 (int n)"
abbreviation get :: "wat_local \<Rightarrow> instr" where "get x \<equiv> LocalGet (Named x)"

definition arg_addr :: "nat \<Rightarrow> instr" where
  "arg_addr offset = Binary Add32 (get ArgsArea) (i32_const offset)"

text \<open>The value payload of one parameter, at 24 in its record, and the next core parameter.\<close>

definition write_marshal_param :: "nat \<Rightarrow> core_type list \<Rightarrow> nat \<Rightarrow> nat \<Rightarrow> gen_error + instr list \<times> nat" where
  "write_marshal_param disc param_flats offset core_param_idx =
     (let param = LocalGet (Index core_param_idx) in
      if disc = disc_string then
        Inr ([Store I32 24 (arg_addr offset) param,
              Store I32 28 (arg_addr offset) (LocalGet (Index (core_param_idx + 1)))], core_param_idx + 2)
      else if disc = disc_signed then
        attempt (first_flat param_flats) (\<lambda>t.
          Inr ([Store I64 24 (arg_addr offset) (if t = I32 then Unary ExtendS param else param)], core_param_idx + 1))
      else if disc = disc_unsigned then
        attempt (first_flat param_flats) (\<lambda>t.
          Inr ([Store I64 24 (arg_addr offset) (if t = I32 then Unary ExtendU param else param)], core_param_idx + 1))
      else if disc = disc_f32 then Inr ([Store F32 24 (arg_addr offset) param], core_param_idx + 1)
      else if disc = disc_f64 then Inr ([Store F64 24 (arg_addr offset) param], core_param_idx + 1)
      else if disc = disc_bool then Inr ([Store I64 24 (arg_addr offset) (Unary ExtendU param)], core_param_idx + 1)
      else if disc = disc_complex then
        Inr ([Store I32 24 (arg_addr offset) (i32_const 0), Store I32 28 (arg_addr offset) (i32_const 0)],
             core_param_idx + length param_flats)
      else Inl GenPanic)"

definition arg_record :: "nat \<Rightarrow> nat \<times> nat \<times> nat \<times> nat \<Rightarrow> nat \<Rightarrow> instr list" where
  "arg_record offset strings disc =
     (let (name_off, name_len, type_off, type_len) = strings in
      [Store I32 0 (arg_addr offset) (i32_const name_off),
       Store I32 4 (arg_addr offset) (i32_const name_len),
       Store I32 8 (arg_addr offset) (i32_const type_off),
       Store I32 12 (arg_addr offset) (i32_const type_len),
       Store8 16 (arg_addr offset) (i32_const disc)])"

fun marshal_params :: "nat \<Rightarrow> nat \<Rightarrow> param_strings \<Rightarrow> nat list \<Rightarrow> core_type list list \<Rightarrow> gen_error + instr list" where
  "marshal_params pi core_param_idx [] discs flats = Inr []"
| "marshal_params pi core_param_idx (s # ss) (disc # discs) (ts # flats) =
     attempt (write_marshal_param disc ts (pi * 32) core_param_idx) (\<lambda>(payload, core_param_idx).
     map_ok ((@) (arg_record (pi * 32) s disc @ payload)) (marshal_params (Suc pi) core_param_idx ss discs flats))"
| "marshal_params pi core_param_idx _ _ _ = Inl GenPanic"

text \<open>The address of argument \<open>pi\<close> of a \<open>proceed\<close>: the list is at 8 in the before-action.\<close>

definition proceed_arg :: "nat \<Rightarrow> instr" where
  "proceed_arg pi = Binary Add32 (Load I32 8 (get BeforeRet)) (i32_const (pi * 32))"

definition trap_if :: "instr \<Rightarrow> instr" where
  "trap_if e = If e [Unreachable]"

definition drop_handle :: instr where
  "drop_handle = Call InvDrop [get Handle]"

definition unwrap_arg :: "nat \<Rightarrow> nat \<Rightarrow> core_type list \<Rightarrow> gen_error + instr list" where
  "unwrap_arg pi disc param_flats =
     (let arg = proceed_arg pi in
      if disc = disc_string then
        Inr [LocalSet (Named (ArgPart pi 0)) (Load I32 24 arg), LocalSet (Named (ArgPart pi 1)) (Load I32 28 arg)]
      else if disc = disc_signed \<or> disc = disc_unsigned \<or> disc = disc_bool then
        attempt (first_flat param_flats) (\<lambda>t.
          Inr [LocalSet (Named (ArgVal pi)) (if t = I32 then Unary Wrap (Load I64 24 arg) else Load I64 24 arg)])
      else if disc = disc_f32 then Inr [LocalSet (Named (ArgVal pi)) (Load F32 24 arg)]
      else if disc = disc_f64 then Inr [LocalSet (Named (ArgVal pi)) (Load F64 24 arg)]
      else if disc = disc_complex then Inr []
      else Inl GenPanic)"

fun unwrap_args :: "nat \<Rightarrow> nat list \<Rightarrow> core_type list list \<Rightarrow> gen_error + instr list" where
  "unwrap_args pi [] flats = Inr []"
| "unwrap_args pi (disc # discs) (ts # flats) =
     attempt (unwrap_arg pi disc ts) (\<lambda>code.
     map_ok ((@) (trap_if (Binary Ne32 (Load8U 16 (proceed_arg pi)) (i32_const disc)) # code)) (unwrap_args (Suc pi) discs flats))"
| "unwrap_args pi (disc # discs) [] = Inl GenPanic"

text \<open>The arguments of the target: the unwrapped values, and the original parameters of complex types.\<close>

fun target_args :: "nat \<Rightarrow> nat \<Rightarrow> nat list \<Rightarrow> core_type list list \<Rightarrow> instr list" where
  "target_args pi core_param_idx (disc # discs) (ts # flats) =
     (if disc \<noteq> disc_complex then
        (if length ts = 1 then [get (ArgVal pi)] else map (\<lambda>j. get (ArgPart pi j)) [0..<length ts])
      else map (\<lambda>j. LocalGet (Index j)) [core_param_idx..<core_param_idx + length ts]) @
     target_args (Suc pi) (core_param_idx + length ts) discs flats"
| "target_args pi core_param_idx _ _ = []"

definition flat_size :: "core_type \<Rightarrow> nat" where
  "flat_size t = (if t = I64 \<or> t = F64 then 8 else 4)"

definition align_to :: "nat \<Rightarrow> nat \<Rightarrow> nat" where
  "align_to offset width = (offset + width - 1) div width * width"

fun ret_size :: "nat \<Rightarrow> core_type list \<Rightarrow> nat" where
  "ret_size n [] = n"
| "ret_size n (t # ts) = ret_size (align_to n (flat_size t) + flat_size t) ts"

fun load_results :: "nat \<Rightarrow> nat \<Rightarrow> core_type list \<Rightarrow> instr list" where
  "load_results j byte_offset [] = []"
| "load_results j byte_offset (t # ts) =
     (let byte_offset = align_to byte_offset (flat_size t) in
      LocalSet (Named (ResultPart j)) (Load t byte_offset (get TargetRet)) # load_results (Suc j) (byte_offset + flat_size t) ts)"

definition write_proceed_and_call_target :: "intercepted_function \<Rightarrow> nat \<Rightarrow> gen_error + instr list" where
  "write_proceed_and_call_target f func_idx =
     attempt (unwrap_args 0 (if_param_discriminants f) (if_param_flat_types f)) (\<lambda>unwrapped.
       let call_args = target_args 0 0 (if_param_discriminants f) (if_param_flat_types f) in
       Inr (unwrapped @
         (if if_uses_retarea f then
            Call (Target func_idx) (call_args @ [get TargetRet]) # load_results 0 0 (if_result_flat_types f)
          else if if_result f \<noteq> None then [LocalSet (Named ResultVal) (Call (Target func_idx) call_args)]
          else [Call (Target func_idx) call_args])))"

text \<open>A result for \<open>inv_after\<close>: whether there is one, its discriminant and the two payload words.\<close>

definition first_result :: "intercepted_function \<Rightarrow> core_type" where
  "first_result f = (case if_result_flat_types f of t # _ \<Rightarrow> t | [] \<Rightarrow> I32)"

definition after_call :: "nat \<Rightarrow> nat \<Rightarrow> instr \<Rightarrow> instr \<Rightarrow> instr" where
  "after_call some disc payload64 payload32 =
     Call InvAfter [get Handle, i32_const some, i32_const disc, payload64, payload32, get AfterRet]"

definition write_call_after :: "intercepted_function \<Rightarrow> gen_error + instr list" where
  "write_call_after f =
     (case if_result_discriminant f of
        None \<Rightarrow> Inr [after_call 0 0 (Const I64 0) (i32_const 0)]
      | Some disc \<Rightarrow>
          (let r = get ResultVal; narrow = (first_result f = I32) in
           if disc = disc_string then
             Inr [after_call 1 disc (Unary ExtendU (get (ResultPart 0))) (get (ResultPart 1))]
           else if disc = disc_signed then
             Inr [after_call 1 disc (if narrow then Unary ExtendS r else r) (i32_const 0)]
           else if disc = disc_unsigned \<or> disc = disc_bool then
             Inr [after_call 1 disc (if narrow then Unary ExtendU r else r) (i32_const 0)]
           else if disc = disc_f32 then
             Inr [after_call 1 disc (Unary ExtendU (Unary ReinterpretF32 r)) (i32_const 0)]
           else if disc = disc_f64 then Inr [after_call 1 disc (Unary ReinterpretF64 r) (i32_const 0)]
           else if disc = disc_complex then Inr [after_call 1 disc (Const I64 0) (i32_const 0)]
           else Inl GenPanic))"

definition write_unwrap_value_to_out ::
  "nat \<Rightarrow> core_type \<Rightarrow> bool \<Rightarrow> wat_local \<Rightarrow> nat \<Rightarrow> gen_error + instr list" where
  "write_unwrap_value_to_out disc result_flat uses_retarea base payload_offset =
     (if disc = disc_complex then Inr [Unreachable]
      else if uses_retarea then
        Inr [LocalSet (Named Out) (Call Alloc [i32_const 8]),
             Store I32 0 (get Out) (Load I32 payload_offset (get base)),
             Store I32 4 (get Out) (Load I32 (payload_offset + 4) (get base))]
      else if disc = disc_signed \<or> disc = disc_unsigned \<or> disc = disc_bool then
        Inr [LocalSet (Named Out)
               (if result_flat = I32 then Unary Wrap (Load I64 payload_offset (get base)) else Load I64 payload_offset (get base))]
      else if disc = disc_f32 then Inr [LocalSet (Named Out) (Load F32 payload_offset (get base))]
      else if disc = disc_f64 then Inr [LocalSet (Named Out) (Load F64 payload_offset (get base))]
      else Inl GenPanic)"

definition write_skip_return :: "intercepted_function \<Rightarrow> gen_error + instr list" where
  "write_skip_return f =
     attempt (ok_or NoResultDiscriminant (if_result_discriminant f)) (\<lambda>disc.
     attempt (write_unwrap_value_to_out disc (first_result f) (if_uses_retarea f) BeforeRet 24) (\<lambda>unwrap.
       Inr [If (Binary Eq32 (get Disc) (i32_const 1))
             ((if disc \<noteq> disc_complex
               then [If (Binary Ne32 (Load8U 16 (get BeforeRet)) (i32_const disc)) [drop_handle, Unreachable]] else []) @
              unwrap @ [drop_handle, Br DoneLabel])]))"

definition write_accept_return :: "intercepted_function \<Rightarrow> gen_error + instr list" where
  "write_accept_return f =
     attempt (ok_or NoResultDiscriminant (if_result_discriminant f)) (\<lambda>disc.
     attempt
       (if disc \<noteq> disc_complex then write_unwrap_value_to_out disc (first_result f) (if_uses_retarea f) AfterRet 24
        else if if_uses_retarea f then Inr [LocalSet (Named Out) (get TargetRet)]
        else if if_result_flat_types f \<noteq> [] then Inr [LocalSet (Named Out) (get ResultVal)]
        else Inr []) (\<lambda>code.
       Inr (trap_if (Binary Ne32 (Load8U 16 (get AfterRet)) (i32_const disc)) # code)))"

fun arg_locals :: "nat \<Rightarrow> core_type list list \<Rightarrow> (wat_local \<times> core_type) list" where
  "arg_locals pi [] = []"
| "arg_locals pi (ts # flats) =
     (if length ts = 1 then [(ArgVal pi, hd ts)] else map (\<lambda>j. (ArgPart pi j, ts ! j)) [0..<length ts]) @
     arg_locals (Suc pi) flats"

definition func_locals :: "intercepted_function \<Rightarrow> (wat_local \<times> core_type) list" where
  "func_locals f =
     [(ArgsArea, I32), (Handle, I32), (BeforeRet, I32), (AfterRet, I32), (Disc, I32), (Watermark, I32)] @
     (if if_uses_retarea f then [(TargetRet, I32), (Out, I32)]
      else if if_result_flat_types f \<noteq> [] then [(ResultVal, hd (if_result_flat_types f)), (Out, hd (if_result_flat_types f))]
      else []) @
     arg_locals 0 (if_param_flat_types f) @
     (if if_uses_retarea f then map (\<lambda>j. (ResultPart j, if_result_flat_types f ! j)) [0..<length (if_result_flat_types f)] else [])"

definition allocate_areas :: "intercepted_function \<Rightarrow> instr list" where
  "allocate_areas f =
     (if if_params f \<noteq> [] then [LocalSet (Named ArgsArea) (Call Alloc [i32_const (length (if_params f) * 32)])] else []) @
     [LocalSet (Named BeforeRet) (Call Alloc [i32_const 32]),
      LocalSet (Named AfterRet) (Call Alloc [i32_const 32])] @
     (if if_uses_retarea f then [LocalSet (Named TargetRet) (Call Alloc [i32_const (ret_size 0 (if_result_flat_types f))])] else []) @
     [LocalSet (Named Watermark) HeapGet]"

text \<open>The loop: create the invocation, \<open>before\<close>, the target, \<open>after\<close>, and the way out.\<close>

definition loop_body :: "intercepted_function \<Rightarrow> nat \<Rightarrow> nat \<times> nat \<Rightarrow> gen_error + instr list" where
  "loop_body f func_idx fname =
     (let (fname_offset, fname_len) = fname in
      attempt (if if_result f \<noteq> None then write_skip_return f
               else Inr [If (Binary Eq32 (get Disc) (i32_const 1)) [drop_handle, Br DoneLabel]]) (\<lambda>skip.
      attempt (write_proceed_and_call_target f func_idx) (\<lambda>proceed.
      attempt (write_call_after f) (\<lambda>after.
      attempt (if if_result f \<noteq> None then write_accept_return f else Inr []) (\<lambda>accept.
        Inr ([HeapSet (get Watermark),
              LocalSet (Named Handle)
                (Call InvNew [i32_const fname_offset, i32_const fname_len, get ArgsArea, i32_const (length (if_params f))]),
              Call InvBefore [get Handle, get BeforeRet],
              LocalSet (Named Disc) (Load8U 0 (get BeforeRet)),
              If (Binary Eq32 (get Disc) (i32_const 2)) [drop_handle, Unreachable]] @
             skip @ proceed @ after @
             [LocalSet (Named Disc) (Load8U 0 (get AfterRet)),
              If (Binary Eq32 (get Disc) (i32_const 2)) [drop_handle, Unreachable],
              If (Binary Eq32 (get Disc) (i32_const 1))
                [LocalSet (Named ArgsArea) (Load I32 8 (get AfterRet)), drop_handle, Br RetryLabel]] @
             accept @
             [drop_handle, Br DoneLabel]))))))"

definition write_interceptor_func ::
  "intercepted_function \<Rightarrow> nat \<Rightarrow> nat \<times> nat \<Rightarrow> param_strings \<Rightarrow> gen_error + wat_func" where
  "write_interceptor_func f func_idx fname param_strings =
     attempt (marshal_params 0 0 param_strings (if_param_discriminants f) (if_param_flat_types f)) (\<lambda>marshal.
     attempt (loop_body f func_idx fname) (\<lambda>body.
       Inr \<lparr>wfn_export = if_export_name f, wfn_params = if_core_params_lift f, wfn_results = if_core_results_lift f,
            wfn_locals = func_locals f,
            wfn_body = allocate_areas f @ marshal @ [Block DoneLabel [Loop RetryLabel body]] @
              (if if_core_results_lift f \<noteq> [] then [get Out] else [])\<rparr>))"

subsection \<open>The main module\<close>

record main_module =
  mm_target_imports :: "(string \<times> string \<times> signature) list"
  mm_heap_base :: nat
  mm_data :: string
  mm_funcs :: "wat_func list"
  mm_post_returns :: "(string \<times> core_type list \<times> instr list) list"

definition post_return :: "nat \<Rightarrow> intercepted_function \<Rightarrow> string \<times> core_type list \<times> instr list" where
  "post_return heap_base f =
     (''cabi_post_'' @ if_export_name f,
      (case if_result_flat_types f of [] \<Rightarrow> [] | t # _ \<Rightarrow> if if_uses_retarea f then [I32] else [t]),
      [HeapSet (i32_const heap_base)])"

fun write_interceptor_funcs ::
  "nat \<Rightarrow> intercepted_function list \<Rightarrow> (nat \<times> nat) list \<Rightarrow> param_strings list \<Rightarrow> gen_error + wat_func list" where
  "write_interceptor_funcs idx (f # fs) (n # ns) (ps # pss) =
     attempt (write_interceptor_func f idx n ps) (\<lambda>func.
     map_ok ((#) func) (write_interceptor_funcs (Suc idx) fs ns pss))"
| "write_interceptor_funcs idx [] ns pss = Inr []"
| "write_interceptor_funcs idx (f # fs) _ _ = Inl GenPanic"

definition generate_main_module :: "resolve \<Rightarrow> intercepted_function list \<Rightarrow> gen_error + main_module" where
  "generate_main_module rs intercepted =
     (let (st, fname_entries) = push_names ([], 0) (map if_func_name intercepted) in
      attempt (push_all_params rs st intercepted) (\<lambda>((all_strings, str_offset), param_string_entries).
      let heap_base = (str_offset + 7) div 8 * 8 in
      attempt (write_interceptor_funcs 0 intercepted fname_entries param_string_entries) (\<lambda>funcs.
        Inr \<lparr>mm_target_imports = map (\<lambda>f. (if_import_module f, if_func_name f, lower_signature f)) intercepted,
             mm_heap_base = heap_base,
             mm_data = escape_wat_string all_strings,
             mm_funcs = funcs,
             mm_post_returns = map (post_return heap_base) intercepted\<rparr>)))"

definition generate_modules ::
  "flattening \<Rightarrow> target_world \<Rightarrow> gen_error + intercepted_function list \<times> main_module \<times> shim_module \<times> fixup_module" where
  "generate_modules pf target =
     attempt (collect_intercepted pf target) (\<lambda>intercepted.
     attempt (generate_main_module (tw_resolve target) intercepted) (\<lambda>main.
       Inr (intercepted, main, generate_shim_module intercepted, generate_fixup_module intercepted)))"

end
