(* ===== verification/Generator_Types.thy ===== *)
theory Generator_Types
  imports Generator
begin

section \<open>The generated code is valid WebAssembly\<close>

text \<open>
  \<open>flat_laws\<close> is what the canonical ABI says of flattening; \<open>consistent\<close> is what it gives for the
  signatures that \<open>derive_intercepted_function\<close> computes. Under it every generated function exists (no
  index fails, no \<open>unreachable!\<close> is reached) and passes validation, provided its parameters flatten to at
  most 16 values.
\<close>

subsection \<open>Discriminants and flat types\<close>

text \<open>The flat types a discriminant of the advice protocol stands for.\<close>

definition disc_flats :: "nat \<Rightarrow> core_type list \<Rightarrow> bool" where
  "disc_flats d ts \<longleftrightarrow>
     (if d = disc_string then ts = [I32, I32]
      else if d = disc_signed \<or> d = disc_unsigned then ts = [I32] \<or> ts = [I64]
      else if d = disc_f32 then ts = [F32]
      else if d = disc_f64 then ts = [F64]
      else if d = disc_bool then ts = [I32]
      else d = disc_complex)"

definition flat_laws :: "flattening \<Rightarrow> resolve \<Rightarrow> bool" where
  "flat_laws pf rs \<longleftrightarrow>
     pf rs WString = Some [WasmPointer, WasmLength] \<and>
     (\<forall>t \<in> {WBool, WU8, WU16, WU32, WS8, WS16, WS32, WChar}. pf rs t = Some [WasmI32]) \<and>
     (\<forall>t \<in> {WU64, WS64}. pf rs t = Some [WasmI64]) \<and>
     pf rs WF32 = Some [WasmF32] \<and> pf rs WF64 = Some [WasmF64] \<and>
     (\<forall>i td t. type_at rs i = Some td \<and> td_kind td = KType t \<longrightarrow> pf rs (WId i) = pf rs t) \<and>
     (\<forall>t. pf rs t \<noteq> Some [])"

lemma discriminant_flats:
  "value_discriminant fuel rs t = Some d \<Longrightarrow> flat_laws pf rs \<Longrightarrow> pf rs t = Some ws \<Longrightarrow>
     disc_flats d (map wasm_type_str ws)"
proof (induction fuel rs t arbitrary: d rule: value_discriminant.induct)
  case (16 fuel rs i)
  then obtain td where td: "type_at rs i = Some td" by (auto split: option.splits)
  show ?case
  proof (cases "\<exists>t. td_kind td = KType t")
    case True
    then obtain t where "td_kind td = KType t" by blast
    with 16 td show ?thesis unfolding flat_laws_def by auto
  next
    case False
    with 16(2) td have "d = disc_complex" by (auto split: type_kind.splits)
    then show ?thesis by (simp add: disc_flats_def)
  qed
qed (auto simp: flat_laws_def disc_flats_def)

text \<open>What the derived signatures satisfy.\<close>

definition consistent :: "intercepted_function \<Rightarrow> bool" where
  "consistent f \<longleftrightarrow>
     length (if_params f) = length (if_param_discriminants f) \<and>
     list_all2 disc_flats (if_param_discriminants f) (if_param_flat_types f) \<and>
     (case if_result f of
        None \<Rightarrow> if_result_discriminant f = None \<and> if_result_flat_types f = []
      | Some t \<Rightarrow> (\<exists>d. if_result_discriminant f = Some d \<and> disc_flats d (if_result_flat_types f) \<and> if_result_flat_types f \<noteq> [])) \<and>
     if_uses_retarea f = (length (if_result_flat_types f) > 1) \<and>
     if_core_params_lower f = concat (if_param_flat_types f) @ (if if_uses_retarea f then [I32] else []) \<and>
     if_core_results_lower f = (if if_uses_retarea f then [] else if_result_flat_types f) \<and>
     if_core_params_lift f =
       (if length (concat (if_param_flat_types f)) > 16 then [I32] else concat (if_param_flat_types f)) \<and>
     if_core_results_lift f = (if if_uses_retarea f then [I32] else if_result_flat_types f)"

lemma those_list_all2: "those (map f xs) = Some ys \<Longrightarrow> list_all2 (\<lambda>x y. f x = Some y) xs ys"
  by (induction xs arbitrary: ys) (auto split: option.splits)

lemma collect_list_all2: "collect_res (map f xs) = Inr ys \<Longrightarrow> list_all2 (\<lambda>x y. f x = Inr y) xs ys"
  by (induction xs arbitrary: ys) (auto simp: attempt_Inr_iff)

lemma derive_consistent:
  assumes "derive_intercepted_function pf rs export_name import_module ifn = Inr f" and "flat_laws pf rs"
  shows "consistent f"
proof -
  from assms(1) obtain flats result_flats discs result_disc needs where
    flats: "collect_res (map (\<lambda>(_, t). flat_types pf rs t) (wf_params ifn)) = Inr flats" and
    result: "optional_result (flat_types pf rs) (wf_result ifn) = Inr result_flats" and
    discs: "those (map (\<lambda>(_, t). value_discriminant (type_fuel rs) rs t) (wf_params ifn)) = Some discs" and
    result_disc: "optional_result (\<lambda>t. within_arena (value_discriminant (type_fuel rs) rs t)) (wf_result ifn) = Inr result_disc" and
    f: "if_params f = wf_params ifn" "if_param_discriminants f = discs" "if_param_flat_types f = flats"
      "if_result f = wf_result ifn" "if_result_discriminant f = result_disc"
      "if_result_flat_types f = (case result_flats of Some ts \<Rightarrow> ts | None \<Rightarrow> [])"
      "if_uses_retarea f = (length (if_result_flat_types f) > 1)"
      "if_core_params_lower f = concat flats @ (if if_uses_retarea f then [I32] else [])"
      "if_core_results_lower f = (if if_uses_retarea f then [] else if_result_flat_types f)"
      "if_core_params_lift f = (if length (concat flats) > 16 then [I32] else concat flats)"
      "if_core_results_lift f = (if if_uses_retarea f then [I32] else if_result_flat_types f)"
    unfolding derive_intercepted_function_def within_arena_def
    by (auto simp: attempt_Inr_iff map_err_Inr_iff ok_or_Inr_iff Let_def max_flat_results_def max_flat_params_def)
  have params: "list_all2 (\<lambda>(n, t) ts. flat_types pf rs t = Inr ts) (wf_params ifn) flats"
    "list_all2 (\<lambda>(n, t) d. value_discriminant (type_fuel rs) rs t = Some d) (wf_params ifn) discs"
    using collect_list_all2 [OF flats] those_list_all2 [OF discs] by (auto simp: case_prod_beta elim: list_all2_mono)
  have "disc_flats d ts" if "flat_types pf rs t = Inr ts" "value_discriminant (type_fuel rs) rs t = Some d" for t ts d
    using discriminant_flats [OF that(2) assms(2)] that(1) by (auto simp: flat_types_def split: option.splits)
  note agree = this
  have "list_all2 disc_flats discs flats"
    using params agree by (auto simp: list_all2_conv_all_nth case_prod_beta)
  moreover have "case wf_result ifn of
        None \<Rightarrow> result_disc = None \<and> if_result_flat_types f = []
      | Some t \<Rightarrow> (\<exists>d. result_disc = Some d \<and> disc_flats d (if_result_flat_types f) \<and> if_result_flat_types f \<noteq> [])"
  proof (cases "wf_result ifn")
    case (Some t)
    with result result_disc obtain ts d where r: "result_flats = Some ts" "flat_types pf rs t = Inr ts"
      "result_disc = Some d" "value_discriminant (type_fuel rs) rs t = Some d"
      by (auto simp: optional_result_def map_ok_Inr_iff within_arena_def ok_or_Inr_iff)
    moreover have "ts \<noteq> []" using r(2) assms(2) by (auto simp: flat_types_def flat_laws_def split: option.splits)
    ultimately show ?thesis using agree Some f(6) by simp
  qed (use result result_disc f(6) in \<open>simp add: optional_result_def\<close>)
  moreover have "length (wf_params ifn) = length discs" using params(2) by (rule list_all2_lengthD)
  ultimately show ?thesis unfolding consistent_def f(1-5) using f(7-11) by blast
qed

subsection \<open>Locals\<close>

fun arg_no :: "wat_local \<Rightarrow> nat option" where
  "arg_no (ArgVal i) = Some i"
| "arg_no (ArgPart i j) = Some i"
| "arg_no _ = None"

lemma map_of_parts: "inj h \<Longrightarrow> j < n \<Longrightarrow> map_of (map (\<lambda>j. (h j, t j)) [0..<n]) (h j) = Some (t j)"
  by (rule map_of_is_SomeI) (auto simp: distinct_map inj_on_def inj_def o_def)

lemma map_of_parts_other: "x \<notin> range h \<Longrightarrow> map_of (map (\<lambda>j. (h j, t j)) js) x = None"
  by (auto simp: map_of_eq_None_iff)

lemma inj_parts [simp]: "inj (ArgPart pi)" "inj ResultPart"
  by (simp_all add: inj_def)

lemma arg_locals_keys: "(x, t) \<in> set (arg_locals pi flats) \<Longrightarrow> \<exists>i \<ge> pi. arg_no x = Some i"
proof (induction flats arbitrary: pi)
  case (Cons ts flats)
  from Cons.prems consider "arg_no x = Some pi" | "(x, t) \<in> set (arg_locals (Suc pi) flats)" by (auto split: if_splits)
  then show ?case using Cons.IH [of "Suc pi"] by cases (auto dest: Suc_leD)
qed simp

lemma arg_locals_other: "(\<And>i. arg_no x = Some i \<Longrightarrow> i < pi) \<Longrightarrow> map_of (arg_locals pi flats) x = None"
  using arg_locals_keys [of x _ pi flats] by (fastforce simp: map_of_eq_None_iff)

lemma arg_locals_distinct: "distinct (map fst (arg_locals pi flats))"
proof (induction flats arbitrary: pi)
  case (Cons ts flats)
  let ?head = "if length ts = 1 then [(ArgVal pi, hd ts)] else map (\<lambda>j. (ArgPart pi j, ts ! j)) [0..<length ts]"
  have "distinct (map fst ?head)" by (simp add: distinct_map inj_on_def o_def)
  moreover have "fst ` set ?head \<inter> fst ` set (arg_locals (Suc pi) flats) = {}"
  proof -
    have "arg_no x = Some pi" if "x \<in> fst ` set ?head" for x using that by (auto split: if_splits)
    moreover have "arg_no x \<noteq> Some pi" if "x \<in> fst ` set (arg_locals (Suc pi) flats)" for x
      using that arg_locals_keys [of x _ "Suc pi" flats] by fastforce
    ultimately show ?thesis by blast
  qed
  ultimately show ?case using Cons.IH by simp
qed simp

lemma arg_local_val:
  "i < length flats \<Longrightarrow> flats ! i = [t] \<Longrightarrow> map_of (arg_locals pi flats) (ArgVal (pi + i)) = Some t"
proof (induction flats arbitrary: pi i)
  case (Cons ts flats)
  show ?case
  proof (cases i)
    case 0
    with Cons.prems show ?thesis by (simp add: map_add_def arg_locals_other)
  next
    case (Suc k)
    then have "map_of (arg_locals (Suc pi) flats) (ArgVal (pi + i)) = Some t"
      using Cons.IH [of k "Suc pi"] Cons.prems by simp
    moreover have "map_of (map (\<lambda>j. (ArgPart pi j, ts ! j)) [0..<length ts]) (ArgVal (pi + i)) = None"
      by (rule map_of_parts_other) auto
    ultimately show ?thesis using Suc by (simp add: map_add_def)
  qed
qed simp

lemma arg_local_part:
  "i < length flats \<Longrightarrow> length (flats ! i) \<noteq> 1 \<Longrightarrow> j < length (flats ! i) \<Longrightarrow>
     map_of (arg_locals pi flats) (ArgPart (pi + i) j) = Some (flats ! i ! j)"
proof (induction flats arbitrary: pi i)
  case (Cons ts flats)
  show ?case
  proof (cases i)
    case 0
    with Cons.prems map_of_parts [of "ArgPart pi" j "length ts" "\<lambda>j. ts ! j"] show ?thesis by (simp add: map_add_def)
  next
    case (Suc k)
    then have "map_of (arg_locals (Suc pi) flats) (ArgPart (pi + i) j) = Some (flats ! k ! j)"
      using Cons.IH [of k "Suc pi"] Cons.prems by simp
    moreover have "map_of (map (\<lambda>j. (ArgPart pi j, ts ! j)) [0..<length ts]) (ArgPart (pi + i) j) = None"
      by (rule map_of_parts_other) (auto simp: Suc)
    ultimately show ?thesis using Suc by (simp add: map_add_def)
  qed
qed simp

text \<open>The context of the body of an interceptor, with the locals it declares.\<close>

definition body_ctx :: "signature list \<Rightarrow> intercepted_function \<Rightarrow> ctx" where
  "body_ctx sigs f = \<lparr>cx_params = if_core_params_lift f, cx_locals = func_locals f, cx_targets = sigs\<rparr>"

declare local_type.simps [simp del]

lemma fixed_locals [simp]:
  "local_type (body_ctx sigs f) (Named ArgsArea) = Some I32" "local_type (body_ctx sigs f) (Named Handle) = Some I32"
  "local_type (body_ctx sigs f) (Named BeforeRet) = Some I32" "local_type (body_ctx sigs f) (Named AfterRet) = Some I32"
  "local_type (body_ctx sigs f) (Named Disc) = Some I32" "local_type (body_ctx sigs f) (Named Watermark) = Some I32"
  by (simp_all add: local_type.simps body_ctx_def func_locals_def)

lemma retarea_locals:
  "if_uses_retarea f \<Longrightarrow> local_type (body_ctx sigs f) (Named TargetRet) = Some I32 \<and> local_type (body_ctx sigs f) (Named Out) = Some I32"
  by (simp add: local_type.simps body_ctx_def func_locals_def)

lemma result_locals:
  "\<not> if_uses_retarea f \<Longrightarrow> if_result_flat_types f = t # ts \<Longrightarrow>
     local_type (body_ctx sigs f) (Named ResultVal) = Some t \<and> local_type (body_ctx sigs f) (Named Out) = Some t"
  by (simp add: local_type.simps body_ctx_def func_locals_def)

lemma result_part_local:
  assumes "if_uses_retarea f" and "j < length (if_result_flat_types f)"
  shows "local_type (body_ctx sigs f) (Named (ResultPart j)) = Some (if_result_flat_types f ! j)"
proof -
  have "map_of (arg_locals 0 (if_param_flat_types f)) (ResultPart j) = None" by (rule arg_locals_other) simp
  then show ?thesis
    using map_of_parts [of ResultPart j "length (if_result_flat_types f)" "\<lambda>j. if_result_flat_types f ! j"] assms
    by (simp add: local_type.simps body_ctx_def func_locals_def map_add_def)
qed

lemma arg_locals_in_func:
  "arg_no x = Some i \<Longrightarrow> map_of (arg_locals 0 (if_param_flat_types f)) x = Some t \<Longrightarrow>
     local_type (body_ctx sigs f) (Named x) = Some t"
  by (cases x) (auto simp: local_type.simps body_ctx_def func_locals_def map_add_def)

lemma func_locals_distinct: "distinct (map fst (func_locals f))"
proof -
  define args where "args = map fst (arg_locals 0 (if_param_flat_types f))"
  have args: "distinct args" "arg_no x = None \<Longrightarrow> x \<notin> set args" for x
    using arg_locals_keys [of _ _ 0 "if_param_flat_types f"] by (fastforce simp: args_def arg_locals_distinct)+
  have names: "map fst (func_locals f) = [ArgsArea, Handle, BeforeRet, AfterRet, Disc, Watermark] @
      (if if_uses_retarea f then [TargetRet, Out] else if if_result_flat_types f \<noteq> [] then [ResultVal, Out] else []) @
      args @ (if if_uses_retarea f then map ResultPart [0..<length (if_result_flat_types f)] else [])"
    by (simp add: func_locals_def args_def)
  show ?thesis unfolding names using args by (auto simp: distinct_map inj_on_def)
qed

subsection \<open>The parts of the body\<close>

abbreviation stmts_ok :: "ctx \<Rightarrow> wat_label list \<Rightarrow> instr list \<Rightarrow> bool" where
  "stmts_ok c ls code \<equiv> itypes c ls code = Some []"

lemma stmts_append: "stmts_ok c ls xs \<Longrightarrow> itypes c ls ys = Some ts \<Longrightarrow> itypes c ls (xs @ ys) = Some ts"
  using itypes_append [of c ls xs "[]" ys ts] by simp

lemma arg_addr_type [simp]: "itype (body_ctx sigs f) ls (arg_addr n) = Some [I32]"
  by (simp add: arg_addr_def)

lemma proceed_arg_type [simp]: "itype (body_ctx sigs f) ls (proceed_arg pi) = Some [I32]"
  by (simp add: proceed_arg_def)

lemma drop_handle_type [simp]: "itype (body_ctx sigs f) ls drop_handle = Some []"
  by (simp add: drop_handle_def)

lemma param_local:
  assumes "if_core_params_lift f = pre @ ts @ post" and "j < length ts"
  shows "local_type (body_ctx sigs f) (Index (length pre + j)) = Some (ts ! j)"
  using assms by (simp add: local_type.simps body_ctx_def Let_def nth_append)

lemma disc_flats_cases:
  assumes "disc_flats d ts"
  obtains (bytes) "d = disc_string" "ts = [I32, I32]"
    | (integer) t where "d = disc_signed \<or> d = disc_unsigned" "ts = [t]" "t = I32 \<or> t = I64"
    | (single) "d = disc_f32" "ts = [F32]" | (double) "d = disc_f64" "ts = [F64]"
    | (boolean) "d = disc_bool" "ts = [I32]" | (complex) "d = disc_complex"
  using assms unfolding disc_flats_def by presburger

lemma marshal_param_ok:
  assumes "disc_flats disc ts" and "if_core_params_lift f = pre @ ts @ post"
  shows "\<exists>code. write_marshal_param disc ts offset (length pre) = Inr (code, length (pre @ ts)) \<and> stmts_ok (body_ctx sigs f) ls code"
proof -
  have at: "j < length ts \<Longrightarrow> local_type (body_ctx sigs f) (Index (length pre + j)) = Some (ts ! j)" for j
    using param_local [OF assms(2)] .
  show ?thesis
    using assms(1)
  proof (cases rule: disc_flats_cases)
    case bytes
    with at [of 0] at [of 1] show ?thesis by (simp add: write_marshal_param_def)
  qed (use at [of 0] in \<open>auto simp: write_marshal_param_def first_flat_def\<close>)
qed

lemma arg_record_ok [simp]: "stmts_ok (body_ctx sigs f) ls (arg_record offset s disc)"
  by (simp add: arg_record_def split: prod.split)

lemma marshal_params_ok:
  "list_all2 disc_flats discs flats \<Longrightarrow> length ss = length discs \<Longrightarrow> if_core_params_lift f = pre @ concat flats \<Longrightarrow>
     \<exists>code. marshal_params pi (length pre) ss discs flats = Inr code \<and> stmts_ok (body_ctx sigs f) ls code"
proof (induction arbitrary: ss pre pi rule: list_all2_induct)
  case (Cons d discs ts flats)
  from Cons.prems(1) obtain s ss' where ss: "ss = s # ss'" "length ss' = length discs" by (cases ss) auto
  obtain code where code: "write_marshal_param d ts (pi * 32) (length pre) = Inr (code, length (pre @ ts))"
    "stmts_ok (body_ctx sigs f) ls code"
    using marshal_param_ok [OF Cons.hyps(1), of f pre "concat flats" "pi * 32" sigs ls] Cons.prems(2) by auto
  obtain rest where "marshal_params (Suc pi) (length (pre @ ts)) ss' discs flats = Inr rest" "stmts_ok (body_ctx sigs f) ls rest"
    using Cons.IH [OF ss(2), of "pre @ ts" "Suc pi"] Cons.prems(2) by auto
  with code ss show ?case by (simp add: stmts_append)
qed simp

definition arg_typed :: "ctx \<Rightarrow> nat \<Rightarrow> core_type list \<Rightarrow> bool" where
  "arg_typed c pi ts \<longleftrightarrow>
     (if length ts = 1 then local_type c (Named (ArgVal pi)) = Some (hd ts)
      else \<forall>j < length ts. local_type c (Named (ArgPart pi j)) = Some (ts ! j))"

lemma arg_typed_func:
  assumes "i < length (if_param_flat_types f)"
  shows "arg_typed (body_ctx sigs f) i (if_param_flat_types f ! i)"
proof (cases "length (if_param_flat_types f ! i) = 1")
  case True
  then obtain t where "if_param_flat_types f ! i = [t]" by (auto simp: length_Suc_conv)
  with arg_local_val [OF assms this, of 0] show ?thesis by (simp add: arg_typed_def arg_locals_in_func)
next
  case False
  with arg_local_part [OF assms False, of _ 0] show ?thesis by (simp add: arg_typed_def arg_locals_in_func)
qed

lemma unwrap_arg_ok:
  assumes "disc_flats disc ts" and "arg_typed (body_ctx sigs f) pi ts"
  shows "\<exists>code. unwrap_arg pi disc ts = Inr code \<and> stmts_ok (body_ctx sigs f) ls code"
  using assms(1)
  by (cases rule: disc_flats_cases) (use assms(2) in \<open>auto simp: unwrap_arg_def first_flat_def arg_typed_def Let_def\<close>)

lemma unwrap_args_ok:
  "list_all2 disc_flats discs flats \<Longrightarrow> (\<And>i. i < length flats \<Longrightarrow> arg_typed (body_ctx sigs f) (pi + i) (flats ! i)) \<Longrightarrow>
     \<exists>code. unwrap_args pi discs flats = Inr code \<and> stmts_ok (body_ctx sigs f) ls code"
proof (induction arbitrary: pi rule: list_all2_induct)
  case (Cons d discs ts flats)
  obtain code where "unwrap_arg pi d ts = Inr code" "stmts_ok (body_ctx sigs f) ls code"
    using unwrap_arg_ok [OF Cons.hyps(1), of sigs f pi ls] Cons.prems [of 0] by auto
  moreover have "arg_typed (body_ctx sigs f) (Suc pi + i) (flats ! i)" if "i < length flats" for i
    using Cons.prems [of "Suc i"] that by simp
  then obtain rest where "unwrap_args (Suc pi) discs flats = Inr rest" "stmts_ok (body_ctx sigs f) ls rest"
    using Cons.IH by blast
  ultimately show ?case by (simp add: stmts_append trap_if_def)
qed simp

lemma gets_of: "(\<And>j. j < length ts \<Longrightarrow> local_type c (h j) = Some (ts ! j)) \<Longrightarrow>
    itypes c ls (map (\<lambda>j. LocalGet (h j)) [0..<length ts]) = Some ts"
  using itypes_gets [of "[0..<length ts]" c h "\<lambda>j. ts ! j" ls] by (simp add: map_nth)

lemma target_args_type:
  "list_all2 disc_flats discs flats \<Longrightarrow> (\<And>i. i < length flats \<Longrightarrow> arg_typed (body_ctx sigs f) (pi + i) (flats ! i)) \<Longrightarrow>
     if_core_params_lift f = pre @ concat flats \<Longrightarrow>
     itypes (body_ctx sigs f) ls (target_args pi (length pre) discs flats) = Some (concat flats)"
proof (induction arbitrary: pi pre rule: list_all2_induct)
  case (Cons d discs ts flats)
  have arg: "arg_typed (body_ctx sigs f) pi ts" using Cons.prems(1) [of 0] by simp
  have named: "itypes (body_ctx sigs f) ls (if length ts = 1 then [get (ArgVal pi)] else map (\<lambda>j. get (ArgPart pi j)) [0..<length ts]) = Some ts"
  proof (cases "length ts = 1")
    case True
    then obtain t where "ts = [t]" by (auto simp: length_Suc_conv)
    with arg show ?thesis by (simp add: arg_typed_def)
  next
    case False
    with arg gets_of [of ts "body_ctx sigs f" "\<lambda>j. Named (ArgPart pi j)"] show ?thesis by (simp add: arg_typed_def)
  qed
  have "itypes (body_ctx sigs f) ls (map (\<lambda>j. LocalGet (Index (length pre + j))) [0..<length ts]) = Some ts"
    by (rule gets_of) (use Cons.prems(2) in \<open>simp add: param_local [of f pre ts "concat flats"]\<close>)
  moreover have "map (\<lambda>j. LocalGet (Index j)) [length pre..<length pre + length ts] =
      map (\<lambda>j. LocalGet (Index (length pre + j))) [0..<length ts]"
    by (rule nth_equalityI) simp_all
  ultimately have indexed: "itypes (body_ctx sigs f) ls (map (\<lambda>j. LocalGet (Index j)) [length pre..<length pre + length ts]) = Some ts"
    by simp
  have "arg_typed (body_ctx sigs f) (Suc pi + i) (flats ! i)" if "i < length flats" for i
    using Cons.prems(1) [of "Suc i"] that by simp
  then have "itypes (body_ctx sigs f) ls (target_args (Suc pi) (length (pre @ ts)) discs flats) = Some (concat flats)"
    using Cons.IH [of "Suc pi" "pre @ ts"] Cons.prems(2) by simp
  from itypes_append [OF named this] itypes_append [OF indexed this] show ?case
    by (cases "d = disc_complex") (simp_all only: target_args.simps length_append concat.simps simp_thms if_True if_False)
qed simp

lemma load_results_ok:
  "if_uses_retarea f \<Longrightarrow> (\<And>j. j < length ts \<Longrightarrow> local_type (body_ctx sigs f) (Named (ResultPart (k + j))) = Some (ts ! j)) \<Longrightarrow>
     stmts_ok (body_ctx sigs f) ls (load_results k offset ts)"
proof (induction ts arbitrary: k offset)
  case (Cons t ts)
  have "local_type (body_ctx sigs f) (Named (ResultPart (Suc k + j))) = Some (ts ! j)" if "j < length ts" for j
    using Cons.prems(2) [of "Suc j"] that by simp
  with Cons.IH Cons.prems(1) Cons.prems(2) [of 0] retarea_locals [OF Cons.prems(1)] show ?case by (simp add: Let_def)
qed simp

text \<open>A function fit for the generator: consistent, and with parameters that are not passed indirectly.\<close>

definition direct :: "intercepted_function \<Rightarrow> bool" where
  "direct f \<longleftrightarrow> consistent f \<and> length (concat (if_param_flat_types f)) \<le> 16"

lemma direct_params: "direct f \<Longrightarrow> if_core_params_lift f = concat (if_param_flat_types f)"
  by (simp add: direct_def consistent_def)

lemma direct_discs: "direct f \<Longrightarrow> list_all2 disc_flats (if_param_discriminants f) (if_param_flat_types f)"
  by (simp add: direct_def consistent_def)

lemma direct_result:
  assumes "direct f"
  obtains (void) "if_result f = None" "if_result_discriminant f = None" "if_result_flat_types f = []" "\<not> if_uses_retarea f"
    | (single) d t where "if_result f \<noteq> None" "if_result_discriminant f = Some d" "if_result_flat_types f = [t]"
        "disc_flats d [t]" "\<not> if_uses_retarea f"
    | (area) d where "if_result f \<noteq> None" "if_result_discriminant f = Some d" "if_uses_retarea f"
        "disc_flats d (if_result_flat_types f)" "1 < length (if_result_flat_types f)"
proof (cases "if_result f")
  case None
  with assms show ?thesis using void by (auto simp: direct_def consistent_def)
next
  case (Some t)
  with assms obtain d where d: "if_result_discriminant f = Some d" "disc_flats d (if_result_flat_types f)"
    "if_result_flat_types f \<noteq> []" "if_uses_retarea f = (1 < length (if_result_flat_types f))"
    by (auto simp: direct_def consistent_def)
  show ?thesis
  proof (cases "1 < length (if_result_flat_types f)")
    case True
    with d Some area show ?thesis by simp
  next
    case False
    with d(3) obtain u where "if_result_flat_types f = [u]" by (cases "if_result_flat_types f") auto
    with d Some False single show ?thesis by simp
  qed
qed

lemma proceed_ok:
  assumes "direct f" and "func_idx < length sigs" and "sigs ! func_idx = lower_signature f"
  shows "\<exists>code. write_proceed_and_call_target f func_idx = Inr code \<and> stmts_ok (body_ctx sigs f) ls code"
proof -
  let ?args = "target_args 0 0 (if_param_discriminants f) (if_param_flat_types f)"
  have typed: "arg_typed (body_ctx sigs f) (0 + i) (if_param_flat_types f ! i)" if "i < length (if_param_flat_types f)" for i
    using arg_typed_func [OF that] by simp
  obtain code where code: "unwrap_args 0 (if_param_discriminants f) (if_param_flat_types f) = Inr code" "stmts_ok (body_ctx sigs f) ls code"
    using unwrap_args_ok [OF direct_discs [OF assms(1)], of sigs f 0 ls] typed by auto
  have args: "itypes (body_ctx sigs f) ls ?args = Some (concat (if_param_flat_types f))"
    using target_args_type [OF direct_discs [OF assms(1)], of sigs f 0 "[]" ls] typed direct_params [OF assms(1)] by simp
  have sig: "callee_type (body_ctx sigs f) (Target func_idx) = Some (if_core_params_lower f, if_core_results_lower f)"
    using assms(2,3) by (simp add: body_ctx_def lower_signature_def)
  have lower: "if_core_params_lower f = concat (if_param_flat_types f) @ (if if_uses_retarea f then [I32] else [])"
    "if_core_results_lower f = (if if_uses_retarea f then [] else if_result_flat_types f)"
    using assms(1) by (auto simp: direct_def consistent_def)
  show ?thesis
    using assms(1)
  proof (cases rule: direct_result)
    case void
    with code args sig lower show ?thesis by (simp add: write_proceed_and_call_target_def Let_def stmts_append)
  next
    case (single d t)
    with code args sig lower result_locals [OF single(5,3)] show ?thesis
      by (simp add: write_proceed_and_call_target_def Let_def stmts_append)
  next
    case (area d)
    have "itypes (body_ctx sigs f) ls (?args @ [get TargetRet]) = Some (if_core_params_lower f)"
      using itypes_append [OF args, of "[get TargetRet]" "[I32]"] retarea_locals [OF area(3)] area(3) lower by simp
    moreover have "stmts_ok (body_ctx sigs f) ls (load_results 0 0 (if_result_flat_types f))"
      by (rule load_results_ok [OF area(3)]) (simp add: result_part_local area(3))
    ultimately show ?thesis
      using code sig lower area(3) by (simp add: write_proceed_and_call_target_def Let_def stmts_append)
  qed
qed

lemma after_ok:
  assumes "direct f"
  shows "\<exists>code. write_call_after f = Inr code \<and> stmts_ok (body_ctx sigs f) ls code"
  using assms
proof (cases rule: direct_result)
  case (single d t)
  from single(4) show ?thesis
    by (cases rule: disc_flats_cases)
      (use single result_locals [OF single(5,3), of sigs] in \<open>auto simp: write_call_after_def after_call_def first_result_def Let_def\<close>)
next
  case (area d)
  from area(4) show ?thesis
  proof (cases rule: disc_flats_cases)
    case bytes
    with area result_part_local [OF area(3), of 0 sigs] result_part_local [OF area(3), of 1 sigs] show ?thesis
      by (simp add: write_call_after_def after_call_def Let_def)
  qed (use area in \<open>auto simp: write_call_after_def after_call_def first_result_def Let_def\<close>)
qed (simp add: write_call_after_def after_call_def)

lemma unwrap_out_ok:
  assumes "direct f" and "if_result_discriminant f = Some d" and "base = BeforeRet \<or> base = AfterRet"
  shows "\<exists>code. write_unwrap_value_to_out d (first_result f) (if_uses_retarea f) base n = Inr code \<and> stmts_ok (body_ctx sigs f) ls code"
  using assms(1)
proof (cases rule: direct_result)
  case void
  with assms(2) show ?thesis by simp
next
  case (single d' t)
  with assms(2) have d: "d' = d" by simp
  from single(4) show ?thesis
    by (cases rule: disc_flats_cases)
      (use single assms(3) d result_locals [OF single(5,3), of sigs] in \<open>auto simp: write_unwrap_value_to_out_def first_result_def\<close>)
next
  case (area d')
  with assms(2,3) retarea_locals [OF area(3), of sigs] show ?thesis
    by (auto simp: write_unwrap_value_to_out_def)
qed

lemma result_disc:
  assumes "direct f" and "if_result f \<noteq> None"
  obtains d where "if_result_discriminant f = Some d"
  using assms(1) by (cases rule: direct_result) (use assms(2) that in auto)

lemma skip_ok:
  assumes "direct f" and "if_result f \<noteq> None" and "DoneLabel \<in> set ls"
  shows "\<exists>code. write_skip_return f = Inr code \<and> stmts_ok (body_ctx sigs f) ls code"
proof -
  obtain d where d: "if_result_discriminant f = Some d" using result_disc [OF assms(1,2)] .
  obtain code where code: "write_unwrap_value_to_out d (first_result f) (if_uses_retarea f) BeforeRet 24 = Inr code"
    "stmts_ok (body_ctx sigs f) ls code" using unwrap_out_ok [OF assms(1) d, where base = BeforeRet] by blast
  have "stmts_ok (body_ctx sigs f) ls (code @ [drop_handle, Br DoneLabel])"
    by (rule stmts_append [OF code(2)]) (use assms(3) in simp)
  with d code show ?thesis by (simp add: write_skip_return_def)
qed

lemma accept_ok:
  assumes "direct f" and "if_result f \<noteq> None"
  shows "\<exists>code. write_accept_return f = Inr code \<and> stmts_ok (body_ctx sigs f) ls code"
proof -
  obtain d where d: "if_result_discriminant f = Some d" using result_disc [OF assms] .
  show ?thesis
  proof (cases "d = disc_complex")
    case True
    show ?thesis
      using assms(1)
    proof (cases rule: direct_result)
      case (single d' t)
      with True d result_locals [OF single(5,3), of sigs] show ?thesis by (simp add: write_accept_return_def trap_if_def)
    next
      case (area d')
      with True d retarea_locals [OF area(3), of sigs] show ?thesis by (simp add: write_accept_return_def trap_if_def)
    qed (use assms(2) in simp)
  next
    case False
    with unwrap_out_ok [OF assms(1) d, where base = AfterRet and n = 24 and sigs = sigs and ls = ls] d show ?thesis
      by (auto simp: write_accept_return_def trap_if_def)
  qed
qed

lemma loop_body_ok:
  assumes "direct f" and "func_idx < length sigs" and "sigs ! func_idx = lower_signature f"
    and "DoneLabel \<in> set ls" and "RetryLabel \<in> set ls"
  shows "\<exists>code. loop_body f func_idx fname = Inr code \<and> stmts_ok (body_ctx sigs f) ls code"
proof -
  obtain off len where fname: "fname = (off, len)" by force
  let ?skip = "if if_result f \<noteq> None then write_skip_return f
    else Inr [If (Binary Eq32 (get Disc) (i32_const 1)) [drop_handle, Br DoneLabel]]"
  let ?accept = "if if_result f \<noteq> None then write_accept_return f else Inr []"
  obtain skip where skip: "?skip = Inr skip" "stmts_ok (body_ctx sigs f) ls skip"
    using skip_ok [OF assms(1) _ assms(4), of sigs] assms(4) by (cases "if_result f = None") auto
  obtain proceed where proceed: "write_proceed_and_call_target f func_idx = Inr proceed" "stmts_ok (body_ctx sigs f) ls proceed"
    using proceed_ok [OF assms(1-3)] by blast
  obtain after where after: "write_call_after f = Inr after" "stmts_ok (body_ctx sigs f) ls after"
    using after_ok [OF assms(1)] by blast
  obtain accept where accept: "?accept = Inr accept" "stmts_ok (body_ctx sigs f) ls accept"
    using accept_ok [OF assms(1), of sigs ls] by (cases "if_result f = None") auto
  have "stmts_ok (body_ctx sigs f) ls (skip @ proceed @ after @
      [LocalSet (Named Disc) (Load8U 0 (get AfterRet)),
       If (Binary Eq32 (get Disc) (i32_const 2)) [drop_handle, Unreachable],
       If (Binary Eq32 (get Disc) (i32_const 1))
         [LocalSet (Named ArgsArea) (Load I32 8 (get AfterRet)), drop_handle, Br RetryLabel]] @ accept @ [drop_handle, Br DoneLabel])"
    by (intro stmts_append skip(2) proceed(2) after(2) accept(2)) (use assms(4,5) in simp_all)
  then show ?thesis
    unfolding loop_body_def fname Let_def prod.case skip(1) proceed(1) after(1) accept(1) attempt_simps by simp
qed

lemma interceptor_func_valid:
  assumes "direct f" and "func_idx < length sigs" and "sigs ! func_idx = lower_signature f"
    and "length strings = length (if_params f)"
  shows "\<exists>func. write_interceptor_func f func_idx fname strings = Inr func \<and> valid_func sigs func \<and>
    wfn_export func = if_export_name f \<and> wfn_params func = concat (if_param_flat_types f) \<and>
    wfn_results func = if_core_results_lift f"
proof -
  have "length strings = length (if_param_discriminants f)" using assms(1,4) by (simp add: direct_def consistent_def)
  then obtain marshal where marshal: "marshal_params 0 0 strings (if_param_discriminants f) (if_param_flat_types f) = Inr marshal"
    "stmts_ok (body_ctx sigs f) [] marshal"
    using marshal_params_ok [OF direct_discs [OF assms(1)], of strings f "[]" 0 sigs "[]"] direct_params [OF assms(1)] by auto
  obtain body where body: "loop_body f func_idx fname = Inr body" "stmts_ok (body_ctx sigs f) [RetryLabel, DoneLabel] body"
    using loop_body_ok [OF assms(1-3), of "[RetryLabel, DoneLabel]" fname] by auto
  have alloc: "stmts_ok (body_ctx sigs f) [] (allocate_areas f)"
    using retarea_locals [of f sigs] by (auto simp: allocate_areas_def)
  have out: "itypes (body_ctx sigs f) [] (if if_core_results_lift f \<noteq> [] then [get Out] else []) = Some (if_core_results_lift f)"
  proof -
    have lift: "if_core_results_lift f = (if if_uses_retarea f then [I32] else if_result_flat_types f)"
      using assms(1) by (simp add: direct_def consistent_def)
    from assms(1) show ?thesis
    proof (cases rule: direct_result)
      case (single d t)
      with lift result_locals [OF single(5,3), of sigs] show ?thesis by simp
    next
      case (area d)
      with lift retarea_locals [OF area(3), of sigs] show ?thesis by simp
    qed (use lift in simp)
  qed
  have "itypes (body_ctx sigs f) [] (allocate_areas f @ marshal @ [Block DoneLabel [Loop RetryLabel body]] @
      (if if_core_results_lift f \<noteq> [] then [get Out] else [])) = Some (if_core_results_lift f)"
    by (intro stmts_append alloc marshal(2) out) (simp add: body(2))
  then show ?thesis
    using direct_params [OF assms(1)] func_locals_distinct
    by (simp add: write_interceptor_func_def marshal(1) body(1) valid_func_def func_ctx_def body_ctx_def)
qed

end
