(* ===== verification/Matcher.thy ===== *)
theory Matcher
  imports Rust_Strings
begin

section \<open>Match patterns of the interceptor (\<open>crates/interceptor/src/matcher.rs\<close>)\<close>

text \<open>
  A pattern selects the exported functions to intercept. \<open>pattern_parse\<close> reads
  \<open>namespace:package/interface@version#function\<close>, \<open>glob_match\<close> is the greedy matcher of one segment
  and \<open>pattern_matches\<close> the test of one function. The reference is \<open>glob\<close>, the meaning of a star by
  recursion on the pattern; \<open>glob_match_iff\<close> proves the greedy matcher equal to it.
\<close>

subsection \<open>Globs\<close>

text \<open>The loop over the middle parts: the position after the leftmost match of each part.\<close>

fun match_parts :: "string \<Rightarrow> nat \<Rightarrow> string list \<Rightarrow> nat option" where
  "match_parts v pos [] = Some pos"
| "match_parts v pos (part # parts) =
     (if part = [] then match_parts v pos parts
      else (case str_find (drop pos v) part of
              Some idx \<Rightarrow> match_parts v (pos + idx + length part) parts
            | None \<Rightarrow> None))"

definition glob_match :: "string \<Rightarrow> string \<Rightarrow> bool" where
  "glob_match pattern v =
     (let parts = str_split pattern CHR ''*'' in
      if length parts = 1 then pattern = v
      else if hd parts \<noteq> [] \<and> \<not> starts_with v (hd parts) then False
      else
        (case match_parts v (length (hd parts)) (butlast (tl parts)) of
           None \<Rightarrow> False
         | Some pos \<Rightarrow> last parts \<noteq> [] \<longrightarrow> ends_with (drop pos v) (last parts)))"

text \<open>What a glob means: a star stands for any text, every other character for itself.\<close>

fun glob :: "string \<Rightarrow> string \<Rightarrow> bool" where
  "glob [] v \<longleftrightarrow> v = []"
| "glob (c # p) [] \<longleftrightarrow> c = CHR ''*'' \<and> glob p []"
| "glob (c # p) (x # v) \<longleftrightarrow>
     (if c = CHR ''*'' then glob p (x # v) \<or> glob (c # p) v else c = x \<and> glob p v)"

subsection \<open>Patterns\<close>

datatype pat_segment = Literal string | Wildcard | AnySegment

fun segment_matches :: "pat_segment \<Rightarrow> string \<Rightarrow> bool" where
  "segment_matches (Literal s) v = (if has_char s CHR ''*'' then glob_match s v else s = v)"
| "segment_matches Wildcard v = True"
| "segment_matches AnySegment v = True"

definition is_any :: "pat_segment \<Rightarrow> bool" where
  "is_any s \<longleftrightarrow> s = AnySegment"

definition parse_segment :: "string \<Rightarrow> pat_segment" where
  "parse_segment s = (if s = ''*'' then Wildcard else Literal s)"

record pattern =
  pt_namespace :: pat_segment
  pt_package :: pat_segment
  pt_interface :: pat_segment
  pt_version :: pat_segment
  pt_function :: pat_segment

datatype pattern_error = EmptyPattern

definition pattern_parse :: "string \<Rightarrow> pattern_error + pattern" where
  "pattern_parse text =
     (let s = str_trim text in
      if s = [] then Inl EmptyPattern
      else
        (let (rest, func) = (case rsplit_once s ''#'' of Some (r, f) \<Rightarrow> (r, parse_segment f) | None \<Rightarrow> (s, AnySegment));
             (rest, version) = (case rsplit_once rest ''@'' of Some (r, v) \<Rightarrow> (r, parse_segment v) | None \<Rightarrow> (rest, AnySegment))
         in (case split_once rest '':'' of
               None \<Rightarrow> Inr \<lparr>pt_namespace = AnySegment, pt_package = AnySegment, pt_interface = AnySegment,
                           pt_version = version, pt_function = parse_segment rest\<rparr>
             | Some (ns, rest) \<Rightarrow>
                 (let (package, interface) =
                    (case split_once rest ''/'' of Some (p, i) \<Rightarrow> (parse_segment p, parse_segment i)
                     | None \<Rightarrow> (parse_segment rest, AnySegment))
                  in Inr \<lparr>pt_namespace = parse_segment ns, pt_package = package, pt_interface = interface,
                          pt_version = version, pt_function = func\<rparr>))))"

definition parse_patterns :: "string list \<Rightarrow> pattern_error + pattern list" where
  "parse_patterns texts = collect_res (map pattern_parse texts)"

fun version_matches :: "pat_segment \<Rightarrow> string option \<Rightarrow> bool" where
  "version_matches (Literal v) (Some actual) \<longleftrightarrow> v = actual"
| "version_matches (Literal v) None \<longleftrightarrow> False"
| "version_matches AnySegment _ \<longleftrightarrow> True"
| "version_matches Wildcard _ \<longleftrightarrow> True"

definition matches_interface :: "pattern \<Rightarrow> string \<Rightarrow> bool" where
  "matches_interface p full_name =
     (case split_once full_name '':'' of
        None \<Rightarrow> False
      | Some (ns, rest) \<Rightarrow>
          (case split_once rest ''/'' of
             None \<Rightarrow> False
           | Some (pkg, rest) \<Rightarrow>
               (let (iface, ver) = (case split_once rest ''@'' of Some (i, v) \<Rightarrow> (i, Some v) | None \<Rightarrow> (rest, None))
                in segment_matches (pt_namespace p) ns \<and> segment_matches (pt_package p) pkg \<and>
                   segment_matches (pt_interface p) iface \<and> version_matches (pt_version p) ver)))"

definition pattern_matches :: "pattern \<Rightarrow> string option \<Rightarrow> string \<Rightarrow> bool" where
  "pattern_matches p interface_name func_name =
     (case interface_name of
        Some full_name \<Rightarrow> matches_interface p full_name \<and> segment_matches (pt_function p) func_name
      | None \<Rightarrow> is_any (pt_namespace p) \<and> is_any (pt_package p) \<and> is_any (pt_interface p) \<and>
          is_any (pt_version p) \<and> segment_matches (pt_function p) func_name)"

subsection \<open>The greedy matcher decides the glob\<close>

lemma glob_star: "glob (CHR ''*'' # p) v \<longleftrightarrow> (\<exists>a b. v = a @ b \<and> glob p b)"
proof (induction v)
  case (Cons x v)
  have "(\<exists>a b. x # v = a @ b \<and> glob p b) \<longleftrightarrow> glob p (x # v) \<or> (\<exists>a b. v = a @ b \<and> glob p b)"
    by (metis Cons_eq_append_conv)
  with Cons show ?case by simp
qed simp

lemma glob_text: "CHR ''*'' \<notin> set x \<Longrightarrow> glob (x @ p) v \<longleftrightarrow> (\<exists>w. v = x @ w \<and> glob p w)"
proof (induction x arbitrary: v)
  case (Cons c x)
  then show ?case by (cases v) auto
qed simp

text \<open>The parts after the first, in order, the last of them at the end.\<close>

fun rest_matches :: "string list \<Rightarrow> string \<Rightarrow> bool" where
  "rest_matches [] w \<longleftrightarrow> False"
| "rest_matches [l] w \<longleftrightarrow> (\<exists>a. w = a @ l)"
| "rest_matches (m # ms) w \<longleftrightarrow> (\<exists>a b. w = a @ m @ b \<and> rest_matches ms b)"

lemma rest_matches_glob:
  "parts \<noteq> [] \<Longrightarrow> (\<And>x. x \<in> set parts \<Longrightarrow> CHR ''*'' \<notin> set x) \<Longrightarrow>
     glob (CHR ''*'' # str_join ''*'' parts) w \<longleftrightarrow> rest_matches parts w"
proof (induction parts arbitrary: w rule: induct_list012)
  case (2 x)
  then show ?case using glob_text [of x "[]"] by (simp add: glob_star)
next
  case (3 x y zs)
  have "glob (x @ CHR ''*'' # str_join ''*'' (y # zs)) b \<longleftrightarrow> (\<exists>w. b = x @ w \<and> rest_matches (y # zs) w)" for b
    using 3 by (simp add: glob_text)
  then show ?case by (simp add: glob_star) metis
qed simp

lemma rest_matches_Cons: "ms \<noteq> [] \<Longrightarrow> rest_matches (m # ms) w \<longleftrightarrow> (\<exists>a b. w = a @ m @ b \<and> rest_matches ms b)"
  by (cases ms) auto

lemma rest_matches_extend: "rest_matches ms b \<Longrightarrow> rest_matches ms (c @ b)"
proof (induction ms rule: induct_list012)
  case (2 m)
  then show ?case by (auto intro: append.assoc [symmetric])
next
  case (3 m m' ms)
  then obtain a d where "b = a @ m @ d" "rest_matches (m' # ms) d" by auto
  then show ?case by (simp add: rest_matches_Cons) (metis append.assoc)
qed simp

lemma rest_matches_find:
  assumes "m \<noteq> []" and "ms \<noteq> []"
  shows "rest_matches (m # ms) w \<longleftrightarrow>
     (case str_find w m of None \<Rightarrow> False | Some i \<Rightarrow> rest_matches ms (drop (i + length m) w))"
proof
  assume "rest_matches (m # ms) w"
  then obtain a b where w: "w = a @ m @ b" "rest_matches ms b" using assms(2) by (auto simp: rest_matches_Cons)
  then have "starts_with (drop (length a) w) m" "length a \<le> length w" by auto
  then obtain i where i: "i \<le> length a" "str_find w m = Some i" using str_find_SomeI by blast
  then have "drop (i + length m) w = drop (i + length m) (a @ m) @ b" using w(1) by simp
  with i(2) w(2) show "case str_find w m of None \<Rightarrow> False | Some i \<Rightarrow> rest_matches ms (drop (i + length m) w)"
    using rest_matches_extend by simp
next
  assume "case str_find w m of None \<Rightarrow> False | Some i \<Rightarrow> rest_matches ms (drop (i + length m) w)"
  then obtain i where i: "str_find w m = Some i" "rest_matches ms (drop (i + length m) w)"
    by (auto split: option.splits)
  from str_find_Some [OF i(1)] obtain b where "drop i w = m @ b" by (auto simp: starts_with_iff)
  then have "w = take i w @ m @ b" "b = drop (i + length m) w"
    by (metis append_take_drop_id) (metis \<open>drop i w = m @ b\<close> add.commute append_eq_conv_conj drop_drop)
  with i(2) assms(2) show "rest_matches (m # ms) w" unfolding rest_matches_Cons [OF assms(2)] by blast
qed

lemma match_parts_iff:
  "(case match_parts v pos ms of None \<Rightarrow> False | Some pos' \<Rightarrow> l \<noteq> [] \<longrightarrow> ends_with (drop pos' v) l) \<longleftrightarrow>
    rest_matches (ms @ [l]) (drop pos v)"
proof (induction ms arbitrary: pos)
  case Nil
  then show ?case by (auto simp: ends_with_iff)
next
  case (Cons m ms)
  show ?case
  proof (cases "m = []")
    case True
    have "rest_matches ([] # ms @ [l]) w \<longleftrightarrow> rest_matches (ms @ [l]) w" for w
      by (auto simp: rest_matches_Cons rest_matches_extend)
    with True Cons.IH show ?thesis by simp
  next
    case False
    then show ?thesis
      using Cons.IH by (simp add: rest_matches_find ac_simps split: option.splits)
  qed
qed

lemma glob_match_glob: "glob_match pattern v \<longleftrightarrow> glob pattern v"
proof -
  obtain x xs where parts: "str_split pattern CHR ''*'' = x # xs" by (cases "str_split pattern CHR ''*''") auto
  have clean: "CHR ''*'' \<notin> set y" if "y \<in> set (x # xs)" for y
    using str_split_no_char that parts by metis
  have whole: "pattern = str_join ''*'' (x # xs)" by (simp flip: parts add: str_split_join)
  show ?thesis
  proof (cases xs rule: rev_cases)
    case Nil
    with parts whole clean glob_text [of x "[]" v] show ?thesis by (auto simp: glob_match_def Let_def)
  next
    case (snoc ms l)
    then have "xs \<noteq> []" by simp
    with whole have "pattern = x @ CHR ''*'' # str_join ''*'' xs" by (cases xs) simp_all
    then have "glob pattern v \<longleftrightarrow> (\<exists>w. v = x @ w \<and> rest_matches xs w)"
      using clean rest_matches_glob [OF \<open>xs \<noteq> []\<close>] by (simp add: glob_text)
    moreover have "glob_match pattern v \<longleftrightarrow> starts_with v x \<and>
        (case match_parts v (length x) ms of None \<Rightarrow> False | Some pos \<Rightarrow> l \<noteq> [] \<longrightarrow> ends_with (drop pos v) l)"
      by (cases "x = []") (auto simp: glob_match_def parts snoc Let_def split: option.split)
    then have "glob_match pattern v \<longleftrightarrow> starts_with v x \<and> rest_matches xs (drop (length x) v)"
      by (simp only: match_parts_iff snoc)
    ultimately show ?thesis by (auto simp: starts_with_iff)
  qed
qed

text \<open>
  C32. The greedy segment matcher decides the glob: taking the leftmost occurrence of each part between
  the stars never misses a match, so \<open>glob_match\<close> accepts exactly the texts that the pattern stands for.
\<close>

theorem glob_match_iff: "glob_match pattern v \<longleftrightarrow> glob pattern v"
  by (rule glob_match_glob)

subsection \<open>What a pattern selects\<close>

lemma glob_plain: "CHR ''*'' \<notin> set s \<Longrightarrow> glob s v \<longleftrightarrow> s = v"
  using glob_text [of s "[]" v] by auto

lemma segment_matches_parse [simp]: "segment_matches (parse_segment s) v \<longleftrightarrow> glob s v"
  using glob_star [of "[]" v] by (auto simp: parse_segment_def has_char_def glob_plain glob_match_glob)

lemma parse_segment_any [simp]: "parse_segment s \<noteq> AnySegment"
  by (simp add: parse_segment_def)

text \<open>Names without delimiters, and the texts of patterns and of interface names.\<close>

definition plain_name :: "string \<Rightarrow> bool" where
  "plain_name s \<longleftrightarrow> CHR '':'' \<notin> set s \<and> CHR ''/'' \<notin> set s \<and> CHR ''@'' \<notin> set s \<and> CHR ''#'' \<notin> set s"

definition after :: "char \<Rightarrow> string option \<Rightarrow> string" where
  "after c s = (case s of Some t \<Rightarrow> c # t | None \<Rightarrow> [])"

definition pattern_text :: "string \<Rightarrow> string \<Rightarrow> string option \<Rightarrow> string option \<Rightarrow> string option \<Rightarrow> string" where
  "pattern_text ns pkg iface ver func =
     ns @ CHR '':'' # pkg @ after CHR ''/'' iface @ after CHR ''@'' ver @ after CHR ''#'' func"

definition interface_text :: "string \<Rightarrow> string \<Rightarrow> string \<Rightarrow> string option \<Rightarrow> string" where
  "interface_text ns pkg iface ver = ns @ CHR '':'' # pkg @ CHR ''/'' # iface @ after CHR ''@'' ver"

definition optional_glob :: "string option \<Rightarrow> string \<Rightarrow> bool" where
  "optional_glob s v = (case s of Some t \<Rightarrow> glob t v | None \<Rightarrow> True)"

definition version_rule :: "string option \<Rightarrow> string option \<Rightarrow> bool" where
  "version_rule s v = (case s of Some t \<Rightarrow> t = ''*'' \<or> v = Some t | None \<Rightarrow> True)"

definition segment_of :: "string option \<Rightarrow> pat_segment" where
  "segment_of s = (case s of Some t \<Rightarrow> parse_segment t | None \<Rightarrow> AnySegment)"

lemma segment_of_matches [simp]: "segment_matches (segment_of s) v \<longleftrightarrow> optional_glob s v"
  by (simp add: segment_of_def optional_glob_def split: option.splits)

lemma segment_of_version [simp]: "version_matches (segment_of s) v \<longleftrightarrow> version_rule s v"
  by (cases v) (auto simp: segment_of_def version_rule_def parse_segment_def split: option.splits)

lemma split_after [simp]:
  "c \<notin> set a \<Longrightarrow> (\<And>t. s = Some t \<Longrightarrow> c \<notin> set t) \<Longrightarrow>
     (case rsplit_once (a @ after c s) [c] of Some (r, f) \<Rightarrow> (r, parse_segment f) | None \<Rightarrow> (a @ after c s, AnySegment)) =
       (a, segment_of s)"
  by (cases s) (auto simp: after_def segment_of_def rsplit_once_None_iff [THEN iffD2])

lemma set_after: "set (after c s) \<subseteq> insert c (case s of Some t \<Rightarrow> set t | None \<Rightarrow> {})"
  by (auto simp: after_def split: option.splits)

lemma pattern_parse_text:
  assumes "plain_name ns" and "plain_name pkg" and "pred_option plain_name iface" and "pred_option plain_name ver"
    and "pred_option plain_name func" and "str_trim (pattern_text ns pkg iface ver func) = pattern_text ns pkg iface ver func"
  shows "pattern_parse (pattern_text ns pkg iface ver func) =
    Inr \<lparr>pt_namespace = parse_segment ns, pt_package = parse_segment pkg, pt_interface = segment_of iface,
         pt_version = segment_of ver, pt_function = segment_of func\<rparr>"
proof -
  let ?named = "ns @ CHR '':'' # pkg @ after CHR ''/'' iface"
  let ?text = "(?named @ after CHR ''@'' ver) @ after CHR ''#'' func"
  have shown: "pattern_text ns pkg iface ver func = ?text" by (simp add: pattern_text_def)
  have "CHR ''#'' \<notin> set (?named @ after CHR ''@'' ver)" "CHR ''@'' \<notin> set ?named"
    using assms(1-4) by (auto simp: plain_name_def after_def split: option.splits)
  moreover have "CHR ''#'' \<notin> set t" if "func = Some t" for t using assms(5) that by (simp add: plain_name_def)
  moreover have "CHR ''@'' \<notin> set t" if "ver = Some t" for t using assms(4) that by (simp add: plain_name_def)
  ultimately have split: "(case rsplit_once ?text ''#'' of Some (r, f) \<Rightarrow> (r, parse_segment f) | None \<Rightarrow> (?text, AnySegment)) =
      (?named @ after CHR ''@'' ver, segment_of func)"
    "(case rsplit_once (?named @ after CHR ''@'' ver) ''@'' of Some (r, v) \<Rightarrow> (r, parse_segment v)
      | None \<Rightarrow> (?named @ after CHR ''@'' ver, AnySegment)) = (?named, segment_of ver)"
    by (simp_all only: split_after not_False_eq_True)
  have "split_once ?named '':'' = Some (ns, pkg @ after CHR ''/'' iface)"
    using assms(1) by (simp add: plain_name_def)
  moreover have "(case split_once (pkg @ after CHR ''/'' iface) ''/'' of Some (p, i) \<Rightarrow> (parse_segment p, parse_segment i)
      | None \<Rightarrow> (parse_segment (pkg @ after CHR ''/'' iface), AnySegment)) = (parse_segment pkg, segment_of iface)"
    using assms(2,3) by (cases iface) (auto simp: plain_name_def after_def segment_of_def split_once_None_iff [THEN iffD2])
  ultimately show ?thesis
    using assms(6) unfolding pattern_parse_def shown Let_def
    by (simp only: split prod.case option.case) simp
qed

lemma matches_interface_text:
  assumes "plain_name ns" and "plain_name pkg" and "plain_name iface"
  shows "matches_interface p (interface_text ns pkg iface ver) \<longleftrightarrow>
    segment_matches (pt_namespace p) ns \<and> segment_matches (pt_package p) pkg \<and>
    segment_matches (pt_interface p) iface \<and> version_matches (pt_version p) ver"
  using assms
  by (cases ver) (auto simp: matches_interface_def interface_text_def after_def plain_name_def split_once_None_iff [THEN iffD2])

text \<open>
  What a qualified pattern selects: for names without delimiters, the text
  \<open>ns:pkg/iface@version#function\<close> (the last three parts optional) is accepted, and it selects a function
  of an interface exactly when every part given is a glob of the part it stands for, the version
  excepted, which must be equal or a lone star; it never selects a function of the world itself.
\<close>

theorem qualified_pattern_selects:
  assumes "plain_name ns" and "plain_name pkg" and "pred_option plain_name iface" and "pred_option plain_name ver"
    and "pred_option plain_name func" and "str_trim (pattern_text ns pkg iface ver func) = pattern_text ns pkg iface ver func"
    and "plain_name ns'" and "plain_name pkg'" and "plain_name iface'"
  shows "\<exists>p. pattern_parse (pattern_text ns pkg iface ver func) = Inr p \<and>
    (\<forall>ver' f. pattern_matches p (Some (interface_text ns' pkg' iface' ver')) f \<longleftrightarrow>
       glob ns ns' \<and> glob pkg pkg' \<and> optional_glob iface iface' \<and> version_rule ver ver' \<and> optional_glob func f) \<and>
    (\<forall>f. \<not> pattern_matches p None f)"
  unfolding pattern_parse_text [OF assms(1-6)]
  by (simp add: pattern_matches_def matches_interface_text [OF assms(7-9)] is_any_def)

theorem qualified_pattern_selects_witness:
  "\<exists>p. pattern_parse (pattern_text ''test'' ''ex*'' (Some ''handler'') (Some ''0.2.0'') None) = Inr p \<and>
    (\<forall>ver' f. pattern_matches p (Some (interface_text ''test'' ''example'' ''handler'' ver')) f \<longleftrightarrow>
       glob ''test'' ''test'' \<and> glob ''ex*'' ''example'' \<and> optional_glob (Some ''handler'') ''handler'' \<and>
       version_rule (Some ''0.2.0'') ver' \<and> optional_glob None f) \<and>
    (\<forall>f. \<not> pattern_matches p None f)"
  by (rule qualified_pattern_selects; (force simp: plain_name_def | code_simp))

text \<open>
  A pattern without a colon is a function name. It selects that function in the world itself and in
  every interface as well, and whatever follows a hash in it is thrown away: \<open>name#other\<close> is the same
  pattern as \<open>name\<close>, and \<open>other\<close> is never looked at.
\<close>

theorem unqualified_pattern_selects:
  assumes "plain_name name" and "name \<noteq> []" and "str_trim name = name"
    and "CHR ''#'' \<notin> set other" and "str_trim (name @ CHR ''#'' # other) = name @ CHR ''#'' # other"
    and "plain_name ns'" and "plain_name pkg'" and "plain_name iface'"
  shows "pattern_parse (name @ CHR ''#'' # other) = pattern_parse name \<and>
    (\<exists>p. pattern_parse name = Inr p \<and>
      (\<forall>f. pattern_matches p None f \<longleftrightarrow> glob name f) \<and>
      (\<forall>ver' f. pattern_matches p (Some (interface_text ns' pkg' iface' ver')) f \<longleftrightarrow> glob name f))"
proof -
  have clean: "CHR '':'' \<notin> set name" "CHR ''@'' \<notin> set name" "CHR ''#'' \<notin> set name" using assms(1) by (simp_all add: plain_name_def)
  let ?p = "\<lparr>pt_namespace = AnySegment, pt_package = AnySegment, pt_interface = AnySegment,
             pt_version = AnySegment, pt_function = parse_segment name\<rparr>"
  have parse: "pattern_parse name = Inr ?p" "pattern_parse (name @ CHR ''#'' # other) = Inr ?p"
    using assms(2-5) clean
    by (simp_all add: pattern_parse_def rsplit_once_None_iff [THEN iffD2] split_once_None_iff [THEN iffD2])
  show ?thesis
    unfolding parse by (simp add: pattern_matches_def matches_interface_text [OF assms(6-8)] is_any_def)
qed

theorem unqualified_pattern_selects_witness:
  "pattern_parse (''say-*'' @ CHR ''#'' # ''reply'') = pattern_parse ''say-*'' \<and>
    (\<exists>p. pattern_parse ''say-*'' = Inr p \<and>
      (\<forall>f. pattern_matches p None f \<longleftrightarrow> glob ''say-*'' f) \<and>
      (\<forall>ver' f. pattern_matches p (Some (interface_text ''test'' ''example'' ''handler'' ver')) f \<longleftrightarrow> glob ''say-*'' f))"
  by (rule unqualified_pattern_selects; (force simp: plain_name_def | code_simp))

end
