(* ===== verification/Extractor.thy ===== *)
theory Extractor
  imports Matcher Wit_Types
begin

section \<open>Exports and type imports of the target (\<open>crates/interceptor/src/extractor.rs\<close>)\<close>

text \<open>
  \<open>extract_world_exports\<close> lists the exports of a world and marks each function as intercepted or
  bypassed; \<open>extract_type_imports\<close> finds the imported interfaces whose types the exported signatures
  refer to, by the walk \<open>walk_types\<close> over the type graph with the set of types already visited.
  Decoding a component and reading WIT files are the parameters \<open>wit_reader\<close>. \<open>None\<close> of the walk
  is an identifier outside the arena, where the arena panics.
\<close>

subsection \<open>Names of interfaces\<close>

definition format_interface_name :: "resolve \<Rightarrow> nat \<Rightarrow> intercept_error + string" where
  "format_interface_name rs i =
     attempt (ok_or OutsideArena (if i < length (rs_interfaces rs) then Some (rs_interfaces rs ! i) else None)) (\<lambda>iface.
     attempt (ok_or (NoInterfaceName i) (wi_name iface)) (\<lambda>iface_name.
     attempt (ok_or (NoPackage i) (wi_package iface)) (\<lambda>pkg_id.
     attempt (ok_or OutsideArena (if pkg_id < length (rs_packages rs) then Some (rs_packages rs ! pkg_id) else None)) (\<lambda>package.
       let version_suffix = (case wp_version package of Some v \<Rightarrow> CHR ''@'' # v | None \<Rightarrow> [])
       in Inr (wp_namespace package @ '':'' @ wp_name package @ ''/'' @ iface_name @ version_suffix)))))"

subsection \<open>Exports\<close>

text \<open>The alias chain of \<open>use\<close>, with fuel as in \<open>Wit_Types\<close>.\<close>

fun is_used_type :: "nat \<Rightarrow> resolve \<Rightarrow> nat \<Rightarrow> nat \<Rightarrow> bool option" where
  "is_used_type 0 rs i home = None"
| "is_used_type (Suc fuel) rs i home =
     (case type_at rs i of
        None \<Rightarrow> None
      | Some td \<Rightarrow>
          (case td_kind td of
             KType (WId inner) \<Rightarrow> is_used_type fuel rs inner home
           | _ \<Rightarrow> Some (case td_owner td of OwnerInterface owner \<Rightarrow> owner \<noteq> home | _ \<Rightarrow> False)))"

definition classify :: "pattern list \<Rightarrow> string option \<Rightarrow> wit_function \<Rightarrow> function_export" where
  "classify patterns interface_name func =
     (if patterns = [] \<or> list_ex (\<lambda>p. pattern_matches p interface_name (wf_name func)) patterns
      then Intercepted func else Bypassed func)"

fun split_types :: "resolve \<Rightarrow> nat \<Rightarrow> (string \<times> nat) list \<Rightarrow> intercept_error + string list \<times> string list" where
  "split_types rs home [] = Inr ([], [])"
| "split_types rs home ((name, i) # ts) =
     attempt (ok_or OutsideArena (is_used_type (length (rs_types rs)) rs i home)) (\<lambda>used.
     attempt (split_types rs home ts) (\<lambda>(owned_types, used_types).
       Inr (if used then (owned_types, name # used_types) else (name # owned_types, used_types))))"

definition export_item :: "resolve \<Rightarrow> pattern list \<Rightarrow> world_item \<Rightarrow> intercept_error + world_export list" where
  "export_item rs patterns item =
     (case item of
        ItemInterface i \<Rightarrow>
          attempt (format_interface_name rs i) (\<lambda>full_name.
            let interface = rs_interfaces rs ! i in
            attempt (split_types rs i (wi_types interface)) (\<lambda>(owned_types, used_types).
              let functions = map (\<lambda>(_, func). classify patterns (Some full_name) func) (wi_functions interface) in
              Inr (if functions \<noteq> [] then
                     [ExportInterface \<lparr>ie_interface = i, ie_full_name = full_name, ie_functions = functions,
                        ie_owned_types = owned_types, ie_used_types = used_types\<rparr>]
                   else [])))
      | ItemFunction func \<Rightarrow> Inr [ExportFunction (classify patterns None func)]
      | ItemType i \<Rightarrow> Inr [])"

definition extract_world_exports :: "resolve \<Rightarrow> nat \<Rightarrow> pattern list \<Rightarrow> intercept_error + world_export list" where
  "extract_world_exports rs w patterns =
     map_ok concat (collect_res (map (\<lambda>(_, item). export_item rs patterns item) (ww_exports (rs_worlds rs ! w))))"

subsection \<open>The walk over the type graph\<close>

type_synonym walk_state = "(nat \<times> string) set \<times> nat set"

text \<open>An alias that \<open>use\<close> made of another interface's type; the walk reaches the original itself.\<close>

definition is_use_alias :: "resolve \<Rightarrow> type_def \<Rightarrow> bool" where
  "is_use_alias rs td =
     (case (td_kind td, td_owner td) of
        (KType (WId inner), OwnerInterface owner) \<Rightarrow>
          (case type_at rs inner of
             Some td' \<Rightarrow> (case td_owner td' of OwnerInterface inner_owner \<Rightarrow> inner_owner \<noteq> owner | _ \<Rightarrow> False)
           | None \<Rightarrow> False)
      | _ \<Rightarrow> False)"

definition foreign_entry :: "resolve \<Rightarrow> nat option \<Rightarrow> type_def \<Rightarrow> (nat \<times> string) option" where
  "foreign_entry rs home td =
     (if is_use_alias rs td then None
      else (case (td_name td, td_owner td) of
              (Some name, OwnerInterface owner) \<Rightarrow>
                if (case home of Some h \<Rightarrow> owner \<noteq> h | None \<Rightarrow> True) then Some (owner, name) else None
            | _ \<Rightarrow> None))"

definition record_entry :: "resolve \<Rightarrow> nat option \<Rightarrow> type_def \<Rightarrow> (nat \<times> string) set \<Rightarrow> (nat \<times> string) set" where
  "record_entry rs home td referenced =
     (case foreign_entry rs home td of Some e \<Rightarrow> insert e referenced | None \<Rightarrow> referenced)"

function (sequential) walk_types :: "resolve \<Rightarrow> nat option \<Rightarrow> wtype list \<Rightarrow> walk_state \<Rightarrow> walk_state option" where
  "walk_types rs home [] st = Some st"
| "walk_types rs home (WId i # ts) (referenced, visited) =
     (if i \<in> visited then walk_types rs home ts (referenced, visited)
      else (case type_at rs i of
              None \<Rightarrow> None
            | Some td \<Rightarrow>
                (case walk_types rs home (child_types (td_kind td)) (record_entry rs home td referenced, insert i visited) of
                   None \<Rightarrow> None
                 | Some st \<Rightarrow> walk_types rs home ts st)))"
| "walk_types rs home (t # ts) st = walk_types rs home ts st"
  by pat_completeness auto

lemma walk_visited:
  "walk_types_dom (rs, home, ts, st) \<Longrightarrow> walk_types rs home ts st = Some st' \<Longrightarrow> snd st \<subseteq> snd st'"
  by (induction arbitrary: st' rule: walk_types.pinduct)
    (fastforce simp: walk_types.psimps split: if_splits option.splits)+

lemma unvisited_less: "i < (n :: nat) \<Longrightarrow> i \<notin> v \<Longrightarrow> insert i v \<subseteq> b \<Longrightarrow> card ({..<n} - b) < card ({..<n} - v)"
  by (rule psubset_card_mono) (simp, blast)

text \<open>Unvisited types of the arena, then the length of the list: the walk returns.\<close>

termination walk_types
proof (relation "measures [\<lambda>(rs, home, ts, st). card ({..<length (rs_types rs)} - snd st), \<lambda>(rs, home, ts, st). length ts]",
    goal_cases)
  case (3 rs home i ts referenced visited td)
  then show ?case using unvisited_less [of i "length (rs_types rs)" visited "insert i visited"]
    by (simp add: type_at_def split: if_splits)
next
  case (4 rs home i ts referenced visited td st)
  then have "insert i visited \<subseteq> snd st" "i < length (rs_types rs)"
    using walk_visited [OF _ 4(3)] by (auto simp: type_at_def split: if_splits)
  with 4(1) have "card ({..<length (rs_types rs)} - snd st) < card ({..<length (rs_types rs)} - visited)"
    by (intro unvisited_less)
  then show ?case by simp
qed auto

subsection \<open>Referenced types and type imports\<close>

definition signature_types :: "wit_function \<Rightarrow> wtype list" where
  "signature_types f = map snd (wf_params f) @ (case wf_result f of Some t \<Rightarrow> [t] | None \<Rightarrow> [])"

fun export_home :: "world_export \<Rightarrow> nat option" where
  "export_home (ExportInterface ie) = Some (ie_interface ie)"
| "export_home (ExportFunction fe) = None"

fun export_types :: "world_export \<Rightarrow> wtype list" where
  "export_types (ExportInterface ie) = concat (map (signature_types \<circ> export_func) (ie_functions ie))"
| "export_types (ExportFunction fe) = signature_types (export_func fe)"

fun walk_exports :: "resolve \<Rightarrow> world_export list \<Rightarrow> walk_state \<Rightarrow> walk_state option" where
  "walk_exports rs [] st = Some st"
| "walk_exports rs (we # wes) st =
     (case walk_types rs (export_home we) (export_types we) st of None \<Rightarrow> None | Some st' \<Rightarrow> walk_exports rs wes st')"

definition collect_referenced_foreign_types :: "resolve \<Rightarrow> world_export list \<Rightarrow> (nat \<times> string) set option" where
  "collect_referenced_foreign_types rs exports = map_option fst (walk_exports rs exports ({}, {}))"

definition import_item :: "resolve \<Rightarrow> (nat \<times> string) set \<Rightarrow> world_item \<Rightarrow> intercept_error + type_import list" where
  "import_item rs referenced item =
     (case item of
        ItemInterface i \<Rightarrow>
          let type_names = filter (\<lambda>name. (i, name) \<in> referenced) (map fst (wi_types (rs_interfaces rs ! i))) in
          if type_names = [] then Inr []
          else map_ok (\<lambda>full_name. [\<lparr>ti_interface = i, ti_full_name = full_name, ti_type_names = type_names\<rparr>])
                 (format_interface_name rs i)
      | _ \<Rightarrow> Inr [])"

definition extract_type_imports :: "resolve \<Rightarrow> nat \<Rightarrow> world_export list \<Rightarrow> intercept_error + type_import list" where
  "extract_type_imports rs w exports =
     attempt (ok_or OutsideArena (collect_referenced_foreign_types rs exports)) (\<lambda>referenced.
       if referenced = {} then Inr []
       else map_ok concat (collect_res (map (\<lambda>(_, item). import_item rs referenced item) (ww_imports (rs_worlds rs ! w)))))"

definition extract_target :: "resolve \<Rightarrow> nat \<Rightarrow> pattern list \<Rightarrow> intercept_error + target_world" where
  "extract_target rs w patterns =
     attempt (extract_world_exports rs w patterns) (\<lambda>exports.
     attempt (extract_type_imports rs w exports) (\<lambda>type_imports.
       Inr \<lparr>tw_resolve = rs, tw_world = w, tw_exports = exports, tw_type_imports = type_imports\<rparr>))"

record 'bytes wit_reader =
  wr_decode :: "'bytes \<Rightarrow> string + resolve"
  wr_push_path :: "string \<Rightarrow> string + resolve \<times> nat"
  wr_select_world :: "resolve \<Rightarrow> nat \<Rightarrow> string \<Rightarrow> string + nat"

definition extract_from_wasm :: "'b wit_reader \<Rightarrow> 'b \<Rightarrow> pattern list \<Rightarrow> intercept_error + target_world" where
  "extract_from_wasm wr component_bytes patterns =
     attempt (map_err DecodeError (wr_decode wr component_bytes)) (\<lambda>rs.
       if length (rs_worlds rs) \<noteq> 1 then Inl (WorldCount (length (rs_worlds rs)))
       else extract_target rs 0 patterns)"

definition extract_from_wit :: "'b wit_reader \<Rightarrow> string \<Rightarrow> string \<Rightarrow> pattern list \<Rightarrow> intercept_error + target_world" where
  "extract_from_wit wr wit_path world_name patterns =
     attempt (map_err DecodeError (wr_push_path wr wit_path)) (\<lambda>(rs, pkg).
     attempt (map_err DecodeError (wr_select_world wr rs pkg world_name)) (\<lambda>w.
       extract_target rs w patterns))"

subsection \<open>Which functions are intercepted\<close>

fun exported_functions :: "world_export \<Rightarrow> (string option \<times> function_export) list" where
  "exported_functions (ExportInterface ie) = map (Pair (Some (ie_full_name ie))) (ie_functions ie)"
| "exported_functions (ExportFunction fe) = [(None, fe)]"

fun item_functions :: "resolve \<Rightarrow> world_item \<Rightarrow> (string option \<times> wit_function) list" where
  "item_functions rs (ItemInterface i) =
     (case format_interface_name rs i of Inl e \<Rightarrow> [] | Inr name \<Rightarrow> map (\<lambda>(_, f). (Some name, f)) (wi_functions (rs_interfaces rs ! i)))"
| "item_functions rs (ItemFunction f) = [(None, f)]"
| "item_functions rs (ItemType i) = []"

lemma export_item_functions:
  "export_item rs patterns item = Inr wes \<Longrightarrow>
     concat (map exported_functions wes) = map (\<lambda>(n, f). (n, classify patterns n f)) (item_functions rs item)"
  by (cases item) (auto simp: export_item_def Let_def attempt_Inr_iff split: if_splits)

lemma export_items_functions:
  "collect_res (map (\<lambda>(_, item). export_item rs patterns item) items) = Inr wess \<Longrightarrow>
     concat (map exported_functions (concat wess)) =
     map (\<lambda>(n, f). (n, classify patterns n f)) (concat (map (item_functions rs \<circ> snd) items))"
proof (induction items arbitrary: wess)
  case (Cons kv items)
  then show ?case by (cases kv) (auto simp: attempt_Inr_iff dest!: export_item_functions)
qed simp

text \<open>
  C33. No exported function is lost or reordered, and each is classified by the patterns alone: reading
  the exports of a world succeeds with its functions in declaration order, each under its interface's
  full name, intercepted if there are no patterns or one of them matches, bypassed otherwise.
\<close>

theorem exports_classified:
  assumes "extract_world_exports rs w patterns = Inr exports"
  shows "concat (map exported_functions exports) =
    map (\<lambda>(n, f). (n, if patterns = [] \<or> (\<exists>p \<in> set patterns. pattern_matches p n (wf_name f)) then Intercepted f else Bypassed f))
      (concat (map (item_functions rs \<circ> snd) (ww_exports (rs_worlds rs ! w))))"
proof -
  have "classify patterns n f =
      (if patterns = [] \<or> (\<exists>p \<in> set patterns. pattern_matches p n (wf_name f)) then Intercepted f else Bypassed f)" for n f
    by (simp add: classify_def list_ex_iff)
  note classified = this
  from assms obtain wess where "exports = concat wess"
    "collect_res (map (\<lambda>(_, item). export_item rs patterns item) (ww_exports (rs_worlds rs ! w))) = Inr wess"
    by (auto simp: extract_world_exports_def map_ok_Inr_iff)
  with export_items_functions show ?thesis by (simp only: classified [symmetric])
qed

theorem exports_classified_witness:
  "concat (map exported_functions [ExportInterface \<lparr>ie_interface = 0, ie_full_name = ''test:geometry/shapes@1.0.0'',
      ie_functions = [Intercepted \<lparr>wf_name = ''norm'', wf_params = [(''p'', WId 1)], wf_result = Some WF64, wf_docs = None\<rparr>],
      ie_owned_types = [''point''], ie_used_types = []\<rparr>,
    ExportFunction (Intercepted \<lparr>wf_name = ''origin'', wf_params = [], wf_result = Some (WId 2), wf_docs = None\<rparr>)]) =
    map (\<lambda>(n, f). (n, if [] = ([] :: pattern list) \<or> (\<exists>p \<in> set []. pattern_matches p n (wf_name f)) then Intercepted f else Bypassed f))
      (concat (map (item_functions sample_resolve \<circ> snd) (ww_exports (rs_worlds sample_resolve ! 0))))"
  by (rule exports_classified) code_simp

subsection \<open>What the walk collects\<close>

definition arena_closed :: "resolve \<Rightarrow> bool" where
  "arena_closed rs \<longleftrightarrow> (\<forall>td \<in> set (rs_types rs). \<forall>t \<in> set (child_types (td_kind td)). in_arena rs t)"

definition type_edge :: "resolve \<Rightarrow> (nat \<times> nat) set" where
  "type_edge rs = {(i, j). \<exists>td. type_at rs i = Some td \<and> WId j \<in> set (child_types (td_kind td))}"

definition reach :: "resolve \<Rightarrow> wtype list \<Rightarrow> nat set" where
  "reach rs ts = (type_edge rs)\<^sup>* `` {i. WId i \<in> set ts}"

definition entries :: "resolve \<Rightarrow> nat option \<Rightarrow> nat set \<Rightarrow> (nat \<times> string) set" where
  "entries rs home is = {e. \<exists>i \<in> is. \<exists>td. type_at rs i = Some td \<and> foreign_entry rs home td = Some e}"

lemma entries_Un: "entries rs home (a \<union> b) = entries rs home a \<union> entries rs home b"
  by (auto simp: entries_def)

lemma entries_insert:
  "type_at rs i = Some td \<Longrightarrow> record_entry rs home td referenced = referenced \<union> entries rs home {i}"
  by (auto simp: record_entry_def entries_def split: option.splits)

lemma reach_Nil [simp]: "reach rs [] = {}"
  by (simp add: reach_def)

lemma reach_append: "reach rs (ts @ us) = reach rs ts \<union> reach rs us"
  by (auto simp: reach_def)

lemma reach_Cons: "reach rs (t # ts) = reach rs [t] \<union> reach rs ts"
  using reach_append [of rs "[t]" ts] by simp

lemma reach_id:
  assumes "type_at rs i = Some td"
  shows "reach rs [WId i] = insert i (reach rs (child_types (td_kind td)))"
proof -
  have "type_edge rs `` {i} = {j. WId j \<in> set (child_types (td_kind td))}"
    using assms by (auto simp: type_edge_def)
  moreover have "(type_edge rs)\<^sup>* `` {i} = insert i ((type_edge rs)\<^sup>* `` (type_edge rs `` {i}))"
    by (auto elim: converse_rtranclE intro: converse_rtrancl_into_rtrancl)
  ultimately show ?thesis by (simp add: reach_def)
qed

lemma reach_other: "(\<And>i. WId i \<noteq> t) \<Longrightarrow> reach rs [t] = {}"
  by (auto simp: reach_def)

text \<open>The new visits of a walk: closed up to what was visited before, and no more than is reachable.\<close>

definition walk_post :: "resolve \<Rightarrow> nat option \<Rightarrow> wtype list \<Rightarrow> walk_state \<Rightarrow> walk_state \<Rightarrow> bool" where
  "walk_post rs home ts st st' \<longleftrightarrow>
     snd st \<subseteq> snd st' \<and> {i. WId i \<in> set ts} \<subseteq> snd st' \<and> snd st' \<subseteq> snd st \<union> reach rs ts \<and>
     (\<forall>i \<in> snd st' - snd st. type_edge rs `` {i} \<subseteq> snd st') \<and>
     fst st' = fst st \<union> entries rs home (snd st' - snd st)"

lemma walk_post_step:
  assumes "type_at rs i = Some td" and "i \<notin> visited"
    and "walk_post rs home (child_types (td_kind td)) (record_entry rs home td referenced, insert i visited) st1"
    and "walk_post rs home ts st1 st2"
  shows "walk_post rs home (WId i # ts) (referenced, visited) st2"
proof -
  have mono: "insert i visited \<subseteq> snd st1" "snd st1 \<subseteq> snd st2" using assms(3,4) by (simp_all add: walk_post_def)
  have "snd st2 \<subseteq> visited \<union> reach rs (WId i # ts)"
    using assms(3,4) unfolding walk_post_def reach_Cons [of rs "WId i" ts] reach_id [OF assms(1)] by auto
  moreover have "type_edge rs `` {j} \<subseteq> snd st2" if j: "j \<in> snd st2 - visited" for j
  proof -
    have "type_edge rs `` {i} \<subseteq> snd st1"
      using assms(1,3) by (auto simp: walk_post_def type_edge_def)
    moreover have "type_edge rs `` {j} \<subseteq> snd st1" if "j \<in> snd st1 - insert i visited"
      using assms(3) that by (auto simp: walk_post_def)
    moreover have "type_edge rs `` {j} \<subseteq> snd st2" if "j \<in> snd st2 - snd st1"
      using assms(4) that by (auto simp: walk_post_def)
    ultimately show ?thesis using j mono(2) by (cases "j = i"; cases "j \<in> snd st1") blast+
  qed
  moreover have "fst st2 = referenced \<union> entries rs home (snd st2 - visited)"
  proof -
    have new: "snd st2 - visited = {i} \<union> (snd st1 - insert i visited) \<union> (snd st2 - snd st1)"
      using mono assms(2) by blast
    show ?thesis
      unfolding new entries_Un using assms(3,4) by (simp add: walk_post_def entries_insert [OF assms(1)] Un_assoc)
  qed
  ultimately show ?thesis using mono assms(4) by (auto simp: walk_post_def)
qed

lemma walk_post_skip: "(\<And>i. WId i \<noteq> t) \<Longrightarrow> walk_post rs home ts st st' \<Longrightarrow> walk_post rs home (t # ts) st st'"
  by (simp add: walk_post_def reach_Cons [of rs t ts] reach_other)

lemma walk_types_spec:
  "arena_closed rs \<Longrightarrow> (\<And>t. t \<in> set ts \<Longrightarrow> in_arena rs t) \<Longrightarrow>
     \<exists>st'. walk_types rs home ts st = Some st' \<and> walk_post rs home ts st st'"
proof (induction rs home ts st rule: walk_types.induct)
  case (1 rs home st)
  then show ?case by (simp add: walk_post_def entries_def)
next
  case (2 rs home i ts referenced visited)
  show ?case
  proof (cases "i \<in> visited")
    case True
    with "2.IH"(1) "2.prems" obtain st' where "walk_types rs home ts (referenced, visited) = Some st'"
      "walk_post rs home ts (referenced, visited) st'" by auto
    with True show ?thesis by (auto simp: walk_post_def reach_Cons [of rs "WId i" ts])
  next
    case False
    have "in_arena rs (WId i)" using "2.prems"(2) by simp
    then obtain td where td: "type_at rs i = Some td" "td \<in> set (rs_types rs)"
      by (auto simp: type_at_def in_arena_def)
    let ?st = "(record_entry rs home td referenced, insert i visited)"
    have "in_arena rs t" if "t \<in> set (child_types (td_kind td))" for t
      using "2.prems"(1) td(2) that by (auto simp: arena_closed_def)
    with "2.IH"(2) [OF False td(1)] "2.prems"(1) obtain st1 where st1:
      "walk_types rs home (child_types (td_kind td)) ?st = Some st1" "walk_post rs home (child_types (td_kind td)) ?st st1" by blast
    with "2.IH"(3) [OF False td(1) st1(1)] "2.prems" obtain st2 where st2:
      "walk_types rs home ts st1 = Some st2" "walk_post rs home ts st1 st2" by auto
    have "walk_post rs home (WId i # ts) (referenced, visited) st2"
      by (rule walk_post_step [OF td(1) False st1(2) st2(2)])
    with False td(1) st1(1) st2(1) show ?thesis by simp
  qed
qed (force intro: walk_post_skip)+

definition edges_closed :: "resolve \<Rightarrow> nat set \<Rightarrow> bool" where
  "edges_closed rs v \<longleftrightarrow> (\<forall>i \<in> v. type_edge rs `` {i} \<subseteq> v)"

lemma reach_in_closed:
  assumes "edges_closed rs v" and "{i. WId i \<in> set ts} \<subseteq> v"
  shows "reach rs ts \<subseteq> v"
proof -
  have "type_edge rs `` v \<subseteq> v" using assms(1) by (auto simp: edges_closed_def)
  then have "(type_edge rs)\<^sup>* `` v = v" by (rule Image_closed_trancl)
  with assms(2) show ?thesis unfolding reach_def by blast
qed

lemma walk_closed:
  assumes "arena_closed rs" and "\<And>t. t \<in> set ts \<Longrightarrow> in_arena rs t" and "edges_closed rs (snd st)"
  shows "walk_types rs home ts st = Some (fst st \<union> entries rs home (reach rs ts - snd st), snd st \<union> reach rs ts) \<and>
    edges_closed rs (snd st \<union> reach rs ts)"
proof -
  obtain st' where st': "walk_types rs home ts st = Some st'" "walk_post rs home ts st st'"
    using walk_types_spec [OF assms(1)] assms(2) by blast
  have closed: "edges_closed rs (snd st')"
    using st'(2) assms(3) unfolding walk_post_def edges_closed_def by blast
  have "reach rs ts \<subseteq> snd st'"
    by (rule reach_in_closed [OF closed]) (use st'(2) in \<open>simp add: walk_post_def\<close>)
  then have eq: "snd st' = snd st \<union> reach rs ts" using st'(2) by (auto simp: walk_post_def)
  moreover from eq have "snd st' - snd st = reach rs ts - snd st" by blast
  ultimately show ?thesis using st' closed by (cases st') (simp add: walk_post_def)
qed

text \<open>What the exports record in turn: each one only from the types that no earlier one reached.\<close>

fun first_reached :: "resolve \<Rightarrow> nat set \<Rightarrow> world_export list \<Rightarrow> (nat \<times> string) set" where
  "first_reached rs seen [] = {}"
| "first_reached rs seen (we # wes) =
     entries rs (export_home we) (reach rs (export_types we) - seen) \<union>
     first_reached rs (seen \<union> reach rs (export_types we)) wes"

definition exports_in_arena :: "resolve \<Rightarrow> world_export list \<Rightarrow> bool" where
  "exports_in_arena rs exports \<longleftrightarrow> (\<forall>we \<in> set exports. \<forall>t \<in> set (export_types we). in_arena rs t)"

lemma walk_exports_spec:
  "arena_closed rs \<Longrightarrow> exports_in_arena rs exports \<Longrightarrow> edges_closed rs (snd st) \<Longrightarrow>
     map_option fst (walk_exports rs exports st) = Some (fst st \<union> first_reached rs (snd st) exports)"
proof (induction exports arbitrary: st)
  case (Cons we wes)
  have "walk_types rs (export_home we) (export_types we) st =
      Some (fst st \<union> entries rs (export_home we) (reach rs (export_types we) - snd st), snd st \<union> reach rs (export_types we)) \<and>
      edges_closed rs (snd st \<union> reach rs (export_types we))"
    using Cons.prems by (intro walk_closed) (auto simp: exports_in_arena_def)
  moreover have "exports_in_arena rs wes" using Cons.prems(2) by (simp add: exports_in_arena_def)
  ultimately show ?case
    using Cons.IH [of "(fst st \<union> entries rs (export_home we) (reach rs (export_types we) - snd st), snd st \<union> reach rs (export_types we))"]
      Cons.prems(1) by (simp add: Un_assoc)
qed simp

lemma collect_exact:
  "arena_closed rs \<Longrightarrow> exports_in_arena rs exports \<Longrightarrow>
     collect_referenced_foreign_types rs exports = Some (first_reached rs {} exports)"
  using walk_exports_spec [of rs exports "({}, {})"]
  by (simp add: collect_referenced_foreign_types_def edges_closed_def)

lemma first_reached_same_home:
  "(\<And>we. we \<in> set exports \<Longrightarrow> export_home we = home) \<Longrightarrow>
     first_reached rs seen exports = entries rs home ((\<Union>we \<in> set exports. reach rs (export_types we)) - seen)"
proof (induction exports arbitrary: seen)
  case (Cons we wes)
  have "(\<Union>we \<in> set (we # wes). reach rs (export_types we)) - seen =
      (reach rs (export_types we) - seen) \<union> ((\<Union>we \<in> set wes. reach rs (export_types we)) - (seen \<union> reach rs (export_types we)))"
    by auto
  with Cons show ?case by (simp add: entries_Un [symmetric])
qed (simp add: entries_def)

lemma import_item_names:
  "import_item rs referenced item = Inr tis \<Longrightarrow>
     (\<exists>ti \<in> set tis. ti_interface ti = i \<and> n \<in> set (ti_type_names ti)) \<longleftrightarrow>
     item = ItemInterface i \<and> n \<in> fst ` set (wi_types (rs_interfaces rs ! i)) \<and> (i, n) \<in> referenced"
  by (force simp: import_item_def Let_def map_ok_Inr_iff filter_empty_conv split: world_item.splits if_splits)

lemma import_items_names:
  "collect_res (map (\<lambda>(_, item). import_item rs referenced item) items) = Inr tss \<Longrightarrow>
     (\<exists>ti \<in> set (concat tss). ti_interface ti = i \<and> n \<in> set (ti_type_names ti)) \<longleftrightarrow>
     ItemInterface i \<in> snd ` set items \<and> n \<in> fst ` set (wi_types (rs_interfaces rs ! i)) \<and> (i, n) \<in> referenced"
proof (induction items arbitrary: tss)
  case (Cons kv items)
  obtain k item where kv: "kv = (k, item)" by force
  from Cons.prems obtain tis tss' where t: "import_item rs referenced item = Inr tis" "tss = tis # tss'"
    "collect_res (map (\<lambda>(_, item). import_item rs referenced item) items) = Inr tss'"
    by (auto simp: kv attempt_Inr_iff)
  with import_item_names [OF t(1), of i n] Cons.IH [OF t(3)] show ?case by (auto simp: kv)
qed simp


text \<open>
  The set of visited types is shared by the exports although whether a type is foreign depends on
  the export. If a function of the world refers only to types that an interface exported before it
  has reached, nothing is recorded for the function: not even the types owned by that interface, which
  are foreign to the function and which it would record on its own.
\<close>

theorem visited_types_not_recorded:
  assumes "arena_closed rs" and "exports_in_arena rs [ExportInterface ie, ExportFunction fe]"
    and "\<And>i td owner. i \<in> reach rs (export_types (ExportFunction fe)) - reach rs (export_types (ExportInterface ie)) \<Longrightarrow>
      type_at rs i = Some td \<Longrightarrow> td_owner td \<noteq> OwnerInterface owner"
  shows "\<exists>referenced. collect_referenced_foreign_types rs [ExportInterface ie, ExportFunction fe] = Some referenced \<and>
      (\<forall>n. (ie_interface ie, n) \<notin> referenced) \<and>
    collect_referenced_foreign_types rs [ExportFunction fe] =
      Some (entries rs None (reach rs (signature_types (export_func fe))))"
proof -
  have own: "(h, n) \<notin> entries rs (Some h) v" for h n v
    by (auto simp: entries_def foreign_entry_def split: if_splits option.splits type_owner.splits)
  have "entries rs None (reach rs (export_types (ExportFunction fe)) - reach rs (export_types (ExportInterface ie))) = {}"
  proof -
    have "foreign_entry rs None td = None" if "\<And>owner. td_owner td \<noteq> OwnerInterface owner" for td
      using that by (cases "td_owner td") (auto simp: foreign_entry_def split: option.split)
    with assms(3) have none: "foreign_entry rs None td = None" if "i \<in> reach rs (export_types (ExportFunction fe))"
      "i \<notin> reach rs (export_types (ExportInterface ie))" "type_at rs i = Some td" for i td
      using that by simp
    show ?thesis by (auto simp: entries_def simp del: export_types.simps dest: none)
  qed
  with own show ?thesis
    using collect_exact [OF assms(1,2)] collect_exact [OF assms(1), of "[ExportFunction fe]"] assms(2)
    by (simp add: exports_in_arena_def)
qed

lemma sample_closed: "arena_closed sample_resolve"
  by (simp add: arena_closed_def sample_resolve_def in_arena_def)

definition sample_interface :: interface_export where
  "sample_interface = \<lparr>ie_interface = 0, ie_full_name = ''test:geometry/shapes@1.0.0'',
     ie_functions = [Intercepted \<lparr>wf_name = ''norm'', wf_params = [(''p'', WId 1)], wf_result = Some WF64, wf_docs = None\<rparr>],
     ie_owned_types = [''point''], ie_used_types = []\<rparr>"

definition sample_origin :: function_export where
  "sample_origin = Intercepted \<lparr>wf_name = ''origin'', wf_params = [], wf_result = Some (WId 2), wf_docs = None\<rparr>"

lemma sample_ids: "in_arena sample_resolve (WId 0)" "in_arena sample_resolve (WId (Suc 0))" "in_arena sample_resolve (WId 2)"
  "in_arena sample_resolve WF64"
  by (simp_all add: sample_resolve_def in_arena_def)

lemma sample_reach: "reach sample_resolve [WId 0] = {0}" "reach sample_resolve [WId (Suc 0)] = {1, 0}" "reach sample_resolve [WId 2] = {2, 0}"
  "reach sample_resolve [WId (Suc 0), WF64] = {1, 0}"
proof -
  have at: "type_at sample_resolve 0 = Some \<lparr>td_name = Some ''point'', td_kind = KRecord [(''x'', WF64), (''y'', WF64)], td_owner = OwnerInterface 0\<rparr>"
    "type_at sample_resolve (Suc 0) = Some \<lparr>td_name = None, td_kind = KOption (WId 0), td_owner = OwnerNone\<rparr>"
    "type_at sample_resolve 2 = Some \<lparr>td_name = Some ''point'', td_kind = KType (WId 0), td_owner = OwnerWorld 0\<rparr>"
    by (simp_all add: type_at_def sample_resolve_def)
  show zero: "reach sample_resolve [WId 0] = {0}"
    by (simp add: reach_id [OF at(1)] reach_Cons [of _ WF64 "[WF64]"] reach_other)
  show one: "reach sample_resolve [WId (Suc 0)] = {1, 0}" "reach sample_resolve [WId 2] = {2, 0}"
    by (simp_all add: reach_id [OF at(2)] reach_id [OF at(3)] zero)
  show "reach sample_resolve [WId (Suc 0), WF64] = {1, 0}"
    by (simp add: reach_Cons [of _ "WId (Suc 0)" "[WF64]"] one reach_other)
qed


theorem visited_types_not_recorded_witness:
  "\<exists>referenced. collect_referenced_foreign_types sample_resolve [ExportInterface sample_interface, ExportFunction sample_origin] = Some referenced \<and>
      (\<forall>n. (ie_interface sample_interface, n) \<notin> referenced) \<and>
    collect_referenced_foreign_types sample_resolve [ExportFunction sample_origin] =
      Some (entries sample_resolve None (reach sample_resolve (signature_types (export_func sample_origin))))"
proof (rule visited_types_not_recorded [OF sample_closed])
  show "exports_in_arena sample_resolve [ExportInterface sample_interface, ExportFunction sample_origin]"
    by (simp add: exports_in_arena_def sample_interface_def sample_origin_def signature_types_def sample_ids)
  fix i td owner
  assume "i \<in> reach sample_resolve (export_types (ExportFunction sample_origin)) -
      reach sample_resolve (export_types (ExportInterface sample_interface))" and "type_at sample_resolve i = Some td"
  then have "i = 2" "type_at sample_resolve i = Some td"
    by (auto simp: sample_interface_def sample_origin_def signature_types_def sample_reach)
  then show "td_owner td \<noteq> OwnerInterface owner" by (auto simp: type_at_def sample_resolve_def split: if_splits)
qed

end
