(* ===== verification/Generator_Modules.thy ===== *)
theory Generator_Modules
  imports Generator_Types Extractor
begin

section \<open>The three core modules\<close>

text \<open>
  What is proved of the modules as a whole: the main module is valid for every target whose functions
  take at most 16 flat parameters; the core signatures are those of the canonical ABI exactly in that
  case; every name and type name is found at the offset the code uses; the shim reaches the function
  that the fixup put into the table; the data segment reads back as the collected text; and what the
  two bump allocators do, and do not do, with a block that is grown.
\<close>

subsection \<open>Intercepted functions of a target\<close>

definition derived :: "flattening \<Rightarrow> resolve \<Rightarrow> intercepted_function \<Rightarrow> bool" where
  "derived pf rs f \<longleftrightarrow> (\<exists>name module ifn. derive_intercepted_function pf rs name module ifn = Inr f)"

lemma derivedI: "derive_intercepted_function pf rs name module ifn = Inr f \<Longrightarrow> derived pf rs f"
  unfolding derived_def by blast

lemma collect_functions_derived:
  "collect_functions pf rs full_name k fes = Inr fs \<Longrightarrow> f \<in> set fs \<Longrightarrow> derived pf rs f"
  by (induction pf rs full_name k fes arbitrary: fs rule: collect_functions.induct)
    (auto simp: attempt_Inr_iff map_ok_Inr_iff intro: derivedI)

lemma collect_exports_derived:
  "collect_exports pf rs k wes = Inr fs \<Longrightarrow> f \<in> set fs \<Longrightarrow> derived pf rs f"
proof (induction pf rs k wes arbitrary: fs rule: collect_exports.induct)
  case (2 pf rs k ie wes)
  then show ?case by (auto simp: attempt_Inr_iff map_ok_Inr_iff dest: collect_functions_derived)
qed (auto simp: attempt_Inr_iff map_ok_Inr_iff intro: derivedI)

lemma derive_params_named:
  assumes "derived pf rs f" and "(n, t) \<in> set (if_params f)"
  shows "\<exists>s. type_name_str (type_fuel rs) rs t = Some s"
proof -
  have named: "value_discriminant fuel rs t = Some d \<Longrightarrow> \<exists>s. type_name_str fuel rs t = Some s" for fuel d
    by (induction fuel rs t rule: value_discriminant.induct) (auto split: option.splits type_kind.splits)
  have fields: "if_params f = wf_params ifn \<and>
      those (map (\<lambda>(_, t). value_discriminant (type_fuel rs) rs t) (wf_params ifn)) = Some (if_param_discriminants f)"
    if "derive_intercepted_function pf rs name import ifn = Inr f" for name import ifn
    using that unfolding derive_intercepted_function_def within_arena_def
    by (auto simp: attempt_Inr_iff ok_or_Inr_iff Let_def)
  from assms(1) obtain name import ifn where "derive_intercepted_function pf rs name import ifn = Inr f"
    unfolding derived_def by blast
  from fields [OF this] have "if_params f = wf_params ifn"
    "those (map (\<lambda>(_, t). value_discriminant (type_fuel rs) rs t) (wf_params ifn)) = Some (if_param_discriminants f)" by simp_all
  with assms(2) those_list_all2 obtain d where "value_discriminant (type_fuel rs) rs t = Some d"
    by (fastforce simp: list_all2_conv_all_nth in_set_conv_nth)
  then show ?thesis by (rule named)
qed

subsection \<open>Names in the data segment\<close>

text \<open>The bytes from an offset, as the code reads them.\<close>

definition text_at :: "string \<Rightarrow> nat \<times> nat \<Rightarrow> string" where
  "text_at all e = take (snd e) (drop (fst e) all)"

definition table_ok :: "string_table \<Rightarrow> bool" where
  "table_ok st \<longleftrightarrow> snd st = length (fst st)"

definition grows :: "string_table \<Rightarrow> string_table \<Rightarrow> bool" where
  "grows st st' \<longleftrightarrow> (\<exists>s. fst st' = fst st @ s) \<and> table_ok st'"

lemma grows_trans: "grows a b \<Longrightarrow> grows b c \<Longrightarrow> grows a c"
  by (auto simp: grows_def)

lemma text_at_extends: "fst e + snd e \<le> length (fst st) \<Longrightarrow> grows st st' \<Longrightarrow> text_at (fst st') e = text_at (fst st) e"
  by (auto simp: text_at_def grows_def)

text \<open>An entry that stays good: it lies within the text collected, and denotes the given name.\<close>

definition denotes :: "string_table \<Rightarrow> nat \<times> nat \<Rightarrow> string \<Rightarrow> bool" where
  "denotes st e s \<longleftrightarrow> fst e + snd e \<le> length (fst st) \<and> text_at (fst st) e = s"

lemma denotes_extends: "denotes st e s \<Longrightarrow> grows st st' \<Longrightarrow> denotes st' e s"
  by (auto simp: denotes_def text_at_extends) (auto simp: grows_def)

lemma push_string_ok:
  assumes "push_string st s = (st', e)" and "table_ok st"
  shows "denotes st' e s" "grows st st'"
  using assms by (auto simp: push_string_def denotes_def text_at_def grows_def table_ok_def split: prod.splits)

lemma grows_refl: "table_ok st \<Longrightarrow> grows st st"
  by (simp add: grows_def)

lemma extends_ok: "grows st st' \<Longrightarrow> table_ok st'"
  by (simp add: grows_def)

lemma push_names_ok:
  "push_names st ss = (st', es) \<Longrightarrow> table_ok st \<Longrightarrow> grows st st' \<and> list_all2 (denotes st') es ss"
proof (induction st ss arbitrary: st' es rule: push_names.induct)
  case (2 st s ss)
  obtain st1 e where one: "push_string st s = (st1, e)" by (metis surj_pair)
  obtain st2 es2 where rest: "push_names st1 ss = (st2, es2)" by (metis surj_pair)
  note first = push_string_ok [OF one "2.prems"(2)]
  have ih: "grows st1 st2" "list_all2 (denotes st2) es2 ss"
    using "2.IH" [OF one [symmetric] refl] rest extends_ok [OF first(2)] by auto
  with 2 one rest first show ?case by (auto intro: grows_trans denotes_extends)
qed (simp add: grows_refl)

definition param_denotes :: "resolve \<Rightarrow> string_table \<Rightarrow> nat \<times> nat \<times> nat \<times> nat \<Rightarrow> string \<times> wtype \<Rightarrow> bool" where
  "param_denotes rs st e p \<longleftrightarrow>
     (case e of (a, b, c, d) \<Rightarrow> denotes st (a, b) (fst p) \<and> Some (text_at (fst st) (c, d)) = type_name_str (type_fuel rs) rs (snd p) \<and>
       c + d \<le> length (fst st))"

lemma param_denotes_extends: "param_denotes rs st e p \<Longrightarrow> grows st st' \<Longrightarrow> param_denotes rs st' e p"
  by (cases e) (auto simp: param_denotes_def denotes_extends text_at_extends [of "(_, _)", simplified] grows_def text_at_def)

lemma push_params_ok:
  "(\<And>n t. (n, t) \<in> set ps \<Longrightarrow> \<exists>s. type_name_str (type_fuel rs) rs t = Some s) \<Longrightarrow> table_ok st \<Longrightarrow>
     \<exists>st' es. push_params rs st ps = Inr (st', es) \<and> grows st st' \<and> list_all2 (param_denotes rs st') es ps"
proof (induction ps arbitrary: st)
  case (Cons p ps)
  obtain n t where p: "p = (n, t)" by force
  obtain tn where tn: "type_name_str (type_fuel rs) rs t = Some tn" using Cons.prems(1) p by auto
  obtain st1 a b where one: "push_string st n = (st1, (a, b))" by (metis surj_pair)
  obtain st2 c d where two: "push_string st1 tn = (st2, (c, d))" by (metis surj_pair)
  note first = push_string_ok [OF one Cons.prems(2)]
  note second = push_string_ok [OF two extends_ok [OF first(2)]]
  obtain st' es where rest: "push_params rs st2 ps = Inr (st', es)" "grows st2 st'" "list_all2 (param_denotes rs st') es ps"
    using Cons.IH [OF _ extends_ok [OF second(2)]] Cons.prems(1) by (metis list.set_intros(2))
  have "param_denotes rs st2 (a, b, c, d) p"
    using denotes_extends [OF first(1) second(2)] second(1) tn by (simp add: param_denotes_def denotes_def p)
  with rest have "param_denotes rs st' (a, b, c, d) p" by (blast intro: param_denotes_extends)
  with rest first(2) second(2) show ?case
    by (auto simp: p one two tn within_arena_def ok_or_def intro: grows_trans)
qed (simp add: grows_refl)

lemma push_all_params_ok:
  "(\<And>f n t. f \<in> set fs \<Longrightarrow> (n, t) \<in> set (if_params f) \<Longrightarrow> \<exists>s. type_name_str (type_fuel rs) rs t = Some s) \<Longrightarrow> table_ok st \<Longrightarrow>
     \<exists>st' ess. push_all_params rs st fs = Inr (st', ess) \<and> grows st st' \<and>
       list_all2 (\<lambda>es f. list_all2 (param_denotes rs st') es (if_params f)) ess fs"
proof (induction fs arbitrary: st)
  case (Cons f fs)
  obtain st1 es where one: "push_params rs st (if_params f) = Inr (st1, es)" "grows st st1" "list_all2 (param_denotes rs st1) es (if_params f)"
    using push_params_ok [OF _ Cons.prems(2), of "if_params f" rs] Cons.prems(1) by (metis list.set_intros(1))
  obtain st' ess where rest: "push_all_params rs st1 fs = Inr (st', ess)" "grows st1 st'"
    "list_all2 (\<lambda>es f. list_all2 (param_denotes rs st') es (if_params f)) ess fs"
    using Cons.IH [OF _ extends_ok [OF one(2)]] Cons.prems(1) by (metis list.set_intros(2))
  have "list_all2 (param_denotes rs st') es (if_params f)"
    using one(3) rest(2) by (auto elim: list_all2_mono intro: param_denotes_extends)
  with one rest show ?case by (auto intro: grows_trans)
qed (simp add: grows_refl)

subsection \<open>The main module\<close>

definition implements_func :: "signature list \<Rightarrow> intercepted_function \<Rightarrow> wat_func \<Rightarrow> bool" where
  "implements_func sigs f func \<longleftrightarrow>
     valid_func sigs func \<and> wfn_export func = if_export_name f \<and>
     wfn_params func = if_core_params_lift f \<and> wfn_results func = if_core_results_lift f"

lemma interceptor_funcs_valid:
  "list_all2 (\<lambda>es f. length es = length (if_params f)) pss fs \<Longrightarrow> length ns = length fs \<Longrightarrow>
     (\<And>f. f \<in> set fs \<Longrightarrow> direct f) \<Longrightarrow> sigs = pre @ map lower_signature fs \<Longrightarrow>
     \<exists>funcs. write_interceptor_funcs (length pre) fs ns pss = Inr funcs \<and> list_all2 (implements_func sigs) fs funcs"
proof (induction arbitrary: ns pre rule: list_all2_induct)
  case (Cons es pss f fs)
  from Cons.prems(1) obtain n ns' where ns: "ns = n # ns'" "length ns' = length fs" by (cases ns) auto
  have "length pre < length sigs" "sigs ! length pre = lower_signature f" using Cons.prems(3) by simp_all
  then obtain func where func: "write_interceptor_func f (length pre) n es = Inr func" "implements_func sigs f func"
    using interceptor_func_valid [of f "length pre" sigs es n] Cons.prems(2) Cons.hyps(1) direct_params [of f]
    by (auto simp: implements_func_def)
  obtain funcs where "write_interceptor_funcs (length (pre @ [lower_signature f])) fs ns' pss = Inr funcs"
    "list_all2 (implements_func sigs) fs funcs"
    using Cons.IH [OF ns(2), of "pre @ [lower_signature f]"] Cons.prems(2,3) by auto
  with func ns(1) show ?case by simp
qed simp

lemma collected_derived: "collect_intercepted pf target = Inr fs \<Longrightarrow> f \<in> set fs \<Longrightarrow> derived pf (tw_resolve target) f"
  unfolding collect_intercepted_def by (rule collect_exports_derived)

lemma derived_direct:
  "derived pf rs f \<Longrightarrow> flat_laws pf rs \<Longrightarrow> length (concat (if_param_flat_types f)) \<le> 16 \<Longrightarrow> direct f"
  by (auto simp: derived_def direct_def dest: derive_consistent)

text \<open>The strings that the main module of a collected list of functions is built on.\<close>

lemma collected_strings:
  assumes "\<And>f. f \<in> set fs \<Longrightarrow> derived pf rs f"
  obtains st names st' params where "push_names ([], 0) (map if_func_name fs) = (st, names)"
    "push_all_params rs st fs = Inr (st', params)" "table_ok st'"
    "list_all2 (denotes st') names (map if_func_name fs)"
    "list_all2 (\<lambda>es f. list_all2 (param_denotes rs st') es (if_params f)) params fs"
proof -
  obtain st names where one: "push_names ([], 0) (map if_func_name fs) = (st, names)" by (metis surj_pair)
  have names: "grows ([], 0) st" "list_all2 (denotes st) names (map if_func_name fs)"
    using push_names_ok [OF one] by (simp_all add: table_ok_def)
  obtain st' params where two: "push_all_params rs st fs = Inr (st', params)" "grows st st'"
    "list_all2 (\<lambda>es f. list_all2 (param_denotes rs st') es (if_params f)) params fs"
    using push_all_params_ok [OF _ extends_ok [OF names(1)], of fs rs] derive_params_named [OF assms] by metis
  moreover have "list_all2 (denotes st') names (map if_func_name fs)"
    using names(2) two(2) by (auto elim: list_all2_mono intro: denotes_extends)
  ultimately show ?thesis using that one extends_ok [OF two(2)] by blast
qed

lemma main_module_built:
  assumes "\<And>f. f \<in> set fs \<Longrightarrow> derived pf rs f" and "flat_laws pf rs"
    and "\<And>f. f \<in> set fs \<Longrightarrow> length (concat (if_param_flat_types f)) \<le> 16"
  shows "\<exists>main. generate_main_module rs fs = Inr main \<and>
    map (snd \<circ> snd) (mm_target_imports main) = map lower_signature fs \<and>
    list_all2 (implements_func (map lower_signature fs)) fs (mm_funcs main)"
proof -
  obtain st names st' params where s: "push_names ([], 0) (map if_func_name fs) = (st, names)"
    "push_all_params rs st fs = Inr (st', params)" "table_ok st'"
    "list_all2 (denotes st') names (map if_func_name fs)"
    "list_all2 (\<lambda>es f. list_all2 (param_denotes rs st') es (if_params f)) params fs"
    by (rule collected_strings [OF assms(1)])
  have lens: "length names = length fs" "list_all2 (\<lambda>es f. length es = length (if_params f)) params fs"
    using list_all2_lengthD [OF s(4)] s(5) by (auto elim: list_all2_mono dest: list_all2_lengthD)
  obtain funcs where "write_interceptor_funcs 0 fs names params = Inr funcs"
    "list_all2 (implements_func (map lower_signature fs)) fs funcs"
    using interceptor_funcs_valid [OF lens(2,1) derived_direct [OF assms(1) assms(2) assms(3)], of "map lower_signature fs" "[]"] by auto
  then show ?thesis
    by (cases st') (simp add: generate_main_module_def s(1,2) Let_def o_def)
qed

text \<open>
  C19. The generated core module is valid WebAssembly. For every target whose intercepted functions take
  at most 16 flat parameters the main module is generated without a panic, and each interceptor function
  type-checks against the imports and the locals it declares: every numbered parameter, local, label and
  callee exists with the type at which it is used, and the function has the core signature that the
  component lifts.
\<close>

theorem main_module_valid:
  assumes "collect_intercepted pf target = Inr fs" and "flat_laws pf (tw_resolve target)"
    and "\<And>f. f \<in> set fs \<Longrightarrow> length (concat (if_param_flat_types f)) \<le> 16"
  shows "\<exists>main. generate_main_module (tw_resolve target) fs = Inr main \<and>
    list_all2 (\<lambda>f func. valid_func (map (snd \<circ> snd) (mm_target_imports main)) func \<and>
      wfn_export func = if_export_name f \<and> wfn_params func = if_core_params_lift f \<and> wfn_results func = if_core_results_lift f)
      fs (mm_funcs main)"
proof -
  obtain main where "generate_main_module (tw_resolve target) fs = Inr main"
    "map (snd \<circ> snd) (mm_target_imports main) = map lower_signature fs"
    "list_all2 (implements_func (map lower_signature fs)) fs (mm_funcs main)"
    using main_module_built [OF collected_derived [OF assms(1)] assms(2,3)] by blast
  then show ?thesis by (auto simp: implements_func_def [abs_def])
qed

subsection \<open>Core signatures\<close>

text \<open>The canonical ABI: at most 16 flat parameters and one flat result are passed directly.\<close>

definition canonical_lift :: "core_type list \<Rightarrow> core_type list \<Rightarrow> signature" where
  "canonical_lift params results =
     (if length params > 16 then [I32] else params, if length results > 1 then [I32] else results)"

definition canonical_lower :: "core_type list \<Rightarrow> core_type list \<Rightarrow> signature" where
  "canonical_lower params results =
     ((if length params > 16 then [I32] else params) @ (if length results > 1 then [I32] else []),
      if length results > 1 then [] else results)"

text \<open>
  C28. The core signatures of an intercepted function are those of the canonical ABI on the exporting
  side always, but on the importing side only up to 16 flat parameters: beyond that the canonical ABI
  passes a pointer there as well, while the generator keeps the long parameter list, so the component
  it builds does not validate.
\<close>

theorem core_signatures_canonical:
  assumes "derive_intercepted_function pf rs name import ifn = Inr f"
  shows "(if_core_params_lift f, if_core_results_lift f) =
      canonical_lift (concat (if_param_flat_types f)) (if_result_flat_types f) \<and>
    (lower_signature f = canonical_lower (concat (if_param_flat_types f)) (if_result_flat_types f) \<longleftrightarrow>
      length (concat (if_param_flat_types f)) \<le> 16)"
proof -
  have fields: "if_core_params_lift f = (if length (concat (if_param_flat_types f)) > 16 then [I32] else concat (if_param_flat_types f))"
    "if_core_results_lift f = (if length (if_result_flat_types f) > 1 then [I32] else if_result_flat_types f)"
    "if_core_params_lower f = concat (if_param_flat_types f) @ (if length (if_result_flat_types f) > 1 then [I32] else [])"
    "if_core_results_lower f = (if length (if_result_flat_types f) > 1 then [] else if_result_flat_types f)"
    using assms unfolding derive_intercepted_function_def
    by (auto simp: attempt_Inr_iff Let_def max_flat_params_def max_flat_results_def)
  have "concat (if_param_flat_types f) \<noteq> [I32]" if "16 < length (concat (if_param_flat_types f))"
  proof
    assume "concat (if_param_flat_types f) = [I32]"
    with that show False by (simp only: list.size)
  qed
  with fields show ?thesis
    by (auto simp: canonical_lift_def canonical_lower_def lower_signature_def simp del: length_concat)
qed

subsection \<open>Shim and fixup together\<close>

text \<open>A call of a shim function, given the table; and the table that the fixup's element segment fills.\<close>

definition run_shim :: "shim_module \<Rightarrow> (nat \<Rightarrow> ('v list \<Rightarrow> 'r) option) \<Rightarrow> string \<Rightarrow> 'v list \<Rightarrow> 'r option" where
  "run_shim m table name args =
     (case find_first (\<lambda>f. sf_export f = name) (sm_funcs m) of
        None \<Rightarrow> None
      | Some f \<Rightarrow>
          if length args = length (fst (sm_types m ! sf_type f))
          then map_option (\<lambda>g. g (map (\<lambda>i. args ! i) (sf_args f))) (table (sf_entry f)) else None)"

definition fixup_table :: "fixup_module \<Rightarrow> (string \<Rightarrow> 'f) \<Rightarrow> nat \<Rightarrow> 'f option" where
  "fixup_table m env i = (if i < length (fm_elems m) then Some (env (fst (fm_imports m ! (fm_elems m ! i)))) else None)"

lemma show_nat_eq: "show_nat a = show_nat b \<longleftrightarrow> a = b"
  by (metis option.inject parse_nat_show)

lemma show_nat_small: "show_nat 0 = ''0''" "show_nat (Suc 0) = ''1''" "show_nat 2 = ''2''"
  by code_simp+

lemma find_first_append: "find_first p (xs @ ys) = (case find_first p xs of None \<Rightarrow> find_first p ys | Some x \<Rightarrow> Some x)"
  by (induction xs) auto

lemma find_first_enumerate:
  "k < length xs \<Longrightarrow> (\<And>i x. p (h (i, x)) \<longleftrightarrow> i = n + k) \<Longrightarrow> find_first p (map h (enumerate n xs)) = Some (h (n + k, xs ! k))"
proof (induction xs arbitrary: n k)
  case (Cons x xs)
  show ?case
  proof (cases k)
    case (Suc j)
    with Cons.IH [of j "Suc n"] Cons.prems show ?thesis by simp
  qed (use Cons.prems in simp)
qed simp

text \<open>
  C29. The shim reaches the right function: once the fixup has filled the table from its imports, calling
  the shim's export of an intercepted function passes all its arguments to the import of the same
  number, which has the same core signature; the same holds for the three functions of the advice.
\<close>

theorem shim_reaches_import:
  assumes "k < 3 + length fs"
    and "length args = length (fst ((advice_types @ map lower_signature fs) ! k))"
  shows "run_shim (generate_shim_module fs) (fixup_table (generate_fixup_module fs) env) (show_nat k) args = Some (env (show_nat k) args) \<and>
    fm_types (generate_fixup_module fs) ! snd (fm_imports (generate_fixup_module fs) ! k) = (advice_types @ map lower_signature fs) ! k"
proof -
  let ?shim = "generate_shim_module fs" and ?fixup = "generate_fixup_module fs"
  have imp: "fm_imports ?fixup ! k = (show_nat k, k)"
  proof (cases "k < 3")
    case True
    then consider "k = 0" | "k = 1" | "k = 2" by linarith
    then show ?thesis by cases (simp_all add: generate_fixup_module_def Let_def show_nat_small)
  next
    case False
    then obtain j where "k = 3 + j" by (metis le_Suc_ex not_less)
    with assms(1) show ?thesis by (simp add: generate_fixup_module_def Let_def)
  qed
  then have table: "fixup_table ?fixup env k = Some (env (show_nat k))"
    using assms(1) by (simp add: fixup_table_def generate_fixup_module_def Let_def del: upt_Suc)
  obtain f where f: "find_first (\<lambda>f. sf_export f = show_nat k) (sm_funcs ?shim) = Some f" "sf_type f = k" "sf_entry f = k"
    "sf_args f = [0..<length (fst ((advice_types @ map lower_signature fs) ! k))]"
  proof (cases "k < 3")
    case True
    then consider "k = 0" | "k = 1" | "k = 2" by linarith
    then show ?thesis
      by cases (use that in \<open>simp_all add: generate_shim_module_def advice_types_def upt_rec show_nat_eq flip: show_nat_small\<close>)
  next
    case False
    then obtain j where j: "k = 3 + j" by (metis le_Suc_ex not_less)
    have "find_first (\<lambda>f. sf_export f = show_nat k) (sm_funcs ?shim) =
        find_first (\<lambda>f. sf_export f = show_nat k) (map (\<lambda>(idx, ifunc). \<lparr>sf_export = show_nat (3 + idx), sf_type = 3 + idx,
          sf_args = [0..<length (if_core_params_lower ifunc)], sf_entry = 3 + idx\<rparr>) (enumerate 0 fs))"
      using j by (simp add: generate_shim_module_def show_nat_eq flip: show_nat_small)
    also have "\<dots> = Some \<lparr>sf_export = show_nat (3 + j), sf_type = 3 + j,
          sf_args = [0..<length (if_core_params_lower (fs ! j))], sf_entry = 3 + j\<rparr>"
      using find_first_enumerate [where xs = fs and k = j and n = 0 and p = "\<lambda>f. sf_export f = show_nat k"
        and h = "\<lambda>(idx, ifunc). \<lparr>sf_export = show_nat (3 + idx), sf_type = 3 + idx,
          sf_args = [0..<length (if_core_params_lower ifunc)], sf_entry = 3 + idx\<rparr>"] j assms(1)
      by (auto simp: show_nat_eq)
    finally show ?thesis
      by (rule that) (use j assms(1) in \<open>simp_all add: advice_types_def lower_signature_def nth_append\<close>)
  qed
  have "map (\<lambda>i. args ! i) (sf_args f) = args" unfolding f(4) using assms(2) by (metis map_nth)
  then show ?thesis
    using f table assms(2) imp by (simp add: run_shim_def generate_shim_module_def generate_fixup_module_def Let_def)
qed

subsection \<open>The data segment\<close>

text \<open>A string of WebAssembly text: the escapes it knows that the generator writes; a bare quote ends it.\<close>

definition hex_value :: "char \<Rightarrow> nat option" where
  "hex_value c = (let n = (of_char c :: nat) in
     if 48 \<le> n \<and> n \<le> 57 then Some (n - 48) else if 97 \<le> n \<and> n \<le> 102 then Some (n - 87) else None)"

fun wat_string :: "string \<Rightarrow> string option" where
  "wat_string [] = Some []"
| "wat_string (c # cs) =
     (if c = CHR 0x5C then
        (case cs of
           [] \<Rightarrow> None
         | d # ds \<Rightarrow>
             if d = CHR 0x22 \<or> d = CHR 0x5C then map_option ((#) d) (wat_string ds)
             else if d = CHR ''n'' then map_option ((#) (CHR 0x0A)) (wat_string ds)
             else if d = CHR ''r'' then map_option ((#) (CHR 0x0D)) (wat_string ds)
             else if d = CHR ''t'' then map_option ((#) (CHR 0x09)) (wat_string ds)
             else (case ds of
                     [] \<Rightarrow> None
                   | e # es \<Rightarrow>
                       (case (hex_value d, hex_value e) of
                          (Some h, Some l) \<Rightarrow> map_option ((#) (char_of (16 * h + l))) (wat_string es)
                        | _ \<Rightarrow> None)))
      else if c = CHR 0x22 then None
      else map_option ((#) c) (wat_string cs))"

lemma hex_value_digit: "n < 16 \<Longrightarrow> hex_value (hex_digit n) = Some n"
  by (auto simp: hex_value_def hex_digit_def Let_def)

lemma wat_string_byte: "wat_string (escape_byte c @ s) = map_option ((#) c) (wat_string s)"
proof -
  have plain: "hex_digit n \<notin> {CHR 0x22, CHR 0x5C, CHR ''n'', CHR ''r'', CHR ''t''}" if "n < 16" for n
  proof -
    have "list_all (\<lambda>n. hex_digit n \<notin> {CHR 0x22, CHR 0x5C, CHR ''n'', CHR ''r'', CHR ''t''}) [0..<16]" by code_simp
    with that show ?thesis by (simp add: list_all_iff)
  qed
  have range: "(of_char c :: nat) div 16 < 16" "(of_char c :: nat) mod 16 < 16"
    using nat_of_char_less_256 [of c] by linarith+
  have "char_of (16 * ((of_char c :: nat) div 16) + of_char c mod 16) = c" by simp
  then show ?thesis
    using plain [OF range(1)] plain [OF range(2)] hex_value_digit [OF range(1)] hex_value_digit [OF range(2)]
    by (auto simp: escape_byte_def)
qed

text \<open>Whatever the names are, parsing the escaped text as a WebAssembly string gives back exactly its bytes.\<close>

lemma escape_wat_string_roundtrip: "wat_string (escape_wat_string s) = Some s"
  by (induction s) (simp_all add: escape_wat_string_def wat_string_byte)


subsection \<open>The allocators\<close>

lemma align_word: "and (x + (2 ^ k - 1)) (- (2 ^ k)) = push_bit k (drop_bit k (x + (2 ^ k - 1) :: 32 word))"
  by (rule bit_word_eqI) (auto simp: bit_simps minus_exp_eq_not_mask)

lemma align_value:
  assumes "k < 32" and "unat x + 2 ^ k \<le> 2 ^ 32"
  shows "unat (and (x + (2 ^ k - 1)) (- (2 ^ k)) :: 32 word) = (unat x + 2 ^ k - 1) div 2 ^ k * 2 ^ k"
proof -
  let ?y = "x + (2 ^ k - 1) :: 32 word"
  have "unat (2 ^ k - 1 :: 32 word) = 2 ^ k - 1"
  proof -
    have "(2 ^ k - 1 :: 32 word) = mask k" by (simp add: mask_eq_exp_minus_1)
    moreover have "unat (of_nat (mask k) :: 32 word) = mask k"
      using assms(1) by (simp add: unsigned_of_nat min_def del: of_nat_mask_eq)
    ultimately show ?thesis by (simp add: mask_eq_exp_minus_1)
  qed
  moreover have "unat x + (2 ^ k - 1) < 2 ^ 32"
  proof -
    have "(0 :: nat) < 2 ^ k" by simp
    with assms(2) show ?thesis by linarith
  qed
  ultimately have y: "unat ?y = unat x + 2 ^ k - 1"
    using unat_add_lem [of x "2 ^ k - 1"] by simp
  have whole: "take_bit 32 (unat ?y) = unat ?y"
    using unsigned_less [of ?y, where ?'a = nat] by (intro take_bit_nat_eq_self) simp
  have "unat (push_bit k (drop_bit k ?y)) = take_bit 32 (unat ?y div 2 ^ k * 2 ^ k)"
    by (simp only: unsigned_push_bit_eq unsigned_drop_bit_eq) (simp add: push_bit_eq_mult drop_bit_eq_div whole)
  also have "\<dots> = unat ?y div 2 ^ k * 2 ^ k"
    using div_times_less_eq_dividend [of "unat ?y" "2 ^ k"] unsigned_less [of ?y, where ?'a = nat]
    by (intro take_bit_nat_eq_self) (rule order.strict_trans1, assumption, simp)
  finally show ?thesis by (simp add: align_word y)
qed

text \<open>The locals of a call: the parameters in order, every declared local zero.\<close>

definition call_locals :: "32 word list \<Rightarrow> local_ref \<Rightarrow> 32 word" where
  "call_locals args x = (case x of Index n \<Rightarrow> if n < length args then args ! n else 0 | Named _ \<Rightarrow> 0)"

text \<open>
  C40. The allocators hand out fresh, aligned blocks as long as the address space lasts (heap pointer,
  block and alignment below \<open>2 ^ 32\<close>): \<open>$alloc\<close> at multiples of 8, \<open>cabi_realloc\<close> at multiples of the
  alignment it is asked for, 1, 2, 4 or 8. The block starts at or after the heap pointer, which moves
  to its end, so blocks never overlap. \<open>cabi_realloc\<close> does this whatever the old block is: the block of
  a growing list or string is a new one, behind the old one if that was handed out before, and no byte
  of the memory changes, so what the old block held is not in it.
\<close>

theorem allocator_blocks:
  assumes "unat heap + 8 + unat n < 2 ^ 32" and "k \<le> 3"
  shows "(\<exists>p heap'. (\<forall>mem. eval_alloc (call_locals [n], heap, mem) alloc_body = Some (p, heap', mem)) \<and>
      8 dvd unat p \<and> unat heap \<le> unat p \<and> unat heap' = unat p + unat n) \<and>
    (\<exists>p heap'. (\<forall>old_ptr old_len mem.
        eval_alloc (call_locals [old_ptr, old_len, 2 ^ k, n], heap, mem) realloc_body = Some (p, heap', mem) \<and>
        (unat old_ptr + unat old_len \<le> unat heap \<longrightarrow> unat old_ptr + unat old_len \<le> unat p)) \<and>
      2 ^ k dvd unat p \<and> unat heap \<le> unat p \<and> unat heap' = unat p + unat n)"
proof -
  have block: "2 ^ j dvd unat p \<and> unat heap \<le> unat p \<and> unat (p + n) = unat p + unat n"
    if p: "p = and (heap + (2 ^ j - 1)) (- (2 ^ j))" and j: "j \<le> 3" for p :: "32 word" and j
  proof -
    have "(2 :: nat) ^ j \<le> 2 ^ 3" using j by (rule power_increasing) simp
    then have small: "(2 :: nat) ^ j \<le> 8" by simp
    have pv: "unat p = (unat heap + 2 ^ j - 1) div 2 ^ j * 2 ^ j"
      unfolding p by (rule align_value) (use j small assms(1) in simp_all)
    have "unat heap + 2 ^ j - 1 < unat p + 2 ^ j"
      unfolding pv by (metis add.commute dividend_less_times_div mult.commute zero_less_numeral zero_less_power)
    moreover have "unat p \<le> unat heap + 2 ^ j - 1" unfolding pv by simp
    moreover have "(0 :: nat) < 2 ^ j" by simp
    ultimately have bounds: "unat heap \<le> unat p" "unat p < unat heap + 8" using small by linarith+
    with assms(1) have "unat p + unat n < 2 ^ LENGTH(32)" by simp
    then have "unat (p + n) = unat p + unat n" by (rule unat_add_lem [THEN iffD1])
    with bounds pv show ?thesis by simp
  qed
  have a: "eval_alloc (call_locals [n], heap, mem) alloc_body =
      Some (and (heap + 7) (- 8), and (heap + 7) (- 8) + n, mem)" for mem
    by (simp add: alloc_body_def call_locals_def)
  have r: "eval_alloc (call_locals [old_ptr, old_len, 2 ^ k, n], heap, mem) realloc_body =
      Some (and (heap + (2 ^ k - 1)) (- (2 ^ k)), and (heap + (2 ^ k - 1)) (- (2 ^ k)) + n, mem)" for old_ptr old_len mem
    by (simp add: realloc_body_def call_locals_def)
  show ?thesis
    unfolding a r using block [of "and (heap + 7) (- 8)" 3] block [OF refl assms(2)] by (auto intro: order_trans)
qed

theorem allocator_blocks_witness:
  "\<exists>p heap'. eval_alloc (call_locals [64, 36, 2 ^ 2, 5], 100, \<lambda>_. 0) realloc_body = Some (p, heap', \<lambda>_. 0) \<and>
     2 ^ 2 dvd unat p \<and> 64 + 36 \<le> unat p \<and> unat heap' = unat p + unat (5 :: 32 word)"
proof -
  have b: "unat (100 :: 32 word) + 8 + unat (5 :: 32 word) < 2 ^ 32" "(2 :: nat) \<le> 3" by simp_all
  obtain p heap' where p: "\<And>old_ptr old_len mem.
      eval_alloc (call_locals [old_ptr, old_len, 2 ^ 2, 5], 100, mem) realloc_body = Some (p, heap', mem) \<and>
      (unat old_ptr + unat old_len \<le> unat (100 :: 32 word) \<longrightarrow> unat old_ptr + unat old_len \<le> unat p)"
    "2 ^ 2 dvd unat p" "unat heap' = unat p + unat (5 :: 32 word)"
    using allocator_blocks [OF b] by blast
  from p(1) [of 64 36 "\<lambda>_. 0"] p(2,3) show ?thesis by (intro exI [of _ p] exI [of _ heap']) simp
qed

subsection \<open>A target\<close>

definition sample_flatten :: flattening where
  "sample_flatten rs t = Some (case t of
     WString \<Rightarrow> [WasmPointer, WasmLength] | WU64 \<Rightarrow> [WasmI64] | WS64 \<Rightarrow> [WasmI64] | WF32 \<Rightarrow> [WasmF32] | WF64 \<Rightarrow> [WasmF64]
   | WId i \<Rightarrow> if i = 1 then [WasmI32, WasmF64, WasmF64] else [WasmF64, WasmF64] | _ \<Rightarrow> [WasmI32])"

lemma sample_flat_laws: "flat_laws sample_flatten sample_resolve"
  by (auto simp: flat_laws_def sample_flatten_def type_at_def sample_resolve_def less_Suc_eq nth_Cons' split: wtype.splits if_splits)

definition sample_target :: target_world where
  "sample_target = \<lparr>tw_resolve = sample_resolve, tw_world = 0,
     tw_exports = [ExportInterface sample_interface, ExportFunction sample_origin], tw_type_imports = []\<rparr>"

definition sample_functions :: "intercepted_function list" where
  "sample_functions = (case collect_intercepted sample_flatten sample_target of Inr fs \<Rightarrow> fs | Inl _ \<Rightarrow> [])"

lemma sample_collected: "collect_intercepted sample_flatten sample_target = Inr sample_functions"
proof -
  have "case collect_intercepted sample_flatten sample_target of Inr _ \<Rightarrow> True | Inl _ \<Rightarrow> False"
    by code_simp
  then show ?thesis by (simp add: sample_functions_def split: sum.splits)
qed

lemma sample_small: "f \<in> set sample_functions \<Longrightarrow> length (concat (if_param_flat_types f)) \<le> 16"
proof -
  have "list_all (\<lambda>f. length (concat (if_param_flat_types f)) \<le> 16) sample_functions" by code_simp
  then show "f \<in> set sample_functions \<Longrightarrow> length (concat (if_param_flat_types f)) \<le> 16" by (simp add: list_all_iff)
qed

lemma sample_target_laws: "flat_laws sample_flatten (tw_resolve sample_target)"
  by (simp add: sample_target_def sample_flat_laws)

theorem main_module_valid_witness:
  "\<exists>main. generate_main_module (tw_resolve sample_target) sample_functions = Inr main \<and>
    list_all2 (\<lambda>f func. valid_func (map (snd \<circ> snd) (mm_target_imports main)) func \<and>
      wfn_export func = if_export_name f \<and> wfn_params func = if_core_params_lift f \<and> wfn_results func = if_core_results_lift f)
      sample_functions (mm_funcs main)"
  by (rule main_module_valid [OF sample_collected sample_target_laws sample_small])


theorem core_signatures_canonical_witness:
  "(if_core_params_lift (sample_functions ! 0), if_core_results_lift (sample_functions ! 0)) =
      canonical_lift (concat (if_param_flat_types (sample_functions ! 0))) (if_result_flat_types (sample_functions ! 0)) \<and>
    (lower_signature (sample_functions ! 0) =
        canonical_lower (concat (if_param_flat_types (sample_functions ! 0))) (if_result_flat_types (sample_functions ! 0)) \<longleftrightarrow>
      length (concat (if_param_flat_types (sample_functions ! 0))) \<le> 16)"
proof (rule core_signatures_canonical)
  show "derive_intercepted_function sample_flatten sample_resolve ''test:geometry/shapes@1.0.0#norm'' ''target-0''
    \<lparr>wf_name = ''norm'', wf_params = [(''p'', WId 1)], wf_result = Some WF64, wf_docs = None\<rparr> = Inr (sample_functions ! 0)"
    by code_simp
qed

theorem shim_reaches_import_witness:
  "run_shim (generate_shim_module sample_functions) (fixup_table (generate_fixup_module sample_functions) (\<lambda>name args. (name, args)))
      (show_nat 3) [1, 2, 3 :: nat] = Some ((\<lambda>name args. (name, args)) (show_nat 3) [1, 2, 3]) \<and>
    fm_types (generate_fixup_module sample_functions) ! snd (fm_imports (generate_fixup_module sample_functions) ! 3) =
      (advice_types @ map lower_signature sample_functions) ! 3"
  by (rule shim_reaches_import) code_simp+

end
