(* ===== verification/Interceptor.thy ===== *)
theory Interceptor
  imports Generator_Modules
begin

section \<open>Creating an interceptor component (\<open>crates/interceptor/src/lib.rs\<close>)\<close>

text \<open>
  The two entry points: parse the patterns, read the target, generate the core modules, have the
  component built around them and validate it. The component builder (\<open>builder.rs\<close>, \<open>encoder.rs\<close>, which
  emit component sections through wasm-encoder) and the validator of wasmparser are the parameters
  \<open>component_tools\<close>.
\<close>

datatype create_error =
    BadPattern pattern_error
  | BadTarget intercept_error
  | NoExports string
  | Generation gen_error
  | NoInterceptedFunctions
  | ValidationFailed string

record 'bytes component_tools =
  ct_flatten :: flattening
  ct_build :: "target_world \<Rightarrow> intercepted_function list \<Rightarrow> main_module \<times> shim_module \<times> fixup_module \<Rightarrow> create_error + 'bytes"
  ct_validate :: "'bytes \<Rightarrow> string + unit"

definition create :: "'b component_tools \<Rightarrow> target_world \<Rightarrow> create_error + 'b" where
  "create ct target =
     attempt (map_err Generation (generate_modules (ct_flatten ct) target)) (\<lambda>(intercepted, modules).
       if intercepted = [] then Inl NoInterceptedFunctions else ct_build ct target intercepted modules)"

definition create_and_validate :: "'b component_tools \<Rightarrow> target_world \<Rightarrow> create_error + 'b" where
  "create_and_validate ct target =
     (if tw_exports target = [] then Inl (NoExports (ww_name (rs_worlds (tw_resolve target) ! tw_world target)))
      else attempt (create ct target) (\<lambda>component_bytes.
        attempt (map_err ValidationFailed (ct_validate ct component_bytes)) (\<lambda>_. Inr component_bytes)))"

definition create_from_wit ::
  "'b component_tools \<Rightarrow> 'b wit_reader \<Rightarrow> string \<Rightarrow> string \<Rightarrow> string list \<Rightarrow> create_error + 'b" where
  "create_from_wit ct wr wit_path world patterns =
     attempt (map_err BadPattern (parse_patterns patterns)) (\<lambda>patterns.
     attempt (map_err BadTarget (extract_from_wit wr wit_path world patterns)) (create_and_validate ct))"

definition create_from_component ::
  "'b component_tools \<Rightarrow> 'b wit_reader \<Rightarrow> 'b \<Rightarrow> string list \<Rightarrow> create_error + 'b" where
  "create_from_component ct wr component_bytes patterns =
     attempt (map_err BadPattern (parse_patterns patterns)) (\<lambda>patterns.
     attempt (map_err BadTarget (extract_from_wasm wr component_bytes patterns)) (create_and_validate ct))"

subsection \<open>Which functions get an interceptor\<close>

definition is_intercepted :: "function_export \<Rightarrow> bool" where
  "is_intercepted fe = (case fe of Intercepted f \<Rightarrow> True | Bypassed f \<Rightarrow> False)"

definition core_export_name :: "string option \<Rightarrow> string \<Rightarrow> string" where
  "core_export_name iface func_name = (case iface of Some full_name \<Rightarrow> full_name @ ''#'' @ func_name | None \<Rightarrow> func_name)"

lemma derive_names:
  "derive_intercepted_function pf rs name import ifn = Inr f \<Longrightarrow> if_export_name f = name \<and> if_func_name f = wf_name ifn"
  unfolding derive_intercepted_function_def by (auto simp: attempt_Inr_iff Let_def)

lemma collect_functions_names:
  "collect_functions pf rs full_name k fes = Inr fs \<Longrightarrow>
     map if_export_name fs = map (\<lambda>fe. core_export_name (Some full_name) (export_func_name fe)) (filter is_intercepted fes)"
  by (induction pf rs full_name k fes arbitrary: fs rule: collect_functions.induct)
    (auto simp: attempt_Inr_iff map_ok_Inr_iff is_intercepted_def core_export_name_def export_func_name_def dest: derive_names)

lemma collect_exports_names:
  "collect_exports pf rs k wes = Inr fs \<Longrightarrow>
     map if_export_name fs = map (\<lambda>(n, fe). core_export_name n (export_func_name fe))
       (filter (is_intercepted \<circ> snd) (concat (map exported_functions wes)))"
proof (induction pf rs k wes arbitrary: fs rule: collect_exports.induct)
  case (2 pf rs k ie wes)
  from "2.prems" obtain fs1 fs2 where fs: "collect_functions pf rs (ie_full_name ie) k (ie_functions ie) = Inr fs1"
    "collect_exports pf rs (Suc k) wes = Inr fs2" "fs = fs1 @ fs2" by (auto simp: attempt_Inr_iff map_ok_Inr_iff)
  from collect_functions_names [OF fs(1)] "2.IH" [OF fs(1,2)] fs(3) show ?case
    by (simp add: filter_map o_def)
qed (auto simp: attempt_Inr_iff map_ok_Inr_iff is_intercepted_def core_export_name_def export_func_name_def dest: derive_names)

text \<open>
  C15. From patterns to core exports: when creation from a component succeeds, the interceptor functions
  that were generated, and handed to the builder, are those of exactly the exported functions that some
  pattern matches (all of them without patterns), in declaration order and under their core export
  names; there is at least one, and the bytes returned passed validation.
\<close>

theorem created_component_intercepts:
  assumes "create_from_component ct wr component_bytes texts = Inr bytes"
  shows "\<exists>rs patterns target fs modules.
    wr_decode wr component_bytes = Inr rs \<and> parse_patterns texts = Inr patterns \<and>
    generate_modules (ct_flatten ct) target = Inr (fs, modules) \<and> ct_build ct target fs modules = Inr bytes \<and>
    map if_export_name fs = map (\<lambda>(n, f). core_export_name n (wf_name f))
      (filter (\<lambda>(n, f). patterns = [] \<or> (\<exists>p \<in> set patterns. pattern_matches p n (wf_name f)))
        (concat (map (item_functions rs \<circ> snd) (ww_exports (rs_worlds rs ! 0))))) \<and>
    fs \<noteq> [] \<and> ct_validate ct bytes = Inr ()"
proof -
  from assms obtain patterns target rs where p: "parse_patterns texts = Inr patterns"
    and rs: "wr_decode wr component_bytes = Inr rs" "extract_target rs 0 patterns = Inr target"
    and c: "create_and_validate ct target = Inr bytes"
    by (auto simp: create_from_component_def extract_from_wasm_def attempt_Inr_iff map_err_Inr_iff split: if_splits)
  from rs(2) obtain exports where target: "extract_world_exports rs 0 patterns = Inr exports" "tw_exports target = exports"
    "tw_resolve target = rs" by (auto simp: extract_target_def attempt_Inr_iff)
  from c obtain fs modules where g: "generate_modules (ct_flatten ct) target = Inr (fs, modules)" "fs \<noteq> []"
    "ct_build ct target fs modules = Inr bytes" "ct_validate ct bytes = Inr ()"
    by (auto simp: create_and_validate_def create_def attempt_Inr_iff map_err_Inr_iff split: if_splits)
  have "map if_export_name fs = map (\<lambda>(n, fe). core_export_name n (export_func_name fe))
      (filter (is_intercepted \<circ> snd) (concat (map exported_functions exports)))"
    using g(1) target(2) by (auto simp: generate_modules_def collect_intercepted_def attempt_Inr_iff intro: collect_exports_names)
  also have "\<dots> = map (\<lambda>(n, f). core_export_name n (wf_name f))
      (filter (\<lambda>(n, f). patterns = [] \<or> (\<exists>p \<in> set patterns. pattern_matches p n (wf_name f)))
        (concat (map (item_functions rs \<circ> snd) (ww_exports (rs_worlds rs ! 0)))))"
  proof -
    have name: "export_func_name (classify patterns n f) = wf_name f" for n f
      by (simp add: classify_def export_func_name_def)
    have sel: "is_intercepted (classify patterns n f) \<longleftrightarrow> patterns = [] \<or> (\<exists>p \<in> set patterns. pattern_matches p n (wf_name f))" for n f
      by (simp add: classify_def is_intercepted_def list_ex_iff)
    from target(1) obtain wess where "exports = concat wess"
      "collect_res (map (\<lambda>(_, item). export_item rs patterns item) (ww_exports (rs_worlds rs ! 0))) = Inr wess"
      by (auto simp: extract_world_exports_def map_ok_Inr_iff)
    with export_items_functions [of rs patterns "ww_exports (rs_worlds rs ! 0)" wess] show ?thesis
      by (simp add: filter_map o_def case_prod_unfold name sel)
  qed
  finally show ?thesis using p rs(1) g by blast
qed

definition sample_tools :: "string component_tools" where
  "sample_tools = \<lparr>ct_flatten = sample_flatten, ct_build = (\<lambda>target fs modules. Inr (concat (map if_export_name fs))),
     ct_validate = (\<lambda>bytes. Inr ())\<rparr>"

definition sample_reader :: "string wit_reader" where
  "sample_reader = \<lparr>wr_decode = (\<lambda>bytes. Inr sample_resolve), wr_push_path = (\<lambda>path. Inr (sample_resolve, 0)),
     wr_select_world = (\<lambda>rs pkg name. Inr 0)\<rparr>"

theorem created_component_intercepts_witness:
  "\<exists>rs patterns target fs modules.
    wr_decode sample_reader ''wasm'' = Inr rs \<and> parse_patterns [''no*''] = Inr patterns \<and>
    generate_modules (ct_flatten sample_tools) target = Inr (fs, modules) \<and>
    ct_build sample_tools target fs modules = Inr ''test:geometry/shapes@1.0.0#norm'' \<and>
    map if_export_name fs = map (\<lambda>(n, f). core_export_name n (wf_name f))
      (filter (\<lambda>(n, f). patterns = [] \<or> (\<exists>p \<in> set patterns. pattern_matches p n (wf_name f)))
        (concat (map (item_functions rs \<circ> snd) (ww_exports (rs_worlds rs ! 0))))) \<and>
    fs \<noteq> [] \<and> ct_validate sample_tools ''test:geometry/shapes@1.0.0#norm'' = Inr ()"
  by (rule created_component_intercepts) code_simp

end
