(* ===== verification/Spec2Isabelle.thy ===== *)
theory Spec2Isabelle
  imports Config_Processor Loaders Graph Registry Channel_Concurrency Messaging_Service Http_Service Typed_Calls Runtime Interceptor
begin

section \<open>Verification of the composable runtime\<close>

text \<open>
  The program builds systems of WebAssembly components from definitions and runs them. Definitions (TOML
  files, \<open>.wasm\<close> paths, OCI references) are loaded, dispatched to configuration handlers and checked;
  they become a dependency graph with interceptor chains; the components are read, composed with what they
  import and registered; the component host instantiates them with the access that their capabilities grant
  and calls their functions on JSON values. Messages on channels and HTTP requests are mapped to
  such calls, and their results to replies and responses. The interceptor generator makes, for a
  component, another one that wraps its functions in advice. This library models these parts as they are
  written and proves what makes them correct. Each theory holds one component; its definitions bear the
  names of the source and come in its order.

  \<^bold>\<open>Shared foundations.\<close> \<open>Rt_Prelude\<close>: results as sums, with the collections \<open>result_simps\<close> and
  \<open>result_splits\<close>. \<open>Rust_Strings\<close>, \<open>Rust_Nums\<close>, \<open>Rust_Maps\<close>, \<open>Paths\<close>: the standard library as far as it is used.
  Strings are lists of UTF-8 bytes. A \<open>HashMap\<close> is an association list with distinct keys in some
  order; no theorem depends on that order where the code leaves it open. Machine integers are words.
  \<open>Json\<close>: \<open>serde_json\<close> values, with numbers as unsigned, negative and floating-point, objects sorted by key.

  \<^bold>\<open>Definitions to graph\<close> (\<open>src/config\<close>, \<open>src/composition/graph.rs\<close>). \<open>Core_Types\<close> (\<open>types.rs\<close>), \<open>Selector\<close> (\<open>config/types.rs\<close>),
  \<open>Config_Handlers\<close> (the core handlers and the contract \<open>config_handler\<close> that the dispatcher relies on, interpreted for every handler
  of the program), \<open>Config_Processor\<close> (loading, claims, dispatch, placeholders, validation), \<open>Loaders\<close>, \<open>Graph\<close>.
  Shown: the processed definitions are consistent; dispatch refines a fold over the core handlers;
  every import of a definition is an edge of the graph and precedes its component in the build order, and interceptor
  chains are built outermost first.

  \<^bold>\<open>Components to registry\<close> (\<open>src/composition\<close>). \<open>Wit_Types\<close>, \<open>Wit_Parser\<close> (\<open>wit.rs\<close>: worlds, functions, JSON schemas of types) and
  \<open>Registry\<close> (\<open>registry.rs\<close>, \<open>composer.rs\<close>). Shown: a parsed component is exactly its world; reading its types terminates;
  a registered component imports only what its capabilities and composed dependencies provide.

  \<^bold>\<open>Host and runtime\<close> (\<open>src/runtime\<close>, \<open>src/service.rs\<close>). \<open>Conversion\<close> (JSON and component values), \<open>Component_Instance\<close> (calls),
  \<open>Runtime_Host\<close> (linking, WASI context, invocation, outgoing requests), \<open>Runtime\<close> (builder, life of services, host as invoker).
  Across them, \<open>Wit_Conformance\<close> gives JSON-Schema validity and relates the schema of a type to its conversion, in the locale
  \<open>schema_relation\<close> with one interpretation each for arguments, results and their limits; \<open>Typed_Calls\<close> composes it with
  parser and instance: valid arguments reach the guest. Shown further: conversions round-trip and are well typed; a
  guest reaches exactly what its capabilities grant; a handled message has run its component; a started runtime
  serves every subscription and HTTP server; services start in order and stop in reverse.

  \<^bold>\<open>Messaging\<close> (\<open>src/message.rs\<close>, \<open>mapping.rs\<close>, \<open>schema.rs\<close>, \<open>src/messaging\<close>). \<open>Message\<close>, \<open>Schema\<close>, \<open>Mapping_Layer\<close>, \<open>Channel\<close>, \<open>Channel_Concurrency\<close>
  (interleavings as a step relation), \<open>Reply\<close>, \<open>Activator\<close>, \<open>Dispatcher\<close> (its loop as a step relation), \<open>Bus\<close>, \<open>Messaging_Service\<close>. Shown:
  each message is delivered to each group exactly once and in order; a request is answered if and only if it was handled; shutdown lets
  dispatchers drain and exit, if no publication is suspended then (those with the same group share what is queued); arguments
  are the substituted templates or the members of the body; replies are coerced at the string positions of their schema only.

  \<^bold>\<open>HTTP server\<close> (\<open>crates/http-server\<close>). \<open>Http_Routes\<close>, \<open>Http_Config\<close>, \<open>Http_Match\<close>, \<open>Http_Server\<close>, \<open>Http_Service\<close>. Shown: accepted configurations have
  exclusive routes; a request becomes the message that the route describes and gets the component's reply.

  \<^bold>\<open>Interceptor generator\<close> (\<open>crates/interceptor\<close>). \<open>Matcher\<close>, \<open>Extractor\<close>, \<open>Generator\<close> with \<open>Wat\<close> (instruction trees of the emitted text),
  \<open>Generator_Types\<close> and \<open>Generator_Modules\<close> (validity of the emitted modules by WebAssembly's typing), \<open>Interceptor\<close>. Shown: patterns
  select what they say; the emitted modules are valid, their strings are laid out as referenced, their signatures are
  canonical up to the limit found, shims reach their imports, and the allocators hand out fresh blocks (\<open>Wat\<close> runs them over
  locals, heap pointer and memory).

  \<^bold>\<open>Conventions.\<close> Code outside the repository is a parameter: a record of operations (wasmtime: \<open>instance_ops\<close>,
  \<open>host_ops\<close>, \<open>linker_ops\<close>; component tools: \<open>wasm_tools\<close>; tokio queues: \<open>mpsc_ops\<close>, \<open>broadcast_ops\<close> with their documented contracts; validators, clocks and
  identifiers), with executable instances in the witnesses. Errors are datatypes of their own where the code formats texts; panics are error values or \<open>None\<close>.
  A call that may block returns \<open>'a waiting\<close>. wit-parser's arena is a record with positions as identifiers;
  recursion through it takes fuel, the number of types, which suffices since a type refers only to earlier ones
  (\<open>type_reading_terminates\<close>). Loops that run until shutdown are step relations.

  \<^bold>\<open>Not modelled.\<close> \<open>encoder.rs\<close> and \<open>builder.rs\<close> of the interceptor write binary sections through wasm-encoder and are the parameter \<open>ct_build\<close>; the
  gRPC bridge and OpenTelemetry forward to external crates; the command line and \<open>main.rs\<close> files parse
  arguments and print; the set-up of the wasmtime engine, signals, sockets and the five-second wait for open
  connections belong to the surroundings.
\<close>

end
